(* ===== verification/Prelude.thy ===== *)
theory Prelude
  imports Main "HOL-Library.Word" "HOL-Library.Monad_Syntax"
begin

text \<open>
  Shared vocabulary of the ZBProxy development: bytes, Go strings, Go errors, slices,
  big- and little-endian integers, and the \<open>option\<close> monad whose \<open>None\<close> is a run-time panic of
  the Go program.

  Conventions used by every theory:
  \<^item> an operation that may panic returns an \<open>option\<close>; \<open>None\<close> is the panic, and the do-notation
    of \<open>Monad_Syntax\<close> is the sequencing of statements (a panic stops the sequence);
  \<^item> a Go result \<open>(value, err)\<close> is a pair with an \<open>go_error option\<close>, \<open>None\<close> being \<open>nil\<close>;
  \<^item> Go's \<open>int\<close> (64 bit) is \<open>int\<close>; fixed-width integers are words of their width;
  \<^item> a Go string is a \<open>string\<close> whose characters are its bytes.
\<close>

unbundle bit_operations_syntax

type_synonym byte = "8 word"
type_synonym bytes = "8 word list"

section \<open>Errors\<close>

text \<open>
  The error values the packages declare or pass on, the message-only errors of
  \<open>errors.New\<close> and \<open>fmt.Errorf\<close> (\<open>ErrText\<close>), and \<open>common.Cause\<close> (common/errors.go).
\<close>

datatype go_error =
    EOF | ErrUnexpectedEOF | ErrShortBuffer | ErrShortWrite | ErrNoProgress | ErrClosedPipe
  | NetErrClosed | ErrTimeout | ErrOsClosed | ErrOsInvalid
  | ErrNegativeRead | ErrBadBufferSize | ErrVarIntTooBig | ErrBadPacket
  | ErrNotProxyProtocol | ErrRejected | ErrRuleTypeNotFound | ErrInjectionRequired
  | AuthErrEmpty | AuthErrTooLong | AuthErrMismatch | AuthErrShortRead | AuthErrWriteFailed
  | TunErrBadMagic | TunErrBadVersion | TunErrTooShort | TunErrTooLong
  | ErrText string
  | CauseError string go_error

definition Cause :: "string \<Rightarrow> go_error \<Rightarrow> go_error" where
  "Cause cause err = CauseError cause err"

text \<open>\<open>Unwrap\<close> follows inner errors to the innermost one.\<close>

fun Unwrap :: "go_error \<Rightarrow> go_error" where
  "Unwrap (CauseError _ inner) = Unwrap inner"
| "Unwrap e = e"

lemma Unwrap_Cause [simp]: "Unwrap (Cause c e) = Unwrap e"
  by (simp add: Cause_def)

lemma Unwrap_not_Cause: "Unwrap e \<noteq> CauseError c e'"
  by (induction e) auto

lemma Unwrap_idem [simp]: "Unwrap (Unwrap e) = Unwrap e"
  by (induction e) auto

section \<open>The option monad as panic\<close>

text \<open>\<open>guard_panic c\<close> panics unless \<open>c\<close>: the bounds checks Go inserts.\<close>

definition guard_panic :: "bool \<Rightarrow> unit option" where
  "guard_panic c = (if c then Some () else None)"

lemma guard_panic_simps [simp]:
  "guard_panic True = Some ()" "guard_panic False = None"
  by (simp_all add: guard_panic_def)

lemma guard_panic_eq_Some [simp]: "(guard_panic c = Some u) = c"
  by (simp add: guard_panic_def)

lemma bind_guard_panic [simp]: "(guard_panic c \<bind> f) = (if c then f () else None)"
  by (simp add: guard_panic_def)

text \<open>A sum \<open>go_error + value\<close> is a call that returns either an error or a value.\<close>

definition map_Inr :: "('a \<Rightarrow> 'b) \<Rightarrow> 'e + 'a \<Rightarrow> 'e + 'b" where
  "map_Inr f r = (case r of Inl e \<Rightarrow> Inl e | Inr x \<Rightarrow> Inr (f x))"

lemma map_Inr_simps [simp]: "map_Inr f (Inr x) = Inr (f x)" "map_Inr f (Inl e) = Inl e"
  by (simp_all add: map_Inr_def)

text \<open>
  A call that blocks for ever on a mutex its caller holds is told apart from a panic where a model
  follows both.
\<close>

datatype 'a outcome = Returns 'a | Blocks

text \<open>A computation that may panic (\<open>None\<close>), never return (\<open>Some Blocks\<close>) or return, after another.\<close>

definition on_return :: "'a outcome option \<Rightarrow> ('a \<Rightarrow> 'b outcome option) \<Rightarrow> 'b outcome option" where
  "on_return r f =
     (case r of
        None \<Rightarrow> None
      | Some Blocks \<Rightarrow> Some Blocks
      | Some (Returns x) \<Rightarrow> f x)"

lemma on_return_simps [simp]:
  "on_return None f = None" "on_return (Some Blocks) f = Some Blocks" "on_return (Some (Returns x)) f = f x"
  by (simp_all add: on_return_def)

lemma outcome_map_Returns: "map_outcome f r = Returns y \<Longrightarrow> \<exists>x. r = Returns x \<and> f x = y"
  by (cases r) auto

lemma on_return_Returns: "on_return r f = Some (Returns y) \<longleftrightarrow> (\<exists>x. r = Some (Returns x) \<and> f x = Some (Returns y))"
  by (simp add: on_return_def split: option.split outcome.split)

section \<open>Running operations and simulation\<close>

text \<open>
  A component is a step function from an operation and a state to an output and a state, or a
  panic. \<open>run\<close> performs a list of operations and collects the outputs; the locale states
  that a specification step mirrors an implementation step through an abstraction function,
  and lifts this to every run.\<close>

fun run_ops :: "('op \<Rightarrow> 's \<Rightarrow> ('o \<times> 's) option) \<Rightarrow> 'op list \<Rightarrow> 's \<Rightarrow> ('o list \<times> 's) option" where
  "run_ops step [] s = Some ([], s)"
| "run_ops step (x # xs) s = do {
     (y, s') \<leftarrow> step x s;
     (ys, s'') \<leftarrow> run_ops step xs s';
     Some (y # ys, s'')
   }"

locale simulation =
  fixes step :: "'op \<Rightarrow> 's \<Rightarrow> ('o \<times> 's) option"
    and spec :: "'op \<Rightarrow> 'a \<Rightarrow> ('o \<times> 'a) option"
    and abst :: "'s \<Rightarrow> 'a"
    and inv :: "'s \<Rightarrow> bool"
  assumes step_sim: "inv s \<Longrightarrow> spec x (abst s) = map_option (\<lambda>(y, s'). (y, abst s')) (step x s)"
    and step_inv: "inv s \<Longrightarrow> step x s = Some (y, s') \<Longrightarrow> inv s'"
begin

lemma run_sim:
  "inv s \<Longrightarrow> run_ops spec xs (abst s) = map_option (\<lambda>(ys, s'). (ys, abst s')) (run_ops step xs s)"
proof (induction xs arbitrary: s)
  case Nil
  then show ?case by simp
next
  case (Cons x xs)
  show ?case
  proof (cases "step x s")
    case None
    then show ?thesis using step_sim [OF Cons.prems, of x] by simp
  next
    case (Some r)
    then obtain y s' where r: "step x s = Some (y, s')" by (cases r) auto
    note IH = Cons.IH [OF step_inv [OF Cons.prems r]]
    show ?thesis
      using step_sim [OF Cons.prems, of x] r IH
      by (cases "run_ops step xs s'") auto
  qed
qed

lemma run_inv: "inv s \<Longrightarrow> run_ops step xs s = Some (ys, s') \<Longrightarrow> inv s'"
proof (induction xs arbitrary: s ys)
  case Nil
  then show ?case by simp
next
  case (Cons x xs)
  then obtain y s1 zs where "step x s = Some (y, s1)" "run_ops step xs s1 = Some (zs, s')"
    by (auto simp: bind_eq_Some_conv)
  then show ?case using Cons.IH Cons.prems(1) step_inv by blast
qed

end

section \<open>Slices\<close>

text \<open>
  A Go slice is modelled by the part of its backing array that starts at the slice's first
  element, so the list's length is the slice's capacity; the slice's length is kept beside it.
  Slicing \<open>s[a:b]\<close> is legal for \<open>0 \<le> a \<le> b \<le> cap(s)\<close>, indexing \<open>s[i]\<close> for \<open>0 \<le> i < len(s)\<close>.
\<close>

definition go_slice :: "'a list \<Rightarrow> int \<Rightarrow> int \<Rightarrow> 'a list option" where
  "go_slice arr a b =
     (if 0 \<le> a \<and> a \<le> b \<and> b \<le> int (length arr)
      then Some (take (nat (b - a)) (drop (nat a) arr)) else None)"

definition go_index :: "'a list \<Rightarrow> int \<Rightarrow> int \<Rightarrow> 'a option" where
  "go_index arr len i = (if 0 \<le> i \<and> i < len \<and> i < int (length arr) then Some (arr ! nat i) else None)"

text \<open>\<open>put_at xs i ys\<close> stores \<open>ys\<close> into \<open>xs\<close> from position \<open>i\<close> on.\<close>

definition put_at :: "'a list \<Rightarrow> nat \<Rightarrow> 'a list \<Rightarrow> 'a list" where
  "put_at xs i ys = take i xs @ ys @ drop (i + length ys) xs"

lemma length_put_at [simp]: "i + length ys \<le> length xs \<Longrightarrow> length (put_at xs i ys) = length xs"
  by (simp add: put_at_def)

lemma put_at_Nil [simp]: "put_at xs i [] = xs"
  by (simp add: put_at_def)

lemma take_put_at_le [simp]: "k \<le> i \<Longrightarrow> i \<le> length xs \<Longrightarrow> take k (put_at xs i ys) = take k xs"
  by (simp add: put_at_def min_def)

lemma drop_put_at_ge:
  "i + length ys \<le> k \<Longrightarrow> i + length ys \<le> length xs \<Longrightarrow> drop k (put_at xs i ys) = drop k xs"
  by (simp add: put_at_def)

lemma put_at_segment:
  "i + length ys \<le> length xs \<Longrightarrow> take (length ys) (drop i (put_at xs i ys)) = ys"
  by (simp add: put_at_def)

lemma segment_put_at_end:
  assumes "s \<le> e" "e + length ys \<le> length xs"
  shows "take (e + length ys - s) (drop s (put_at xs e ys)) = take (e - s) (drop s xs) @ ys"
  using assms by (cases ys) (auto simp: put_at_def take_drop min_def)

lemma segment_put_at_front:
  assumes "length ys \<le> s" "s \<le> e" "e \<le> length xs"
  shows "take (e - (s - length ys)) (drop (s - length ys) (put_at xs (s - length ys) ys))
         = ys @ take (e - s) (drop s xs)"
  using assms by (simp add: put_at_def)

lemma nth_put_at:
  "i + length ys \<le> length xs \<Longrightarrow> k < length xs \<Longrightarrow>
   put_at xs i ys ! k = (if i \<le> k \<and> k < i + length ys then ys ! (k - i) else xs ! k)"
  by (auto simp: put_at_def nth_append min_def not_less)

section \<open>Strings and bytes\<close>

definition str_bytes :: "string \<Rightarrow> bytes" where
  "str_bytes s = map of_char s"

definition bytes_str :: "bytes \<Rightarrow> string" where
  "bytes_str bs = map (\<lambda>b. char_of (unat b)) bs"

lemma unat_of_char_byte: "unat (of_char c :: byte) = of_char c"
proof -
  have "unat (of_nat (of_char c) :: byte) = (of_char c :: nat) mod 256"
    by (simp add: unsigned_of_nat take_bit_eq_mod)
  then show ?thesis by (simp add: of_nat_of_char)
qed

lemma of_char_char_of_byte: "(of_char (char_of (unat b)) :: byte) = b"
proof -
  have "of_nat (of_char (char_of (unat b)) :: nat) = (of_nat (unat b mod 256) :: byte)"
    by simp
  also have "unat b mod 256 = unat b"
  proof -
    have "unat b < 2 ^ LENGTH(8)" by (rule unsigned_less)
    then show ?thesis by simp
  qed
  finally have "(of_nat (of_char (char_of (unat b)) :: nat) :: byte) = b" by simp
  then show ?thesis unfolding of_nat_of_char .
qed

lemma bytes_str_str_bytes [simp]: "bytes_str (str_bytes s) = s"
  by (induction s) (simp_all add: bytes_str_def str_bytes_def unat_of_char_byte)

lemma str_bytes_bytes_str [simp]: "str_bytes (bytes_str bs) = bs"
  by (induction bs) (simp_all add: bytes_str_def str_bytes_def of_char_char_of_byte)

lemma length_str_bytes [simp]: "length (str_bytes s) = length s"
  by (simp add: str_bytes_def)

lemma length_bytes_str [simp]: "length (bytes_str bs) = length bs"
  by (simp add: bytes_str_def)

lemma str_bytes_eq_Nil [simp]: "str_bytes s = [] \<longleftrightarrow> s = []"
  by (simp add: str_bytes_def)

lemma str_bytes_inject [simp]: "str_bytes s = str_bytes t \<longleftrightarrow> s = t"
  by (metis bytes_str_str_bytes)

text \<open>\<open>strings.ToLower\<close> on ASCII; bytes from 128 on are kept.\<close>

definition char_lower :: "char \<Rightarrow> char" where
  "char_lower c = (if (65 :: nat) \<le> of_char c \<and> (of_char c :: nat) \<le> 90
                   then char_of ((of_char c :: nat) + 32) else c)"

definition str_lower :: "string \<Rightarrow> string" where
  "str_lower s = map char_lower s"

lemma char_lower_idem [simp]: "char_lower (char_lower c) = char_lower c"
proof (cases "(65 :: nat) \<le> of_char c \<and> (of_char c :: nat) \<le> 90")
  case True
  then have "(of_char (char_lower c) :: nat) = of_char c + 32"
    by (simp add: char_lower_def)
  then show ?thesis using True by (subst char_lower_def) simp
qed (auto simp: char_lower_def)

lemma str_lower_idem [simp]: "str_lower (str_lower s) = str_lower s"
  by (simp add: str_lower_def)

section \<open>encoding/binary\<close>

lemma word_of_unat: "unat w = k \<Longrightarrow> (w :: 'a::len word) = of_nat k"
  by auto

text \<open>
  \<open>binary.LittleEndian\<close> and \<open>binary.BigEndian\<close> at any width: \<open>le_bytes n w\<close> are the low \<open>n\<close>
  bytes of \<open>w\<close>, least significant first.
\<close>

primrec le_bytes :: "nat \<Rightarrow> 'a::len word \<Rightarrow> bytes" where
  "le_bytes 0 w = []"
| "le_bytes (Suc n) w = ucast w # le_bytes n (drop_bit 8 w)"

primrec le_word :: "bytes \<Rightarrow> 'a::len word" where
  "le_word [] = 0"
| "le_word (b # bs) = ucast b OR push_bit 8 (le_word bs)"

definition be_bytes :: "nat \<Rightarrow> 'a::len word \<Rightarrow> bytes" where
  "be_bytes n w = rev (le_bytes n w)"

definition be_word :: "bytes \<Rightarrow> 'a::len word" where
  "be_word bs = le_word (rev bs)"

lemma length_le_bytes [simp]: "length (le_bytes n w) = n"
  by (induction n arbitrary: w) simp_all

lemma length_be_bytes [simp]: "length (be_bytes n w) = n"
  by (simp add: be_bytes_def)

lemma le_word_le_bytes: "le_word (le_bytes n w) = take_bit (8 * n) (w :: 'a::len word)"
proof (induction n arbitrary: w)
  case 0
  then show ?case by simp
next
  case (Suc n)
  have "ucast (ucast w :: byte) OR push_bit 8 (take_bit (8 * n) (drop_bit 8 w))
        = take_bit (8 * Suc n) w"
    by (rule bit_word_eqI) (auto simp: bit_simps)
  with Suc show ?case by simp
qed

lemma le_word_le_bytes_full [simp]:
  "LENGTH('a) \<le> 8 * n \<Longrightarrow> le_word (le_bytes n w) = (w :: 'a::len word)"
  by (simp add: le_word_le_bytes take_bit_word_eq_self)

lemma be_word_be_bytes_full [simp]:
  "LENGTH('a) \<le> 8 * n \<Longrightarrow> be_word (be_bytes n w) = (w :: 'a::len word)"
  by (simp add: be_word_def be_bytes_def)

lemma take_bit_le_word:
  "8 * length bs \<le> LENGTH('a) \<Longrightarrow> take_bit (8 * length bs) (le_word bs) = (le_word bs :: 'a::len word)"
proof (induction bs)
  case Nil
  then show ?case by simp
next
  case (Cons b bs)
  have "take_bit (8 + 8 * length bs) (ucast b OR push_bit 8 (w :: 'a word)) =
        ucast b OR push_bit 8 (take_bit (8 * length bs) w)" for w
    by (rule bit_word_eqI) (auto simp: bit_simps dest: bit_imp_le_length)
  with Cons show ?case by simp
qed

lemma le_bytes_le_word [simp]:
  "length bs = n \<Longrightarrow> 8 * n \<le> LENGTH('a) \<Longrightarrow> le_bytes n (le_word bs :: 'a::len word) = bs"
proof (induction bs arbitrary: n)
  case Nil
  then show ?case by simp
next
  case (Cons b bs)
  then obtain m where n: "n = Suc m" "length bs = m" by (cases n) auto
  have l: "8 + 8 * length bs \<le> LENGTH('a)" using Cons.prems n by simp
  let ?w = "le_word bs :: 'a word"
  have "drop_bit 8 (ucast b OR push_bit 8 (take_bit (8 * length bs) ?w)) = take_bit (8 * length bs) ?w"
    using l by (intro bit_word_eqI) (auto simp: bit_simps dest: bit_imp_le_length)
  moreover have "take_bit (8 * length bs) ?w = ?w" using l by (intro take_bit_le_word) simp
  moreover have "(ucast (ucast b OR push_bit 8 ?w) :: byte) = b"
    using l by (intro bit_word_eqI) (auto simp: bit_simps)
  ultimately show ?case using Cons.IH [OF n(2)] l n by simp
qed

lemma be_bytes_be_word [simp]:
  "length bs = n \<Longrightarrow> 8 * n \<le> LENGTH('a) \<Longrightarrow> be_bytes n (be_word bs :: 'a::len word) = bs"
  by (simp add: be_bytes_def be_word_def)

end
