(* ===== verification/GoIO.thy ===== *)
theory GoIO
  imports Prelude
begin

text \<open>
  The parts of Go's \<open>io\<close> package the program relies on, and the helpers of
  \<open>common/rw/read.go\<close>. A reader is the function \<open>Read(p)\<close> of its state, given \<open>len(p)\<close>;
  the locale \<open>io_reader\<close> is the contract clients use, interpreted here on the read side of
  a network connection (an arbitrary script of segments and failures) and later on the
  buffered connection.
\<close>

type_synonym 's reader = "nat \<Rightarrow> 's \<Rightarrow> ((bytes \<times> go_error option) \<times> 's) option"
type_synonym 's byte_reader = "'s \<Rightarrow> ((byte \<times> go_error option) \<times> 's) option"
type_synonym 's writer = "bytes \<Rightarrow> 's \<Rightarrow> ((nat \<times> go_error option) \<times> 's) option"

section \<open>io.ReadAtLeast and io.ReadFull\<close>

text \<open>
  The loop of \<open>io.ReadAtLeast\<close>: \<open>acc\<close> holds the bytes read so far into a buffer of \<open>cap\<close>
  bytes. It may not end (a reader may return \<open>0, nil\<close> for ever), so it is a partial function:
  \<open>None\<close> is divergence or a panic of the reader.
\<close>

partial_function (option) ReadAtLeast_loop ::
  "'s reader \<Rightarrow> nat \<Rightarrow> nat \<Rightarrow> bytes \<Rightarrow> 's \<Rightarrow> ((bytes \<times> go_error option) \<times> 's) option" where
  "ReadAtLeast_loop rd cap least acc s =
     (if least \<le> length acc then Some ((acc, None), s)
      else Option.bind (rd (cap - length acc) s) (\<lambda>((bs, err), s').
        (case err of
           Some e \<Rightarrow> Some ((acc @ bs, Some e), s')
         | None \<Rightarrow> ReadAtLeast_loop rd cap least (acc @ bs) s')))"

definition ReadAtLeast :: "'s reader \<Rightarrow> nat \<Rightarrow> nat \<Rightarrow> 's \<Rightarrow> ((bytes \<times> go_error option) \<times> 's) option" where
  "ReadAtLeast rd cap least s =
     (if cap < least then Some (([], Some ErrShortBuffer), s)
      else do {
        ((bs, err), s') \<leftarrow> ReadAtLeast_loop rd cap least [] s;
        Some ((bs, if least \<le> length bs then None
                   else if bs \<noteq> [] \<and> err = Some EOF then Some ErrUnexpectedEOF else err), s')
      })"

definition ReadFull :: "'s reader \<Rightarrow> nat \<Rightarrow> 's \<Rightarrow> ((bytes \<times> go_error option) \<times> 's) option" where
  "ReadFull rd n s = ReadAtLeast rd n n s"

section \<open>common/rw\<close>

text \<open>\<open>ByteReaderWrapper.ReadByte\<close>: the one-byte array keeps its zero when nothing was read.\<close>

definition ByteReaderWrapper :: "'s reader \<Rightarrow> 's byte_reader" where
  "ByteReaderWrapper rd s = do {
     ((bs, err), s') \<leftarrow> ReadFull rd 1 s;
     Some ((case bs of [] \<Rightarrow> 0 | b # _ \<Rightarrow> b, err), s')
   }"

text \<open>\<open>CreateByteReader\<close>: the reader's own \<open>ReadByte\<close> when it has one, the wrapper otherwise.\<close>

definition CreateByteReader :: "'s byte_reader option \<Rightarrow> 's reader \<Rightarrow> 's byte_reader" where
  "CreateByteReader own rd = (case own of Some br \<Rightarrow> br | None \<Rightarrow> ByteReaderWrapper rd)"

definition rw_ReadByte :: "'s byte_reader option \<Rightarrow> 's reader \<Rightarrow> 's byte_reader" where
  "rw_ReadByte own rd s = (case own of
     Some br \<Rightarrow> br s
   | None \<Rightarrow> do {
       ((bs, err), s') \<leftarrow> ReadFull rd 1 s;
       Some ((case bs of [] \<Rightarrow> 0 | b # _ \<Rightarrow> b, err), s')
     })"

text \<open>\<open>rw.ReadBytes\<close>: the bytes, or \<open>nil\<close> with the error.\<close>

definition rw_ReadBytes :: "'s reader \<Rightarrow> nat \<Rightarrow> 's \<Rightarrow> ((bytes \<times> go_error option) \<times> 's) option" where
  "rw_ReadBytes rd n s = do {
     ((bs, err), s') \<leftarrow> ReadFull rd n s;
     (case err of Some e \<Rightarrow> Some (([], Some e), s') | None \<Rightarrow> Some ((bs, None), s'))
   }"

section \<open>The reader contract\<close>

text \<open>
  \<open>pending s\<close> are the bytes the reader will deliver before its first error, \<open>rank\<close> bounds
  the reads that deliver less than they were asked for, \<open>inv\<close> is the provider's invariant.
\<close>

locale io_reader =
  fixes rd :: "'s reader"
    and pending :: "'s \<Rightarrow> bytes"
    and rank :: "'s \<Rightarrow> nat"
    and inv :: "'s \<Rightarrow> bool"
  assumes rd_delivers:
    "inv s \<Longrightarrow> 0 < k \<Longrightarrow> pending s \<noteq> [] \<Longrightarrow>
     \<exists>bs s'. rd k s = Some ((bs, None), s') \<and> pending s = bs @ pending s' \<and> inv s' \<and>
             length bs \<le> k \<and> rank s' \<le> rank s \<and>
             (rank s' < rank s \<or> length bs = k)"
begin

lemma loop_delivers:
  "inv s \<Longrightarrow> least \<le> length acc + length (pending s) \<Longrightarrow> least \<le> cap \<Longrightarrow> length acc \<le> cap \<Longrightarrow>
   \<exists>bs s'. ReadAtLeast_loop rd cap least acc s = Some ((acc @ bs, None), s') \<and>
           pending s = bs @ pending s' \<and> inv s' \<and> least \<le> length (acc @ bs) \<and> length (acc @ bs) \<le> cap"
proof (induction "rank s + (cap - length acc)" arbitrary: acc s rule: less_induct)
  case less
  show ?case
  proof (cases "least \<le> length acc")
    case True
    then show ?thesis using less.prems by (subst ReadAtLeast_loop.simps) auto
  next
    case False
    then have room: "0 < cap - length acc" using less.prems by linarith
    from False less.prems have "pending s \<noteq> []" by auto
    from rd_delivers [OF less.prems(1) room this] obtain bs s' where
      r: "rd (cap - length acc) s = Some ((bs, None), s')" and p: "pending s = bs @ pending s'"
      and i: "inv s'" and l: "length bs \<le> cap - length acc"
      and le: "rank s' \<le> rank s" and d: "rank s' < rank s \<or> length bs = cap - length acc"
      by auto
    have smaller: "rank s' + (cap - length (acc @ bs)) < rank s + (cap - length acc)"
      using d l le room by auto
    have "least \<le> length (acc @ bs) + length (pending s')" using less.prems(2) p by simp
    moreover have "length (acc @ bs) \<le> cap" using l less.prems(4) by simp
    ultimately obtain cs s'' where
      rest: "ReadAtLeast_loop rd cap least (acc @ bs) s' = Some (((acc @ bs) @ cs, None), s'')"
      and "pending s' = cs @ pending s''" "inv s''"
      "least \<le> length ((acc @ bs) @ cs)" "length ((acc @ bs) @ cs) \<le> cap"
      using less.hyps [OF smaller i _ less.prems(3)] by blast
    moreover have "ReadAtLeast_loop rd cap least acc s = Some ((acc @ (bs @ cs), None), s'')"
      using False r rest by (subst ReadAtLeast_loop.simps) simp
    ultimately show ?thesis using p by (metis append.assoc)
  qed
qed

lemma ReadAtLeast_delivers:
  assumes "inv s" "least \<le> length (pending s)" "least \<le> cap"
  shows "\<exists>bs s'. ReadAtLeast rd cap least s = Some ((bs, None), s') \<and>
                 pending s = bs @ pending s' \<and> inv s' \<and> least \<le> length bs \<and> length bs \<le> cap"
  using loop_delivers [of s least "[]" cap] assms by (auto simp: ReadAtLeast_def)

lemma ReadFull_delivers:
  assumes "inv s" "n \<le> length (pending s)"
  shows "\<exists>s'. ReadFull rd n s = Some ((take n (pending s), None), s') \<and>
              pending s' = drop n (pending s) \<and> inv s'"
proof -
  obtain bs s' where "ReadAtLeast rd n n s = Some ((bs, None), s')"
    "pending s = bs @ pending s'" "inv s'" "length bs = n"
    using ReadAtLeast_delivers [OF assms(1,2), of n] by (auto simp: le_antisym)
  then show ?thesis by (auto simp: ReadFull_def)
qed

lemma ByteReaderWrapper_delivers:
  assumes "inv s" "pending s = b # rest"
  shows "\<exists>s'. ByteReaderWrapper rd s = Some ((b, None), s') \<and> pending s' = rest \<and> inv s'"
  using ReadFull_delivers [OF assms(1), of 1] assms(2) by (auto simp: ByteReaderWrapper_def)

end

text \<open>
  The contract of an \<open>io.ByteReader\<close>: it hands out the pending bytes one by one.\<close>

locale byte_source =
  fixes rb :: "'s byte_reader"
    and src :: "'s \<Rightarrow> bytes"
    and inv :: "'s \<Rightarrow> bool"
  assumes rb_delivers:
    "inv s \<Longrightarrow> src s = b # rest \<Longrightarrow> \<exists>s'. rb s = Some ((b, None), s') \<and> src s' = rest \<and> inv s'"

sublocale io_reader \<subseteq> wrapped: byte_source "ByteReaderWrapper rd" pending inv
  using ByteReaderWrapper_delivers by unfold_locales

section \<open>The read side of a network connection\<close>

text \<open>
  What the peer and the kernel do is a script: each \<open>Chunk\<close> is a segment that one \<open>Read\<close>
  may return (or several, when the buffer is smaller), each \<open>Fail\<close> an error (a timeout, a
  reset). When the script is exhausted the peer has closed: \<open>EOF\<close>.
\<close>

datatype net_event = Chunk bytes | Fail go_error

type_synonym net_in = "net_event list"

fun net_Read :: "net_in reader" where
  "net_Read k [] = Some (([], Some EOF), [])"
| "net_Read k (Fail e # r) = Some (([], Some e), r)"
| "net_Read k (Chunk c # r) =
     (if k = 0 then Some (([], None), Chunk c # r)
      else if length c \<le> k then Some ((c, None), r)
      else Some ((take k c, None), Chunk (drop k c) # r))"

fun net_pending :: "net_in \<Rightarrow> bytes" where
  "net_pending (Chunk c # r) = c @ net_pending r"
| "net_pending _ = []"

interpretation net: io_reader net_Read net_pending length "\<lambda>_. True"
proof
  fix s :: net_in and k :: nat
  assume "0 < k" "net_pending s \<noteq> []"
  then show "\<exists>bs s'. net_Read k s = Some ((bs, None), s') \<and> net_pending s = bs @ net_pending s' \<and>
      True \<and> length bs \<le> k \<and> length s' \<le> length s \<and>
      (length s' < length s \<or> length bs = k)"
    by (cases s rule: net_pending.cases) auto
qed

text \<open>The writer of a stream: what is written is appended.\<close>

definition stream_writer :: "bytes writer" where
  "stream_writer bs w = Some ((length bs, None), w @ bs)"

end
