(* ===== verification/Allocator.thy ===== *)
theory Allocator
  imports GoIO
begin

text \<open>
  The pooled byte allocator of \<open>common/buf/alloc.go\<close> and the entry points of
  \<open>common/buf/pool.go\<close>: eleven \<open>sync.Pool\<close>s of arrays of 64 bytes to 64 KiB.

  A \<open>sync.Pool\<close> hands out an arbitrary pooled item or makes a new one; which, is the
  argument \<open>pick\<close> (the index of the pooled item, or none). A slice is returned as its backing
  array (whose length is the capacity) and its length.
\<close>

record allocator =
  buffers :: "bytes list list"

definition newDefaultAllocator :: allocator where
  "newDefaultAllocator = \<lparr>buffers = replicate 11 []\<rparr>"

text \<open>\<open>bits.Len32\<close>: the number of bits needed to represent the value.\<close>

fun bits_Len :: "nat \<Rightarrow> nat" where
  "bits_Len n = (if n = 0 then 0 else Suc (bits_Len (n div 2)))"

declare bits_Len.simps [simp del]

text \<open>\<open>msb\<close> converts to \<open>uint32\<close>, subtracts and converts to \<open>uint16\<close>: \<open>msb 0\<close> is 65535.\<close>

definition msb_pos :: "int \<Rightarrow> 16 word" where
  "msb_pos n = word_of_int (int (bits_Len (unat (word_of_int n :: 32 word))) - 1)"

definition pool_Get :: "nat option \<Rightarrow> nat \<Rightarrow> bytes list \<Rightarrow> bytes \<times> bytes list" where
  "pool_Get pick k pool =
     (case pick of
        Some i \<Rightarrow> (if i < length pool then (pool ! i, take i pool @ drop (Suc i) pool)
                   else (replicate (2 ^ k) 0, pool))
      | None \<Rightarrow> (replicate (2 ^ k) 0, pool))"

definition Allocator_Get ::
  "nat option \<Rightarrow> allocator \<Rightarrow> int \<Rightarrow> ((bytes \<times> int) \<times> allocator) option" where
  "Allocator_Get pick alloc n =
     (if n \<le> 0 \<or> n > 65536 then None
      else let index = (if n > 64
                        then let m = msb_pos n
                             in (if n \<noteq> 2 ^ unat m then m + 1 else m) - 6
                        else 0) :: 16 word;
               i = unat index
           in if i \<le> 10
              then let (arr, pool) = pool_Get pick (6 + i) (buffers alloc ! i)
                   in if n \<le> int (length arr)
                      then Some ((arr, n), alloc\<lparr>buffers := (buffers alloc)[i := pool]\<rparr>)
                      else None
              else None)"

definition Allocator_Put :: "allocator \<Rightarrow> bytes \<Rightarrow> (go_error option \<times> allocator) option" where
  "Allocator_Put alloc arr =
     (let bits = msb_pos (int (length arr))
      in if length arr = 0 \<or> length arr > 65536 \<or> length arr \<noteq> 2 ^ unat bits
         then Some (Some ErrBadBufferSize, alloc)
         else let i = unat (bits - 6)
              in if i \<le> 10
                 then Some (None, alloc\<lparr>buffers := (buffers alloc)[i := arr # buffers alloc ! i]\<rparr>)
                 else None)"

text \<open>\<open>buf.Get\<close>, \<open>buf.Put\<close> and \<open>buf.PutMulti\<close> (common/buf/pool.go).\<close>

definition buf_Get :: "nat option \<Rightarrow> allocator \<Rightarrow> int \<Rightarrow> ((bytes \<times> int) \<times> allocator) option" where
  "buf_Get pick alloc n =
     (if n \<le> 65536 then Allocator_Get pick alloc n
      else Some ((replicate (nat n) 0, n), alloc))"

definition buf_Put :: "allocator \<Rightarrow> bytes \<Rightarrow> (go_error option \<times> allocator) option" where
  "buf_Put alloc arr = (if length arr > 65536 then Some (None, alloc) else Allocator_Put alloc arr)"

fun buf_PutMulti :: "allocator \<Rightarrow> bytes list \<Rightarrow> allocator option" where
  "buf_PutMulti alloc [] = Some alloc"
| "buf_PutMulti alloc (b # bs) = do { (_, alloc') \<leftarrow> buf_Put alloc b; buf_PutMulti alloc' bs }"

section \<open>The index of a size\<close>

lemma bits_Len_0 [simp]: "bits_Len 0 = 0"
  by (simp add: bits_Len.simps)

lemma bits_Len_pos: "0 < n \<Longrightarrow> 0 < bits_Len n"
  by (subst bits_Len.simps) simp

lemma bits_Len_rec: "0 < n \<Longrightarrow> bits_Len n = Suc (bits_Len (n div 2))"
  by (subst bits_Len.simps) simp

lemma bits_Len_bounds: "0 < n \<Longrightarrow> 2 ^ (bits_Len n - 1) \<le> n \<and> n < 2 ^ bits_Len n"
proof (induction n rule: less_induct)
  case (less n)
  show ?case
  proof (cases "n = 1")
    case True
    then show ?thesis by (simp add: bits_Len_rec)
  next
    case False
    with less.prems have "n div 2 < n" "0 < n div 2" by auto
    with less.IH have IH: "2 ^ (bits_Len (n div 2) - 1) \<le> n div 2" "n div 2 < 2 ^ bits_Len (n div 2)"
      by auto
    obtain k where k: "bits_Len (n div 2) = Suc k"
      using bits_Len_pos [OF \<open>0 < n div 2\<close>] by (cases "bits_Len (n div 2)") auto
    have "bits_Len n = Suc (Suc k)" using less.prems k by (simp add: bits_Len_rec)
    moreover have "2 * (n div 2) \<le> n" "n < 2 * (n div 2) + 2" by auto
    ultimately show ?thesis using IH k by simp
  qed
qed

lemma bits_Len_unique: "2 ^ k \<le> n \<Longrightarrow> n < 2 ^ Suc k \<Longrightarrow> bits_Len n = Suc k"
proof -
  assume a: "2 ^ k \<le> n" "n < 2 ^ Suc k"
  then have "0 < n" by (metis gr0I not_less_eq_eq power_not_zero zero_neq_numeral le_zero_eq)
  from bits_Len_bounds [OF this] have b: "2 ^ (bits_Len n - 1) \<le> n" "n < 2 ^ bits_Len n" by auto
  have "(2::nat) ^ k < 2 ^ bits_Len n" using a b by linarith
  then have "k < bits_Len n" by simp
  moreover have "(2::nat) ^ (bits_Len n - 1) < 2 ^ Suc k" using a b by linarith
  then have "bits_Len n - 1 < Suc k" by (subst (asm) power_strict_increasing_iff) auto
  ultimately show ?thesis by linarith
qed

lemma bits_Len_power [simp]: "bits_Len (2 ^ k) = Suc k"
  by (rule bits_Len_unique) simp_all

lemma unat_msb_pos:
  assumes "0 < n" "n \<le> 65536"
  shows "unat (msb_pos n) = bits_Len (nat n) - 1"
proof -
  have u: "unat (word_of_int n :: 32 word) = nat n"
    using assms by (simp add: unat_eq_nat_uint uint_word_of_int)
  have "0 < nat n" using assms by simp
  from bits_Len_bounds [OF this] have "(2::nat) ^ (bits_Len (nat n) - 1) \<le> 65536"
    using assms by linarith
  then have "(2::nat) ^ (bits_Len (nat n) - 1) \<le> 2 ^ 16" by simp
  then have le: "bits_Len (nat n) - 1 \<le> 16" by (subst (asm) power_increasing_iff) auto
  have "0 < bits_Len (nat n)" using assms by (intro bits_Len_pos) simp
  then obtain k where k: "bits_Len (nat n) = Suc k" by (cases "bits_Len (nat n)") auto
  with le have "k < 2 ^ LENGTH(16)" by simp
  then show ?thesis
    by (simp add: msb_pos_def u k unsigned_of_nat take_bit_nat_eq_self)
qed

text \<open>The pool index as a plain number: the exponent of the smallest array that fits, less 6.\<close>

definition pool_index :: "nat \<Rightarrow> nat" where
  "pool_index n = (if n \<le> 64 then 0 else
     (if n = 2 ^ (bits_Len n - 1) then bits_Len n - 1 else bits_Len n) - 6)"

lemma pool_index_fits:
  assumes "0 < n" "n \<le> 65536"
  shows "pool_index n \<le> 10" "n \<le> 2 ^ (6 + pool_index n)"
    "pool_index n = 0 \<or> 2 ^ (6 + pool_index n) < 2 * n"
proof -
  note b = bits_Len_bounds [OF assms(1)]
  have L: "bits_Len n \<le> 17"
  proof -
    have "(2::nat) ^ (bits_Len n - 1) \<le> 65536" using b assms by linarith
    then have "(2::nat) ^ (bits_Len n - 1) \<le> 2 ^ 16" by simp
    then show ?thesis by (subst (asm) power_increasing_iff) auto
  qed
  have big: "6 < bits_Len n" if "\<not> n \<le> 64"
  proof -
    have "(2::nat) ^ 6 < 2 ^ bits_Len n" using b that by simp
    then show ?thesis by (subst (asm) power_strict_increasing_iff) auto
  qed
  have top: "bits_Len n = 17 \<Longrightarrow> n = 65536" using b assms by simp
  show "pool_index n \<le> 10"
    using L top by (cases "bits_Len n = 17") (auto simp: pool_index_def)
  show "n \<le> 2 ^ (6 + pool_index n)"
    using b big by (auto simp: pool_index_def le_add_diff_inverse)
  have dbl: "(2::nat) ^ bits_Len n = 2 * 2 ^ (bits_Len n - 1)" if "\<not> n \<le> 64"
    using big [OF that] by (metis power_minus_mult mult.commute gr_implies_not0 gr0I)
  show "pool_index n = 0 \<or> 2 ^ (6 + pool_index n) < 2 * n"
  proof (cases "n \<le> 64")
    case True
    then show ?thesis by (simp add: pool_index_def)
  next
    case False
    then show ?thesis
      using b big [OF False] dbl [OF False] by (auto simp: pool_index_def le_add_diff_inverse)
  qed
qed

lemma unat_minus_6: "6 \<le> k \<Longrightarrow> k < 65536 \<Longrightarrow> unat (of_nat k - 6 :: 16 word) = k - 6"
proof -
  assume a: "6 \<le> k" "k < 65536"
  then have "(of_nat k - 6 :: 16 word) = of_nat (k - 6)" by (simp add: of_nat_diff)
  moreover have "unat (of_nat (k - 6) :: 16 word) = k - 6"
    using a by (simp add: unsigned_of_nat take_bit_nat_eq_self del: of_nat_diff)
  ultimately show ?thesis by (simp only:)
qed

text \<open>The 16-bit index computation of \<open>Get\<close> is \<open>pool_index\<close>, and the one of \<open>Put\<close> its inverse.\<close>

lemma Get_index:
  assumes "0 < n" "n \<le> 65536"
  shows "unat ((if n > 64 then let m = msb_pos n in (if n \<noteq> 2 ^ unat m then m + 1 else m) - 6
                else 0) :: 16 word) = pool_index (nat n)"
proof (cases "n > 64")
  case False
  then show ?thesis by (simp add: pool_index_def)
next
  case True
  obtain k where k: "bits_Len (nat n) = Suc k"
    using bits_Len_pos [of "nat n"] True by (cases "bits_Len (nat n)") auto
  have b: "2 ^ k \<le> nat n" "nat n < 2 ^ Suc k"
    using bits_Len_bounds [of "nat n"] k True by auto
  have "nat n \<le> 65536" using assms(2) by simp
  then have "(2::nat) ^ k \<le> 65536" using b(1) by linarith
  then have "(2::nat) ^ k \<le> 2 ^ 16" by simp
  then have k16: "k \<le> 16" by (subst (asm) power_increasing_iff) auto
  have "(2::nat) ^ 6 < 2 ^ Suc k" using b(2) True by simp
  then have k6: "6 \<le> k" by (subst (asm) power_strict_increasing_iff) auto
  have u: "unat (msb_pos n) = k" using unat_msb_pos [OF assms] k by simp
  then have m: "msb_pos n = of_nat k" by (rule word_of_unat)
  let ?j = "if nat n = 2 ^ k then k else Suc k"
  have e: "n = 2 ^ k \<longleftrightarrow> nat n = 2 ^ k"
    using True by (simp add: nat_eq_iff)
  have "(if n \<noteq> 2 ^ unat (msb_pos n) then msb_pos n + 1 else msb_pos n) = of_nat ?j"
    unfolding u e
    by (cases "nat n = 2 ^ k") (simp_all only: m if_True if_False simp_thms of_nat_Suc add.commute)
  moreover have "unat (of_nat ?j - 6 :: 16 word) = ?j - 6"
    using k6 k16 by (intro unat_minus_6) auto
  moreover have "pool_index (nat n) = ?j - 6"
    using True k by (simp add: pool_index_def nat_power_eq)
  ultimately show ?thesis using True by (simp only: if_True Let_def)
qed

lemma Put_index:
  assumes "6 \<le> k" "k \<le> 16"
  shows "unat (msb_pos (2 ^ k)) = k" "unat (msb_pos (2 ^ k) - 6) = k - 6"
proof -
  have "(2::int) ^ k \<le> 2 ^ 16" using assms by (intro power_increasing) auto
  then show u: "unat (msb_pos (2 ^ k)) = k"
    using unat_msb_pos [of "2 ^ k"] by (simp add: nat_power_eq)
  then have "msb_pos (2 ^ k) = of_nat k" by (rule word_of_unat)
  then show "unat (msb_pos (2 ^ k) - 6) = k - 6"
    using assms by (simp add: unat_minus_6)
qed

section \<open>The pool invariant\<close>

text \<open>Pool \<open>i\<close> holds arrays of \<open>2 ^ (6 + i)\<close> bytes only, as their Go type says.\<close>

definition alloc_inv :: "allocator \<Rightarrow> bool" where
  "alloc_inv alloc \<longleftrightarrow> length (buffers alloc) = 11 \<and>
     (\<forall>i < 11. \<forall>arr \<in> set (buffers alloc ! i). length arr = 2 ^ (6 + i))"

lemma alloc_inv_new [simp]: "alloc_inv newDefaultAllocator"
  by (auto simp: alloc_inv_def newDefaultAllocator_def)

lemma pool_Get_result:
  assumes "\<forall>a \<in> set pool. length a = 2 ^ k" "pool_Get pick k pool = (arr, pool')"
  shows "length arr = 2 ^ k" "set pool' \<subseteq> set pool"
  using assms set_take_subset [of _ pool] set_drop_subset [of _ pool]
  by (auto simp: pool_Get_def split: option.splits if_splits) blast+

lemma Allocator_Get_result:
  assumes "alloc_inv alloc" "0 < n" "n \<le> 65536"
  shows "\<exists>arr alloc'. Allocator_Get pick alloc n = Some ((arr, n), alloc') \<and>
           length arr = 2 ^ (6 + pool_index (nat n)) \<and> alloc_inv alloc'"
proof -
  let ?i = "pool_index (nat n)"
  have i: "?i \<le> 10" "nat n \<le> 2 ^ (6 + ?i)" using pool_index_fits [of "nat n"] assms by auto
  obtain arr pool where p: "pool_Get pick (6 + ?i) (buffers alloc ! ?i) = (arr, pool)"
    by fastforce
  have typed: "\<forall>a \<in> set (buffers alloc ! ?i). length a = 2 ^ (6 + ?i)"
    using assms(1) i(1) by (auto simp: alloc_inv_def)
  have l: "length arr = 2 ^ (6 + ?i)" and sub: "set pool \<subseteq> set (buffers alloc ! ?i)"
    using pool_Get_result [OF typed p] by auto
  have "alloc_inv (alloc\<lparr>buffers := (buffers alloc)[?i := pool]\<rparr>)"
    using assms(1) typed sub i(1) by (auto simp: alloc_inv_def nth_list_update)
  moreover have "n \<le> int (length arr)" using i(2) assms(2) l by linarith
  ultimately show ?thesis
    using Get_index [OF assms(2,3)] p i(1) l assms(2,3)
    by (simp add: Allocator_Get_def Let_def)
qed

lemma Allocator_Put_result:
  assumes "alloc_inv alloc" "length arr = 2 ^ (6 + i)" "i \<le> 10"
  shows "Allocator_Put alloc arr =
           Some (None, alloc\<lparr>buffers := (buffers alloc)[i := arr # buffers alloc ! i]\<rparr>)"
    and "alloc_inv (alloc\<lparr>buffers := (buffers alloc)[i := arr # buffers alloc ! i]\<rparr>)"
proof -
  have "(2::nat) ^ (6 + i) \<le> 2 ^ 16" using assms(3) by (intro power_increasing) auto
  then show "Allocator_Put alloc arr =
      Some (None, alloc\<lparr>buffers := (buffers alloc)[i := arr # buffers alloc ! i]\<rparr>)"
    using Put_index [of "6 + i"] assms(2,3) by (simp add: Allocator_Put_def Let_def)
  show "alloc_inv (alloc\<lparr>buffers := (buffers alloc)[i := arr # buffers alloc ! i]\<rparr>)"
    using assms by (auto simp: alloc_inv_def nth_list_update)
qed

text \<open>What \<open>Get\<close> promises: for a size from 1 to 65536 it returns a slice of exactly that length
  whose capacity is a power of two, less than twice the size once the size passes the smallest
  pool (the waste bound the comment in alloc.go states), whichever pooled array is handed out;
  giving that slice back with \<open>Put\<close> succeeds and keeps every pool typed.\<close>

theorem Allocator_Get_Put:
  assumes "alloc_inv alloc" "0 < n" "n \<le> 65536"
  shows "\<exists>arr alloc' alloc''. Allocator_Get pick alloc n = Some ((arr, n), alloc') \<and>
           (\<exists>k. 6 \<le> k \<and> k \<le> 16 \<and> length arr = 2 ^ k) \<and>
           n \<le> int (length arr) \<and> (length arr = 64 \<or> int (length arr) < 2 * n) \<and>
           Allocator_Put alloc' arr = Some (None, alloc'') \<and> alloc_inv alloc' \<and> alloc_inv alloc''"
proof -
  let ?i = "pool_index (nat n)"
  note i = pool_index_fits [of "nat n"]
  have i': "?i \<le> 10" "nat n \<le> 2 ^ (6 + ?i)" "?i = 0 \<or> 2 ^ (6 + ?i) < 2 * nat n"
    using i assms by auto
  obtain arr alloc' where g: "Allocator_Get pick alloc n = Some ((arr, n), alloc')"
    "length arr = 2 ^ (6 + ?i)" "alloc_inv alloc'"
    using Allocator_Get_result [OF assms] by blast
  note p = Allocator_Put_result [OF g(3,2) i'(1)]
  have "length arr = 64 \<or> int (length arr) < 2 * n"
  proof (cases "?i = 0")
    case False
    then have "length arr < 2 * nat n" using i'(3) g(2) by simp
    then show ?thesis by linarith
  qed (simp add: g(2))
  moreover have "n \<le> int (length arr)" using i'(2) assms(2) g(2) by linarith
  moreover have "\<exists>k. 6 \<le> k \<and> k \<le> 16 \<and> length arr = 2 ^ k"
    using g(2) i'(1) by (intro exI [of _ "6 + ?i"]) auto
  ultimately show ?thesis using g(1,3) p by blast
qed

theorem Allocator_Get_Put_witness:
  "\<exists>arr alloc' alloc''. Allocator_Get None newDefaultAllocator 4097 = Some ((arr, 4097), alloc') \<and>
     (\<exists>k. 6 \<le> k \<and> k \<le> 16 \<and> length arr = 2 ^ k) \<and>
     4097 \<le> int (length arr) \<and> (length arr = 64 \<or> int (length arr) < 2 * 4097) \<and>
     Allocator_Put alloc' arr = Some (None, alloc'') \<and> alloc_inv alloc' \<and> alloc_inv alloc''"
  using Allocator_Get_Put [of newDefaultAllocator 4097 None] by simp

text \<open>
  \<open>Put\<close> rejects a capacity that is no power of two, but a power of two below 64 makes the
  16-bit index wrap and hits the final \<open>panic\<close>.\<close>

lemma Allocator_Put_small_panics:
  assumes "length arr = 2 ^ k" "k < 6"
  shows "Allocator_Put alloc arr = None"
proof -
  have cases: "k = 0 \<or> k = 1 \<or> k = 2 \<or> k = 3 \<or> k = 4 \<or> k = 5" using assms(2) by linarith
  have "(2::int) ^ k \<le> 2 ^ 16" using assms(2) by (intro power_increasing) auto
  then have u: "unat (msb_pos (2 ^ k)) = k"
    using unat_msb_pos [of "2 ^ k"] by (simp add: nat_power_eq)
  then have "msb_pos (2 ^ k) = of_nat k" by (rule word_of_unat)
  then have "unat (msb_pos (2 ^ k) - 6) > 10"
    using cases by (auto simp: unsigned_minus_1_eq_mask mask_eq_exp_minus_1)
  moreover have "(2::nat) ^ k \<le> 2 ^ 16" using assms(2) by (intro power_increasing) auto
  ultimately show ?thesis using assms u by (auto simp: Allocator_Put_def Let_def)
qed

end
