(* ===== verification/Buffers.thy ===== *)
theory Buffers
  imports Allocator
begin

text \<open>
  \<open>buf.Buffer\<close> (common/buf/buffer.go): a byte slice with a read position \<open>start\<close> and a write
  position \<open>end\<close>. \<open>b_arr\<close> is the backing array of the slice \<open>data\<close> (its length is \<open>cap(data)\<close>)
  and \<open>b_len\<close> is \<open>len(data)\<close>; positions are Go \<open>int\<close>s, which \<open>Advance\<close>, \<open>Truncate\<close>, \<open>Resize\<close>
  and \<open>Rewind\<close> can move anywhere. Every bounds check Go inserts is a \<open>None\<close> result.

  \<open>buf_wf\<close> is the well-formedness \<open>0 \<le> start \<le> end \<le> len \<le> cap\<close> and \<open>buf_bytes\<close> the
  abstraction, the bytes between the two positions: writes append to it, reads take from its
  front, header extension prepends.
\<close>

record buffer =
  b_arr :: bytes
  b_len :: int
  b_start :: int
  b_end :: int
  b_managed :: bool
  b_closed :: bool

section \<open>Construction\<close>

definition Buffer_NewSize ::
  "nat option \<Rightarrow> allocator \<Rightarrow> int \<Rightarrow> (buffer \<times> allocator) option" where
  "Buffer_NewSize pick alloc n =
     (if n > 65535
      then Some (\<lparr>b_arr = replicate (nat n) 0, b_len = n, b_start = 0, b_end = 0,
                  b_managed = False, b_closed = False\<rparr>, alloc)
      else do {
        ((arr, l), alloc') \<leftarrow> buf_Get pick alloc n;
        Some (\<lparr>b_arr = arr, b_len = l, b_start = 0, b_end = 0, b_managed = True, b_closed = False\<rparr>,
              alloc')
      })"

definition Buffer_New :: "nat option \<Rightarrow> allocator \<Rightarrow> (buffer \<times> allocator) option" where
  "Buffer_New pick alloc = Buffer_NewSize pick alloc (8 * 1024)"

text \<open>\<open>As\<close> and \<open>With\<close> take a slice: its backing array and its length.\<close>

definition Buffer_As :: "bytes \<Rightarrow> int \<Rightarrow> buffer" where
  "Buffer_As arr l = \<lparr>b_arr = arr, b_len = l, b_start = 0, b_end = l, b_managed = False, b_closed = False\<rparr>"

definition Buffer_With :: "bytes \<Rightarrow> int \<Rightarrow> buffer" where
  "Buffer_With arr l = \<lparr>b_arr = arr, b_len = l, b_start = 0, b_end = 0, b_managed = False, b_closed = False\<rparr>"

section \<open>Positions and views\<close>

definition Buffer_Closed :: "buffer \<Rightarrow> bool" where
  "Buffer_Closed b = b_closed b"

definition Buffer_Start :: "buffer \<Rightarrow> int" where
  "Buffer_Start b = b_start b"

definition Buffer_Len :: "buffer \<Rightarrow> int" where
  "Buffer_Len b = b_end b - b_start b"

definition Buffer_Cap :: "buffer \<Rightarrow> int" where
  "Buffer_Cap b = b_len b"

definition Buffer_FreeLen :: "buffer \<Rightarrow> int" where
  "Buffer_FreeLen b = Buffer_Cap b - b_end b"

definition Buffer_CurrentPosition :: "buffer \<Rightarrow> int" where
  "Buffer_CurrentPosition b = b_start b"

definition Buffer_IsEmpty :: "buffer \<Rightarrow> bool" where
  "Buffer_IsEmpty b \<longleftrightarrow> b_end b - b_start b = 0"

definition Buffer_IsFull :: "buffer \<Rightarrow> bool" where
  "Buffer_IsFull b \<longleftrightarrow> b_end b = Buffer_Cap b"

definition Buffer_Bytes :: "buffer \<Rightarrow> bytes option" where
  "Buffer_Bytes b = go_slice (b_arr b) (b_start b) (b_end b)"

definition Buffer_From :: "buffer \<Rightarrow> int \<Rightarrow> bytes option" where
  "Buffer_From b n = go_slice (b_arr b) (b_start b + n) (b_end b)"

definition Buffer_To :: "buffer \<Rightarrow> int \<Rightarrow> bytes option" where
  "Buffer_To b n = go_slice (b_arr b) (b_start b) (b_start b + n)"

definition Buffer_Range :: "buffer \<Rightarrow> int \<Rightarrow> int \<Rightarrow> bytes option" where
  "Buffer_Range b s e = go_slice (b_arr b) (b_start b + s) (b_start b + e)"

text \<open>\<open>Slice\<close> is the whole array; \<open>Index\<close> slices from a position to the same position.\<close>

definition Buffer_Slice :: "buffer \<Rightarrow> bytes option" where
  "Buffer_Slice b = go_slice (b_arr b) 0 (Buffer_Cap b)"

definition Buffer_Index :: "buffer \<Rightarrow> int \<Rightarrow> bytes option" where
  "Buffer_Index b s = go_slice (b_arr b) (b_start b + s) (b_start b + s)"

text \<open>\<open>FreeBytes\<close> is \<open>data[end:Cap()]\<close>: what matters of it is its length.\<close>

definition Buffer_FreeBytes :: "buffer \<Rightarrow> bytes option" where
  "Buffer_FreeBytes b = go_slice (b_arr b) (b_end b) (Buffer_Cap b)"

definition Buffer_Byte :: "buffer \<Rightarrow> int \<Rightarrow> byte option" where
  "Buffer_Byte b i = go_index (b_arr b) (b_len b) (b_start b + i)"

definition Buffer_SetByte :: "buffer \<Rightarrow> int \<Rightarrow> byte \<Rightarrow> buffer option" where
  "Buffer_SetByte b i v = do {
     go_index (b_arr b) (b_len b) (b_start b + i);
     Some (b\<lparr>b_arr := (b_arr b)[nat (b_start b + i) := v]\<rparr>)
   }"

definition Buffer_Advance :: "buffer \<Rightarrow> int \<Rightarrow> buffer" where
  "Buffer_Advance b from = b\<lparr>b_start := b_start b + from\<rparr>"

definition Buffer_Truncate :: "buffer \<Rightarrow> int \<Rightarrow> buffer" where
  "Buffer_Truncate b to = b\<lparr>b_end := b_start b + to\<rparr>"

definition Buffer_Resize :: "buffer \<Rightarrow> int \<Rightarrow> int \<Rightarrow> buffer" where
  "Buffer_Resize b s e = b\<lparr>b_start := s, b_end := s + e\<rparr>"

definition Buffer_Reset :: "buffer \<Rightarrow> int \<Rightarrow> buffer" where
  "Buffer_Reset b pos = b\<lparr>b_start := pos, b_end := pos\<rparr>"

definition Buffer_FullReset :: "buffer \<Rightarrow> buffer" where
  "Buffer_FullReset b = b\<lparr>b_start := 0, b_end := 0\<rparr>"

definition Buffer_Rewind :: "buffer \<Rightarrow> int \<Rightarrow> buffer" where
  "Buffer_Rewind b s = b\<lparr>b_start := s\<rparr>"

section \<open>Extension\<close>

text \<open>
  \<open>Extend n\<close> and \<open>ExtendHeader n\<close> return a slice of the buffer that the caller fills; the
  model returns the moved buffer and the offset of that slice, and \<open>Buffer_fill\<close> is the
  caller's store into it.
\<close>

definition Buffer_Extend :: "buffer \<Rightarrow> int \<Rightarrow> (int \<times> buffer) option" where
  "Buffer_Extend b n =
     (let e = b_end b + n
      in if e > int (length (b_arr b)) then None
         else do {
           go_slice (b_arr b) (b_end b) e;
           Some (b_end b, b\<lparr>b_end := e\<rparr>)
         })"

definition Buffer_ExtendHeader :: "buffer \<Rightarrow> int \<Rightarrow> (int \<times> buffer) option" where
  "Buffer_ExtendHeader b n =
     (if b_start b < n then None
      else do {
        go_slice (b_arr b) (b_start b - n) (b_start b);
        Some (b_start b - n, b\<lparr>b_start := b_start b - n\<rparr>)
      })"

definition Buffer_fill :: "buffer \<Rightarrow> int \<Rightarrow> bytes \<Rightarrow> buffer" where
  "Buffer_fill b off bs = b\<lparr>b_arr := put_at (b_arr b) (nat off) bs\<rparr>"

section \<open>Writing\<close>

text \<open>\<open>copy(b.data[b.end:], data)\<close>: the slice expression's upper bound is \<open>len(data)\<close>.\<close>

definition Buffer_copy_end :: "buffer \<Rightarrow> bytes \<Rightarrow> (nat \<times> buffer) option" where
  "Buffer_copy_end b src = do {
     room \<leftarrow> go_slice (b_arr b) (b_end b) (b_len b);
     let n = min (length room) (length src);
     Some (n, b\<lparr>b_arr := put_at (b_arr b) (nat (b_end b)) (take n src), b_end := b_end b + int n\<rparr>)
   }"

definition Buffer_Write :: "buffer \<Rightarrow> bytes \<Rightarrow> ((nat \<times> go_error option) \<times> buffer) option" where
  "Buffer_Write b src =
     (if src = [] then Some ((0, None), b)
      else if Buffer_IsFull b then Some ((0, Some ErrShortBuffer), b)
      else do {
        (n, b') \<leftarrow> Buffer_copy_end b src;
        Some ((n, None), b')
      })"

definition Buffer_WriteString :: "buffer \<Rightarrow> string \<Rightarrow> ((nat \<times> go_error option) \<times> buffer) option" where
  "Buffer_WriteString b s =
     (if s = [] then Some ((0, None), b)
      else if Buffer_IsFull b then Some ((0, Some ErrShortBuffer), b)
      else do {
        (n, b') \<leftarrow> Buffer_copy_end b (str_bytes s);
        Some ((n, None), b')
      })"

definition Buffer_WriteByte :: "buffer \<Rightarrow> byte \<Rightarrow> (go_error option \<times> buffer) option" where
  "Buffer_WriteByte b d =
     (if Buffer_IsFull b then Some (Some ErrShortBuffer, b)
      else do {
        go_index (b_arr b) (b_len b) (b_end b);
        Some (None, b\<lparr>b_arr := (b_arr b)[nat (b_end b) := d], b_end := b_end b + 1\<rparr>)
      })"

text \<open>\<open>WriteRune\<close> keeps the low byte of the rune.\<close>

definition Buffer_WriteRune :: "buffer \<Rightarrow> 32 word \<Rightarrow> ((nat \<times> go_error option) \<times> buffer) option" where
  "Buffer_WriteRune b r = Buffer_Write b [ucast r]"

definition Buffer_WriteZero :: "buffer \<Rightarrow> (go_error option \<times> buffer) option" where
  "Buffer_WriteZero b =
     (if Buffer_IsFull b then Some (Some ErrShortBuffer, b)
      else do {
        go_index (b_arr b) (b_len b) (b_end b);
        Some (None, b\<lparr>b_arr := (b_arr b)[nat (b_end b) := 0], b_end := b_end b + 1\<rparr>)
      })"

text \<open>
  \<open>WriteZeroN\<close> as written: its loop runs to \<open>i <= b.end+n\<close>, one past the bytes it accounts for.
\<close>

fun zero_from :: "bytes \<Rightarrow> int \<Rightarrow> int \<Rightarrow> nat \<Rightarrow> bytes option" where
  "zero_from arr len i 0 = Some arr"
| "zero_from arr len i (Suc k) = do {
     go_index arr len i;
     zero_from (arr[nat i := 0]) len (i + 1) k
   }"

definition Buffer_WriteZeroN :: "buffer \<Rightarrow> int \<Rightarrow> (go_error option \<times> buffer) option" where
  "Buffer_WriteZeroN b n =
     (if b_end b + n > Buffer_Cap b then Some (Some ErrShortBuffer, b)
      else do {
        arr \<leftarrow> zero_from (b_arr b) (b_len b) (b_end b) (nat (n + 1));
        Some (None, b\<lparr>b_arr := arr, b_end := b_end b + n\<rparr>)
      })"

section \<open>Reading\<close>

definition Buffer_ReadByte :: "buffer \<Rightarrow> ((byte \<times> go_error option) \<times> buffer) option" where
  "Buffer_ReadByte b =
     (if Buffer_IsEmpty b then Some ((0, Some EOF), b)
      else do {
        nb \<leftarrow> go_index (b_arr b) (b_len b) (b_start b);
        Some ((nb, None), b\<lparr>b_start := b_start b + 1\<rparr>)
      })"

text \<open>\<open>Read\<close> into a slice of length \<open>k\<close>: the bytes copied stand for the filled prefix.\<close>

definition Buffer_Read :: "nat \<Rightarrow> buffer \<Rightarrow> ((bytes \<times> go_error option) \<times> buffer) option" where
  "Buffer_Read k b =
     (if Buffer_IsEmpty b then Some (([], Some EOF), b)
      else do {
        src \<leftarrow> go_slice (b_arr b) (b_start b) (b_end b);
        let bs = take k src;
        Some ((bs, None), b\<lparr>b_start := b_start b + int (length bs)\<rparr>)
      })"

definition Buffer_Peek :: "buffer \<Rightarrow> int \<Rightarrow> ((bytes \<times> go_error option) \<times> buffer) option" where
  "Buffer_Peek b n =
     (if n < 0 then Some (([], Some ErrNegativeRead), b)
      else if b_start b + n > b_end b then Some (([], Some ErrShortBuffer), b)
      else do {
        bs \<leftarrow> Buffer_To b n;
        Some ((bs, None), b\<lparr>b_start := b_start b + n\<rparr>)
      })"

section \<open>Transfers\<close>

text \<open>The bytes a read delivered are stored at the write position, which moves past them.\<close>

definition Buffer_absorb :: "buffer \<Rightarrow> bytes \<Rightarrow> buffer" where
  "Buffer_absorb b bs =
     b\<lparr>b_arr := put_at (b_arr b) (nat (b_end b)) bs, b_end := b_end b + int (length bs)\<rparr>"

definition Buffer_ReadOnceFrom ::
  "'s reader \<Rightarrow> buffer \<Rightarrow> 's \<Rightarrow> ((int \<times> go_error option) \<times> buffer \<times> 's) option" where
  "Buffer_ReadOnceFrom rd b s =
     (if Buffer_IsFull b then Some ((0, Some ErrShortBuffer), b, s)
      else do {
        room \<leftarrow> Buffer_FreeBytes b;
        ((bs, err), s') \<leftarrow> rd (length room) s;
        Some ((int (length bs), err), Buffer_absorb b bs, s')
      })"

definition Buffer_ReadAtLeastFrom ::
  "'s reader \<Rightarrow> buffer \<Rightarrow> 's \<Rightarrow> int \<Rightarrow> ((int \<times> go_error option) \<times> buffer \<times> 's) option" where
  "Buffer_ReadAtLeastFrom rd b s least =
     (if least \<le> 0 then Buffer_ReadOnceFrom rd b s
      else if Buffer_IsFull b then Some ((0, Some ErrShortBuffer), b, s)
      else do {
        room \<leftarrow> Buffer_FreeBytes b;
        ((bs, err), s') \<leftarrow> ReadAtLeast rd (length room) (nat least) s;
        Some ((int (length bs), err), Buffer_absorb b bs, s')
      })"

definition Buffer_ReadFullFrom ::
  "'s reader \<Rightarrow> buffer \<Rightarrow> 's \<Rightarrow> int \<Rightarrow> ((int \<times> go_error option) \<times> buffer \<times> 's) option" where
  "Buffer_ReadFullFrom rd b s n =
     (if b_end b + n > Buffer_Cap b then Some ((0, Some ErrShortBuffer), b, s)
      else do {
        room \<leftarrow> go_slice (b_arr b) (b_end b) (b_end b + n);
        ((bs, err), s') \<leftarrow> ReadFull rd (length room) s;
        Some ((int (length bs), err), Buffer_absorb b bs, s')
      })"

text \<open>\<open>ReadFrom\<close> reads until \<open>io.EOF\<close>; it loops for ever on a reader that never fails.\<close>

partial_function (option) Buffer_ReadFrom_loop ::
  "'s reader \<Rightarrow> buffer \<Rightarrow> int \<Rightarrow> 's \<Rightarrow> ((int \<times> go_error option) \<times> buffer \<times> 's) option" where
  "Buffer_ReadFrom_loop rd b n s =
     (if Buffer_IsFull b then Some ((0, Some ErrShortBuffer), b, s)
      else Option.bind (Buffer_FreeBytes b) (\<lambda>room.
        Option.bind (rd (length room) s) (\<lambda>((bs, err), s').
          (case err of
             Some e \<Rightarrow> Some ((n + int (length bs), if e = EOF then None else Some e),
                              Buffer_absorb b bs, s')
           | None \<Rightarrow> Buffer_ReadFrom_loop rd (Buffer_absorb b bs) (n + int (length bs)) s'))))"

definition Buffer_ReadFrom ::
  "'s reader \<Rightarrow> buffer \<Rightarrow> 's \<Rightarrow> ((int \<times> go_error option) \<times> buffer \<times> 's) option" where
  "Buffer_ReadFrom rd b s = Buffer_ReadFrom_loop rd b 0 s"

definition Buffer_WriteTo ::
  "'w writer \<Rightarrow> buffer \<Rightarrow> 'w \<Rightarrow> ((int \<times> go_error option) \<times> 'w) option" where
  "Buffer_WriteTo wr b w = do {
     bs \<leftarrow> Buffer_Bytes b;
     ((n, err), w') \<leftarrow> wr bs w;
     Some ((int n, err), w')
   }"

section \<open>Ownership\<close>

text \<open>\<open>Release\<close> gives a managed slice back to the pool and closes the buffer; twice is harmless.\<close>

definition closed_buffer :: buffer where
  "closed_buffer = \<lparr>b_arr = [], b_len = 0, b_start = 0, b_end = 0, b_managed = False, b_closed = True\<rparr>"

definition Buffer_Release :: "buffer option \<Rightarrow> allocator \<Rightarrow> (buffer option \<times> allocator) option" where
  "Buffer_Release ob alloc =
     (case ob of
        None \<Rightarrow> Some (None, alloc)
      | Some b \<Rightarrow>
          (if b_closed b \<or> \<not> b_managed b then Some (Some b, alloc)
           else do {
             (_, alloc') \<leftarrow> buf_Put alloc (b_arr b);
             Some (Some closed_buffer, alloc')
           }))"

text \<open>\<open>Cut\<close> returns a buffer that shares the slice \<open>data[start:end]\<close>; its \<open>end\<close> is 0.\<close>

definition Buffer_Cut :: "buffer \<Rightarrow> int \<Rightarrow> int \<Rightarrow> (buffer \<times> buffer) option" where
  "Buffer_Cut b s e = do {
     let b' = b\<lparr>b_start := b_start b + s, b_end := b_len b - e\<rparr>;
     _ \<leftarrow> go_slice (b_arr b) (b_start b') (b_end b');
     Some (Buffer_With (drop (nat (b_start b')) (b_arr b)) (b_end b' - b_start b'), b')
   }"

definition Buffer_ToOwned :: "nat option \<Rightarrow> allocator \<Rightarrow> buffer \<Rightarrow> (buffer \<times> allocator) option" where
  "Buffer_ToOwned pick alloc b = do {
     (n, alloc') \<leftarrow> Buffer_NewSize pick alloc (b_len b);
     src \<leftarrow> go_slice (b_arr b) (b_start b) (b_end b);
     _ \<leftarrow> go_slice (b_arr n) (b_start b) (b_end b);
     Some (n\<lparr>b_arr := put_at (b_arr n) (nat (b_start b)) src, b_start := b_start b, b_end := b_end b\<rparr>,
           alloc')
   }"

section \<open>Well-formedness and the byte sequence\<close>

definition buf_wf :: "buffer \<Rightarrow> bool" where
  "buf_wf b \<longleftrightarrow> 0 \<le> b_start b \<and> b_start b \<le> b_end b \<and> b_end b \<le> b_len b \<and>
     b_len b \<le> int (length (b_arr b))"

definition buf_bytes :: "buffer \<Rightarrow> bytes" where
  "buf_bytes b = take (nat (b_end b - b_start b)) (drop (nat (b_start b)) (b_arr b))"

text \<open>Free space behind the write position and headroom in front of the read position.\<close>

definition buf_free :: "buffer \<Rightarrow> nat" where
  "buf_free b = nat (b_len b - b_end b)"

definition buf_headroom :: "buffer \<Rightarrow> nat" where
  "buf_headroom b = nat (b_start b)"

named_theorems buf_simps
lemmas buffer_defs = buf_wf_def buf_bytes_def buf_free_def buf_headroom_def
  Buffer_IsFull_def Buffer_IsEmpty_def Buffer_Cap_def Buffer_Len_def

lemma buf_wfI:
  "0 \<le> b_start b \<Longrightarrow> b_start b \<le> b_end b \<Longrightarrow> b_end b \<le> b_len b \<Longrightarrow>
   b_len b \<le> int (length (b_arr b)) \<Longrightarrow> buf_wf b"
  by (simp add: buf_wf_def)

lemma length_buf_bytes [simp]: "buf_wf b \<Longrightarrow> length (buf_bytes b) = nat (b_end b - b_start b)"
  by (auto simp: buffer_defs)

lemma Buffer_Len_bytes: "buf_wf b \<Longrightarrow> Buffer_Len b = int (length (buf_bytes b))"
  by (auto simp: buffer_defs)

lemma Buffer_IsEmpty_bytes: "buf_wf b \<Longrightarrow> Buffer_IsEmpty b \<longleftrightarrow> buf_bytes b = []"
  by (auto simp: buffer_defs)

lemma Buffer_IsFull_free: "buf_wf b \<Longrightarrow> Buffer_IsFull b \<longleftrightarrow> buf_free b = 0"
  by (auto simp: buffer_defs)

lemma Buffer_Bytes_wf [simp]: "buf_wf b \<Longrightarrow> Buffer_Bytes b = Some (buf_bytes b)"
  by (auto simp: Buffer_Bytes_def go_slice_def buffer_defs)

lemma Buffer_FreeLen_free: "buf_wf b \<Longrightarrow> Buffer_FreeLen b = int (buf_free b)"
  by (simp add: Buffer_FreeLen_def buffer_defs)

lemma Buffer_FreeBytes_wf:
  "buf_wf b \<Longrightarrow> \<exists>room. Buffer_FreeBytes b = Some room \<and> length room = buf_free b"
  by (auto simp: Buffer_FreeBytes_def go_slice_def buffer_defs)

text \<open>Appending: what every write does to a well-formed buffer.\<close>

lemma buf_append:
  assumes "buf_wf b" "length bs \<le> buf_free b"
  shows "buf_wf (Buffer_absorb b bs)" "buf_bytes (Buffer_absorb b bs) = buf_bytes b @ bs"
    "buf_free (Buffer_absorb b bs) = buf_free b - length bs"
    "buf_headroom (Buffer_absorb b bs) = buf_headroom b"
proof -
  let ?s = "nat (b_start b)" and ?e = "nat (b_end b)"
  have le: "?s \<le> ?e" "?e + length bs \<le> length (b_arr b)"
    using assms by (auto simp: buffer_defs)
  have n: "nat (b_end b + int (length bs) - b_start b) = ?e + length bs - ?s"
    "nat (b_end b - b_start b) = ?e - ?s"
    using assms(1) by (auto simp: buf_wf_def)
  show "buf_bytes (Buffer_absorb b bs) = buf_bytes b @ bs"
    using segment_put_at_end [OF le] n by (simp add: Buffer_absorb_def buf_bytes_def)
  show "buf_wf (Buffer_absorb b bs)"
    using assms le by (auto simp: Buffer_absorb_def buffer_defs)
  show "buf_free (Buffer_absorb b bs) = buf_free b - length bs"
    "buf_headroom (Buffer_absorb b bs) = buf_headroom b"
    using assms by (auto simp: Buffer_absorb_def buffer_defs)
qed

lemma Buffer_copy_end_wf:
  assumes "buf_wf b"
  shows "Buffer_copy_end b bs =
    Some (min (buf_free b) (length bs), Buffer_absorb b (take (buf_free b) bs))"
proof -
  have "go_slice (b_arr b) (b_end b) (b_len b) = Some (take (buf_free b) (drop (nat (b_end b)) (b_arr b)))"
    "buf_free b \<le> length (b_arr b) - nat (b_end b)"
    using assms by (auto simp: go_slice_def buffer_defs)
  then show ?thesis
    by (simp add: Buffer_copy_end_def Buffer_absorb_def min_def Let_def)
qed

text \<open>
  \<open>Write\<close> appends as many bytes as fit. It reports a short buffer only when there is no room
  at all: a partial write returns no error, unlike the contract of \<open>io.Writer\<close>.\<close>

lemma Buffer_Write_wf:
  assumes "buf_wf b"
  shows "Buffer_Write b bs =
    (if bs = [] then Some ((0, None), b)
     else if buf_free b = 0 then Some ((0, Some ErrShortBuffer), b)
     else Some ((min (buf_free b) (length bs), None), Buffer_absorb b (take (buf_free b) bs)))"
  using assms by (simp add: Buffer_Write_def Buffer_IsFull_free Buffer_copy_end_wf)

lemma Buffer_Write_fits [buf_simps]:
  "buf_wf b \<Longrightarrow> length bs \<le> buf_free b \<Longrightarrow>
   Buffer_Write b bs = Some ((length bs, None), Buffer_absorb b bs)"
  by (auto simp: Buffer_Write_wf Buffer_absorb_def)

lemma Buffer_WriteString_fits [buf_simps]:
  "buf_wf b \<Longrightarrow> length s \<le> buf_free b \<Longrightarrow>
   Buffer_WriteString b s = Some ((length s, None), Buffer_absorb b (str_bytes s))"
  by (cases s)
     (auto simp: Buffer_WriteString_def Buffer_IsFull_free Buffer_copy_end_wf Buffer_absorb_def str_bytes_def)

lemma put_at_single: "i < length xs \<Longrightarrow> put_at xs i [y] = xs[i := y]"
  by (simp add: put_at_def upd_conv_take_nth_drop)

lemma go_index_end:
  "buf_wf b \<Longrightarrow> 0 < buf_free b \<Longrightarrow> go_index (b_arr b) (b_len b) (b_end b) = Some (b_arr b ! nat (b_end b))"
  by (auto simp: go_index_def buffer_defs)

lemma Buffer_WriteByte_fits [buf_simps]:
  assumes "buf_wf b" "0 < buf_free b"
  shows "Buffer_WriteByte b d = Some (None, Buffer_absorb b [d])"
proof -
  have "nat (b_end b) < length (b_arr b)" using assms by (auto simp: buffer_defs)
  then show ?thesis
    using assms by (simp add: Buffer_WriteByte_def Buffer_IsFull_free go_index_end Buffer_absorb_def
        put_at_single)
qed

lemma Buffer_WriteZero_fits [buf_simps]:
  "buf_wf b \<Longrightarrow> 0 < buf_free b \<Longrightarrow> Buffer_WriteZero b = Some (None, Buffer_absorb b [0])"
  using Buffer_WriteByte_fits [of b 0] by (simp add: Buffer_WriteByte_def Buffer_WriteZero_def)

text \<open>An \<open>Extend\<close> that is filled at once is a write; without room it panics.\<close>

lemma Buffer_Extend_fill [buf_simps]:
  assumes "buf_wf b" "length bs \<le> buf_free b"
  shows "(do { (off, b') \<leftarrow> Buffer_Extend b (int (length bs)); Some (Buffer_fill b' off bs) })
         = Some (Buffer_absorb b bs)"
  using assms
  by (auto simp: Buffer_Extend_def Buffer_fill_def Buffer_absorb_def go_slice_def Let_def buffer_defs)

lemma Buffer_Extend_panics:
  "b_end b + n > int (length (b_arr b)) \<Longrightarrow> Buffer_Extend b n = None"
  by (simp add: Buffer_Extend_def)

lemma Buffer_ExtendHeader_fill [buf_simps]:
  assumes "buf_wf b" "length bs \<le> buf_headroom b"
  defines "b2 \<equiv> b\<lparr>b_start := b_start b - int (length bs),
                   b_arr := put_at (b_arr b) (buf_headroom b - length bs) bs\<rparr>"
  shows "(do { (off, b') \<leftarrow> Buffer_ExtendHeader b (int (length bs)); Some (Buffer_fill b' off bs) })
         = Some b2"
    and "buf_wf b2" "buf_bytes b2 = bs @ buf_bytes b"
    "buf_headroom b2 = buf_headroom b - length bs" "buf_free b2 = buf_free b"
proof -
  let ?s = "nat (b_start b)" and ?e = "nat (b_end b)"
  have le: "length bs \<le> ?s" "?s \<le> ?e" "?e \<le> length (b_arr b)" "int (length bs) \<le> b_start b"
    using assms(1,2) by (auto simp: buffer_defs)
  have n: "nat (b_end b - (b_start b - int (length bs))) = ?e - (?s - length bs)"
    "nat (b_end b - b_start b) = ?e - ?s" "nat (b_start b - int (length bs)) = ?s - length bs"
    using assms(1) le by (auto simp: buf_wf_def)
  show "(do { (off, b') \<leftarrow> Buffer_ExtendHeader b (int (length bs)); Some (Buffer_fill b' off bs) })
         = Some b2"
    using assms(1,2) n
    by (auto simp: Buffer_ExtendHeader_def Buffer_fill_def go_slice_def b2_def buffer_defs)
  show "buf_bytes b2 = bs @ buf_bytes b"
    using segment_put_at_front [OF le(1-3)] n by (simp add: b2_def buf_bytes_def buf_headroom_def)
  show "buf_wf b2" "buf_headroom b2 = buf_headroom b - length bs" "buf_free b2 = buf_free b"
    using assms(1) le n by (auto simp: b2_def buffer_defs)
qed

text \<open>Taking from the front.\<close>

lemma buf_advance:
  assumes "buf_wf b" "0 \<le> n" "n \<le> int (length (buf_bytes b))"
  shows "buf_wf (Buffer_Advance b n)" "buf_bytes (Buffer_Advance b n) = drop (nat n) (buf_bytes b)"
    "buf_free (Buffer_Advance b n) = buf_free b"
    "buf_headroom (Buffer_Advance b n) = buf_headroom b + nat n"
proof -
  have n: "nat (b_end b - (b_start b + n)) = nat (b_end b - b_start b) - nat n"
    "nat (b_start b + n) = nat n + nat (b_start b)"
    using assms by (auto simp: buf_wf_def)
  show "buf_wf (Buffer_Advance b n)" "buf_free (Buffer_Advance b n) = buf_free b"
    "buf_headroom (Buffer_Advance b n) = buf_headroom b + nat n"
    using assms by (auto simp: Buffer_Advance_def buffer_defs)
  show "buf_bytes (Buffer_Advance b n) = drop (nat n) (buf_bytes b)"
    using n by (simp add: Buffer_Advance_def buf_bytes_def drop_take add.commute)
qed

lemma Buffer_ReadByte_wf:
  assumes "buf_wf b"
  shows "Buffer_ReadByte b =
    (case buf_bytes b of [] \<Rightarrow> Some ((0, Some EOF), b)
                       | x # _ \<Rightarrow> Some ((x, None), Buffer_Advance b 1))"
proof (cases "buf_bytes b")
  case Nil
  then show ?thesis using assms by (simp add: Buffer_ReadByte_def Buffer_IsEmpty_bytes)
next
  case (Cons x xs)
  then have "0 < length (buf_bytes b)" by simp
  then have "0 < nat (b_end b - b_start b)" using assms by (simp only: length_buf_bytes)
  then have le: "0 \<le> b_start b" "b_start b < b_end b" "b_end b \<le> b_len b"
    "b_len b \<le> int (length (b_arr b))"
    using assms by (auto simp: buf_wf_def simp flip: zero_less_nat_eq)
  have "x = buf_bytes b ! 0" using Cons by simp
  also have "\<dots> = b_arr b ! nat (b_start b)" using le by (simp add: buf_bytes_def)
  finally show ?thesis
    using assms Cons le
    by (simp add: Buffer_ReadByte_def Buffer_IsEmpty_bytes go_index_def Buffer_Advance_def)
qed

interpretation buf_bytes: byte_source Buffer_ReadByte buf_bytes buf_wf
proof
  fix b :: buffer and x rest
  assume "buf_wf b" "buf_bytes b = x # rest"
  then show "\<exists>b'. Buffer_ReadByte b = Some ((x, None), b') \<and> buf_bytes b' = rest \<and> buf_wf b'"
    using buf_advance [of b 1] by (simp add: Buffer_ReadByte_wf)
qed

lemma Buffer_Read_wf:
  assumes "buf_wf b"
  shows "Buffer_Read k b =
    (if buf_bytes b = [] then Some (([], Some EOF), b)
     else Some ((take k (buf_bytes b), None), Buffer_Advance b (int (min k (length (buf_bytes b))))))"
proof -
  have "Buffer_Bytes b = Some (buf_bytes b)" using assms by simp
  then have "go_slice (b_arr b) (b_start b) (b_end b) = Some (buf_bytes b)"
    by (simp add: Buffer_Bytes_def)
  then show ?thesis
    using assms by (simp add: Buffer_Read_def Buffer_IsEmpty_bytes Buffer_Advance_def min.commute Let_def)
qed

lemma Buffer_Peek_wf:
  assumes "buf_wf b"
  shows "Buffer_Peek b n =
    (if n < 0 then Some (([], Some ErrNegativeRead), b)
     else if n > int (length (buf_bytes b)) then Some (([], Some ErrShortBuffer), b)
     else Some ((take (nat n) (buf_bytes b), None), Buffer_Advance b n))"
  using assms
  by (auto simp: Buffer_Peek_def Buffer_To_def go_slice_def Buffer_Advance_def buffer_defs min_def)

lemma Peek_prefix:
  assumes "buf_wf b" "buf_bytes b = bs @ rest"
  shows "\<exists>b'. Buffer_Peek b (int (length bs)) = Some ((bs, None), b') \<and> buf_wf b' \<and> buf_bytes b' = rest"
  using assms buf_advance [of b "int (length bs)"] by (auto simp: Buffer_Peek_wf simp del: length_buf_bytes)

section \<open>Refinement of a bounded byte queue\<close>

text \<open>
  The specification the packet code relies on: a queue of bytes with room at both ends. A step
  is an operation of the buffer (\<open>OpPrepend\<close> and \<open>OpExtend\<close> are \<open>ExtendHeader\<close> and \<open>Extend\<close>
  with the caller's store) and the value it returns.\<close>

record bqueue =
  q_bytes :: bytes
  q_free :: nat
  q_head :: nat

definition buf_queue :: "buffer \<Rightarrow> bqueue" where
  "buf_queue b = \<lparr>q_bytes = buf_bytes b, q_free = buf_free b, q_head = buf_headroom b\<rparr>"

datatype buf_op = OpWrite bytes | OpWriteString string | OpWriteByte byte | OpExtend bytes
  | OpPrepend bytes | OpReadByte | OpRead nat | OpPeek int

datatype buf_out = OutN nat "go_error option" | OutErr "go_error option"
  | OutByte byte "go_error option" | OutBytes bytes "go_error option" | OutUnit

fun buf_step :: "buf_op \<Rightarrow> buffer \<Rightarrow> (buf_out \<times> buffer) option" where
  "buf_step (OpWrite bs) b = do { ((n, e), b') \<leftarrow> Buffer_Write b bs; Some (OutN n e, b') }"
| "buf_step (OpWriteString s) b = do { ((n, e), b') \<leftarrow> Buffer_WriteString b s; Some (OutN n e, b') }"
| "buf_step (OpWriteByte d) b = do { (e, b') \<leftarrow> Buffer_WriteByte b d; Some (OutErr e, b') }"
| "buf_step (OpExtend bs) b =
     do { (off, b') \<leftarrow> Buffer_Extend b (int (length bs)); Some (OutUnit, Buffer_fill b' off bs) }"
| "buf_step (OpPrepend bs) b =
     do { (off, b') \<leftarrow> Buffer_ExtendHeader b (int (length bs)); Some (OutUnit, Buffer_fill b' off bs) }"
| "buf_step OpReadByte b = do { ((x, e), b') \<leftarrow> Buffer_ReadByte b; Some (OutByte x e, b') }"
| "buf_step (OpRead k) b = do { ((bs, e), b') \<leftarrow> Buffer_Read k b; Some (OutBytes bs e, b') }"
| "buf_step (OpPeek n) b = do { ((bs, e), b') \<leftarrow> Buffer_Peek b n; Some (OutBytes bs e, b') }"

definition q_append :: "bqueue \<Rightarrow> bytes \<Rightarrow> bqueue" where
  "q_append q bs = q\<lparr>q_bytes := q_bytes q @ bs, q_free := q_free q - length bs\<rparr>"

definition q_take :: "bqueue \<Rightarrow> nat \<Rightarrow> bqueue" where
  "q_take q n = q\<lparr>q_bytes := drop n (q_bytes q), q_head := q_head q + n\<rparr>"

definition q_write :: "bqueue \<Rightarrow> bytes \<Rightarrow> buf_out \<times> bqueue" where
  "q_write q bs =
     (if bs = [] then (OutN 0 None, q)
      else if q_free q = 0 then (OutN 0 (Some ErrShortBuffer), q)
      else (OutN (min (q_free q) (length bs)) None, q_append q (take (q_free q) bs)))"

fun q_step :: "buf_op \<Rightarrow> bqueue \<Rightarrow> (buf_out \<times> bqueue) option" where
  "q_step (OpWrite bs) q = Some (q_write q bs)"
| "q_step (OpWriteString s) q = Some (q_write q (str_bytes s))"
| "q_step (OpWriteByte d) q =
     Some (if q_free q = 0 then (OutErr (Some ErrShortBuffer), q) else (OutErr None, q_append q [d]))"
| "q_step (OpExtend bs) q =
     (if length bs \<le> q_free q then Some (OutUnit, q_append q bs) else None)"
| "q_step (OpPrepend bs) q =
     (if length bs \<le> q_head q
      then Some (OutUnit, q\<lparr>q_bytes := bs @ q_bytes q, q_head := q_head q - length bs\<rparr>) else None)"
| "q_step OpReadByte q =
     Some (case q_bytes q of [] \<Rightarrow> (OutByte 0 (Some EOF), q) | x # _ \<Rightarrow> (OutByte x None, q_take q 1))"
| "q_step (OpRead k) q =
     Some (if q_bytes q = [] then (OutBytes [] (Some EOF), q)
           else (OutBytes (take k (q_bytes q)) None, q_take q (min k (length (q_bytes q)))))"
| "q_step (OpPeek n) q =
     Some (if n < 0 then (OutBytes [] (Some ErrNegativeRead), q)
           else if n > int (length (q_bytes q)) then (OutBytes [] (Some ErrShortBuffer), q)
           else (OutBytes (take (nat n) (q_bytes q)) None, q_take q (nat n)))"

text \<open>A buffer whose slice uses its whole capacity, as \<open>NewSize\<close> makes for powers of two.\<close>

definition buf_exact :: "buffer \<Rightarrow> bool" where
  "buf_exact b \<longleftrightarrow> buf_wf b \<and> b_len b = int (length (b_arr b))"

lemma queue_absorb:
  assumes "buf_exact b" "length bs \<le> buf_free b"
  shows "buf_exact (Buffer_absorb b bs)" "buf_queue (Buffer_absorb b bs) = q_append (buf_queue b) bs"
proof -
  have wf: "buf_wf b" using assms(1) by (simp add: buf_exact_def)
  have "nat (b_end b) + length bs \<le> length (b_arr b)"
    using assms wf by (auto simp: buffer_defs)
  then show "buf_exact (Buffer_absorb b bs)"
    using assms buf_append(1) [OF wf assms(2)] by (simp add: buf_exact_def Buffer_absorb_def)
  show "buf_queue (Buffer_absorb b bs) = q_append (buf_queue b) bs"
    using buf_append(2-4) [OF wf assms(2)] by (simp add: buf_queue_def q_append_def)
qed

lemma queue_advance:
  assumes "buf_exact b" "0 \<le> n" "n \<le> int (length (buf_bytes b))"
  shows "buf_exact (Buffer_Advance b n)" "buf_queue (Buffer_Advance b n) = q_take (buf_queue b) (nat n)"
  using assms buf_advance [of b n]
  by (auto simp: buf_exact_def buf_queue_def q_take_def Buffer_Advance_def)

lemma buf_step_write:
  assumes "buf_exact b"
  shows "\<exists>b'. buf_step (OpWrite bs) b = Some (fst (q_write (buf_queue b) bs), b') \<and> buf_exact b' \<and>
              buf_queue b' = snd (q_write (buf_queue b) bs)"
proof -
  have wf: "buf_wf b" using assms by (simp add: buf_exact_def)
  have free: "q_free (buf_queue b) = buf_free b" by (simp add: buf_queue_def)
  show ?thesis
    using assms queue_absorb [OF assms, of "take (buf_free b) bs"]
    by (auto simp: Buffer_Write_wf [OF wf] q_write_def free)
qed

lemma WriteString_is_Write: "Buffer_WriteString b s = Buffer_Write b (str_bytes s)"
  by (simp add: Buffer_WriteString_def Buffer_Write_def)

lemma Buffer_Extend_panics_iff:
  assumes "buf_exact b" "\<not> length bs \<le> buf_free b"
  shows "Buffer_Extend b (int (length bs)) = None"
  using assms by (intro Buffer_Extend_panics) (auto simp: buf_exact_def buffer_defs)

lemma Buffer_ExtendHeader_panics_iff:
  "buf_wf b \<Longrightarrow> \<not> length bs \<le> buf_headroom b \<Longrightarrow> Buffer_ExtendHeader b (int (length bs)) = None"
  by (auto simp: Buffer_ExtendHeader_def buffer_defs)

lemma buf_step_refines:
  assumes "buf_exact b"
  shows "q_step x (buf_queue b) = map_option (\<lambda>(y, b'). (y, buf_queue b')) (buf_step x b) \<and>
         (\<forall>y b'. buf_step x b = Some (y, b') \<longrightarrow> buf_exact b')"
proof -
  have wf: "buf_wf b" and len: "b_len b = int (length (b_arr b))"
    using assms by (auto simp: buf_exact_def)
  have q: "q_bytes (buf_queue b) = buf_bytes b" "q_free (buf_queue b) = buf_free b"
    "q_head (buf_queue b) = buf_headroom b"
    by (simp_all add: buf_queue_def)
  note ab = queue_absorb [OF assms]
  show ?thesis
  proof (cases x)
    case (OpWrite bs)
    then show ?thesis using buf_step_write [OF assms, of bs] by (cases "q_write (buf_queue b) bs") auto
  next
    case (OpWriteString s)
    then show ?thesis using buf_step_write [OF assms, of "str_bytes s"]
      by (cases "q_write (buf_queue b) (str_bytes s)") (auto simp: WriteString_is_Write)
  next
    case (OpWriteByte d)
    show ?thesis
    proof (cases "buf_free b = 0")
      case True
      then show ?thesis
        using assms OpWriteByte by (auto simp: q Buffer_WriteByte_def Buffer_IsFull_free [OF wf])
    next
      case False
      then show ?thesis
        using ab [of "[d]"] OpWriteByte by (simp add: q Buffer_WriteByte_fits [OF wf])
    qed
  next
    case (OpExtend bs)
    then show ?thesis
      using Buffer_Extend_fill [OF wf, of bs] ab [of bs] Buffer_Extend_panics_iff [OF assms, of bs]
      by (cases "length bs \<le> buf_free b") (auto simp: q bind_eq_Some_conv)
  next
    case (OpPrepend bs)
    show ?thesis
    proof (cases "length bs \<le> buf_headroom b")
      case True
      moreover have "buf_headroom b \<le> length (b_arr b)" using wf by (auto simp: buffer_defs)
      ultimately show ?thesis
        using OpPrepend len Buffer_ExtendHeader_fill [OF wf, of bs]
        by (auto simp: q bind_eq_Some_conv buf_exact_def buf_queue_def)
    next
      case False
      then show ?thesis
        using OpPrepend Buffer_ExtendHeader_panics_iff [OF wf, of bs] by (simp add: q)
    qed
  next
    case OpReadByte
    then show ?thesis
      using queue_advance [OF assms, of 1] assms
      by (auto simp: q Buffer_ReadByte_wf [OF wf] split: list.split)
  next
    case (OpRead k)
    then show ?thesis
      using queue_advance [OF assms, of "int (min k (length (buf_bytes b)))"] assms
      by (auto simp: q Buffer_Read_wf [OF wf] simp del: length_buf_bytes)
  next
    case (OpPeek n)
    then show ?thesis
      using queue_advance [OF assms, of n] assms
      by (auto simp: q Buffer_Peek_wf [OF wf] simp del: length_buf_bytes)
  qed
qed

interpretation bufq: simulation buf_step q_step buf_queue buf_exact
  using buf_step_refines by unfold_locales auto

text \<open>(C34)
  Refinement: on a buffer whose slice uses its capacity, every sequence of writes, string and
  byte writes, extensions, header extensions, reads, peeks and byte reads returns exactly what
  the bounded byte queue returns, panics exactly when the queue has no room for an extension,
  and keeps the positions in order.\<close>

theorem Buffer_refines_queue:
  assumes "buf_exact b"
  shows "run_ops q_step ops (buf_queue b) =
           map_option (\<lambda>(outs, b'). (outs, buf_queue b')) (run_ops buf_step ops b) \<and>
         (\<forall>outs b'. run_ops buf_step ops b = Some (outs, b') \<longrightarrow> buf_exact b')"
  using bufq.run_sim [OF assms, of ops] bufq.run_inv [OF assms, of ops] by blast

theorem Buffer_refines_queue_witness:
  "buf_exact (Buffer_With (replicate 8 0) 8) \<and>
   run_ops q_step [OpWriteString ''ab'', OpReadByte, OpPeek 3] (buf_queue (Buffer_With (replicate 8 0) 8)) =
     Some ([OutN 2 None, OutByte 97 None, OutBytes [] (Some ErrShortBuffer)],
           \<lparr>q_bytes = [98], q_free = 6, q_head = 1\<rparr>)"
proof -
  let ?b = "Buffer_With (replicate 8 0) 8"
  have e: "buf_exact ?b" by (simp add: buf_exact_def buf_wf_def Buffer_With_def)
  have "run_ops q_step [OpWriteString ''ab'', OpReadByte, OpPeek 3] (buf_queue ?b) =
     Some ([OutN 2 None, OutByte 97 None, OutBytes [] (Some ErrShortBuffer)],
           \<lparr>q_bytes = [98], q_free = 6, q_head = 1\<rparr>)"
    by (simp add: buf_queue_def Buffer_With_def buffer_defs q_write_def q_append_def q_take_def
        str_bytes_def)
  with e Buffer_refines_queue [OF e] show ?thesis by simp
qed

section \<open>WriteZeroN\<close>

text \<open>The loop clears one byte more than it accounts for, so filling the buffer exactly panics.\<close>

lemma zero_from_result:
  "0 \<le> i \<Longrightarrow> len \<le> int (length arr) \<Longrightarrow>
   zero_from arr len i k =
     (if k = 0 \<or> i + int k \<le> len then Some (put_at arr (nat i) (replicate k 0)) else None)"
proof (induction k arbitrary: arr i)
  case 0
  then show ?case by simp
next
  case (Suc k)
  show ?case
  proof (cases "i < len")
    case True
    have idx: "nat (i + 1) = Suc (nat i)" "nat i < length arr" using Suc.prems True by auto
    have shift: "put_at (arr[nat i := 0]) (Suc (nat i)) (replicate k 0) = put_at arr (nat i) (replicate (Suc k) 0)"
      using idx(2) by (simp add: put_at_def take_Suc_conv_app_nth)
    show ?thesis
      using Suc.IH [of "i + 1" "arr[nat i := 0]"] Suc.prems True idx shift
      by (cases k) (auto simp: go_index_def put_at_def upd_conv_take_nth_drop)
  next
    case False
    then show ?thesis using Suc.prems by (auto simp: go_index_def)
  qed
qed

text \<open>\<open>WriteZeroN\<close> on a well-formed buffer: with room for more than \<open>n\<close> bytes it appends \<open>n\<close>
  zeros, without room it reports a short buffer, and with room for exactly \<open>n\<close> it panics
  (index out of range) instead of filling the buffer.\<close>

theorem Buffer_WriteZeroN_cases:
  assumes "buf_wf b"
  shows "if n < buf_free b
         then \<exists>b'. Buffer_WriteZeroN b (int n) = Some (None, b') \<and> buf_wf b' \<and>
                   buf_bytes b' = buf_bytes b @ replicate n 0
         else if n = buf_free b then Buffer_WriteZeroN b (int n) = None
         else Buffer_WriteZeroN b (int n) = Some (Some ErrShortBuffer, b)"
proof -
  have n1: "nat (int n + 1) = Suc n" by simp
  have z: "zero_from (b_arr b) (b_len b) (b_end b) (Suc n) =
      (if b_end b + int (Suc n) \<le> b_len b
       then Some (put_at (b_arr b) (nat (b_end b)) (replicate (Suc n) 0)) else None)"
    using assms by (subst zero_from_result) (auto simp: buf_wf_def)
  have short: "b_end b + int n > Buffer_Cap b \<longleftrightarrow> buf_free b < n"
    using assms by (auto simp: buffer_defs)
  have room: "b_end b + int (Suc n) \<le> b_len b \<longleftrightarrow> n < buf_free b"
    using assms by (auto simp: buffer_defs)
  let ?b0 = "Buffer_absorb b (replicate (Suc n) 0)"
  have "buf_wf (?b0\<lparr>b_end := b_end b + int n\<rparr>) \<and>
        buf_bytes (?b0\<lparr>b_end := b_end b + int n\<rparr>) = buf_bytes b @ replicate n 0" if "n < buf_free b"
  proof -
    have fit: "length (replicate (Suc n) (0::byte)) \<le> buf_free b" using that by simp
    note ap = buf_append(1,2) [OF assms fit]
    have len: "nat (b_end b + int n - b_start b) = length (buf_bytes b) + n"
      "nat (b_end b + int (Suc n) - b_start b) = Suc (length (buf_bytes b) + n)"
      using assms by (auto simp: buf_wf_def)
    have "buf_bytes (?b0\<lparr>b_end := b_end b + int n\<rparr>) = take (length (buf_bytes b) + n) (buf_bytes ?b0)"
      using len by (simp add: buf_bytes_def Buffer_absorb_def min_def)
    also have "\<dots> = buf_bytes b @ replicate n 0"
      unfolding ap(2) by (simp add: take_replicate min_def del: length_buf_bytes replicate_Suc)
    finally show ?thesis
      using assms ap(1) by (simp add: buf_wf_def Buffer_absorb_def)
  qed
  moreover have "Buffer_WriteZeroN b (int n) =
      (if buf_free b < n then Some (Some ErrShortBuffer, b)
       else if n < buf_free b then Some (None, ?b0\<lparr>b_end := b_end b + int n\<rparr>) else None)"
    unfolding Buffer_WriteZeroN_def short n1 z room
    by (simp add: Buffer_absorb_def del: replicate_Suc)
  ultimately show ?thesis by auto
qed

theorem Buffer_WriteZeroN_cases_witness:
  "buf_wf (Buffer_With (replicate 8 0) 8) \<and>
   Buffer_WriteZeroN (Buffer_With (replicate 8 0) 8) 8 = None"
proof -
  have wf: "buf_wf (Buffer_With (replicate 8 0) 8)" by (simp add: buf_wf_def Buffer_With_def)
  have "buf_free (Buffer_With (replicate 8 0) 8) = 8" by (simp add: buffer_defs Buffer_With_def)
  then show ?thesis using wf Buffer_WriteZeroN_cases [OF wf, of 8] by simp
qed

section \<open>Ownership\<close>

lemma Buffer_Release_closed [simp]: "b_closed b \<Longrightarrow> Buffer_Release (Some b) alloc = Some (Some b, alloc)"
  by (simp add: Buffer_Release_def)

text \<open>\<open>NewSize\<close> and \<open>Release\<close>: a buffer made for 1 to 65535 bytes is empty, well-formed, has the
  requested room and is owned by the pool; releasing it succeeds and closes it, and releasing
  it again changes neither the buffer nor the pools, so no array is pooled twice.\<close>

theorem Buffer_NewSize_Release:
  assumes "alloc_inv alloc" "0 < n" "n \<le> 65535"
  shows "\<exists>b alloc1 alloc2. Buffer_NewSize pick alloc n = Some (b, alloc1) \<and>
           buf_wf b \<and> buf_bytes b = [] \<and> buf_free b = nat n \<and>
           Buffer_Release (Some b) alloc1 = Some (Some closed_buffer, alloc2) \<and> alloc_inv alloc2 \<and>
           Buffer_Release (Some closed_buffer) alloc2 = Some (Some closed_buffer, alloc2)"
proof -
  obtain arr alloc1 where g: "Allocator_Get pick alloc n = Some ((arr, n), alloc1)"
    "length arr = 2 ^ (6 + pool_index (nat n))" "alloc_inv alloc1"
    using Allocator_Get_result [OF assms(1,2)] assms(3) by force
  let ?b = "\<lparr>b_arr = arr, b_len = n, b_start = 0, b_end = 0, b_managed = True, b_closed = False\<rparr>"
  have i: "pool_index (nat n) \<le> 10" "nat n \<le> length arr"
    using pool_index_fits [of "nat n"] assms g(2) by auto
  have "length arr \<le> 65536"
  proof -
    have "length arr \<le> 2 ^ 16" using i(1) unfolding g(2) by (intro power_increasing) auto
    then show ?thesis by simp
  qed
  then obtain alloc2 where p: "buf_Put alloc1 arr = Some (None, alloc2)" "alloc_inv alloc2"
    using Allocator_Put_result [OF g(3,2) i(1)] by (auto simp: buf_Put_def)
  have "Buffer_NewSize pick alloc n = Some (?b, alloc1)"
    using assms g(1) by (simp add: Buffer_NewSize_def buf_Get_def)
  moreover have "buf_wf ?b" "buf_bytes ?b = []" "buf_free ?b = nat n"
    using assms i(2) by (auto simp: buffer_defs)
  moreover have "Buffer_Release (Some ?b) alloc1 = Some (Some closed_buffer, alloc2)"
    using p by (simp add: Buffer_Release_def)
  ultimately show ?thesis using p(2) by (auto simp: closed_buffer_def)
qed

theorem Buffer_NewSize_Release_witness:
  "\<exists>b alloc1 alloc2. Buffer_NewSize None newDefaultAllocator 4096 = Some (b, alloc1) \<and>
     buf_wf b \<and> buf_bytes b = [] \<and> buf_free b = nat 4096 \<and>
     Buffer_Release (Some b) alloc1 = Some (Some closed_buffer, alloc2) \<and> alloc_inv alloc2 \<and>
     Buffer_Release (Some closed_buffer) alloc2 = Some (Some closed_buffer, alloc2)"
  by (rule Buffer_NewSize_Release) simp_all

end
