(* ===== verification/Frames.thy ===== *)
theory Frames
  imports Buffers
begin

text \<open>
  The datagram format of the UDP tunnel: \<open>common/udptunnel/limits.go\<close> (constants) and
  \<open>common/udptunnel/frame.go\<close> (\<open>Frame\<close>, \<open>Encode\<close>, \<open>Decode\<close>). Durations are nanoseconds.
\<close>

definition Magic :: "16 word" where "Magic = 0x5A42"
definition Version :: byte where "Version = 1"
definition HeaderSize :: nat where "HeaderSize = 2 + 1 + 1 + 8 + 4 + 4 + 2"
definition MaxPayload :: nat where "MaxPayload = 1200"
definition MaxInFlight :: nat where "MaxInFlight = 32"
definition MaxSessions :: nat where "MaxSessions = 256"

definition DefaultIdleTimeout :: int where "DefaultIdleTimeout = 90 * 10 ^ 9"
definition DefaultDialTimeout :: int where "DefaultDialTimeout = 5 * 10 ^ 9"
definition DefaultRTO :: int where "DefaultRTO = 200 * 10 ^ 6"
definition MaxRTO :: int where "MaxRTO = 2 * 10 ^ 9"
definition ProbeTimeout :: int where "ProbeTimeout = 1500 * 10 ^ 6"

definition TypeSYN :: byte where "TypeSYN = 1"
definition TypeSYNACK :: byte where "TypeSYNACK = 2"
definition TypeDATA :: byte where "TypeDATA = 3"
definition TypeACK :: byte where "TypeACK = 4"
definition TypeFIN :: byte where "TypeFIN = 5"
definition TypeRST :: byte where "TypeRST = 6"
definition TypePING :: byte where "TypePING = 7"
definition TypePONG :: byte where "TypePONG = 8"

lemmas tunnel_types = TypeSYN_def TypeSYNACK_def TypeDATA_def TypeACK_def TypeFIN_def TypeRST_def
  TypePING_def TypePONG_def

record Frame =
  f_type :: byte
  f_session :: "64 word"
  f_seq :: "32 word"
  f_ack :: "32 word"
  f_payload :: bytes

text \<open>
  \<open>Encode\<close> reuses \<open>dst\<close> when its capacity suffices and makes a slice otherwise, then stores
  every field at its offset. The payload length is stored as \<open>uint16\<close>.
\<close>

definition Encode :: "bytes \<Rightarrow> Frame \<Rightarrow> go_error + bytes" where
  "Encode dst f =
     (if length (f_payload f) > MaxPayload then Inl TunErrTooLong
      else
        let need = HeaderSize + length (f_payload f);
            d = (if length dst < need then replicate need 0 else take need dst);
            d = put_at d 0 (le_bytes 2 Magic);
            d = d[2 := Version];
            d = d[3 := f_type f];
            d = put_at d 4 (le_bytes 8 (f_session f));
            d = put_at d 12 (le_bytes 4 (f_seq f));
            d = put_at d 16 (le_bytes 4 (f_ack f));
            d = put_at d 20 (le_bytes 2 (of_nat (length (f_payload f)) :: 16 word));
            d = (if length (f_payload f) > 0 then put_at d 22 (f_payload f) else d)
        in Inr d)"

definition EncodeAlloc :: "Frame \<Rightarrow> go_error + bytes" where
  "EncodeAlloc f = Encode [] f"

text \<open>\<open>Decode\<close>, with the bounds check of every index and slice expression: \<open>None\<close> is a panic.\<close>

definition Decode :: "bytes \<Rightarrow> (go_error + Frame) option" where
  "Decode b =
     (if length b < HeaderSize then Some (Inl TunErrTooShort)
      else do {
        m \<leftarrow> go_slice b 0 2;
        if le_word m \<noteq> Magic then Some (Inl TunErrBadMagic)
        else do {
          v \<leftarrow> go_index b (int (length b)) 2;
          if v \<noteq> Version then Some (Inl TunErrBadVersion)
          else do {
            pl \<leftarrow> go_slice b 20 22;
            let plen = unat (le_word pl :: 16 word);
            if plen > MaxPayload then Some (Inl TunErrTooLong)
            else if length b < HeaderSize + plen then Some (Inl TunErrTooShort)
            else do {
              ty \<leftarrow> go_index b (int (length b)) 3;
              sid \<leftarrow> go_slice b 4 12;
              sq \<leftarrow> go_slice b 12 16;
              ak \<leftarrow> go_slice b 16 20;
              payload \<leftarrow> (if plen = 0 then Some [] else go_slice b 22 (22 + int plen));
              Some (Inr \<lparr>f_type = ty, f_session = le_word sid, f_seq = le_word sq, f_ack = le_word ak,
                         f_payload = payload\<rparr>)
            }
          }
        }
      })"

section \<open>The wire format\<close>

text \<open>The bytes of a frame, as one concatenation: the specification of \<open>Encode\<close>.\<close>

definition frame_bytes :: "Frame \<Rightarrow> bytes" where
  "frame_bytes f = le_bytes 2 Magic @ [Version, f_type f] @ le_bytes 8 (f_session f) @
     le_bytes 4 (f_seq f) @ le_bytes 4 (f_ack f) @
     le_bytes 2 (of_nat (length (f_payload f)) :: 16 word) @ f_payload f"

lemma length_frame_bytes [simp]: "length (frame_bytes f) = HeaderSize + length (f_payload f)"
  by (simp add: frame_bytes_def HeaderSize_def)

lemma list_of_length_22:
  assumes "length xs = 22 + n"
  obtains a0 a1 a2 a3 a4 a5 a6 a7 a8 a9 a10 a11 a12 a13 a14 a15 a16 a17 a18 a19 a20 a21 p where
    "xs = [a0, a1, a2, a3, a4, a5, a6, a7, a8, a9, a10, a11, a12, a13, a14, a15, a16, a17, a18, a19,
           a20, a21] @ p" "length p = n"
proof -
  have ex: "\<exists>a0 a1 a2 a3 a4 a5 a6 a7 a8 a9 a10 a11 a12 a13 a14 a15 a16 a17 a18 a19 a20 a21.
    h = [a0, a1, a2, a3, a4, a5, a6, a7, a8, a9, a10, a11, a12, a13, a14, a15, a16, a17, a18, a19,
         a20, a21]" if "length h = 22" for h :: "'a list"
    using that by (auto simp: numeral_eq_Suc length_Suc_conv)
  have "length (take 22 xs) = 22" using assms by simp
  from ex [OF this] obtain a0 a1 a2 a3 a4 a5 a6 a7 a8 a9 a10 a11 a12 a13 a14 a15 a16 a17 a18 a19 a20 a21
    where "take 22 xs = [a0, a1, a2, a3, a4, a5, a6, a7, a8, a9, a10, a11, a12, a13, a14, a15, a16, a17,
       a18, a19, a20, a21]"
    by (elim exE) (rule that)
  then show ?thesis using that [of _ _ _ _ _ _ _ _ _ _ _ _ _ _ _ _ _ _ _ _ _ _ "drop 22 xs"] assms
    by (metis append_take_drop_id length_drop add_diff_cancel_left')
qed

lemma Encode_frame_bytes:
  "Encode dst f = (if length (f_payload f) > MaxPayload then Inl TunErrTooLong else Inr (frame_bytes f))"
proof -
  define d0 where "d0 = (if length dst < HeaderSize + length (f_payload f)
    then replicate (HeaderSize + length (f_payload f)) 0 else take (HeaderSize + length (f_payload f)) dst)"
  have "length d0 = 22 + length (f_payload f)" by (auto simp: d0_def HeaderSize_def)
  then obtain a0 a1 a2 a3 a4 a5 a6 a7 a8 a9 a10 a11 a12 a13 a14 a15 a16 a17 a18 a19 a20 a21 p where
    d0: "d0 = [a0, a1, a2, a3, a4, a5, a6, a7, a8, a9, a10, a11, a12, a13, a14, a15, a16, a17, a18, a19,
           a20, a21] @ p" "length p = length (f_payload f)"
    by (rule list_of_length_22)
  have le2: "le_bytes 2 w = [ucast w, ucast (drop_bit 8 w)]" for w :: "16 word"
    by (simp add: numeral_eq_Suc)
  have le4: "le_bytes 4 w = map (\<lambda>i. ucast (drop_bit (8 * i) w)) [0, 1, 2, 3]" for w :: "32 word"
    by (simp add: numeral_eq_Suc)
  have le8: "le_bytes 8 w = map (\<lambda>i. ucast (drop_bit (8 * i) w)) [0, 1, 2, 3, 4, 5, 6, 7]" for w :: "64 word"
    by (simp add: numeral_eq_Suc)
  show ?thesis
    using d0(2)
    unfolding Encode_def Let_def d0_def [symmetric] d0(1) frame_bytes_def le2 le4 le8
    by (cases p; cases "f_payload f") (simp_all add: put_at_def)
qed

lemma Encode_length: "Encode dst f = Inr b \<Longrightarrow> length b = HeaderSize + length (f_payload f)"
  by (auto simp: Encode_frame_bytes split: if_splits)

text \<open>\<open>Decode\<close> on well-formed bytes followed by anything.\<close>

lemma frame_slices:
  fixes f :: Frame and junk :: bytes
  defines "b \<equiv> frame_bytes f @ junk"
  shows "go_slice b 0 2 = Some (le_bytes 2 Magic)" "go_index b (int (length b)) 2 = Some Version"
    "go_index b (int (length b)) 3 = Some (f_type f)" "go_slice b 4 12 = Some (le_bytes 8 (f_session f))"
    "go_slice b 12 16 = Some (le_bytes 4 (f_seq f))" "go_slice b 16 20 = Some (le_bytes 4 (f_ack f))"
    "go_slice b 20 22 = Some (le_bytes 2 (of_nat (length (f_payload f)) :: 16 word))"
    "go_slice b 22 (22 + int (length (f_payload f))) = Some (f_payload f)"
  by (simp_all add: b_def go_slice_def go_index_def frame_bytes_def HeaderSize_def numeral_eq_Suc)

lemma Decode_frame_bytes:
  assumes "length (f_payload f) \<le> MaxPayload"
  shows "Decode (frame_bytes f @ junk) = Some (Inr f)"
proof -
  have small: "unat (of_nat (length (f_payload f)) :: 16 word) = length (f_payload f)"
    using assms by (simp add: MaxPayload_def unsigned_of_nat take_bit_nat_eq_self)
  have le: "\<not> length (frame_bytes f @ junk) < HeaderSize"
    "\<not> length (frame_bytes f @ junk) < HeaderSize + length (f_payload f)" by simp_all
  show ?thesis
    using assms unfolding Decode_def frame_slices Let_def
    by (simp add: le small frame_slices frame_slices [of f, simplified HeaderSize_def])
qed

lemma Decode_never_panics: "\<exists>r. Decode b = Some r"
proof (cases "length b < HeaderSize")
  case False
  then have l: "22 \<le> length b" by (simp add: HeaderSize_def)
  then show ?thesis
    by (auto simp: Decode_def go_slice_def go_index_def HeaderSize_def Let_def simp del: of_nat_unat)
qed (simp add: Decode_def)

lemma Decode_Inr:
  assumes "Decode b = Some (Inr f)"
  shows "length (f_payload f) \<le> MaxPayload" "\<exists>junk. b = frame_bytes f @ junk"
proof -
  have l: "22 \<le> length b" using assms by (simp add: Decode_def HeaderSize_def split: if_splits)
  define plen where "plen = unat (le_word (take 2 (drop 20 b)) :: 16 word)"
  have d: "le_word (take 2 b) = Magic" "b ! 2 = Version" "plen \<le> MaxPayload" "22 + plen \<le> length b"
    "f = \<lparr>f_type = b ! 3, f_session = le_word (take 8 (drop 4 b)), f_seq = le_word (take 4 (drop 12 b)),
          f_ack = le_word (take 4 (drop 16 b)), f_payload = take plen (drop 22 b)\<rparr>"
    using assms l
    by (auto simp: Decode_def go_slice_def go_index_def HeaderSize_def Let_def plen_def
        simp del: of_nat_unat split: if_splits)
  then show "length (f_payload f) \<le> MaxPayload" by simp
  have pl: "length (f_payload f) = plen" using d(4,5) by simp
  have "le_bytes 2 Magic = take 2 b" unfolding d(1) [symmetric] using l by (intro le_bytes_le_word) simp_all
  moreover have "[Version, f_type f] = take 2 (drop 2 b)"
    using d(2,5) l by (intro nth_equalityI) (auto simp: less_Suc_eq numeral_2_eq_2 numeral_3_eq_3)
  moreover have "le_bytes 8 (f_session f) = take 8 (drop 4 b)" "le_bytes 4 (f_seq f) = take 4 (drop 12 b)"
    "le_bytes 4 (f_ack f) = take 4 (drop 16 b)" using d(5) l by simp_all
  moreover have "le_bytes 2 (of_nat plen :: 16 word) = take 2 (drop 20 b)"
    using l by (simp add: plen_def)
  moreover have "f_payload f = take plen (drop 22 b)" using d(5) by simp
  ultimately have "frame_bytes f = take 2 b @ take 2 (drop 2 b) @ take 8 (drop 4 b) @ take 4 (drop 12 b) @
      take 4 (drop 16 b) @ take 2 (drop 20 b) @ take plen (drop 22 b)"
    unfolding frame_bytes_def pl by simp
  also have "\<dots> = take (2 + (2 + (8 + (4 + (4 + (2 + plen)))))) b"
    by (simp only: take_add drop_drop) simp
  finally show "\<exists>junk. b = frame_bytes f @ junk" by (metis append_take_drop_id)
qed

section \<open>Properties\<close>

text \<open>(C35)
  The framing round trip and its converse: a frame with a payload of at most 1200 bytes encodes,
  into any reused buffer, to 22 header bytes and the payload, and decoding the datagram
  (with any trailing bytes) gives the same frame; and whatever \<open>Decode\<close> accepts is the encoding
  of the frame it returns, followed by ignored bytes, so no two frames share an encoding.\<close>

theorem Frame_roundtrip:
  "(length (f_payload f) \<le> MaxPayload \<longrightarrow>
      (\<exists>b. Encode dst f = Inr b \<and> length b = HeaderSize + length (f_payload f) \<and>
           Decode (b @ junk) = Some (Inr f))) \<and>
   (Decode d = Some (Inr g) \<longrightarrow> (\<exists>b rest. EncodeAlloc g = Inr b \<and> d = b @ rest))"
  using Decode_frame_bytes [of f junk] Decode_Inr [of d g]
  by (auto simp: Encode_frame_bytes EncodeAlloc_def not_less)

theorem Frame_roundtrip_witness:
  "Decode (frame_bytes \<lparr>f_type = TypeDATA, f_session = 42, f_seq = 3, f_ack = 1, f_payload = [104, 105]\<rparr>
           @ [0]) =
     Some (Inr \<lparr>f_type = TypeDATA, f_session = 42, f_seq = 3, f_ack = 1, f_payload = [104, 105]\<rparr>)"
  using Frame_roundtrip [of "\<lparr>f_type = TypeDATA, f_session = 42, f_seq = 3, f_ack = 1, f_payload = [104, 105]\<rparr>"
      "[]" "[0]"]
  by (auto simp: MaxPayload_def Encode_frame_bytes)

text \<open>\<open>Decode\<close> never panics: no datagram of any length or content reaches an index or slice
  expression out of range.\<close>

theorem Decode_total: "\<exists>r. Decode b = Some r"
  by (rule Decode_never_panics)

end
