(* ===== verification/Sessions.thy ===== *)
theory Sessions
  imports Frames
begin

text \<open>
  A tunnel session (common/udptunnel/session.go) and the \<open>net.Conn\<close> over it
  (common/udptunnel/conn.go): a sender with a window of unacknowledged slots and a receiver
  with a reassembly window, both of \<open>MaxInFlight\<close> frames.

  Each method is a composition of its critical sections (what runs under \<open>s.mu\<close>) and the
  packets it sends after unlocking; the sections are definitions of their own
  (\<open>..._locked\<close>), because other goroutines may run between them. Times are nanoseconds, read
  from the clock by the caller. A channel of capacity one (\<open>writeWait\<close>, \<open>readWait\<close>) is whether
  it holds a token; the handshake channel is whether it is closed. The encode buffer is scratch
  space (\<open>Encode\<close> overwrites all it returns) and keeps no state.
\<close>

type_synonym net_addr = string
type_synonym datagram = "net_addr \<times> bytes"

record sendSlot =
  sl_data :: bytes
  sl_seq :: "32 word"
  sl_lastSend :: int

record session =
  s_id :: "64 word"
  s_pc :: bool
  s_peer :: "net_addr option"
  s_closed :: bool
  s_sendNext :: "32 word"
  s_sendSlots :: "sendSlot list"
  s_writeWait :: bool
  s_recvNext :: "32 word"
  s_recvBuf :: "bytes list"
  s_recvValid :: "bool list"
  s_readBuf :: bytes
  s_readWait :: bool
  s_readEOF :: bool
  s_writeFin :: bool
  s_lastActive :: int
  s_rto :: int
  s_handshake :: bool
  s_onClosed :: bool
  s_closeCb :: bool

definition newSession :: "64 word \<Rightarrow> bool \<Rightarrow> net_addr option \<Rightarrow> int \<Rightarrow> session" where
  "newSession sid pc peer now =
     \<lparr>s_id = sid, s_pc = pc, s_peer = peer, s_closed = False,
      s_sendNext = 0, s_sendSlots = [], s_writeWait = False,
      s_recvNext = 0, s_recvBuf = replicate MaxInFlight [], s_recvValid = replicate MaxInFlight False,
      s_readBuf = [], s_readWait = False, s_readEOF = False, s_writeFin = False,
      s_lastActive = now, s_rto = DefaultRTO, s_handshake = False, s_onClosed = False, s_closeCb = False\<rparr>"

definition touch :: "int \<Rightarrow> session \<Rightarrow> session" where
  "touch now s = s\<lparr>s_lastActive := now\<rparr>"

definition signalHS :: "session \<Rightarrow> session" where
  "signalHS s = s\<lparr>s_handshake := True\<rparr>"

definition notify_read :: "session \<Rightarrow> session" where
  "notify_read s = s\<lparr>s_readWait := True\<rparr>"

definition notify_write :: "session \<Rightarrow> session" where
  "notify_write s = s\<lparr>s_writeWait := True\<rparr>"

text \<open>\<open>invokeClosed\<close> runs the callback at most once; the result says whether it runs now.\<close>

definition invokeClosed :: "session \<Rightarrow> bool \<times> session" where
  "invokeClosed s = (if s_closeCb s then (False, s) else (s_onClosed s, s\<lparr>s_closeCb := True\<rparr>))"

text \<open>\<open>tx\<close> is what \<open>pc.WriteTo\<close> returns.\<close>

definition writePacket ::
  "go_error option \<Rightarrow> session \<Rightarrow> byte \<Rightarrow> 32 word \<Rightarrow> 32 word \<Rightarrow> bytes \<Rightarrow> go_error option \<times> datagram list" where
  "writePacket tx s typ sq ack payload =
     (if s_closed s \<and> typ \<noteq> TypeRST \<and> typ \<noteq> TypeFIN \<and> typ \<noteq> TypeACK \<and> typ \<noteq> TypeSYNACK
      then (Some NetErrClosed, [])
      else case Encode (replicate (HeaderSize + MaxPayload) 0)
             \<lparr>f_type = typ, f_session = s_id s, f_seq = sq, f_ack = ack, f_payload = payload\<rparr> of
        Inl e \<Rightarrow> (Some e, [])
      | Inr out \<Rightarrow>
          (case s_peer s of
             None \<Rightarrow> (Some ErrClosedPipe, [])
           | Some peer \<Rightarrow> if \<not> s_pc s then (Some ErrClosedPipe, []) else (tx, [(peer, out)])))"

section \<open>Receiving\<close>

definition consumeAckLocked :: "32 word \<Rightarrow> session \<Rightarrow> session" where
  "consumeAckLocked ack s =
     (if s_sendSlots s = [] then s
      else let kept = filter (\<lambda>slot. \<not> sl_seq slot < ack) (s_sendSlots s)
           in if length kept < length (s_sendSlots s)
              then notify_write (s\<lparr>s_sendSlots := kept, s_rto := DefaultRTO\<rparr>)
              else s)"

text \<open>One turn of the delivery loop: the head of the window moves to \<open>readBuf\<close>.\<close>

definition deliver_head :: "session \<Rightarrow> session" where
  "deliver_head s = notify_read (s\<lparr>
     s_readBuf := s_readBuf s @ hd (s_recvBuf s),
     s_recvBuf := tl (s_recvBuf s) @ [[]],
     s_recvValid := tl (s_recvValid s) @ [False],
     s_recvNext := s_recvNext s + 1\<rparr>)"

function deliver_loop :: "session \<Rightarrow> session" where
  "deliver_loop s =
     (case s_recvValid s of
        True # _ \<Rightarrow> deliver_loop (deliver_head s)
      | _ \<Rightarrow> s)"
  by pat_completeness auto
termination
  by (relation "measure (\<lambda>s. length (filter id (s_recvValid s)))")
     (auto simp: deliver_head_def notify_read_def)

declare deliver_loop.simps [simp del]

definition storeDataLocked :: "Frame \<Rightarrow> session \<Rightarrow> session" where
  "storeDataLocked f s =
     (if f_seq f < s_recvNext s then s
      else let off = unat (f_seq f - s_recvNext s)
           in if off \<ge> MaxInFlight then s
              else deliver_loop
                (if \<not> s_recvValid s ! off
                 then s\<lparr>s_recvBuf := (s_recvBuf s)[off := f_payload f],
                        s_recvValid := (s_recvValid s)[off := True]\<rparr>
                 else s))"

definition forceCloseLocked :: "session \<Rightarrow> session" where
  "forceCloseLocked s =
     (if s_closed s then s
      else notify_write (notify_read (signalHS
             (s\<lparr>s_closed := True, s_readEOF := True, s_writeFin := True\<rparr>))))"

text \<open>
  \<open>onPacket\<close>: the section under the lock, with what follows the unlock: nothing, an
  acknowledgement carrying the captured \<open>recvNext\<close>, or the close callback.
\<close>

datatype after_packet = Nothing | SendAck "32 word" | RunClosed

definition onPacket_locked ::
  "int \<Rightarrow> Frame \<Rightarrow> net_addr option \<Rightarrow> session \<Rightarrow> session \<times> after_packet" where
  "onPacket_locked now f from s =
     (if s_closed s then (s, Nothing)
      else
        let s = (case from of Some a \<Rightarrow> s\<lparr>s_peer := Some a\<rparr> | None \<Rightarrow> s);
            s = touch now s;
            s = (if f_type f \<in> {TypeACK, TypeDATA, TypeSYNACK, TypeFIN}
                 then consumeAckLocked (f_ack f) s else s)
        in if f_type f = TypeDATA then
             let s = storeDataLocked f s in (s, SendAck (s_recvNext s))
           else if f_type f = TypeFIN then
             let s = notify_read (s\<lparr>s_readEOF := True\<rparr>) in (s, SendAck (s_recvNext s))
           else if f_type f = TypeRST then (forceCloseLocked s, RunClosed)
           else if f_type f = TypeSYNACK then (notify_write (signalHS s), Nothing)
           else if f_type f = TypeACK then (notify_write s, Nothing)
           else (s, Nothing))"

definition onPacket ::
  "int \<Rightarrow> go_error option \<Rightarrow> Frame \<Rightarrow> net_addr option \<Rightarrow> session \<Rightarrow> session \<times> datagram list \<times> bool" where
  "onPacket now tx f from s =
     (case onPacket_locked now f from s of
        (s', Nothing) \<Rightarrow> (s', [], False)
      | (s', SendAck ack) \<Rightarrow> (s', snd (writePacket tx s' TypeACK 0 ack []), False)
      | (s', RunClosed) \<Rightarrow> (let (runs, s'') = invokeClosed s' in (s'', [], runs)))"

section \<open>Writing\<close>

text \<open>
  One iteration of the loop of \<open>write\<close> under the lock: it waits for the window, finds the
  session closed, or takes the next chunk.
\<close>

datatype chunk_result = WindowFull | WriteClosed | Took "32 word" "32 word" bytes session

definition write_chunk_locked :: "int \<Rightarrow> bytes \<Rightarrow> session \<Rightarrow> chunk_result" where
  "write_chunk_locked now b s =
     (if \<not> s_closed s \<and> \<not> s_writeFin s \<and> length (s_sendSlots s) \<ge> MaxInFlight then WindowFull
      else if s_closed s \<or> s_writeFin s then WriteClosed
      else
        let n = (if length b > MaxPayload then MaxPayload else length b);
            payload = take n b;
            sq = s_sendNext s
        in Took sq (s_recvNext s) payload
             (s\<lparr>s_sendNext := sq + 1,
                s_sendSlots := s_sendSlots s @ [\<lparr>sl_data = payload, sl_seq = sq, sl_lastSend = now\<rparr>]\<rparr>))"

datatype write_result = WroteReturn nat "go_error option" | WroteWaits nat bytes

lemma write_chunk_payload:
  "write_chunk_locked now b s = Took sq ack payload s' \<Longrightarrow> b \<noteq> [] \<Longrightarrow>
   payload = take (min (length b) MaxPayload) b \<and> 0 < length payload"
  by (auto simp: write_chunk_locked_def Let_def MaxPayload_def split: if_splits)

text \<open>
  \<open>write\<close>: \<open>clock k\<close> and \<open>tx k\<close> are the time and the send result of the \<open>k\<close>-th chunk. When the
  window is full the goroutine waits, with the bytes still to write.
\<close>

function session_write ::
  "(nat \<Rightarrow> int) \<Rightarrow> (nat \<Rightarrow> go_error option) \<Rightarrow> nat \<Rightarrow> session \<Rightarrow> bytes \<Rightarrow> nat \<Rightarrow>
   write_result \<times> session \<times> datagram list" where
  "session_write clock tx k s b tot =
     (if b = [] then (WroteReturn tot None, s, [])
      else case write_chunk_locked (clock k) b s of
        WindowFull \<Rightarrow> (WroteWaits tot b, s, [])
      | WriteClosed \<Rightarrow> (WroteReturn tot (if tot > 0 then None else Some NetErrClosed), s, [])
      | Took sq ack payload s' \<Rightarrow>
          (case writePacket (tx k) s' TypeDATA sq ack payload of
             (Some e, out) \<Rightarrow> (WroteReturn tot (Some e), s', out)
           | (None, out) \<Rightarrow>
               (let (r, s'', out') = session_write clock tx (Suc k) s' (drop (length payload) b)
                                        (tot + length payload)
                in (r, s'', out @ out'))))"
  by pat_completeness auto
termination
  by (relation "measure (\<lambda>(clock, tx, k, s, b, tot). length b)")
     (auto dest: write_chunk_payload)

declare session_write.simps [simp del]

section \<open>Reading, retransmission, closing\<close>

datatype read_result = ReadWaits | ReadReturn bytes "go_error option"

definition session_read :: "nat \<Rightarrow> session \<Rightarrow> read_result \<times> session" where
  "session_read k s =
     (if s_readBuf s = [] \<and> \<not> s_readEOF s \<and> \<not> s_closed s then (ReadWaits, s)
      else if s_readBuf s = [] then
        (ReadReturn [] (Some (if s_readEOF s \<or> s_closed s then EOF else ErrNoProgress)), s)
      else (ReadReturn (take k (s_readBuf s)) None, s\<lparr>s_readBuf := drop k (s_readBuf s)\<rparr>))"

text \<open>\<open>retransmitTick\<close> under the lock: the due slots, stamped, and the backed-off timeout.\<close>

definition retransmit_locked :: "int \<Rightarrow> session \<Rightarrow> (32 word \<times> 32 word \<times> bytes) list \<times> session" where
  "retransmit_locked now s =
     (if s_closed s \<or> s_sendSlots s = [] then ([], s)
      else
        let isdue = (\<lambda>slot. now - sl_lastSend slot \<ge> s_rto s);
            due = map (\<lambda>slot. (sl_seq slot, s_recvNext s, sl_data slot)) (filter isdue (s_sendSlots s));
            slots = map (\<lambda>slot. if isdue slot then slot\<lparr>sl_lastSend := now\<rparr> else slot) (s_sendSlots s);
            rto = (if due \<noteq> [] \<and> s_rto s < MaxRTO
                   then (if s_rto s * 2 > MaxRTO then MaxRTO else s_rto s * 2) else s_rto s)
        in (due, s\<lparr>s_sendSlots := slots, s_rto := rto\<rparr>))"

definition retransmitTick :: "int \<Rightarrow> go_error option \<Rightarrow> session \<Rightarrow> session \<times> datagram list" where
  "retransmitTick now tx s =
     (let (due, s') = retransmit_locked now s
      in (s', concat (map (\<lambda>(sq, ack, d). snd (writePacket tx s' TypeDATA sq ack d)) due)))"

text \<open>\<open>close\<close>: mark, send FIN, force the close, run the callback. The flag says it was open.\<close>

definition close_mark_locked :: "session \<Rightarrow> (32 word \<times> session) option" where
  "close_mark_locked s =
     (if s_closed s then None else Some (s_recvNext s, s\<lparr>s_writeFin := True\<rparr>))"

definition session_close :: "go_error option \<Rightarrow> session \<Rightarrow> session \<times> datagram list \<times> bool" where
  "session_close tx s =
     (case close_mark_locked s of
        None \<Rightarrow> (s, [], False)
      | Some (ack, s1) \<Rightarrow>
          (let out = snd (writePacket tx s1 TypeFIN 0 ack []);
               (runs, s2) = invokeClosed (forceCloseLocked s1)
           in (s2, out, runs)))"

definition session_idle :: "int \<Rightarrow> int \<Rightarrow> session \<Rightarrow> bool" where
  "session_idle now timeout s \<longleftrightarrow> now - s_lastActive s > timeout"

section \<open>The connection over a session\<close>

text \<open>
  \<open>Conn.Read\<close> with a deadline, one turn of its loop at time \<open>now\<close>: it times out, reads what the
  session has, or waits. Without a deadline it is \<open>session_read\<close>. \<open>None\<close> is the zero time.
\<close>

record tunnel_conn =
  c_localAddr :: net_addr
  c_remoteAddr :: net_addr
  c_readDl :: "int option"
  c_writeDl :: "int option"

definition newConn :: "net_addr \<Rightarrow> net_addr \<Rightarrow> tunnel_conn" where
  "newConn local remote =
     \<lparr>c_localAddr = local, c_remoteAddr = remote, c_readDl = None, c_writeDl = None\<rparr>"

definition SetDeadline :: "int option \<Rightarrow> tunnel_conn \<Rightarrow> tunnel_conn" where
  "SetDeadline t c = c\<lparr>c_readDl := t, c_writeDl := t\<rparr>"

definition SetReadDeadline :: "int option \<Rightarrow> tunnel_conn \<Rightarrow> tunnel_conn" where
  "SetReadDeadline t c = c\<lparr>c_readDl := t\<rparr>"

definition SetWriteDeadline :: "int option \<Rightarrow> tunnel_conn \<Rightarrow> tunnel_conn" where
  "SetWriteDeadline t c = c\<lparr>c_writeDl := t\<rparr>"

definition Conn_Read :: "int \<Rightarrow> nat \<Rightarrow> tunnel_conn \<Rightarrow> session \<Rightarrow> read_result \<times> session" where
  "Conn_Read now k c s =
     (case c_readDl c of
        None \<Rightarrow> session_read k s
      | Some dl \<Rightarrow>
          if now > dl then (ReadReturn [] (Some ErrTimeout), s)
          else if length (s_readBuf s) > 0 \<or> s_readEOF s \<or> s_closed s then session_read k s
          else (ReadWaits, s))"

definition Conn_Write ::
  "int \<Rightarrow> (nat \<Rightarrow> int) \<Rightarrow> (nat \<Rightarrow> go_error option) \<Rightarrow> tunnel_conn \<Rightarrow> session \<Rightarrow> bytes \<Rightarrow>
   write_result \<times> session \<times> datagram list" where
  "Conn_Write now clock tx c s b =
     (case c_writeDl c of
        Some dl \<Rightarrow> if now > dl then (WroteReturn 0 (Some ErrTimeout), s, [])
                    else session_write clock tx 0 s b 0
      | None \<Rightarrow> session_write clock tx 0 s b 0)"

section \<open>The window invariant\<close>

text \<open>
  What every critical section keeps: at most \<open>MaxInFlight\<close> unacknowledged chunks of 1 to
  \<open>MaxPayload\<close> bytes, a reassembly window of exactly \<open>MaxInFlight\<close> cells whose head is never
  left filled, a timeout between its two bounds, and a closed session that reads end-of-file,
  refuses writes and has released the dialer.
\<close>

definition session_inv :: "session \<Rightarrow> bool" where
  "session_inv s \<longleftrightarrow>
     length (s_sendSlots s) \<le> MaxInFlight \<and>
     (\<forall>slot \<in> set (s_sendSlots s). 0 < length (sl_data slot) \<and> length (sl_data slot) \<le> MaxPayload) \<and>
     length (s_recvBuf s) = MaxInFlight \<and> length (s_recvValid s) = MaxInFlight \<and>
     \<not> hd (s_recvValid s) \<and>
     DefaultRTO \<le> s_rto s \<and> s_rto s \<le> MaxRTO \<and>
     (s_closed s \<longrightarrow> s_readEOF s \<and> s_writeFin s \<and> s_handshake s)"

lemmas session_flag_defs = touch_def signalHS_def notify_read_def notify_write_def

text \<open>The delivery loop only touches the receiving half.\<close>

definition same_sender :: "session \<Rightarrow> session \<Rightarrow> bool" where
  "same_sender s t \<longleftrightarrow> s_sendNext t = s_sendNext s \<and> s_sendSlots t = s_sendSlots s \<and> s_rto t = s_rto s \<and>
     s_closed t = s_closed s \<and> s_writeFin t = s_writeFin s \<and> s_handshake t = s_handshake s \<and>
     s_readEOF t = s_readEOF s \<and> s_id t = s_id s \<and> s_pc t = s_pc s \<and> s_peer t = s_peer s \<and>
     s_onClosed t = s_onClosed s \<and> s_closeCb t = s_closeCb s"

lemma same_sender_refl [simp, intro]: "same_sender s s"
  by (simp add: same_sender_def)

lemma same_sender_trans: "same_sender s t \<Longrightarrow> same_sender t u \<Longrightarrow> same_sender s u"
  by (simp add: same_sender_def)

lemma same_sender_deliver_head [simp, intro]: "same_sender s (deliver_head s)"
  by (simp add: same_sender_def deliver_head_def notify_read_def)

lemma deliver_loop_True: "s_recvValid s = True # vs \<Longrightarrow> deliver_loop s = deliver_loop (deliver_head s)"
  by (subst deliver_loop.simps) simp

lemma deliver_loop_False: "\<not> (s_recvValid s \<noteq> [] \<and> hd (s_recvValid s)) \<Longrightarrow> deliver_loop s = s"
  by (subst deliver_loop.simps) (auto split: list.splits bool.splits)

text \<open>An invariant of the loop: what \<open>deliver_head\<close> keeps while the head is filled.\<close>

lemma deliver_loop_induct:
  assumes "P s"
    and "\<And>t. P t \<Longrightarrow> s_recvValid t \<noteq> [] \<Longrightarrow> hd (s_recvValid t) \<Longrightarrow> P (deliver_head t)"
  shows "P (deliver_loop s) \<and> \<not> (s_recvValid (deliver_loop s) \<noteq> [] \<and> hd (s_recvValid (deliver_loop s)))"
  using assms(1)
proof (induction s rule: deliver_loop.induct)
  case (1 s)
  show ?case
  proof (cases "s_recvValid s \<noteq> [] \<and> hd (s_recvValid s)")
    case True
    then obtain vs where v: "s_recvValid s = True # vs" by (cases "s_recvValid s") auto
    have "P (deliver_head s)" using assms(2) 1(2) True by blast
    then show ?thesis using 1(1) [OF v refl] by (simp add: deliver_loop_True [OF v])
  next
    case False
    then show ?thesis using 1(2) deliver_loop_False [OF False] by simp
  qed
qed

lemma deliver_loop_same_sender [simp, intro]: "same_sender s (deliver_loop s)"
  using deliver_loop_induct [of "same_sender s" s] same_sender_trans same_sender_deliver_head
  by blast

lemma deliver_loop_lengths:
  assumes "length (s_recvBuf s) = MaxInFlight" "length (s_recvValid s) = MaxInFlight"
  shows "length (s_recvBuf (deliver_loop s)) = MaxInFlight \<and> length (s_recvValid (deliver_loop s)) = MaxInFlight \<and>
    \<not> hd (s_recvValid (deliver_loop s))"
proof -
  have "(length (s_recvBuf (deliver_loop s)) = MaxInFlight \<and> length (s_recvValid (deliver_loop s)) = MaxInFlight) \<and>
    \<not> (s_recvValid (deliver_loop s) \<noteq> [] \<and> hd (s_recvValid (deliver_loop s)))"
    using assms
    by (intro deliver_loop_induct) (auto simp: deliver_head_def notify_read_def MaxInFlight_def)
  then show ?thesis by (auto simp: MaxInFlight_def)
qed

lemma storeDataLocked_same_sender [simp, intro]: "same_sender s (storeDataLocked f s)"
proof -
  have "same_sender s t \<Longrightarrow> same_sender s (deliver_loop t)" for t
    using same_sender_trans deliver_loop_same_sender by blast
  moreover have "same_sender s (s\<lparr>s_recvBuf := x, s_recvValid := y\<rparr>)" for x y
    by (simp add: same_sender_def)
  ultimately show ?thesis by (simp add: storeDataLocked_def Let_def)
qed

lemma session_inv_same_sender:
  assumes "session_inv s" "same_sender s t" "length (s_recvBuf t) = MaxInFlight"
    "length (s_recvValid t) = MaxInFlight" "\<not> hd (s_recvValid t)"
  shows "session_inv t"
  using assms by (auto simp: session_inv_def same_sender_def)

lemma session_inv_storeDataLocked [simp, intro]:
  assumes "session_inv s"
  shows "session_inv (storeDataLocked f s)"
proof (rule session_inv_same_sender [OF assms storeDataLocked_same_sender])
  let ?t = "\<lambda>off. if \<not> s_recvValid s ! off then s\<lparr>s_recvBuf := (s_recvBuf s)[off := f_payload f],
                        s_recvValid := (s_recvValid s)[off := True]\<rparr> else s"
  have l: "length (s_recvBuf (?t off)) = MaxInFlight" "length (s_recvValid (?t off)) = MaxInFlight" for off
    using assms by (auto simp: session_inv_def)
  note d = deliver_loop_lengths [OF l]
  show "length (s_recvBuf (storeDataLocked f s)) = MaxInFlight"
    "length (s_recvValid (storeDataLocked f s)) = MaxInFlight" "\<not> hd (s_recvValid (storeDataLocked f s))"
    using d assms by (auto simp: storeDataLocked_def Let_def session_inv_def)
qed

lemma session_inv_consumeAckLocked [simp, intro]: "session_inv s \<Longrightarrow> session_inv (consumeAckLocked a s)"
  by (auto simp: session_inv_def consumeAckLocked_def Let_def notify_write_def MaxRTO_def DefaultRTO_def)

lemma session_inv_forceCloseLocked [simp, intro]: "session_inv s \<Longrightarrow> session_inv (forceCloseLocked s)"
  by (auto simp: session_inv_def forceCloseLocked_def session_flag_defs)

lemma session_inv_flags [simp]:
  "session_inv (touch now s) = session_inv s" "session_inv (notify_read s) = session_inv s"
  "session_inv (notify_write s) = session_inv s" "session_inv (s\<lparr>s_peer := p\<rparr>) = session_inv s"
  "session_inv s \<Longrightarrow> session_inv (signalHS s)" "session_inv s \<Longrightarrow> session_inv (s\<lparr>s_readEOF := True\<rparr>)"
  by (auto simp: session_inv_def session_flag_defs)

lemma session_inv_onPacket_locked:
  assumes "session_inv s"
  shows "session_inv (fst (onPacket_locked now f from s))"
  using assms by (auto simp: onPacket_locked_def Let_def split: option.splits)

lemma session_inv_write_chunk:
  assumes "session_inv s" "write_chunk_locked now b s = Took sq ack payload s'" "b \<noteq> []"
  shows "session_inv s'"
  using assms by (auto simp: session_inv_def write_chunk_locked_def Let_def MaxPayload_def split: if_splits)

lemma session_inv_session_read: "session_inv s \<Longrightarrow> session_inv (snd (session_read k s))"
  by (auto simp: session_inv_def session_read_def)

lemma session_inv_retransmit_locked: "session_inv s \<Longrightarrow> session_inv (snd (retransmit_locked now s))"
  by (auto simp: session_inv_def retransmit_locked_def Let_def MaxRTO_def DefaultRTO_def)

lemma session_inv_invokeClosed: "session_inv s \<Longrightarrow> session_inv (snd (invokeClosed s))"
  by (auto simp: session_inv_def invokeClosed_def)

lemma session_inv_close_mark: "session_inv s \<Longrightarrow> close_mark_locked s = Some (ack, s') \<Longrightarrow> session_inv s'"
  by (auto simp: session_inv_def close_mark_locked_def split: if_splits)

text \<open>The methods, as compositions of the sections.\<close>

lemma session_inv_onPacket: "session_inv s \<Longrightarrow> session_inv (fst (onPacket now tx f from s))"
  using session_inv_onPacket_locked [of s now f "from"]
  by (cases "onPacket_locked now f from s"; cases "snd (onPacket_locked now f from s)")
     (auto simp: onPacket_def invokeClosed_def session_inv_def)

lemma session_inv_session_write:
  "session_inv s \<Longrightarrow> session_inv (fst (snd (session_write clock tx k s b tot)))"
proof (induction clock tx k s b tot rule: session_write.induct)
  case (1 clock tx k s b tot)
  show ?case
  proof (cases "b = []")
    case True
    then show ?thesis using 1 by (subst session_write.simps) simp
  next
    case False
    show ?thesis
    proof (cases "write_chunk_locked (clock k) b s")
      case (Took sq ack payload s')
      note i = session_inv_write_chunk [OF 1(2) Took False]
      show ?thesis
      proof (cases "writePacket (tx k) s' TypeDATA sq ack payload")
        case (Pair e out)
        then show ?thesis using False Took i 1(1) [OF False Took Pair [symmetric]]
          by (subst session_write.simps) (auto split: option.splits prod.splits)
      qed
    next
      case WindowFull
      then show ?thesis using False 1(2) by (subst session_write.simps) simp
    next
      case WriteClosed
      then show ?thesis using False 1(2) by (subst session_write.simps) simp
    qed
  qed
qed

lemma session_inv_session_close: "session_inv s \<Longrightarrow> session_inv (fst (session_close tx s))"
proof (cases "close_mark_locked s")
  case (Some r)
  moreover assume "session_inv s"
  ultimately show ?thesis
    using session_inv_close_mark [of s "fst r" "snd r"]
      session_inv_invokeClosed [OF session_inv_forceCloseLocked [of "snd r"]]
    by (cases r) (auto simp: session_close_def Let_def split: prod.splits)
qed (simp add: session_close_def)

lemma session_inv_retransmitTick: "session_inv s \<Longrightarrow> session_inv (fst (retransmitTick now tx s))"
  using session_inv_retransmit_locked [of s now] by (simp add: retransmitTick_def case_prod_beta Let_def)

lemma session_inv_newSession: "session_inv (newSession sid pc peer now)"
  by (simp add: newSession_def session_inv_def DefaultRTO_def MaxRTO_def MaxInFlight_def)

section \<open>Properties\<close>

text \<open>(C33)
  The window invariant: a new session satisfies it, and every method of a session keeps it,
  whatever frames arrive and whatever the caller writes: never more than 32 chunks in flight,
  each of 1 to 1200 bytes, the reassembly window never indexes outside its 32 cells, the
  retransmission timeout stays between 200 ms and 2 s, and a closed session is closed for
  reading, writing and dialing.\<close>

theorem session_invariant:
  "session_inv (newSession sid pc peer start) \<and>
   (session_inv s \<longrightarrow>
      session_inv (fst (onPacket now tx f from s)) \<and>
      session_inv (fst (snd (session_write clock txs k s b 0))) \<and>
      session_inv (snd (session_read n s)) \<and>
      session_inv (fst (retransmitTick now tx s)) \<and>
      session_inv (fst (session_close tx s)))"
  by (simp add: session_inv_newSession session_inv_onPacket session_inv_session_write
      session_inv_session_read session_inv_session_close session_inv_retransmitTick)

theorem session_invariant_witness:
  "session_inv (fst (onPacket 5 None \<lparr>f_type = TypeDATA, f_session = 1, f_seq = 0, f_ack = 0, f_payload = [7]\<rparr>
     None (newSession 1 True None 0)))"
  using session_invariant [where s = "newSession 1 True None 0"]
  by (simp add: session_inv_newSession)

end
