(* ===== verification/Tunnel.thy ===== *)
theory Tunnel
  imports Sessions
begin

text \<open>
  Two sessions joined by a datagram network: the system in which the tunnel's claim of a
  reliable stream over UDP is stated and proved.

  Each endpoint (a \<open>bool\<close>) has its \<open>session\<close>, the packets its goroutines have captured under the
  lock and not yet written (\<open>ep_pend\<close>: \<open>writePacket\<close> takes the lock again, so other sections run in
  between), and two ghost records: the chunks its writers were given (\<open>ep_wrote\<close>) and the bytes
  its readers got (\<open>ep_read\<close>). The network keeps every datagram sent to an endpoint until it is
  dropped; it delivers any of them at any time, any number of times, in any order.
  A step is one critical section, one send or one network event.

  Sequence numbers are 32 bit and the code compares them without wrap-around, so the model
  runs while fewer than \<open>2 ^ 32\<close> chunks have been written on each side.
\<close>

type_synonym packet = "byte \<times> 32 word \<times> 32 word \<times> bytes"

record endpoint =
  ep_sess :: session
  ep_pend :: "packet list"
  ep_wrote :: "bytes list"
  ep_read :: bytes

record tunnel =
  tn_ep :: "bool \<Rightarrow> endpoint"
  tn_net :: "bool \<Rightarrow> bytes list"

definition upd_ep :: "bool \<Rightarrow> (endpoint \<Rightarrow> endpoint) \<Rightarrow> tunnel \<Rightarrow> tunnel" where
  "upd_ep i g t = t\<lparr>tn_ep := (tn_ep t)(i := g (tn_ep t i))\<rparr>"

text \<open>
  The frame handlers of both ends: \<open>readLoop\<close>/\<open>dispatch\<close> of the listener and the goroutine of
  \<open>DialTimeout\<close>. Both decode, match the session, and call \<open>onPacket\<close>; a SYN only renews the
  peer's address and is answered by a SYNACK (the listener's side).
\<close>

definition endpoint_recv :: "int \<Rightarrow> net_addr \<Rightarrow> bytes \<Rightarrow> endpoint \<Rightarrow> endpoint" where
  "endpoint_recv now addr d e =
     (case Decode d of
        Some (Inr f) \<Rightarrow>
          if f_session f \<noteq> s_id (ep_sess e) then e
          else if f_type f = TypeSYN
          then e\<lparr>ep_sess := (ep_sess e)\<lparr>s_peer := Some addr\<rparr>, ep_pend := ep_pend e @ [(TypeSYNACK, 0, 0, [])]\<rparr>
          else (case onPacket_locked now f (Some addr) (ep_sess e) of
                  (s, SendAck ack) \<Rightarrow> e\<lparr>ep_sess := s, ep_pend := ep_pend e @ [(TypeACK, 0, ack, [])]\<rparr>
                | (s, _) \<Rightarrow> e\<lparr>ep_sess := s\<rparr>)
      | _ \<Rightarrow> e)"

definition endpoint_write :: "int \<Rightarrow> bytes \<Rightarrow> endpoint \<Rightarrow> endpoint" where
  "endpoint_write now b e =
     (case write_chunk_locked now b (ep_sess e) of
        Took sq ack payload s \<Rightarrow>
          e\<lparr>ep_sess := s, ep_pend := ep_pend e @ [(TypeDATA, sq, ack, payload)], ep_wrote := ep_wrote e @ [payload]\<rparr>
      | _ \<Rightarrow> e)"

definition endpoint_tick :: "int \<Rightarrow> endpoint \<Rightarrow> endpoint" where
  "endpoint_tick now e =
     (let (due, s) = retransmit_locked now (ep_sess e)
      in e\<lparr>ep_sess := s, ep_pend := ep_pend e @ map (\<lambda>(sq, ack, d). (TypeDATA, sq, ack, d)) due\<rparr>)"

definition endpoint_read :: "nat \<Rightarrow> endpoint \<Rightarrow> endpoint" where
  "endpoint_read k e =
     (case session_read k (ep_sess e) of
        (ReadReturn b _, s) \<Rightarrow> e\<lparr>ep_sess := s, ep_read := ep_read e @ b\<rparr>
      | _ \<Rightarrow> e)"

definition endpoint_close :: "endpoint \<Rightarrow> endpoint" where
  "endpoint_close e =
     (case close_mark_locked (ep_sess e) of
        None \<Rightarrow> e
      | Some (ack, s) \<Rightarrow> e\<lparr>ep_sess := s, ep_pend := ep_pend e @ [(TypeFIN, 0, ack, [])]\<rparr>)"

definition endpoint_force :: "endpoint \<Rightarrow> endpoint" where
  "endpoint_force e = e\<lparr>ep_sess := forceCloseLocked (ep_sess e)\<rparr>"

text \<open>Sending a captured packet: \<open>writePacket\<close>, which reads the session as it is by then.\<close>

definition endpoint_send :: "go_error option \<Rightarrow> packet \<Rightarrow> endpoint \<Rightarrow> endpoint \<times> bytes list" where
  "endpoint_send tx p e =
     (case p of (typ, sq, ack, payload) \<Rightarrow>
        (e\<lparr>ep_pend := remove1 p (ep_pend e)\<rparr>,
         map snd (snd (writePacket tx (ep_sess e) typ sq ack payload))))"

datatype event =
    Write int bytes | Send "go_error option" packet | Recv int net_addr bytes | Tick int
  | Read nat | Close | Force | Syn | Drop bytes

definition tunnel_step :: "bool \<Rightarrow> event \<Rightarrow> tunnel \<Rightarrow> tunnel" where
  "tunnel_step i ev t =
     (case ev of
        Write now b \<Rightarrow> if b \<noteq> [] \<and> length (ep_wrote (tn_ep t i)) + 1 < 2 ^ 32
                       then upd_ep i (endpoint_write now b) t else t
      | Send tx p \<Rightarrow> if p \<in> set (ep_pend (tn_ep t i))
                     then let (e, out) = endpoint_send tx p (tn_ep t i)
                          in t\<lparr>tn_ep := (tn_ep t)(i := e),
                               tn_net := (tn_net t)((\<not> i) := tn_net t (\<not> i) @ out)\<rparr>
                     else t
      | Recv now addr d \<Rightarrow> if d \<in> set (tn_net t i) then upd_ep i (endpoint_recv now addr d) t else t
      | Tick now \<Rightarrow> upd_ep i (endpoint_tick now) t
      | Read k \<Rightarrow> upd_ep i (endpoint_read k) t
      | Close \<Rightarrow> upd_ep i endpoint_close t
      | Force \<Rightarrow> upd_ep i endpoint_force t
      | Syn \<Rightarrow> upd_ep i (\<lambda>e. e\<lparr>ep_pend := ep_pend e @ [(TypeSYN, 0, 0, [])]\<rparr>) t
      | Drop d \<Rightarrow> t\<lparr>tn_net := (tn_net t)(i := remove1 d (tn_net t i))\<rparr>)"

text \<open>The start: a dialed session and the session the listener made for its SYN.\<close>

definition tunnel_start :: "64 word \<Rightarrow> net_addr \<Rightarrow> net_addr \<Rightarrow> int \<Rightarrow> tunnel" where
  "tunnel_start sid client server now =
     \<lparr>tn_ep = (\<lambda>i. \<lparr>ep_sess = newSession sid True (Some (if i then client else server)) now,
                    ep_pend = [], ep_wrote = [], ep_read = []\<rparr>),
      tn_net = (\<lambda>_. [])\<rparr>"

inductive reachable :: "64 word \<Rightarrow> net_addr \<Rightarrow> net_addr \<Rightarrow> int \<Rightarrow> tunnel \<Rightarrow> bool"
  for sid client server now where
  start: "reachable sid client server now (tunnel_start sid client server now)"
| step: "reachable sid client server now t \<Longrightarrow> reachable sid client server now (tunnel_step i ev t)"

inductive_cases reachable_cases: "reachable sid client server now t"

fun tunnel_run :: "(bool \<times> event) list \<Rightarrow> tunnel \<Rightarrow> tunnel" where
  "tunnel_run [] t = t"
| "tunnel_run ((i, ev) # evs) t = tunnel_run evs (tunnel_step i ev t)"

lemma tunnel_run_append: "tunnel_run (xs @ ys) t = tunnel_run ys (tunnel_run xs t)"
  by (induction xs arbitrary: t) auto

lemma reachable_run: "reachable sid c s now t \<Longrightarrow> reachable sid c s now (tunnel_run evs t)"
  by (induction evs t rule: tunnel_run.induct) (simp_all add: reachable.step)

section \<open>The invariant of one endpoint\<close>

text \<open>
  \<open>Wp\<close> and \<open>Rp\<close> are the peer's written chunks and the number of chunks it has received in order.
  \<^item> \<open>sender_ok\<close>: the slots hold written chunks under their numbers;
  \<^item> \<open>covers\<close>: every chunk the peer has not received is still in a slot;
  \<^item> \<open>receiver_ok\<close>: the window holds written chunks of the peer at their offsets, and what was
    read and what waits to be read are the received chunks in order;
  \<^item> \<open>pkt_ok\<close>: a packet carries a written chunk under its number and acknowledges no more than
    its sender has received.
\<close>

definition sender_ok :: "bytes list \<Rightarrow> session \<Rightarrow> bool" where
  "sender_ok W s \<longleftrightarrow> length W < 2 ^ 32 \<and> s_sendNext s = of_nat (length W) \<and>
     (\<forall>slot \<in> set (s_sendSlots s). unat (sl_seq slot) < length W \<and> sl_data slot = W ! unat (sl_seq slot))"

definition covers :: "bytes list \<Rightarrow> nat \<Rightarrow> session \<Rightarrow> bool" where
  "covers W R s \<longleftrightarrow> (\<forall>k. R \<le> k \<and> k < length W \<longrightarrow> (\<exists>slot \<in> set (s_sendSlots s). unat (sl_seq slot) = k))"

definition receiver_ok :: "bytes list \<Rightarrow> bytes \<Rightarrow> session \<Rightarrow> bool" where
  "receiver_ok Wp got s \<longleftrightarrow> length Wp < 2 ^ 32 \<and>
     length (s_recvBuf s) = MaxInFlight \<and> length (s_recvValid s) = MaxInFlight \<and>
     unat (s_recvNext s) \<le> length Wp \<and>
     (\<forall>k < MaxInFlight. s_recvValid s ! k \<longrightarrow>
        unat (s_recvNext s) + k < length Wp \<and> s_recvBuf s ! k = Wp ! (unat (s_recvNext s) + k)) \<and>
     got @ s_readBuf s = concat (take (unat (s_recvNext s)) Wp)"

definition pkt_ok :: "bytes list \<Rightarrow> nat \<Rightarrow> packet \<Rightarrow> bool" where
  "pkt_ok W R p = (case p of (typ, sq, ack, payload) \<Rightarrow>
     (typ = TypeDATA \<longrightarrow> unat sq < length W \<and> payload = W ! unat sq) \<and> unat ack \<le> R)"

definition ep_ok :: "bytes list \<Rightarrow> nat \<Rightarrow> endpoint \<Rightarrow> bool" where
  "ep_ok Wp Rp e \<longleftrightarrow> sender_ok (ep_wrote e) (ep_sess e) \<and> covers (ep_wrote e) Rp (ep_sess e) \<and>
     receiver_ok Wp (ep_read e) (ep_sess e) \<and>
     (\<forall>p \<in> set (ep_pend e). pkt_ok (ep_wrote e) (unat (s_recvNext (ep_sess e))) p)"

definition ep_le :: "endpoint \<Rightarrow> endpoint \<Rightarrow> bool" where
  "ep_le e e' \<longleftrightarrow> (\<exists>ext. ep_wrote e' = ep_wrote e @ ext) \<and>
     unat (s_recvNext (ep_sess e)) \<le> unat (s_recvNext (ep_sess e'))"

lemma ep_le_refl [simp, intro]: "ep_le e e"
  by (simp add: ep_le_def)

lemma pkt_ok_mono: "pkt_ok W R p \<Longrightarrow> R \<le> R' \<Longrightarrow> pkt_ok (W @ ext) R' p"
  by (auto simp: pkt_ok_def nth_append)

lemma receiver_ok_mono: "receiver_ok Wp got s \<Longrightarrow> length (Wp @ ext) < 2 ^ 32 \<Longrightarrow> receiver_ok (Wp @ ext) got s"
  by (auto simp: receiver_ok_def nth_append)

lemma covers_mono: "covers W R s \<Longrightarrow> R \<le> R' \<Longrightarrow> covers W R' s"
  by (auto simp: covers_def)

lemma ep_ok_mono:
  "ep_ok Wp Rp e \<Longrightarrow> Rp \<le> Rp' \<Longrightarrow> length (Wp @ ext) < 2 ^ 32 \<Longrightarrow> ep_ok (Wp @ ext) Rp' e"
  unfolding ep_ok_def using receiver_ok_mono covers_mono by blast

text \<open>The fields each half of the invariant reads.\<close>

lemma receiver_ok_cong:
  "s_recvBuf s = s_recvBuf t \<Longrightarrow> s_recvValid s = s_recvValid t \<Longrightarrow> s_recvNext s = s_recvNext t \<Longrightarrow>
   s_readBuf s = s_readBuf t \<Longrightarrow> receiver_ok Wp got s = receiver_ok Wp got t"
  by (simp add: receiver_ok_def)

lemma sender_ok_cong:
  "s_sendNext s = s_sendNext t \<Longrightarrow> s_sendSlots s = s_sendSlots t \<Longrightarrow> sender_ok W s = sender_ok W t"
  by (simp add: sender_ok_def)

lemma covers_cong: "s_sendSlots s = s_sendSlots t \<Longrightarrow> covers W R s = covers W R t"
  by (simp add: covers_def)

section \<open>The receiving half\<close>

lemma receiver_ok_deliver_head:
  assumes "receiver_ok Wp got s" "s_recvValid s \<noteq> []" "hd (s_recvValid s)"
  shows "receiver_ok Wp got (deliver_head s)" "unat (s_recvNext (deliver_head s)) = unat (s_recvNext s) + 1"
proof -
  let ?R = "unat (s_recvNext s)"
  have l: "length (s_recvBuf s) = 32" "length (s_recvValid s) = 32" "length Wp < 2 ^ 32"
    using assms by (auto simp: receiver_ok_def MaxInFlight_def)
  have v0: "s_recvValid s ! 0" using assms by (simp add: hd_conv_nth)
  have valid: "\<And>k. k < 32 \<Longrightarrow> s_recvValid s ! k \<Longrightarrow> ?R + k < length Wp \<and> s_recvBuf s ! k = Wp ! (?R + k)"
    and got: "got @ s_readBuf s = concat (take ?R Wp)"
    using assms(1) by (auto simp: receiver_ok_def MaxInFlight_def)
  have b0: "?R < length Wp" "s_recvBuf s ! 0 = Wp ! ?R"
    using valid [of 0] v0 by auto
  have next_unat: "unat (s_recvNext s + 1) = ?R + 1"
    using b0(1) l(3) by (simp add: unat_word_ariths)
  then show "unat (s_recvNext (deliver_head s)) = ?R + 1"
    by (simp add: deliver_head_def notify_read_def)
  have hd0: "hd (s_recvBuf s) = Wp ! ?R" using b0(2) l(1) by (cases "s_recvBuf s") auto
  have tl: "(tl xs @ [d]) ! k = (if k < 31 then xs ! Suc k else d)"
    if "length xs = 32" "k < 32" for xs :: "'a list" and d k
    using that by (cases xs) (auto simp: nth_append less_Suc_eq)
  have cells: "?R + 1 + k < length Wp \<and> (tl (s_recvBuf s) @ [[]]) ! k = Wp ! (?R + 1 + k)"
    if k: "k < 32" "(tl (s_recvValid s) @ [False]) ! k" for k
  proof -
    have "k < 31" "s_recvValid s ! Suc k" using k l tl [of "s_recvValid s" k False] by (auto split: if_splits)
    then show ?thesis using valid [of "Suc k"] tl [of "s_recvBuf s" k "[]"] l k by auto
  qed
  have "concat (take (?R + 1) Wp) = concat (take ?R Wp) @ Wp ! ?R"
    using b0(1) by (simp add: take_Suc_conv_app_nth)
  then have "got @ s_readBuf s @ hd (s_recvBuf s) = concat (take (?R + 1) Wp)"
    using got hd0 by (metis append_assoc)
  then show "receiver_ok Wp got (deliver_head s)"
    using l b0 cells next_unat
    by (auto simp: receiver_ok_def deliver_head_def notify_read_def MaxInFlight_def)
qed

lemma receiver_ok_deliver_loop:
  assumes "receiver_ok Wp got s"
  shows "receiver_ok Wp got (deliver_loop s) \<and> unat (s_recvNext s) \<le> unat (s_recvNext (deliver_loop s)) \<and>
    (s_recvValid s \<noteq> [] \<longrightarrow> hd (s_recvValid s) \<longrightarrow> unat (s_recvNext s) < unat (s_recvNext (deliver_loop s)))"
proof -
  have ge: "receiver_ok Wp got (deliver_loop u) \<and> unat (s_recvNext u) \<le> unat (s_recvNext (deliver_loop u))"
    if "receiver_ok Wp got u" for u
  proof -
    have "(receiver_ok Wp got (deliver_loop u) \<and> unat (s_recvNext u) \<le> unat (s_recvNext (deliver_loop u))) \<and>
      \<not> (s_recvValid (deliver_loop u) \<noteq> [] \<and> hd (s_recvValid (deliver_loop u)))"
      by (rule deliver_loop_induct) (use that in \<open>auto simp: receiver_ok_deliver_head\<close>)
    then show ?thesis by blast
  qed
  have "unat (s_recvNext s) < unat (s_recvNext (deliver_loop s))" if h: "s_recvValid s \<noteq> []" "hd (s_recvValid s)"
  proof -
    obtain vs where v: "s_recvValid s = True # vs" using h by (cases "s_recvValid s") auto
    show ?thesis
      using ge [of "deliver_head s"] receiver_ok_deliver_head [OF assms h] by (simp add: deliver_loop_True [OF v])
  qed
  with ge [OF assms] show ?thesis by blast
qed

text \<open>Storing a data frame: the invariant, monotonicity, and progress when it is the next one.\<close>

lemma receiver_ok_storeDataLocked:
  assumes "receiver_ok Wp got s" "unat (f_seq f) < length Wp" "f_payload f = Wp ! unat (f_seq f)"
  shows "receiver_ok Wp got (storeDataLocked f s) \<and>
    unat (s_recvNext s) \<le> unat (s_recvNext (storeDataLocked f s)) \<and>
    (f_seq f = s_recvNext s \<longrightarrow> unat (s_recvNext s) < unat (s_recvNext (storeDataLocked f s)))"
proof (cases "f_seq f < s_recvNext s \<or> unat (f_seq f - s_recvNext s) \<ge> MaxInFlight")
  case True
  moreover have "\<not> (f_seq f = s_recvNext s)" if "unat (f_seq f - s_recvNext s) \<ge> MaxInFlight"
    using that by (auto simp: MaxInFlight_def)
  ultimately show ?thesis using assms by (auto simp: storeDataLocked_def Let_def)
next
  case False
  let ?off = "unat (f_seq f - s_recvNext s)"
  have off: "?off = unat (f_seq f) - unat (s_recvNext s)" "unat (s_recvNext s) \<le> unat (f_seq f)" "?off < 32"
    using False by (auto simp: unat_sub word_le_nat_alt not_less MaxInFlight_def)
  define u where "u = (if \<not> s_recvValid s ! ?off
    then s\<lparr>s_recvBuf := (s_recvBuf s)[?off := f_payload f], s_recvValid := (s_recvValid s)[?off := True]\<rparr> else s)"
  have st: "storeDataLocked f s = deliver_loop u" using False by (simp add: storeDataLocked_def Let_def u_def)
  have next_u: "s_recvNext u = s_recvNext s" by (simp add: u_def)
  have "receiver_ok Wp got u"
    using assms off by (auto simp: receiver_ok_def u_def nth_list_update MaxInFlight_def)
  note d = receiver_ok_deliver_loop [OF this]
  have "s_recvValid u \<noteq> [] \<and> hd (s_recvValid u)" if "f_seq f = s_recvNext s"
  proof -
    have "?off = 0" using that by simp
    then show ?thesis
      using assms(1) by (cases "s_recvValid s") (auto simp: u_def receiver_ok_def MaxInFlight_def)
  qed
  with d show ?thesis unfolding st next_u by blast
qed

section \<open>Every step keeps the endpoint's invariant\<close>

definition sess_ok :: "bytes list \<Rightarrow> bytes list \<Rightarrow> nat \<Rightarrow> bytes \<Rightarrow> session \<Rightarrow> bool" where
  "sess_ok W Wp Rp got s \<longleftrightarrow> sender_ok W s \<and> covers W Rp s \<and> receiver_ok Wp got s"

lemma sess_ok_flags [simp]:
  "sess_ok W Wp Rp got (touch now s) = sess_ok W Wp Rp got s"
  "sess_ok W Wp Rp got (notify_read s) = sess_ok W Wp Rp got s"
  "sess_ok W Wp Rp got (notify_write s) = sess_ok W Wp Rp got s"
  "sess_ok W Wp Rp got (signalHS s) = sess_ok W Wp Rp got s"
  "sess_ok W Wp Rp got (s\<lparr>s_peer := p\<rparr>) = sess_ok W Wp Rp got s"
  "sess_ok W Wp Rp got (s\<lparr>s_readEOF := b\<rparr>) = sess_ok W Wp Rp got s"
  "sess_ok W Wp Rp got (s\<lparr>s_writeFin := b\<rparr>) = sess_ok W Wp Rp got s"
  "sess_ok W Wp Rp got (forceCloseLocked s) = sess_ok W Wp Rp got s"
  by (simp_all add: sess_ok_def sender_ok_def covers_def receiver_ok_def session_flag_defs forceCloseLocked_def)

lemma recvNext_flags [simp]:
  "s_recvNext (touch now s) = s_recvNext s" "s_recvNext (notify_read s) = s_recvNext s"
  "s_recvNext (notify_write s) = s_recvNext s" "s_recvNext (signalHS s) = s_recvNext s"
  "s_recvNext (forceCloseLocked s) = s_recvNext s"
  "s_recvNext (consumeAckLocked a s) = s_recvNext s"
  by (simp_all add: session_flag_defs forceCloseLocked_def consumeAckLocked_def Let_def)

lemma sess_ok_consumeAckLocked:
  assumes "sess_ok W Wp Rp got s" "unat ack \<le> Rp"
  shows "sess_ok W Wp Rp got (consumeAckLocked ack s)"
proof -
  define kept where "kept = filter (\<lambda>slot. \<not> sl_seq slot < ack) (s_sendSlots s)"
  have "covers W Rp (s\<lparr>s_sendSlots := kept, s_rto := DefaultRTO\<rparr>)"
    using assms unfolding covers_def sess_ok_def kept_def
    by (auto simp: word_less_nat_alt not_less) (metis le_trans)
  then have "sess_ok W Wp Rp got (s\<lparr>s_sendSlots := kept, s_rto := DefaultRTO\<rparr>)"
    using assms by (auto simp: sess_ok_def sender_ok_def receiver_ok_def kept_def)
  then show ?thesis using assms by (auto simp: consumeAckLocked_def Let_def kept_def)
qed

lemma sess_ok_storeDataLocked:
  assumes "sess_ok W Wp Rp got s" "unat (f_seq f) < length Wp" "f_payload f = Wp ! unat (f_seq f)"
  shows "sess_ok W Wp Rp got (storeDataLocked f s) \<and> unat (s_recvNext s) \<le> unat (s_recvNext (storeDataLocked f s))"
  using receiver_ok_storeDataLocked [of Wp got s f] assms storeDataLocked_same_sender [of s f]
  by (auto simp: sess_ok_def sender_ok_def covers_def same_sender_def)

text \<open>\<open>onPacket\<close> up to the state in which it stores the frame.\<close>

definition onPacket_prefix :: "int \<Rightarrow> Frame \<Rightarrow> net_addr option \<Rightarrow> session \<Rightarrow> session" where
  "onPacket_prefix now f from s =
     (let s = touch now (case from of Some a \<Rightarrow> s\<lparr>s_peer := Some a\<rparr> | None \<Rightarrow> s)
      in if f_type f \<in> {TypeACK, TypeDATA, TypeSYNACK, TypeFIN} then consumeAckLocked (f_ack f) s else s)"

lemma onPacket_locked_prefix:
  "onPacket_locked now f from s =
     (if s_closed s then (s, Nothing)
      else let s = onPacket_prefix now f from s
        in if f_type f = TypeDATA then (storeDataLocked f s, SendAck (s_recvNext (storeDataLocked f s)))
           else if f_type f = TypeFIN then
             (notify_read (s\<lparr>s_readEOF := True\<rparr>), SendAck (s_recvNext (notify_read (s\<lparr>s_readEOF := True\<rparr>))))
           else if f_type f = TypeRST then (forceCloseLocked s, RunClosed)
           else if f_type f = TypeSYNACK then (notify_write (signalHS s), Nothing)
           else if f_type f = TypeACK then (notify_write s, Nothing)
           else (s, Nothing))"
  by (simp add: onPacket_locked_def onPacket_prefix_def Let_def)

lemma onPacket_prefix_ok:
  assumes "sess_ok W Wp Rp got s" "unat (f_ack f) \<le> Rp"
  shows "sess_ok W Wp Rp got (onPacket_prefix now f from s) \<and>
         s_recvNext (onPacket_prefix now f from s) = s_recvNext s"
  using assms by (auto simp: onPacket_prefix_def Let_def sess_ok_consumeAckLocked split: option.splits)

lemma sess_ok_onPacket_locked:
  assumes "sess_ok W Wp Rp got s" "pkt_ok Wp Rp (f_type f, f_seq f, f_ack f, f_payload f)"
    "onPacket_locked now f from s = (s', after)"
  shows "sess_ok W Wp Rp got s' \<and> unat (s_recvNext s) \<le> unat (s_recvNext s') \<and>
    (\<forall>a. after = SendAck a \<longrightarrow> a = s_recvNext s')"
proof -
  have ack: "unat (f_ack f) \<le> Rp" using assms(2) by (simp add: pkt_ok_def)
  note p = onPacket_prefix_ok [OF assms(1) ack, of now "from"]
  have st: "f_type f = TypeDATA \<Longrightarrow> sess_ok W Wp Rp got (storeDataLocked f (onPacket_prefix now f from s)) \<and>
    unat (s_recvNext s) \<le> unat (s_recvNext (storeDataLocked f (onPacket_prefix now f from s)))"
    using sess_ok_storeDataLocked [OF conjunct1 [OF p], of f] assms(2) p by (simp add: pkt_ok_def)
  show ?thesis
    using assms(1,3) p st unfolding onPacket_locked_prefix Let_def
    by (auto split: if_splits)
qed

lemma ep_ok_sess_ok:
  "ep_ok Wp Rp e \<longleftrightarrow> sess_ok (ep_wrote e) Wp Rp (ep_read e) (ep_sess e) \<and>
     (\<forall>p \<in> set (ep_pend e). pkt_ok (ep_wrote e) (unat (s_recvNext (ep_sess e))) p)"
  by (simp add: ep_ok_def sess_ok_def conj_assoc)

lemma pkt_ok_mono_R: "pkt_ok W R p \<Longrightarrow> R \<le> R' \<Longrightarrow> pkt_ok W R' p"
  using pkt_ok_mono [of W R p R' "[]"] by simp

lemma pkt_ok_control: "typ \<noteq> TypeDATA \<Longrightarrow> unat ack \<le> R \<Longrightarrow> pkt_ok W R (typ, sq, ack, payload)"
  by (simp add: pkt_ok_def)

text \<open>Replacing the session and capturing packets.\<close>

lemma ep_ok_update:
  assumes "ep_ok Wp Rp e" "sess_ok (ep_wrote e) Wp Rp (ep_read e) s"
    "unat (s_recvNext (ep_sess e)) \<le> unat (s_recvNext s)"
    "\<forall>p \<in> set ps. pkt_ok (ep_wrote e) (unat (s_recvNext s)) p"
  shows "ep_ok Wp Rp (e\<lparr>ep_sess := s, ep_pend := ep_pend e @ ps\<rparr>) \<and>
         ep_le e (e\<lparr>ep_sess := s, ep_pend := ep_pend e @ ps\<rparr>)"
  using assms unfolding ep_ok_sess_ok ep_le_def by (auto intro: pkt_ok_mono_R)

lemmas ep_ok_update0 = ep_ok_update [where ps = "[]", simplified]

lemma endpoint_recv_ok:
  assumes "ep_ok Wp Rp e" "\<And>f. Decode d = Some (Inr f) \<Longrightarrow> pkt_ok Wp Rp (f_type f, f_seq f, f_ack f, f_payload f)"
  shows "ep_ok Wp Rp (endpoint_recv now addr d e) \<and> ep_le e (endpoint_recv now addr d e)"
proof (cases "\<exists>f. Decode d = Some (Inr f) \<and> f_session f = s_id (ep_sess e)")
  case False
  then show ?thesis using assms(1) by (auto simp: endpoint_recv_def split: option.splits sum.splits)
next
  case True
  then obtain f where f: "Decode d = Some (Inr f)" "f_session f = s_id (ep_sess e)" by auto
  have s: "sess_ok (ep_wrote e) Wp Rp (ep_read e) (ep_sess e)" using assms(1) by (simp add: ep_ok_sess_ok)
  show ?thesis
  proof (cases "f_type f = TypeSYN")
    case True
    have "pkt_ok (ep_wrote e) (unat (s_recvNext (ep_sess e))) (TypeSYNACK, 0, 0, [])"
      by (rule pkt_ok_control) (simp_all add: tunnel_types)
    then show ?thesis
      using ep_ok_update [OF assms(1), of "(ep_sess e)\<lparr>s_peer := Some addr\<rparr>" "[(TypeSYNACK, 0, 0, [])]"] s f True
      by (simp add: endpoint_recv_def)
  next
    case False
    obtain s' after where op: "onPacket_locked now f (Some addr) (ep_sess e) = (s', after)"
      by (cases "onPacket_locked now f (Some addr) (ep_sess e)")
    note k = sess_ok_onPacket_locked [OF s assms(2) [OF f(1)] op]
    show ?thesis
    proof (cases after)
      case (SendAck a)
      have "pkt_ok (ep_wrote e) (unat (s_recvNext s')) (TypeACK, 0, a, [])"
        using k SendAck by (intro pkt_ok_control) (simp_all add: tunnel_types)
      then show ?thesis
        using ep_ok_update [OF assms(1), of s' "[(TypeACK, 0, a, [])]"] k f False op SendAck
        by (simp add: endpoint_recv_def)
    qed (use ep_ok_update0 [OF assms(1), of s'] k f False op in \<open>simp_all add: endpoint_recv_def\<close>)
  qed
qed

lemma endpoint_write_ok:
  assumes "ep_ok Wp Rp e" "length (ep_wrote e) + 1 < 2 ^ 32"
  shows "ep_ok Wp Rp (endpoint_write now b e) \<and> ep_le e (endpoint_write now b e)"
proof (cases "write_chunk_locked now b (ep_sess e)")
  case (Took sq ack payload s)
  let ?W = "ep_wrote e" let ?s = "ep_sess e"
  have d: "sq = s_sendNext ?s" "ack = s_recvNext ?s"
    "s = ?s\<lparr>s_sendNext := sq + 1, s_sendSlots := s_sendSlots ?s @ [\<lparr>sl_data = payload, sl_seq = sq, sl_lastSend = now\<rparr>]\<rparr>"
    using Took by (auto simp: write_chunk_locked_def Let_def split: if_splits)
  have ok: "sender_ok ?W ?s" "covers ?W Rp ?s" "receiver_ok Wp (ep_read e) ?s"
    using assms(1) by (auto simp: ep_ok_def)
  have sq: "unat sq = length ?W" "sq = of_nat (length ?W)"
    using ok(1) assms(2) d(1) by (auto simp: sender_ok_def unsigned_of_nat take_bit_nat_eq_self)
  have "sender_ok (?W @ [payload]) s"
    using ok(1) assms(2) sq by (auto simp: sender_ok_def d(3) nth_append)
  moreover have "covers (?W @ [payload]) Rp s"
    using ok(2) sq by (auto simp: covers_def d(3) less_Suc_eq)
  moreover have "receiver_ok Wp (ep_read e) s"
    using ok(3) by (simp add: d(3) receiver_ok_def)
  moreover have "pkt_ok (?W @ [payload]) (unat (s_recvNext s)) (TypeDATA, sq, ack, payload)"
    using sq by (simp add: pkt_ok_def d(2,3))
  moreover have "\<forall>p \<in> set (ep_pend e). pkt_ok (?W @ [payload]) (unat (s_recvNext s)) p"
    using assms(1) by (auto simp: ep_ok_def d(3) intro: pkt_ok_mono)
  ultimately show ?thesis
    using Took by (auto simp: endpoint_write_def ep_ok_def ep_le_def d(3))
qed (use assms in \<open>simp_all add: endpoint_write_def\<close>)

text \<open>The effect of the retransmission section on a session that has slots.\<close>

definition stamped :: "int \<Rightarrow> int \<Rightarrow> sendSlot \<Rightarrow> sendSlot" where
  "stamped now rto slot = (if now - sl_lastSend slot \<ge> rto then slot\<lparr>sl_lastSend := now\<rparr> else slot)"

definition backoff :: "bool \<Rightarrow> int \<Rightarrow> int" where
  "backoff resent rto =
     (if resent \<and> rto < MaxRTO then (if rto * 2 > MaxRTO then MaxRTO else rto * 2) else rto)"

lemma stamped_simps [simp]: "sl_seq (stamped now r slot) = sl_seq slot" "sl_data (stamped now r slot) = sl_data slot"
  by (simp_all add: stamped_def)

lemma retransmit_locked_open:
  assumes "\<not> s_closed s" "s_sendSlots s \<noteq> []"
  shows "retransmit_locked now s =
    (map (\<lambda>slot. (sl_seq slot, s_recvNext s, sl_data slot))
        (filter (\<lambda>slot. now - sl_lastSend slot \<ge> s_rto s) (s_sendSlots s)),
     s\<lparr>s_sendSlots := map (stamped now (s_rto s)) (s_sendSlots s),
       s_rto := backoff (filter (\<lambda>slot. now - sl_lastSend slot \<ge> s_rto s) (s_sendSlots s) \<noteq> []) (s_rto s)\<rparr>)"
  using assms by (simp add: retransmit_locked_def Let_def stamped_def backoff_def)

lemma retransmit_locked_idle: "\<not> (\<not> s_closed s \<and> s_sendSlots s \<noteq> []) \<Longrightarrow> retransmit_locked now s = ([], s)"
  by (auto simp: retransmit_locked_def)

lemma sess_ok_stamped:
  "sess_ok W Wp Rp got (s\<lparr>s_sendSlots := map (stamped now x) (s_sendSlots s), s_rto := r\<rparr>) = sess_ok W Wp Rp got s"
  by (simp add: sess_ok_def sender_ok_def covers_def receiver_ok_def)

lemma endpoint_tick_ok:
  assumes "ep_ok Wp Rp e"
  shows "ep_ok Wp Rp (endpoint_tick now e) \<and> ep_le e (endpoint_tick now e)"
proof (cases "\<not> s_closed (ep_sess e) \<and> s_sendSlots (ep_sess e) \<noteq> []")
  case False
  then show ?thesis using assms retransmit_locked_idle [OF False, of now] by (simp add: endpoint_tick_def)
next
  case True
  let ?s = "ep_sess e"
  obtain r where r: "retransmit_locked now ?s =
    (map (\<lambda>slot. (sl_seq slot, s_recvNext ?s, sl_data slot))
        (filter (\<lambda>slot. now - sl_lastSend slot \<ge> s_rto ?s) (s_sendSlots ?s)),
     ?s\<lparr>s_sendSlots := map (stamped now (s_rto ?s)) (s_sendSlots ?s), s_rto := r\<rparr>)" (is "_ = (?due, ?t)")
    using retransmit_locked_open True by blast
  have s: "sess_ok (ep_wrote e) Wp Rp (ep_read e) ?s" using assms by (simp add: ep_ok_sess_ok)
  have "\<forall>p \<in> set (map (\<lambda>(sq, ack, d). (TypeDATA, sq, ack, d)) ?due). pkt_ok (ep_wrote e) (unat (s_recvNext ?t)) p"
    using s by (auto simp: pkt_ok_def sess_ok_def sender_ok_def)
  then show ?thesis
    using ep_ok_update [OF assms, of ?t "map (\<lambda>(sq, ack, d). (TypeDATA, sq, ack, d)) ?due"] r s
    by (simp add: endpoint_tick_def sess_ok_stamped)
qed

lemma endpoint_read_ok:
  assumes "ep_ok Wp Rp e"
  shows "ep_ok Wp Rp (endpoint_read k e) \<and> ep_le e (endpoint_read k e)"
proof -
  have "receiver_ok Wp (ep_read e @ take k (s_readBuf (ep_sess e)))
      ((ep_sess e)\<lparr>s_readBuf := drop k (s_readBuf (ep_sess e))\<rparr>)"
    using assms by (simp add: ep_ok_def receiver_ok_def)
  then show ?thesis
    using assms
    by (auto simp: endpoint_read_def session_read_def ep_ok_def ep_le_def sender_ok_def covers_def)
qed

lemma endpoint_close_ok:
  assumes "ep_ok Wp Rp e"
  shows "ep_ok Wp Rp (endpoint_close e) \<and> ep_le e (endpoint_close e)"
proof -
  have "pkt_ok (ep_wrote e) (unat (s_recvNext (ep_sess e))) (TypeFIN, 0, s_recvNext (ep_sess e), [])"
    by (rule pkt_ok_control) (simp_all add: tunnel_types)
  then show ?thesis
    using ep_ok_update [OF assms, of "(ep_sess e)\<lparr>s_writeFin := True\<rparr>" "[(TypeFIN, 0, s_recvNext (ep_sess e), [])]"] assms
    by (auto simp: endpoint_close_def close_mark_locked_def ep_ok_sess_ok)
qed

lemma endpoint_force_ok:
  assumes "ep_ok Wp Rp e"
  shows "ep_ok Wp Rp (endpoint_force e) \<and> ep_le e (endpoint_force e)"
  using ep_ok_update0 [OF assms, of "forceCloseLocked (ep_sess e)"] assms
  by (simp add: endpoint_force_def ep_ok_sess_ok)

section \<open>The invariant of the system\<close>

definition rcvd :: "endpoint \<Rightarrow> nat" where
  "rcvd e = unat (s_recvNext (ep_sess e))"

definition net_ok :: "bytes list \<Rightarrow> nat \<Rightarrow> bytes list \<Rightarrow> bool" where
  "net_ok W R ds \<longleftrightarrow> (\<forall>d \<in> set ds. \<exists>f. d = frame_bytes f \<and> length (f_payload f) \<le> MaxPayload \<and>
     pkt_ok W R (f_type f, f_seq f, f_ack f, f_payload f))"

definition sys_inv :: "tunnel \<Rightarrow> bool" where
  "sys_inv t \<longleftrightarrow> (\<forall>i. let p = tn_ep t (\<not> i) in
     ep_ok (ep_wrote p) (rcvd p) (tn_ep t i) \<and> net_ok (ep_wrote p) (rcvd p) (tn_net t i))"

lemma net_ok_mono: "net_ok W R ds \<Longrightarrow> R \<le> R' \<Longrightarrow> net_ok (W @ ext) R' ds"
  unfolding net_ok_def using pkt_ok_mono by blast

lemma sys_invD:
  assumes "sys_inv t"
  shows "ep_ok (ep_wrote (tn_ep t (\<not> i))) (rcvd (tn_ep t (\<not> i))) (tn_ep t i)"
    "ep_ok (ep_wrote (tn_ep t i)) (rcvd (tn_ep t i)) (tn_ep t (\<not> i))"
    "net_ok (ep_wrote (tn_ep t (\<not> i))) (rcvd (tn_ep t (\<not> i))) (tn_net t i)"
    "net_ok (ep_wrote (tn_ep t i)) (rcvd (tn_ep t i)) (tn_net t (\<not> i))"
  using assms [unfolded sys_inv_def Let_def, THEN spec, of i]
    assms [unfolded sys_inv_def Let_def, THEN spec, of "\<not> i"]
  by simp_all

lemma all_bool2: "(\<forall>j. P j) \<longleftrightarrow> P i \<and> P (\<not> i)" for i :: bool
  by (cases i) (auto split: bool.splits, (metis (full_types))+)

text \<open>A step of one endpoint that keeps its invariant, and what it sends.\<close>

lemma sys_inv_endpoint_step:
  assumes t: "sys_inv t"
    and e: "ep_ok (ep_wrote (tn_ep t (\<not> i))) (rcvd (tn_ep t (\<not> i))) e" "ep_le (tn_ep t i) e"
    and out: "net_ok (ep_wrote e) (rcvd e) out"
  shows "sys_inv (t\<lparr>tn_ep := (tn_ep t)(i := e), tn_net := (tn_net t)((\<not> i) := tn_net t (\<not> i) @ out)\<rparr>)"
proof -
  obtain ext where ext: "ep_wrote e = ep_wrote (tn_ep t i) @ ext" "rcvd (tn_ep t i) \<le> rcvd e"
    using e(2) by (auto simp: ep_le_def rcvd_def)
  have len: "length (ep_wrote (tn_ep t i) @ ext) < 2 ^ 32"
    using e(1) ext(1) by (simp add: ep_ok_def sender_ok_def)
  have "ep_ok (ep_wrote e) (rcvd e) (tn_ep t (\<not> i))"
    unfolding ext(1) using ep_ok_mono [OF sys_invD(2) [OF t] ext(2) len] .
  moreover have "net_ok (ep_wrote e) (rcvd e) (tn_net t (\<not> i))"
    unfolding ext(1) using net_ok_mono [OF sys_invD(4) [OF t] ext(2)] .
  moreover have "net_ok (ep_wrote e) (rcvd e) (tn_net t (\<not> i) @ out)"
    using out calculation(2) by (auto simp: net_ok_def)
  ultimately show ?thesis
    using e(1) sys_invD(3) [OF t, of i] unfolding sys_inv_def all_bool2 [of _ i] by simp
qed

lemma sys_inv_upd_ep:
  assumes "sys_inv t"
    and "ep_ok (ep_wrote (tn_ep t (\<not> i))) (rcvd (tn_ep t (\<not> i))) (g (tn_ep t i)) \<and> ep_le (tn_ep t i) (g (tn_ep t i))"
  shows "sys_inv (upd_ep i g t)"
  using sys_inv_endpoint_step [OF assms(1), of i "g (tn_ep t i)" "[]"] assms(2)
  by (simp add: upd_ep_def net_ok_def)

lemma writePacket_out:
  "writePacket tx s typ sq ack payload = (err, out) \<Longrightarrow> (a, d) \<in> set out \<Longrightarrow>
   length payload \<le> MaxPayload \<and>
   d = frame_bytes \<lparr>f_type = typ, f_session = s_id s, f_seq = sq, f_ack = ack, f_payload = payload\<rparr>"
  by (auto simp: writePacket_def Encode_frame_bytes split: if_splits option.splits)

lemma endpoint_send_ok:
  assumes "ep_ok Wp Rp e" "p \<in> set (ep_pend e)" "endpoint_send tx p e = (e', out)"
  shows "ep_ok Wp Rp e' \<and> ep_le e e' \<and> net_ok (ep_wrote e') (rcvd e') out"
proof -
  obtain ty sq ack payload where p: "p = (ty, sq, ack, payload)" by (cases p)
  have e': "e' = e\<lparr>ep_pend := remove1 p (ep_pend e)\<rparr>"
    "out = map snd (snd (writePacket tx (ep_sess e) ty sq ack payload))"
    using assms(3) by (auto simp: endpoint_send_def p)
  have "pkt_ok (ep_wrote e) (rcvd e) (ty, sq, ack, payload)"
    using assms(1,2) by (auto simp: ep_ok_def p rcvd_def)
  then have "net_ok (ep_wrote e) (rcvd e) out"
    using writePacket_out [of tx "ep_sess e" ty sq ack payload]
    by (cases "writePacket tx (ep_sess e) ty sq ack payload") (fastforce simp: net_ok_def e'(2))
  moreover have "ep_ok Wp Rp e'" using assms(1) by (auto simp: ep_ok_def e'(1) dest: notin_set_remove1)
  ultimately show ?thesis by (simp add: e'(1) ep_le_def rcvd_def)
qed

lemma sys_inv_step: "sys_inv t \<Longrightarrow> sys_inv (tunnel_step i ev t)"
proof (cases ev)
  case (Write now b)
  assume t: "sys_inv t"
  then show ?thesis
    using sys_inv_upd_ep [OF t, where i = i and g = "endpoint_write now b"]
      endpoint_write_ok [OF sys_invD(1) [OF t, of i]]
    by (simp add: tunnel_step_def Write)
next
  case (Send tx p)
  assume t: "sys_inv t"
  show ?thesis
  proof (cases "p \<in> set (ep_pend (tn_ep t i))")
    case True
    obtain e out where s: "endpoint_send tx p (tn_ep t i) = (e, out)" by (cases "endpoint_send tx p (tn_ep t i)")
    show ?thesis
      using sys_inv_endpoint_step [OF t, where i = i and e = e and out = out] endpoint_send_ok [OF sys_invD(1) [OF t, of i] True s] True
      by (simp add: tunnel_step_def Send s)
  qed (simp add: tunnel_step_def Send t)
next
  case (Recv now addr d)
  assume t: "sys_inv t"
  show ?thesis
  proof (cases "d \<in> set (tn_net t i)")
    case True
    have "pkt_ok (ep_wrote (tn_ep t (\<not> i))) (rcvd (tn_ep t (\<not> i))) (f_type f, f_seq f, f_ack f, f_payload f)"
      if "Decode d = Some (Inr f)" for f
    proof -
      obtain g where g: "d = frame_bytes g" "length (f_payload g) \<le> MaxPayload"
        "pkt_ok (ep_wrote (tn_ep t (\<not> i))) (rcvd (tn_ep t (\<not> i))) (f_type g, f_seq g, f_ack g, f_payload g)"
        using sys_invD(3) [OF t, of i] True by (auto simp: net_ok_def)
      then show ?thesis using that Decode_frame_bytes [OF g(2), of "[]"] by simp
    qed
    then show ?thesis
      using sys_inv_upd_ep [OF t, where i = i and g = "endpoint_recv now addr d"]
        endpoint_recv_ok [OF sys_invD(1) [OF t, of i]] True
      by (simp add: tunnel_step_def Recv)
  qed (simp add: tunnel_step_def Recv t)
next
  case (Tick now)
  assume t: "sys_inv t"
  then show ?thesis
    using sys_inv_upd_ep [OF t, where i = i and g = "endpoint_tick now"] endpoint_tick_ok [OF sys_invD(1) [OF t, of i]]
    by (simp add: tunnel_step_def Tick)
next
  case (Read k)
  assume t: "sys_inv t"
  then show ?thesis
    using sys_inv_upd_ep [OF t, where i = i and g = "endpoint_read k"] endpoint_read_ok [OF sys_invD(1) [OF t, of i]]
    by (simp add: tunnel_step_def Read)
next
  case Close
  assume t: "sys_inv t"
  then show ?thesis
    using sys_inv_upd_ep [OF t, where i = i and g = endpoint_close] endpoint_close_ok [OF sys_invD(1) [OF t, of i]]
    by (simp add: tunnel_step_def Close)
next
  case Force
  assume t: "sys_inv t"
  then show ?thesis
    using sys_inv_upd_ep [OF t, where i = i and g = endpoint_force] endpoint_force_ok [OF sys_invD(1) [OF t, of i]]
    by (simp add: tunnel_step_def Force)
next
  case Syn
  assume t: "sys_inv t"
  let ?e = "tn_ep t i"
  have "pkt_ok (ep_wrote ?e) (rcvd ?e) (TypeSYN, 0, 0, [])"
    by (rule pkt_ok_control) (simp_all add: tunnel_types)
  then show ?thesis
    using sys_inv_upd_ep [OF t, where i = i and g = "\<lambda>e. e\<lparr>ep_pend := ep_pend e @ [(TypeSYN, 0, 0, [])]\<rparr>"] sys_invD(1) [OF t, of i]
    by (auto simp: tunnel_step_def Syn ep_ok_def ep_le_def rcvd_def)
next
  case (Drop d)
  assume t: "sys_inv t"
  then show ?thesis
    using sys_invD [OF t, of i] unfolding sys_inv_def all_bool2 [of _ i]
    by (auto simp: tunnel_step_def Drop net_ok_def Let_def dest: notin_set_remove1)
qed

lemma sys_inv_start: "sys_inv (tunnel_start sid c s now)"
  by (auto simp: sys_inv_def tunnel_start_def ep_ok_def sender_ok_def covers_def receiver_ok_def net_ok_def
      newSession_def rcvd_def MaxInFlight_def)

lemma reachable_sys_inv: "reachable sid c s now t \<Longrightarrow> sys_inv t"
  by (induction rule: reachable.induct) (simp_all add: sys_inv_start sys_inv_step)

text \<open>What both ends also keep: the window invariant, the socket, a peer address, the session id.\<close>

definition wired :: "64 word \<Rightarrow> session \<Rightarrow> bool" where
  "wired sid s \<longleftrightarrow> session_inv s \<and> s_pc s \<and> s_peer s \<noteq> None \<and> s_id s = sid"

lemma wired_consumeAckLocked: "wired sid s \<Longrightarrow> wired sid (consumeAckLocked a s)"
  using session_inv_consumeAckLocked [of s a]
  by (auto simp: wired_def consumeAckLocked_def Let_def notify_write_def)

lemma wired_onPacket_locked:
  assumes "wired sid s" "onPacket_locked now f (Some a) s = (s', after)"
  shows "wired sid s'"
proof -
  have "session_inv s'"
    using assms session_inv_onPacket_locked [of s now f "Some a"] by (simp add: wired_def)
  moreover define u where "u = onPacket_prefix now f (Some a) s"
  have u: "wired sid u"
  proof -
    have "wired sid (touch now (s\<lparr>s_peer := Some a\<rparr>))"
      using assms(1) by (simp add: wired_def) (simp add: touch_def)
    then show ?thesis by (simp add: u_def onPacket_prefix_def Let_def wired_consumeAckLocked)
  qed
  have st: "s_pc (storeDataLocked f u) = s_pc u" "s_peer (storeDataLocked f u) = s_peer u"
    "s_id (storeDataLocked f u) = s_id u"
    using storeDataLocked_same_sender [of u f] by (simp_all add: same_sender_def)
  have "s_pc s' = s_pc u \<and> s_peer s' = s_peer u \<and> s_id s' = s_id u" if "\<not> s_closed s"
    using assms(2) that st unfolding onPacket_locked_prefix Let_def u_def [symmetric]
    by (auto simp: session_flag_defs forceCloseLocked_def split: if_splits)
  moreover have "s_closed s \<Longrightarrow> s' = s" using assms(2) by (simp add: onPacket_locked_def)
  ultimately show ?thesis using u assms(1) by (cases "s_closed s") (simp_all add: wired_def)
qed

lemma wired_write_chunk:
  "wired sid s \<Longrightarrow> write_chunk_locked now b s = Took sq ack payload s' \<Longrightarrow> b \<noteq> [] \<Longrightarrow> wired sid s'"
  using session_inv_write_chunk [of s now b sq ack payload s']
  by (auto simp: wired_def write_chunk_locked_def Let_def split: if_splits)

lemma wired_retransmit_locked: "wired sid s \<Longrightarrow> wired sid (snd (retransmit_locked now s))"
  using session_inv_retransmit_locked [of s now] by (auto simp: wired_def retransmit_locked_def Let_def)

lemma wired_endpoint_ops:
  assumes "wired sid (ep_sess e)"
  shows "b \<noteq> [] \<Longrightarrow> wired sid (ep_sess (endpoint_write now b e))"
    "wired sid (ep_sess (endpoint_recv now addr d e))" "wired sid (ep_sess (endpoint_tick now e))"
    "wired sid (ep_sess (endpoint_read k e))" "wired sid (ep_sess (endpoint_close e))"
    "wired sid (ep_sess (endpoint_force e))" "wired sid (ep_sess (fst (endpoint_send tx p e)))"
proof -
  show "wired sid (ep_sess (endpoint_write now b e))" if "b \<noteq> []"
    using wired_write_chunk [OF assms _ that, of now]
    by (auto simp: endpoint_write_def assms split: chunk_result.splits)
  have "wired sid ((ep_sess e)\<lparr>s_peer := Some addr\<rparr>)" using assms by (simp add: wired_def)
  then show "wired sid (ep_sess (endpoint_recv now addr d e))"
    using wired_onPacket_locked [OF assms, of now _ addr]
    by (auto simp: endpoint_recv_def assms split: option.splits sum.splits prod.splits after_packet.splits)
  show "wired sid (ep_sess (endpoint_tick now e))"
    using wired_retransmit_locked [OF assms, of now] by (auto simp: endpoint_tick_def split: prod.splits)
  show "wired sid (ep_sess (endpoint_read k e))"
    using assms by (auto simp: endpoint_read_def session_read_def wired_def session_inv_def)
  show "wired sid (ep_sess (endpoint_close e))"
    using assms by (auto simp: endpoint_close_def close_mark_locked_def wired_def session_inv_def)
  show "wired sid (ep_sess (endpoint_force e))"
    using assms session_inv_forceCloseLocked [of "ep_sess e"]
    by (auto simp: endpoint_force_def wired_def) (auto simp: forceCloseLocked_def session_flag_defs)
  show "wired sid (ep_sess (fst (endpoint_send tx p e)))"
    using assms by (auto simp: endpoint_send_def split: prod.splits)
qed

definition all_wired :: "64 word \<Rightarrow> tunnel \<Rightarrow> bool" where
  "all_wired sid t \<longleftrightarrow> (\<forall>i. wired sid (ep_sess (tn_ep t i)))"

lemma all_wired_upd: "all_wired sid t \<Longrightarrow> wired sid (ep_sess e) \<Longrightarrow> all_wired sid (t\<lparr>tn_ep := (tn_ep t)(i := e), tn_net := n\<rparr>)"
  "all_wired sid t \<Longrightarrow> wired sid (ep_sess (g (tn_ep t i))) \<Longrightarrow> all_wired sid (upd_ep i g t)"
  by (simp_all add: all_wired_def upd_ep_def)

lemma all_wired_step:
  assumes "all_wired sid t"
  shows "all_wired sid (tunnel_step i ev t)"
proof -
  have w: "wired sid (ep_sess (tn_ep t i))" using assms by (simp add: all_wired_def)
  note ops = wired_endpoint_ops [OF w]
  show ?thesis
  proof (cases ev)
    case (Send tx p)
    obtain e out where "endpoint_send tx p (tn_ep t i) = (e, out)" by (cases "endpoint_send tx p (tn_ep t i)")
    then show ?thesis using assms all_wired_upd(1) ops(7) [of tx p] by (simp add: tunnel_step_def Send)
  qed (use assms w ops in \<open>auto simp: tunnel_step_def intro!: all_wired_upd, simp add: all_wired_def\<close>)
qed

lemma reachable_all_wired: "reachable sid c s now t \<Longrightarrow> all_wired sid t"
  by (induction rule: reachable.induct)
     (simp_all add: all_wired_step, simp add: all_wired_def wired_def tunnel_start_def session_inv_newSession,
      simp add: newSession_def)

section \<open>Recovery\<close>

text \<open>
  The steps of one retransmission round over the endpoint \<open>i\<close>: a tick resends a slot, the peer
  takes the datagram and answers, the acknowledgement comes back.
\<close>

definition recovery_event :: "event \<Rightarrow> bool" where
  "recovery_event ev = (case ev of Send _ _ \<Rightarrow> True | Recv _ _ _ \<Rightarrow> True | Tick _ \<Rightarrow> True | Read _ \<Rightarrow> True | _ \<Rightarrow> False)"

text \<open>The same without the application: only ticks, sends and deliveries.\<close>

definition delivery_event :: "event \<Rightarrow> bool" where
  "delivery_event ev = (case ev of Send _ _ \<Rightarrow> True | Recv _ _ _ \<Rightarrow> True | Tick _ \<Rightarrow> True | _ \<Rightarrow> False)"

lemma delivery_recovery: "delivery_event ev \<Longrightarrow> recovery_event ev"
  by (simp add: delivery_event_def recovery_event_def split: event.splits)

lemma delivery_keeps_read:
  "\<forall>x \<in> set evs. delivery_event (snd x) \<Longrightarrow> ep_read (tn_ep (tunnel_run evs t) i) = ep_read (tn_ep t i)"
proof (induction evs t rule: tunnel_run.induct)
  case (2 j ev evs t)
  have "ep_read (endpoint_recv now a d e) = ep_read e" "ep_read (endpoint_tick now e) = ep_read e"
    "ep_read (fst (endpoint_send tx p e)) = ep_read e" for now a d e tx p
    by (simp_all add: endpoint_recv_def endpoint_tick_def endpoint_send_def Let_def
        split: option.split sum.split prod.split after_packet.split)
  then have "ep_read (tn_ep (tunnel_step j ev t) i) = ep_read (tn_ep t i)"
    using "2.prems" by (cases ev) (simp_all add: tunnel_step_def upd_ep_def delivery_event_def Let_def split: prod.split, metis fst_conv)
  then show ?case using 2 by simp
qed simp

definition live_ep :: "64 word \<Rightarrow> endpoint \<Rightarrow> bool" where
  "live_ep sid e \<longleftrightarrow> wired sid (ep_sess e) \<and> \<not> s_closed (ep_sess e)"

lemma endpoint_tick_due:
  assumes "live_ep sid e" "slot \<in> set (s_sendSlots (ep_sess e))"
    "now - sl_lastSend slot \<ge> s_rto (ep_sess e)"
  shows "(TypeDATA, sl_seq slot, s_recvNext (ep_sess e), sl_data slot) \<in> set (ep_pend (endpoint_tick now e))"
    "live_ep sid (endpoint_tick now e)" "rcvd (endpoint_tick now e) = rcvd e"
    "ep_wrote (endpoint_tick now e) = ep_wrote e"
proof -
  let ?s = "ep_sess e"
  have o: "\<not> s_closed ?s" "s_sendSlots ?s \<noteq> []" using assms by (auto simp: live_ep_def)
  note r = retransmit_locked_open [OF o, of now]
  show "(TypeDATA, sl_seq slot, s_recvNext ?s, sl_data slot) \<in> set (ep_pend (endpoint_tick now e))"
    using assms(2,3) by (auto simp: endpoint_tick_def r image_iff)
  show "rcvd (endpoint_tick now e) = rcvd e" "ep_wrote (endpoint_tick now e) = ep_wrote e"
    by (simp_all add: endpoint_tick_def r rcvd_def)
  show "live_ep sid (endpoint_tick now e)"
    using assms(1) wired_endpoint_ops(3) [of sid e now] by (simp add: live_ep_def endpoint_tick_def r)
qed

lemma endpoint_send_out:
  assumes "live_ep sid e" "length payload \<le> MaxPayload"
  shows "endpoint_send None (ty, sq, ack, payload) e =
    (e\<lparr>ep_pend := remove1 (ty, sq, ack, payload) (ep_pend e)\<rparr>,
     [frame_bytes \<lparr>f_type = ty, f_session = sid, f_seq = sq, f_ack = ack, f_payload = payload\<rparr>])"
  using assms by (auto simp: endpoint_send_def live_ep_def wired_def writePacket_def Encode_frame_bytes not_less)

lemma endpoint_recv_frame:
  assumes "live_ep sid e" "f_session f = sid" "length (f_payload f) \<le> MaxPayload" "f_type f = TypeDATA \<or> f_type f = TypeACK"
  shows "endpoint_recv now addr (frame_bytes f) e =
      (let s = onPacket_prefix now f (Some addr) (ep_sess e)
       in if f_type f = TypeDATA
          then e\<lparr>ep_sess := storeDataLocked f s, ep_pend := ep_pend e @ [(TypeACK, 0, s_recvNext (storeDataLocked f s), [])]\<rparr>
          else e\<lparr>ep_sess := notify_write s\<rparr>)"
  using assms Decode_frame_bytes [OF assms(3), of "[]"]
  by (auto simp: endpoint_recv_def live_ep_def wired_def onPacket_locked_prefix Let_def tunnel_types)

lemma onPacket_prefix_closed [simp]: "s_closed (onPacket_prefix now f from s) = s_closed s"
  by (simp add: onPacket_prefix_def Let_def session_flag_defs consumeAckLocked_def split: option.splits)

lemma storeDataLocked_closed [simp]: "s_closed (storeDataLocked f s) = s_closed s"
  using storeDataLocked_same_sender [of s f] by (simp add: same_sender_def)

lemma live_ep_recv_frame:
  assumes "live_ep sid e" "f_session f = sid" "length (f_payload f) \<le> MaxPayload" "f_type f = TypeDATA \<or> f_type f = TypeACK"
  shows "live_ep sid (endpoint_recv now addr (frame_bytes f) e)"
  using assms(1) wired_endpoint_ops(2) [of sid e now addr "frame_bytes f"]
  unfolding live_ep_def endpoint_recv_frame [OF assms] Let_def
  by (auto simp: notify_write_def)

lemma consumeAckLocked_slots [simp]:
  "s_sendSlots (consumeAckLocked a s) = filter (\<lambda>slot. \<not> sl_seq slot < a) (s_sendSlots s)"
proof (cases "\<exists>x \<in> set (s_sendSlots s). sl_seq x < a")
  case True
  then obtain x where x: "x \<in> set (s_sendSlots s)" "\<not> \<not> sl_seq x < a" by auto
  have "length (filter (\<lambda>slot. \<not> sl_seq slot < a) (s_sendSlots s)) < length (s_sendSlots s)"
    by (rule length_filter_less [where x = x]) (use x in auto)
  then show ?thesis by (auto simp: consumeAckLocked_def Let_def notify_write_def)
next
  case False
  then have "filter (\<lambda>slot. \<not> sl_seq slot < a) (s_sendSlots s) = s_sendSlots s" by (simp add: filter_id_conv)
  then show ?thesis by (simp add: consumeAckLocked_def Let_def)
qed

text \<open>An acknowledgement leaves only unacknowledged slots.\<close>

lemma endpoint_recv_ack:
  assumes "live_ep sid e" "f_session f = sid" "f_payload f = []" "f_type f = TypeACK"
  shows "s_sendSlots (ep_sess (endpoint_recv now addr (frame_bytes f) e)) =
           filter (\<lambda>slot. \<not> sl_seq slot < f_ack f) (s_sendSlots (ep_sess e))"
    "ep_wrote (endpoint_recv now addr (frame_bytes f) e) = ep_wrote e"
    "ep_read (endpoint_recv now addr (frame_bytes f) e) = ep_read e"
proof -
  have 0: "length (f_payload f) \<le> MaxPayload" "f_type f = TypeDATA \<or> f_type f = TypeACK"
    using assms by (simp_all add: MaxPayload_def)
  show "s_sendSlots (ep_sess (endpoint_recv now addr (frame_bytes f) e)) =
           filter (\<lambda>slot. \<not> sl_seq slot < f_ack f) (s_sendSlots (ep_sess e))"
    using assms(4) unfolding endpoint_recv_frame [OF assms(1,2) 0] Let_def
    by (simp add: onPacket_prefix_def Let_def consumeAckLocked_slots tunnel_types session_flag_defs)
  show "ep_wrote (endpoint_recv now addr (frame_bytes f) e) = ep_wrote e"
    "ep_read (endpoint_recv now addr (frame_bytes f) e) = ep_read e"
    unfolding endpoint_recv_frame [OF assms(1,2) 0] Let_def by simp_all
qed

lemma endpoint_recv_data:
  assumes "live_ep sid e" "f_session f = sid" "length (f_payload f) \<le> MaxPayload" "f_type f = TypeDATA"
    "receiver_ok Wp got (ep_sess e)" "unat (f_seq f) < length Wp" "f_payload f = Wp ! unat (f_seq f)"
  shows "(TypeACK, 0, s_recvNext (ep_sess (endpoint_recv now addr (frame_bytes f) e)), []) \<in>
           set (ep_pend (endpoint_recv now addr (frame_bytes f) e))"
    "rcvd e \<le> rcvd (endpoint_recv now addr (frame_bytes f) e)"
    "f_seq f = s_recvNext (ep_sess e) \<Longrightarrow> rcvd e < rcvd (endpoint_recv now addr (frame_bytes f) e)"
    "ep_wrote (endpoint_recv now addr (frame_bytes f) e) = ep_wrote e"
    "ep_read (endpoint_recv now addr (frame_bytes f) e) = ep_read e"
proof -
  note r = endpoint_recv_frame [OF assms(1-3) disjI1 [OF assms(4)], of now addr, unfolded Let_def]
  let ?s = "onPacket_prefix now f (Some addr) (ep_sess e)"
  have s: "s_recvNext ?s = s_recvNext (ep_sess e)" "receiver_ok Wp got ?s"
    using assms(5)
    by (simp_all add: onPacket_prefix_def Let_def receiver_ok_def touch_def consumeAckLocked_def notify_write_def)
  note st = receiver_ok_storeDataLocked [OF s(2) assms(6,7)]
  show "(TypeACK, 0, s_recvNext (ep_sess (endpoint_recv now addr (frame_bytes f) e)), []) \<in>
           set (ep_pend (endpoint_recv now addr (frame_bytes f) e))"
    unfolding r using assms(4) by simp
  show "rcvd e \<le> rcvd (endpoint_recv now addr (frame_bytes f) e)"
    unfolding r rcvd_def using assms(4) st s(1) by simp
  show "rcvd e < rcvd (endpoint_recv now addr (frame_bytes f) e)" if "f_seq f = s_recvNext (ep_sess e)"
    unfolding r rcvd_def using assms(4) st s(1) that by simp
  show "ep_wrote (endpoint_recv now addr (frame_bytes f) e) = ep_wrote e"
    "ep_read (endpoint_recv now addr (frame_bytes f) e) = ep_read e"
    unfolding r by simp_all
qed

text \<open>Both directions of the system at once.\<close>

definition live :: "64 word \<Rightarrow> tunnel \<Rightarrow> bool" where
  "live sid t \<longleftrightarrow> sys_inv t \<and> (\<forall>i. live_ep sid (tn_ep t i))"

lemma live_run_inv: "live sid t \<Longrightarrow> sys_inv (tunnel_run evs t)"
proof -
  have "sys_inv u \<Longrightarrow> sys_inv (tunnel_run evs u)" for u
    by (induction evs u rule: tunnel_run.induct) (simp_all add: sys_inv_step)
  then show "live sid t \<Longrightarrow> ?thesis" by (simp add: live_def)
qed

text \<open>Sending a captured packet and delivering the datagram at the other end.\<close>

definition relay :: "bool \<Rightarrow> packet \<Rightarrow> Frame \<Rightarrow> (bool \<times> event) list" where
  "relay i p f = [(i, Send None p), (\<not> i, Recv 0 [] (frame_bytes f))]"

lemma relay_run:
  assumes "live sid t" "p \<in> set (ep_pend (tn_ep t i))" "p = (ty, sq, ack, payload)"
    "length payload \<le> MaxPayload" "ty = TypeDATA \<or> ty = TypeACK"
    "f = \<lparr>f_type = ty, f_session = sid, f_seq = sq, f_ack = ack, f_payload = payload\<rparr>"
  defines "t' \<equiv> tunnel_run (relay i p f) t"
  shows "live sid t'" "tn_ep t' i = (tn_ep t i)\<lparr>ep_pend := remove1 p (ep_pend (tn_ep t i))\<rparr>"
    "tn_ep t' (\<not> i) = endpoint_recv 0 [] (frame_bytes f) (tn_ep t (\<not> i))"
proof -
  let ?e = "tn_ep t i"
  have l: "live_ep sid (tn_ep t j)" for j using assms(1) by (simp add: live_def)
  note snd = endpoint_send_out [OF l assms(4), of ty sq ack, folded assms(3,6)]
  show e: "tn_ep t' i = ?e\<lparr>ep_pend := remove1 p (ep_pend ?e)\<rparr>"
    "tn_ep t' (\<not> i) = endpoint_recv 0 [] (frame_bytes f) (tn_ep t (\<not> i))"
    using assms(2) by (simp_all add: t'_def relay_def tunnel_step_def snd upd_ep_def)
  have "live_ep sid (tn_ep t' i)" using l [of i] by (simp add: e live_ep_def)
  moreover have "live_ep sid (tn_ep t' (\<not> i))"
    unfolding e using live_ep_recv_frame [OF l, of f] assms(4,5) by (simp add: assms(6))
  moreover have "sys_inv t'" using live_run_inv [OF assms(1)] by (simp add: t'_def)
  ultimately show "live sid t'" unfolding live_def all_bool2 [of _ i] by simp
qed

text \<open>
  One round for one slot: afterwards the peer has received at least as much, more if the slot was
  the next chunk, and the sender keeps only chunks the peer still misses.
\<close>

lemma recovery_round:
  assumes t: "live sid t" and slot: "slot \<in> set (s_sendSlots (ep_sess (tn_ep t i)))"
  shows "\<exists>evs. (\<forall>x \<in> set evs. delivery_event (snd x)) \<and>
    (let t' = tunnel_run evs t in live sid t' \<and> ep_wrote (tn_ep t' i) = ep_wrote (tn_ep t i) \<and>
       rcvd (tn_ep t (\<not> i)) \<le> rcvd (tn_ep t' (\<not> i)) \<and>
       (sl_seq slot = s_recvNext (ep_sess (tn_ep t (\<not> i))) \<longrightarrow> rcvd (tn_ep t (\<not> i)) < rcvd (tn_ep t' (\<not> i))) \<and>
       (\<forall>x \<in> set (s_sendSlots (ep_sess (tn_ep t' i))). rcvd (tn_ep t' (\<not> i)) \<le> unat (sl_seq x)))"
proof -
  let ?e = "tn_ep t i" let ?p = "tn_ep t (\<not> i)"
  define now where "now = s_rto (ep_sess ?e) + sl_lastSend slot"
  have l: "live_ep sid (tn_ep t j)" for j using t by (simp add: live_def)
  define t1 where "t1 = tunnel_step i (Tick now) t"
  have due: "now - sl_lastSend slot \<ge> s_rto (ep_sess ?e)" by (simp add: now_def)
  note tick = endpoint_tick_due [OF l slot due]
  have t1: "tn_ep t1 i = endpoint_tick now ?e" "tn_ep t1 (\<not> i) = ?p"
    by (simp_all add: t1_def tunnel_step_def upd_ep_def)
  have l1: "live sid t1"
    using l tick(2) sys_inv_step [of t i "Tick now"] t unfolding live_def all_bool2 [of _ i] t1 by (simp add: t1_def)
  have sl: "length (sl_data slot) \<le> MaxPayload" "unat (sl_seq slot) < length (ep_wrote ?e)"
    "sl_data slot = ep_wrote ?e ! unat (sl_seq slot)"
    using slot l [of i] sys_invD(1) [of t i] t
    by (auto simp: live_def live_ep_def wired_def session_inv_def ep_ok_def sender_ok_def)
  define f where "f = \<lparr>f_type = TypeDATA, f_session = sid, f_seq = sl_seq slot, f_ack = s_recvNext (ep_sess ?e),
      f_payload = sl_data slot\<rparr>"
  define pk where "pk = (TypeDATA, sl_seq slot, s_recvNext (ep_sess ?e), sl_data slot)"
  define t2 where "t2 = tunnel_run (relay i pk f) t1"
  have "pk \<in> set (ep_pend (tn_ep t1 i))" using tick(1) by (simp add: t1 pk_def)
  note r2 = relay_run [OF l1 this pk_def sl(1) _ f_def, folded t2_def, simplified]
  have rcv: "receiver_ok (ep_wrote ?e) (ep_read ?p) (ep_sess ?p)"
    using sys_invD(2) [of t i] t by (simp add: live_def ep_ok_def)
  have fp: "f_session f = sid" "length (f_payload f) \<le> MaxPayload" "f_type f = TypeDATA"
    "unat (f_seq f) < length (ep_wrote ?e)" "f_payload f = ep_wrote ?e ! unat (f_seq f)"
    using sl by (simp_all add: f_def)
  note d = endpoint_recv_data [OF l fp(1-3) rcv fp(4,5), of 0 "[]"]
  have t2: "tn_ep t2 (\<not> i) = endpoint_recv 0 [] (frame_bytes f) ?p" "ep_wrote (tn_ep t2 i) = ep_wrote ?e"
    "s_sendSlots (ep_sess (tn_ep t2 i)) = s_sendSlots (ep_sess (tn_ep t1 i))"
    using r2(2,3) by (simp_all add: t1 tick(4))
  define a where "a = s_recvNext (ep_sess (tn_ep t2 (\<not> i)))"
  define g where "g = \<lparr>f_type = TypeACK, f_session = sid, f_seq = 0, f_ack = a, f_payload = []\<rparr>"
  define pa where "pa = (TypeACK, 0 :: 32 word, a, [] :: bytes)"
  define t3 where "t3 = tunnel_run (relay (\<not> i) pa g) t2"
  have "pa \<in> set (ep_pend (tn_ep t2 (\<not> i)))" using d(1) by (simp add: t2(1) pa_def a_def)
  note r3 = relay_run [OF r2(1) this pa_def _ _ g_def, folded t3_def, simplified]
  have l2: "live_ep sid (tn_ep t2 i)" using r2(1) by (simp add: live_def)
  have gp: "f_session g = sid" "f_payload g = []" "f_type g = TypeACK" by (simp_all add: g_def)
  note k = endpoint_recv_ack [OF l2 gp, of 0 "[]"]
  define evs where "evs = (i, Tick now) # relay i pk f @ relay (\<not> i) pa g"
  have run: "tunnel_run evs t = t3" by (simp add: evs_def tunnel_run_append t1_def t2_def t3_def)
  have same: "rcvd (tn_ep t3 (\<not> i)) = rcvd (tn_ep t2 (\<not> i))" by (simp add: r3(2) rcvd_def)
  show ?thesis
  proof (intro exI [of _ evs] conjI)
    show "\<forall>x \<in> set evs. delivery_event (snd x)" by (simp add: evs_def relay_def delivery_event_def)
    have "\<forall>x \<in> set (s_sendSlots (ep_sess (tn_ep t3 i))). rcvd (tn_ep t3 (\<not> i)) \<le> unat (sl_seq x)"
      using k(1) same by (auto simp: r3(3) g_def a_def rcvd_def word_less_nat_alt not_less)
    moreover have "ep_wrote (tn_ep t3 i) = ep_wrote ?e" using k(2) r3(3) t2(2) by simp
    moreover have "rcvd ?p \<le> rcvd (tn_ep t3 (\<not> i))" using d(2) same t2(1) by simp
    moreover have "sl_seq slot = s_recvNext (ep_sess ?p) \<Longrightarrow> rcvd ?p < rcvd (tn_ep t3 (\<not> i))"
      using d(3) same t2(1) by (simp add: f_def)
    ultimately show "let t' = tunnel_run evs t in live sid t' \<and> ep_wrote (tn_ep t' i) = ep_wrote ?e \<and>
       rcvd ?p \<le> rcvd (tn_ep t' (\<not> i)) \<and>
       (sl_seq slot = s_recvNext (ep_sess ?p) \<longrightarrow> rcvd ?p < rcvd (tn_ep t' (\<not> i))) \<and>
       (\<forall>x \<in> set (s_sendSlots (ep_sess (tn_ep t' i))). rcvd (tn_ep t' (\<not> i)) \<le> unat (sl_seq x))"
      using r3(1) by (simp add: run)
  qed
qed

lemma live_facts:
  assumes "live sid t"
  shows "rcvd (tn_ep t (\<not> i)) \<le> length (ep_wrote (tn_ep t i))"
    "\<And>x. x \<in> set (s_sendSlots (ep_sess (tn_ep t i))) \<Longrightarrow> unat (sl_seq x) < length (ep_wrote (tn_ep t i))"
    "rcvd (tn_ep t (\<not> i)) < length (ep_wrote (tn_ep t i)) \<Longrightarrow>
       \<exists>x \<in> set (s_sendSlots (ep_sess (tn_ep t i))). sl_seq x = s_recvNext (ep_sess (tn_ep t (\<not> i)))"
    "ep_read (tn_ep t (\<not> i)) @ s_readBuf (ep_sess (tn_ep t (\<not> i))) =
       concat (take (rcvd (tn_ep t (\<not> i))) (ep_wrote (tn_ep t i)))"
proof -
  have inv: "sys_inv t" using assms by (simp add: live_def)
  note d = sys_invD(1,2) [OF inv, of i]
  show "rcvd (tn_ep t (\<not> i)) \<le> length (ep_wrote (tn_ep t i))"
    "ep_read (tn_ep t (\<not> i)) @ s_readBuf (ep_sess (tn_ep t (\<not> i))) =
       concat (take (rcvd (tn_ep t (\<not> i))) (ep_wrote (tn_ep t i)))"
    using d(2) by (simp_all add: ep_ok_def receiver_ok_def rcvd_def)
  show "unat (sl_seq x) < length (ep_wrote (tn_ep t i))" if "x \<in> set (s_sendSlots (ep_sess (tn_ep t i)))" for x
    using d(1) that by (auto simp: ep_ok_def sender_ok_def)
  show "\<exists>x \<in> set (s_sendSlots (ep_sess (tn_ep t i))). sl_seq x = s_recvNext (ep_sess (tn_ep t (\<not> i)))"
    if "rcvd (tn_ep t (\<not> i)) < length (ep_wrote (tn_ep t i))"
    using d(1) that unfolding ep_ok_def covers_def rcvd_def by (metis order_refl word_unat_eq_iff)
qed

lemma recovery:
  "live sid t \<Longrightarrow> \<exists>evs. (\<forall>x \<in> set evs. delivery_event (snd x)) \<and>
     (let t' = tunnel_run evs t in live sid t' \<and> ep_wrote (tn_ep t' i) = ep_wrote (tn_ep t i) \<and>
        rcvd (tn_ep t' (\<not> i)) = length (ep_wrote (tn_ep t i)) \<and> s_sendSlots (ep_sess (tn_ep t' i)) = [])"
proof (induction "length (ep_wrote (tn_ep t i)) - rcvd (tn_ep t (\<not> i))" arbitrary: t rule: less_induct)
  case less
  note f = live_facts [OF less.prems, where i = i]
  let ?W = "ep_wrote (tn_ep t i)"
  consider (idle) "s_sendSlots (ep_sess (tn_ep t i)) = []"
    | (more) slot where "slot \<in> set (s_sendSlots (ep_sess (tn_ep t i)))" "rcvd (tn_ep t (\<not> i)) < length ?W"
        "sl_seq slot = s_recvNext (ep_sess (tn_ep t (\<not> i)))"
    | (last) slot where "slot \<in> set (s_sendSlots (ep_sess (tn_ep t i)))" "rcvd (tn_ep t (\<not> i)) = length ?W"
    using f(1,3) by (cases "s_sendSlots (ep_sess (tn_ep t i))") (fastforce simp: le_less)+
  then show ?case
  proof cases
    case idle
    then have "rcvd (tn_ep t (\<not> i)) = length ?W" using f(1,3) by force
    then show ?thesis using less.prems idle by (intro exI [of _ "[]"]) simp
  next
    case (more slot)
    obtain evs where evs: "\<forall>x \<in> set evs. delivery_event (snd x)" "live sid (tunnel_run evs t)"
      "ep_wrote (tn_ep (tunnel_run evs t) i) = ?W" "rcvd (tn_ep t (\<not> i)) < rcvd (tn_ep (tunnel_run evs t) (\<not> i))"
      using recovery_round [OF less.prems more(1)] more(3) unfolding Let_def by blast
    have "length (ep_wrote (tn_ep (tunnel_run evs t) i)) - rcvd (tn_ep (tunnel_run evs t) (\<not> i)) <
        length ?W - rcvd (tn_ep t (\<not> i))"
      using evs(3,4) more(2) by simp
    from less.hyps [OF this evs(2)] obtain evs' where e': "\<forall>x \<in> set evs'. delivery_event (snd x)"
      "let t' = tunnel_run evs' (tunnel_run evs t) in live sid t' \<and> ep_wrote (tn_ep t' i) = ?W \<and>
        rcvd (tn_ep t' (\<not> i)) = length ?W \<and> s_sendSlots (ep_sess (tn_ep t' i)) = []"
      unfolding evs(3) by blast
    show ?thesis
      by (intro exI [of _ "evs @ evs'"]) (use evs(1) e' in \<open>auto simp: tunnel_run_append Let_def\<close>)
  next
    case (last slot)
    obtain evs where evs: "\<forall>x \<in> set evs. delivery_event (snd x)" "live sid (tunnel_run evs t)"
      "ep_wrote (tn_ep (tunnel_run evs t) i) = ?W" "rcvd (tn_ep t (\<not> i)) \<le> rcvd (tn_ep (tunnel_run evs t) (\<not> i))"
      "\<forall>x \<in> set (s_sendSlots (ep_sess (tn_ep (tunnel_run evs t) i))).
         rcvd (tn_ep (tunnel_run evs t) (\<not> i)) \<le> unat (sl_seq x)"
      using recovery_round [OF less.prems last(1)] unfolding Let_def by blast
    note f' = live_facts [OF evs(2), where i = i]
    have "rcvd (tn_ep (tunnel_run evs t) (\<not> i)) = length ?W" using f'(1) evs(3,4) last(2) by simp
    moreover have "s_sendSlots (ep_sess (tn_ep (tunnel_run evs t) i)) = []"
      using f'(2) evs(3,5) calculation
      by (cases "s_sendSlots (ep_sess (tn_ep (tunnel_run evs t) i))") fastforce+
    ultimately show ?thesis using evs by (intro exI [of _ evs]) (simp add: Let_def)
  qed
qed

text \<open>Without a read, what was written ends up in the read buffer of the other end.\<close>

lemma delivered_to_buffer:
  assumes "live sid t"
  shows "\<exists>evs. (\<forall>x \<in> set evs. delivery_event (snd x)) \<and>
    (let t' = tunnel_run evs t in live sid t' \<and> ep_wrote (tn_ep t' i) = ep_wrote (tn_ep t i) \<and>
       ep_read (tn_ep t (\<not> i)) @ s_readBuf (ep_sess (tn_ep t' (\<not> i))) = concat (ep_wrote (tn_ep t i)))"
proof -
  obtain evs where evs: "\<forall>x \<in> set evs. delivery_event (snd x)"
    "live sid (tunnel_run evs t)" "ep_wrote (tn_ep (tunnel_run evs t) i) = ep_wrote (tn_ep t i)"
    "rcvd (tn_ep (tunnel_run evs t) (\<not> i)) = length (ep_wrote (tn_ep t i))"
    using recovery [OF assms, of i] unfolding Let_def by blast
  then show ?thesis
    using live_facts(4) [OF evs(2), where i = i] delivery_keeps_read [OF evs(1), of t "\<not> i"]
    by (intro exI [of _ evs]) (simp add: Let_def)
qed

lemma reachable_live:
  assumes "reachable sid c s now t" "\<forall>i. \<not> s_closed (ep_sess (tn_ep t i))"
  shows "live sid t"
  using assms reachable_sys_inv [OF assms(1)] reachable_all_wired [OF assms(1)]
  by (simp add: live_def live_ep_def all_wired_def)

section \<open>Properties\<close>

text \<open>(C2)
  The tunnel is a reliable stream, safety: in every reachable state of two endpoints over a
  network that loses, duplicates and reorders datagrams, what the application has read at one end,
  followed by what waits in its read buffer, is exactly the first chunks written at the other end
  in the order they were written, so the reader always has a prefix of the written bytes;
  and every chunk not yet received is still held by the sender for retransmission.\<close>

theorem tunnel_delivers_in_order:
  assumes "reachable sid client server now t"
  shows "ep_read (tn_ep t (\<not> i)) @ s_readBuf (ep_sess (tn_ep t (\<not> i))) =
           concat (take (rcvd (tn_ep t (\<not> i))) (ep_wrote (tn_ep t i))) \<and>
         (\<exists>rest. concat (ep_wrote (tn_ep t i)) = ep_read (tn_ep t (\<not> i)) @ rest) \<and>
         (\<forall>k. rcvd (tn_ep t (\<not> i)) \<le> k \<and> k < length (ep_wrote (tn_ep t i)) \<longrightarrow>
            (\<exists>slot \<in> set (s_sendSlots (ep_sess (tn_ep t i))).
               unat (sl_seq slot) = k \<and> sl_data slot = ep_wrote (tn_ep t i) ! k))"
proof (intro conjI)
  note d = sys_invD(1,2) [OF reachable_sys_inv [OF assms], of i]
  let ?R = "rcvd (tn_ep t (\<not> i))" let ?W = "ep_wrote (tn_ep t i)"
  show got: "ep_read (tn_ep t (\<not> i)) @ s_readBuf (ep_sess (tn_ep t (\<not> i))) = concat (take ?R ?W)"
    using d(2) by (simp add: ep_ok_def receiver_ok_def rcvd_def)
  have "concat ?W = concat (take ?R ?W) @ concat (drop ?R ?W)"
    by (metis append_take_drop_id concat_append)
  then show "\<exists>rest. concat ?W = ep_read (tn_ep t (\<not> i)) @ rest" unfolding got [symmetric] by auto
  show "\<forall>k. ?R \<le> k \<and> k < length ?W \<longrightarrow>
      (\<exists>slot \<in> set (s_sendSlots (ep_sess (tn_ep t i))). unat (sl_seq slot) = k \<and> sl_data slot = ?W ! k)"
    using d(1) unfolding ep_ok_def covers_def sender_ok_def by blast
qed

text \<open>(C21)
  The tunnel is a reliable stream, recovery: from every reachable state in which neither end is
  closed, whatever was lost before, retransmission ticks, sends, deliveries and one read (no new
  write) lead to a state in which the reader has all that was written and the sender's window is empty.\<close>

theorem tunnel_recovers:
  assumes "reachable sid client server now t" "\<forall>j. \<not> s_closed (ep_sess (tn_ep t j))"
  shows "\<exists>evs. (\<forall>x \<in> set evs. recovery_event (snd x)) \<and>
    (let t' = tunnel_run evs t in ep_wrote (tn_ep t' i) = ep_wrote (tn_ep t i) \<and>
       ep_read (tn_ep t' (\<not> i)) = concat (ep_wrote (tn_ep t i)) \<and> s_sendSlots (ep_sess (tn_ep t' i)) = [])"
proof -
  obtain evs where evs: "\<forall>x \<in> set evs. delivery_event (snd x)"
    "live sid (tunnel_run evs t)" "ep_wrote (tn_ep (tunnel_run evs t) i) = ep_wrote (tn_ep t i)"
    "rcvd (tn_ep (tunnel_run evs t) (\<not> i)) = length (ep_wrote (tn_ep t i))"
    "s_sendSlots (ep_sess (tn_ep (tunnel_run evs t) i)) = []"
    using recovery [OF reachable_live [OF assms], of i] unfolding Let_def by blast
  let ?u = "tunnel_run evs t" let ?p = "tn_ep ?u (\<not> i)"
  let ?ev = "(\<not> i, Read (length (s_readBuf (ep_sess ?p))))"
  have all: "ep_read ?p @ s_readBuf (ep_sess ?p) = concat (ep_wrote (tn_ep t i))"
    using live_facts(4) [OF evs(2), where i = i] evs(3,4) by simp
  have rd: "ep_read (endpoint_read (length (s_readBuf (ep_sess ?p))) ?p) = concat (ep_wrote (tn_ep t i))"
    using all by (auto simp: endpoint_read_def session_read_def)
  show ?thesis
    by (intro exI [of _ "evs @ [?ev]"])
       (use evs rd delivery_recovery in \<open>auto simp: tunnel_run_append tunnel_step_def upd_ep_def recovery_event_def Let_def\<close>)
qed

text \<open>A concrete run: a written chunk whose datagram is lost.\<close>

definition demo_start :: tunnel where
  "demo_start = tunnel_start 1 ''c'' ''s'' 0"

definition demo_lost :: tunnel where
  "demo_lost = tunnel_run [(True, Write 0 [104, 105]), (True, Send None (TypeDATA, 0, 0, [104, 105])),
     (False, Drop (frame_bytes \<lparr>f_type = TypeDATA, f_session = 1, f_seq = 0, f_ack = 0, f_payload = [104, 105]\<rparr>))]
     demo_start"

lemma demo_lost_reachable: "reachable 1 ''c'' ''s'' 0 demo_lost"
  unfolding demo_lost_def demo_start_def by (intro reachable_run reachable.start)

lemma demo_lost_state:
  "tn_net demo_lost False = []" "ep_wrote (tn_ep demo_lost True) = [[104, 105]]"
  "\<not> s_closed (ep_sess (tn_ep demo_lost j))" "rcvd (tn_ep demo_lost False) = 0"
  "ep_read (tn_ep demo_lost False) = []"
  by (cases j; simp add: demo_lost_def demo_start_def tunnel_start_def tunnel_step_def upd_ep_def endpoint_write_def
      write_chunk_locked_def newSession_def endpoint_send_def writePacket_def Encode_frame_bytes MaxPayload_def
      MaxInFlight_def rcvd_def Let_def)+

theorem tunnel_delivers_in_order_witness:
  "\<exists>rest. concat (ep_wrote (tn_ep demo_lost True)) = ep_read (tn_ep demo_lost False) @ rest"
  using tunnel_delivers_in_order [OF demo_lost_reachable, of True] by simp

theorem tunnel_recovers_witness:
  "\<exists>evs. ep_read (tn_ep (tunnel_run evs demo_lost) False) = [104, 105]"
  using tunnel_recovers [OF demo_lost_reachable, of True] demo_lost_state
  by (auto simp: Let_def)

section \<open>Closing, and the memory a reader that does not read can hold\<close>

text \<open>
  An orderly close of the endpoint \<open>i\<close> that reaches the peer: the mark, the FIN with the captured
  acknowledgement, the forced close, and the FIN at the other end.
\<close>

definition orderly_close :: "int \<Rightarrow> net_addr \<Rightarrow> bool \<Rightarrow> tunnel \<Rightarrow> (bool \<times> event) list" where
  "orderly_close now addr i t =
     (let s = ep_sess (tn_ep t i); ack = s_recvNext s
      in [(i, Close), (i, Send None (TypeFIN, 0, ack, [])), (i, Force),
          (\<not> i, Recv now addr (frame_bytes \<lparr>f_type = TypeFIN, f_session = s_id s, f_seq = 0, f_ack = ack, f_payload = []\<rparr>))])"

text \<open>The sender is closed and no data is under way: then the receiver gets no chunk any more.\<close>

definition no_data :: "bool \<Rightarrow> bytes list \<Rightarrow> 32 word \<Rightarrow> tunnel \<Rightarrow> bool" where
  "no_data i W r t \<longleftrightarrow>
     s_closed (ep_sess (tn_ep t i)) \<and> ep_wrote (tn_ep t i) = W \<and> s_recvNext (ep_sess (tn_ep t (\<not> i))) = r \<and>
     (\<forall>p \<in> set (ep_pend (tn_ep t i)). fst p \<noteq> TypeDATA) \<and>
     (\<forall>d \<in> set (tn_net t (\<not> i)). \<forall>f. Decode d = Some (Inr f) \<longrightarrow> f_type f \<noteq> TypeDATA)"

lemma sent_type:
  assumes "d \<in> set (snd (endpoint_send tx p e))" "Decode d = Some (Inr f)"
  shows "f_type f = fst p"
proof -
  obtain ty sq ack payload where p: "p = (ty, sq, ack, payload)" by (cases p)
  have "length payload \<le> MaxPayload \<and>
      d = frame_bytes \<lparr>f_type = ty, f_session = s_id (ep_sess e), f_seq = sq, f_ack = ack, f_payload = payload\<rparr>"
    using assms(1) by (auto simp: p endpoint_send_def writePacket_def Encode_frame_bytes split: if_splits option.splits)
  then show ?thesis
    using assms(2) Decode_frame_bytes [of "\<lparr>f_type = ty, f_session = s_id (ep_sess e), f_seq = sq, f_ack = ack, f_payload = payload\<rparr>" "[]"]
    by (simp add: p)
qed

lemma onPacket_locked_recvNext:
  "onPacket_locked now f from s = (s', after) \<Longrightarrow> f_type f \<noteq> TypeDATA \<Longrightarrow> s_recvNext s' = s_recvNext s"
  by (auto simp: onPacket_locked_prefix onPacket_prefix_def consumeAckLocked_def forceCloseLocked_def session_flag_defs Let_def
      split: if_splits option.splits)

lemma closed_sender_ops:
  assumes "s_closed (ep_sess e)" "\<forall>p \<in> set (ep_pend e). fst p \<noteq> TypeDATA"
  shows "endpoint_write now b e = e" "endpoint_tick now e = e" "endpoint_close e = e" "endpoint_force e = e"
    "s_closed (ep_sess (endpoint_recv now addr d e)) \<and> ep_wrote (endpoint_recv now addr d e) = ep_wrote e \<and>
     (\<forall>p \<in> set (ep_pend (endpoint_recv now addr d e)). fst p \<noteq> TypeDATA)"
    "s_closed (ep_sess (endpoint_read k e)) \<and> ep_wrote (endpoint_read k e) = ep_wrote e \<and> ep_pend (endpoint_read k e) = ep_pend e"
proof -
  show "endpoint_write now b e = e" "endpoint_tick now e = e" "endpoint_close e = e" "endpoint_force e = e"
    using assms(1) by (simp_all add: endpoint_write_def write_chunk_locked_def endpoint_tick_def retransmit_locked_def
        endpoint_close_def close_mark_locked_def endpoint_force_def forceCloseLocked_def)
  show "s_closed (ep_sess (endpoint_recv now addr d e)) \<and> ep_wrote (endpoint_recv now addr d e) = ep_wrote e \<and>
     (\<forall>p \<in> set (ep_pend (endpoint_recv now addr d e)). fst p \<noteq> TypeDATA)"
    using assms by (auto simp: endpoint_recv_def onPacket_locked_def tunnel_types split: option.split sum.split)
  show "s_closed (ep_sess (endpoint_read k e)) \<and> ep_wrote (endpoint_read k e) = ep_wrote e \<and> ep_pend (endpoint_read k e) = ep_pend e"
    using assms(1) by (auto simp: endpoint_read_def session_read_def)
qed

lemma receiver_ops:
  "s_recvNext (ep_sess (endpoint_write now b e)) = s_recvNext (ep_sess e)"
  "s_recvNext (ep_sess (endpoint_tick now e)) = s_recvNext (ep_sess e)"
  "s_recvNext (ep_sess (endpoint_read k e)) = s_recvNext (ep_sess e)"
  "s_recvNext (ep_sess (endpoint_close e)) = s_recvNext (ep_sess e)"
  "s_recvNext (ep_sess (endpoint_force e)) = s_recvNext (ep_sess e)"
  "s_recvNext (ep_sess (fst (endpoint_send tx p e))) = s_recvNext (ep_sess e)"
  "\<forall>f. Decode d = Some (Inr f) \<longrightarrow> f_type f \<noteq> TypeDATA \<Longrightarrow> s_recvNext (ep_sess (endpoint_recv now addr d e)) = s_recvNext (ep_sess e)"
  by (auto simp: endpoint_write_def write_chunk_locked_def endpoint_tick_def retransmit_locked_def endpoint_read_def session_read_def
      endpoint_close_def close_mark_locked_def endpoint_force_def forceCloseLocked_def session_flag_defs endpoint_send_def Let_def
      endpoint_recv_def dest: onPacket_locked_recvNext
      split: option.split sum.split prod.split after_packet.split chunk_result.split)

lemma no_data_step:
  assumes "no_data i W r t"
  shows "no_data i W r (tunnel_step j ev t)"
proof -
  note n = assms [unfolded no_data_def]
  note ops = closed_sender_ops [of "tn_ep t i"]
  show ?thesis
  proof (cases "j = i")
    case True
    show ?thesis
    proof (cases ev)
      case (Send tx p)
      have "set (ep_pend (fst (endpoint_send tx p (tn_ep t i)))) \<subseteq> set (ep_pend (tn_ep t i))"
        by (simp add: endpoint_send_def set_remove1_subset split: prod.split)
      moreover have "ep_sess (fst (endpoint_send tx p (tn_ep t i))) = ep_sess (tn_ep t i)"
        "ep_wrote (fst (endpoint_send tx p (tn_ep t i))) = ep_wrote (tn_ep t i)" by (simp_all add: endpoint_send_def split: prod.split)
      ultimately show ?thesis
        using n sent_type [of _ tx p "tn_ep t i"] True Send
        by (auto simp: no_data_def tunnel_step_def case_prod_beta)
    qed (use n ops True in \<open>auto simp: no_data_def tunnel_step_def upd_ep_def tunnel_types\<close>)
  next
    case False
    then have j: "j = (\<not> i)" by auto
    show ?thesis
      using n notin_set_remove1 unfolding j
      by (cases ev) (auto simp: no_data_def tunnel_step_def upd_ep_def case_prod_beta receiver_ops)
  qed
qed

lemma no_data_run: "no_data i W r t \<Longrightarrow> no_data i W r (tunnel_run evs t)"
  by (induction evs t rule: tunnel_run.induct) (simp_all add: no_data_step)

lemma orderly_closed:
  fixes now addr
  assumes l: "live sid t" and quiet: "ep_pend (tn_ep t i) = []" "tn_net t (\<not> i) = []"
  defines "t' \<equiv> tunnel_run (orderly_close now addr i t) t"
  shows "no_data i (ep_wrote (tn_ep t i)) (s_recvNext (ep_sess (tn_ep t (\<not> i)))) t'"
    "s_readEOF (ep_sess (tn_ep t' (\<not> i)))" "ep_sess (tn_ep t' i) = forceCloseLocked ((ep_sess (tn_ep t i))\<lparr>s_writeFin := True\<rparr>)"
proof -
  let ?e = "tn_ep t i" let ?q = "tn_ep t (\<not> i)"
  define ack where "ack = s_recvNext (ep_sess ?e)"
  define f where "f = \<lparr>f_type = TypeFIN, f_session = sid, f_seq = 0, f_ack = ack, f_payload = []\<rparr>"
  define e1 where "e1 = ?e\<lparr>ep_sess := (ep_sess ?e)\<lparr>s_writeFin := True\<rparr>, ep_pend := [(TypeFIN, 0, ack, [])]\<rparr>"
  have live: "live_ep sid ?e" "live_ep sid ?q" using l by (simp_all add: live_def)
  have sid: "s_id (ep_sess ?e) = sid" "\<not> s_closed (ep_sess ?e)" "s_id (ep_sess ?q) = sid" "\<not> s_closed (ep_sess ?q)"
    using live by (simp_all add: live_ep_def wired_def)
  have close: "endpoint_close ?e = e1"
    using sid quiet(1) by (simp add: endpoint_close_def close_mark_locked_def e1_def ack_def)
  have "live_ep sid e1"
    using live(1) wired_endpoint_ops(5) [of sid ?e] unfolding close by (simp add: live_ep_def e1_def)
  then have send: "endpoint_send None (TypeFIN, 0, ack, []) e1 = (e1\<lparr>ep_pend := []\<rparr>, [frame_bytes f])"
    using endpoint_send_out [of sid e1 "[]" TypeFIN 0 ack] by (simp add: f_def e1_def)
  have dec: "Decode (frame_bytes f) = Some (Inr f)" using Decode_frame_bytes [of f "[]"] by (simp add: f_def)
  have ty: "TypeFIN \<noteq> TypeSYN" "TypeFIN \<noteq> TypeDATA" by (simp_all add: tunnel_types)
  let ?q' = "endpoint_recv now addr (frame_bytes f) ?q"
  have recv: "s_readEOF (ep_sess ?q')" "s_recvNext (ep_sess ?q') = s_recvNext (ep_sess ?q)"
    using sid dec ty receiver_ops(7) [of "frame_bytes f" now addr ?q]
    by (simp_all add: endpoint_recv_def f_def onPacket_locked_prefix Let_def session_flag_defs)
  have run: "tn_ep t' i = endpoint_force (e1\<lparr>ep_pend := []\<rparr>)" "tn_ep t' (\<not> i) = ?q'" "tn_net t' (\<not> i) = [frame_bytes f]"
    using quiet(2) close send sid(1)
    by (simp_all add: t'_def orderly_close_def tunnel_step_def upd_ep_def Let_def ack_def [symmetric] f_def [symmetric] e1_def)
  show "s_readEOF (ep_sess (tn_ep t' (\<not> i)))" using recv(1) by (simp add: run)
  show "ep_sess (tn_ep t' i) = forceCloseLocked ((ep_sess ?e)\<lparr>s_writeFin := True\<rparr>)" by (simp add: run endpoint_force_def e1_def)
  show "no_data i (ep_wrote ?e) (s_recvNext (ep_sess ?q)) t'"
    using recv(2) dec ty by (simp add: no_data_def run endpoint_force_def e1_def forceCloseLocked_def session_flag_defs f_def)
qed

text \<open>(C37)
  An orderly close can truncate the stream silently. From any reachable state with both ends open in
  which a chunk has not been received and what was sent of it is lost, let one end close in order: it
  sends its FIN without waiting for the window, is closed, and the FIN arrives. Then the reader gets
  what it has already, followed by a plain end-of-file; and whatever happens after that, ticks,
  sends, deliveries and reads in any order, what it has read stays a strict prefix of what was written:
  the closed end retransmits nothing.\<close>

theorem tunnel_close_truncates:
  assumes "reachable sid client server start t" "\<forall>j. \<not> s_closed (ep_sess (tn_ep t j))"
    "rcvd (tn_ep t (\<not> i)) < length (ep_wrote (tn_ep t i))" "ep_pend (tn_ep t i) = []" "tn_net t (\<not> i) = []"
  shows "let t' = tunnel_run (orderly_close now addr i t) t; s = ep_sess (tn_ep t' (\<not> i)) in
    s_closed (ep_sess (tn_ep t' i)) \<and>
    (\<forall>k. fst (session_read k (snd (session_read (length (s_readBuf s)) s))) = ReadReturn [] (Some EOF)) \<and>
    (\<forall>evs. \<exists>rest. rest \<noteq> [] \<and> concat (ep_wrote (tn_ep t i)) = ep_read (tn_ep (tunnel_run evs t') (\<not> i)) @ rest)"
proof -
  let ?W = "ep_wrote (tn_ep t i)" let ?r = "rcvd (tn_ep t (\<not> i))" let ?t = "tunnel_run (orderly_close now addr i t) t"
  have l: "live sid t" by (rule reachable_live [OF assms(1,2)])
  note c = orderly_closed [OF l assms(4,5), of now addr]
  obtain x where x: "x \<in> set (s_sendSlots (ep_sess (tn_ep t i)))" "sl_seq x = s_recvNext (ep_sess (tn_ep t (\<not> i)))"
    using live_facts(3) [OF l assms(3)] by blast
  have "sl_data x = ?W ! unat (sl_seq x)" "sl_data x \<noteq> []"
    using x(1) l sys_invD(1) [of t i] by (auto simp: live_def live_ep_def wired_def session_inv_def ep_ok_def sender_ok_def)
  then have "?W ! ?r \<noteq> []" using x(2) by (simp add: rcvd_def)
  then have missing: "concat (drop ?r ?W) \<noteq> []" using assms(3) by (auto simp: Cons_nth_drop_Suc [symmetric])
  have "\<exists>rest. rest \<noteq> [] \<and> concat ?W = ep_read (tn_ep (tunnel_run evs ?t) (\<not> i)) @ rest" for evs
  proof -
    let ?u = "tunnel_run evs ?t"
    have n: "ep_wrote (tn_ep ?u i) = ?W" "rcvd (tn_ep ?u (\<not> i)) = ?r"
      using no_data_run [OF c(1), of evs] by (simp_all add: no_data_def rcvd_def)
    have "sys_inv ?u" using reachable_sys_inv [OF reachable_run [OF reachable_run [OF assms(1)]]] .
    then have "ep_read (tn_ep ?u (\<not> i)) @ s_readBuf (ep_sess (tn_ep ?u (\<not> i))) = concat (take ?r ?W)"
      using sys_invD(2) [of ?u i] n by (simp add: ep_ok_def receiver_ok_def rcvd_def)
    then have "concat ?W = ep_read (tn_ep ?u (\<not> i)) @ s_readBuf (ep_sess (tn_ep ?u (\<not> i))) @ concat (drop ?r ?W)"
      by (metis append.assoc append_take_drop_id concat_append)
    then show ?thesis using missing by blast
  qed
  moreover have "s_closed (ep_sess (tn_ep ?t i))" by (simp add: c(3) forceCloseLocked_def session_flag_defs)
  moreover have "fst (session_read k (snd (session_read (length (s_readBuf s)) s))) = ReadReturn [] (Some EOF)" if "s_readEOF s" for k s
    using that by (simp add: session_read_def)
  ultimately show ?thesis using c(2) by (simp add: Let_def)
qed

text \<open>The chunk of \<open>demo_lost\<close> never arrives.\<close>

theorem tunnel_close_truncates_witness:
  "\<forall>evs. \<exists>rest. rest \<noteq> [] \<and>
     [104, 105] = ep_read (tn_ep (tunnel_run evs (tunnel_run (orderly_close 0 ''c'' True demo_lost) demo_lost)) False) @ rest"
proof -
  have pend: "ep_pend (tn_ep demo_lost True) = []"
    by (simp add: demo_lost_def demo_start_def tunnel_start_def tunnel_step_def upd_ep_def endpoint_write_def
        write_chunk_locked_def newSession_def endpoint_send_def writePacket_def Encode_frame_bytes MaxPayload_def
        MaxInFlight_def Let_def)
  show ?thesis
    using tunnel_close_truncates [OF demo_lost_reachable, of True 0 "''c''"] demo_lost_state pend by (simp add: Let_def)
qed

text \<open>A peer that sends the next frame again and again, to a session nobody reads.\<close>

primrec fed :: "nat \<Rightarrow> session" where
  "fed 0 = newSession 1 True (Some ''c'') 0"
| "fed (Suc n) = fst (onPacket 0 None \<lparr>f_type = TypeDATA, f_session = 1, f_seq = of_nat n, f_ack = 0,
     f_payload = replicate MaxPayload 0\<rparr> None (fed n))"

lemma storeDataLocked_next:
  assumes "f_seq f = s_recvNext s" "s_recvValid s = replicate MaxInFlight False" "length (s_recvBuf s) = MaxInFlight"
  shows "storeDataLocked f s = notify_read (s\<lparr>s_readBuf := s_readBuf s @ f_payload f,
     s_recvBuf := tl (s_recvBuf s) @ [[]], s_recvNext := s_recvNext s + 1\<rparr>)"
proof -
  obtain b bs where b: "s_recvBuf s = b # bs" using assms(3) by (cases "s_recvBuf s") (auto simp: MaxInFlight_def)
  have rep: "replicate MaxInFlight False = False # replicate 31 False" "replicate 31 False @ [False] = False # replicate 31 False"
    by (simp_all add: MaxInFlight_def numeral_eq_Suc replicate_append_same)
  have pos: "MaxInFlight \<noteq> 0" by (simp add: MaxInFlight_def)
  define u where "u = s\<lparr>s_recvBuf := f_payload f # bs, s_recvValid := True # replicate 31 False\<rparr>"
  have "storeDataLocked f s = deliver_loop u"
    using assms(1) by (simp add: storeDataLocked_def assms(2) b rep(1) u_def pos)
  also have "\<dots> = deliver_loop (deliver_head u)" by (rule deliver_loop_True) (simp add: u_def)
  also have "\<dots> = deliver_head u"
    by (rule deliver_loop_False) (simp add: u_def deliver_head_def notify_read_def rep)
  also have "\<dots> = notify_read (s\<lparr>s_readBuf := s_readBuf s @ f_payload f,
     s_recvBuf := tl (s_recvBuf s) @ [[]], s_recvNext := s_recvNext s + 1\<rparr>)"
    using assms(2) b by (cases s) (simp add: u_def deliver_head_def notify_read_def rep)
  finally show ?thesis .
qed

lemma fed_state:
  "s_recvValid (fed n) = replicate MaxInFlight False \<and> length (s_recvBuf (fed n)) = MaxInFlight \<and>
   s_recvNext (fed n) = of_nat n \<and> length (s_readBuf (fed n)) = n * MaxPayload \<and> \<not> s_closed (fed n) \<and>
   s_sendSlots (fed n) = []"
proof (induction n)
  case 0
  then show ?case by (simp add: newSession_def)
next
  case (Suc n)
  let ?f = "\<lparr>f_type = TypeDATA, f_session = 1, f_seq = of_nat n, f_ack = 0, f_payload = replicate MaxPayload 0\<rparr>"
  have "fed (Suc n) = storeDataLocked ?f (touch 0 (fed n))"
    using Suc by (simp add: onPacket_def onPacket_locked_def Let_def consumeAckLocked_def touch_def)
  then show ?case
    using Suc storeDataLocked_next [of ?f "touch 0 (fed n)"]
    by (simp add: touch_def notify_read_def MaxInFlight_def)
qed

text \<open>The window does not bound the memory of a session: a peer that keeps sending the next frame
  makes \<open>readBuf\<close> grow by 1200 bytes per frame without limit, since \<open>storeDataLocked\<close> slides the
  window and acknowledges before anything is read. The invariant holds in every such state.\<close>

theorem readBuf_unbounded:
  "length (s_readBuf (fed n)) = n * MaxPayload \<and> session_inv (fed n)"
proof (intro conjI)
  show "session_inv (fed n)" by (induction n) (simp_all add: session_inv_newSession session_inv_onPacket)
qed (simp add: fed_state)

text \<open>The acknowledgement of chunk \<open>2 ^ 32 - 1\<close> is number 0 and acknowledges nothing.\<close>

lemma ack_after_wrap: "consumeAckLocked 0 s = s"
  by (simp add: consumeAckLocked_def)

end
