(* ===== verification/Listener.thy ===== *)
theory Listener
  imports Tunnel
begin

text \<open>
  The two ends that own sessions: common/udptunnel/listener.go (\<open>Listener\<close>: the session table,
  the accept queue, the dispatch of datagrams, the timers, \<open>Close\<close>) and
  common/udptunnel/dial.go (the steps of \<open>DialTimeout\<close>).

  Sessions are shared by pointer (table, accept queue, application), so they live in a heap: a
  list indexed by the pointer, which only grows. The table is an association list, in the order
  its entries are visited. A mutex that is locked again by its holder blocks for ever: the outcome
  \<open>Blocks\<close>.
\<close>

record listener =
  l_heap :: "session list"
  l_sessions :: "(64 word \<times> nat) list option"
  l_accept :: "(nat \<times> tunnel_conn) list"
  l_closed :: bool
  l_localAddr :: net_addr

definition acceptCap :: nat where "acceptCap = 32"

definition ListenPacket :: "net_addr \<Rightarrow> listener" where
  "ListenPacket local =
     \<lparr>l_heap = [], l_sessions = Some [], l_accept = [], l_closed = False, l_localAddr = local\<rparr>"

text \<open>Whether the port can be opened is up to the system.\<close>

definition ListenUDP :: "go_error + net_addr \<Rightarrow> go_error + listener" where
  "ListenUDP pc = map_Inr ListenPacket pc"

definition l_update :: "nat \<Rightarrow> session \<Rightarrow> listener \<Rightarrow> listener" where
  "l_update p s l = l\<lparr>l_heap := (l_heap l)[p := s]\<rparr>"

text \<open>\<open>removeSession\<close>, called with the listener's mutex free.\<close>

definition removeSession :: "64 word \<Rightarrow> listener \<Rightarrow> listener" where
  "removeSession sid l = l\<lparr>l_sessions := map_option (filter (\<lambda>(k, p). k \<noteq> sid)) (l_sessions l)\<rparr>"

text \<open>A control frame the listener builds and sends itself.\<close>

definition control_frame :: "byte \<Rightarrow> 64 word \<Rightarrow> 32 word \<Rightarrow> net_addr \<Rightarrow> datagram list" where
  "control_frame typ sid sq addr =
     (case EncodeAlloc \<lparr>f_type = typ, f_session = sid, f_seq = sq, f_ack = 0, f_payload = []\<rparr> of
        Inr b \<Rightarrow> [(addr, b)] | Inl _ \<Rightarrow> [])"

definition dispatch_syn :: "int \<Rightarrow> go_error option \<Rightarrow> Frame \<Rightarrow> net_addr \<Rightarrow> (64 word \<times> nat) list \<Rightarrow> listener \<Rightarrow>
  listener \<times> datagram list" where
  "dispatch_syn now tx f addr tbl l =
     (case map_of tbl (f_session f) of
        None \<Rightarrow>
          if length tbl \<ge> MaxSessions then (l, control_frame TypeRST (f_session f) 0 addr)
          else
            let s = (newSession (f_session f) True (Some addr) now)\<lparr>s_onClosed := True\<rparr>;
                p = length (l_heap l);
                c = newConn (l_localAddr l) addr
            in if length (l_accept l) < acceptCap
               then (l\<lparr>l_heap := l_heap l @ [s], l_sessions := Some (tbl @ [(f_session f, p)]),
                       l_accept := l_accept l @ [(p, c)]\<rparr>,
                     snd (writePacket tx s TypeSYNACK 0 0 []))
               else (l\<lparr>l_heap := l_heap l @ [forceCloseLocked s]\<rparr>, control_frame TypeRST (f_session f) 0 addr)
      | Some p \<Rightarrow>
          let s = (l_heap l ! p)\<lparr>s_peer := Some addr\<rparr>
          in (l_update p s l, snd (writePacket tx s TypeSYNACK 0 0 [])))"

definition dispatch :: "int \<Rightarrow> go_error option \<Rightarrow> Frame \<Rightarrow> net_addr \<Rightarrow> listener \<Rightarrow> listener \<times> datagram list" where
  "dispatch now tx f addr l =
     (if f_type f = TypePING then (l, control_frame TypePONG (f_session f) (f_seq f) addr)
      else case l_sessions l of
        None \<Rightarrow> (l, [])
      | Some tbl \<Rightarrow>
          if f_type f = TypeSYN then dispatch_syn now tx f addr tbl l
          else (case map_of tbl (f_session f) of
                  None \<Rightarrow> (l, [])
                | Some p \<Rightarrow>
                    (case onPacket now tx f (Some addr) (l_heap l ! p) of
                       (s, out, runs) \<Rightarrow>
                         (let l' = l_update p s l
                          in (if runs then removeSession (s_id s) l' else l', out)))))"

text \<open>One turn of \<open>readLoop\<close>: a datagram was read.\<close>

definition readLoop_body :: "int \<Rightarrow> go_error option \<Rightarrow> bytes \<Rightarrow> net_addr \<Rightarrow> listener \<Rightarrow> listener \<times> datagram list" where
  "readLoop_body now tx d addr l =
     (case Decode d of Some (Inr f) \<Rightarrow> dispatch now tx f addr l | _ \<Rightarrow> (l, []))"

datatype accept_result = Accepted nat tunnel_conn | AcceptClosed | AcceptWaits | AcceptCtx go_error

text \<open>
  \<open>AcceptContext\<close>, with the error of its context when that is done: a \<open>select\<close> with several ready
  cases takes any of them, so the result is a set. The queue is never closed.
\<close>

definition AcceptContext_results :: "go_error option \<Rightarrow> listener \<Rightarrow> (accept_result \<times> listener) set" where
  "AcceptContext_results ctx l =
     (let ready = (case l_accept l of [] \<Rightarrow> {} | (p, c) # q \<Rightarrow> {(Accepted p c, l\<lparr>l_accept := q\<rparr>)})
                  \<union> (if l_closed l then {(AcceptClosed, l)} else {})
                  \<union> (case ctx of None \<Rightarrow> {} | Some e \<Rightarrow> {(AcceptCtx e, l)})
      in if ready = {} then {(AcceptWaits, l)} else ready)"

text \<open>\<open>Accept\<close> selects among the first two cases only.\<close>

definition Accept_results :: "listener \<Rightarrow> (accept_result \<times> listener) set" where
  "Accept_results l = AcceptContext_results None l"

text \<open>The two tickers of \<open>timerLoop\<close>.\<close>

fun tick_sessions :: "int \<Rightarrow> go_error option \<Rightarrow> nat list \<Rightarrow> listener \<Rightarrow> listener \<times> datagram list" where
  "tick_sessions now tx [] l = (l, [])"
| "tick_sessions now tx (p # ps) l =
     (let (s, out) = retransmitTick now tx (l_heap l ! p);
          (l', out') = tick_sessions now tx ps (l_update p s l)
      in (l', out @ out'))"

definition timer_tick :: "int \<Rightarrow> go_error option \<Rightarrow> listener \<Rightarrow> listener \<times> datagram list" where
  "timer_tick now tx l =
     tick_sessions now tx (case l_sessions l of None \<Rightarrow> [] | Some tbl \<Rightarrow> map snd tbl) l"

fun idle_sessions :: "int \<Rightarrow> (64 word \<times> nat) list \<Rightarrow> session list \<Rightarrow> session list \<times> (64 word \<times> nat) list" where
  "idle_sessions now [] h = (h, [])"
| "idle_sessions now ((k, p) # tbl) h =
     (if session_idle now DefaultIdleTimeout (h ! p)
      then idle_sessions now tbl (h[p := forceCloseLocked (h ! p)])
      else (let (h', tbl') = idle_sessions now tbl h in (h', (k, p) # tbl')))"

definition idle_tick :: "int \<Rightarrow> listener \<Rightarrow> listener" where
  "idle_tick now l =
     (case l_sessions l of
        None \<Rightarrow> l
      | Some tbl \<Rightarrow> (let (h, tbl') = idle_sessions now tbl (l_heap l) in l\<lparr>l_heap := h, l_sessions := Some tbl'\<rparr>))"

text \<open>
  \<open>Close\<close> runs once. It holds the listener's mutex while it walks the table, and a session's
  close callback is \<open>removeSession\<close>, which locks the same mutex.
\<close>

fun close_sessions :: "(64 word \<times> nat) list \<Rightarrow> session list \<Rightarrow> session list outcome" where
  "close_sessions [] h = Returns h"
| "close_sessions ((k, p) # tbl) h =
     (let (runs, s) = invokeClosed (forceCloseLocked (h ! p))
      in if runs then Blocks else close_sessions tbl (h[p := s]))"

definition Listener_Close :: "listener \<Rightarrow> listener outcome" where
  "Listener_Close l =
     (if l_closed l then Returns l
      else case l_sessions l of
        None \<Rightarrow> Returns (l\<lparr>l_closed := True\<rparr>)
      | Some tbl \<Rightarrow> (case close_sessions tbl (l_heap l) of
            Blocks \<Rightarrow> Blocks
          | Returns h \<Rightarrow> Returns (l\<lparr>l_closed := True, l_heap := h, l_sessions := None\<rparr>)))"

text \<open>The sessions as a \<open>Close\<close> that blocks has left them: those it has visited are closed.\<close>

fun close_blocked :: "(64 word \<times> nat) list \<Rightarrow> session list \<Rightarrow> session list" where
  "close_blocked [] h = h"
| "close_blocked ((k, p) # tbl) h =
     (let (runs, s) = invokeClosed (forceCloseLocked (h ! p))
      in if runs then h[p := s] else close_blocked tbl (h[p := s]))"

text \<open>An application closes the connection at \<open>p\<close>: its callback is \<open>removeSession\<close>.\<close>

definition app_close :: "go_error option \<Rightarrow> nat \<Rightarrow> listener \<Rightarrow> listener \<times> datagram list" where
  "app_close tx p l =
     (case session_close tx (l_heap l ! p) of
        (s, out, runs) \<Rightarrow> (let l' = l_update p s l in (if runs then removeSession (s_id s) l' else l', out)))"

section \<open>The listener's invariant\<close>

text \<open>
  At most \<open>MaxSessions\<close> entries and \<open>acceptCap\<close> waiting connections; the keys are distinct and name
  sessions of the heap under their own id, whose close callback is set and has not run; distinct
  entries are distinct sessions; every session of the heap keeps the window invariant.
\<close>

definition entry_ok :: "session list \<Rightarrow> 64 word \<Rightarrow> nat \<Rightarrow> bool" where
  "entry_ok h k p \<longleftrightarrow> p < length h \<and> s_id (h ! p) = k \<and> s_onClosed (h ! p) \<and> \<not> s_closeCb (h ! p)"

definition table_ok :: "session list \<Rightarrow> (64 word \<times> nat) list \<Rightarrow> bool" where
  "table_ok h tbl \<longleftrightarrow> length tbl \<le> MaxSessions \<and> distinct (map fst tbl) \<and>
     (\<forall>(k, p) \<in> set tbl. entry_ok h k p) \<and>
     (\<forall>p < length h. s_closed (h ! p) \<or> (s_id (h ! p), p) \<in> set tbl)"

definition listener_inv :: "listener \<Rightarrow> bool" where
  "listener_inv l \<longleftrightarrow>
     table_ok (l_heap l) (case l_sessions l of None \<Rightarrow> [] | Some tbl \<Rightarrow> tbl) \<and>
     length (l_accept l) \<le> acceptCap \<and> (\<forall>(p, c) \<in> set (l_accept l). p < length (l_heap l)) \<and>
     (\<forall>s \<in> set (l_heap l). session_inv s)"

text \<open>An update of one session that keeps what the table needs.\<close>

definition same_entry :: "session \<Rightarrow> session \<Rightarrow> bool" where
  "same_entry s t \<longleftrightarrow> s_id t = s_id s \<and> s_onClosed t = s_onClosed s \<and> s_closeCb t = s_closeCb s \<and>
     (s_closed s \<longrightarrow> s_closed t)"

lemma same_entry_refl [simp, intro]: "same_entry s s"
  by (simp add: same_entry_def)

lemma entry_ok_update: "entry_ok h k q \<Longrightarrow> same_entry (h ! p) s \<Longrightarrow> entry_ok (h[p := s]) k q"
  by (cases "p = q") (simp_all add: entry_ok_def same_entry_def)

lemma table_ok_update: "table_ok h tbl \<Longrightarrow> same_entry (h ! p) s \<Longrightarrow> table_ok (h[p := s]) tbl"
proof -
  assume t: "table_ok h tbl" and e: "same_entry (h ! p) s"
  have "s_closed (h[p := s] ! q) \<or> (s_id (h[p := s] ! q), q) \<in> set tbl" if "q < length h" for q
    using t e that by (cases "p = q") (auto simp: table_ok_def same_entry_def)
  then show ?thesis using t entry_ok_update [OF _ e] by (auto simp: table_ok_def)
qed

lemma session_inv_list_update: "\<forall>t \<in> set h. session_inv t \<Longrightarrow> session_inv s \<Longrightarrow> \<forall>t \<in> set (h[p := s]). session_inv t"
  using set_update_subset_insert [of h p s] by blast

lemma listener_inv_update:
  assumes "listener_inv l" "same_entry (l_heap l ! p) s" "session_inv s"
  shows "listener_inv (l_update p s l)"
  using assms table_ok_update session_inv_list_update [of "l_heap l" s p]
  by (auto simp: listener_inv_def l_update_def)

text \<open>Removing a closed session from the table.\<close>

lemma table_ok_removed:
  assumes "table_ok h tbl" "(k, p) \<in> set tbl" "s_closed s"
  shows "table_ok (h[p := s]) (filter (\<lambda>(j, q). j \<noteq> k) tbl)"
proof -
  have kp: "entry_ok h k p" using assms(1,2) by (auto simp: table_ok_def)
  have "length (filter (\<lambda>(j, q). j \<noteq> k) tbl) \<le> MaxSessions"
    using assms(1) length_filter_le le_trans unfolding table_ok_def by blast
  moreover have "entry_ok (h[p := s]) j q" if "(j, q) \<in> set tbl" "j \<noteq> k" for j q
  proof -
    have "entry_ok h j q" using assms(1) that(1) by (auto simp: table_ok_def)
    moreover have "q \<noteq> p" using calculation that(2) kp by (auto simp: entry_ok_def)
    ultimately show ?thesis by (simp add: entry_ok_def)
  qed
  moreover have "s_closed (h[p := s] ! q) \<or> (s_id (h[p := s] ! q), q) \<in> set (filter (\<lambda>(j, q). j \<noteq> k) tbl)"
    if q: "q < length h" for q
  proof (cases "q = p \<or> s_closed (h ! q)")
    case False
    then have in_tbl: "(s_id (h ! q), q) \<in> set tbl" using assms(1) q by (auto simp: table_ok_def)
    have "s_id (h ! q) \<noteq> k"
      using in_tbl assms(1,2) False eq_key_imp_eq_value [of tbl k p q] by (auto simp: table_ok_def)
    then show ?thesis using in_tbl False by simp
  next
    case True
    then show ?thesis using assms(3) q by (cases "q = p") auto
  qed
  moreover have "distinct (map fst (filter (\<lambda>(j, q). j \<noteq> k) tbl))"
    using assms(1) by (simp add: table_ok_def distinct_map_filter)
  ultimately show ?thesis unfolding table_ok_def by auto
qed

lemma listener_inv_removed:
  assumes "listener_inv l" "l_sessions l = Some tbl" "(k, p) \<in> set tbl" "s_closed s" "session_inv s"
  shows "listener_inv (removeSession k (l_update p s l))"
  using assms table_ok_removed [of "l_heap l" tbl k p s] session_inv_list_update [of "l_heap l" s p]
  by (auto simp: listener_inv_def removeSession_def l_update_def)

text \<open>What the session operations do to an entry.\<close>

lemma same_entry_same_sender: "same_sender s t \<Longrightarrow> same_entry s t"
  by (simp add: same_sender_def same_entry_def)

lemma same_entry_trans: "same_entry s t \<Longrightarrow> same_entry t u \<Longrightarrow> same_entry s u"
  by (simp add: same_entry_def)

lemma same_entry_flags [simp, intro]:
  "same_entry s (touch now s)" "same_entry s (notify_read s)" "same_entry s (notify_write s)"
  "same_entry s (signalHS s)" "same_entry s (s\<lparr>s_peer := a\<rparr>)" "same_entry s (s\<lparr>s_readEOF := b\<rparr>)"
  "same_entry s (s\<lparr>s_writeFin := b\<rparr>)" "same_entry s (forceCloseLocked s)" "same_entry s (consumeAckLocked ack s)"
  by (simp_all add: same_entry_def session_flag_defs forceCloseLocked_def consumeAckLocked_def Let_def)

lemma same_entry_onPacket_locked: "onPacket_locked now f from s = (s', after) \<Longrightarrow> same_entry s s'"
proof -
  have p: "same_entry s (onPacket_prefix now f from s)"
    by (auto simp: onPacket_prefix_def Let_def same_entry_def session_flag_defs consumeAckLocked_def split: option.splits)
  have "same_entry s (storeDataLocked f (onPacket_prefix now f from s))"
    using same_entry_trans [OF p same_entry_same_sender [OF storeDataLocked_same_sender]] .
  then show "onPacket_locked now f from s = (s', after) \<Longrightarrow> same_entry s s'"
    using p unfolding onPacket_locked_prefix Let_def
    by (auto simp: same_entry_def session_flag_defs forceCloseLocked_def split: if_splits)
qed

lemma onPacket_locked_RunClosed: "onPacket_locked now f from s = (s', RunClosed) \<Longrightarrow> s_closed s'"
  unfolding onPacket_locked_prefix Let_def
  by (auto simp: forceCloseLocked_def session_flag_defs split: if_splits)

lemma onPacket_entry:
  assumes "onPacket now tx f from s = (s', out, runs)" "s_onClosed s" "\<not> s_closeCb s"
  shows "if runs then s_closed s' \<and> s_id s' = s_id s else same_entry s s'"
proof -
  obtain t after where t: "onPacket_locked now f from s = (t, after)"
    by (cases "onPacket_locked now f from s")
  have "same_entry s t" using same_entry_onPacket_locked [OF t] .
  then show ?thesis
    using assms t onPacket_locked_RunClosed [of now f "from" s t]
    by (cases after) (auto simp: onPacket_def invokeClosed_def same_entry_def)
qed

lemma retransmitTick_entry: "same_entry s (fst (retransmitTick now tx s))"
  by (auto simp: retransmitTick_def retransmit_locked_def Let_def same_entry_def split: prod.splits)

lemma session_close_entry:
  assumes "session_close tx s = (s', out, runs)" "s_onClosed s" "\<not> s_closeCb s \<or> s_closed s"
  shows "if runs then s_closed s' \<and> s_id s' = s_id s \<and> \<not> s_closed s else same_entry s s'"
  using assms
  by (auto simp: session_close_def close_mark_locked_def invokeClosed_def forceCloseLocked_def
      session_flag_defs same_entry_def Let_def split: if_splits)

section \<open>Every operation of the listener keeps it\<close>

lemma listener_inv_ListenPacket: "listener_inv (ListenPacket local)"
  by (simp add: listener_inv_def ListenPacket_def table_ok_def)

lemma table_entry: "listener_inv l \<Longrightarrow> l_sessions l = Some tbl \<Longrightarrow> (k, p) \<in> set tbl \<Longrightarrow> entry_ok (l_heap l) k p"
  by (auto simp: listener_inv_def table_ok_def)

lemma heap_inv: "listener_inv l \<Longrightarrow> p < length (l_heap l) \<Longrightarrow> session_inv (l_heap l ! p)"
  by (simp add: listener_inv_def)

lemma table_ok_new:
  assumes "table_ok h tbl" "map_of tbl k = None" "length tbl < MaxSessions"
    "s_id s = k" "s_onClosed s" "\<not> s_closeCb s"
  shows "table_ok (h @ [s]) (tbl @ [(k, length h)])"
proof -
  have "entry_ok (h @ [s]) j q" if "(j, q) \<in> set tbl" for j q
    using assms(1) that by (auto simp: table_ok_def entry_ok_def nth_append)
  moreover have "k \<notin> fst ` set tbl" using assms(2) by (simp add: map_of_eq_None_iff)
  moreover have "entry_ok (h @ [s]) k (length h)" using assms(4-6) by (simp add: entry_ok_def)
  ultimately show ?thesis
    using assms(1,3,4) by (auto simp: table_ok_def nth_append less_Suc_eq)
qed

lemma table_ok_closed: "table_ok h tbl \<Longrightarrow> s_closed s \<Longrightarrow> table_ok (h @ [s]) tbl"
  by (fastforce simp: table_ok_def entry_ok_def nth_append less_Suc_eq)

lemma listener_inv_dispatch_syn:
  assumes l: "listener_inv l" "l_sessions l = Some tbl"
  shows "listener_inv (fst (dispatch_syn now tx f addr tbl l))"
proof (cases "map_of tbl (f_session f)")
  case None
  let ?s = "(newSession (f_session f) True (Some addr) now)\<lparr>s_onClosed := True\<rparr>"
  have s: "session_inv ?s" "s_id ?s = f_session f" "s_onClosed ?s" "\<not> s_closeCb ?s"
    using session_inv_newSession [of "f_session f" True "Some addr" now] by (simp_all add: session_inv_def newSession_def)
  have t: "table_ok (l_heap l) tbl" using l by (simp add: listener_inv_def)
  have fc: "s_closed (forceCloseLocked ?s)" by (simp add: forceCloseLocked_def session_flag_defs)
  show ?thesis
    using l None s table_ok_new [OF t None] table_ok_closed [OF t fc] session_inv_forceCloseLocked [OF s(1)]
    by (auto simp: dispatch_syn_def Let_def listener_inv_def less_Suc_eq)
next
  case (Some p)
  have e: "entry_ok (l_heap l) (f_session f) p" using table_entry [OF l map_of_SomeD [OF Some]] .
  show ?thesis
    using l Some e heap_inv [OF l(1), of p]
    by (auto simp: dispatch_syn_def Let_def entry_ok_def intro: listener_inv_update)
qed

lemma listener_inv_dispatch:
  assumes l: "listener_inv l"
  shows "listener_inv (fst (dispatch now tx f addr l))"
proof (cases "f_type f = TypePING \<or> l_sessions l = None")
  case True
  then show ?thesis using l by (auto simp: dispatch_def)
next
  case False
  then obtain tbl where tbl: "l_sessions l = Some tbl" by auto
  show ?thesis
  proof (cases "f_type f = TypeSYN")
    case True
    then show ?thesis using False listener_inv_dispatch_syn [OF l tbl] by (simp add: dispatch_def tbl)
  next
    case syn: False
    show ?thesis
    proof (cases "map_of tbl (f_session f)")
      case None
      then show ?thesis using False syn l by (simp add: dispatch_def tbl)
    next
      case (Some p)
      have kp: "(f_session f, p) \<in> set tbl" using map_of_SomeD [OF Some] .
      have e: "entry_ok (l_heap l) (f_session f) p" using table_entry [OF l tbl kp] .
      obtain s out runs where on: "onPacket now tx f (Some addr) (l_heap l ! p) = (s, out, runs)"
        by (cases "onPacket now tx f (Some addr) (l_heap l ! p)") auto
      have inv: "session_inv s"
        using session_inv_onPacket [OF heap_inv [OF l], of p now tx f "Some addr"] e on by (simp add: entry_ok_def)
      have k: "if runs then s_closed s \<and> s_id s = f_session f else same_entry (l_heap l ! p) s"
        using onPacket_entry [OF on] e by (simp add: entry_ok_def)
      show ?thesis
        using k False syn Some on listener_inv_removed [OF l tbl kp, of s] listener_inv_update [OF l, of p s] inv
        by (auto simp: dispatch_def tbl Let_def split: if_splits)
    qed
  qed
qed

lemma listener_inv_tick_sessions:
  "listener_inv l \<Longrightarrow> \<forall>p \<in> set ps. p < length (l_heap l) \<Longrightarrow> listener_inv (fst (tick_sessions now tx ps l))"
proof (induction ps arbitrary: l)
  case (Cons p ps)
  let ?s = "fst (retransmitTick now tx (l_heap l ! p))"
  have "listener_inv (l_update p ?s l)"
    using Cons.prems heap_inv [of l p]
    by (intro listener_inv_update) (auto simp: retransmitTick_entry session_inv_retransmitTick)
  moreover have "length (l_heap (l_update p ?s l)) = length (l_heap l)" by (simp add: l_update_def)
  ultimately show ?case
    using Cons.IH [of "l_update p ?s l"] Cons.prems(2) by (simp add: Let_def case_prod_beta)
qed simp

lemma listener_inv_timer_tick: "listener_inv l \<Longrightarrow> listener_inv (fst (timer_tick now tx l))"
  unfolding timer_tick_def
  by (rule listener_inv_tick_sessions)
     (auto simp: listener_inv_def table_ok_def entry_ok_def split: option.splits)

text \<open>
  The idle sweep: of the entries it visits it keeps those that are not idle, and forces the others
  closed. Sessions outside the visited entries do not change.
\<close>

lemma idle_sessions_spec:
  assumes "idle_sessions now tbl h = (h', tbl')" "distinct (map snd tbl)"
  shows "length h' = length h \<and>
    tbl' = filter (\<lambda>(k, p). \<not> session_idle now DefaultIdleTimeout (h ! p)) tbl \<and>
    (\<forall>q < length h. h' ! q = (if \<exists>k. (k, q) \<in> set tbl \<and> session_idle now DefaultIdleTimeout (h ! q)
                              then forceCloseLocked (h ! q) else h ! q))"
  using assms
proof (induction now tbl h arbitrary: h' tbl' rule: idle_sessions.induct)
  case (2 now k p tbl h)
  have d: "distinct (map snd tbl)" "p \<notin> snd ` set tbl" using 2(4) by auto
  show ?case
  proof (cases "session_idle now DefaultIdleTimeout (h ! p)")
    case True
    note IH = 2(1) [OF True _ d(1)]
    have other: "(h[p := forceCloseLocked (h ! p)]) ! q = h ! q" if "(j, q) \<in> set tbl" for j q
      using d(2) that by (metis image_eqI nth_list_update_neq snd_conv)
    have "filter (\<lambda>(j, q). \<not> session_idle now DefaultIdleTimeout (h[p := forceCloseLocked (h ! p)] ! q)) tbl =
          filter (\<lambda>(j, q). \<not> session_idle now DefaultIdleTimeout (h ! q)) tbl"
      using other by (intro filter_cong) auto
    moreover have i: "length h' = length (h[p := forceCloseLocked (h ! p)])"
      "tbl' = filter (\<lambda>(j, q). \<not> session_idle now DefaultIdleTimeout (h[p := forceCloseLocked (h ! p)] ! q)) tbl"
      "\<And>q. q < length h \<Longrightarrow> h' ! q = (if \<exists>k. (k, q) \<in> set tbl \<and>
           session_idle now DefaultIdleTimeout (h[p := forceCloseLocked (h ! p)] ! q)
         then forceCloseLocked (h[p := forceCloseLocked (h ! p)] ! q) else h[p := forceCloseLocked (h ! p)] ! q)"
      using IH [of h' tbl'] 2(3) True by auto
    moreover have "h' ! q = (if \<exists>j. (j, q) \<in> set ((k, p) # tbl) \<and> session_idle now DefaultIdleTimeout (h ! q)
         then forceCloseLocked (h ! q) else h ! q)" if q: "q < length h" for q
    proof (cases "q = p")
      case True
      then have "\<forall>j. (j, q) \<notin> set tbl" using d(2) by force
      then show ?thesis using i(3) [OF q] True \<open>session_idle now DefaultIdleTimeout (h ! p)\<close> q by simp
    next
      case False
      then show ?thesis using i(3) [OF q] by simp
    qed
    ultimately show ?thesis using True by simp
  next
    case False
    obtain h1 t1 where r: "idle_sessions now tbl h = (h1, t1)" by (cases "idle_sessions now tbl h")
    show ?thesis using 2(2) [OF False r d(1)] 2(3) False r by auto
  qed
qed simp

lemma table_distinct_snd: "table_ok h tbl \<Longrightarrow> distinct (map snd tbl)"
proof -
  assume t: "table_ok h tbl"
  have "map fst tbl = map (\<lambda>p. s_id (h ! p)) (map snd tbl)"
    using t by (auto simp: table_ok_def entry_ok_def)
  then show ?thesis using t unfolding table_ok_def by (metis distinct_map)
qed

lemma listener_inv_idle_tick:
  assumes l: "listener_inv l"
  shows "listener_inv (idle_tick now l)"
proof (cases "l_sessions l")
  case None
  then show ?thesis using l by (simp add: idle_tick_def)
next
  case (Some tbl)
  let ?idle = "\<lambda>p. session_idle now DefaultIdleTimeout (l_heap l ! p)"
  obtain h tbl' where r: "idle_sessions now tbl (l_heap l) = (h, tbl')" by (cases "idle_sessions now tbl (l_heap l)")
  have t: "table_ok (l_heap l) tbl" using l Some by (simp add: listener_inv_def)
  note sp = idle_sessions_spec [OF r table_distinct_snd [OF t]]
  have len: "length h = length (l_heap l)" and tbl': "tbl' = filter (\<lambda>(k, p). \<not> ?idle p) tbl"
    and cell: "\<And>q. q < length h \<Longrightarrow> h ! q = (if \<exists>k. (k, q) \<in> set tbl \<and> ?idle q then forceCloseLocked (l_heap l ! q) else l_heap l ! q)"
    using sp by auto
  have "length tbl' \<le> MaxSessions"
    using t length_filter_le le_trans unfolding table_ok_def tbl' by blast
  moreover have "distinct (map fst tbl')" using t by (simp add: table_ok_def tbl' distinct_map_filter)
  moreover have "entry_ok h k p" if "(k, p) \<in> set tbl'" for k p
    using t that cell [of p] len by (auto simp: table_ok_def entry_ok_def tbl')
  moreover have "s_closed (h ! p) \<or> (s_id (h ! p), p) \<in> set tbl'" if "p < length h" for p
  proof (cases "\<exists>k. (k, p) \<in> set tbl \<and> ?idle p")
    case True
    have "h ! p = forceCloseLocked (l_heap l ! p)" using cell [OF that] unfolding if_P [OF True] .
    then show ?thesis by (simp add: forceCloseLocked_def session_flag_defs)
  next
    case False
    have "h ! p = l_heap l ! p" using cell [OF that] unfolding if_not_P [OF False] .
    then show ?thesis using t that len False by (auto simp: table_ok_def tbl')
  qed
  moreover have "session_inv s" if s: "s \<in> set h" for s
  proof -
    obtain q where "q < length h" "s = h ! q" using s by (auto simp: in_set_conv_nth)
    then show ?thesis using cell [of q] heap_inv [OF l, of q] len by auto
  qed
  ultimately show ?thesis
    using l len by (auto simp: idle_tick_def Some r listener_inv_def table_ok_def)
qed

lemma listener_inv_app_close:
  assumes l: "listener_inv l" "p < length (l_heap l)"
  shows "listener_inv (fst (app_close tx p l))"
proof (cases "s_closed (l_heap l ! p)")
  case True
  then have "app_close tx p l = (l, [])"
    by (simp add: app_close_def session_close_def close_mark_locked_def l_update_def)
  then show ?thesis using l by simp
next
  case False
  then obtain tbl where tbl: "l_sessions l = Some tbl" and kp: "(s_id (l_heap l ! p), p) \<in> set tbl"
    using l by (cases "l_sessions l") (auto simp: listener_inv_def table_ok_def)
  have e: "entry_ok (l_heap l) (s_id (l_heap l ! p)) p" using table_entry [OF l(1) tbl kp] .
  obtain s out runs where c: "session_close tx (l_heap l ! p) = (s, out, runs)"
    by (cases "session_close tx (l_heap l ! p)") auto
  have inv: "session_inv s" using session_inv_session_close [OF heap_inv [OF l], of tx] c by simp
  have k: "if runs then s_closed s \<and> s_id s = s_id (l_heap l ! p) \<and> \<not> s_closed (l_heap l ! p)
           else same_entry (l_heap l ! p) s"
    using session_close_entry [OF c] e by (simp add: entry_ok_def)
  show ?thesis
    using k c listener_inv_removed [OF l(1) tbl kp, of s] listener_inv_update [OF l(1), of p s] inv
    by (auto simp: app_close_def Let_def split: if_splits)
qed

lemma listener_inv_Accept: "listener_inv l \<Longrightarrow> (r, l') \<in> AcceptContext_results ctx l \<Longrightarrow> listener_inv l'"
  by (auto simp: AcceptContext_results_def Let_def listener_inv_def split: list.splits if_splits option.splits)

section \<open>Reading and writing\<close>

text \<open>The operations of a session never open it again.\<close>

lemma Conn_Read_entry [simp, intro]: "same_entry s (snd (Conn_Read now k c s))"
  by (auto simp: Conn_Read_def session_read_def same_entry_def split: option.split)

lemma session_write_entry: "same_entry s (fst (snd (session_write clock tx k s b tot)))"
proof (induction clock tx k s b tot rule: session_write.induct)
  case (1 clock tx k s b tot)
  show ?case
  proof (cases "write_chunk_locked (clock k) b s")
    case (Took sq ack payload s')
    have s': "same_entry s s'" using Took by (auto simp: write_chunk_locked_def Let_def same_entry_def split: if_splits)
    obtain e out where w: "writePacket (tx k) s' TypeDATA sq ack payload = (e, out)" by (cases "writePacket (tx k) s' TypeDATA sq ack payload")
    show ?thesis
    proof (cases "b = [] \<or> e \<noteq> None")
      case True
      then show ?thesis using Took w s' by (subst session_write.simps) (auto split: option.split)
    next
      case False
      then show ?thesis
        using "1.IH" [OF _ Took w [symmetric]] Took w same_entry_trans [OF s']
        by (subst session_write.simps) (simp add: case_prod_beta Let_def)
    qed
  qed (subst session_write.simps; simp)+
qed

lemma Conn_Write_entry [simp, intro]: "same_entry s (fst (snd (Conn_Write now clock tx c s b)))"
  by (simp add: Conn_Write_def session_write_entry split: option.split)

lemma session_inv_handled:
  "session_inv s \<Longrightarrow> session_inv (snd (Conn_Read now k c s))"
  "session_inv s \<Longrightarrow> session_inv (fst (snd (Conn_Write now clock txs c s b)))"
  by (simp_all add: Conn_Read_def Conn_Write_def session_inv_session_read session_inv_session_write split: option.split)

lemma listener_inv_handled:
  assumes "listener_inv l" "p < length (l_heap l)"
  shows "listener_inv (l_update p (snd (Conn_Read now k c (l_heap l ! p))) l)"
    "listener_inv (l_update p (fst (snd (Conn_Write now clock txs c (l_heap l ! p) b))) l)"
  using listener_inv_update [OF assms(1)] session_inv_handled heap_inv [OF assms] by auto

section \<open>Closing the listener\<close>

lemma invokeClosed_entry: "entry_ok h k p \<Longrightarrow> fst (invokeClosed (forceCloseLocked (h ! p)))"
  by (auto simp: entry_ok_def invokeClosed_def forceCloseLocked_def session_flag_defs)

lemma Listener_Close_blocks_iff:
  assumes "listener_inv l" "\<not> l_closed l" "l_sessions l = Some tbl"
  shows "Listener_Close l = Blocks \<longleftrightarrow> tbl \<noteq> []"
proof (cases tbl)
  case Nil
  then show ?thesis using assms by (simp add: Listener_Close_def)
next
  case (Cons kp rest)
  obtain k p where kp: "kp = (k, p)" by (cases kp)
  then have "entry_ok (l_heap l) k p" using table_entry [OF assms(1,3), of k p] Cons by simp
  then have "fst (invokeClosed (forceCloseLocked (l_heap l ! p)))" by (rule invokeClosed_entry)
  then show ?thesis using assms Cons kp by (simp add: Listener_Close_def case_prod_beta)
qed

lemma listener_inv_Close:
  assumes "listener_inv l" "Listener_Close l = Returns l'"
  shows "listener_inv l'"
proof (cases "l_closed l \<or> l_sessions l = None")
  case True
  then show ?thesis using assms by (auto simp: Listener_Close_def listener_inv_def split: if_splits option.splits)
next
  case False
  then obtain tbl where tbl: "l_sessions l = Some tbl" "\<not> l_closed l" by auto
  then have "tbl = []" using Listener_Close_blocks_iff [OF assms(1)] assms(2) by auto
  then show ?thesis using assms tbl by (auto simp: Listener_Close_def listener_inv_def)
qed

lemma Listener_Close_closed: "Listener_Close l = Returns l' \<Longrightarrow> l_closed l'"
  by (auto simp: Listener_Close_def split: if_splits option.splits outcome.splits)

text \<open>A \<open>Close\<close> that blocks has closed the first session of the table, and no other.\<close>

lemma Listener_Close_left:
  assumes "listener_inv l" "Listener_Close l = Blocks"
  shows "\<exists>k q tbl. \<not> l_closed l \<and> l_sessions l = Some ((k, q) # tbl) \<and>
    (let h = close_blocked ((k, q) # tbl) (l_heap l) in
       length h = length (l_heap l) \<and> (\<forall>s \<in> set h. session_inv s) \<and> s_closed (h ! q) \<and> s_closeCb (h ! q) \<and>
       (\<forall>j. j \<noteq> q \<longrightarrow> h ! j = l_heap l ! j))"
proof -
  from assms(2) obtain tbl where tbl: "\<not> l_closed l" "l_sessions l = Some tbl"
    by (auto simp: Listener_Close_def split: if_splits option.splits)
  then obtain k q rest where c: "tbl = (k, q) # rest"
    using Listener_Close_blocks_iff [OF assms(1) tbl] assms(2) by (cases tbl) auto
  have e: "entry_ok (l_heap l) k q" using table_entry [OF assms(1) tbl(2)] c by simp
  then have q: "q < length (l_heap l)" by (simp add: entry_ok_def)
  let ?s = "snd (invokeClosed (forceCloseLocked (l_heap l ! q)))"
  have h: "close_blocked ((k, q) # rest) (l_heap l) = (l_heap l)[q := ?s]"
    using invokeClosed_entry [OF e] by (simp add: case_prod_beta)
  have s: "s_closed ?s" "s_closeCb ?s" "session_inv ?s"
    using e heap_inv [OF assms(1) q] session_inv_forceCloseLocked [of "l_heap l ! q"]
    by (auto simp: entry_ok_def invokeClosed_def forceCloseLocked_def session_flag_defs session_inv_def)
  show ?thesis
    using tbl c q s session_inv_list_update [of "l_heap l" ?s q] assms(1)
    by (intro exI [of _ k] exI [of _ q] exI [of _ rest]) (simp add: h Let_def listener_inv_def del: close_blocked.simps)
qed

section \<open>Dialing\<close>

text \<open>
  \<open>DialTimeout\<close>, after the socket is open: the session, its first SYN, then the loop of the
  handshake. The loop is a \<open>select\<close> over three channels; the caller supplies which one fires.
  \<open>shutdown\<close> forces the session closed and closes the socket.
\<close>

datatype dial_event = HandshakeDone | CtxDone go_error | SynTick int

datatype dial_result = Dialed session | DialFailed go_error session | DialLoops session "datagram list"

definition dial_session :: "64 word \<Rightarrow> net_addr \<Rightarrow> int \<Rightarrow> session" where
  "dial_session raw raddr now = newSession (if raw = 0 then 1 else raw) True (Some raddr) now"

definition dial_shutdown :: "session \<Rightarrow> session" where
  "dial_shutdown s = forceCloseLocked s"

definition dial_syn :: "go_error option \<Rightarrow> session \<Rightarrow> dial_result" where
  "dial_syn tx s =
     (case writePacket tx s TypeSYN 0 0 [] of
        (Some e, _) \<Rightarrow> DialFailed e (dial_shutdown s)
      | (None, out) \<Rightarrow> DialLoops s out)"

definition dial_deadline :: "int \<Rightarrow> int \<Rightarrow> int option \<Rightarrow> int" where
  "dial_deadline now timeout ctx_dl =
     (case ctx_dl of Some dl \<Rightarrow> (if dl < now + timeout then dl else now + timeout) | None \<Rightarrow> now + timeout)"

definition dial_select :: "go_error option \<Rightarrow> int \<Rightarrow> string \<Rightarrow> session \<Rightarrow> dial_event \<Rightarrow> dial_result" where
  "dial_select tx deadline address s ev =
     (case ev of
        HandshakeDone \<Rightarrow> Dialed s
      | CtxDone e \<Rightarrow> DialFailed e (dial_shutdown s)
      | SynTick now \<Rightarrow>
          if now > deadline
          then DialFailed (ErrText (''udptunnel: dial '' @ address @ '': handshake timeout'')) (dial_shutdown s)
          else DialLoops s (snd (writePacket tx s TypeSYN 0 0 [])))"

text \<open>An event that can fire in the session's state: the handshake channel must be closed.\<close>

definition dial_ready :: "session \<Rightarrow> dial_event \<Rightarrow> bool" where
  "dial_ready s ev = (case ev of HandshakeDone \<Rightarrow> s_handshake s | _ \<Rightarrow> True)"

text \<open>
  One turn of the dialer's read goroutine, with what \<open>ReadFrom\<close> returned. \<open>None\<close>: it exits.
\<close>

datatype dial_read = GotDatagram bytes net_addr | ReadTimeout | ReadFailed

definition dial_read_body ::
  "int \<Rightarrow> go_error option \<Rightarrow> bool \<Rightarrow> dial_read \<Rightarrow> session \<Rightarrow> (session \<times> datagram list) \<times> bool" where
  "dial_read_body now tx stop r s =
     (if stop then ((s, []), False)
      else case r of
        ReadTimeout \<Rightarrow> if s_closed s then ((s, []), False) else (retransmitTick now tx s, True)
      | ReadFailed \<Rightarrow> ((dial_shutdown s, []), False)
      | GotDatagram d addr \<Rightarrow>
          (case Decode d of
             Some (Inr f) \<Rightarrow>
               if f_session f \<noteq> s_id s then ((s, []), True)
               else (case onPacket now tx f (Some addr) s of (s', out, _) \<Rightarrow>
                       if f_type f = TypeRST then ((dial_shutdown s', out), False) else ((s', out), True))
           | _ \<Rightarrow> ((s, []), True)))"

section \<open>Properties\<close>

definition demo_listener :: listener where
  "demo_listener = fst (dispatch 0 None \<lparr>f_type = TypeSYN, f_session = 7, f_seq = 0, f_ack = 0, f_payload = []\<rparr>
     ''a'' (ListenPacket ''l''))"

lemma demo_listener_state:
  "listener_inv demo_listener" "l_sessions demo_listener = Some [(7, 0)]" "\<not> l_closed demo_listener"
proof -
  show "listener_inv demo_listener"
    unfolding demo_listener_def by (rule listener_inv_dispatch [OF listener_inv_ListenPacket])
qed (simp_all add: demo_listener_def dispatch_def dispatch_syn_def ListenPacket_def tunnel_types MaxSessions_def
      acceptCap_def Let_def)

text \<open>(C36)
  The listener stays sound: an empty listener is, and dispatching any datagram from any address, the
  tick that retransmits, the tick that drops idle sessions, accepting, reading and writing a
  connection, closing it, and a close of the listener that returns keep at most 256 sessions under
  distinct identifiers, at most 32 connections waiting to be accepted, every open session in the table
  under its own identifier (so its datagrams reach it), and the window invariant of every session. A
  close of the listener that blocks leaves the table, has closed its first session and has changed no other.\<close>

theorem listener_invariant:
  "listener_inv (ListenPacket local) \<and>
   (listener_inv l \<longrightarrow>
      listener_inv (fst (readLoop_body now tx d addr l)) \<and>
      listener_inv (fst (timer_tick now tx l)) \<and>
      listener_inv (idle_tick now l) \<and>
      (\<forall>(r, l') \<in> AcceptContext_results ctx l. listener_inv l') \<and>
      (p < length (l_heap l) \<longrightarrow>
         listener_inv (l_update p (snd (Conn_Read now k c (l_heap l ! p))) l) \<and>
         listener_inv (l_update p (fst (snd (Conn_Write now clock txs c (l_heap l ! p) b))) l) \<and>
         listener_inv (fst (app_close tx p l))) \<and>
      (\<forall>l'. Listener_Close l = Returns l' \<longrightarrow> listener_inv l' \<and> l_closed l') \<and>
      (Listener_Close l = Blocks \<longrightarrow>
         (\<exists>j q tbl. \<not> l_closed l \<and> l_sessions l = Some ((j, q) # tbl) \<and>
            (let h = close_blocked ((j, q) # tbl) (l_heap l) in
               length h = length (l_heap l) \<and> (\<forall>s \<in> set h. session_inv s) \<and> s_closed (h ! q) \<and> s_closeCb (h ! q) \<and>
               (\<forall>i. i \<noteq> q \<longrightarrow> h ! i = l_heap l ! i)))))"
proof (intro conjI impI)
  show "listener_inv (ListenPacket local)" by (rule listener_inv_ListenPacket)
  assume l: "listener_inv l"
  show "listener_inv (fst (readLoop_body now tx d addr l))"
    using l by (simp add: readLoop_body_def listener_inv_dispatch split: option.split sum.split)
  show "listener_inv (fst (timer_tick now tx l))" "listener_inv (idle_tick now l)"
    using l by (simp_all add: listener_inv_timer_tick listener_inv_idle_tick)
  show "\<forall>(r, l') \<in> AcceptContext_results ctx l. listener_inv l'" using listener_inv_Accept [OF l] by blast
  show "\<forall>l'. Listener_Close l = Returns l' \<longrightarrow> listener_inv l' \<and> l_closed l'"
    using listener_inv_Close [OF l] Listener_Close_closed by blast
  { assume p: "p < length (l_heap l)"
    show "listener_inv (l_update p (snd (Conn_Read now k c (l_heap l ! p))) l)"
      "listener_inv (l_update p (fst (snd (Conn_Write now clock txs c (l_heap l ! p) b))) l)"
      "listener_inv (fst (app_close tx p l))"
      using listener_inv_handled [OF l p] listener_inv_app_close [OF l p] by simp_all }
  { assume "Listener_Close l = Blocks"
    from Listener_Close_left [OF l this] show "\<exists>j q tbl. \<not> l_closed l \<and> l_sessions l = Some ((j, q) # tbl) \<and>
            (let h = close_blocked ((j, q) # tbl) (l_heap l) in
               length h = length (l_heap l) \<and> (\<forall>s \<in> set h. session_inv s) \<and> s_closed (h ! q) \<and> s_closeCb (h ! q) \<and>
               (\<forall>i. i \<noteq> q \<longrightarrow> h ! i = l_heap l ! i))" . }
qed

text \<open>On a listener with a session.\<close>

theorem listener_invariant_witness:
  "listener_inv (fst (timer_tick 5 None demo_listener)) \<and> listener_inv (idle_tick 60000000001 demo_listener) \<and>
   listener_inv (l_update 0 (fst (snd (Conn_Write 5 (\<lambda>_. 5) (\<lambda>_. None) (newConn ''l'' ''a'') (l_heap demo_listener ! 0) [1, 2]))) demo_listener) \<and>
   listener_inv (fst (app_close None 0 demo_listener)) \<and>
   s_closed (close_blocked [(7, 0)] (l_heap demo_listener) ! 0)"
proof -
  have p: "0 < length (l_heap demo_listener)" using demo_listener_state(1,2) by (auto simp: listener_inv_def table_ok_def entry_ok_def)
  have b: "Listener_Close demo_listener = Blocks"
    using Listener_Close_blocks_iff [OF demo_listener_state(1,3,2)] by simp
  show ?thesis
    using listener_invariant [where l = demo_listener and now = 5 and tx = None and p = 0 and c = "newConn ''l'' ''a''" and
        clock = "\<lambda>_. 5" and txs = "\<lambda>_. None" and b = "[1, 2]", THEN conjunct2, THEN mp, OF demo_listener_state(1)]
      listener_invariant [where l = demo_listener and now = 60000000001, THEN conjunct2, THEN mp, OF demo_listener_state(1)] p b demo_listener_state(2)
    by (simp add: Let_def del: close_blocked.simps)
qed

text \<open>\<open>Listener.Close\<close> deadlocks on any listener with a session: it holds the listener's mutex while
  it runs the close callback of the first session, and the callback, \<open>removeSession\<close>, locks that
  mutex; with an empty table it returns. The socket is closed but the table is never dropped.\<close>

theorem Listener_Close_deadlock:
  assumes "listener_inv l" "\<not> l_closed l" "l_sessions l = Some tbl"
  shows "(Listener_Close l = Blocks \<longleftrightarrow> tbl \<noteq> []) \<and>
         (tbl = [] \<longrightarrow> Listener_Close l = Returns (l\<lparr>l_closed := True, l_sessions := None\<rparr>))"
  using Listener_Close_blocks_iff [OF assms] assms by (auto simp: Listener_Close_def)

theorem Listener_Close_deadlock_witness: "Listener_Close demo_listener = Blocks"
  using Listener_Close_deadlock [OF demo_listener_state(1,3,2)] by simp

text \<open>Dispatch by cases, and isolation. A PING is answered by a PONG with its sequence number in any
  state. A SYN for a new identifier creates one session, queues one connection and answers SYNACK
  when there is room in the table and in the queue, and is answered by RST otherwise, leaving table
  and queue alone. Other frames for an unknown identifier do nothing. And no frame changes a
  session of another identifier.\<close>

theorem dispatch_behaviour:
  assumes "listener_inv l" "l_sessions l = Some tbl" "dispatch now tx f addr l = (l', out)"
  shows "(f_type f = TypePING \<longrightarrow> l' = l \<and> out = control_frame TypePONG (f_session f) (f_seq f) addr) \<and>
    (f_type f = TypeSYN \<and> map_of tbl (f_session f) = None \<longrightarrow>
       (if length tbl < MaxSessions \<and> length (l_accept l) < acceptCap
        then l_sessions l' = Some (tbl @ [(f_session f, length (l_heap l))]) \<and>
             l_accept l' = l_accept l @ [(length (l_heap l), newConn (l_localAddr l) addr)] \<and>
             out = (addr, frame_bytes \<lparr>f_type = TypeSYNACK, f_session = f_session f, f_seq = 0, f_ack = 0, f_payload = []\<rparr>) # []
        else l_sessions l' = Some tbl \<and> l_accept l' = l_accept l \<and> out = control_frame TypeRST (f_session f) 0 addr)) \<and>
    (f_type f \<notin> {TypePING, TypeSYN} \<and> map_of tbl (f_session f) = None \<longrightarrow> l' = l \<and> out = []) \<and>
    (\<forall>q < length (l_heap l). s_id (l_heap l ! q) \<noteq> f_session f \<longrightarrow> l_heap l' ! q = l_heap l ! q)"
proof (intro conjI impI)
  show "f_type f = TypePING \<Longrightarrow> l' = l" "f_type f = TypePING \<Longrightarrow> out = control_frame TypePONG (f_session f) (f_seq f) addr"
    using assms(3) by (simp_all add: dispatch_def)
next
  assume "f_type f = TypeSYN \<and> map_of tbl (f_session f) = None"
  then show "if length tbl < MaxSessions \<and> length (l_accept l) < acceptCap
        then l_sessions l' = Some (tbl @ [(f_session f, length (l_heap l))]) \<and>
             l_accept l' = l_accept l @ [(length (l_heap l), newConn (l_localAddr l) addr)] \<and>
             out = (addr, frame_bytes \<lparr>f_type = TypeSYNACK, f_session = f_session f, f_seq = 0, f_ack = 0, f_payload = []\<rparr>) # []
        else l_sessions l' = Some tbl \<and> l_accept l' = l_accept l \<and> out = control_frame TypeRST (f_session f) 0 addr"
    using assms(2,3)
    by (auto simp: dispatch_def dispatch_syn_def tunnel_types Let_def writePacket_def newSession_def
        Encode_frame_bytes split: if_splits)
next
  assume "f_type f \<notin> {TypePING, TypeSYN} \<and> map_of tbl (f_session f) = None"
  then show "l' = l" "out = []" using assms(2,3) by (simp_all add: dispatch_def)
next
  have cell: "p \<noteq> q" if "map_of tbl (f_session f) = Some p" "s_id (l_heap l ! q) \<noteq> f_session f" for p q
    using table_entry [OF assms(1,2) map_of_SomeD [OF that(1)]] that(2) by (auto simp: entry_ok_def)
  show "\<forall>q < length (l_heap l). s_id (l_heap l ! q) \<noteq> f_session f \<longrightarrow> l_heap l' ! q = l_heap l ! q"
    using assms(2,3) cell
    by (auto simp: dispatch_def dispatch_syn_def Let_def l_update_def removeSession_def nth_append
        split: if_splits option.splits prod.splits)
qed

theorem dispatch_behaviour_witness:
  "fst (dispatch 1 None \<lparr>f_type = TypeDATA, f_session = 8, f_seq = 0, f_ack = 0, f_payload = [1]\<rparr> ''b'' demo_listener)
   = demo_listener"
  using dispatch_behaviour [OF demo_listener_state(1,2), of 1 None
      "\<lparr>f_type = TypeDATA, f_session = 8, f_seq = 0, f_ack = 0, f_payload = [1]\<rparr>" "''b''"]
  by (auto simp: tunnel_types prod_eq_iff)

text \<open>A refused dial is reported as a success: after a RST for its session the dialer's session is
  closed, and the handshake channel, which \<open>forceCloseLocked\<close> closes, is the one that fires, so
  \<open>DialTimeout\<close> returns a connection whose first write fails and whose first read is end-of-file.
  A SYNACK leaves the session open.\<close>

theorem dial_rst_is_success:
  assumes "\<not> s_closed s" "Decode d = Some (Inr f)" "f_session f = s_id s"
    "dial_read_body now tx False (GotDatagram d addr) s = ((s', out), go_on)"
  shows "(f_type f = TypeRST \<longrightarrow>
            dial_ready s' HandshakeDone \<and> dial_select tx' dl address s' HandshakeDone = Dialed s' \<and>
            s_closed s' \<and> \<not> go_on \<and>
            (b \<noteq> [] \<longrightarrow> fst (session_write clock txs 0 s' b 0) = WroteReturn 0 (Some NetErrClosed))) \<and>
         (f_type f = TypeSYNACK \<longrightarrow> dial_ready s' HandshakeDone \<and> \<not> s_closed s' \<and> go_on)"
proof (intro conjI)
  have closed: "fst (session_write clock txs 0 u b 0) = WroteReturn 0 (Some NetErrClosed)"
    if "b \<noteq> []" "s_closed u" for u
    using that by (subst session_write.simps) (simp add: write_chunk_locked_def)
  show "f_type f = TypeRST \<longrightarrow>
            dial_ready s' HandshakeDone \<and> dial_select tx' dl address s' HandshakeDone = Dialed s' \<and>
            s_closed s' \<and> \<not> go_on \<and>
            (b \<noteq> [] \<longrightarrow> fst (session_write clock txs 0 s' b 0) = WroteReturn 0 (Some NetErrClosed))"
    using assms closed [of s']
    by (auto simp: dial_read_body_def onPacket_def onPacket_locked_def forceCloseLocked_def session_flag_defs
        invokeClosed_def dial_shutdown_def dial_ready_def dial_select_def tunnel_types split: if_splits)
  show "f_type f = TypeSYNACK \<longrightarrow> dial_ready s' HandshakeDone \<and> \<not> s_closed s' \<and> go_on"
    using assms
    by (auto simp: dial_read_body_def onPacket_def onPacket_locked_def session_flag_defs consumeAckLocked_def
        dial_ready_def tunnel_types Let_def split: if_splits)
qed

theorem dial_rst_is_success_witness:
  "s_closed (fst (fst (dial_read_body 1 None False (GotDatagram
     (frame_bytes \<lparr>f_type = TypeRST, f_session = 7, f_seq = 0, f_ack = 0, f_payload = []\<rparr>) ''s'') (dial_session 7 ''s'' 0))))"
proof -
  let ?f = "\<lparr>f_type = TypeRST, f_session = 7, f_seq = 0, f_ack = 0, f_payload = []\<rparr>"
  have "Decode (frame_bytes ?f) = Some (Inr ?f)" using Decode_frame_bytes [of ?f "[]"] by simp
  then show ?thesis
    using dial_rst_is_success [of "dial_session 7 ''s'' 0" "frame_bytes ?f" ?f 1 None "''s''"]
    by (cases "dial_read_body 1 None False (GotDatagram (frame_bytes ?f) ''s'') (dial_session 7 ''s'' 0)")
       (auto simp: dial_session_def newSession_def)
qed

end
