(* ===== verification/TunnelDial.thy ===== *)
theory TunnelDial
  imports Listener
begin

text \<open>
  Dialling a tunnel as a whole (common/udptunnel/dial.go): \<open>DialTimeout\<close>, in which the loop that waits
  for the handshake and the goroutine that reads the socket interleave, the connection it returns
  (\<open>clientConn\<close>), and \<open>ProbeRTT\<close>.

  A dial runs on a sequence of steps of the two. The results of resolving the address and of opening
  the socket are arguments; a step that cannot happen in its state is passed over.
\<close>

section \<open>Dialling\<close>

datatype dial_step = ReaderStep int "go_error option" dial_read | WaitStep "go_error option" dial_event

text \<open>\<open>cl_done\<close>: the \<open>sync.Once\<close> of \<open>Close\<close> has run.\<close>

record client_conn =
  cl_sess :: session
  cl_done :: bool

datatype dial_outcome = DialOk client_conn | DialErr go_error | DialShut go_error session | DialWaits session

fun DialTimeout_loop ::
  "int \<Rightarrow> string \<Rightarrow> dial_step list \<Rightarrow> bool \<Rightarrow> session \<Rightarrow> dial_outcome \<times> datagram list" where
  "DialTimeout_loop deadline address [] reading s = (DialWaits s, [])"
| "DialTimeout_loop deadline address (ReaderStep now tx r # steps) reading s =
     (if reading then
        (case dial_read_body now tx False r s of
           ((s', out), goon) \<Rightarrow> map_prod id (\<lambda>out'. out @ out') (DialTimeout_loop deadline address steps goon s'))
      else DialTimeout_loop deadline address steps reading s)"
| "DialTimeout_loop deadline address (WaitStep tx ev # steps) reading s =
     (if dial_ready s ev then
        (case dial_select tx deadline address s ev of
           Dialed s' \<Rightarrow> (DialOk \<lparr>cl_sess = s', cl_done = False\<rparr>, [])
         | DialFailed e s' \<Rightarrow> (DialShut e s', [])
         | DialLoops s' out \<Rightarrow> map_prod id (\<lambda>out'. out @ out') (DialTimeout_loop deadline address steps reading s'))
      else DialTimeout_loop deadline address steps reading s)"

definition DialTimeout ::
  "go_error + net_addr \<Rightarrow> go_error option \<Rightarrow> 64 word \<Rightarrow> int \<Rightarrow> int \<Rightarrow> int option \<Rightarrow> go_error option \<Rightarrow> string \<Rightarrow> dial_step list \<Rightarrow>
   dial_outcome \<times> datagram list" where
  "DialTimeout resolved listenErr raw now timeout ctx_dl tx address steps =
     (case resolved of
        Inl e \<Rightarrow> (DialErr e, [])
      | Inr raddr \<Rightarrow>
          (case listenErr of
             Some e \<Rightarrow> (DialErr e, [])
           | None \<Rightarrow>
               (case dial_syn tx (dial_session raw raddr now) of
                  DialFailed e s \<Rightarrow> (DialShut e s, [])
                | Dialed s \<Rightarrow> (DialOk \<lparr>cl_sess = s, cl_done = False\<rparr>, [])
                | DialLoops s out \<Rightarrow>
                    map_prod id (\<lambda>out'. out @ out')
                      (DialTimeout_loop (dial_deadline now timeout ctx_dl) address steps True s))))"

definition Dial where
  "Dial resolved listenErr raw now ctx_dl tx address steps =
     DialTimeout resolved listenErr raw now DefaultDialTimeout ctx_dl tx address steps"

definition clientConn_Close :: "go_error option \<Rightarrow> client_conn \<Rightarrow> client_conn \<times> datagram list" where
  "clientConn_Close tx c =
     (if cl_done c then (c, [])
      else (case session_close tx (cl_sess c) of
              (s, out, _) \<Rightarrow> (\<lparr>cl_sess = dial_shutdown s, cl_done = True\<rparr>, out)))"

section \<open>Probing\<close>

text \<open>
  \<open>ProbeRTT\<close>, on what \<open>ReadFrom\<close> returns and when; the deadline of the socket is one of the errors.
  Without a result the call still waits.
\<close>

fun probe_loop :: "int \<Rightarrow> 64 word \<Rightarrow> (int \<times> (go_error + bytes)) list \<Rightarrow> (go_error + int) option" where
  "probe_loop start sid [] = None"
| "probe_loop start sid ((now, r) # rs) =
     (case r of
        Inl e \<Rightarrow> Some (Inl e)
      | Inr d \<Rightarrow>
          (case Decode (take (HeaderSize + 64) d) of
             Some (Inr f) \<Rightarrow>
               if f_type f = TypePONG \<and> f_session f = sid then Some (Inr (now - start)) else probe_loop start sid rs
           | _ \<Rightarrow> probe_loop start sid rs))"

definition ProbeRTT ::
  "go_error + net_addr \<Rightarrow> go_error option \<Rightarrow> 64 word \<Rightarrow> go_error option \<Rightarrow> int \<Rightarrow> (int \<times> (go_error + bytes)) list \<Rightarrow>
   (go_error + int) option \<times> datagram list" where
  "ProbeRTT resolved listenErr sid tx start reads =
     (case resolved of
        Inl e \<Rightarrow> (Some (Inl e), [])
      | Inr raddr \<Rightarrow>
          (case listenErr of
             Some e \<Rightarrow> (Some (Inl e), [])
           | None \<Rightarrow>
               (case EncodeAlloc \<lparr>f_type = TypePING, f_session = sid, f_seq = 1, f_ack = 0, f_payload = []\<rparr> of
                  Inl e \<Rightarrow> (Some (Inl e), [])
                | Inr b \<Rightarrow>
                    (case tx of
                       Some e \<Rightarrow> (Some (Inl e), [])
                     | None \<Rightarrow> (probe_loop start sid reads, [(raddr, b)])))))"

section \<open>What they guarantee\<close>

text \<open>A dial that fails after its session was made has closed it; a dial that succeeds had its handshake signalled.\<close>

lemma dial_shutdown_closed [simp]: "s_closed (dial_shutdown s)"
  by (simp add: dial_shutdown_def forceCloseLocked_def session_flag_defs)

fun outcome_ok :: "dial_outcome \<Rightarrow> bool" where
  "outcome_ok (DialOk c) = (s_handshake (cl_sess c) \<and> \<not> cl_done c)"
| "outcome_ok (DialShut e s) = s_closed s"
| "outcome_ok _ = True"

lemma DialTimeout_loop_ok: "outcome_ok (fst (DialTimeout_loop deadline address steps reading s))"
proof (induction deadline address steps reading s rule: DialTimeout_loop.induct)
  case (2 deadline address now tx r0 steps reading s)
  then show ?case by (auto split: prod.splits if_splits)
next
  case (3 deadline address tx ev steps reading s)
  show ?case
  proof (cases "dial_ready s ev")
    case True
    then show ?thesis
      using 3 by (cases ev) (auto simp: dial_select_def dial_ready_def split: if_splits)
  next
    case False
    then show ?thesis using 3 by simp
  qed
qed auto

lemma DialTimeout_ok: "outcome_ok (fst (DialTimeout resolved listenErr raw now timeout ctx_dl tx address steps))"
proof -
  have syn: "dial_syn tx s \<noteq> Dialed s'" "dial_syn tx s = DialFailed e s' \<Longrightarrow> s_closed s'" for s s' e
    by (auto simp: dial_syn_def split: option.splits prod.splits)
  show ?thesis
    unfolding DialTimeout_def
    using syn DialTimeout_loop_ok by (auto split: sum.split option.split dial_result.split)
qed

text \<open>Once the deadline has passed, the next tick of the resend timer ends the dial.\<close>

lemma DialTimeout_ends:
  "now > deadline \<Longrightarrow> \<exists>e. fst (DialTimeout_loop deadline address (WaitStep tx (SynTick now) # steps) reading s) = DialShut e (dial_shutdown s)"
  by (simp add: dial_ready_def dial_select_def)

lemma clientConn_Close_once:
  "clientConn_Close tx c = (c', out) \<Longrightarrow> cl_done c' \<and> clientConn_Close tx' c' = (c', [])"
  by (auto simp: clientConn_Close_def split: if_splits prod.splits)

text \<open>A probe is answered by the first PONG with its session, and by nothing else.\<close>

lemma probe_loop_sound:
  "probe_loop start sid rs = Some (Inr rtt) \<Longrightarrow>
   \<exists>now d f. (now, Inr d) \<in> set rs \<and> Decode (take (HeaderSize + 64) d) = Some (Inr f) \<and> f_type f = TypePONG \<and>
     f_session f = sid \<and> rtt = now - start"
proof (induction rs)
  case (Cons a rs)
  obtain now r where a: "a = (now, r)" by (cases a)
  show ?case
  proof (cases r)
    case (Inr d)
    show ?thesis
    proof (cases "\<exists>f. Decode (take (HeaderSize + 64) d) = Some (Inr f) \<and> f_type f = TypePONG \<and> f_session f = sid")
      case True
      then show ?thesis using Cons.prems a Inr by fastforce
    next
      case False
      then have "probe_loop start sid rs = Some (Inr rtt)" using Cons.prems a Inr by (auto split: option.splits sum.splits if_splits)
      from Cons.IH [OF this] show ?thesis by auto
    qed
  qed (use Cons a in auto)
qed simp

end
