(* ===== verification/VarInts.thy ===== *)
theory VarInts
  imports Buffers
begin

text \<open>
  Minecraft variable-length integers (common/mcprotocol/varint.go). \<open>int32\<close> values are
  32-bit words read with \<open>sint\<close>; \<open>PutVarInt\<close>, the branch-per-length encoder with its 16- and
  32-bit stores, is shown equal to the textbook seven-bits-at-a-time encoding \<open>leb128\<close>, and
  \<open>ReadVarIntFrom\<close> to invert it on every byte source.
\<close>

definition MaxVarIntLen :: nat where
  "MaxVarIntLen = 5"

text \<open>\<open>binary.LittleEndian.PutUint16\<close> and \<open>PutUint32\<close> into a slice; too short is a panic.\<close>

definition put_le :: "nat \<Rightarrow> bytes \<Rightarrow> 'a::len word \<Rightarrow> bytes option" where
  "put_le k bs w = (if k \<le> length bs then Some (put_at bs 0 (le_bytes k w)) else None)"

definition set_index :: "bytes \<Rightarrow> nat \<Rightarrow> byte \<Rightarrow> bytes option" where
  "set_index bs i x = (if i < length bs then Some (bs[i := x]) else None)"

definition PutVarInt :: "bytes \<Rightarrow> 32 word \<Rightarrow> (nat \<times> bytes) option" where
  "PutVarInt bs n =
    (let num = n in
     if num AND 0xFFFFFF80 = 0 then do {
       bs \<leftarrow> set_index bs 0 (ucast num);
       Some (1, bs)
     } else if num AND 0xFFFFC000 = 0 then do {
       let result = (ucast ((num AND 0x7F OR 0x80) OR push_bit 8 (drop_bit 7 num)) :: 16 word);
       bs \<leftarrow> put_le 2 bs result;
       Some (2, bs)
     } else if num AND 0xFFE00000 = 0 then do {
       bs \<leftarrow> set_index bs 2 (ucast (drop_bit 14 num));
       let startingBytes = (ucast ((num AND 0x7F OR 0x80) OR
             push_bit 8 (drop_bit 7 num AND 0x7F OR 0x80)) :: 16 word);
       bs \<leftarrow> put_le 2 bs startingBytes;
       Some (3, bs)
     } else if num AND 0xF0000000 = 0 then do {
       let result = (num AND 0x7F OR 0x80) OR push_bit 8 (drop_bit 7 num AND 0x7F OR 0x80) OR
             push_bit 16 (drop_bit 14 num AND 0x7F OR 0x80) OR push_bit 24 (drop_bit 21 num);
       bs \<leftarrow> put_le 4 bs result;
       Some (4, bs)
     } else do {
       bs \<leftarrow> set_index bs 4 (ucast (drop_bit 28 num));
       let startingBytes = (num AND 0x7F OR 0x80) OR push_bit 8 (drop_bit 7 num AND 0x7F OR 0x80) OR
             push_bit 16 (drop_bit 14 num AND 0x7F OR 0x80) OR
             push_bit 24 (drop_bit 21 num AND 0x7F OR 0x80);
       bs \<leftarrow> put_le 4 bs startingBytes;
       Some (5, bs)
     })"

definition VarIntLen :: "32 word \<Rightarrow> int" where
  "VarIntLen n =
     (if sint n < 0 then 5
      else if sint n < 2 ^ (7 * 1) then 1
      else if sint n < 2 ^ (7 * 2) then 2
      else if sint n < 2 ^ (7 * 3) then 3
      else if sint n < 2 ^ (7 * 4) then 4
      else 5)"

text \<open>\<open>VarInt.WriteTo\<close> writes through any \<open>io.Writer\<close>; \<open>WriteToBuffer\<close> extends the buffer.\<close>

definition VarInt_WriteTo :: "'w writer \<Rightarrow> 32 word \<Rightarrow> 'w \<Rightarrow> ((int \<times> go_error option) \<times> 'w) option" where
  "VarInt_WriteTo wr i w = do {
     (numWrite, vi) \<leftarrow> PutVarInt (replicate MaxVarIntLen 0) i;
     ((nn, err), w') \<leftarrow> wr (take numWrite vi) w;
     Some ((int nn, err), w')
   }"

text \<open>Stores through a slice that starts at \<open>off\<close> and has \<open>len\<close> bytes.\<close>

definition put_through :: "buffer \<Rightarrow> int \<Rightarrow> int \<Rightarrow> (bytes \<Rightarrow> ('r \<times> bytes) option) \<Rightarrow> buffer option" where
  "put_through b off len f = do {
     bs \<leftarrow> go_slice (b_arr b) off (off + len);
     (_, bs') \<leftarrow> f bs;
     Some (Buffer_fill b off bs')
   }"

definition VarInt_WriteToBuffer :: "buffer \<Rightarrow> 32 word \<Rightarrow> buffer option" where
  "VarInt_WriteToBuffer b i = do {
     (off, b') \<leftarrow> Buffer_Extend b (VarIntLen i);
     put_through b' off (VarIntLen i) (\<lambda>bs. PutVarInt bs i)
   }"

text \<open>
  \<open>ReadVarIntFrom\<close>: the loop continues while the last byte has its high bit set; the length
  check at its head uses \<open>n > MaxVarIntLen\<close>. \<open>n\<close> counts the bytes read.
\<close>

function ReadVarInt_loop ::
  "'s byte_reader \<Rightarrow> nat \<Rightarrow> 32 word \<Rightarrow> byte \<Rightarrow> 's \<Rightarrow> ((32 word \<times> nat \<times> go_error option) \<times> 's) option" where
  "ReadVarInt_loop rb n v sec s =
     (if sec AND 0x80 = 0 then Some ((v, n, None), s)
      else if n > MaxVarIntLen then Some ((0, n, Some ErrVarIntTooBig), s)
      else case rb s of
        None \<Rightarrow> None
      | Some ((sec, err), s') \<Rightarrow>
          (case err of
             Some e \<Rightarrow> Some ((0, n, Some e), s')
           | None \<Rightarrow> ReadVarInt_loop rb (Suc n) (v OR push_bit (7 * n) (ucast (sec AND 0x7F))) sec s'))"
  by pat_completeness auto
termination
  by (relation "measure (\<lambda>(rb, n, v, sec, s). 6 - n)") (auto simp: MaxVarIntLen_def)

declare ReadVarInt_loop.simps [simp del]

definition ReadVarIntFrom ::
  "'s byte_reader \<Rightarrow> 's \<Rightarrow> ((32 word \<times> nat \<times> go_error option) \<times> 's) option" where
  "ReadVarIntFrom rb s = ReadVarInt_loop rb 0 0 0x80 s"

section \<open>The reference encoding\<close>

lemma unat_drop_bit: "unat (drop_bit k (n :: 'a::len word)) = unat n div 2 ^ k"
proof -
  have "take_bit LENGTH('a) (unat n) = unat n"
    by (rule take_bit_nat_eq_self) (rule unsigned_less)
  then show ?thesis by (subst unsigned_drop_bit_eq) (simp add: drop_bit_eq_div)
qed

function leb128 :: "32 word \<Rightarrow> bytes" where
  "leb128 n = (if unat n < 128 then [ucast n] else ucast (n AND 0x7F OR 0x80) # leb128 (drop_bit 7 n))"
  by pat_completeness auto
termination
  by (relation "measure unat") (simp_all add: unat_drop_bit del: drop_bit_eq_div)

declare leb128.simps [simp del]

lemma unat_small_iff: "unat (n :: 'a::len word) < 2 ^ k \<longleftrightarrow> take_bit k n = n"
proof
  assume "unat n < 2 ^ k"
  then have "unat (take_bit k n) = unat n" by (simp add: unsigned_take_bit_eq take_bit_nat_eq_self)
  then show "take_bit k n = n" by (simp only: word_unat_eq_iff)
next
  assume "take_bit k n = n"
  then have "unat n = take_bit k (unat n)" by (metis unsigned_take_bit_eq)
  then show "unat n < 2 ^ k" by (metis take_bit_nat_less_exp)
qed

lemma high_bits_zero: "(n :: 'a::len word) AND NOT (mask k) = 0 \<longleftrightarrow> unat n < 2 ^ k"
  unfolding unat_small_iff
proof
  assume z: "n AND NOT (mask k) = 0"
  have "bit (n AND NOT (mask k)) i = (bit n i \<and> k \<le> i)" for i
    by (auto simp: bit_simps dest: bit_imp_le_length)
  then have "\<not> bit n i" if "k \<le> i" for i using z that by (metis bit_0_eq bot_apply bot_bool_def)
  then show "take_bit k n = n" by (intro bit_word_eqI) (auto simp: bit_simps, metis not_less)
next
  assume "take_bit k n = n"
  then have "n AND NOT (mask k) = take_bit k n AND NOT (mask k)" by simp
  also have "\<dots> = 0" by (rule bit_word_eqI) (auto simp: bit_simps)
  finally show "n AND NOT (mask k) = 0" .
qed

text \<open>The masks of the code, as ranges.\<close>

lemma PutVarInt_guards:
  fixes n :: "32 word"
  shows "n AND 0xFFFFFF80 = 0 \<longleftrightarrow> unat n < 2 ^ 7" "n AND 0xFFFFC000 = 0 \<longleftrightarrow> unat n < 2 ^ 14"
    "n AND 0xFFE00000 = 0 \<longleftrightarrow> unat n < 2 ^ 21" "n AND 0xF0000000 = 0 \<longleftrightarrow> unat n < 2 ^ 28"
proof -
  have "(0xFFFFFF80 :: 32 word) = NOT (mask 7)" "(0xFFFFC000 :: 32 word) = NOT (mask 14)"
    "(0xFFE00000 :: 32 word) = NOT (mask 21)" "(0xF0000000 :: 32 word) = NOT (mask 28)"
    by (simp_all add: mask_eq_exp_minus_1)
  then show "n AND 0xFFFFFF80 = 0 \<longleftrightarrow> unat n < 2 ^ 7" "n AND 0xFFFFC000 = 0 \<longleftrightarrow> unat n < 2 ^ 14"
    "n AND 0xFFE00000 = 0 \<longleftrightarrow> unat n < 2 ^ 21" "n AND 0xF0000000 = 0 \<longleftrightarrow> unat n < 2 ^ 28"
    by (simp_all only: high_bits_zero)
qed

text \<open>One group of seven bits with its continuation bit, as a byte.\<close>

definition group7 :: "32 word \<Rightarrow> nat \<Rightarrow> byte" where
  "group7 n i = ucast (drop_bit (7 * i) n AND 0x7F OR 0x80)"

lemma leb128_unfold:
  "unat n < 2 ^ 7 \<Longrightarrow> leb128 n = [ucast n]"
  "2 ^ 7 \<le> unat n \<Longrightarrow> unat n < 2 ^ 14 \<Longrightarrow> leb128 n = [group7 n 0, ucast (drop_bit 7 n)]"
  "2 ^ 14 \<le> unat n \<Longrightarrow> unat n < 2 ^ 21 \<Longrightarrow>
     leb128 n = [group7 n 0, group7 n 1, ucast (drop_bit 14 n)]"
  "2 ^ 21 \<le> unat n \<Longrightarrow> unat n < 2 ^ 28 \<Longrightarrow>
     leb128 n = [group7 n 0, group7 n 1, group7 n 2, ucast (drop_bit 21 n)]"
  "2 ^ 28 \<le> unat n \<Longrightarrow>
     leb128 n = [group7 n 0, group7 n 1, group7 n 2, group7 n 3, ucast (drop_bit 28 n)]"
proof -
  note d = unat_drop_bit leb128.simps [of n] leb128.simps [of "drop_bit 7 n"]
    leb128.simps [of "drop_bit 14 n"] leb128.simps [of "drop_bit 21 n"] leb128.simps [of "drop_bit 28 n"]
  have top: "unat n div 2 ^ 28 < 2 ^ 7"
  proof -
    have "unat n < 2 ^ LENGTH(32)" by (rule unsigned_less)
    then show ?thesis by simp
  qed
  show "unat n < 2 ^ 7 \<Longrightarrow> leb128 n = [ucast n]"
    by (simp add: d)
  show "2 ^ 7 \<le> unat n \<Longrightarrow> unat n < 2 ^ 14 \<Longrightarrow> leb128 n = [group7 n 0, ucast (drop_bit 7 n)]"
    by (simp add: d group7_def div_less_iff_less_mult del: drop_bit_eq_div)
  show "2 ^ 14 \<le> unat n \<Longrightarrow> unat n < 2 ^ 21 \<Longrightarrow>
     leb128 n = [group7 n 0, group7 n 1, ucast (drop_bit 14 n)]"
    by (simp add: d group7_def div_less_iff_less_mult)
  show "2 ^ 21 \<le> unat n \<Longrightarrow> unat n < 2 ^ 28 \<Longrightarrow>
     leb128 n = [group7 n 0, group7 n 1, group7 n 2, ucast (drop_bit 21 n)]"
    by (simp add: d group7_def div_less_iff_less_mult)
  show "2 ^ 28 \<le> unat n \<Longrightarrow>
     leb128 n = [group7 n 0, group7 n 1, group7 n 2, group7 n 3, ucast (drop_bit 28 n)]"
    using top by (simp add: d group7_def div_less_iff_less_mult)
qed

section \<open>The encoder\<close>

lemma bit_7F: "bit (0x7F :: 32 word) i \<longleftrightarrow> i < 7"
proof -
  have "(0x7F :: 32 word) = mask 7" by (simp add: mask_eq_exp_minus_1)
  then show ?thesis by (simp only: bit_mask_iff) auto
qed

lemma bit_80: "bit (0x80 :: 32 word) i \<longleftrightarrow> i = 7"
proof -
  have "(0x80 :: 32 word) = 2 ^ 7" by simp
  then show ?thesis by (simp only: bit_exp_iff) auto
qed

lemma ucast_below: "LENGTH('b) \<le> LENGTH('a) \<Longrightarrow> LENGTH('b) \<le> k \<Longrightarrow>
  (ucast ((a :: 'a::len word) OR push_bit k c) :: 'b::len word) = ucast a"
  by (rule bit_word_eqI) (auto simp: bit_simps)

lemma set_then_put:
  assumes "length ys = k" "k < length bs"
  shows "put_at (bs[k := x]) 0 ys = put_at bs 0 (ys @ [x])"
proof -
  have "drop k (bs[k := x]) = x # drop (Suc k) bs"
    using assms by (simp add: drop_update_swap Cons_nth_drop_Suc [symmetric])
  then show ?thesis using assms by (simp add: put_at_def)
qed

text \<open>The four multi-byte stores of the code, byte by byte.\<close>

lemma le_bytes_2: "le_bytes 2 w = [ucast w, ucast (drop_bit 8 w)]"
  by (simp add: numeral_2_eq_2)

lemma le_bytes_4:
  "le_bytes 4 w = [ucast w, ucast (drop_bit 8 w), ucast (drop_bit 16 w), ucast (drop_bit 24 w)]"
  by (simp add: numeral_eq_Suc)

text \<open>The masks are kept abstract in these, so that the simplifier does not fold them.\<close>

lemma group7_bits:
  assumes "\<And>i. bit (m :: 32 word) i \<longleftrightarrow> i < 7" "\<And>i. bit (h :: 32 word) i \<longleftrightarrow> i = 7"
  shows "le_bytes 2 (ucast ((a AND m OR h) OR push_bit 8 b) :: 16 word) = [ucast (a AND m OR h), ucast b]"
    "le_bytes 2 (ucast ((a AND m OR h) OR push_bit 8 (b AND m OR h)) :: 16 word)
       = [ucast (a AND m OR h), ucast (b AND m OR h)]"
    "le_bytes 4 ((a AND m OR h) OR push_bit 8 (b AND m OR h) OR push_bit 16 (c AND m OR h) OR push_bit 24 d)
       = [ucast (a AND m OR h), ucast (b AND m OR h), ucast (c AND m OR h), ucast d]"
  unfolding le_bytes_2 le_bytes_4
  by (auto intro!: bit_word_eqI simp: bit_simps assms)

lemmas store = group7_bits [OF bit_7F bit_80]

lemmas PutVarInt_unfold = PutVarInt_def Let_def put_le_def set_index_def store PutVarInt_guards

lemma PutVarInt_leb128:
  "PutVarInt bs n =
     (if length (leb128 n) \<le> length bs then Some (length (leb128 n), put_at bs 0 (leb128 n)) else None)"
proof -
  note d = leb128_unfold group7_def
  consider "unat n < 2 ^ 7" | "2 ^ 7 \<le> unat n" "unat n < 2 ^ 14" | "2 ^ 14 \<le> unat n" "unat n < 2 ^ 21"
    | "2 ^ 21 \<le> unat n" "unat n < 2 ^ 28" | "2 ^ 28 \<le> unat n"
    by linarith
  then show ?thesis
  proof cases
    case 1
    then show ?thesis
      unfolding PutVarInt_unfold using put_at_single [of 0 bs "ucast n"] by (cases bs) (auto simp: d)
  next
    case 2
    then show ?thesis unfolding PutVarInt_unfold by (simp add: d)
  next
    case 3
    then show ?thesis
      unfolding PutVarInt_unfold
      using set_then_put [of "[group7 n 0, group7 n 1]" 2 bs "ucast (drop_bit 14 n)"]
      by (simp add: d)
  next
    case 4
    then show ?thesis unfolding PutVarInt_unfold by (simp add: d)
  next
    case 5
    then show ?thesis
      unfolding PutVarInt_unfold
      using set_then_put [of "[group7 n 0, group7 n 1, group7 n 2, group7 n 3]" 4 bs "ucast (drop_bit 28 n)"]
      by (simp add: d)
  qed
qed

lemma sint_cases: "sint (n :: 32 word) = (if uint n < 2 ^ 31 then uint n else uint n - 2 ^ 32)"
proof -
  have b: "0 \<le> uint n" "uint n < 2 ^ 32" using unsigned_less [of n] by simp_all
  have s: "sint n = (uint n + 2 ^ 31) mod 2 ^ 32 - 2 ^ 31"
    by (simp add: sint_uint signed_take_bit_eq_take_bit_shift take_bit_eq_mod)
  show ?thesis
  proof (cases "uint n < 2 ^ 31")
    case True
    then show ?thesis using b s by simp
  next
    case False
    have "uint n + 2 ^ 31 = uint n - 2 ^ 31 + 2 ^ 32" by simp
    then have "(uint n + 2 ^ 31) mod 2 ^ 32 = (uint n - 2 ^ 31 + 2 ^ 32) mod 2 ^ 32" by (simp only:)
    also have "\<dots> = uint n - 2 ^ 31" using b False by (simp only: mod_add_self2) simp
    finally show ?thesis using False s by simp
  qed
qed

lemma VarIntLen_leb128: "VarIntLen n = int (length (leb128 n))"
proof -
  have u: "uint n = int (unat n)" "unat n < 2 ^ 32" using unsigned_less [of n] by simp_all
  consider "unat n < 2 ^ 7" | "2 ^ 7 \<le> unat n" "unat n < 2 ^ 14" | "2 ^ 14 \<le> unat n" "unat n < 2 ^ 21"
    | "2 ^ 21 \<le> unat n" "unat n < 2 ^ 28" | "2 ^ 28 \<le> unat n"
    by linarith
  then show ?thesis
    by cases (use u in \<open>simp_all add: VarIntLen_def sint_cases leb128_unfold del: int_nat_eq of_nat_unat\<close>)
qed

section \<open>The decoder\<close>

text \<open>The value of a sequence of bytes as the loop accumulates it, from position \<open>n\<close> on.\<close>

fun varint_value :: "nat \<Rightarrow> bytes \<Rightarrow> 32 word" where
  "varint_value n [] = 0"
| "varint_value n (b # bs) = push_bit (7 * n) (ucast (b AND 0x7F)) OR varint_value (Suc n) bs"

lemma bit_7F_byte: "bit (0x7F :: byte) i \<longleftrightarrow> i < 7"
proof -
  have "(0x7F :: byte) = mask 7" by (simp add: mask_eq_exp_minus_1)
  then show ?thesis by (simp only: bit_mask_iff) auto
qed

lemma bit_80_byte: "bit (0x80 :: byte) i \<longleftrightarrow> i = 7"
proof -
  have "(0x80 :: byte) = 2 ^ 7" by simp
  then show ?thesis by (simp only: bit_exp_iff) auto
qed

lemma small_word_bit:
  assumes "unat (m :: 32 word) < 128" "bit m i"
  shows "i < 7"
proof -
  have "take_bit 7 m = m" using assms unat_small_iff [of m 7] by simp
  then show ?thesis using assms(2) by (metis bit_take_bit_iff)
qed

lemma group_bits:
  fixes m :: "32 word"
  assumes "\<And>i. bit (a :: 32 word) i \<longleftrightarrow> i < 7" "\<And>i. bit (h :: 32 word) i \<longleftrightarrow> i = 7"
    "\<And>i. bit (a' :: byte) i \<longleftrightarrow> i < 7" "\<And>i. bit (h' :: byte) i \<longleftrightarrow> i = 7"
  shows "(ucast (m AND a OR h) :: byte) AND h' \<noteq> 0"
    "push_bit k (ucast ((ucast (m AND a OR h) :: byte) AND a')) OR push_bit (7 + k) (drop_bit 7 m)
       = push_bit k m"
    "unat m < 128 \<Longrightarrow> (ucast m :: byte) AND h' = 0"
    "unat m < 128 \<Longrightarrow> (ucast ((ucast m :: byte) AND a') :: 32 word) = m"
proof -
  have "bit ((ucast (m AND a OR h) :: byte) AND h') 7" by (simp add: bit_simps assms)
  then show "(ucast (m AND a OR h) :: byte) AND h' \<noteq> 0" by (metis bit_0_eq bot_apply bot_bool_def)
  show "push_bit k (ucast ((ucast (m AND a OR h) :: byte) AND a')) OR push_bit (7 + k) (drop_bit 7 m)
       = push_bit k m"
  proof (rule bit_word_eqI)
    fix n assume n: "n < LENGTH(32)"
    consider "n < k" | "k \<le> n" "n - k < 7" | j where "n = k + 7 + j"
      by (metis add.assoc le_Suc_ex linorder_not_less less_diff_conv2 add.commute)
    then show "bit (push_bit k (ucast ((ucast (m AND a OR h) :: byte) AND a')) OR
                 push_bit (7 + k) (drop_bit 7 m)) n = bit (push_bit k m) n"
      by cases (use n in \<open>auto simp: bit_simps assms\<close>)
  qed
  assume "unat m < 128"
  then have nb: "i < 7" if "bit m i" for i using small_word_bit that by blast
  have "\<not> bit ((ucast m :: byte) AND h') i" for i
    using nb [of i] by (auto simp: bit_simps assms)
  then show "(ucast m :: byte) AND h' = 0" by (intro bit_word_eqI) simp
  have "bit (ucast ((ucast m :: byte) AND a') :: 32 word) i = bit m i" if "i < 32" for i
    using nb [of i] that by (auto simp: bit_simps assms)
  then show "(ucast ((ucast m :: byte) AND a') :: 32 word) = m" by (intro bit_word_eqI) simp
qed

lemmas more_group = group_bits(1,2) [OF bit_7F bit_80 bit_7F_byte bit_80_byte]
lemmas last_group = group_bits(3,4) [OF bit_7F bit_80 bit_7F_byte bit_80_byte]

lemma length_leb128_le: "length (leb128 m) \<le> 5"
  using leb128_unfold [of m] by (cases "unat m < 2 ^ 7"; cases "unat m < 2 ^ 14"; cases "unat m < 2 ^ 21";
    cases "unat m < 2 ^ 28") auto

context byte_source
begin

lemma ReadVarInt_loop_leb128:
  "sec AND 0x80 \<noteq> 0 \<Longrightarrow> k + length (leb128 m) \<le> 6 \<Longrightarrow> inv s \<Longrightarrow> src s = leb128 m @ rest \<Longrightarrow>
   \<exists>s'. ReadVarInt_loop rb k v sec s = Some ((v OR push_bit (7 * k) m, k + length (leb128 m), None), s') \<and>
        src s' = rest \<and> inv s'"
proof (induction m arbitrary: k v sec s rule: leb128.induct)
  case (1 m)
  show ?case
  proof (cases "unat m < 128")
    case True
    then have l: "leb128 m = [ucast m]" by (simp add: leb128.simps [of m])
    with "1.prems" have "src s = ucast m # rest" by simp
    from rb_delivers [OF "1.prems"(3) this] obtain s' where
      r: "rb s = Some ((ucast m, None), s')" "src s' = rest" "inv s'" by blast
    have stop: "ReadVarInt_loop rb (Suc k) w (ucast m) s' = Some ((w, Suc k, None), s')" for w
      using last_group(1) [OF True] by (simp add: ReadVarInt_loop.simps)
    have "\<not> k > MaxVarIntLen" using "1.prems"(2) l by (simp add: MaxVarIntLen_def)
    then show ?thesis
      using r stop l "1.prems"(1) last_group(2) [OF True]
      by (subst ReadVarInt_loop.simps) simp
  next
    case False
    let ?b = "ucast (m AND 0x7F OR 0x80) :: byte"
    have l: "leb128 m = ?b # leb128 (drop_bit 7 m)" using False by (simp add: leb128.simps [of m])
    with "1.prems" have "src s = ?b # leb128 (drop_bit 7 m) @ rest" by simp
    from rb_delivers [OF "1.prems"(3) this] obtain s' where
      r: "rb s = Some ((?b, None), s')" "src s' = leb128 (drop_bit 7 m) @ rest" "inv s'" by blast
    have k: "\<not> k > MaxVarIntLen" "Suc k + length (leb128 (drop_bit 7 m)) \<le> 6"
      using "1.prems"(2) l by (simp_all add: MaxVarIntLen_def)
    let ?v = "v OR push_bit (7 * k) (ucast (?b AND 0x7F))"
    from "1.IH" [OF False more_group(1) k(2) r(3,2), of ?v] obtain s'' where
      rest: "ReadVarInt_loop rb (Suc k) ?v ?b s' =
        Some ((?v OR push_bit (7 * Suc k) (drop_bit 7 m), Suc k + length (leb128 (drop_bit 7 m)), None), s'')"
      "src s'' = rest" "inv s''" by blast
    have "?v OR push_bit (7 * Suc k) (drop_bit 7 m) = v OR push_bit (7 * k) m"
      using more_group(2) [of "7 * k" m] by (simp add: or.assoc)
    then show ?thesis
      using r(1) rest k(1) l "1.prems"(1) by (subst ReadVarInt_loop.simps) simp
  qed
qed

lemma ReadVarIntFrom_leb128:
  assumes "inv s" "src s = leb128 m @ rest"
  shows "\<exists>s'. ReadVarIntFrom rb s = Some ((m, length (leb128 m), None), s') \<and> src s' = rest \<and> inv s'"
  using ReadVarInt_loop_leb128 [of "0x80" 0 m s rest 0] assms length_leb128_le [of m]
  by (auto simp: ReadVarIntFrom_def)

lemma ReadVarInt_loop_cases:
  fixes s :: 's and n :: nat
  defines "k \<equiv> length (takeWhile (\<lambda>b. b AND 0x80 \<noteq> 0) (src s))"
  shows "inv s \<Longrightarrow> sec AND 0x80 \<noteq> 0 \<Longrightarrow> n + k < 6 \<Longrightarrow> k < length (src s) \<Longrightarrow>
     \<exists>s'. ReadVarInt_loop rb n v sec s =
            Some ((v OR varint_value n (take (Suc k) (src s)), n + Suc k, None), s') \<and>
          src s' = drop (Suc k) (src s) \<and> inv s'"
    and "inv s \<Longrightarrow> sec AND 0x80 \<noteq> 0 \<Longrightarrow> n \<le> 6 \<Longrightarrow> 6 \<le> n + k \<Longrightarrow>
     \<exists>s'. ReadVarInt_loop rb n v sec s = Some ((0, 6, Some ErrVarIntTooBig), s') \<and>
          src s' = drop (6 - n) (src s) \<and> inv s'"
proof (atomize (full), unfold k_def, induction "6 - n" arbitrary: n v sec s)
  case 0
  then show ?case by (auto simp: ReadVarInt_loop.simps [of rb 6 v sec s] MaxVarIntLen_def dest!: antisym)
next
  case (Suc d)
  then have n: "\<not> n > MaxVarIntLen" "d = 6 - Suc n" by (auto simp: MaxVarIntLen_def)
  show ?case
  proof (cases "src s")
    case Nil
    then show ?thesis using Suc.hyps(2) by auto
  next
    case (Cons b rest)
    show ?thesis
    proof (cases "inv s \<and> sec AND 0x80 \<noteq> 0")
      case True
      from rb_delivers [OF conjunct1 [OF True] Cons] obtain s' where
        r: "rb s = Some ((b, None), s')" "src s' = rest" "inv s'" by blast
      have step: "ReadVarInt_loop rb n v sec s =
          ReadVarInt_loop rb (Suc n) (v OR push_bit (7 * n) (ucast (b AND 0x7F))) b s'"
        using r(1) n(1) True by (subst ReadVarInt_loop.simps) simp
      show ?thesis
      proof (cases "b AND 0x80 = 0")
        case True
        then show ?thesis
          using r n Cons by (auto simp: step ReadVarInt_loop.simps [of rb "Suc n" _ b] MaxVarIntLen_def)
      next
        case False
        show ?thesis
          using Suc.hyps(1) [OF n(2), of s' b "v OR push_bit (7 * n) (ucast (b AND 0x7F))"] r n False Cons
            Suc.hyps(2) [symmetric]
          by (auto simp: step or.assoc MaxVarIntLen_def)
      qed
    qed auto
  qed
qed

end

section \<open>Properties\<close>

text \<open>\<open>PutVarInt\<close>, with its masks, length branches and 16/32-bit stores, writes exactly the
  seven-bit-group encoding at the front of the slice and returns its length (which is
  \<open>VarIntLen\<close>, from 1 to 5), and panics exactly when the slice is shorter.\<close>

theorem PutVarInt_correct:
  "PutVarInt bs n =
     (if VarIntLen n \<le> int (length bs)
      then Some (nat (VarIntLen n), leb128 n @ drop (nat (VarIntLen n)) bs) else None) \<and>
   VarIntLen n = int (length (leb128 n)) \<and> 1 \<le> VarIntLen n \<and> VarIntLen n \<le> 5"
proof -
  have "1 \<le> length (leb128 n)" by (subst leb128.simps) simp
  then show ?thesis
    using length_leb128_le [of n] unfolding PutVarInt_leb128 VarIntLen_leb128 put_at_def by simp
qed

lemma VarInt_WriteToBuffer_append:
  assumes "buf_wf b" "length (leb128 i) \<le> buf_free b"
  shows "VarInt_WriteToBuffer b i = Some (Buffer_absorb b (leb128 i))"
proof -
  let ?e = "nat (b_end b)" and ?l = "length (leb128 i)"
  have e: "0 \<le> b_end b" "?e + ?l \<le> length (b_arr b)" using assms by (auto simp: buffer_defs)
  have ext: "Buffer_Extend b (int ?l) = Some (b_end b, b\<lparr>b_end := b_end b + int ?l\<rparr>)"
    using e by (simp add: Buffer_Extend_def go_slice_def Let_def)
  have "go_slice (b_arr b) (b_end b) (b_end b + int ?l) = Some (take ?l (drop ?e (b_arr b)))"
    using e by (simp add: go_slice_def)
  moreover have "length (take ?l (drop ?e (b_arr b))) = ?l" using e by simp
  ultimately show ?thesis
    using ext e
    by (simp add: VarInt_WriteToBuffer_def VarIntLen_leb128 put_through_def PutVarInt_leb128
        Buffer_fill_def Buffer_absorb_def put_at_def)
qed

text \<open>Round trip through a buffer: with five free bytes, \<open>WriteToBuffer\<close> appends the encoding and
  \<open>ReadVarIntFrom\<close> on the result returns the same 32-bit value, its encoded length and no
  error, and leaves what follows unread.\<close>

theorem VarInt_roundtrip:
  assumes "buf_wf b" "buf_bytes b = []" "5 + length rest \<le> buf_free b"
  shows "\<exists>b1 n b2 b3. VarInt_WriteToBuffer b i = Some b1 \<and> Buffer_Write b1 rest = Some ((n, None), b2) \<and>
           ReadVarIntFrom Buffer_ReadByte b2 = Some ((i, nat (VarIntLen i), None), b3) \<and>
           buf_bytes b3 = rest \<and> buf_wf b3"
proof -
  let ?b1 = "Buffer_absorb b (leb128 i)"
  have l: "length (leb128 i) \<le> buf_free b" using assms(3) length_leb128_le [of i] by linarith
  note a1 = buf_append [OF assms(1) l]
  have l2: "length rest \<le> buf_free ?b1" using a1 assms(3) length_leb128_le [of i] by linarith
  note a2 = buf_append [OF a1(1) l2]
  have "buf_bytes (Buffer_absorb ?b1 rest) = leb128 i @ rest" using a1 a2 assms(2) by simp
  from buf_bytes.ReadVarIntFrom_leb128 [OF a2(1) this] show ?thesis
    using VarInt_WriteToBuffer_append [OF assms(1) l] Buffer_Write_fits [OF a1(1) l2]
    by (auto simp: VarIntLen_leb128)
qed

theorem VarInt_roundtrip_witness:
  "\<exists>b1 n b2 b3. VarInt_WriteToBuffer (Buffer_With (replicate 8 0) 8) (-1) = Some b1 \<and>
     Buffer_Write b1 [7] = Some ((n, None), b2) \<and>
     ReadVarIntFrom Buffer_ReadByte b2 = Some ((-1, nat (VarIntLen (-1)), None), b3) \<and>
     buf_bytes b3 = [7] \<and> buf_wf b3"
  by (rule VarInt_roundtrip) (simp_all add: Buffer_With_def buffer_defs)

text \<open>What \<open>ReadVarIntFrom\<close> accepts on a buffer, completely: with \<open>k\<close> leading continuation bytes
  and a final byte, it returns the bytes' value for \<open>k \<le> 5\<close> (so six bytes are accepted, one
  more than \<open>MaxVarIntLen\<close>) having consumed \<open>k + 1\<close> bytes; with six or more continuation bytes
  it reports \<open>ErrVarIntTooBig\<close> having consumed exactly six.\<close>

theorem ReadVarIntFrom_complete:
  fixes b :: buffer
  defines "k \<equiv> length (takeWhile (\<lambda>x. x AND 0x80 \<noteq> 0) (buf_bytes b))"
  assumes "buf_wf b" "k < length (buf_bytes b)"
  shows "if k \<le> MaxVarIntLen
         then \<exists>b'. ReadVarIntFrom Buffer_ReadByte b =
                     Some ((varint_value 0 (take (Suc k) (buf_bytes b)), Suc k, None), b') \<and>
                   buf_bytes b' = drop (Suc k) (buf_bytes b) \<and> buf_wf b'
         else \<exists>b'. ReadVarIntFrom Buffer_ReadByte b = Some ((0, 6, Some ErrVarIntTooBig), b') \<and>
                   buf_bytes b' = drop 6 (buf_bytes b) \<and> buf_wf b'"
  using assms buf_bytes.ReadVarInt_loop_cases [of b "0x80" 0 0]
  by (auto simp: ReadVarIntFrom_def MaxVarIntLen_def k_def simp del: length_buf_bytes)

theorem ReadVarIntFrom_complete_witness:
  "\<exists>b'. ReadVarIntFrom Buffer_ReadByte (Buffer_As [0x80, 0x80, 0x80, 0x80, 0x80, 0, 9] 7) =
          Some ((0, 6, None), b') \<and> buf_bytes b' = [9]"
proof -
  let ?b = "Buffer_As [0x80, 0x80, 0x80, 0x80, 0x80, 0, 9] 7"
  have b: "buf_bytes ?b = [0x80, 0x80, 0x80, 0x80, 0x80, 0, 9]" and wf: "buf_wf ?b"
    by (simp_all add: Buffer_As_def buffer_defs)
  have "length (takeWhile (\<lambda>x. x AND 0x80 \<noteq> 0) (buf_bytes ?b)) < length (buf_bytes ?b)"
    unfolding b by simp
  from ReadVarIntFrom_complete [OF wf this] show ?thesis
    unfolding b by (auto simp: MaxVarIntLen_def)
qed

end
