(* ===== verification/CachedConns.thy ===== *)
theory CachedConns
  imports VarInts
begin

text \<open>
  The connection with a read cache (common/bufio/cached.go), which lets the sniffers look at the
  first bytes and put them back, and the relay (common/bufio/copy.go).

  A \<open>CachedConn\<close> is the state of the wrapped connection and the cache. The slice that
  \<open>buf.NewSize(4096)\<close> hands out has arbitrary contents: it is the parameter \<open>fresh\<close>
  (\<open>NewSize_cache\<close> shows that the pool gives a slice of exactly 4096 bytes).
\<close>

definition CacheSize :: nat where "CacheSize = 4096"

record 's cconn =
  cc_conn :: 's
  cc_cache :: "buffer option"

definition NewCachedConn :: "'s \<Rightarrow> 's cconn" where
  "NewCachedConn s = \<lparr>cc_conn = s, cc_cache = None\<rparr>"

definition cc_newbuf :: "bytes \<Rightarrow> buffer" where
  "cc_newbuf fresh = \<lparr>b_arr = fresh, b_len = int CacheSize, b_start = 0, b_end = 0,
                      b_managed = True, b_closed = False\<rparr>"

definition cc_buf :: "bytes \<Rightarrow> 's cconn \<Rightarrow> buffer" where
  "cc_buf fresh c = (case cc_cache c of None \<Rightarrow> cc_newbuf fresh | Some b \<Rightarrow> b)"

text \<open>\<open>Read\<close>: unread cached bytes first; what comes from the connection is remembered.\<close>

definition cc_Read :: "'s reader \<Rightarrow> bytes \<Rightarrow> nat \<Rightarrow> 's cconn \<Rightarrow> ((bytes \<times> go_error option) \<times> 's cconn) option" where
  "cc_Read rd fresh k c =
     (case cc_cache c of
        Some b \<Rightarrow>
          if \<not> Buffer_IsEmpty b
          then map_option (\<lambda>(r, b'). (r, c\<lparr>cc_cache := Some b'\<rparr>)) (Buffer_Read k b)
          else do {
            ((bs, err), s') \<leftarrow> rd k (cc_conn c);
            if bs \<noteq> [] then do {
              ((n, _), b') \<leftarrow> Buffer_Write b bs;
              let c' = \<lparr>cc_conn = s', cc_cache = Some (Buffer_Advance b' (int n))\<rparr>;
              Some (if n \<noteq> length bs then (([], Some ErrShortBuffer), c') else ((bs, err), c'))
            } else Some ((bs, err), c\<lparr>cc_conn := s'\<rparr>)
          }
      | None \<Rightarrow> do {
            ((bs, err), s') \<leftarrow> rd k (cc_conn c);
            if bs \<noteq> [] then do {
              ((n, _), b') \<leftarrow> Buffer_Write (cc_newbuf fresh) bs;
              let c' = \<lparr>cc_conn = s', cc_cache = Some (Buffer_Advance b' (int n))\<rparr>;
              Some (if n \<noteq> length bs then (([], Some ErrShortBuffer), c') else ((bs, err), c'))
            } else Some ((bs, err), c\<lparr>cc_conn := s'\<rparr>)
          })"

definition cc_Peek :: "'s reader \<Rightarrow> bytes \<Rightarrow> int \<Rightarrow> 's cconn \<Rightarrow> ((bytes \<times> go_error option) \<times> 's cconn) option" where
  "cc_Peek rd fresh n c =
     (if n < 0 then Some (([], Some (Cause ''peek'' ErrNegativeRead)), c)
      else do {
        let b = cc_buf fresh c;
        let need = n - Buffer_Len b;
        if need > 0 then do {
          ((_, err), b', s') \<leftarrow> Buffer_ReadAtLeastFrom rd b (cc_conn c) need;
          let c' = \<lparr>cc_conn = s', cc_cache = Some b'\<rparr>;
          (case err of
             Some e \<Rightarrow> Some (([], Some e), c')
           | None \<Rightarrow> map_option (\<lambda>(r, b''). (r, c'\<lparr>cc_cache := Some b''\<rparr>)) (Buffer_Peek b' n))
        } else map_option (\<lambda>(r, b''). (r, c\<lparr>cc_cache := Some b''\<rparr>)) (Buffer_Peek b n)
      })"

text \<open>\<open>bytes.Index\<close>, and the search of \<open>PeekUntil\<close>: the first separator in the order of the arguments.\<close>

fun bytes_index :: "bytes \<Rightarrow> bytes \<Rightarrow> nat option" where
  "bytes_index [] pat = (if pat = [] then Some 0 else None)"
| "bytes_index (x # xs) pat =
     (if take (length pat) (x # xs) = pat then Some 0 else map_option Suc (bytes_index xs pat))"

fun first_separator :: "bytes \<Rightarrow> bytes list \<Rightarrow> (nat \<times> bytes) option" where
  "first_separator buf [] = None"
| "first_separator buf (e # es) =
     (case bytes_index buf e of Some i \<Rightarrow> Some (i, e) | None \<Rightarrow> first_separator buf es)"

text \<open>The loop of \<open>PeekUntil\<close>. It reads on while nothing is found; \<open>None\<close> is a panic or no return.\<close>

partial_function (option) PeekUntil_loop ::
  "'s reader \<Rightarrow> bytes list \<Rightarrow> buffer \<Rightarrow> 's \<Rightarrow> ((bytes \<times> bytes \<times> go_error option) \<times> 's cconn) option" where
  "PeekUntil_loop rd ends b s =
     Option.bind (Buffer_Bytes b) (\<lambda>buf.
       (case first_separator buf ends of
          Some (i, e) \<Rightarrow>
            Some ((take i buf, e, None), \<lparr>cc_conn = s, cc_cache = Some (Buffer_Advance b (int (i + length e)))\<rparr>)
        | None \<Rightarrow>
            Option.bind (Buffer_ReadAtLeastFrom rd b s 1) (\<lambda>((_, err), b', s').
              (case err of
                 Some e \<Rightarrow> Some (([], [], Some e), \<lparr>cc_conn = s', cc_cache = Some b'\<rparr>)
               | None \<Rightarrow> PeekUntil_loop rd ends b' s'))))"

definition cc_PeekUntil ::
  "'s reader \<Rightarrow> bytes \<Rightarrow> bytes list \<Rightarrow> 's cconn \<Rightarrow> ((bytes \<times> bytes \<times> go_error option) \<times> 's cconn) option" where
  "cc_PeekUntil rd fresh ends c = PeekUntil_loop rd ends (cc_buf fresh c) (cc_conn c)"

definition cc_Rewind :: "int \<Rightarrow> 's cconn \<Rightarrow> 's cconn" where
  "cc_Rewind pos c = (case cc_cache c of None \<Rightarrow> c | Some b \<Rightarrow> c\<lparr>cc_cache := Some (Buffer_Rewind b pos)\<rparr>)"

definition cc_Release :: "'s cconn \<Rightarrow> 's cconn" where
  "cc_Release c = c\<lparr>cc_cache := None\<rparr>"

definition cc_CurrentPosition :: "'s cconn \<Rightarrow> int" where
  "cc_CurrentPosition c = (case cc_cache c of None \<Rightarrow> -1 | Some b \<Rightarrow> Buffer_CurrentPosition b)"

text \<open>\<open>UpstreamReader\<close>: whether the wrapped connection may be read directly.\<close>

definition cc_UpstreamReader :: "'s cconn \<Rightarrow> 's option" where
  "cc_UpstreamReader c =
     (case cc_cache c of
        None \<Rightarrow> Some (cc_conn c)
      | Some b \<Rightarrow> if Buffer_IsEmpty b then Some (cc_conn c) else None)"

section \<open>The relay\<close>

text \<open>
  \<open>CopyBuffer\<close>. Its first loop unwraps the source: an empty cache is released and the connection
  read directly, a non-empty one is written to the destination and the loop goes round again.
  \<open>wr\<close> is the unwrapped destination.
\<close>

partial_function (option) Copy_unwrap ::
  "'w writer \<Rightarrow> 's cconn \<Rightarrow> int \<Rightarrow> 'w \<Rightarrow> ((int \<times> go_error option) \<times> 's cconn \<times> 'w) option" where
  "Copy_unwrap wr c written w =
     (case cc_cache c of
        None \<Rightarrow> Some ((written, None), cc_Release c, w)
      | Some b \<Rightarrow>
          if Buffer_Len b = 0 then Some ((written, None), cc_Release c, w)
          else Option.bind (Buffer_WriteTo wr b w) (\<lambda>((n, err), w').
            (case err of
               Some e \<Rightarrow> Some ((n, Some e), c, w')
             | None \<Rightarrow> Copy_unwrap wr c n w')))"

text \<open>The second loop, with the buffer it was given or one of 16 KiB (\<open>b\<close>).\<close>

definition copy_final :: "go_error \<Rightarrow> go_error option" where
  "copy_final e = (if Unwrap e = EOF \<or> Unwrap e = NetErrClosed then None else Some e)"

partial_function (option) Copy_loop ::
  "'s reader \<Rightarrow> 'w writer \<Rightarrow> buffer \<Rightarrow> int \<Rightarrow> 's \<Rightarrow> 'w \<Rightarrow> ((int \<times> go_error option) \<times> 's \<times> 'w) option" where
  "Copy_loop rd wr b written s w =
     Option.bind (Buffer_ReadOnceFrom rd (Buffer_Reset b 0) s) (\<lambda>((nRead, err), b1, s1).
       Option.bind (if nRead > 0 then Buffer_WriteTo wr b1 w else Some ((0, None), w)) (\<lambda>((nWrite, errWrite), w1).
         (if nRead > 0 \<and> errWrite \<noteq> None then Some ((written + nWrite, errWrite), s1, w1)
          else if nRead > 0 \<and> nWrite \<noteq> nRead then Some ((written + nWrite, Some ErrShortWrite), s1, w1)
          else (case err of
                  Some e \<Rightarrow> Some ((written + nWrite, copy_final e), s1, w1)
                | None \<Rightarrow> Copy_loop rd wr b1 (written + nWrite) s1 w1))))"

definition CopyBuffer ::
  "'s reader \<Rightarrow> 'w writer \<Rightarrow> buffer \<Rightarrow> 's cconn \<Rightarrow> 'w \<Rightarrow> ((int \<times> go_error option) \<times> 's \<times> 'w) option" where
  "CopyBuffer rd wr b c w = do {
     ((n, err), c', w1) \<leftarrow> Copy_unwrap wr c 0 w;
     (case err of
        Some e \<Rightarrow> Some ((n, Some e), cc_conn c', w1)
      | None \<Rightarrow> Copy_loop rd wr b n (cc_conn c') w1)
   }"

text \<open>
  \<open>CopyConn\<close> joins the two directions: each side is closed when its source is exhausted, and the
  error names both results.
\<close>

definition CopyConn_error :: "go_error option \<Rightarrow> go_error option \<Rightarrow> go_error option" where
  "CopyConn_error errRemote errLocal =
     (case (errLocal, errRemote) of
        (None, None) \<Rightarrow> None
      | (_, Some e) \<Rightarrow> Some (Cause ''relay connections: '' e)
      | (Some e, None) \<Rightarrow> Some (Cause ''relay connections: '' e))"

text \<open>
  \<open>CopyConn(remote, local)\<close>. The two directions run at the same time on different streams; what
  closing one side does to the other shows in what its reads return. A \<open>remote\<close> that is not cached is a
  connection with an empty cache. A nil \<open>remote\<close> is a nil dereference.
\<close>

definition CopyConn ::
  "'a reader \<Rightarrow> 'b writer \<Rightarrow> 's reader \<Rightarrow> 'w writer \<Rightarrow> buffer \<Rightarrow> buffer \<Rightarrow> ('a \<times> 'b) option \<Rightarrow> 's cconn \<Rightarrow> 'w \<Rightarrow>
   (go_error option \<times> ('a \<times> 'b) \<times> 's \<times> 'w) option" where
  "CopyConn rdR wrR rdL wrL b1 b2 remote c w = do {
     (sR, wR) \<leftarrow> remote;
     ((_, errLocal), s', wR') \<leftarrow> CopyBuffer rdL wrR b1 c wR;
     ((_, errRemote), sR', w') \<leftarrow> CopyBuffer rdR wrL b2 (NewCachedConn sR) w;
     Some (CopyConn_error errRemote errLocal, (sR', wR'), s', w')
   }"

section \<open>Searching\<close>

lemma bytes_index_bound: "bytes_index xs pat = Some i \<Longrightarrow> i + length pat \<le> length xs"
proof (induction xs pat arbitrary: i rule: bytes_index.induct)
  case (2 x xs pat)
  show ?case
  proof (cases "take (length pat) (x # xs) = pat")
    case True
    then have "length pat \<le> length (x # xs)" by (metis length_take min.cobounded1)
    then show ?thesis using 2 True by simp
  qed (use 2 in auto)
qed (simp split: if_splits)

text \<open>The first occurrence in a stream is found as soon as it is complete, and not before.\<close>

lemma bytes_index_prefix:
  "bytes_index (xs @ ys) pat = Some i \<Longrightarrow> pat \<noteq> [] \<Longrightarrow>
   bytes_index xs pat = (if i + length pat \<le> length xs then Some i else None)"
proof (induction xs arbitrary: i)
  case Nil
  then show ?case by simp
next
  case (Cons x xs)
  show ?case
  proof (cases "take (length pat) (x # xs @ ys) = pat")
    case True
    then have i: "i = 0" using Cons.prems(1) by simp
    show ?thesis
    proof (cases "length pat \<le> length (x # xs)")
      case True
      then have "take (length pat) (x # xs) = pat"
        using \<open>take (length pat) (x # xs @ ys) = pat\<close> by (cases pat) auto
      then show ?thesis using i True by simp
    next
      case False
      have "bytes_index (x # xs) pat = None"
        using False bytes_index_bound [of "x # xs" pat] by (cases "bytes_index (x # xs) pat") auto
      then show ?thesis using i False by simp
    qed
  next
    case False
    then obtain j where j: "i = Suc j" "bytes_index (xs @ ys) pat = Some j" using Cons.prems(1) by auto
    have "take (length pat) (x # xs) \<noteq> pat"
    proof
      assume h: "take (length pat) (x # xs) = pat"
      then have "length pat \<le> length (x # xs)" by (metis length_take min.cobounded1)
      then have "take (length pat) (x # xs @ ys) = take (length pat) (x # xs)"
        by (cases "length pat") auto
      then show False using h False by simp
    qed
    then show ?thesis using Cons.IH [OF j(2) Cons.prems(2)] j(1) by simp
  qed
qed

lemma bytes_index_mono: "bytes_index (xs @ ys) pat = None \<Longrightarrow> bytes_index xs pat = None"
proof (induction xs)
  case Nil
  then show ?case by (cases ys) (auto split: if_splits)
next
  case (Cons x xs)
  have "take (length pat) (x # xs) \<noteq> pat"
  proof
    assume h: "take (length pat) (x # xs) = pat"
    then have "length pat \<le> length (x # xs)" by (metis length_take min.cobounded1)
    then have "take (length pat) (x # xs @ ys) = pat" using h by (cases "length pat") auto
    then show False using Cons.prems by simp
  qed
  then show ?case using Cons by (auto split: if_splits)
qed

lemma first_separator_None: "first_separator xs es = None \<longleftrightarrow> (\<forall>e \<in> set es. bytes_index xs e = None)"
  by (induction es) (auto split: option.splits)

section \<open>The stream behind the cache\<close>

text \<open>
  The bytes already passed are kept in front of the cache's read position. \<open>cc_ahead\<close> are the bytes
  still to be read, cached or pending; \<open>cc_stream\<close> is everything since caching began.
\<close>

definition cache_ok :: "buffer \<Rightarrow> bool" where
  "cache_ok b \<longleftrightarrow> buf_wf b \<and> b_len b = int CacheSize"

definition cc_ok :: "bytes \<Rightarrow> 's cconn \<Rightarrow> bool" where
  "cc_ok fresh c \<longleftrightarrow> length fresh = CacheSize \<and> cache_ok (cc_buf fresh c)"

definition cc_at :: "bytes \<Rightarrow> 's cconn \<Rightarrow> nat" where
  "cc_at fresh c = nat (b_start (cc_buf fresh c))"

definition passed :: "buffer \<Rightarrow> bytes" where
  "passed b = take (nat (b_start b)) (b_arr b)"

lemma cache_ok_newbuf [simp]: "length fresh = CacheSize \<Longrightarrow> cache_ok (cc_newbuf fresh)"
  by (simp add: cache_ok_def cc_newbuf_def buffer_defs CacheSize_def)

lemma newbuf_empty [simp]: "buf_bytes (cc_newbuf fresh) = []" "passed (cc_newbuf fresh) = []"
  by (simp_all add: cc_newbuf_def buf_bytes_def passed_def)

lemma cache_ok_bounds:
  assumes "cache_ok b"
  shows "nat (b_start b) + length (buf_bytes b) + buf_free b = CacheSize" "length (passed b) = nat (b_start b)"
    "0 \<le> b_start b"
  using assms by (auto simp: cache_ok_def buffer_defs passed_def CacheSize_def)

lemma absorb_cache:
  assumes "cache_ok b" "length bs \<le> buf_free b"
  shows "cache_ok (Buffer_absorb b bs)" "buf_bytes (Buffer_absorb b bs) = buf_bytes b @ bs"
    "passed (Buffer_absorb b bs) = passed b" "b_start (Buffer_absorb b bs) = b_start b"
proof -
  have wf: "buf_wf b" using assms(1) by (simp add: cache_ok_def)
  have e: "nat (b_start b) \<le> nat (b_end b)" "nat (b_end b) \<le> length (b_arr b)"
    using wf by (auto simp: buf_wf_def)
  show "cache_ok (Buffer_absorb b bs)"
    using buf_append(1) [OF wf assms(2)] assms(1) by (simp add: cache_ok_def Buffer_absorb_def)
  show "buf_bytes (Buffer_absorb b bs) = buf_bytes b @ bs" by (rule buf_append(2) [OF wf assms(2)])
  show "passed (Buffer_absorb b bs) = passed b"
    using e by (simp add: passed_def Buffer_absorb_def)
  show "b_start (Buffer_absorb b bs) = b_start b" by (simp add: Buffer_absorb_def)
qed

lemma take_add_segment:
  "s + n \<le> e \<Longrightarrow> e \<le> length xs \<Longrightarrow> take (n + s) xs = take s xs @ take n (take (e - s) (drop s xs))"
  by (simp add: take_add min_def add.commute [of n s])

lemma advance_cache:
  assumes "cache_ok b" "n \<le> length (buf_bytes b)"
  shows "cache_ok (Buffer_Advance b (int n))" "buf_bytes (Buffer_Advance b (int n)) = drop n (buf_bytes b)"
    "passed (Buffer_Advance b (int n)) = passed b @ take n (buf_bytes b)"
    "nat (b_start (Buffer_Advance b (int n))) = nat (b_start b) + n"
proof -
  have wf: "buf_wf b" using assms(1) by (simp add: cache_ok_def)
  note a = buf_advance [OF wf, of "int n"]
  show "cache_ok (Buffer_Advance b (int n))"
    using a(1) assms by (simp add: cache_ok_def) (simp add: Buffer_Advance_def)
  show "buf_bytes (Buffer_Advance b (int n)) = drop n (buf_bytes b)" using a(2) assms(2) by simp
  have e: "0 \<le> b_start b" "nat (b_start b) + n \<le> nat (b_end b)" "nat (b_end b) \<le> length (b_arr b)"
    using wf assms(2) by (auto simp: buf_wf_def)
  have "nat (b_start b + int n) = n + nat (b_start b)" using e(1) by simp
  moreover have "nat (b_end b - b_start b) = nat (b_end b) - nat (b_start b)" using wf by (simp add: buf_wf_def nat_diff_distrib)
  ultimately show "passed (Buffer_Advance b (int n)) = passed b @ take n (buf_bytes b)"
    using take_add_segment [OF e(2,3)] by (simp add: passed_def Buffer_Advance_def buf_bytes_def)
  show "nat (b_start (Buffer_Advance b (int n))) = nat (b_start b) + n"
    using e(1) by (simp add: Buffer_Advance_def)
qed

definition cc_ahead :: "('s \<Rightarrow> bytes) \<Rightarrow> bytes \<Rightarrow> 's cconn \<Rightarrow> bytes" where
  "cc_ahead pend fresh c = buf_bytes (cc_buf fresh c) @ pend (cc_conn c)"

definition cc_stream :: "('s \<Rightarrow> bytes) \<Rightarrow> bytes \<Rightarrow> 's cconn \<Rightarrow> bytes" where
  "cc_stream pend fresh c = passed (cc_buf fresh c) @ cc_ahead pend fresh c"

context io_reader
begin

lemma fill_cache:
  assumes "inv s" "cache_ok b" "0 < need" "need \<le> length (pending s)" "need \<le> buf_free b"
  shows "\<exists>n b' s' bs. Buffer_ReadAtLeastFrom rd b s (int need) = Some ((n, None), b', s') \<and>
    b' = Buffer_absorb b bs \<and> pending s = bs @ pending s' \<and> need \<le> length bs \<and> length bs \<le> buf_free b \<and> inv s'"
proof -
  have wf: "buf_wf b" using assms(2) by (simp add: cache_ok_def)
  obtain room where room: "Buffer_FreeBytes b = Some room" "length room = buf_free b"
    using Buffer_FreeBytes_wf [OF wf] by blast
  have "\<not> Buffer_IsFull b" using assms(3,5) by (simp add: Buffer_IsFull_free [OF wf])
  with ReadAtLeast_delivers [OF assms(1,4), of "length room"] assms(3,5) room show ?thesis
    by (auto simp: Buffer_ReadAtLeastFrom_def)
qed

text \<open>\<open>Peek\<close> hands out the next bytes of the stream and moves the position, nothing else.\<close>

lemma cc_Peek_stream:
  assumes "inv (cc_conn c)" "cc_ok fresh c" "n \<le> length (cc_ahead pending fresh c)" "cc_at fresh c + n \<le> CacheSize"
  shows "\<exists>c'. cc_Peek rd fresh (int n) c = Some ((take n (cc_ahead pending fresh c), None), c') \<and>
    inv (cc_conn c') \<and> cc_ok fresh c' \<and> cc_at fresh c' = cc_at fresh c + n \<and>
    cc_ahead pending fresh c' = drop n (cc_ahead pending fresh c) \<and> cc_stream pending fresh c' = cc_stream pending fresh c \<and> cc_cache c' \<noteq> None"
proof -
  let ?b = "cc_buf fresh c"
  have ok: "cache_ok ?b" "length fresh = CacheSize" using assms(2) by (simp_all add: cc_ok_def)
  have wf: "buf_wf ?b" using ok by (simp add: cache_ok_def)
  have peek: "cc_ok fresh (\<lparr>cc_conn = s, cc_cache = Some (Buffer_Advance b (int n))\<rparr> :: 's cconn) \<and>
      Buffer_Peek b (int n) = Some ((take n (buf_bytes b), None), Buffer_Advance b (int n))"
    if "cache_ok b" "n \<le> length (buf_bytes b)" for b and s :: 's
    using that advance_cache(1) [OF that] ok(2) Buffer_Peek_wf [of b "int n"]
    by (auto simp: cc_ok_def cc_buf_def cache_ok_def)
  show ?thesis
  proof (cases "n \<le> length (buf_bytes ?b)")
    case True
    then have "\<not> int n - Buffer_Len ?b > 0" by (simp add: Buffer_Len_bytes [OF wf] del: length_buf_bytes)
    then have "cc_Peek rd fresh (int n) c =
        Some ((take n (buf_bytes ?b), None), c\<lparr>cc_cache := Some (Buffer_Advance ?b (int n))\<rparr>)"
      using peek [OF ok(1) True, of "cc_conn c"] by (simp add: cc_Peek_def Let_def)
    then show ?thesis
      using True assms(1) peek [OF ok(1) True, of "cc_conn c"] advance_cache(2-4) [OF ok(1) True]
      by (auto simp: cc_ahead_def cc_stream_def cc_buf_def cc_at_def cc_ok_def simp del: length_buf_bytes)
  next
    case False
    define need where "need = n - length (buf_bytes ?b)"
    have need: "int n - Buffer_Len ?b = int need" "0 < need" "need \<le> length (pending (cc_conn c))" "need \<le> buf_free ?b"
      using False assms(3,4) cache_ok_bounds(1) [OF ok(1)]
      by (auto simp: need_def Buffer_Len_bytes [OF wf] cc_ahead_def cc_at_def simp del: length_buf_bytes)
    from fill_cache [OF assms(1) ok(1) need(2-4)] obtain m b' s' bs where
      f: "Buffer_ReadAtLeastFrom rd ?b (cc_conn c) (int need) = Some ((m, None), b', s')"
         "b' = Buffer_absorb ?b bs" "pending (cc_conn c) = bs @ pending s'" "need \<le> length bs"
         "length bs \<le> buf_free ?b" "inv s'" by blast
    note a = absorb_cache [OF ok(1) f(5), folded f(2)]
    have n: "n \<le> length (buf_bytes b')" using f(4) by (simp add: a(2) need_def del: length_buf_bytes)
    define c' where "c' = \<lparr>cc_conn = s', cc_cache = Some (Buffer_Advance b' (int n))\<rparr>"
    have buf': "cc_buf fresh c' = Buffer_Advance b' (int n)" "cc_conn c' = s'" "cc_cache c' \<noteq> None"
      by (simp_all add: c'_def cc_buf_def)
    have ah: "cc_ahead pending fresh c = buf_bytes b' @ pending s'" by (simp add: cc_ahead_def a(2) f(3))
    have st: "cc_stream pending fresh c = passed b' @ buf_bytes b' @ pending s'" by (simp add: cc_stream_def ah a(3))
    have "cc_Peek rd fresh (int n) c = Some ((take n (cc_ahead pending fresh c), None), c')"
      using peek [OF a(1) n, of s'] need(1,2) f(1) n by (simp add: cc_Peek_def Let_def ah c'_def)
    moreover have "cc_ok fresh c'" using peek [OF a(1) n, of s'] by (simp add: c'_def)
    moreover have "cc_at fresh c' = cc_at fresh c + n"
      using advance_cache(4) [OF a(1) n] a(4) by (simp add: cc_at_def buf')
    moreover have "cc_ahead pending fresh c' = drop n (cc_ahead pending fresh c)"
      using advance_cache(2) [OF a(1) n] n by (simp add: cc_ahead_def [of _ fresh c'] buf' ah)
    moreover have "cc_stream pending fresh c' = cc_stream pending fresh c"
      using advance_cache(2,3) [OF a(1) n] by (simp add: st cc_stream_def [of _ fresh c'] cc_ahead_def buf')
    ultimately show ?thesis using f(6) buf' by auto
  qed
qed

text \<open>\<open>Rewind\<close> to an earlier position gives the same bytes again.\<close>

lemma cc_Rewind_stream:
  assumes "inv (cc_conn c)" "cc_ok fresh c" "p \<le> cc_at fresh c" "cc_cache c \<noteq> None"
  shows "cc_ok fresh (cc_Rewind (int p) c) \<and> inv (cc_conn (cc_Rewind (int p) c)) \<and>
    cc_at fresh (cc_Rewind (int p) c) = p \<and> cc_stream pending fresh (cc_Rewind (int p) c) = cc_stream pending fresh c \<and>
    cc_ahead pending fresh (cc_Rewind (int p) c) = drop p (cc_stream pending fresh c)"
proof -
  obtain b where b: "cc_cache c = Some b" using assms(4) by auto
  have ok: "cache_ok b" "p \<le> nat (b_start b)" using assms(2,3) by (simp_all add: cc_ok_def cc_buf_def b cc_at_def)
  have e: "0 \<le> b_start b" "b_start b \<le> b_end b" "nat (b_end b) \<le> length (b_arr b)"
    using ok(1) by (auto simp: cache_ok_def buf_wf_def)
  let ?b = "Buffer_Rewind b (int p)"
  have "cache_ok ?b" using ok by (auto simp: cache_ok_def buf_wf_def Buffer_Rewind_def)
  moreover have all: "passed b @ buf_bytes b = take (nat (b_end b)) (b_arr b)"
    if "0 \<le> b_start b" "b_start b \<le> b_end b" for b
  proof -
    have "nat (b_end b) = nat (b_start b) + nat (b_end b - b_start b)" using that by simp
    then show ?thesis by (simp add: passed_def buf_bytes_def take_add)
  qed
  moreover have "passed ?b @ buf_bytes ?b = passed b @ buf_bytes b"
    using all [of b] all [of ?b] e ok(2) by (simp add: Buffer_Rewind_def)
  moreover have "buf_bytes ?b = drop p (passed ?b @ buf_bytes ?b)"
    using ok(2) e by (simp add: passed_def Buffer_Rewind_def)
  moreover have "length (passed b) = nat (b_start b)" by (rule cache_ok_bounds(2) [OF ok(1)])
  ultimately show ?thesis
    using assms(1,2) ok(2)
    by (simp add: cc_ok_def cc_Rewind_def b cc_buf_def cc_at_def cc_stream_def cc_ahead_def)
       (simp add: Buffer_Rewind_def)
qed

text \<open>
  \<open>PeekUntil\<close> hands out the bytes up to the first occurrence in the stream of its first separator,
  however the network cuts the stream, when no other separator ends before it.
\<close>

lemma PeekUntil_loop_stream:
  assumes "e \<noteq> []"
  shows "inv s \<Longrightarrow> cache_ok b \<Longrightarrow> bytes_index (buf_bytes b @ pending s) e = Some i \<Longrightarrow>
     nat (b_start b) + i + length e \<le> CacheSize \<Longrightarrow>
     \<forall>e' \<in> set es. bytes_index (take (i + length e - 1) (buf_bytes b @ pending s)) e' = None \<Longrightarrow>
     \<exists>b' s'. PeekUntil_loop rd (e # es) b s =
         Some ((take i (buf_bytes b @ pending s), e, None),
               \<lparr>cc_conn = s', cc_cache = Some (Buffer_Advance b' (int (i + length e)))\<rparr>) \<and>
       inv s' \<and> cache_ok b' \<and> i + length e \<le> length (buf_bytes b') \<and> passed b' = passed b \<and> b_start b' = b_start b \<and>
       buf_bytes b' @ pending s' = buf_bytes b @ pending s"
proof (induction "i + length e - length (buf_bytes b)" arbitrary: b s rule: less_induct)
  case less
  have wf: "buf_wf b" using less.prems(2) by (simp add: cache_ok_def)
  show ?case
  proof (cases "i + length e \<le> length (buf_bytes b)")
    case True
    then have "bytes_index (buf_bytes b) e = Some i" using bytes_index_prefix [OF less.prems(3) assms] by simp
    then show ?thesis using True less.prems by (subst PeekUntil_loop.simps) (auto simp: wf)
  next
    case False
    then have "bytes_index (buf_bytes b) e = None" using bytes_index_prefix [OF less.prems(3) assms] by simp
    moreover have "bytes_index (buf_bytes b) e' = None" if "e' \<in> set es" for e'
    proof (rule bytes_index_mono)
      have "length (buf_bytes b) \<le> i + length e - 1" using False by simp
      then have "take (i + length e - 1) (buf_bytes b @ pending s) =
          buf_bytes b @ take (i + length e - 1 - length (buf_bytes b)) (pending s)" by (simp del: length_buf_bytes)
      then show "bytes_index (buf_bytes b @ take (i + length e - 1 - length (buf_bytes b)) (pending s)) e' = None"
        using less.prems(5) that by metis
    qed
    ultimately have none: "first_separator (buf_bytes b) (e # es) = None" by (simp add: first_separator_None)
    have "1 \<le> length (pending s)" "1 \<le> buf_free b"
      using False bytes_index_bound [OF less.prems(3)] cache_ok_bounds(1) [OF less.prems(2)] less.prems(4)
      by (auto simp del: length_buf_bytes)
    from fill_cache [OF less.prems(1,2) _ this] obtain m b1 s1 bs where
      f: "Buffer_ReadAtLeastFrom rd b s 1 = Some ((m, None), b1, s1)" "b1 = Buffer_absorb b bs"
         "pending s = bs @ pending s1" "1 \<le> length bs" "length bs \<le> buf_free b" "inv s1" by auto
    note a = absorb_cache [OF less.prems(2) f(5), folded f(2)]
    have all: "buf_bytes b1 @ pending s1 = buf_bytes b @ pending s" by (simp add: a(2) f(3))
    have "i + length e - length (buf_bytes b1) < i + length e - length (buf_bytes b)"
      using False f(4) by (simp add: a(2) del: length_buf_bytes)
    from less.hyps [OF this f(6) a(1)] less.prems(3-5) all a(3,4) show ?thesis
      using none f(1) by (subst PeekUntil_loop.simps) (simp add: wf del: first_separator.simps)
  qed
qed

lemma cc_PeekUntil_stream:
  assumes "inv (cc_conn c)" "cc_ok fresh c" "e \<noteq> []" "bytes_index (cc_ahead pending fresh c) e = Some i"
    "cc_at fresh c + i + length e \<le> CacheSize"
    "\<forall>e' \<in> set es. bytes_index (take (i + length e - 1) (cc_ahead pending fresh c)) e' = None"
  shows "\<exists>c'. cc_PeekUntil rd fresh (e # es) c = Some ((take i (cc_ahead pending fresh c), e, None), c') \<and>
    inv (cc_conn c') \<and> cc_ok fresh c' \<and> cc_at fresh c' = cc_at fresh c + (i + length e) \<and>
    cc_ahead pending fresh c' = drop (i + length e) (cc_ahead pending fresh c) \<and>
    cc_stream pending fresh c' = cc_stream pending fresh c \<and> cc_cache c' \<noteq> None"
proof -
  let ?b = "cc_buf fresh c" let ?k = "i + length e"
  have ok: "cache_ok ?b" "length fresh = CacheSize" using assms(2) by (simp_all add: cc_ok_def)
  have idx: "bytes_index (buf_bytes ?b @ pending (cc_conn c)) e = Some i" using assms(4) by (simp add: cc_ahead_def)
  have cap: "nat (b_start ?b) + i + length e \<le> CacheSize" using assms(5) by (simp add: cc_at_def)
  have others: "\<forall>e' \<in> set es. bytes_index (take (i + length e - 1) (buf_bytes ?b @ pending (cc_conn c))) e' = None"
    using assms(6) by (simp add: cc_ahead_def)
  from PeekUntil_loop_stream [OF assms(3,1) ok(1) idx cap others] obtain b' s' where
    r: "PeekUntil_loop rd (e # es) ?b (cc_conn c) =
          Some ((take i (buf_bytes ?b @ pending (cc_conn c)), e, None),
                \<lparr>cc_conn = s', cc_cache = Some (Buffer_Advance b' (int ?k))\<rparr>)"
       "inv s'" "cache_ok b'" "?k \<le> length (buf_bytes b')" "passed b' = passed ?b" "b_start b' = b_start ?b"
       "buf_bytes b' @ pending s' = buf_bytes ?b @ pending (cc_conn c)" by blast
  note v = advance_cache [OF r(3,4)]
  define c' where "c' = \<lparr>cc_conn = s', cc_cache = Some (Buffer_Advance b' (int ?k))\<rparr>"
  have buf': "cc_buf fresh c' = Buffer_Advance b' (int ?k)" "cc_conn c' = s'" "cc_cache c' \<noteq> None"
    by (simp_all add: c'_def cc_buf_def)
  have ah: "cc_ahead pending fresh c = buf_bytes b' @ pending s'" by (simp add: cc_ahead_def r(7))
  have "cc_PeekUntil rd fresh (e # es) c = Some ((take i (cc_ahead pending fresh c), e, None), c')"
    using r(1) by (simp add: cc_PeekUntil_def c'_def cc_ahead_def)
  moreover have "cc_ok fresh c'" using v(1) ok(2) by (simp add: cc_ok_def buf')
  moreover have "cc_at fresh c' = cc_at fresh c + ?k" using v(4) r(6) by (simp add: cc_at_def buf')
  moreover have "cc_ahead pending fresh c' = drop ?k (cc_ahead pending fresh c)"
    using v(2) r(4) by (simp add: cc_ahead_def [of _ fresh c'] buf' ah)
  moreover have "cc_stream pending fresh c' = cc_stream pending fresh c"
    using v(2,3) r(5) by (simp add: cc_stream_def cc_ahead_def [of _ fresh c'] buf' ah)
  ultimately show ?thesis using r(2) buf' by auto
qed

end

text \<open>The slice that \<open>buf.NewSize(4096)\<close> gets from the pool is such a \<open>fresh\<close> one.\<close>

lemma NewSize_cache:
  assumes "alloc_inv alloc"
  shows "\<exists>fresh alloc'. Buffer_NewSize pick alloc (int CacheSize) = Some (cc_newbuf fresh, alloc') \<and> length fresh = CacheSize"
proof -
  have "bits_Len (4096 :: nat) = 13" using bits_Len_power [of 12] by simp
  then have "pool_index 4096 = 6" by (simp add: pool_index_def)
  then show ?thesis
    using Allocator_Get_result [OF assms, of "int CacheSize" pick]
    by (auto simp: Buffer_NewSize_def buf_Get_def cc_newbuf_def CacheSize_def)
qed

section \<open>The cached connection as a reader\<close>

text \<open>
  \<open>Read\<close> keeps what it returns in the cache, so the contract of a reader holds as long as the whole
  stream fits there; a read beyond that loses bytes.
\<close>

definition cc_fits :: "('s \<Rightarrow> bool) \<Rightarrow> ('s \<Rightarrow> bytes) \<Rightarrow> bytes \<Rightarrow> 's cconn \<Rightarrow> bool" where
  "cc_fits sok pend fresh c \<longleftrightarrow>
     sok (cc_conn c) \<and> cc_ok fresh c \<and> cc_at fresh c + length (cc_ahead pend fresh c) \<le> CacheSize"

definition cc_rank :: "('s \<Rightarrow> nat) \<Rightarrow> bytes \<Rightarrow> 's cconn \<Rightarrow> nat" where
  "cc_rank rank fresh c = 2 * rank (cc_conn c) + (if buf_bytes (cc_buf fresh c) = [] then 0 else 1)"

context io_reader
begin

lemma cc_Read_cached:
  assumes c: "cc_fits inv pending fresh c" and k: "0 < k" and bytes: "buf_bytes (cc_buf fresh c) \<noteq> []"
  shows "\<exists>bs c'. cc_Read rd fresh k c = Some ((bs, None), c') \<and> cc_ahead pending fresh c = bs @ cc_ahead pending fresh c' \<and>
    cc_fits inv pending fresh c' \<and> length bs \<le> k \<and> cc_rank rank fresh c' \<le> cc_rank rank fresh c \<and>
    (cc_rank rank fresh c' < cc_rank rank fresh c \<or> length bs = k)"
proof -
  have fresh: "length fresh = CacheSize" using c by (simp add: cc_fits_def cc_ok_def)
  then obtain b where b: "cc_cache c = Some b" using bytes by (cases "cc_cache c") (auto simp: cc_buf_def)
  have ok: "cache_ok b" "buf_wf b" using c b by (simp_all add: cc_fits_def cc_ok_def cc_buf_def cache_ok_def)
  define n where "n = min k (length (buf_bytes b))"
  define c' where "c' = c\<lparr>cc_cache := Some (Buffer_Advance b (int n))\<rparr>"
  have n: "n \<le> length (buf_bytes b)" "take k (buf_bytes b) = take n (buf_bytes b)" "length (take n (buf_bytes b)) = n" "n \<le> k"
    by (simp_all add: n_def min_def del: length_buf_bytes)
  note a = advance_cache [OF ok(1) n(1)]
  have ne: "buf_bytes b \<noteq> []" using bytes b by (simp add: cc_buf_def)
  have r: "cc_Read rd fresh k c = Some ((take n (buf_bytes b), None), c')"
    using ne Buffer_Read_wf [OF ok(2), of k]
    by (simp add: cc_Read_def b Buffer_IsEmpty_bytes [OF ok(2)] c'_def n_def [symmetric] n(2) del: length_buf_bytes)
  have ahead: "cc_ahead pending fresh c = take n (buf_bytes b) @ cc_ahead pending fresh c'"
    by (simp add: cc_ahead_def cc_buf_def b c'_def a(2))
  have "length (cc_ahead pending fresh c) = n + length (cc_ahead pending fresh c')"
    unfolding ahead length_append n(3) ..
  then have "cc_fits inv pending fresh c'"
    using c a(1,4) fresh by (simp add: cc_fits_def cc_ok_def cc_at_def c'_def cc_buf_def b)
  moreover have "cc_rank rank fresh c' \<le> cc_rank rank fresh c \<and> (cc_rank rank fresh c' < cc_rank rank fresh c \<or> n = k)"
    using ne a(2) by (auto simp: cc_rank_def c'_def cc_buf_def b n_def simp del: length_buf_bytes)
  ultimately show ?thesis
    using r ahead n(3,4) by (intro exI [of _ "take n (buf_bytes b)"] exI [of _ c']) (simp del: length_buf_bytes length_take)
qed

lemma cc_Read_delivers:
  assumes c: "cc_fits inv pending fresh c" and k: "0 < k" and more: "cc_ahead pending fresh c \<noteq> []"
  shows "\<exists>bs c'. cc_Read rd fresh k c = Some ((bs, None), c') \<and> cc_ahead pending fresh c = bs @ cc_ahead pending fresh c' \<and>
    cc_fits inv pending fresh c' \<and> length bs \<le> k \<and> cc_rank rank fresh c' \<le> cc_rank rank fresh c \<and>
    (cc_rank rank fresh c' < cc_rank rank fresh c \<or> length bs = k)"
proof (cases "buf_bytes (cc_buf fresh c) = []")
  case True
  define b where "b = cc_buf fresh c"
  have ok: "cache_ok b" "buf_wf b" "length fresh = CacheSize" "inv (cc_conn c)"
    using c by (simp_all add: cc_fits_def cc_ok_def b_def cache_ok_def)
  have empty: "buf_bytes b = []" using True by (simp add: b_def)
  have pend: "pending (cc_conn c) \<noteq> []" using more True by (simp add: cc_ahead_def)
  from rd_delivers [OF ok(4) k pend] obtain bs s' where
    r: "rd k (cc_conn c) = Some ((bs, None), s')" "pending (cc_conn c) = bs @ pending s'" "inv s'" "length bs \<le> k"
      "rank s' \<le> rank (cc_conn c)" "rank s' < rank (cc_conn c) \<or> length bs = k" by blast
  have e: "cc_cache c = Some b \<Longrightarrow> Buffer_IsEmpty b" using Buffer_IsEmpty_bytes [OF ok(2)] empty by simp
  show ?thesis
  proof (cases "bs = []")
    case True
    define c' where "c' = c\<lparr>cc_conn := s'\<rparr>"
    have "cc_Read rd fresh k c = Some (([], None), c')"
      using r(1) True e by (cases "cc_cache c") (simp_all add: cc_Read_def c'_def b_def cc_buf_def)
    moreover have "cc_fits inv pending fresh c'" "cc_ahead pending fresh c = [] @ cc_ahead pending fresh c'"
      using c r(2,3) True by (simp_all add: cc_fits_def c'_def cc_ok_def cc_buf_def cc_at_def cc_ahead_def)
    moreover have "cc_rank rank fresh c' < cc_rank rank fresh c"
      using r(6) True k empty by (simp add: cc_rank_def c'_def cc_buf_def b_def)
    ultimately show ?thesis by fastforce
  next
    case False
    have "nat (b_start b) + length (bs @ pending s') \<le> CacheSize"
      using c r(2) empty by (simp add: cc_fits_def cc_at_def cc_ahead_def b_def)
    then have free: "length bs \<le> buf_free b" using cache_ok_bounds(1) [OF ok(1)] empty by simp
    note ab = absorb_cache [OF ok(1) free]
    have len: "length bs \<le> length (buf_bytes (Buffer_absorb b bs))" by (simp add: ab(2) empty del: length_buf_bytes)
    note adv = advance_cache [OF ab(1) len]
    have rest: "buf_bytes (Buffer_Advance (Buffer_absorb b bs) (int (length bs))) = []" by (simp add: adv(2) ab(2) empty)
    have wr: "Buffer_Write b bs = Some ((length bs, None), Buffer_absorb b bs)" using Buffer_Write_fits [OF ok(2) free] by simp
    define c' where "c' = \<lparr>cc_conn = s', cc_cache = Some (Buffer_Advance (Buffer_absorb b bs) (int (length bs)))\<rparr>"
    have "cc_Read rd fresh k c = Some ((bs, None), c')"
      using r(1) False wr e by (cases "cc_cache c") (simp_all add: cc_Read_def c'_def b_def cc_buf_def)
    moreover have "cc_ahead pending fresh c = bs @ cc_ahead pending fresh c'"
      using r(2) empty rest by (simp add: cc_ahead_def c'_def cc_buf_def b_def)
    moreover have "cc_fits inv pending fresh c'"
      using c r(2,3) adv(1,4) ab(4) empty rest ok(3)
      by (simp add: cc_fits_def cc_ok_def cc_at_def c'_def cc_buf_def cc_ahead_def b_def)
    moreover have "cc_rank rank fresh c' \<le> cc_rank rank fresh c \<and> (cc_rank rank fresh c' < cc_rank rank fresh c \<or> length bs = k)"
      using r(5,6) empty rest by (auto simp: cc_rank_def c'_def cc_buf_def b_def)
    ultimately show ?thesis using r(4) by blast
  qed
qed (use cc_Read_cached [OF c k] in blast)

end

section \<open>Properties\<close>

text \<open>A sniffer's reads: several peeks, one after the other.\<close>

primrec peek_all :: "'s reader \<Rightarrow> bytes \<Rightarrow> nat list \<Rightarrow> 's cconn \<Rightarrow> ((bytes \<times> go_error option) list \<times> 's cconn) option" where
  "peek_all rd fresh [] c = Some ([], c)"
| "peek_all rd fresh (n # ns) c = do {
     (r, c') \<leftarrow> cc_Peek rd fresh (int n) c;
     (rs, c'') \<leftarrow> peek_all rd fresh ns c';
     Some (r # rs, c'')
   }"

lemma peek_all_stream:
  "cc_ok fresh c \<Longrightarrow> sum_list ns \<le> length (cc_ahead net_pending fresh c) \<Longrightarrow> cc_at fresh c + sum_list ns \<le> CacheSize \<Longrightarrow>
   ns \<noteq> [] \<or> cc_cache c \<noteq> None \<Longrightarrow>
   \<exists>pieces c'. peek_all net_Read fresh ns c = Some (map (\<lambda>p. (p, None)) pieces, c') \<and> map length pieces = ns \<and>
     concat pieces = take (sum_list ns) (cc_ahead net_pending fresh c) \<and> cc_ok fresh c' \<and>
     cc_at fresh c' = cc_at fresh c + sum_list ns \<and> cc_stream net_pending fresh c' = cc_stream net_pending fresh c \<and>
     cc_cache c' \<noteq> None"
proof (induction ns arbitrary: c)
  case Nil
  then show ?case by (intro exI [of _ "[]"]) simp
next
  case (Cons n ns)
  have l: "n \<le> length (cc_ahead net_pending fresh c)" "cc_at fresh c + n \<le> CacheSize" using Cons.prems by simp_all
  from net.cc_Peek_stream [OF TrueI Cons.prems(1) l] obtain c1 where
    c1: "cc_Peek net_Read fresh (int n) c = Some ((take n (cc_ahead net_pending fresh c), None), c1)"
      "cc_ok fresh c1" "cc_at fresh c1 = cc_at fresh c + n"
      "cc_ahead net_pending fresh c1 = drop n (cc_ahead net_pending fresh c)"
      "cc_stream net_pending fresh c1 = cc_stream net_pending fresh c" "cc_cache c1 \<noteq> None" by blast
  have "sum_list ns \<le> length (cc_ahead net_pending fresh c1)" "cc_at fresh c1 + sum_list ns \<le> CacheSize"
    using Cons.prems(2,3) c1(3,4) by simp_all
  from Cons.IH [OF c1(2) this] c1(6) obtain pieces c' where
    r: "peek_all net_Read fresh ns c1 = Some (map (\<lambda>p. (p, None)) pieces, c')" "map length pieces = ns"
       "concat pieces = take (sum_list ns) (cc_ahead net_pending fresh c1)" "cc_ok fresh c'"
       "cc_at fresh c' = cc_at fresh c1 + sum_list ns" "cc_stream net_pending fresh c' = cc_stream net_pending fresh c1"
       "cc_cache c' \<noteq> None" by blast
  show ?case
    using c1 r l(1) by (intro exI [of _ "take n (cc_ahead net_pending fresh c) # pieces"] exI [of _ c']) (simp add: take_add)
qed

text \<open>(C22)
  Sniffing does not disturb the stream: on a new cached connection, any peeks of up to 4096 bytes in
  total return the consecutive pieces of what the peer sends, whatever segments it arrives in, and
  after rewinding to any earlier position (the start, or the end of a packet already parsed) the
  connection has again exactly the bytes of the stream from there on.\<close>

theorem sniffing_is_transparent:
  assumes "length fresh = CacheSize" "sum_list ns \<le> length (net_pending s)" "sum_list ns \<le> CacheSize" "ns \<noteq> []"
  shows "\<exists>pieces c'. peek_all net_Read fresh ns (NewCachedConn s) = Some (map (\<lambda>p. (p, None)) pieces, c') \<and>
     map length pieces = ns \<and> concat pieces = take (sum_list ns) (net_pending s) \<and>
     (\<forall>p \<le> sum_list ns. cc_ahead net_pending fresh (cc_Rewind (int p) c') = drop p (net_pending s) \<and>
        cc_CurrentPosition (cc_Rewind (int p) c') = int p)"
proof -
  let ?c = "NewCachedConn s"
  have "buf_wf (cc_newbuf fresh)" "buf_bytes (cc_newbuf fresh) = []" "b_start (cc_newbuf fresh) = 0"
    "b_len (cc_newbuf fresh) = int CacheSize"
    using assms(1) by (simp_all add: cc_newbuf_def buffer_defs)
  then have c: "cc_ok fresh ?c" "cc_ahead net_pending fresh ?c = net_pending s" "cc_at fresh ?c = 0"
    "cc_stream net_pending fresh ?c = net_pending s"
    using assms(1)
    by (simp_all add: cc_ok_def cc_buf_def NewCachedConn_def cc_ahead_def cc_stream_def cc_at_def)
  have l: "sum_list ns \<le> length (cc_ahead net_pending fresh ?c)" "cc_at fresh ?c + sum_list ns \<le> CacheSize"
    "ns \<noteq> [] \<or> cc_cache ?c \<noteq> None" using assms(2-4) c by simp_all
  from peek_all_stream [OF c(1) l] obtain pieces c' where
    r: "peek_all net_Read fresh ns ?c = Some (map (\<lambda>p. (p, None)) pieces, c')" "map length pieces = ns"
       "concat pieces = take (sum_list ns) (cc_ahead net_pending fresh ?c)" "cc_ok fresh c'"
       "cc_at fresh c' = cc_at fresh ?c + sum_list ns"
       "cc_stream net_pending fresh c' = cc_stream net_pending fresh ?c" "cc_cache c' \<noteq> None" by blast
  note r' = r(3,5,6) [unfolded c]
  have "cc_ahead net_pending fresh (cc_Rewind (int p) c') = drop p (net_pending s) \<and>
        cc_CurrentPosition (cc_Rewind (int p) c') = int p" if "p \<le> sum_list ns" for p
  proof
    show "cc_ahead net_pending fresh (cc_Rewind (int p) c') = drop p (net_pending s)"
      using net.cc_Rewind_stream [OF TrueI r(4) _ r(7), of p] that r' by simp
    show "cc_CurrentPosition (cc_Rewind (int p) c') = int p"
      using r(7) by (auto simp: cc_CurrentPosition_def cc_Rewind_def Buffer_CurrentPosition_def Buffer_Rewind_def)
  qed
  then show ?thesis using r(1,2) r'(1) by blast
qed

theorem sniffing_is_transparent_witness:
  "\<exists>pieces c'. peek_all net_Read (replicate 4096 0) [1, 2] (NewCachedConn [Chunk [1, 2], Chunk [3, 4]]) =
       Some (map (\<lambda>p. (p, None)) pieces, c') \<and> concat pieces = [1, 2, 3] \<and>
     cc_ahead net_pending (replicate 4096 0) (cc_Rewind 0 c') = [1, 2, 3, 4]"
proof -
  obtain pieces c' where r: "peek_all net_Read (replicate 4096 0) [1, 2] (NewCachedConn [Chunk [1, 2], Chunk [3, 4]]) =
       Some (map (\<lambda>p. (p, None)) pieces, c')" "concat pieces = take 3 [1, 2, 3, 4]"
    "\<forall>p \<le> sum_list [1, 2]. cc_ahead net_pending (replicate 4096 0) (cc_Rewind (int p) c') = drop p [1, 2, 3, 4] \<and>
        cc_CurrentPosition (cc_Rewind (int p) c') = int p"
    using sniffing_is_transparent [of "replicate 4096 0" "[1, 2]" "[Chunk [1, 2], Chunk [3, 4]]"]
    by (simp add: CacheSize_def) blast
  from r(3) [rule_format, of 0] r(1,2) show ?thesis by auto
qed

text \<open>The relay loop on a connection whose peer sends some segments and closes.\<close>

definition relay_buf :: "buffer \<Rightarrow> bool" where
  "relay_buf b \<longleftrightarrow> 0 < b_len b \<and> b_len b \<le> int (length (b_arr b))"

lemma relay_buf_step:
  assumes "relay_buf b"
  defines "r \<equiv> Buffer_Reset b 0"
  shows "Buffer_ReadOnceFrom net_Read r s =
      (case net_Read (nat (b_len b)) s of Some ((bs, err), s') \<Rightarrow> Some ((int (length bs), err), Buffer_absorb r bs, s') | None \<Rightarrow> None)"
    and "length bs \<le> nat (b_len b) \<Longrightarrow> relay_buf (Buffer_absorb r bs)"
    and "length bs \<le> nat (b_len b) \<Longrightarrow> b_len (Buffer_absorb r bs) = b_len b"
    and "length bs \<le> nat (b_len b) \<Longrightarrow> Buffer_WriteTo stream_writer (Buffer_absorb r bs) w = Some ((int (length bs), None), w @ bs)"
proof -
  have wf: "buf_wf r" "buf_free r = nat (b_len b)" "buf_bytes r = []"
    using assms(1) by (auto simp: r_def Buffer_Reset_def relay_buf_def buffer_defs)
  obtain room where room: "Buffer_FreeBytes r = Some room" "length room = nat (b_len b)"
    using Buffer_FreeBytes_wf [OF wf(1)] wf(2) by auto
  have "\<not> Buffer_IsFull r" using Buffer_IsFull_free [OF wf(1)] wf(2) assms(1) by (simp add: relay_buf_def)
  then show "Buffer_ReadOnceFrom net_Read r s =
      (case net_Read (nat (b_len b)) s of Some ((bs, err), s') \<Rightarrow> Some ((int (length bs), err), Buffer_absorb r bs, s') | None \<Rightarrow> None)"
    using room by (cases "net_Read (nat (b_len b)) s") (auto simp: Buffer_ReadOnceFrom_def)
  show "b_len (Buffer_absorb r bs) = b_len b" by (simp add: Buffer_absorb_def r_def Buffer_Reset_def)
  assume l: "length bs \<le> nat (b_len b)"
  note a = buf_append [OF wf(1) l [folded wf(2)]]
  have "length (b_arr (Buffer_absorb r bs)) = length (b_arr b)"
    using l assms(1) by (auto simp: Buffer_absorb_def r_def Buffer_Reset_def relay_buf_def)
  then show "relay_buf (Buffer_absorb r bs)"
    using assms(1) by (simp add: relay_buf_def Buffer_absorb_def r_def Buffer_Reset_def)
  show "Buffer_WriteTo stream_writer (Buffer_absorb r bs) w = Some ((int (length bs), None), w @ bs)"
    using a wf(3) by (simp add: Buffer_WriteTo_def stream_writer_def)
qed

lemma Copy_loop_step:
  assumes "relay_buf b" "net_Read (nat (b_len b)) s = Some ((bs, None), s')" "length bs \<le> nat (b_len b)"
  shows "Copy_loop net_Read stream_writer b n s w =
     Copy_loop net_Read stream_writer (Buffer_absorb (Buffer_Reset b 0) bs) (n + int (length bs)) s' (w @ bs)"
proof -
  note st = relay_buf_step [OF assms(1)]
  have a: "Buffer_ReadOnceFrom net_Read (Buffer_Reset b 0) s = Some ((int (length bs), None), Buffer_absorb (Buffer_Reset b 0) bs, s')"
    using st(1) [of s] assms(2) by simp
  note b = st(4) [OF assms(3), of w]
  show ?thesis
  proof (cases "bs = []")
    case True
    then show ?thesis using a by (subst Copy_loop.simps) simp
  next
    case False
    then show ?thesis using a b by (subst Copy_loop.simps) simp
  qed
qed

text \<open>What a script ends with: the peer's close, or its first failure, which may count as a close.\<close>

fun script_end :: "net_in \<Rightarrow> go_error option \<times> net_in" where
  "script_end [] = (None, [])"
| "script_end (Fail e # r) = (copy_final e, r)"
| "script_end (Chunk c # r) = script_end r"

lemma Copy_loop_stop:
  assumes "relay_buf b" "net_Read (nat (b_len b)) s = Some (([], Some e), s')"
  shows "Copy_loop net_Read stream_writer b n s w = Some ((n, copy_final e), s', w)"
  using relay_buf_step(1) [OF assms(1), of s] assms(2) by (subst Copy_loop.simps) simp

lemma Copy_loop_net:
  "relay_buf b \<Longrightarrow> Copy_loop net_Read stream_writer b n s w =
     Some ((n + int (length (net_pending s)), fst (script_end s)), snd (script_end s), w @ net_pending s)"
proof (induction "length s + length (net_pending s)" arbitrary: b n s w rule: less_induct)
  case less
  have pos: "0 < b_len b" using less.prems by (simp add: relay_buf_def)
  have eof: "copy_final EOF = None" by (simp add: copy_final_def)
  consider "s = []" | e r where "s = Fail e # r" | c r where "s = Chunk c # r"
    by (metis neq_Nil_conv net_event.exhaust)
  then show ?case
  proof cases
    case (3 c r)
    let ?k = "nat (b_len b)"
    let ?hd = "take ?k c" and ?tl = "if length c \<le> ?k then r else Chunk (drop ?k c) # r"
    have rd: "net_Read ?k s = Some ((?hd, None), ?tl)" and l: "length ?hd \<le> ?k" using pos 3 by auto
    have less': "length ?tl + length (net_pending ?tl) < length s + length (net_pending s)" using pos 3 by auto
    have sum: "?hd @ net_pending ?tl = net_pending s" "script_end ?tl = script_end s" using 3 by auto
    have buf': "relay_buf (Buffer_absorb (Buffer_Reset b 0) ?hd)" by (rule relay_buf_step(2) [OF less.prems l])
    have "Copy_loop net_Read stream_writer b n s w =
        Some ((n + int (length ?hd) + int (length (net_pending ?tl)), fst (script_end ?tl)), snd (script_end ?tl), (w @ ?hd) @ net_pending ?tl)"
      unfolding Copy_loop_step [OF less.prems rd l] by (rule less.hyps [OF less' buf'])
    then show ?thesis using sum by (simp only: append_assoc add.assoc flip: of_nat_add length_append)
  qed (use Copy_loop_stop [OF less.prems] eof in simp_all)
qed

text \<open>The bytes a connection has cached and not given out.\<close>

definition cc_unread :: "'s cconn \<Rightarrow> bytes" where
  "cc_unread c = (case cc_cache c of None \<Rightarrow> [] | Some k \<Rightarrow> buf_bytes k)"

lemma Copy_unwrap_empty:
  assumes "case cc_cache c of None \<Rightarrow> True | Some k \<Rightarrow> Buffer_Len k = 0"
  shows "Copy_unwrap wr c n w = Some ((n, None), cc_Release c, w)"
  using assms by (subst Copy_unwrap.simps) (auto split: option.splits)

lemma CopyBuffer_script:
  assumes "relay_buf b" "case cc_cache c of None \<Rightarrow> True | Some k \<Rightarrow> Buffer_Len k = 0"
  shows "CopyBuffer net_Read stream_writer b c w =
    Some ((int (length (net_pending (cc_conn c))), fst (script_end (cc_conn c))), snd (script_end (cc_conn c)), w @ net_pending (cc_conn c))"
  using Copy_loop_net [OF assms(1), of 0 "cc_conn c" w]
  by (simp add: CopyBuffer_def Copy_unwrap_empty [OF assms(2)] cc_Release_def)

lemma script_end_chunks [simp]: "script_end (map Chunk cs) = (None, [])"
  by (induction cs) simp_all

lemma net_pending_chunks: "net_pending (map Chunk cs) = concat cs"
  by (induction cs) simp_all

lemma CopyBuffer_net:
  assumes "relay_buf b" "case cc_cache c of None \<Rightarrow> True | Some k \<Rightarrow> Buffer_Len k = 0" "cc_conn c = map Chunk cs"
  shows "CopyBuffer net_Read stream_writer b c w = Some ((int (length (concat cs)), None), [], w @ concat cs)"
  using CopyBuffer_script [OF assms(1,2), of w] assms(3) by (simp add: net_pending_chunks)

lemma Copy_unwrap_returns:
  assumes "Copy_unwrap wr c n w = Some r" "\<forall>bs w. \<exists>k w'. wr bs w = Some ((k, None), w')"
  shows "case cc_cache c of None \<Rightarrow> True | Some b \<Rightarrow> Buffer_Len b = 0"
proof -
  let ?P = "\<lambda>wr c (n :: int) (w :: 'b) (r :: (int \<times> go_error option) \<times> 'a cconn \<times> 'b).
     (\<forall>bs w. \<exists>k w'. wr bs w = Some ((k, None :: go_error option), w')) \<longrightarrow>
     (case cc_cache c of None \<Rightarrow> True | Some b \<Rightarrow> Buffer_Len b = 0)"
  have "?P wr c n w r"
  proof (rule Copy_unwrap.raw_induct [where P = ?P, OF _ assms(1)], intro impI, rule ccontr, goal_cases)
    case (1 F wr c n w r)
    then obtain b where b: "cc_cache c = Some b" "Buffer_Len b \<noteq> 0" by (auto split: option.splits)
    have "(\<exists>k w'. Buffer_WriteTo wr b w = Some ((k, None), w')) \<or> Buffer_WriteTo wr b w = None"
    proof (cases "Buffer_Bytes b")
      case (Some a)
      obtain k w' where "wr a w = Some ((k, None), w')" using 1(3) by blast
      then show ?thesis using Some by (simp add: Buffer_WriteTo_def)
    qed (simp add: Buffer_WriteTo_def)
    with b 1(2) obtain k w' where "F wr c k w' = Some r" by auto
    then show False using 1(1) [of wr c k w' r] 1(3) b by auto
  qed
  with assms(2) show ?thesis by blast
qed

text \<open>A destination that takes \<open>n\<close> writes and fails from then on.\<close>

definition failing_writer :: "go_error \<Rightarrow> (nat \<times> bytes) writer" where
  "failing_writer e bs s =
     (case s of (n, w) \<Rightarrow> if n = 0 then Some ((0, Some e), (0, w)) else Some ((length bs, None), (n - 1, w @ bs)))"

lemma failing_writer_simps [simp]:
  "failing_writer e bs (0, w) = Some ((0, Some e), (0, w))"
  "failing_writer e bs (Suc n, w) = Some ((length bs, None), (n, w @ bs))"
  by (simp_all add: failing_writer_def)

lemma Copy_unwrap_repeats:
  assumes "cc_cache c = Some k" "buf_wf k" "buf_bytes k \<noteq> []"
  shows "Copy_unwrap (failing_writer e) c m (n, w) = Some ((0, Some e), c, (0, w @ concat (replicate n (buf_bytes k))))"
proof (induction n arbitrary: m w)
  case (Suc n)
  then show ?case
    using assms Buffer_Len_bytes [OF assms(2)] by (subst Copy_unwrap.simps) (simp add: Buffer_WriteTo_def del: length_buf_bytes)
qed (use assms Buffer_Len_bytes [OF assms(2)] in \<open>subst Copy_unwrap.simps; simp add: Buffer_WriteTo_def del: length_buf_bytes\<close>)

text \<open>(C23)
  What the relay does, in both of its cases and over any script of segments and failures. Without unread
  cached bytes it returns when the peer closes or a read fails, and by then the destination has every byte
  before that, in order, and the count returned is their number, whatever the sizes of the segments and of
  the buffer; an end-of-file or a closed connection is no error, anything else is reported. With
  unread cached bytes it writes these same bytes over and over (\<open>Buffer.WriteTo\<close> does not consume what it
  writes) and reads nothing: it does not return as long as the destination takes them, and when the
  destination fails after \<open>n\<close> writes, it has got them \<open>n\<close> times.\<close>

theorem CopyBuffer_forwards:
  assumes "relay_buf b" "\<forall>k. cc_cache c = Some k \<longrightarrow> buf_wf k"
  shows "(cc_unread c = [] \<longrightarrow>
      CopyBuffer net_Read stream_writer b c w =
        Some ((int (length (net_pending (cc_conn c))), fst (script_end (cc_conn c))), snd (script_end (cc_conn c)),
              w @ net_pending (cc_conn c))) \<and>
    (cc_unread c \<noteq> [] \<longrightarrow>
      CopyBuffer net_Read stream_writer b c w = None \<and>
      (\<forall>n e. CopyBuffer net_Read (failing_writer e) b c (n, w) =
         Some ((0, Some e), cc_conn c, (0, w @ concat (replicate n (cc_unread c))))))"
proof (intro conjI impI allI)
  assume "cc_unread c = []"
  then have "case cc_cache c of None \<Rightarrow> True | Some k \<Rightarrow> Buffer_Len k = 0"
    using assms(2) Buffer_Len_bytes by (fastforce simp: cc_unread_def split: option.splits simp del: length_buf_bytes)
  from CopyBuffer_script [OF assms(1) this] show "CopyBuffer net_Read stream_writer b c w =
        Some ((int (length (net_pending (cc_conn c))), fst (script_end (cc_conn c))), snd (script_end (cc_conn c)),
              w @ net_pending (cc_conn c))" .
next
  assume "cc_unread c \<noteq> []"
  then obtain k where k: "cc_cache c = Some k" "buf_wf k" "buf_bytes k \<noteq> []" "cc_unread c = buf_bytes k"
    using assms(2) by (auto simp: cc_unread_def split: option.splits)
  have "Buffer_Len k \<noteq> 0" using k(2,3) Buffer_Len_bytes [OF k(2)] by (simp del: length_buf_bytes)
  then show "CopyBuffer net_Read stream_writer b c w = None"
    using Copy_unwrap_returns [of stream_writer c 0 w] k(1)
    by (cases "Copy_unwrap stream_writer c 0 w") (auto simp: CopyBuffer_def stream_writer_def)
  show "CopyBuffer net_Read (failing_writer e) b c (n, w) =
         Some ((0, Some e), cc_conn c, (0, w @ concat (replicate n (cc_unread c))))" for n e
    by (simp add: CopyBuffer_def Copy_unwrap_repeats [OF k(1-3)] k(4))
qed

theorem CopyBuffer_forwards_witness:
  "CopyBuffer net_Read stream_writer (Buffer_With [0, 0] 2) (NewCachedConn [Chunk [1, 2, 3], Chunk [4], Fail ErrTimeout, Chunk [5]]) [] =
     Some ((4, Some ErrTimeout), [Chunk [5]], [1, 2, 3, 4]) \<and>
   CopyBuffer net_Read (failing_writer ErrTimeout) (Buffer_With [0, 0] 2) \<lparr>cc_conn = [Chunk [9]], cc_cache = Some (Buffer_As [7] 1)\<rparr> (3, []) =
     Some ((0, Some ErrTimeout), [Chunk [9]], (0, [7, 7, 7]))"
proof -
  have b: "relay_buf (Buffer_With [0, 0] 2)" by (simp add: relay_buf_def Buffer_With_def)
  have k: "buf_wf (Buffer_As [7] 1)" "buf_bytes (Buffer_As [7] 1) = [7]" by (simp_all add: Buffer_As_def buffer_defs)
  have e: "copy_final ErrTimeout = Some ErrTimeout" by (simp add: copy_final_def)
  show ?thesis
    using CopyBuffer_forwards [OF b, of "NewCachedConn [Chunk [1, 2, 3], Chunk [4], Fail ErrTimeout, Chunk [5]]" "[]"]
      CopyBuffer_forwards [OF b, of "\<lparr>cc_conn = [Chunk [9]], cc_cache = Some (Buffer_As [7] 1)\<rparr>" "[]"] k e
    by (simp add: NewCachedConn_def cc_unread_def numeral_3_eq_3)
qed

text \<open>For any destination that takes what it is given, the relay never gets past an unread cache: \<open>Buffer.WriteTo\<close> does not consume what it writes, so on
  a cached connection with unread bytes \<open>CopyBuffer\<close> writes the same bytes to the destination for
  ever, as long as the destination takes them. (The router relays exactly such connections after
  sniffing, whose peeks it has rewound.)\<close>

theorem CopyBuffer_cached_diverges:
  assumes "cc_cache c = Some k" "Buffer_Len k \<noteq> 0" "\<forall>bs w. \<exists>n w'. wr bs w = Some ((n, None), w')"
  shows "CopyBuffer rd wr b c w = None"
  using Copy_unwrap_returns [of wr c 0 w] assms
  by (cases "Copy_unwrap wr c 0 w") (auto simp: CopyBuffer_def)

theorem CopyBuffer_cached_diverges_witness:
  "CopyBuffer net_Read stream_writer (Buffer_With [0] 1)
     \<lparr>cc_conn = [], cc_cache = Some (Buffer_As [7] 1)\<rparr> [] = None"
  by (rule CopyBuffer_cached_diverges [where k = "Buffer_As [7] 1"])
     (simp_all add: Buffer_As_def Buffer_Len_def stream_writer_def)

end
