(* ===== verification/Upstream.thy ===== *)
theory Upstream
  imports CachedConns
begin

text \<open>
  Finding the connection under its wrappers (common/upstream.go). A cached connection can wrap
  another one; \<open>UpstreamReader\<close> and \<open>UpstreamWriter\<close> are those of common/bufio/cached.go, \<open>None\<close> is a
  nil interface.
\<close>

datatype 's stream = Raw 's | Cached "'s stream" "buffer option"

definition UpstreamReader :: "'s stream \<Rightarrow> buffer option \<Rightarrow> 's stream option" where
  "UpstreamReader inner cache =
     (case cache of
        None \<Rightarrow> Some inner
      | Some b \<Rightarrow> if Buffer_IsEmpty b then Some inner else None)"

definition UpstreamWriter :: "'s stream \<Rightarrow> buffer option \<Rightarrow> 's stream option" where
  "UpstreamWriter inner cache = Some inner"

text \<open>An upstream is the wrapped stream, so unwrapping ends.\<close>

lemma upstreams:
  "UpstreamReader inner cache = Some u \<Longrightarrow> u = inner" "UpstreamWriter inner cache = Some u \<Longrightarrow> u = inner"
  by (auto simp: UpstreamReader_def UpstreamWriter_def split: option.splits if_splits)

text \<open>The loops: they go on while the stream is a wrapper that gives its upstream away.\<close>

function UnwrapReader :: "'s stream \<Rightarrow> 's stream" where
  "UnwrapReader (Raw s) = Raw s"
| "UnwrapReader (Cached inner cache) =
     (case UpstreamReader inner cache of None \<Rightarrow> Cached inner cache | Some upstream \<Rightarrow> UnwrapReader upstream)"
  by pat_completeness auto

termination UnwrapReader
  by (relation "measure size") (auto dest: upstreams)

function UnwrapWriter :: "'s stream \<Rightarrow> 's stream" where
  "UnwrapWriter (Raw s) = Raw s"
| "UnwrapWriter (Cached inner cache) =
     (case UpstreamWriter inner cache of None \<Rightarrow> Cached inner cache | Some upstream \<Rightarrow> UnwrapWriter upstream)"
  by pat_completeness auto

termination UnwrapWriter
  by (relation "measure size") (auto dest: upstreams)

text \<open>What reading a stream can still give before its connection is read: the unread bytes of its caches, outermost first.\<close>

fun unread :: "'s stream \<Rightarrow> bytes" where
  "unread (Raw s) = []"
| "unread (Cached inner cache) = (case cache of None \<Rightarrow> [] | Some b \<Rightarrow> buf_bytes b) @ unread inner"

fun caches_wf :: "'s stream \<Rightarrow> bool" where
  "caches_wf (Raw s) = True"
| "caches_wf (Cached inner cache) = ((case cache of None \<Rightarrow> True | Some b \<Rightarrow> buf_wf b) \<and> caches_wf inner)"

text \<open>A writer unwraps to the connection itself; a reader does so without skipping unread bytes.\<close>

lemma UnwrapWriter_raw: "\<exists>s. UnwrapWriter st = Raw s"
  by (induction st) (auto simp: UpstreamWriter_def)

lemma UnwrapReader_unread:
  assumes "caches_wf st"
  shows "unread (UnwrapReader st) = unread st"
    "(\<exists>s. UnwrapReader st = Raw s) \<longleftrightarrow> unread st = []"
proof -
  have e: "Buffer_IsEmpty b \<longleftrightarrow> buf_bytes b = []" if "buf_wf b" for b
    using that Buffer_IsEmpty_bytes by blast
  show "unread (UnwrapReader st) = unread st"
    using assms e by (induction st) (auto simp: UpstreamReader_def split: option.splits)
  show "(\<exists>s. UnwrapReader st = Raw s) \<longleftrightarrow> unread st = []"
    using assms e by (induction st) (auto simp: UpstreamReader_def split: option.splits)
qed

end
