(* ===== verification/Messages.thy ===== *)
theory Messages
  imports Prelude
begin

text \<open>
  JSON values, and the chat message of the Minecraft protocol
  (common/mcprotocol/message.go): \<open>MarshalJSON\<close> with its two field tables and
  \<open>UnmarshalJSON\<close> with its three accepted forms.

  The encoding of JSON values as text belongs to \<open>encoding/json\<close>: values are the syntax trees
  below, and rendering and parsing are parameters where bytes are needed. Numbers are integers,
  all the program uses. Object keys are matched as \<open>encoding/json\<close> does, ignoring the case of
  ASCII letters. An error is one value: the texts of the package are not modelled, nor what a
  failed decoding has stored before it failed.
\<close>

datatype json =
    JNull | JBool bool | JNum int | JStr string
  | JArr "json list" | JObj "(string \<times> json) list"

definition json_error :: go_error where
  "json_error = ErrText ''json''"

definition key_is :: "string \<Rightarrow> string \<Rightarrow> bool" where
  "key_is key name \<longleftrightarrow> str_lower key = str_lower name"

datatype message = Message
  (msg_text: string) (msg_bold: bool) (msg_italic: bool) (msg_underlined: bool)
  (msg_strikethrough: bool) (msg_obfuscated: bool) (msg_font: string) (msg_color: string)
  (msg_insertion: string) (msg_translate: string) (msg_with: "message list") (msg_extra: "message list")

definition zero_message :: message where
  "zero_message = Message [] False False False False False [] [] [] [] [] []"

definition text_message :: "string \<Rightarrow> message" where
  "text_message t = Message t False False False False False [] [] [] [] [] []"

section \<open>Encoding\<close>

text \<open>A field with \<open>omitempty\<close>.\<close>

definition opt_str :: "string \<Rightarrow> string \<Rightarrow> (string \<times> json) list" where
  "opt_str k v = (if v = [] then [] else [(k, JStr v)])"

definition opt_bool :: "string \<Rightarrow> bool \<Rightarrow> (string \<times> json) list" where
  "opt_bool k v = (if v then [(k, JBool True)] else [])"

definition opt_arr :: "string \<Rightarrow> json list \<Rightarrow> (string \<times> json) list" where
  "opt_arr k v = (if v = [] then [] else [(k, JArr v)])"

text \<open>\<open>MarshalJSON\<close>: \<open>text\<close> is omitted when empty only for a translated message.\<close>

fun message_json :: "message \<Rightarrow> json" where
  "message_json (Message t b i u s ob font color ins tr w e) =
     JObj ((if tr \<noteq> [] then opt_str ''text'' t else [(''text'', JStr t)]) @
           opt_bool ''bold'' b @ opt_bool ''italic'' i @ opt_bool ''underlined'' u @
           opt_bool ''strikethrough'' s @ opt_bool ''obfuscated'' ob @
           opt_str ''font'' font @ opt_str ''color'' color @ opt_str ''insertion'' ins @
           opt_str ''translate'' tr @
           opt_arr ''with'' (map message_json w) @ opt_arr ''extra'' (map message_json e))"

section \<open>Decoding\<close>

text \<open>A scalar field: \<open>null\<close> leaves it, another type is an error.\<close>

definition get_str :: "json \<Rightarrow> string \<Rightarrow> go_error + string" where
  "get_str j old = (case j of JStr s \<Rightarrow> Inr s | JNull \<Rightarrow> Inr old | _ \<Rightarrow> Inl json_error)"

definition get_bool :: "json \<Rightarrow> bool \<Rightarrow> go_error + bool" where
  "get_bool j old = (case j of JBool b \<Rightarrow> Inr b | JNull \<Rightarrow> Inr old | _ \<Rightarrow> Inl json_error)"

primrec set_text :: "string \<Rightarrow> message \<Rightarrow> message" where
  "set_text x (Message t b i u s ob f c n tr w e) = Message x b i u s ob f c n tr w e"
primrec set_bold :: "bool \<Rightarrow> message \<Rightarrow> message" where
  "set_bold x (Message t b i u s ob f c n tr w e) = Message t x i u s ob f c n tr w e"
primrec set_italic :: "bool \<Rightarrow> message \<Rightarrow> message" where
  "set_italic x (Message t b i u s ob f c n tr w e) = Message t b x u s ob f c n tr w e"
primrec set_underlined :: "bool \<Rightarrow> message \<Rightarrow> message" where
  "set_underlined x (Message t b i u s ob f c n tr w e) = Message t b i x s ob f c n tr w e"
primrec set_strikethrough :: "bool \<Rightarrow> message \<Rightarrow> message" where
  "set_strikethrough x (Message t b i u s ob f c n tr w e) = Message t b i u x ob f c n tr w e"
primrec set_obfuscated :: "bool \<Rightarrow> message \<Rightarrow> message" where
  "set_obfuscated x (Message t b i u s ob f c n tr w e) = Message t b i u s x f c n tr w e"
primrec set_font :: "string \<Rightarrow> message \<Rightarrow> message" where
  "set_font x (Message t b i u s ob f c n tr w e) = Message t b i u s ob x c n tr w e"
primrec set_color :: "string \<Rightarrow> message \<Rightarrow> message" where
  "set_color x (Message t b i u s ob f c n tr w e) = Message t b i u s ob f x n tr w e"
primrec set_insertion :: "string \<Rightarrow> message \<Rightarrow> message" where
  "set_insertion x (Message t b i u s ob f c n tr w e) = Message t b i u s ob f c x tr w e"
primrec set_translate :: "string \<Rightarrow> message \<Rightarrow> message" where
  "set_translate x (Message t b i u s ob f c n tr w e) = Message t b i u s ob f c n x w e"
primrec set_with :: "message list \<Rightarrow> message \<Rightarrow> message" where
  "set_with x (Message t b i u s ob f c n tr w e) = Message t b i u s ob f c n tr x e"
primrec set_extra :: "message list \<Rightarrow> message \<Rightarrow> message" where
  "set_extra x (Message t b i u s ob f c n tr w e) = Message t b i u s ob f c n tr w x"

text \<open>
  \<open>UnmarshalJSON\<close>: a string is the text, an object sets the named fields (others are ignored),
  an array sets \<open>extra\<close>, anything else is an error. Array elements start from the zero message.
\<close>

fun unmarshal_message :: "json \<Rightarrow> message \<Rightarrow> go_error + message"
  and unmarshal_fields :: "(string \<times> json) list \<Rightarrow> message \<Rightarrow> go_error + message"
  and unmarshal_field :: "string \<Rightarrow> json \<Rightarrow> message \<Rightarrow> go_error + message"
  and unmarshal_list :: "json list \<Rightarrow> go_error + message list" where
  "unmarshal_message (JStr s) m = Inr (set_text s m)"
| "unmarshal_message (JObj fs) m = unmarshal_fields fs m"
| "unmarshal_message (JArr xs) m = map_Inr (\<lambda>l. set_extra l m) (unmarshal_list xs)"
| "unmarshal_message _ m = Inl (ErrText ''unknown chat message type'')"
| "unmarshal_fields [] m = Inr m"
| "unmarshal_fields ((k, v) # fs) m =
     (case unmarshal_field k v m of Inl e \<Rightarrow> Inl e | Inr m' \<Rightarrow> unmarshal_fields fs m')"
| "unmarshal_field k v m =
     (if key_is k ''text'' then map_Inr (\<lambda>x. set_text x m) (get_str v (msg_text m))
      else if key_is k ''bold'' then map_Inr (\<lambda>x. set_bold x m) (get_bool v (msg_bold m))
      else if key_is k ''italic'' then map_Inr (\<lambda>x. set_italic x m) (get_bool v (msg_italic m))
      else if key_is k ''underlined'' then map_Inr (\<lambda>x. set_underlined x m) (get_bool v (msg_underlined m))
      else if key_is k ''strikethrough'' then map_Inr (\<lambda>x. set_strikethrough x m) (get_bool v (msg_strikethrough m))
      else if key_is k ''obfuscated'' then map_Inr (\<lambda>x. set_obfuscated x m) (get_bool v (msg_obfuscated m))
      else if key_is k ''font'' then map_Inr (\<lambda>x. set_font x m) (get_str v (msg_font m))
      else if key_is k ''color'' then map_Inr (\<lambda>x. set_color x m) (get_str v (msg_color m))
      else if key_is k ''insertion'' then map_Inr (\<lambda>x. set_insertion x m) (get_str v (msg_insertion m))
      else if key_is k ''translate'' then map_Inr (\<lambda>x. set_translate x m) (get_str v (msg_translate m))
      else if key_is k ''with'' then
        (case v of JArr xs \<Rightarrow> map_Inr (\<lambda>l. set_with l m) (unmarshal_list xs)
                 | JNull \<Rightarrow> Inr (set_with [] m) | _ \<Rightarrow> Inl json_error)
      else if key_is k ''extra'' then
        (case v of JArr xs \<Rightarrow> map_Inr (\<lambda>l. set_extra l m) (unmarshal_list xs)
                 | JNull \<Rightarrow> Inr (set_extra [] m) | _ \<Rightarrow> Inl json_error)
      else Inr m)"
| "unmarshal_list [] = Inr []"
| "unmarshal_list (x # xs) =
     (case unmarshal_message x zero_message of
        Inl e \<Rightarrow> Inl e
      | Inr m \<Rightarrow> map_Inr (\<lambda>ms. m # ms) (unmarshal_list xs))"

declare unmarshal_field.simps [simp del]

text \<open>The field names are distinct, also when case is ignored.\<close>

lemma lower_names [simp]:
  "str_lower ''text'' = ''text''" "str_lower ''bold'' = ''bold''" "str_lower ''italic'' = ''italic''"
  "str_lower ''underlined'' = ''underlined''" "str_lower ''strikethrough'' = ''strikethrough''"
  "str_lower ''obfuscated'' = ''obfuscated''" "str_lower ''font'' = ''font''" "str_lower ''color'' = ''color''"
  "str_lower ''insertion'' = ''insertion''" "str_lower ''translate'' = ''translate''"
  "str_lower ''with'' = ''with''" "str_lower ''extra'' = ''extra''"
  by (simp_all add: str_lower_def char_lower_def)

lemma unmarshal_field_names:
  "unmarshal_field ''text'' v m = map_Inr (\<lambda>x. set_text x m) (get_str v (msg_text m))"
  "unmarshal_field ''bold'' v m = map_Inr (\<lambda>x. set_bold x m) (get_bool v (msg_bold m))"
  "unmarshal_field ''italic'' v m = map_Inr (\<lambda>x. set_italic x m) (get_bool v (msg_italic m))"
  "unmarshal_field ''underlined'' v m = map_Inr (\<lambda>x. set_underlined x m) (get_bool v (msg_underlined m))"
  "unmarshal_field ''strikethrough'' v m = map_Inr (\<lambda>x. set_strikethrough x m) (get_bool v (msg_strikethrough m))"
  "unmarshal_field ''obfuscated'' v m = map_Inr (\<lambda>x. set_obfuscated x m) (get_bool v (msg_obfuscated m))"
  "unmarshal_field ''font'' v m = map_Inr (\<lambda>x. set_font x m) (get_str v (msg_font m))"
  "unmarshal_field ''color'' v m = map_Inr (\<lambda>x. set_color x m) (get_str v (msg_color m))"
  "unmarshal_field ''insertion'' v m = map_Inr (\<lambda>x. set_insertion x m) (get_str v (msg_insertion m))"
  "unmarshal_field ''translate'' v m = map_Inr (\<lambda>x. set_translate x m) (get_str v (msg_translate m))"
  "unmarshal_field ''with'' (JArr xs) m = map_Inr (\<lambda>l. set_with l m) (unmarshal_list xs)"
  "unmarshal_field ''extra'' (JArr xs) m = map_Inr (\<lambda>l. set_extra l m) (unmarshal_list xs)"
  by (simp_all add: unmarshal_field.simps key_is_def)

lemma unmarshal_fields_append:
  "unmarshal_fields (fs @ gs) m =
     (case unmarshal_fields fs m of Inl e \<Rightarrow> Inl e | Inr m' \<Rightarrow> unmarshal_fields gs m')"
  by (induction fs arbitrary: m) (auto split: sum.splits)

lemma unmarshal_opt_str:
  "unmarshal_field k (JStr v) m = Inr (g v m) \<Longrightarrow> g [] m = m \<Longrightarrow>
   unmarshal_fields (opt_str k v) m = Inr (g v m)"
  by (simp add: opt_str_def)

lemma unmarshal_opt_bool:
  "unmarshal_field k (JBool True) m = Inr (g True m) \<Longrightarrow> g False m = m \<Longrightarrow>
   unmarshal_fields (opt_bool k v) m = Inr (g v m)"
  by (cases v) (simp_all add: opt_bool_def)

lemma unmarshal_opt_arr:
  "unmarshal_field k (JArr (map h xs)) m = Inr (g xs m) \<Longrightarrow> g [] m = m \<Longrightarrow>
   unmarshal_fields (opt_arr k (map h xs)) m = Inr (g xs m)"
  by (simp add: opt_arr_def)

lemma unmarshal_list_map:
  "(\<And>x. x \<in> set xs \<Longrightarrow> unmarshal_message (message_json x) zero_message = Inr x) \<Longrightarrow>
   unmarshal_list (map message_json xs) = Inr xs"
  by (induction xs) simp_all

lemma unmarshal_message_json: "unmarshal_message (message_json m) zero_message = Inr m"
proof (induction m)
  case (Message t b i u s ob font color ins tr w e)
  have w: "unmarshal_list (map message_json w) = Inr w" "unmarshal_list (map message_json e) = Inr e"
    using Message by (auto intro: unmarshal_list_map)
  have head_field: "unmarshal_fields (if tr \<noteq> [] then opt_str ''text'' t else [(''text'', JStr t)]) zero_message =
      Inr (text_message t)"
    by (simp add: opt_str_def unmarshal_field_names get_str_def zero_message_def text_message_def)
  note u = unmarshal_opt_str [where g = set_font] unmarshal_opt_str [where g = set_color]
    unmarshal_opt_str [where g = set_insertion] unmarshal_opt_str [where g = set_translate]
    unmarshal_opt_bool [where g = set_bold] unmarshal_opt_bool [where g = set_italic]
    unmarshal_opt_bool [where g = set_underlined] unmarshal_opt_bool [where g = set_strikethrough]
    unmarshal_opt_bool [where g = set_obfuscated]
    unmarshal_opt_arr [where g = set_with] unmarshal_opt_arr [where g = set_extra]
  show ?case
    by (simp add: unmarshal_fields_append head_field text_message_def unmarshal_field_names get_str_def get_bool_def w
        u(1) [of "''font''"] u(2) [of "''color''"] u(3) [of "''insertion''"] u(4) [of "''translate''"]
        u(5) [of "''bold''"] u(6) [of "''italic''"] u(7) [of "''underlined''"] u(8) [of "''strikethrough''"]
        u(9) [of "''obfuscated''"] u(10) [of "''with''"] u(11) [of "''extra''"])
qed

section \<open>Properties\<close>

text \<open>The chat message survives its JSON form: decoding the encoding of any message, nested
  components included, into a zero message gives the message back, although the two field tables
  omit empty fields differently; and a bare string and an array are accepted as well.\<close>

theorem message_json_roundtrip:
  "unmarshal_message (message_json m) zero_message = Inr m \<and>
   unmarshal_message (JStr t) zero_message = Inr (text_message t) \<and>
   unmarshal_message (JArr (map message_json ms)) zero_message = Inr (set_extra ms zero_message)"
  using unmarshal_message_json unmarshal_list_map [of ms]
  by (simp add: text_message_def zero_message_def)

end
