(* ===== verification/Access.thy ===== *)
theory Access
  imports GoIO Messages
begin

text \<open>
  Who may connect: string sets (common/set/set.go), the allow and block lists over them
  (common/access), and the pre-shared key handshake (common/authsecret/authsecret.go).
\<close>

section \<open>String sets\<close>

text \<open>A \<open>StringSet\<close> is the set of the map's keys; the order of iteration is a parameter.\<close>

type_synonym string_set = "string set"

definition Set_Has :: "string_set \<Rightarrow> string \<Rightarrow> bool" where
  "Set_Has s item = (item \<in> s)"

definition Set_Add :: "string_set \<Rightarrow> string \<Rightarrow> string_set" where
  "Set_Add s item = insert item s"

definition Set_Delete :: "string_set \<Rightarrow> string \<Rightarrow> string_set" where
  "Set_Delete s item = s - {item}"

definition NewStringSetFromSlice :: "string list \<Rightarrow> string_set" where
  "NewStringSetFromSlice xs = fold (\<lambda>item s. Set_Add s item) xs {}"

definition Set_MarshalJSON :: "(string_set \<Rightarrow> string list) \<Rightarrow> string_set \<Rightarrow> json" where
  "Set_MarshalJSON enum s = JArr (map JStr (enum s))"

text \<open>A slice of strings: \<open>null\<close> is the nil slice, a \<open>null\<close> element the empty string.\<close>

primrec json_strings :: "json list \<Rightarrow> go_error + string list" where
  "json_strings [] = Inr []"
| "json_strings (x # xs) =
     (case get_str x [] of Inl e \<Rightarrow> Inl e | Inr s \<Rightarrow> map_Inr (\<lambda>l. s # l) (json_strings xs))"

definition json_string_slice :: "json \<Rightarrow> go_error + string list" where
  "json_string_slice j = (case j of JNull \<Rightarrow> Inr [] | JArr xs \<Rightarrow> json_strings xs | _ \<Rightarrow> Inl json_error)"

definition Set_UnmarshalJSON :: "json \<Rightarrow> go_error + string_set" where
  "Set_UnmarshalJSON j = map_Inr NewStringSetFromSlice (json_string_slice j)"

lemma NewStringSetFromSlice_set [simp]: "NewStringSetFromSlice xs = set xs"
proof -
  have "fold (\<lambda>item s. Set_Add s item) xs S = set xs \<union> S" for S
    by (induction xs arbitrary: S) (auto simp: Set_Add_def)
  then show ?thesis by (simp add: NewStringSetFromSlice_def)
qed

lemma json_strings_map [simp]: "json_strings (map JStr xs) = Inr xs"
  by (induction xs) (simp_all add: get_str_def)

section \<open>Access lists\<close>

definition DefaultMode :: string where "DefaultMode = []"
definition AllowMode :: string where "AllowMode = ''allow''"
definition BlockMode :: string where "BlockMode = ''block''"

fun access_hit :: "string_set list \<Rightarrow> string \<Rightarrow> bool" where
  "access_hit [] item = False"
| "access_hit (l # ls) item = (if Set_Has l item then True else access_hit ls item)"

definition access_Check :: "string_set list \<Rightarrow> string \<Rightarrow> string \<Rightarrow> bool option" where
  "access_Check ls mode item =
     (let hit = access_hit ls item in
      if mode = AllowMode then Some (if \<not> hit then False else True)
      else if mode = BlockMode then Some (if hit then False else True)
      else None)"

lemma access_hit_iff: "access_hit ls item \<longleftrightarrow> (\<exists>l \<in> set ls. item \<in> l)"
  by (induction ls) (auto simp: Set_Has_def)

section \<open>The pre-shared key\<close>

definition auth_MaxLen :: nat where "auth_MaxLen = 128"
definition auth_DefaultTimeout :: int where "auth_DefaultTimeout = 5 * 10 ^ 9"

text \<open>\<open>nil\<close> and an empty slice are not distinguished by the callers: both are the empty list.\<close>

definition auth_Normalize :: "string \<Rightarrow> go_error + bytes" where
  "auth_Normalize secret =
     (if secret = [] then Inr []
      else if length secret > auth_MaxLen then Inl AuthErrTooLong
      else Inr (str_bytes secret))"

definition auth_Write :: "'w writer \<Rightarrow> bytes \<Rightarrow> 'w \<Rightarrow> (go_error option \<times> 'w) option" where
  "auth_Write wr secret w =
     (if length secret = 0 then Some (None, w)
      else do {
        ((n, err), w') \<leftarrow> wr secret w;
        (case err of
           Some e \<Rightarrow> Some (Some e, w')
         | None \<Rightarrow> Some (if n \<noteq> length secret then Some AuthErrWriteFailed else None, w'))
      })"

text \<open>
  \<open>subtle.ConstantTimeCompare\<close>: 1 when the lengths and all bytes are equal; it accumulates the
  differences of all positions.
\<close>

definition ConstantTimeCompare :: "bytes \<Rightarrow> bytes \<Rightarrow> nat" where
  "ConstantTimeCompare x y =
     (if length x \<noteq> length y then 0
      else let v = foldl (\<lambda>v (a, b). v OR (a XOR b)) 0 (zip x y) in if v = 0 then 1 else 0)"

text \<open>
  \<open>Verify\<close> at time \<open>now\<close>; the second component lists the read deadlines it sets on the connection
  (\<open>None\<close> is the zero time, no deadline).
\<close>

definition auth_Verify ::
  "'s reader \<Rightarrow> int \<Rightarrow> bytes \<Rightarrow> int \<Rightarrow> 's \<Rightarrow> ((go_error option \<times> int option list) \<times> 's) option" where
  "auth_Verify rd now secret timeout s =
     (if length secret = 0 then Some ((Some AuthErrEmpty, []), s)
      else if length secret > auth_MaxLen then Some ((Some AuthErrTooLong, []), s)
      else do {
        let timeout = (if timeout \<le> 0 then auth_DefaultTimeout else timeout);
        ((bs, err), s') \<leftarrow> ReadFull rd (length secret) s;
        let res = (case err of
            Some e \<Rightarrow> if Unwrap e = ErrUnexpectedEOF \<or> Unwrap e = EOF then Some AuthErrShortRead else Some e
          | None \<Rightarrow> if length bs \<noteq> length secret then Some AuthErrShortRead
                    else if ConstantTimeCompare bs secret \<noteq> 1 then Some AuthErrMismatch else None);
        Some ((res, [Some (now + timeout), None]), s')
      })"

lemma foldl_or_zero:
  "foldl (\<lambda>v (a, b). v OR (a XOR b)) (v :: byte) ps = 0 \<longleftrightarrow> v = 0 \<and> (\<forall>(a, b) \<in> set ps. a = b)"
proof (induction ps arbitrary: v)
  case (Cons p ps)
  obtain a b where p: "p = (a, b)" by (cases p)
  have "v OR (a XOR b) = 0 \<longleftrightarrow> v = 0 \<and> a = b"
    by (auto simp: bit_eq_iff bit_simps)
  then show ?case using Cons.IH by (auto simp: p)
qed simp

lemma ConstantTimeCompare_eq: "ConstantTimeCompare x y = 1 \<longleftrightarrow> x = y"
proof (cases "length x = length y")
  case True
  have "(\<forall>(a, b) \<in> set (zip x y). a = b) \<longleftrightarrow> x = y"
    using True by (induction rule: list_induct2) auto
  then show ?thesis using True by (simp add: ConstantTimeCompare_def foldl_or_zero)
qed (auto simp: ConstantTimeCompare_def)

context io_reader
begin

lemma auth_Verify_delivers:
  assumes "inv s" "0 < length secret" "length secret \<le> auth_MaxLen" "length secret \<le> length (pending s)"
  shows "\<exists>s' dls. auth_Verify rd now secret timeout s =
      Some ((if take (length secret) (pending s) = secret then None else Some AuthErrMismatch, dls), s') \<and>
    last dls = None \<and> pending s' = drop (length secret) (pending s) \<and> inv s'"
proof -
  from ReadFull_delivers [OF assms(1,4)] obtain s' where
    r: "ReadFull rd (length secret) s = Some ((take (length secret) (pending s), None), s')"
       "pending s' = drop (length secret) (pending s)" "inv s'" by blast
  then show ?thesis
    using assms by (auto simp: auth_Verify_def Let_def ConstantTimeCompare_eq ConstantTimeCompare_eq [unfolded One_nat_def])
qed

end

text \<open>A network reader that ends early: the bytes of all segments, then end-of-file.\<close>

lemma net_loop_short:
  "length acc + length (concat cs) < n \<Longrightarrow>
   ReadAtLeast_loop net_Read n n acc (map Chunk cs) = Some ((acc @ concat cs, Some EOF), [])"
proof (induction cs arbitrary: acc)
  case Nil
  then show ?case by (subst ReadAtLeast_loop.simps) simp
next
  case (Cons c cs)
  have "ReadAtLeast_loop net_Read n n (acc @ c) (map Chunk cs) = Some ((acc @ c @ concat cs, Some EOF), [])"
    using Cons.IH [of "acc @ c"] Cons.prems by simp
  then show ?case using Cons.prems by (subst ReadAtLeast_loop.simps) auto
qed

lemma net_ReadFull_short:
  "length (concat cs) < n \<Longrightarrow>
   ReadFull net_Read n (map Chunk cs) =
     Some ((concat cs, Some (if concat cs \<noteq> [] then ErrUnexpectedEOF else EOF)), [])"
  using net_loop_short [of "[]" cs n] by (simp add: ReadFull_def ReadAtLeast_def)

section \<open>Properties\<close>

text \<open>(C39)
  The pre-shared key handshake: the bytes \<open>Write\<close> sends for a normalised secret are those
  \<open>Verify\<close> consumes. Whatever segments the network delivers, \<open>Verify\<close> succeeds exactly when the
  first bytes of the stream are the secret, consumes exactly its length and leaves the rest for the
  proxied protocol, always clears the read deadline, and reports a short read when the stream ends early.\<close>

theorem auth_handshake:
  assumes "auth_Normalize key = Inr secret" "key \<noteq> []"
  shows "auth_Write wr secret w = (do {
           ((n, err), w') \<leftarrow> wr secret w;
           Some (case err of Some e \<Rightarrow> Some e | None \<Rightarrow> if n \<noteq> length secret then Some AuthErrWriteFailed else None, w') }) \<and>
    secret = str_bytes key \<and>
    (length secret \<le> length (net_pending s) \<longrightarrow>
       (\<exists>s' dls. auth_Verify net_Read now secret timeout s =
          Some ((if take (length secret) (net_pending s) = secret then None else Some AuthErrMismatch, dls), s') \<and>
          last dls = None \<and> net_pending s' = drop (length secret) (net_pending s))) \<and>
    (length (concat cs) < length secret \<longrightarrow>
       (\<exists>dls. auth_Verify net_Read now secret timeout (map Chunk cs) = Some ((Some AuthErrShortRead, dls), []) \<and>
              last dls = None))"
proof (intro conjI impI)
  have key: "secret = str_bytes key" "0 < length secret" "length secret \<le> auth_MaxLen"
    using assms by (auto simp: auth_Normalize_def split: if_splits)
  then show "secret = str_bytes key" by simp
  show "auth_Write wr secret w = (do {
           ((n, err), w') \<leftarrow> wr secret w;
           Some (case err of Some e \<Rightarrow> Some e | None \<Rightarrow> if n \<noteq> length secret then Some AuthErrWriteFailed else None, w') })"
    using key(2) by (cases "wr secret w") (auto simp: auth_Write_def split: option.splits)
  show "\<exists>s' dls. auth_Verify net_Read now secret timeout s =
          Some ((if take (length secret) (net_pending s) = secret then None else Some AuthErrMismatch, dls), s') \<and>
          last dls = None \<and> net_pending s' = drop (length secret) (net_pending s)"
    if "length secret \<le> length (net_pending s)"
    using net.auth_Verify_delivers [OF TrueI key(2,3) that] by blast
  show "\<exists>dls. auth_Verify net_Read now secret timeout (map Chunk cs) = Some ((Some AuthErrShortRead, dls), []) \<and>
              last dls = None"
    if "length (concat cs) < length secret"
    using net_ReadFull_short [OF that] key(2,3) by (auto simp: auth_Verify_def Let_def)
qed

theorem auth_handshake_witness:
  "\<exists>s' dls. auth_Verify net_Read 0 (str_bytes ''ab'') 0 [Chunk [97], Chunk [98, 7]] = Some ((None, dls), s') \<and>
     net_pending s' = [7]"
proof -
  have n: "auth_Normalize ''ab'' = Inr (str_bytes ''ab'')" by (simp add: auth_Normalize_def auth_MaxLen_def)
  have b: "str_bytes ''ab'' = [97, 98]" by (simp add: str_bytes_def)
  show ?thesis
    using auth_handshake [OF n, where wr = "\<lambda>bs w. None" and w = "()" and cs = "[]" and
        s = "[Chunk [97], Chunk [98, 7]]" and now = 0 and timeout = 0] b by auto
qed

text \<open>Access lists: in allow mode an item passes exactly when one of the lists has it, in block mode
  exactly when none has, and any other mode, the empty default included, panics; the lists
  are the sets of the configured strings, whatever their order or repetition.\<close>

theorem access_Check_spec:
  "access_Check (map NewStringSetFromSlice ls) mode item =
     (if mode = AllowMode then Some (\<exists>l \<in> set ls. item \<in> set l)
      else if mode = BlockMode then Some (\<not> (\<exists>l \<in> set ls. item \<in> set l))
      else None)"
  by (simp add: access_Check_def access_hit_iff)

end
