(* ===== verification/NetAddr.thy ===== *)
theory NetAddr
  imports Prelude
begin

text \<open>
  The parts of Go's \<open>net/netip\<close>, \<open>net\<close> and \<open>strconv\<close> that the program uses on addresses: the
  address value, its byte and text forms, and decimal numbers. An address is the zero value, an IPv4
  address, or an IPv6 address with a zone.
\<close>

section \<open>Decimal numbers\<close>

definition digit_char :: "nat \<Rightarrow> char" where
  "digit_char d = char_of (48 + d)"

fun dec :: "nat \<Rightarrow> string" where
  "dec n = (if n < 10 then [digit_char n] else dec (n div 10) @ [digit_char (n mod 10)])"

declare dec.simps [simp del]

definition is_digit :: "char \<Rightarrow> bool" where
  "is_digit c \<longleftrightarrow> 48 \<le> (of_char c :: nat) \<and> (of_char c :: nat) \<le> 57"

definition digit_val :: "char \<Rightarrow> nat" where
  "digit_val c = of_char c - 48"

definition dec_val :: "string \<Rightarrow> nat" where
  "dec_val s = foldl (\<lambda>n c. 10 * n + digit_val c) 0 s"

text \<open>\<open>strconv.FormatInt\<close> and \<open>strconv.ParseUint(s, 10, bits)\<close>.\<close>

definition FormatInt :: "int \<Rightarrow> string" where
  "FormatInt n = (if n < 0 then CHR ''-'' # dec (nat (- n)) else dec (nat n))"

definition ParseUint :: "string \<Rightarrow> nat \<Rightarrow> go_error + nat" where
  "ParseUint s bits =
     (if s = [] \<or> \<not> list_all is_digit s then Inl (ErrText ''invalid syntax'')
      else if dec_val s \<ge> 2 ^ bits then Inl (ErrText ''value out of range'')
      else Inr (dec_val s))"

lemma digit_char_facts [simp]:
  assumes "d < 10"
  shows "is_digit (digit_char d)" "digit_val (digit_char d) = d" "of_char (digit_char d) = (48 + d :: nat)"
  using assms by (simp_all add: is_digit_def digit_val_def digit_char_def)

lemma dec_digits: "list_all is_digit (dec n)" "dec n \<noteq> []"
  by (induction n rule: dec.induct) (subst dec.simps; simp)+

lemma dec_val_snoc: "dec_val (s @ [c]) = 10 * dec_val s + digit_val c"
  by (simp add: dec_val_def)

lemma dec_val_dec [simp]: "dec_val (dec n) = n"
proof (induction n rule: dec.induct)
  case (1 n)
  show ?case
  proof (cases "n < 10")
    case True
    then show ?thesis by (subst dec.simps) (simp add: dec_val_def)
  next
    case False
    then show ?thesis using 1 by (subst dec.simps) (simp add: dec_val_snoc)
  qed
qed

lemma dec_length: "n < 10 ^ Suc k \<Longrightarrow> length (dec n) \<le> Suc k"
proof (induction k arbitrary: n)
  case 0
  then show ?case by (subst dec.simps) simp
next
  case (Suc k)
  have "n div 10 < 10 ^ Suc k" using Suc.prems by (simp add: less_mult_imp_div_less)
  from Suc.IH [OF this] show ?case by (subst dec.simps) simp
qed

lemma ParseUint_dec: "n < 2 ^ bits \<Longrightarrow> ParseUint (dec n) bits = Inr n"
  by (simp add: ParseUint_def dec_digits)

lemma is_digit_not [simp]:
  "\<not> is_digit (CHR ''.'')" "\<not> is_digit (CHR '':'')" "\<not> is_digit (CHR ''%'')" "\<not> is_digit (CHR '' '')" "\<not> is_digit (CHR 0x0D)"
  by (simp_all add: is_digit_def)

section \<open>Addresses\<close>

datatype addr = AddrZero | Addr4 "32 word" | Addr6 "128 word" string

record addr_port =
  ap_addr :: addr
  ap_port :: "16 word"

definition AddrPortFrom :: "addr \<Rightarrow> 16 word \<Rightarrow> addr_port" where
  "AddrPortFrom a p = \<lparr>ap_addr = a, ap_port = p\<rparr>"

definition AddrFrom4 :: "bytes \<Rightarrow> addr" where
  "AddrFrom4 bs = Addr4 (be_word bs)"

definition AddrFrom16 :: "bytes \<Rightarrow> addr" where
  "AddrFrom16 bs = Addr6 (be_word bs) []"

definition IPv4Unspecified :: addr where "IPv4Unspecified = Addr4 0"
definition IPv6Unspecified :: addr where "IPv6Unspecified = Addr6 0 []"

definition Addr_IsValid :: "addr \<Rightarrow> bool" where
  "Addr_IsValid a \<longleftrightarrow> a \<noteq> AddrZero"

definition AddrPort_IsValid :: "addr_port \<Rightarrow> bool" where
  "AddrPort_IsValid p \<longleftrightarrow> Addr_IsValid (ap_addr p)"

fun Addr_Is4 :: "addr \<Rightarrow> bool" where
  "Addr_Is4 (Addr4 _) = True"
| "Addr_Is4 _ = False"

fun Addr_Is6 :: "addr \<Rightarrow> bool" where
  "Addr_Is6 (Addr6 _ _) = True"
| "Addr_Is6 _ = False"

fun Addr_AsSlice :: "addr \<Rightarrow> bytes" where
  "Addr_AsSlice AddrZero = []"
| "Addr_AsSlice (Addr4 w) = be_bytes 4 w"
| "Addr_AsSlice (Addr6 w _) = be_bytes 16 w"

definition mapped_prefix :: bytes where
  "mapped_prefix = replicate 10 0 @ [0xFF, 0xFF]"

definition is_mapped :: "bytes \<Rightarrow> bool" where
  "is_mapped bs \<longleftrightarrow> take 12 bs = mapped_prefix"

fun Addr_Is4In6 :: "addr \<Rightarrow> bool" where
  "Addr_Is4In6 (Addr6 w _) = is_mapped (be_bytes 16 w)"
| "Addr_Is4In6 _ = False"

fun Addr_Unmap :: "addr \<Rightarrow> addr" where
  "Addr_Unmap (Addr6 w z) = (if Addr_Is4In6 (Addr6 w z) then Addr4 (be_word (drop 12 (be_bytes 16 w))) else Addr6 w z)"
| "Addr_Unmap a = a"

fun Addr_WithZone :: "addr \<Rightarrow> string \<Rightarrow> addr" where
  "Addr_WithZone (Addr6 w _) z = Addr6 w z"
| "Addr_WithZone a _ = a"

lemma Unmap_idem [simp]: "Addr_Unmap (Addr_Unmap a) = Addr_Unmap a"
  by (cases a) auto

lemma Unmap_WithZone_swap: "Addr_Unmap (Addr_WithZone (Addr_Unmap a) []) = Addr_WithZone (Addr_Unmap a) []"
  by (cases a) auto

lemma Addr_bytes [simp]: "AddrFrom4 (be_bytes 4 w) = Addr4 w" "AddrFrom16 (be_bytes 16 v) = Addr6 v []"
  by (simp_all add: AddrFrom4_def AddrFrom16_def)

text \<open>\<open>net.IP\<close> values become addresses by \<open>netip.AddrFromSlice\<close>.\<close>

definition AddrFromSlice :: "bytes \<Rightarrow> addr option" where
  "AddrFromSlice bs =
     (if length bs = 4 then Some (AddrFrom4 bs) else if length bs = 16 then Some (AddrFrom16 bs) else None)"

section \<open>The text of addresses\<close>

fun joinc :: "string list \<Rightarrow> string" where
  "joinc [] = []"
| "joinc [x] = x"
| "joinc (x # xs) = x @ CHR '':'' # joinc xs"

definition string4 :: "bytes \<Rightarrow> string" where
  "string4 bs = tl (concat (map (\<lambda>b. CHR ''.'' # dec (unat b)) bs))"

definition hex_char :: "nat \<Rightarrow> char" where
  "hex_char d = (if d < 10 then char_of (48 + d) else char_of (87 + d))"

fun hex_text :: "nat \<Rightarrow> string" where
  "hex_text n = (if n < 16 then [hex_char n] else hex_text (n div 16) @ [hex_char (n mod 16)])"

declare hex_text.simps [simp del]

fun groups16 :: "bytes \<Rightarrow> nat list" where
  "groups16 (a # b # r) = (256 * unat a + unat b) # groups16 r"
| "groups16 _ = []"

text \<open>The first longest run of at least two zero groups, as \<open>(start, end)\<close>.\<close>

definition zero_run :: "nat list \<Rightarrow> (nat \<times> nat) option" where
  "zero_run gs =
     fold (\<lambda>i best.
        let l = length (takeWhile (\<lambda>g. g = 0) (drop i gs))
        in if l \<ge> 2 \<and> l > (case best of None \<Rightarrow> 0 | Some (s, e) \<Rightarrow> e - s) then Some (i, i + l) else best)
     [0..<length gs] None"

definition string6 :: "bytes \<Rightarrow> string" where
  "string6 bs =
     (let gs = groups16 bs
      in case zero_run gs of
           None \<Rightarrow> joinc (map hex_text gs)
         | Some (s, e) \<Rightarrow> joinc (map hex_text (take s gs)) @ ''::'' @ joinc (map hex_text (drop e gs)))"

definition zone_text :: "string \<Rightarrow> string" where
  "zone_text z = (if z = [] then [] else CHR ''%'' # z)"

fun Addr_String :: "addr \<Rightarrow> string" where
  "Addr_String AddrZero = ''invalid IP''"
| "Addr_String (Addr4 w) = string4 (be_bytes 4 w)"
| "Addr_String (Addr6 w z) =
     (if is_mapped (be_bytes 16 w) then ''::ffff:'' @ string4 (drop 12 (be_bytes 16 w)) @ zone_text z
      else string6 (be_bytes 16 w) @ zone_text z)"

text \<open>
  \<open>netip.ParseAddr\<close>: the IPv4 fields (decimal, at most 255, no leading zero, exactly four), the
  IPv6 groups with an optional ellipsis and an optional IPv4 tail, and the zone.
\<close>

fun ip4_loop :: "bytes \<Rightarrow> nat \<Rightarrow> nat \<Rightarrow> string \<Rightarrow> bytes option" where
  "ip4_loop flds val digLen [] = (if length flds < 3 then None else Some (flds @ [of_nat val]))"
| "ip4_loop flds val digLen (c # s) =
     (if is_digit c then
        (if digLen = 1 \<and> val = 0 then None
         else if val * 10 + digit_val c > 255 then None
         else ip4_loop flds (val * 10 + digit_val c) (digLen + 1) s)
      else if c = CHR ''.'' then
        (if digLen = 0 \<or> s = [] then None
         else if length flds = 3 then None
         else ip4_loop (flds @ [of_nat val]) 0 0 s)
      else None)"

definition is_hex :: "char \<Rightarrow> bool" where
  "is_hex c \<longleftrightarrow> is_digit c \<or> (97 \<le> (of_char c :: nat) \<and> (of_char c :: nat) \<le> 102)
                \<or> (65 \<le> (of_char c :: nat) \<and> (of_char c :: nat) \<le> 70)"

definition hex_digit :: "char \<Rightarrow> nat" where
  "hex_digit c = (if is_digit c then of_char c - 48
                  else if 97 \<le> (of_char c :: nat) then of_char c - 87 else of_char c - 55)"

definition hex_val :: "string \<Rightarrow> nat" where
  "hex_val s = foldl (\<lambda>n c. 16 * n + hex_digit c) 0 s"

function v6_loop :: "bytes \<Rightarrow> nat option \<Rightarrow> string \<Rightarrow> (bytes \<times> nat option) option" where
  "v6_loop acc ell s =
     (if length acc \<ge> 16 then (if s = [] then Some (acc, ell) else None)
      else
        let ds = takeWhile is_hex s; rest = dropWhile is_hex s in
        if length ds > 4 \<or> ds = [] then None
        else
          let acc' = acc @ [of_nat (hex_val ds div 256), of_nat (hex_val ds)] in
          (case rest of
             [] \<Rightarrow> Some (acc', ell)
           | c # r \<Rightarrow>
               if c = CHR ''.'' then
                 (if (ell = None \<and> length acc \<noteq> 12) \<or> length acc + 4 > 16 then None
                  else map_option (\<lambda>f. (acc @ f, ell)) (ip4_loop [] 0 0 s))
               else if c \<noteq> CHR '':'' \<or> r = [] then None
               else if hd r = CHR '':'' then
                 (if ell \<noteq> None then None
                  else if tl r = [] then Some (acc', Some (length acc'))
                  else v6_loop acc' (Some (length acc')) (tl r))
               else v6_loop acc' ell r))"
  by pat_completeness auto
termination
proof (relation "measure (\<lambda>(acc, ell, s). length s)", simp)
  fix s :: string and acc :: bytes and ell :: "nat option" and ds rest acc' c r
  assume rest: "rest = dropWhile is_hex s" "rest = c # r"
  have "Suc (length r) \<le> length s"
    using length_dropWhile_le [of is_hex s] unfolding rest(1) [symmetric] rest(2) by simp
  then show "((acc', ell, r), acc, ell, s) \<in> measure (\<lambda>(acc, ell, s). length s)"
    "((acc', Some (length acc'), tl r), acc, ell, s) \<in> measure (\<lambda>(acc, ell, s). length s)"
    by auto
qed

declare v6_loop.simps [simp del]

definition v6_expand :: "bytes \<times> nat option \<Rightarrow> bytes option" where
  "v6_expand r =
     (case r of (acc, ell) \<Rightarrow>
       if length acc < 16 then
         (case ell of None \<Rightarrow> None | Some e \<Rightarrow> Some (take e acc @ replicate (16 - length acc) 0 @ drop e acc))
       else if ell \<noteq> None then None else Some acc)"

definition parse6 :: "string \<Rightarrow> addr option" where
  "parse6 inp =
     (let s = takeWhile (\<lambda>c. c \<noteq> CHR ''%'') inp; z = dropWhile (\<lambda>c. c \<noteq> CHR ''%'') inp
      in if z = ''%'' then None
         else if take 2 s = ''::'' then
           (if drop 2 s = [] then Some (Addr_WithZone IPv6Unspecified (tl z))
            else do { r \<leftarrow> v6_loop [] (Some 0) (drop 2 s); bs \<leftarrow> v6_expand r;
                      Some (Addr_WithZone (AddrFrom16 bs) (tl z)) })
         else do { r \<leftarrow> v6_loop [] None s; bs \<leftarrow> v6_expand r;
                   Some (Addr_WithZone (AddrFrom16 bs) (tl z)) })"

definition ParseAddr :: "string \<Rightarrow> addr option" where
  "ParseAddr s =
     (case find (\<lambda>c. c = CHR ''.'' \<or> c = CHR '':'' \<or> c = CHR ''%'') s of
        Some c \<Rightarrow> if c = CHR ''.'' then map_option AddrFrom4 (ip4_loop [] 0 0 s)
                  else if c = CHR '':'' then parse6 s else None
      | None \<Rightarrow> None)"

section \<open>Printing and parsing are inverse\<close>

lemma ip4_loop_dec:
  "n \<le> 255 \<Longrightarrow> ip4_loop flds 0 0 (dec n @ s) = ip4_loop flds n (length (dec n)) s"
proof (induction n arbitrary: s rule: dec.induct)
  case (1 n)
  show ?case
  proof (cases "n < 10")
    case True
    then show ?thesis by (subst (1 2) dec.simps) simp
  next
    case False
    have "ip4_loop flds 0 0 (dec (n div 10) @ digit_char (n mod 10) # s) =
          ip4_loop flds (n div 10) (length (dec (n div 10))) (digit_char (n mod 10) # s)"
      using 1 False by simp
    moreover have "n div 10 \<noteq> 0" using False by (simp add: div_eq_0_iff)
    moreover have "dec n = dec (n div 10) @ [digit_char (n mod 10)]" using False by (subst dec.simps) simp
    ultimately show ?thesis using "1.prems" by simp
  qed
qed

lemma dec_length_pos [simp]: "0 < length (dec n)" "dec n \<noteq> []"
  using dec_digits(2) [of n] by simp_all

lemma byte_le_255: "unat (b :: byte) \<le> 255"
proof -
  have "unat b < 2 ^ LENGTH(8)" by (rule unsigned_less)
  then show ?thesis by simp
qed

lemma ip4_octet:
  "ip4_loop flds 0 0 (dec (unat b) @ CHR ''.'' # s) =
     (if s = [] \<or> length flds = 3 then None else ip4_loop (flds @ [b]) 0 0 s)"
  "ip4_loop flds 0 0 (dec (unat b)) = (if length flds < 3 then None else Some (flds @ [b]))"
  using ip4_loop_dec [OF byte_le_255, of flds b "CHR ''.'' # s"] ip4_loop_dec [OF byte_le_255, of flds b "[]"]
  by simp_all

lemma string4_bytes: "string4 [a, b, c, d] =
   dec (unat a) @ CHR ''.'' # dec (unat b) @ CHR ''.'' # dec (unat c) @ CHR ''.'' # dec (unat d)"
  by (simp add: string4_def)

lemma length_4: "length bs = 4 \<longleftrightarrow> (\<exists>a b c d. bs = [a, b, c, d])"
  by (auto simp: length_Suc_conv eval_nat_numeral)

lemma ip4_string4: "length bs = 4 \<Longrightarrow> ip4_loop [] 0 0 (string4 bs) = Some bs"
  by (auto simp: length_4 string4_bytes ip4_octet)

lemma hex_char_facts [simp]:
  assumes "d < 16"
  shows "is_hex (hex_char d)" "hex_digit (hex_char d) = d"
  using assms by (auto simp: is_hex_def hex_digit_def hex_char_def is_digit_def)

lemma hex_text_hex: "list_all is_hex (hex_text n)" "hex_text n \<noteq> []"
  by (induction n rule: hex_text.induct) (subst hex_text.simps; simp)+

lemma hex_val_snoc: "hex_val (s @ [c]) = 16 * hex_val s + hex_digit c"
  by (simp add: hex_val_def)

lemma hex_val_text [simp]: "hex_val (hex_text n) = n"
proof (induction n rule: hex_text.induct)
  case (1 n)
  show ?case
  proof (cases "n < 16")
    case True
    then show ?thesis by (subst hex_text.simps) (simp add: hex_val_def)
  next
    case False
    then show ?thesis using 1 by (subst hex_text.simps) (simp add: hex_val_snoc)
  qed
qed

lemma hex_text_length: "n < 16 ^ Suc k \<Longrightarrow> length (hex_text n) \<le> Suc k"
proof (induction k arbitrary: n)
  case 0
  then show ?case by (subst hex_text.simps) simp
next
  case (Suc k)
  have "n div 16 < 16 ^ Suc k" using Suc.prems by (simp add: less_mult_imp_div_less)
  from Suc.IH [OF this] show ?case by (subst hex_text.simps) simp
qed

lemma is_hex_not [simp]: "\<not> is_hex (CHR '':'')" "\<not> is_hex (CHR ''.'')" "\<not> is_hex (CHR ''%'')"
  by (simp_all add: is_hex_def is_digit_def)

lemma hex_text_span [simp]:
  assumes "s = [] \<or> \<not> is_hex (hd s)"
  shows "takeWhile is_hex (hex_text n @ s) = hex_text n" "dropWhile is_hex (hex_text n @ s) = s"
proof -
  have a: "\<forall>c \<in> set (hex_text n). is_hex c" using hex_text_hex(1) by (simp add: list_all_iff)
  show "takeWhile is_hex (hex_text n @ s) = hex_text n" "dropWhile is_hex (hex_text n @ s) = s"
    using a assms by (cases s; simp)+
qed

lemmas hex_text_span0 [simp] = hex_text_span [of "[]", OF disjI1 [OF refl], unfolded append_Nil2]

text \<open>The bytes of a group, and the loop on one group of text.\<close>

definition group_bytes :: "nat \<Rightarrow> bytes" where
  "group_bytes g = [of_nat (g div 256), of_nat g]"

lemma length_group_bytes [simp]: "length (group_bytes g) = 2"
  by (simp add: group_bytes_def)

lemma concat_groups_length [simp]: "length (concat (map group_bytes gs)) = 2 * length gs"
  by (induction gs) simp_all

lemma v6_last:
  assumes "g < 65536" "length acc < 16"
  shows "v6_loop acc ell (hex_text g) = Some (acc @ group_bytes g, ell)"
  using hex_text_length [of g 3] hex_text_hex(2) [of g] assms
  by (subst v6_loop.simps) (simp add: Let_def group_bytes_def)

lemma v6_group:
  assumes "g < 65536" "length acc < 16" "s \<noteq> []" "hd s \<noteq> CHR '':''"
  shows "v6_loop acc ell (hex_text g @ CHR '':'' # s) = v6_loop (acc @ group_bytes g) ell s"
  using hex_text_length [of g 3] hex_text_hex(2) [of g] assms hex_text_span [of "CHR '':'' # s" g]
  by (subst v6_loop.simps) (simp add: Let_def group_bytes_def)

lemma v6_ellipsis:
  assumes "g < 65536" "length acc < 16"
  shows "v6_loop acc None (hex_text g @ CHR '':'' # CHR '':'' # s) =
     (if s = [] then Some (acc @ group_bytes g, Some (length acc + 2))
      else v6_loop (acc @ group_bytes g) (Some (length acc + 2)) s)"
  using hex_text_length [of g 3] hex_text_hex(2) [of g] assms hex_text_span [of "CHR '':'' # CHR '':'' # s" g]
  by (subst v6_loop.simps) (simp add: Let_def group_bytes_def)

lemma joinc_hex_start: "joinc (map hex_text (g # gs)) \<noteq> []" "hd (joinc (map hex_text (g # gs))) \<noteq> CHR '':''"
  "is_hex (hd (joinc (map hex_text (g # gs))))"
proof -
  obtain c cs where c: "hex_text g = c # cs" "is_hex c"
    using hex_text_hex [of g] by (cases "hex_text g") auto
  then have "c \<noteq> CHR '':''" by auto
  then show "joinc (map hex_text (g # gs)) \<noteq> []" "hd (joinc (map hex_text (g # gs))) \<noteq> CHR '':''"
    "is_hex (hd (joinc (map hex_text (g # gs))))"
    using c by (cases gs; simp)+
qed

lemma v6_groups:
  "\<forall>g \<in> set gs. g < 65536 \<Longrightarrow> gs \<noteq> [] \<Longrightarrow> length acc + 2 * length gs \<le> 16 \<Longrightarrow>
   v6_loop acc ell (joinc (map hex_text gs)) = Some (acc @ concat (map group_bytes gs), ell)"
proof (induction gs arbitrary: acc rule: induct_list012)
  case (3 g h gs)
  have "v6_loop acc ell (hex_text g @ CHR '':'' # joinc (map hex_text (h # gs))) =
        v6_loop (acc @ group_bytes g) ell (joinc (map hex_text (h # gs)))"
    by (rule v6_group) (use "3.prems" joinc_hex_start in auto)
  then show ?case using "3.IH"(2) [of "acc @ group_bytes g"] "3.prems" by simp
qed (simp_all add: v6_last)

lemma v6_groups_ellipsis:
  "\<forall>g \<in> set gs. g < 65536 \<Longrightarrow> gs \<noteq> [] \<Longrightarrow> length acc + 2 * length gs \<le> 16 \<Longrightarrow>
   v6_loop acc None (joinc (map hex_text gs) @ CHR '':'' # CHR '':'' # s) =
     (let acc' = acc @ concat (map group_bytes gs)
      in if s = [] then Some (acc', Some (length acc')) else v6_loop acc' (Some (length acc')) s)"
proof (induction gs arbitrary: acc rule: induct_list012)
  case (3 g h gs)
  have "v6_loop acc None (hex_text g @ CHR '':'' # (joinc (map hex_text (h # gs)) @ CHR '':'' # CHR '':'' # s)) =
        v6_loop (acc @ group_bytes g) None (joinc (map hex_text (h # gs)) @ CHR '':'' # CHR '':'' # s)"
    by (rule v6_group) (use "3.prems" joinc_hex_start [of h gs] in auto)
  then show ?case using "3.IH"(2) [of "acc @ group_bytes g"] "3.prems" by simp
qed (simp_all add: v6_ellipsis)

lemma group_bytes_pair [simp]: "group_bytes (256 * unat a + unat b) = [a, b]"
proof -
  have "(256 * unat a + unat b) div 256 = unat a" using byte_le_255 [of b] by simp
  moreover have "(of_nat (256 * unat a + unat b) :: byte) = b"
  proof -
    have z: "(256 :: byte) = 0" by simp
    have "(of_nat (256 * unat a + unat b) :: byte) = 256 * a + b" by simp
    then show ?thesis unfolding z by simp
  qed
  ultimately show ?thesis by (simp add: group_bytes_def)
qed

lemma groups16_bytes: "even (length bs) \<Longrightarrow> concat (map group_bytes (groups16 bs)) = bs"
  by (induction bs rule: groups16.induct) simp_all

lemma groups16_small: "g \<in> set (groups16 bs) \<Longrightarrow> g < 65536"
proof (induction bs rule: groups16.induct)
  case (1 a b r)
  then show ?case using byte_le_255 [of a] byte_le_255 [of b] by auto
qed simp_all

lemma groups16_length: "length (groups16 bs) = length bs div 2"
  by (induction bs rule: groups16.induct) simp_all

definition zeros_at :: "nat list \<Rightarrow> (nat \<times> nat) option \<Rightarrow> bool" where
  "zeros_at gs best \<longleftrightarrow>
     (case best of None \<Rightarrow> True
      | Some (s, e) \<Rightarrow> s + 2 \<le> e \<and> e \<le> length gs \<and> take (e - s) (drop s gs) = replicate (e - s) 0)"

lemma takeWhile_replicate: "takeWhile (\<lambda>g. g = x) gs = replicate (length (takeWhile (\<lambda>g. g = x) gs)) x"
  by (induction gs) auto

lemma zero_run_zeros: "zeros_at gs (zero_run gs)"
proof -
  have "zeros_at gs (fold (\<lambda>i best.
        let l = length (takeWhile (\<lambda>g. g = 0) (drop i gs))
        in if l \<ge> 2 \<and> l > (case best of None \<Rightarrow> 0 | Some (s, e) \<Rightarrow> e - s) then Some (i, i + l) else best) ixs best)"
    if "zeros_at gs best" "\<forall>i \<in> set ixs. i < length gs" for ixs best
    using that
  proof (induction ixs arbitrary: best)
    case (Cons i ixs)
    let ?l = "length (takeWhile (\<lambda>g. g = 0) (drop i gs))"
    have "?l \<le> length (drop i gs)" by (rule length_takeWhile_le)
    moreover have "take ?l (drop i gs) = replicate ?l 0"
      using takeWhile_replicate [of 0 "drop i gs"] by (simp add: takeWhile_eq_take [symmetric])
    ultimately have "?l \<ge> 2 \<Longrightarrow> zeros_at gs (Some (i, i + ?l))"
      using Cons.prems(2) by (simp add: zeros_at_def)
    then show ?case using Cons by (simp add: Let_def)
  qed simp
  then show ?thesis by (simp add: zero_run_def zeros_at_def)
qed

lemma joinc_hex_chars: "set (joinc (map hex_text gs)) \<subseteq> insert (CHR '':'') (Collect is_hex)"
proof (induction gs rule: induct_list012)
  case (2 g)
  then show ?case using hex_text_hex(1) [of g] by (auto simp: list_all_iff)
next
  case (3 g h gs)
  then show ?case using hex_text_hex(1) [of g] by (auto simp: list_all_iff)
qed simp

lemma joinc_colon: "2 \<le> length gs \<Longrightarrow> CHR '':'' \<in> set (joinc (map hex_text gs))"
  by (cases gs; cases "tl gs") auto

lemma find_colon:
  "set t \<subseteq> insert (CHR '':'') (Collect is_hex) \<Longrightarrow> CHR '':'' \<in> set t \<Longrightarrow>
   find (\<lambda>c. c = CHR ''.'' \<or> c = CHR '':'' \<or> c = CHR ''%'') (t @ r) = Some (CHR '':'')"
  by (induction t) (auto simp: is_hex_def is_digit_def)

lemma string6_chars:
  assumes "length bs = 16"
  shows "set (string6 bs) \<subseteq> insert (CHR '':'') (Collect is_hex)" "CHR '':'' \<in> set (string6 bs)"
proof -
  show "set (string6 bs) \<subseteq> insert (CHR '':'') (Collect is_hex)"
    using joinc_hex_chars by (fastforce simp: string6_def Let_def split: option.splits)
  show "CHR '':'' \<in> set (string6 bs)"
    using assms joinc_colon [of "groups16 bs"] by (auto simp: string6_def Let_def groups16_length split: option.splits)
qed

lemma percent_span:
  assumes "CHR ''%'' \<notin> set t"
  shows "takeWhile (\<lambda>c. c \<noteq> CHR ''%'') (t @ zone_text z) = t" "dropWhile (\<lambda>c. c \<noteq> CHR ''%'') (t @ zone_text z) = zone_text z"
  using assms by (induction t) (auto simp: zone_text_def)

lemma zone_text_simps [simp]: "zone_text z \<noteq> ''%''" "tl (zone_text z) = z"
  by (auto simp: zone_text_def)

lemma parse6_text:
  assumes "CHR ''%'' \<notin> set t"
  shows "parse6 (t @ zone_text z) =
    (if take 2 t = ''::'' then
       (if drop 2 t = [] then Some (Addr_WithZone IPv6Unspecified z)
        else do { r \<leftarrow> v6_loop [] (Some 0) (drop 2 t); bs \<leftarrow> v6_expand r; Some (Addr_WithZone (AddrFrom16 bs) z) })
     else do { r \<leftarrow> v6_loop [] None t; bs \<leftarrow> v6_expand r; Some (Addr_WithZone (AddrFrom16 bs) z) })"
  using percent_span [OF assms] by (simp add: parse6_def Let_def)

lemma v6_expand_gap:
  assumes "length gs = 8" "zeros_at gs (Some (s, e))"
  shows "v6_expand (concat (map group_bytes (take s gs)) @ concat (map group_bytes (drop e gs)), Some (2 * s)) =
    Some (concat (map group_bytes gs))"
proof -
  let ?b = "\<lambda>gs. concat (map group_bytes gs)"
  have se: "s + 2 \<le> e" "e \<le> 8" "take (e - s) (drop s gs) = replicate (e - s) 0"
    using assms by (simp_all add: zeros_at_def)
  have "gs = take s gs @ take (e - s) (drop s gs) @ drop e gs"
    using se(1) by (metis append_take_drop_id drop_drop le_add_diff_inverse2 le_add1 le_trans)
  then have "?b gs = ?b (take s gs) @ ?b (replicate (e - s) 0) @ ?b (drop e gs)"
    unfolding se(3) by (metis concat_append map_append)
  moreover have "?b (replicate k 0) = replicate (2 * k) 0" for k
    by (induction k) (simp_all add: group_bytes_def)
  moreover have l: "length (?b (take s gs)) = 2 * s" "length (?b (drop e gs)) = 2 * (8 - e)" using se assms(1) by simp_all
  moreover have "v6_expand (?b (take s gs) @ ?b (drop e gs), Some (2 * s)) =
    Some (?b (take s gs) @ replicate (2 * (e - s)) 0 @ ?b (drop e gs))"
  proof -
    have "16 - length (?b (take s gs) @ ?b (drop e gs)) = 2 * (e - s)" "length (?b (take s gs) @ ?b (drop e gs)) < 16"
      unfolding length_append l using se(1,2) by simp_all
    moreover have "take (2 * s) (?b (take s gs) @ x) = ?b (take s gs)" "drop (2 * s) (?b (take s gs) @ x) = x" for x
      using l(1) by (simp_all only: append_eq_conv_conj [symmetric] flip: l(1)) simp_all
    ultimately show ?thesis by (simp only: v6_expand_def prod.case option.case if_True)
  qed
  ultimately show ?thesis by simp
qed

lemma parse6_string6:
  assumes "length bs = 16"
  shows "parse6 (string6 bs @ zone_text z) = Some (Addr_WithZone (AddrFrom16 bs) z)"
proof -
  let ?gs = "groups16 bs" and ?b = "\<lambda>gs. concat (map group_bytes gs)"
  have gs: "length ?gs = 8" "\<forall>g \<in> set ?gs. g < 65536" "?b ?gs = bs"
    using assms groups16_small groups16_bytes [of bs] by (auto simp: groups16_length)
  have np: "CHR ''%'' \<notin> set (string6 bs)" using string6_chars(1) [OF assms] by auto
  note p = parse6_text [OF np, of z]
  have nocolon: "take 2 (joinc (map hex_text (g # hs)) @ r) \<noteq> ''::''" for g hs r
    using joinc_hex_start [of g hs] by (cases "joinc (map hex_text (g # hs))") auto
  show ?thesis
  proof (cases "zero_run ?gs")
    case None
    obtain g hs where ghs: "?gs = g # hs" using gs(1) by (cases ?gs) auto
    have t: "string6 bs = joinc (map hex_text ?gs)" using None by (simp add: string6_def)
    have "v6_loop [] None (joinc (map hex_text ?gs)) = Some (bs, None)"
      using v6_groups [OF gs(2), of "[]" None] gs ghs by simp
    moreover have "take 2 (joinc (map hex_text ?gs)) \<noteq> ''::''" using nocolon [of g hs "[]"] ghs by simp
    ultimately show ?thesis using p assms t by (simp add: v6_expand_def)
  next
    case (Some r)
    then obtain s e where r: "zero_run ?gs = Some (s, e)" by (cases r) auto
    let ?hd = "take s ?gs" and ?tl = "drop e ?gs"
    have z: "zeros_at ?gs (Some (s, e))" using zero_run_zeros [of ?gs] r by simp
    then have se: "s + 2 \<le> e" "e \<le> 8" using gs(1) by (auto simp: zeros_at_def)
    have t: "string6 bs = joinc (map hex_text ?hd) @ CHR '':'' # CHR '':'' # joinc (map hex_text ?tl)"
      using r by (simp add: string6_def Let_def)
    have ex: "v6_expand (?b ?hd @ ?b ?tl, Some (2 * s)) = Some bs" using v6_expand_gap [OF gs(1) z] gs(3) by simp
    have tl: "v6_loop (?b ?hd) (Some (2 * s)) (joinc (map hex_text ?tl)) = Some (?b ?hd @ ?b ?tl, Some (2 * s))" if "?tl \<noteq> []"
      by (rule v6_groups) (use gs se that in \<open>auto dest: in_set_dropD\<close>)
    have tlne: "joinc (map hex_text ?tl) = [] \<longleftrightarrow> ?tl = []"
      using joinc_hex_start(1) by (cases ?tl) auto
    show ?thesis
    proof (cases "s = 0")
      case True
      then have t2: "take 2 (string6 bs) = ''::''" "drop 2 (string6 bs) = joinc (map hex_text ?tl)"
        using t by simp_all
      show ?thesis
      proof (cases "?tl = []")
        case False
        then show ?thesis using p t2 tlne tl ex True by simp
      next
        case True
        have "bs = replicate 16 0" using ex True \<open>s = 0\<close> by (simp add: v6_expand_def)
        moreover have "AddrFrom16 (replicate 16 0) = IPv6Unspecified"
          by (simp add: AddrFrom16_def IPv6Unspecified_def be_word_def eval_nat_numeral)
        ultimately show ?thesis using p t2 tlne True by simp
      qed
    next
      case False
      then obtain g hs where ghs: "?hd = g # hs" using gs(1) se by (cases ?hd) auto
      have "take 2 (string6 bs) \<noteq> ''::''" using nocolon [of g hs] unfolding t ghs .
      moreover have "v6_loop [] None (string6 bs) = Some (?b ?hd @ ?b ?tl, Some (2 * s))"
      proof -
        have ne: "?hd \<noteq> []" unfolding ghs by simp
        have h: "\<forall>g \<in> set ?hd. g < 65536" "length [] + 2 * length ?hd \<le> 16" "length ?hd = s"
          using gs(1,2) se by (simp_all only: length_take, auto dest: in_set_takeD)
        then have "length ([] @ ?b ?hd) = 2 * s" by simp
        with v6_groups_ellipsis [OF h(1) ne h(2), of "joinc (map hex_text ?tl)"] tl tlne show ?thesis
          unfolding t by (cases "?tl = []") (simp_all only: Let_def append_Nil append_Nil2 if_P if_not_P list.map concat.simps joinc.simps simp_thms HOL.simp_thms)
      qed
      ultimately show ?thesis using p ex by simp
    qed
  qed
qed

lemma string4_chars:
  assumes "length bs = 4"
  shows "set (string4 bs) \<subseteq> insert (CHR ''.'') (Collect is_digit)" "CHR ''.'' \<in> set (string4 bs)"
  using assms dec_digits(1) by (fastforce simp: length_4 string4_bytes list_all_iff)+

lemma find_dot:
  "set t \<subseteq> insert (CHR ''.'') (Collect is_digit) \<Longrightarrow> CHR ''.'' \<in> set t \<Longrightarrow>
   find (\<lambda>c. c = CHR ''.'' \<or> c = CHR '':'' \<or> c = CHR ''%'') t = Some (CHR ''.'')"
  by (induction t) auto

lemma dec_byte_hex: "list_all is_hex (dec (unat (b :: byte)))" "length (dec (unat b)) \<le> 3"
proof -
  show "list_all is_hex (dec (unat b))" using dec_digits(1) [of "unat b"] by (auto simp: list_all_iff is_hex_def)
  show "length (dec (unat b)) \<le> 3" using dec_length [of "unat b" 2] byte_le_255 [of b] by simp
qed

lemma v6_loop_string4:
  assumes "length bs = 4" "length acc \<le> 12"
  shows "v6_loop acc (Some e) (string4 bs) = Some (acc @ bs, Some e)"
proof -
  obtain a b c d where bs: "bs = [a, b, c, d]" using assms(1) by (auto simp: length_4)
  let ?r = "CHR ''.'' # dec (unat b) @ CHR ''.'' # dec (unat c) @ CHR ''.'' # dec (unat d)"
  have "\<forall>x \<in> set (dec (unat a)). is_hex x" using dec_byte_hex(1) [of a] by (simp add: list_all_iff)
  then have "takeWhile is_hex (string4 bs) = dec (unat a)" "dropWhile is_hex (string4 bs) = ?r"
    by (simp_all add: bs string4_bytes)
  then show ?thesis
    using ip4_string4 [OF assms(1)] dec_byte_hex(2) [of a] assms(2)
    by (subst v6_loop.simps) (simp add: Let_def)
qed

lemma mapped_text:
  assumes "is_mapped bs" "length bs = 16"
  shows "parse6 ((''::ffff:'' @ string4 (drop 12 bs)) @ zone_text z) = Some (Addr_WithZone (AddrFrom16 bs) z)"
proof -
  have l: "length (drop 12 bs) = 4" using assms(2) by simp
  have np: "CHR ''%'' \<notin> set (''::ffff:'' @ string4 (drop 12 bs))" using string4_chars(1) [OF l] by auto
  have "(of_char (CHR ''f'') :: nat) = 102" by simp
  then have "char_of (102 :: nat) = CHR ''f''" using char_of_char [of "CHR ''f''", where 'a = nat] by simp
  then have h: "''ffff'' = hex_text 65535" by (simp add: hex_text.simps hex_char_def)
  have s4: "string4 (drop 12 bs) \<noteq> []" "hd (string4 (drop 12 bs)) \<noteq> CHR '':''"
  proof -
    show ne: "string4 (drop 12 bs) \<noteq> []" using string4_chars(2) [OF l] by auto
    show "hd (string4 (drop 12 bs)) \<noteq> CHR '':''"
      using string4_chars(1) [OF l] hd_in_set [OF ne] by (auto simp: is_digit_def subset_iff)
  qed
  have "v6_loop [] (Some 0) (''ffff'' @ CHR '':'' # string4 (drop 12 bs)) = Some (group_bytes 65535 @ drop 12 bs, Some 0)"
    unfolding h using v6_group [of 65535 "[]" _ "Some 0", OF _ _ s4] v6_loop_string4 [OF l, of "group_bytes 65535" 0]
    by simp
  moreover have "group_bytes 65535 = [0xFF, 0xFF]" by (simp add: group_bytes_def)
  moreover have "replicate 10 0 @ [0xFF, 0xFF] @ drop 12 bs = bs"
    using assms(1) append_take_drop_id [of 12 bs] by (simp add: is_mapped_def mapped_prefix_def)
  ultimately show ?thesis
    using l by (subst parse6_text [OF np]) (simp add: v6_expand_def)
qed

text \<open>The text of every valid address parses to it.\<close>

lemma ParseAddr_String: "Addr_IsValid a \<Longrightarrow> ParseAddr (Addr_String a) = Some a"
proof (cases a)
  case (Addr4 w)
  have l: "length (be_bytes 4 w) = 4" by simp
  show ?thesis
    using find_dot [OF string4_chars [OF l]] ip4_string4 [OF l] Addr4 by (simp add: ParseAddr_def)
next
  case (Addr6 w z)
  let ?bs = "be_bytes 16 w"
  have l: "length ?bs = 16" by simp
  show ?thesis
  proof (cases "is_mapped ?bs")
    case True
    then show ?thesis using mapped_text [OF True l, of z] Addr6 by (simp add: ParseAddr_def)
  next
    case False
    then show ?thesis
      using find_colon [OF string6_chars [OF l], of "zone_text z"] parse6_string6 [OF l, of z] Addr6
      by (simp add: ParseAddr_def)
  qed
qed (simp add: Addr_IsValid_def)

text \<open>No address text contains a space, and only zones can hold anything but digits and separators.\<close>

lemma Addr_String_chars:
  assumes "Addr_IsValid a" "\<forall>w z. a = Addr6 w z \<longrightarrow> z = []"
  shows "set (Addr_String a) \<subseteq> insert (CHR ''.'') (insert (CHR '':'') (Collect is_hex))" "Addr_String a \<noteq> []"
proof -
  have d: "is_digit c \<Longrightarrow> is_hex c" for c by (simp add: is_hex_def)
  have s4: "set (string4 bs) \<subseteq> insert (CHR ''.'') (Collect is_hex)" "string4 bs \<noteq> []" if "length bs = 4" for bs
    using string4_chars [OF that] d by auto
  have f: "is_hex (CHR ''f'')" by (simp add: is_hex_def)
  have "set (Addr_String a) \<subseteq> insert (CHR ''.'') (insert (CHR '':'') (Collect is_hex)) \<and> Addr_String a \<noteq> []"
  proof (cases a)
    case (Addr4 w)
    then show ?thesis using s4 [of "be_bytes 4 w"] by auto
  next
    case (Addr6 w z)
    have z: "zone_text z = []" using assms(2) Addr6 by (simp add: zone_text_def)
    have s6: "set (string6 (be_bytes 16 w)) \<subseteq> insert (CHR '':'') (Collect is_hex)" "string6 (be_bytes 16 w) \<noteq> []"
      using string6_chars [of "be_bytes 16 w"] by auto
    have sm: "set (''::ffff:'' @ string4 (drop 12 (be_bytes 16 w))) \<subseteq> insert (CHR ''.'') (insert (CHR '':'') (Collect is_hex))"
      using s4(1) [of "drop 12 (be_bytes 16 w)"] f by auto
    show ?thesis
    proof (cases "is_mapped (be_bytes 16 w)")
      case True
      then have t: "Addr_String a = ''::ffff:'' @ string4 (drop 12 (be_bytes 16 w))" using Addr6 z by simp
      show ?thesis unfolding t using sm by blast
    next
      case False
      then show ?thesis using Addr6 z s6 by auto
    qed
  qed (use assms in \<open>simp add: Addr_IsValid_def\<close>)
  then show "set (Addr_String a) \<subseteq> insert (CHR ''.'') (insert (CHR '':'') (Collect is_hex))" "Addr_String a \<noteq> []"
    by blast+
qed

text \<open>The text of an address without a zone has at most 45 characters.\<close>

lemma joinc_length: "\<forall>x \<in> set xs. length x \<le> 4 \<Longrightarrow> xs \<noteq> [] \<Longrightarrow> length (joinc xs) < 5 * length xs"
  by (induction xs rule: induct_list012) auto

lemma string4_length: "length bs = 4 \<Longrightarrow> length (string4 bs) \<le> 15"
proof -
  assume "length bs = 4"
  then obtain a b c d where bs: "bs = [a, b, c, d]" by (auto simp: length_4)
  show ?thesis
    using dec_byte_hex(2) [of a] dec_byte_hex(2) [of b] dec_byte_hex(2) [of c] dec_byte_hex(2) [of d]
    by (simp add: bs string4_bytes)
qed

lemma string6_length:
  assumes "length bs = 16"
  shows "length (string6 bs) \<le> 39"
proof -
  let ?gs = "groups16 bs"
  have l: "length ?gs = 8" using assms by (simp add: groups16_length)
  have h: "\<forall>x \<in> set (map hex_text gs). length x \<le> 4" if "set gs \<subseteq> set ?gs" for gs
    using that groups16_small [of _ bs] hex_text_length [of _ 3] by (auto simp: subset_iff)
  have j: "length (joinc (map hex_text gs)) \<le> 5 * length gs - 1" if "set gs \<subseteq> set ?gs" for gs
    using joinc_length [OF h [OF that]] by (cases gs) auto
  show ?thesis
  proof (cases "zero_run ?gs")
    case None
    then show ?thesis using j [of ?gs] l by (simp add: string6_def Let_def)
  next
    case (Some r)
    then obtain s e where r: "zero_run ?gs = Some (s, e)" by (cases r) auto
    then have se: "s + 2 \<le> e" "e \<le> 8" using zero_run_zeros [of ?gs] l by (auto simp: zeros_at_def)
    have "length (joinc (map hex_text (take s ?gs))) \<le> 5 * s - 1" using j [of "take s ?gs"] se l
      by (auto simp: set_take_subset)
    moreover have "length (joinc (map hex_text (drop e ?gs))) \<le> 5 * (8 - e) - 1" using j [of "drop e ?gs"] se l
      by (auto simp: set_drop_subset)
    ultimately show ?thesis using r se by (simp add: string6_def Let_def)
  qed
qed

lemma Addr_String_length:
  assumes "Addr_IsValid a" "\<forall>w z. a = Addr6 w z \<longrightarrow> z = []"
  shows "length (Addr_String a) \<le> 45"
proof (cases a)
  case (Addr4 w)
  then show ?thesis using string4_length [of "be_bytes 4 w"] by simp
next
  case (Addr6 w z)
  then show ?thesis
    using assms(2) string6_length [of "be_bytes 16 w"] string4_length [of "drop 12 (be_bytes 16 w)"]
    by (simp add: zone_text_def)
qed (use assms in \<open>simp add: Addr_IsValid_def\<close>)

lemma port_text: "length (dec (unat (p :: 16 word))) \<le> 5"
proof -
  have "unat p < 2 ^ LENGTH(16)" by (rule unsigned_less)
  then show ?thesis using dec_length [of "unat p" 4] by simp
qed

end
