(* ===== verification/Metadata.thy ===== *)
theory Metadata
  imports NetAddr
begin

text \<open>
  What the proxy knows about a connection (adapter/metadata.go) and the coloured identifier it
  prints (common/console/color/color.go). The \<open>*Metadata\<close> that the Go code passes around and
  updates is a record that every function takes and returns; \<open>Custom\<close>, a map no code in the
  repository reads or writes, is left out. Random numbers (fastrand) are arguments.
\<close>

section \<open>Strings\<close>

text \<open>\<open>strings.Cut(s, sep)\<close> for a one-byte separator: before, after, found.\<close>

definition Cut :: "string \<Rightarrow> char \<Rightarrow> string \<times> string \<times> bool" where
  "Cut s sep =
     (if sep \<in> set s then (takeWhile (\<lambda>c. c \<noteq> sep) s, tl (dropWhile (\<lambda>c. c \<noteq> sep) s), True)
      else (s, [], False))"

definition HasPrefix :: "string \<Rightarrow> string \<Rightarrow> bool" where
  "HasPrefix s p \<longleftrightarrow> take (length p) s = p"

definition TrimPrefix :: "string \<Rightarrow> string \<Rightarrow> string" where
  "TrimPrefix s p = (if HasPrefix s p then drop (length p) s else s)"

lemma HasPrefix_append [simp]: "HasPrefix (p @ s) p" "TrimPrefix (p @ s) p = s"
  by (simp_all add: HasPrefix_def TrimPrefix_def)

section \<open>Colours\<close>

text \<open>The four groups of eight constants, black first; the list has the foreground ones without black.\<close>

definition color_Fg :: "int list" where "color_Fg = map (\<lambda>i. i + 30) [0, 1, 2, 3, 4, 5, 6, 7]"
definition color_FgHi :: "int list" where "color_FgHi = map (\<lambda>i. i + 90) [0, 1, 2, 3, 4, 5, 6, 7]"
definition color_Bg :: "int list" where "color_Bg = map (\<lambda>i. i + 40) [0, 1, 2, 3, 4, 5, 6, 7]"
definition color_BgHi :: "int list" where "color_BgHi = map (\<lambda>i. i + 100) [0, 1, 2, 3, 4, 5, 6, 7]"

definition color_List :: "int list" where
  "color_List = tl color_Fg @ tl color_FgHi"

definition escapeHead :: string where "escapeHead = [CHR 0x1B, CHR ''['']"
definition escapeTail :: string where "escapeTail = ''m''"
definition compiledReset :: string where "compiledReset = [CHR 0x1B, CHR ''['', CHR ''0'', CHR ''m'']"

definition color_Apply :: "int \<Rightarrow> string \<Rightarrow> string" where
  "color_Apply color str = escapeHead @ FormatInt color @ escapeTail @ str @ compiledReset"

section \<open>Metadata\<close>

record mc_metadata =
  mm_ProtocolVersion :: "64 word"
  mm_PlayerName :: string
  mm_OriginDestination :: string
  mm_RewrittenDestination :: string
  mm_fmlMarkup :: string
  mm_OriginPort :: "16 word"
  mm_RewrittenPort :: "16 word"
  mm_UUID :: bytes
  mm_NextState :: "8 word"
  mm_SniffPosition :: int

record metadata =
  md_ConnectionID :: string
  md_ServiceName :: string
  md_SniffedProtocol :: "8 word"
  md_SourceAddress :: addr_port
  md_DestinationHostname :: string
  md_DestinationPort :: "16 word"
  md_SRV :: "string option"
  md_Minecraft :: "mc_metadata option"
  md_TLS :: "string option"

text \<open>\<open>GenerateID\<close> with its two random numbers; the second indexes \<open>color.List\<close>.\<close>

definition GenerateID :: "nat \<Rightarrow> nat \<Rightarrow> metadata \<Rightarrow> metadata option" where
  "GenerateID rnd idColor m = do {
     guard_panic (idColor < length color_List);
     Some (m\<lparr>md_ConnectionID := color_Apply (color_List ! idColor) (''['' @ FormatInt (int rnd) @ '']'')\<rparr>)
   }"

text \<open>The zero value with \<open>NextState\<close> set, as the sniffer makes it.\<close>

definition new_mc_metadata :: "8 word \<Rightarrow> mc_metadata" where
  "new_mc_metadata state =
     \<lparr>mm_ProtocolVersion = 0, mm_PlayerName = [], mm_OriginDestination = [], mm_RewrittenDestination = [],
      mm_fmlMarkup = [], mm_OriginPort = 0, mm_RewrittenPort = 0, mm_UUID = replicate 16 0,
      mm_NextState = state, mm_SniffPosition = 0\<rparr>"

definition mm_Valid :: "mc_metadata \<Rightarrow> bool" where
  "mm_Valid m \<longleftrightarrow> 0 < sint (mm_NextState m)"

definition IsFML :: "mc_metadata \<Rightarrow> bool" where
  "IsFML m \<longleftrightarrow> CHR 0x00 \<in> set (mm_OriginDestination m)"

definition CleanOriginDestination :: "mc_metadata \<Rightarrow> string \<times> mc_metadata" where
  "CleanOriginDestination m =
     (case Cut (mm_OriginDestination m) (CHR 0x00) of
        (clean, markup, _) \<Rightarrow> (clean, m\<lparr>mm_fmlMarkup := markup\<rparr>))"

definition FMLMarkup :: "mc_metadata \<Rightarrow> string \<times> mc_metadata" where
  "FMLMarkup m =
     (let m = (if mm_fmlMarkup m = []
               then (case Cut (mm_OriginDestination m) (CHR 0x00) of (_, markup, _) \<Rightarrow> m\<lparr>mm_fmlMarkup := markup\<rparr>)
               else m)
      in (mm_fmlMarkup m, m))"

lemma Cut_join: "Cut s sep = (a, b, True) \<Longrightarrow> s = a @ sep # b"
proof -
  assume h: "Cut s sep = (a, b, True)"
  then have "sep \<in> set s" "a = takeWhile (\<lambda>c. c \<noteq> sep) s" "b = tl (dropWhile (\<lambda>c. c \<noteq> sep) s)"
    by (auto simp: Cut_def split: if_splits)
  moreover from this(1) have "dropWhile (\<lambda>c. c \<noteq> sep) s = sep # tl (dropWhile (\<lambda>c. c \<noteq> sep) s)"
    using hd_dropWhile [of "\<lambda>c. c \<noteq> sep" s] dropWhile_eq_Nil_conv [of "\<lambda>c. c \<noteq> sep" s]
    by (metis list.collapse)
  ultimately show ?thesis by (metis takeWhile_dropWhile_id)
qed

lemma Cut_none: "sep \<notin> set s \<Longrightarrow> Cut s sep = (s, [], False)"
  by (simp add: Cut_def)

lemma Cut_append: "sep \<notin> set a \<Longrightarrow> Cut (a @ sep # b) sep = (a, b, True)"
  by (induction a) (auto simp: Cut_def)

text \<open>The markup after the first zero byte and the name before it make up the destination again.\<close>

lemma destination_parts:
  shows "IsFML m \<Longrightarrow> mm_OriginDestination m =
      fst (CleanOriginDestination m) @ CHR 0x00 # fst (FMLMarkup (snd (CleanOriginDestination m)))"
    "\<not> IsFML m \<Longrightarrow> fst (CleanOriginDestination m) = mm_OriginDestination m"
proof -
  obtain a b f where c: "Cut (mm_OriginDestination m) (CHR 0x00) = (a, b, f)" by (cases "Cut (mm_OriginDestination m) (CHR 0x00)") auto
  have f: "f \<longleftrightarrow> IsFML m" using c by (auto simp: Cut_def IsFML_def split: if_splits)
  show "IsFML m \<Longrightarrow> mm_OriginDestination m =
      fst (CleanOriginDestination m) @ CHR 0x00 # fst (FMLMarkup (snd (CleanOriginDestination m)))"
    using c f Cut_join [of "mm_OriginDestination m" "CHR 0x00" a b]
    by (cases b) (simp_all add: CleanOriginDestination_def FMLMarkup_def Let_def)
  show "\<not> IsFML m \<Longrightarrow> fst (CleanOriginDestination m) = mm_OriginDestination m"
    by (simp add: CleanOriginDestination_def IsFML_def Cut_none)
qed

end
