(* ===== verification/Config.thy ===== *)
theory Config
  imports Access Metadata
begin

text \<open>
  The configuration (config, common/jsonx/listable.go, common/network/transport.go and the option
  records of common/network/sockopt.go): its records, the decoders that are written by hand, the
  defaults its methods fill in, and the reload loop.

  Structures decode as \<open>encoding/json\<close> does by their field names (\<open>key_is\<close>), from JSON syntax
  trees. A Go \<open>uint16\<close> is a word; decoding a number out of its range is an error.
  \<open>time.ParseDuration\<close>, whose fractions are floating point, is the parameter \<open>ParseDuration\<close>.
\<close>

section \<open>Scalars and lists\<close>

definition get_word :: "json \<Rightarrow> 'a::len word \<Rightarrow> go_error + 'a word" where
  "get_word j old =
     (case j of JNum n \<Rightarrow> if 0 \<le> n \<and> n < 2 ^ LENGTH('a) then Inr (of_int n) else Inl json_error
      | JNull \<Rightarrow> Inr old | _ \<Rightarrow> Inl json_error)"

definition get_int8 :: "json \<Rightarrow> 8 word \<Rightarrow> go_error + 8 word" where
  "get_int8 j old =
     (case j of JNum n \<Rightarrow> if -128 \<le> n \<and> n < 128 then Inr (of_int n) else Inl json_error
      | JNull \<Rightarrow> Inr old | _ \<Rightarrow> Inl json_error)"

text \<open>A structure: the fields of an object one after the other, \<open>null\<close> changes nothing.\<close>

fun set_fields :: "(string \<Rightarrow> json \<Rightarrow> 'r \<Rightarrow> go_error + 'r) \<Rightarrow> (string \<times> json) list \<Rightarrow> 'r \<Rightarrow> go_error + 'r" where
  "set_fields f [] r = Inr r"
| "set_fields f ((k, v) # fs) r = (case f k v r of Inl e \<Rightarrow> Inl e | Inr r' \<Rightarrow> set_fields f fs r')"

definition decode_struct :: "(string \<Rightarrow> json \<Rightarrow> 'r \<Rightarrow> go_error + 'r) \<Rightarrow> json \<Rightarrow> 'r \<Rightarrow> go_error + 'r" where
  "decode_struct f j r = (case j of JObj fs \<Rightarrow> set_fields f fs r | JNull \<Rightarrow> Inr r | _ \<Rightarrow> Inl json_error)"

text \<open>\<open>jsonx.Listable[string]\<close>: a list, or a single value standing for a list of one.\<close>

definition Listable_UnmarshalJSON :: "json \<Rightarrow> go_error + string list" where
  "Listable_UnmarshalJSON j =
     (case json_string_slice j of
        Inr l \<Rightarrow> Inr l
      | Inl err \<Rightarrow> (case get_str j [] of Inl err2 \<Rightarrow> Inl err | Inr single \<Rightarrow> Inr [single]))"

definition Listable_MarshalJSON :: "string list \<Rightarrow> json" where
  "Listable_MarshalJSON l = (if length l = 1 then JStr (l ! 0) else JArr (map JStr l))"

record list_parameter =
  lp_Lists :: "string list"
  lp_LowerCase :: bool

text \<open>\<open>RuleParameterListableString\<close>: an object with both fields, or only the list.\<close>

definition list_parameter_field :: "string \<Rightarrow> json \<Rightarrow> list_parameter \<Rightarrow> go_error + list_parameter" where
  "list_parameter_field k v r =
     (if key_is k ''Lists'' then map_Inr (\<lambda>l. r\<lparr>lp_Lists := l\<rparr>) (Listable_UnmarshalJSON v)
      else if key_is k ''LowerCase'' then map_Inr (\<lambda>b. r\<lparr>lp_LowerCase := b\<rparr>) (get_bool v (lp_LowerCase r))
      else Inr r)"

definition list_parameter_UnmarshalJSON :: "json \<Rightarrow> list_parameter \<Rightarrow> go_error + list_parameter" where
  "list_parameter_UnmarshalJSON j r =
     (case decode_struct list_parameter_field j r of
        Inr r' \<Rightarrow> Inr r'
      | Inl _ \<Rightarrow>
          (case Listable_UnmarshalJSON j of
             Inr l \<Rightarrow> Inr (r\<lparr>lp_Lists := l, lp_LowerCase := False\<rparr>)
           | Inl e \<Rightarrow> Inl e))"

section \<open>Router and rules\<close>

record mc_rewrite =
  rw_Hostname :: string
  rw_Port :: "16 word"
  rw_Intent :: "8 word"

record rule_rewrite =
  rr_TargetAddress :: string
  rr_TargetPort :: "16 word"
  rr_Minecraft :: "mc_rewrite option"

record rule_config =
  rc_Type :: string
  rc_Parameter :: "json option"
  rc_Rewrite :: rule_rewrite
  rc_Sniff :: "string list"
  rc_Outbound :: string
  rc_Invert :: bool

record router_config =
  ro_DefaultOutbound :: string
  ro_Rules :: "rule_config list"

record rule_domain =
  rd_Domain :: "string list"
  rd_DomainSuffix :: "string list"

definition zero_mc_rewrite :: mc_rewrite where
  "zero_mc_rewrite = \<lparr>rw_Hostname = [], rw_Port = 0, rw_Intent = 0\<rparr>"

definition zero_rewrite :: rule_rewrite where
  "zero_rewrite = \<lparr>rr_TargetAddress = [], rr_TargetPort = 0, rr_Minecraft = None\<rparr>"

definition zero_rule :: rule_config where
  "zero_rule = \<lparr>rc_Type = [], rc_Parameter = None, rc_Rewrite = zero_rewrite, rc_Sniff = [], rc_Outbound = [], rc_Invert = False\<rparr>"

definition mc_rewrite_field :: "string \<Rightarrow> json \<Rightarrow> mc_rewrite \<Rightarrow> go_error + mc_rewrite" where
  "mc_rewrite_field k v r =
     (if key_is k ''Hostname'' then map_Inr (\<lambda>x. r\<lparr>rw_Hostname := x\<rparr>) (get_str v (rw_Hostname r))
      else if key_is k ''Port'' then map_Inr (\<lambda>x. r\<lparr>rw_Port := x\<rparr>) (get_word v (rw_Port r))
      else if key_is k ''Intent'' then map_Inr (\<lambda>x. r\<lparr>rw_Intent := x\<rparr>) (get_int8 v (rw_Intent r))
      else Inr r)"

text \<open>A pointer field: \<open>null\<close> is \<open>nil\<close>, otherwise the value pointed to (a new zero one if nil) is decoded.\<close>

definition rewrite_field :: "string \<Rightarrow> json \<Rightarrow> rule_rewrite \<Rightarrow> go_error + rule_rewrite" where
  "rewrite_field k v r =
     (if key_is k ''TargetAddress'' then map_Inr (\<lambda>x. r\<lparr>rr_TargetAddress := x\<rparr>) (get_str v (rr_TargetAddress r))
      else if key_is k ''TargetPort'' then map_Inr (\<lambda>x. r\<lparr>rr_TargetPort := x\<rparr>) (get_word v (rr_TargetPort r))
      else if key_is k ''Minecraft'' then
        (if v = JNull then Inr (r\<lparr>rr_Minecraft := None\<rparr>)
         else map_Inr (\<lambda>x. r\<lparr>rr_Minecraft := Some x\<rparr>)
                (decode_struct mc_rewrite_field v
                   (case rr_Minecraft r of None \<Rightarrow> zero_mc_rewrite | Some m \<Rightarrow> m)))
      else Inr r)"

definition rule_field :: "string \<Rightarrow> json \<Rightarrow> rule_config \<Rightarrow> go_error + rule_config" where
  "rule_field k v r =
     (if key_is k ''Type'' then map_Inr (\<lambda>x. r\<lparr>rc_Type := x\<rparr>) (get_str v (rc_Type r))
      else if key_is k ''Parameter'' then Inr (r\<lparr>rc_Parameter := Some v\<rparr>)
      else if key_is k ''Rewrite'' then map_Inr (\<lambda>x. r\<lparr>rc_Rewrite := x\<rparr>) (decode_struct rewrite_field v (rc_Rewrite r))
      else if key_is k ''Sniff'' then map_Inr (\<lambda>x. r\<lparr>rc_Sniff := x\<rparr>) (Listable_UnmarshalJSON v)
      else if key_is k ''Outbound'' then map_Inr (\<lambda>x. r\<lparr>rc_Outbound := x\<rparr>) (get_str v (rc_Outbound r))
      else if key_is k ''Invert'' then map_Inr (\<lambda>x. r\<lparr>rc_Invert := x\<rparr>) (get_bool v (rc_Invert r))
      else Inr r)"

definition decode_rule :: "json \<Rightarrow> go_error + rule_config" where
  "decode_rule j = decode_struct rule_field j zero_rule"

fun decode_list :: "(json \<Rightarrow> go_error + 'a) \<Rightarrow> json list \<Rightarrow> go_error + 'a list" where
  "decode_list d [] = Inr []"
| "decode_list d (x # xs) = (case d x of Inl e \<Rightarrow> Inl e | Inr y \<Rightarrow> map_Inr (\<lambda>ys. y # ys) (decode_list d xs))"

definition decode_array :: "(json \<Rightarrow> go_error + 'a) \<Rightarrow> json \<Rightarrow> go_error + 'a list" where
  "decode_array d j = (case j of JNull \<Rightarrow> Inr [] | JArr xs \<Rightarrow> decode_list d xs | _ \<Rightarrow> Inl json_error)"

definition domain_field :: "string \<Rightarrow> json \<Rightarrow> rule_domain \<Rightarrow> go_error + rule_domain" where
  "domain_field k v r =
     (if key_is k ''Domain'' then map_Inr (\<lambda>x. r\<lparr>rd_Domain := x\<rparr>) (Listable_UnmarshalJSON v)
      else if key_is k ''DomainSuffix'' then map_Inr (\<lambda>x. r\<lparr>rd_DomainSuffix := x\<rparr>) (Listable_UnmarshalJSON v)
      else Inr r)"

text \<open>\<open>json.Unmarshal\<close> of a raw parameter: a missing one is the empty input, an error.\<close>

definition with_parameter :: "json option \<Rightarrow> (json \<Rightarrow> go_error + 'a) \<Rightarrow> go_error + 'a" where
  "with_parameter p d = (case p of None \<Rightarrow> Inl (ErrText ''unexpected end of JSON input'') | Some j \<Rightarrow> d j)"

section \<open>Outbounds and services\<close>

record keep_alive =
  ka_Idle :: int
  ka_Interval :: int
  ka_Count :: int

record inbound_options =
  io_keepAlive :: keep_alive
  io_Mark :: int
  io_SendThrough :: string
  io_TCPCongestion :: string
  io_TCPFastOpen :: bool
  io_MultiPathTCP :: bool

record outbound_options =
  oo_keepAlive :: keep_alive
  oo_Mark :: int
  oo_Interface :: string
  oo_SendThrough :: string
  oo_TCPCongestion :: string
  oo_TCPFastOpen :: bool
  oo_MultiPathTCP :: bool

text \<open>\<open>KeepAliveConfig\<close>: whether keep-alive is configured at all, with the three values.\<close>

definition KeepAliveConfig :: "keep_alive \<Rightarrow> bool \<times> keep_alive" where
  "KeepAliveConfig o' = (ka_Idle o' \<noteq> 0 \<or> ka_Interval o' \<noteq> 0 \<or> ka_Count o' \<noteq> 0, o')"

definition ConvertLegacyOutboundOptions :: "inbound_options option \<Rightarrow> outbound_options option" where
  "ConvertLegacyOutboundOptions inbound =
     (case inbound of
        None \<Rightarrow> None
      | Some i \<Rightarrow> Some
          \<lparr>oo_keepAlive = \<lparr>ka_Idle = ka_Idle (io_keepAlive i), ka_Interval = ka_Interval (io_keepAlive i),
                           ka_Count = ka_Count (io_keepAlive i)\<rparr>,
           oo_Mark = io_Mark i, oo_Interface = [], oo_SendThrough = io_SendThrough i,
           oo_TCPCongestion = io_TCPCongestion i, oo_TCPFastOpen = io_TCPFastOpen i,
           oo_MultiPathTCP = io_MultiPathTCP i\<rparr>)"

record access_config =
  ac_Mode :: string
  ac_ListTags :: "string list"
  ac_LowerCase :: bool

text \<open>\<open>Sample\<close> is \<open>any\<close>: what was decoded, or the list (name, id) the outbound replaces it with.\<close>

datatype sample = RawSample json | PlayerSamples "(string \<times> string) list"

record online_count =
  oc_Max :: "32 word"
  oc_Online :: "32 word"
  oc_EnableMaxLimit :: bool
  oc_Sample :: "sample option"

record mc_service =
  ms_EnableHostnameRewrite :: bool
  ms_RewrittenHostname :: string
  ms_OnlineCount :: online_count
  ms_IgnoreFMLSuffix :: bool
  ms_IgnoreSRVRedirect :: bool
  ms_HostnameAccess :: access_config
  ms_NameAccess :: access_config
  ms_PingMode :: string
  ms_MotdFavicon :: string
  ms_MotdDescription :: string

record proxy_options =
  po_Type :: string
  po_Network :: string
  po_Address :: string

record outbound_config =
  ob_Name :: string
  ob_Dialer :: string
  ob_TargetAddress :: string
  ob_TargetPort :: "16 word"
  ob_UDPTargetPort :: "16 word"
  ob_Transport :: string
  ob_DialNetwork :: string
  ob_TransportProbeInterval :: string
  ob_Minecraft :: "mc_service option"
  ob_SocketOptions :: "outbound_options option"
  ob_ProxyProtocolVersion :: "8 word"
  ob_ProxyOptions :: proxy_options
  ob_SendAuthSecret :: bool

definition NormalizeTransport :: "string \<Rightarrow> string \<Rightarrow> string" where
  "NormalizeTransport transport dialNetwork =
     (if transport = ''tcp'' \<or> transport = ''udp'' \<or> transport = ''auto'' then transport
      else if transport = [] then (if dialNetwork = ''udp'' then ''udp'' else ''tcp'')
      else ''tcp'')"

definition ResolvedTransport :: "outbound_config \<Rightarrow> string" where
  "ResolvedTransport c = NormalizeTransport (ob_Transport c) (ob_DialNetwork c)"

definition ProbeInterval :: "(string \<Rightarrow> int option) \<Rightarrow> outbound_config \<Rightarrow> int" where
  "ProbeInterval ParseDuration c =
     (if ob_TransportProbeInterval c = [] then 10 * 10 ^ 9
      else case ParseDuration (ob_TransportProbeInterval c) of
             None \<Rightarrow> 10 * 10 ^ 9
           | Some d \<Rightarrow> if d < 3 * 10 ^ 9 then 10 * 10 ^ 9 else if d > 60 * 10 ^ 9 then 60 * 10 ^ 9 else d)"

record tls_sniffing =
  ts_RejectNonTLS :: bool
  ts_RejectIfNonMatch :: bool
  ts_SNIAllowListTags :: "string list"

record service_config =
  sv_Name :: string
  sv_TargetAddress :: string
  sv_TargetPort :: "16 word"
  sv_Listen :: "16 word"
  sv_ListenUDP :: "16 word"
  sv_EnableTCP :: bool
  sv_EnableUDP :: bool
  sv_EnableProxyProtocol :: bool
  sv_RequireAuthSecret :: bool
  sv_IPAccess :: access_config
  sv_Minecraft :: "mc_service option"
  sv_TLSSniffing :: "tls_sniffing option"
  sv_SocketOptions :: "inbound_options option"
  sv_Outbound :: proxy_options

definition TCPEnabled :: "service_config \<Rightarrow> bool" where
  "TCPEnabled s = (if sv_EnableTCP s \<or> sv_EnableUDP s then sv_EnableTCP s else True)"

definition UDPEnabled :: "service_config \<Rightarrow> bool" where
  "UDPEnabled s \<longleftrightarrow> sv_EnableUDP s \<and> sv_ListenUDP s > 0"

section \<open>The root and its reload loop\<close>

text \<open>
  The contents of the file (\<open>_Root\<close>); the log level is a number, \<open>Lists\<close> is \<open>None\<close> when nil. \<open>Root\<close> adds the watcher and the
  reload channel: \<open>rt_reloadChan\<close> is \<open>None\<close> when nil, otherwise whether the loop is ready to receive.
\<close>

record raw_root =
  rr_Log :: nat
  rr_Services :: "service_config list"
  rr_Router :: router_config
  rr_Outbounds :: "outbound_config list"
  rr_Lists :: "(string \<rightharpoonup> string_set) option"
  rr_AuthSecret :: string

record root =
  rt_content :: raw_root
  rt_watcher :: bool
  rt_reloadChan :: "bool option"

definition validateAuthSecret :: "string \<Rightarrow> go_error option" where
  "validateAuthSecret secret =
     (if secret = [] then None else if length secret > auth_MaxLen then Some AuthErrTooLong else None)"

text \<open>\<open>loadContent\<close> on what reading and decoding the file gives.\<close>

definition loadContent :: "go_error + raw_root \<Rightarrow> go_error + raw_root" where
  "loadContent file =
     (case file of
        Inl e \<Rightarrow> Inl e
      | Inr raw \<Rightarrow> (case validateAuthSecret (rr_AuthSecret raw) of Some e \<Rightarrow> Inl e | None \<Rightarrow> Inr raw))"

definition WatcherEnabled :: "root \<Rightarrow> bool" where
  "WatcherEnabled r = rt_watcher r"

text \<open>\<open>Reload\<close> sends without blocking: it succeeds when the loop is receiving.\<close>

definition Root_Reload :: "root \<Rightarrow> bool" where
  "Root_Reload r = (case rt_reloadChan r of None \<Rightarrow> False | Some ready \<Rightarrow> ready)"

text \<open>
  \<open>Close\<close>: closing a nil channel panics. It closes the channel at most once, since the watcher is nil
  afterwards.
\<close>

definition Root_Close :: "root \<Rightarrow> root option" where
  "Root_Close r =
     (if rt_watcher r
      then (case rt_reloadChan r of
              None \<Rightarrow> None
            | Some _ \<Rightarrow> Some (r\<lparr>rt_watcher := False, rt_reloadChan := Some False\<rparr>))
      else Some r)"

text \<open>
  One turn of \<open>reloadEventLoop\<close>: what it waited for, and what the file holds then. The result is
  whether the loop goes on, the root, and whether the update handler was called.
\<close>

datatype reload_event =
  ReloadRequest | ReloadChanClosed | FileEvent | EventsClosed | WatchError | ContextDone

definition reload_turn :: "reload_event \<Rightarrow> go_error + raw_root \<Rightarrow> root \<Rightarrow> (bool \<times> root \<times> bool) option" where
  "reload_turn ev file r =
     (if ev \<in> {ReloadChanClosed, EventsClosed, WatchError} then Some (False, r, False)
      else if ev = ContextDone then map_option (\<lambda>r'. (False, r', False)) (Root_Close r)
      else Some
        (case loadContent file of
           Inl e \<Rightarrow> (True, r, False)
         | Inr raw \<Rightarrow>
             (case validateAuthSecret (rr_AuthSecret raw) of
                Some e \<Rightarrow> (True, r, False)
              | None \<Rightarrow> (True, r\<lparr>rt_content := raw\<rparr>, True))))"

text \<open>The loop on a sequence of events; it also counts the calls of the update handler.\<close>

fun reload_loop :: "(reload_event \<times> (go_error + raw_root)) list \<Rightarrow> root \<Rightarrow> (root \<times> nat) option" where
  "reload_loop [] r = Some (r, 0)"
| "reload_loop ((ev, file) # evs) r = do {
     (goon, r, called) \<leftarrow> reload_turn ev file r;
     if goon then map_option (map_prod id (\<lambda>n. n + (if called then 1 else 0))) (reload_loop evs r)
     else Some (r, if called then 1 else 0)
   }"

text \<open>
  \<open>LoadConfigFromFile\<close>: a missing file gives the default configuration \<open>dflt\<close>, which is also written
  out. \<open>newErr\<close> and \<open>addErr\<close> are the results of making the watcher and of watching the file; when the
  second fails the channel has not been made yet.
\<close>

datatype file_state = FileMissing | FileError go_error | FileContent "go_error + raw_root"

record load_results =
  lr_create :: "go_error option"
  lr_encode :: "go_error option"
  lr_watcher :: "go_error option"
  lr_add :: "go_error option"

definition load_raw :: "raw_root \<Rightarrow> file_state \<Rightarrow> load_results \<Rightarrow> go_error + raw_root" where
  "load_raw dflt file lr =
     (case file of
        FileMissing \<Rightarrow>
          (case lr_create lr of
             Some e \<Rightarrow> Inl (Cause ''create config file: '' e)
           | None \<Rightarrow> (case lr_encode lr of Some e \<Rightarrow> Inl (Cause ''generate config: '' e) | None \<Rightarrow> Inr dflt))
      | FileError e \<Rightarrow> Inl (Cause ''load config: '' e)
      | FileContent c \<Rightarrow> (case loadContent c of Inl e \<Rightarrow> Inl (Cause ''load config: '' e) | Inr raw \<Rightarrow> Inr raw))"

definition LoadConfigFromFile :: "raw_root \<Rightarrow> file_state \<Rightarrow> bool \<Rightarrow> load_results \<Rightarrow> (go_error + root) option" where
  "LoadConfigFromFile dflt file watch lr =
     (case load_raw dflt file lr of
        Inl e \<Rightarrow> Some (Inl e)
      | Inr raw \<Rightarrow>
          let root = \<lparr>rt_content = raw, rt_watcher = False, rt_reloadChan = None\<rparr> in
          if watch then
            (case lr_watcher lr of
               Some e \<Rightarrow> Some (Inl e)
             | None \<Rightarrow>
                 let root = root\<lparr>rt_watcher := True\<rparr> in
                 (case lr_add lr of
                    Some e \<Rightarrow> do { _ \<leftarrow> Root_Close root; Some (Inl e) }
                  | None \<Rightarrow> Some (Inr (root\<lparr>rt_reloadChan := Some True\<rparr>))))
          else Some (Inr root))"

text \<open>The configuration it generates.\<close>

definition no_access :: access_config where
  "no_access = \<lparr>ac_Mode = [], ac_ListTags = [], ac_LowerCase = False\<rparr>"

definition no_proxy :: proxy_options where
  "no_proxy = \<lparr>po_Type = [], po_Network = [], po_Address = []\<rparr>"

text \<open>The UTF-8 bytes of the section sign, which starts a colour code.\<close>

definition section_sign :: string where "section_sign = [CHR 0xC2, CHR 0xA7]"

definition default_motd :: string where
  "default_motd =
     section_sign @ ''d{NAME}'' @ section_sign @ ''e, provided by '' @ section_sign @ ''a'' @ section_sign @
     ''o{INFO}'' @ section_sign @ ''r'' @ [CHR 0x0A] @ section_sign @ ''c'' @ section_sign @ ''lProxy for '' @
     section_sign @ ''6'' @ section_sign @ ''n{HOST}:{PORT}'' @ section_sign @ ''r''"

definition default_root :: raw_root where
  "default_root =
     \<lparr>rr_Log = 1,
      rr_Services =
        [\<lparr>sv_Name = ''Hypixel-in'', sv_TargetAddress = [], sv_TargetPort = 0, sv_Listen = 25565, sv_ListenUDP = 25566,
          sv_EnableTCP = True, sv_EnableUDP = True, sv_EnableProxyProtocol = False, sv_RequireAuthSecret = False,
          sv_IPAccess = no_access, sv_Minecraft = None, sv_TLSSniffing = None, sv_SocketOptions = None,
          sv_Outbound = no_proxy\<rparr>],
      rr_Router =
        \<lparr>ro_DefaultOutbound = ''RESET'',
         ro_Rules =
           [zero_rule\<lparr>rc_Type := ''always'', rc_Sniff := [''minecraft'']\<rparr>,
            zero_rule\<lparr>rc_Type := ''ServiceName'', rc_Parameter := Some (JStr ''Hypixel-in''),
              rc_Rewrite := zero_rewrite\<lparr>rr_Minecraft :=
                Some \<lparr>rw_Hostname = ''mc.hypixel.net'', rw_Port = 25565, rw_Intent = 0\<rparr>\<rparr>,
              rc_Outbound := ''Hypixel-out''\<rparr>]\<rparr>,
      rr_Outbounds =
        [\<lparr>ob_Name = ''Hypixel-out'', ob_Dialer = [], ob_TargetAddress = ''mc.hypixel.net'', ob_TargetPort = 25565,
          ob_UDPTargetPort = 25566, ob_Transport = ''auto'', ob_DialNetwork = [], ob_TransportProbeInterval = ''10s'',
          ob_Minecraft = Some
            \<lparr>ms_EnableHostnameRewrite = False, ms_RewrittenHostname = [],
             ms_OnlineCount = \<lparr>oc_Max = 20, oc_Online = -1, oc_EnableMaxLimit = False, oc_Sample = None\<rparr>,
             ms_IgnoreFMLSuffix = False, ms_IgnoreSRVRedirect = False, ms_HostnameAccess = no_access,
             ms_NameAccess = no_access, ms_PingMode = [], ms_MotdFavicon = ''{DEFAULT_MOTD}'',
             ms_MotdDescription = default_motd\<rparr>,
          ob_SocketOptions = None, ob_ProxyProtocolVersion = 0, ob_ProxyOptions = no_proxy,
          ob_SendAuthSecret = False\<rparr>],
      rr_Lists = Some Map.empty, rr_AuthSecret = []\<rparr>"

end
