(* ===== verification/Packets.thy ===== *)
theory Packets
  imports VarInts Messages
begin

text \<open>
  Packet fields and packet framing of the Minecraft protocol: common/mcprotocol/packet.go
  (\<open>WriteToPacket\<close>, \<open>Scan\<close> and their readers and writers) and common/mcprotocol/conn.go
  (\<open>ReadLimitedPacket\<close>, \<open>WritePacket\<close>, \<open>WriteVectorizedPacket\<close>).

  Go passes fields as \<open>any\<close>; the types the two switches name are the constructors of \<open>item\<close>
  (values) and \<open>kind\<close> (the pointers \<open>Scan\<close> fills). Go's \<open>int\<close> is \<open>IInt\<close>, an unbounded
  integer. \<open>render\<close> and \<open>parse\<close> stand for the text encoding of \<open>encoding/json\<close>.
\<close>

section \<open>Reading fields\<close>

definition read_word :: "nat \<Rightarrow> buffer \<Rightarrow> (('a::len word \<times> go_error option) \<times> buffer) option" where
  "read_word n b = do {
     ((bs, err), b') \<leftarrow> Buffer_Peek b (int n);
     (case err of Some e \<Rightarrow> Some ((0, Some e), b') | None \<Rightarrow> Some ((be_word bs, None), b'))
   }"

definition ReadInt8 :: "buffer \<Rightarrow> ((8 word \<times> go_error option) \<times> buffer) option" where
  "ReadInt8 b = do {
     ((x, err), b') \<leftarrow> Buffer_ReadByte b;
     (case err of Some e \<Rightarrow> Some ((0, Some e), b') | None \<Rightarrow> Some ((x, None), b'))
   }"

definition ReadInt16 :: "buffer \<Rightarrow> ((16 word \<times> go_error option) \<times> buffer) option" where
  "ReadInt16 b = read_word 2 b"

definition ReadUint16 :: "buffer \<Rightarrow> ((16 word \<times> go_error option) \<times> buffer) option" where
  "ReadUint16 b = read_word 2 b"

definition ReadInt32 :: "buffer \<Rightarrow> ((32 word \<times> go_error option) \<times> buffer) option" where
  "ReadInt32 b = read_word 4 b"

definition ReadUint32 :: "buffer \<Rightarrow> ((32 word \<times> go_error option) \<times> buffer) option" where
  "ReadUint32 b = read_word 4 b"

definition ReadInt64 :: "buffer \<Rightarrow> ((64 word \<times> go_error option) \<times> buffer) option" where
  "ReadInt64 b = read_word 8 b"

definition ReadUint64 :: "buffer \<Rightarrow> ((64 word \<times> go_error option) \<times> buffer) option" where
  "ReadUint64 b = read_word 8 b"

text \<open>\<open>ReadInt\<close> converts the \<open>uint32\<close> it decodes, so its result is never negative.\<close>

definition ReadInt :: "buffer \<Rightarrow> ((int \<times> go_error option) \<times> buffer) option" where
  "ReadInt b = do {
     ((bs, err), b') \<leftarrow> Buffer_Peek b 4;
     (case err of Some e \<Rightarrow> Some ((0, Some e), b')
      | None \<Rightarrow> Some ((uint (be_word bs :: 32 word), None), b'))
   }"

definition ReadLimitedString :: "buffer \<Rightarrow> int \<Rightarrow> ((string \<times> go_error option) \<times> buffer) option" where
  "ReadLimitedString b limit = do {
     ((n, _, err), b1) \<leftarrow> ReadVarIntFrom Buffer_ReadByte b;
     (case err of Some e \<Rightarrow> Some (([], Some e), b1)
      | None \<Rightarrow>
          if sint n > limit then Some (([], Some (ErrText ''limit exceeded'')), b1)
          else if sint n \<le> 0 then Some (([], Some (ErrText ''bad string length: zero or negative'')), b1)
          else do {
            ((bs, err), b2) \<leftarrow> Buffer_Peek b1 (sint n);
            (case err of Some e \<Rightarrow> Some (([], Some e), b2) | None \<Rightarrow> Some ((bytes_str bs, None), b2))
          })
   }"

definition ReadString :: "buffer \<Rightarrow> ((string \<times> go_error option) \<times> buffer) option" where
  "ReadString b = ReadLimitedString b (2 ^ 31 - 1)"

definition ReadMessage ::
  "(bytes \<Rightarrow> json option) \<Rightarrow> buffer \<Rightarrow> message \<Rightarrow> ((message \<times> go_error option) \<times> buffer) option" where
  "ReadMessage parse b m = do {
     ((n, _, err), b1) \<leftarrow> ReadVarIntFrom Buffer_ReadByte b;
     (case err of Some e \<Rightarrow> Some ((m, Some e), b1)
      | None \<Rightarrow> do {
          ((code, err), b2) \<leftarrow> Buffer_Peek b1 (sint n);
          (case err of Some e \<Rightarrow> Some ((m, Some e), b2)
           | None \<Rightarrow> (case parse code of
               None \<Rightarrow> Some ((m, Some json_error), b2)
             | Some j \<Rightarrow> (case unmarshal_message j m of
                 Inl e \<Rightarrow> Some ((m, Some e), b2)
               | Inr m' \<Rightarrow> Some ((m', None), b2))))
        })
   }"

section \<open>Writing fields\<close>

text \<open>\<open>binary.BigEndian.PutUintN(buffer.Extend(n), w)\<close>.\<close>

definition put_word :: "nat \<Rightarrow> buffer \<Rightarrow> 'a::len word \<Rightarrow> buffer option" where
  "put_word n b w = do {
     (off, b') \<leftarrow> Buffer_Extend b (int n);
     Some (Buffer_fill b' off (be_bytes n w))
   }"

definition WriteBoolean :: "buffer \<Rightarrow> bool \<Rightarrow> (go_error option \<times> buffer) option" where
  "WriteBoolean b v = (if v then Buffer_WriteByte b 1 else Buffer_WriteZero b)"

definition WriteBytes :: "buffer \<Rightarrow> bytes \<Rightarrow> (go_error option \<times> buffer) option" where
  "WriteBytes b bs = do {
     b1 \<leftarrow> VarInt_WriteToBuffer b (of_nat (length bs));
     ((_, err), b2) \<leftarrow> Buffer_Write b1 bs;
     Some (err, b2)
   }"

definition pk_WriteString :: "buffer \<Rightarrow> string \<Rightarrow> (go_error option \<times> buffer) option" where
  "pk_WriteString b s = do {
     b1 \<leftarrow> VarInt_WriteToBuffer b (of_nat (length s));
     ((_, err), b2) \<leftarrow> Buffer_WriteString b1 s;
     Some (err, b2)
   }"

text \<open>\<open>Message.WriteTo\<close>, through any writer: the length, then the JSON text.\<close>

definition Message_WriteTo ::
  "(json \<Rightarrow> bytes) \<Rightarrow> 'w writer \<Rightarrow> message \<Rightarrow> 'w \<Rightarrow> ((int \<times> go_error option) \<times> 'w) option" where
  "Message_WriteTo render wr m w = do {
     let code = render (message_json m);
     ((_, err), w1) \<leftarrow> VarInt_WriteTo wr (of_nat (length code)) w;
     (case err of
        Some e \<Rightarrow> Some ((0, Some e), w1)
      | None \<Rightarrow> do {
          ((n, err), w2) \<leftarrow> wr code w1;
          Some ((int n, err), w2)
        })
   }"

datatype item =
    IBool bool | IBytes bytes | IString string | IInt8 "8 word" | IUint8 "8 word"
  | IInt16 "16 word" | IUint16 "16 word" | IInt int | IInt32 "32 word" | IUint32 "32 word"
  | IInt64 "64 word" | IUint64 "64 word" | IVarInt "32 word" | IMessage message

definition buffer_writer :: "buffer writer" where
  "buffer_writer bs b = Buffer_Write b bs"

definition write_item :: "(json \<Rightarrow> bytes) \<Rightarrow> buffer \<Rightarrow> item \<Rightarrow> (go_error option \<times> buffer) option" where
  "write_item render b it =
     (case it of
        IBool v \<Rightarrow> WriteBoolean b v
      | IBytes bs \<Rightarrow> WriteBytes b bs
      | IString s \<Rightarrow> pk_WriteString b s
      | IInt8 x \<Rightarrow> Buffer_WriteByte b x
      | IUint8 x \<Rightarrow> Buffer_WriteByte b x
      | IInt16 x \<Rightarrow> map_option (Pair None) (put_word 2 b x)
      | IUint16 x \<Rightarrow> map_option (Pair None) (put_word 2 b x)
      | IInt x \<Rightarrow> map_option (Pair None) (put_word 4 b (of_int x :: 32 word))
      | IInt32 x \<Rightarrow> map_option (Pair None) (put_word 4 b x)
      | IUint32 x \<Rightarrow> map_option (Pair None) (put_word 4 b x)
      | IInt64 x \<Rightarrow> map_option (Pair None) (put_word 8 b x)
      | IUint64 x \<Rightarrow> map_option (Pair None) (put_word 8 b x)
      | IVarInt x \<Rightarrow> map_option (Pair None) (VarInt_WriteToBuffer b x)
      | IMessage m \<Rightarrow> map_option (\<lambda>((_, err), b'). (err, b')) (Message_WriteTo render buffer_writer m b))"

primrec WriteToPacket :: "(json \<Rightarrow> bytes) \<Rightarrow> buffer \<Rightarrow> item list \<Rightarrow> (go_error option \<times> buffer) option" where
  "WriteToPacket render b [] = Some (None, b)"
| "WriteToPacket render b (it # its) = do {
     (err, b') \<leftarrow> write_item render b it;
     (case err of Some e \<Rightarrow> Some (Some e, b') | None \<Rightarrow> WriteToPacket render b' its)
   }"

section \<open>Scanning\<close>

datatype kind =
    KBool | KString | KInt8 | KUint8 | KInt16 | KUint16 | KInt | KInt32 | KUint32 | KInt64 | KUint64
  | KVarInt | KMessage message

text \<open>The value read is stored also when there is an error (a \<open>bool\<close> becomes false, and so on).\<close>

definition scan_item :: "(bytes \<Rightarrow> json option) \<Rightarrow> buffer \<Rightarrow> kind \<Rightarrow> ((item \<times> go_error option) \<times> buffer) option" where
  "scan_item parse b k =
     (case k of
        KBool \<Rightarrow> map_option (\<lambda>((x, err), b'). ((IBool (x = 1), err), b')) (Buffer_ReadByte b)
      | KString \<Rightarrow> map_option (\<lambda>((x, err), b'). ((IString x, err), b')) (ReadString b)
      | KInt8 \<Rightarrow> map_option (\<lambda>((x, err), b'). ((IInt8 x, err), b')) (ReadInt8 b)
      | KUint8 \<Rightarrow> map_option (\<lambda>((x, err), b'). ((IUint8 x, err), b')) (Buffer_ReadByte b)
      | KInt16 \<Rightarrow> map_option (\<lambda>((x, err), b'). ((IInt16 x, err), b')) (ReadInt16 b)
      | KUint16 \<Rightarrow> map_option (\<lambda>((x, err), b'). ((IUint16 x, err), b')) (ReadUint16 b)
      | KInt \<Rightarrow> map_option (\<lambda>((x, err), b'). ((IInt x, err), b')) (ReadInt b)
      | KInt32 \<Rightarrow> map_option (\<lambda>((x, err), b'). ((IInt32 x, err), b')) (ReadInt32 b)
      | KUint32 \<Rightarrow> map_option (\<lambda>((x, err), b'). ((IUint32 x, err), b')) (ReadUint32 b)
      | KInt64 \<Rightarrow> map_option (\<lambda>((x, err), b'). ((IInt64 x, err), b')) (ReadInt64 b)
      | KUint64 \<Rightarrow> map_option (\<lambda>((x, err), b'). ((IUint64 x, err), b')) (ReadUint64 b)
      | KVarInt \<Rightarrow> map_option (\<lambda>((x, _, err), b'). ((IVarInt x, err), b')) (ReadVarIntFrom Buffer_ReadByte b)
      | KMessage m \<Rightarrow> map_option (\<lambda>((x, err), b'). ((IMessage x, err), b')) (ReadMessage parse b m))"

primrec Scan :: "(bytes \<Rightarrow> json option) \<Rightarrow> buffer \<Rightarrow> kind list \<Rightarrow> ((item list \<times> go_error option) \<times> buffer) option" where
  "Scan parse b [] = Some (([], None), b)"
| "Scan parse b (k # ks) = do {
     ((it, err), b') \<leftarrow> scan_item parse b k;
     (case err of
        Some e \<Rightarrow> Some (([it], Some e), b')
      | None \<Rightarrow> do {
          ((its, err), b'') \<leftarrow> Scan parse b' ks;
          Some ((it # its, err), b'')
        })
   }"

section \<open>Packets on a connection\<close>

definition AppendPacketLength :: "buffer \<Rightarrow> int \<Rightarrow> buffer option" where
  "AppendPacketLength b l =
     (let lenInt32 = of_int l :: 32 word in do {
        (off, b') \<leftarrow> Buffer_ExtendHeader b (VarIntLen lenInt32);
        put_through b' off (VarIntLen lenInt32) (\<lambda>bs. PutVarInt bs lenInt32)
      })"

text \<open>\<open>own\<close> is the reader's \<open>ReadByte\<close>, if it has one; \<open>rd\<close> its \<open>Read\<close>.\<close>

definition ReadLimitedPacket ::
  "'s byte_reader option \<Rightarrow> 's reader \<Rightarrow> buffer \<Rightarrow> int \<Rightarrow> 's \<Rightarrow> (go_error option \<times> buffer \<times> 's) option" where
  "ReadLimitedPacket own rd b maxLen s = do {
     ((len, _, err), s1) \<leftarrow> ReadVarIntFrom (CreateByteReader own rd) s;
     (case err of
        Some e \<Rightarrow> Some (Some e, b, s1)
      | None \<Rightarrow>
          let lengthInt = sint len in
          if lengthInt < 0 then Some (Some (ErrText ''incorrect packet length''), b, s1)
          else if lengthInt > maxLen then Some (Some (ErrText ''packet max length exceeded''), b, s1)
          else if Buffer_FreeLen b < lengthInt then Some (Some (ErrText ''short buffer''), b, s1)
          else do {
            ((_, err), b', s2) \<leftarrow> Buffer_ReadFullFrom rd b s1 lengthInt;
            Some (err, b', s2)
          })
   }"

definition ReadPacket ::
  "'s byte_reader option \<Rightarrow> 's reader \<Rightarrow> buffer \<Rightarrow> 's \<Rightarrow> (go_error option \<times> buffer \<times> 's) option" where
  "ReadPacket own rd b s = ReadLimitedPacket own rd b (2 ^ 63 - 1) s"

definition WritePacket :: "'w writer \<Rightarrow> buffer \<Rightarrow> 'w \<Rightarrow> (go_error option \<times> buffer \<times> 'w) option" where
  "WritePacket wr b w = do {
     b1 \<leftarrow> AppendPacketLength b (Buffer_Len b);
     bs \<leftarrow> Buffer_Bytes b1;
     ((_, err), w') \<leftarrow> wr bs w;
     Some (err, Buffer_Reset b1 (int MaxVarIntLen), w')
   }"

text \<open>
  \<open>net.Buffers.WriteTo\<close> on a writer without \<open>writev\<close>: one write per slice, until one fails.\<close>

primrec write_buffers :: "'w writer \<Rightarrow> bytes list \<Rightarrow> 'w \<Rightarrow> (go_error option \<times> 'w) option" where
  "write_buffers wr [] w = Some (None, w)"
| "write_buffers wr (v # vs) w = do {
     ((_, err), w') \<leftarrow> wr v w;
     (case err of Some e \<Rightarrow> Some (Some e, w') | None \<Rightarrow> write_buffers wr vs w')
   }"

definition WriteVectorizedPacket ::
  "'w writer \<Rightarrow> buffer \<Rightarrow> bytes list \<Rightarrow> 'w \<Rightarrow> (go_error option \<times> buffer \<times> 'w) option" where
  "WriteVectorizedPacket wr b packets w = do {
     let totalLength = Buffer_Len b + sum_list (map (\<lambda>p. int (length p)) packets);
     b1 \<leftarrow> AppendPacketLength b totalLength;
     bs \<leftarrow> Buffer_Bytes b1;
     (err, w') \<leftarrow> write_buffers wr (bs # packets) w;
     Some (err, Buffer_Reset b1 (int MaxVarIntLen), w')
   }"

section \<open>What the field writers append\<close>

definition str_field :: "bytes \<Rightarrow> bytes" where
  "str_field bs = leb128 (of_nat (length bs)) @ bs"

fun item_bytes :: "(json \<Rightarrow> bytes) \<Rightarrow> item \<Rightarrow> bytes" where
  "item_bytes render (IBool v) = [if v then 1 else 0]"
| "item_bytes render (IBytes bs) = str_field bs"
| "item_bytes render (IString s) = str_field (str_bytes s)"
| "item_bytes render (IInt8 x) = [x]"
| "item_bytes render (IUint8 x) = [x]"
| "item_bytes render (IInt16 x) = be_bytes 2 x"
| "item_bytes render (IUint16 x) = be_bytes 2 x"
| "item_bytes render (IInt x) = be_bytes 4 (of_int x :: 32 word)"
| "item_bytes render (IInt32 x) = be_bytes 4 x"
| "item_bytes render (IUint32 x) = be_bytes 4 x"
| "item_bytes render (IInt64 x) = be_bytes 8 x"
| "item_bytes render (IUint64 x) = be_bytes 8 x"
| "item_bytes render (IVarInt x) = leb128 x"
| "item_bytes render (IMessage m) = str_field (render (message_json m))"

lemma put_at_put_at:
  "i + length xs + length ys \<le> length arr \<Longrightarrow>
   put_at (put_at arr i xs) (i + length xs) ys = put_at arr i (xs @ ys)"
  by (simp add: put_at_def ac_simps)

lemma Buffer_absorb_absorb:
  assumes "buf_wf b" "length (xs @ ys) \<le> buf_free b"
  shows "Buffer_absorb (Buffer_absorb b xs) ys = Buffer_absorb b (xs @ ys)"
proof -
  have e: "0 \<le> b_end b" "nat (b_end b) + length xs + length ys \<le> length (b_arr b)"
    using assms by (auto simp: buffer_defs)
  have "nat (b_end b + int (length xs)) = nat (b_end b) + length xs" using e(1) by simp
  then show ?thesis using put_at_put_at [OF e(2)] by (simp add: Buffer_absorb_def)
qed

lemma Buffer_absorb_Nil [simp]: "Buffer_absorb b [] = b"
  by (simp add: Buffer_absorb_def)

lemma put_word_fits:
  assumes "buf_wf b" "n \<le> buf_free b"
  shows "put_word n b w = Some (Buffer_absorb b (be_bytes n w))"
  using Buffer_Extend_fill [of b "be_bytes n w"] assms by (simp add: put_word_def)

text \<open>A length-prefixed write: the VarInt, then the bytes through any of the two writers.\<close>

lemma field_fits:
  assumes "buf_wf b" "length (str_field bs) \<le> buf_free b"
  shows "VarInt_WriteToBuffer b (of_nat (length bs)) = Some (Buffer_absorb b (leb128 (of_nat (length bs))))"
    "buf_wf (Buffer_absorb b (leb128 (of_nat (length bs))))"
    "length bs \<le> buf_free (Buffer_absorb b (leb128 (of_nat (length bs))))"
    "Buffer_absorb (Buffer_absorb b (leb128 (of_nat (length bs)))) bs = Buffer_absorb b (str_field bs)"
proof -
  have l: "length (leb128 (of_nat (length bs))) \<le> buf_free b" using assms(2) by (simp add: str_field_def)
  note a = buf_append [OF assms(1) l]
  show "VarInt_WriteToBuffer b (of_nat (length bs)) = Some (Buffer_absorb b (leb128 (of_nat (length bs))))"
    by (rule VarInt_WriteToBuffer_append [OF assms(1) l])
  show "buf_wf (Buffer_absorb b (leb128 (of_nat (length bs))))" by (rule a(1))
  show "length bs \<le> buf_free (Buffer_absorb b (leb128 (of_nat (length bs))))"
    using a(3) assms(2) by (simp add: str_field_def)
  show "Buffer_absorb (Buffer_absorb b (leb128 (of_nat (length bs)))) bs = Buffer_absorb b (str_field bs)"
    using Buffer_absorb_absorb [OF assms(1)] assms(2) by (simp add: str_field_def)
qed

lemma VarInt_WriteTo_leb128:
  "VarInt_WriteTo wr i w = do {
     ((nn, err), w') \<leftarrow> wr (leb128 i) w;
     Some ((int nn, err), w')
   }"
  using length_leb128_le [of i] by (simp add: VarInt_WriteTo_def PutVarInt_leb128 MaxVarIntLen_def put_at_def)

lemma Message_WriteTo_fits:
  assumes "buf_wf b" "length (str_field (render (message_json m))) \<le> buf_free b"
  shows "\<exists>n. Message_WriteTo render buffer_writer m b =
           Some ((n, None), Buffer_absorb b (str_field (render (message_json m))))"
proof -
  let ?c = "render (message_json m)" let ?l = "leb128 (of_nat (length ?c))"
  note f = field_fits [OF assms]
  have "length ?l \<le> buf_free b" using assms(2) by (simp add: str_field_def)
  then have "Buffer_Write b ?l = Some ((length ?l, None), Buffer_absorb b ?l)"
    using Buffer_Write_fits [OF assms(1)] by simp
  moreover have "Buffer_Write (Buffer_absorb b ?l) ?c = Some ((length ?c, None), Buffer_absorb b (str_field ?c))"
    using Buffer_Write_fits [OF f(2,3)] f(4) by simp
  ultimately show ?thesis
    by (simp add: Message_WriteTo_def VarInt_WriteTo_leb128 buffer_writer_def Let_def)
qed

lemma write_item_fits:
  assumes "buf_wf b" "length (item_bytes render it) \<le> buf_free b"
  shows "write_item render b it = Some (None, Buffer_absorb b (item_bytes render it))"
proof (cases it)
  case (IString s)
  then have l: "length (str_field (str_bytes s)) \<le> buf_free b" using assms(2) by simp
  note f = field_fits [OF assms(1) l]
  show ?thesis
    using f Buffer_WriteString_fits [OF f(2), of s] IString by (simp add: write_item_def pk_WriteString_def)
next
  case (IBytes bs)
  then have l: "length (str_field bs) \<le> buf_free b" using assms(2) by simp
  note f = field_fits [OF assms(1) l]
  show ?thesis
    using f Buffer_Write_fits [OF f(2,3)] IBytes by (simp add: write_item_def WriteBytes_def)
next
  case (IMessage m)
  then show ?thesis using Message_WriteTo_fits [of b render m] assms by (auto simp: write_item_def)
qed (use assms in \<open>auto simp: write_item_def WriteBoolean_def Buffer_WriteByte_fits Buffer_WriteZero_fits
      put_word_fits VarInt_WriteToBuffer_append\<close>)

lemma WriteToPacket_fits:
  "buf_wf b \<Longrightarrow> length (concat (map (item_bytes render) its)) \<le> buf_free b \<Longrightarrow>
   WriteToPacket render b its = Some (None, Buffer_absorb b (concat (map (item_bytes render) its)))"
proof (induction its arbitrary: b)
  case (Cons it its)
  have l: "length (item_bytes render it) \<le> buf_free b" using Cons.prems by simp
  note a = buf_append [OF Cons.prems(1) l]
  show ?case
    using write_item_fits [OF Cons.prems(1) l] Cons.IH [OF a(1)] a(3) Cons.prems
      Buffer_absorb_absorb [OF Cons.prems(1), of "item_bytes render it"]
    by simp
qed simp

section \<open>What the scanners take\<close>

text \<open>
  Values that can be read back: a string must not be empty (\<open>ReadString\<close> refuses length 0) and must
  have a length that is positive as an \<open>int32\<close>; there is no scanner for byte slices; a message needs
  the JSON text to parse back; an \<open>int\<close> comes back modulo \<open>2 ^ 32\<close>.
\<close>

fun scannable :: "(json \<Rightarrow> bytes) \<Rightarrow> (bytes \<Rightarrow> json option) \<Rightarrow> item \<Rightarrow> bool" where
  "scannable render parse (IBytes bs) = False"
| "scannable render parse (IString s) = (s \<noteq> [] \<and> length s < 2 ^ 31)"
| "scannable render parse (IMessage m) =
     (length (render (message_json m)) < 2 ^ 31 \<and> parse (render (message_json m)) = Some (message_json m))"
| "scannable render parse _ = True"

fun kind_of :: "item \<Rightarrow> kind" where
  "kind_of (IBool v) = KBool" | "kind_of (IBytes bs) = KString" | "kind_of (IString s) = KString"
| "kind_of (IInt8 x) = KInt8" | "kind_of (IUint8 x) = KUint8" | "kind_of (IInt16 x) = KInt16"
| "kind_of (IUint16 x) = KUint16" | "kind_of (IInt x) = KInt" | "kind_of (IInt32 x) = KInt32"
| "kind_of (IUint32 x) = KUint32" | "kind_of (IInt64 x) = KInt64" | "kind_of (IUint64 x) = KUint64"
| "kind_of (IVarInt x) = KVarInt" | "kind_of (IMessage m) = KMessage zero_message"

fun read_back :: "item \<Rightarrow> item" where
  "read_back (IInt x) = IInt (x mod 2 ^ 32)"
| "read_back it = it"

lemma read_word_prefix:
  assumes "buf_wf b" "buf_bytes b = be_bytes n (w :: 'a::len word) @ rest" "LENGTH('a) \<le> 8 * n"
  shows "\<exists>b'. read_word n b = Some ((w, None), b') \<and> buf_wf b' \<and> buf_bytes b' = rest"
  using Peek_prefix [OF assms(1,2)] assms(3) by (auto simp: read_word_def)

lemma ReadByte_prefix:
  assumes "buf_wf b" "buf_bytes b = x # rest"
  shows "\<exists>b'. Buffer_ReadByte b = Some ((x, None), b') \<and> buf_wf b' \<and> buf_bytes b' = rest"
  using buf_bytes.rb_delivers [OF assms] by blast

lemma sint_of_nat_small: "n < 2 ^ 31 \<Longrightarrow> sint (of_nat n :: 32 word) = int n"
  by (simp add: signed_of_nat signed_take_bit_int_eq_self)

lemma str_field_prefix:
  assumes "buf_wf b" "buf_bytes b = str_field bs @ rest" "length bs < 2 ^ 31"
  shows "\<exists>b1 b2 k. ReadVarIntFrom Buffer_ReadByte b = Some ((of_nat (length bs), k, None), b1) \<and>
           sint (of_nat (length bs) :: 32 word) = int (length bs) \<and>
           Buffer_Peek b1 (int (length bs)) = Some ((bs, None), b2) \<and> buf_wf b2 \<and> buf_bytes b2 = rest"
proof -
  have "buf_bytes b = leb128 (of_nat (length bs)) @ bs @ rest" using assms(2) by (simp add: str_field_def)
  from buf_bytes.ReadVarIntFrom_leb128 [OF assms(1) this] obtain b1 where
    b1: "ReadVarIntFrom Buffer_ReadByte b =
           Some ((of_nat (length bs), length (leb128 (of_nat (length bs))), None), b1)"
        "buf_bytes b1 = bs @ rest" "buf_wf b1" by blast
  then show ?thesis using Peek_prefix [OF b1(3,2)] sint_of_nat_small [OF assms(3)] by blast
qed

lemma scan_item_prefix:
  assumes "buf_wf b" "buf_bytes b = item_bytes render it @ rest" "scannable render parse it"
  shows "\<exists>b'. scan_item parse b (kind_of it) = Some ((read_back it, None), b') \<and> buf_wf b' \<and> buf_bytes b' = rest"
proof (cases it)
  case (IBool v)
  then show ?thesis using ReadByte_prefix [OF assms(1), of "if v then 1 else 0" rest] assms(2) by (auto simp: scan_item_def)
next
  case (IString s)
  then have "buf_bytes b = str_field (str_bytes s) @ rest" "length (str_bytes s) < 2 ^ 31" "s \<noteq> []"
    using assms by simp_all
  from str_field_prefix [OF assms(1) this(1,2)] this(3) show ?thesis
    using IString assms(3) by (auto simp: scan_item_def ReadString_def ReadLimitedString_def)
next
  case (IMessage m)
  let ?c = "render (message_json m)"
  have "buf_bytes b = str_field ?c @ rest" "length ?c < 2 ^ 31" "parse ?c = Some (message_json m)"
    using assms IMessage by simp_all
  from str_field_prefix [OF assms(1) this(1,2)] this(3) show ?thesis
    using IMessage unmarshal_message_json [of m] by (auto simp: scan_item_def ReadMessage_def)
next
  case (IInt x)
  then have "buf_bytes b = be_bytes 4 (of_int x :: 32 word) @ rest" using assms(2) by simp
  from Peek_prefix [OF assms(1) this] show ?thesis
    using IInt by (auto simp: scan_item_def ReadInt_def uint_word_of_int take_bit_eq_mod)
next
  case (IVarInt x)
  then show ?thesis
    using buf_bytes.ReadVarIntFrom_leb128 [OF assms(1), of x rest] assms(2) by (auto simp: scan_item_def)
qed (use assms ReadByte_prefix [OF assms(1)] read_word_prefix [OF assms(1), where n = 2 and 'a = 16]
      read_word_prefix [OF assms(1), where n = 4 and 'a = 32] read_word_prefix [OF assms(1), where n = 8 and 'a = 64]
      in \<open>fastforce simp: scan_item_def ReadInt8_def ReadInt16_def ReadUint16_def ReadInt32_def ReadUint32_def
        ReadInt64_def ReadUint64_def\<close>)+

lemma Scan_prefix:
  "buf_wf b \<Longrightarrow> buf_bytes b = concat (map (item_bytes render) its) @ rest \<Longrightarrow>
   \<forall>it \<in> set its. scannable render parse it \<Longrightarrow>
   \<exists>b'. Scan parse b (map kind_of its) = Some ((map read_back its, None), b') \<and> buf_wf b' \<and> buf_bytes b' = rest"
proof (induction its arbitrary: b)
  case (Cons it its)
  have "buf_bytes b = item_bytes render it @ concat (map (item_bytes render) its) @ rest"
    using Cons.prems(2) by simp
  from scan_item_prefix [OF Cons.prems(1) this] Cons.prems(3) obtain b1 where
    b1: "scan_item parse b (kind_of it) = Some ((read_back it, None), b1)" "buf_wf b1"
        "buf_bytes b1 = concat (map (item_bytes render) its) @ rest" by auto
  from Cons.IH [OF b1(2,3)] Cons.prems(3) b1(1) show ?case by auto
qed simp

section \<open>Frames\<close>

text \<open>\<open>AppendPacketLength\<close> with five bytes of headroom puts the length in front.\<close>

lemma AppendPacketLength_front:
  assumes "buf_wf b" "5 \<le> buf_headroom b"
  shows "\<exists>b'. AppendPacketLength b l = Some b' \<and> buf_wf b' \<and> buf_bytes b' = leb128 (of_int l) @ buf_bytes b \<and>
    b_arr b' = put_at (b_arr b) (buf_headroom b - length (leb128 (of_int l))) (leb128 (of_int l)) \<and> b_len b' = b_len b \<and>
    b_end b' = b_end b"
proof -
  let ?v = "leb128 (of_int l)"
  have l: "length ?v \<le> buf_headroom b" using assms(2) length_leb128_le [of "of_int l"] by linarith
  define b2 where "b2 = b\<lparr>b_start := b_start b - int (length ?v),
                          b_arr := put_at (b_arr b) (buf_headroom b - length ?v) ?v\<rparr>"
  note h = Buffer_ExtendHeader_fill [OF assms(1) l, folded b2_def]
  have s: "0 \<le> b_start b" "int (length ?v) \<le> b_start b" "b_start b \<le> int (length (b_arr b))"
    "nat (b_start b - int (length ?v)) = buf_headroom b - length ?v"
    using assms(1) l by (auto simp: buffer_defs)
  have ext: "Buffer_ExtendHeader b (int (length ?v)) =
      Some (b_start b - int (length ?v), b\<lparr>b_start := b_start b - int (length ?v)\<rparr>)"
    using s by (simp add: Buffer_ExtendHeader_def go_slice_def)
  have sl: "go_slice (b_arr b) (b_start b - int (length ?v)) (b_start b) =
      Some (take (length ?v) (drop (buf_headroom b - length ?v) (b_arr b)))"
    using s by (simp add: go_slice_def)
  have "length (take (length ?v) (drop (buf_headroom b - length ?v) (b_arr b))) = length ?v"
    using s l by (auto simp: buf_headroom_def)
  then have "AppendPacketLength b l = Some b2"
    using ext sl s(4)
    by (simp add: AppendPacketLength_def Let_def put_through_def VarIntLen_leb128 PutVarInt_leb128 Buffer_fill_def
        b2_def put_at_def [of "take _ _"])
  then show ?thesis using h by (simp add: b2_def)
qed

lemma WritePacket_stream:
  assumes "buf_wf b" "5 \<le> buf_headroom b"
  shows "\<exists>b'. WritePacket stream_writer b w =
      Some (None, b', w @ leb128 (of_nat (length (buf_bytes b))) @ buf_bytes b) \<and>
    b_start b' = 5 \<and> b_end b' = 5 \<and> buf_wf b'"
proof -
  from AppendPacketLength_front [OF assms, of "Buffer_Len b"] obtain b1 where
    b1: "AppendPacketLength b (Buffer_Len b) = Some b1" "buf_wf b1"
      "buf_bytes b1 = leb128 (of_int (Buffer_Len b)) @ buf_bytes b" "b_len b1 = b_len b" by blast
  have "buf_wf (Buffer_Reset b1 (int MaxVarIntLen))"
    using b1(2,4) assms by (auto simp: Buffer_Reset_def buffer_defs MaxVarIntLen_def)
  then show ?thesis
    using b1 assms(1)
    by (auto simp: WritePacket_def stream_writer_def Buffer_Len_bytes Buffer_Reset_def MaxVarIntLen_def
        simp del: length_buf_bytes)
qed

context io_reader
begin

lemma ReadLimitedPacket_absorbs:
  assumes "inv s" "pending s = leb128 (of_nat (length payload)) @ payload @ rest" "buf_wf c"
    "length payload < 2 ^ 31" "int (length payload) \<le> maxLen" "length payload \<le> buf_free c"
  shows "\<exists>s'. ReadLimitedPacket None rd c maxLen s = Some (None, Buffer_absorb c payload, s') \<and> pending s' = rest \<and> inv s'"
proof -
  from wrapped.ReadVarIntFrom_leb128 [OF assms(1,2)] obtain s1 where
    s1: "ReadVarIntFrom (ByteReaderWrapper rd) s =
           Some ((of_nat (length payload), length (leb128 (of_nat (length payload))), None), s1)"
        "pending s1 = payload @ rest" "inv s1" by blast
  have len: "sint (of_nat (length payload) :: 32 word) = int (length payload)"
    by (rule sint_of_nat_small [OF assms(4)])
  have room: "go_slice (b_arr c) (b_end c) (b_end c + int (length payload)) =
      Some (take (length payload) (drop (nat (b_end c)) (b_arr c)))"
    "b_end c + int (length payload) \<le> b_len c"
    "length (take (length payload) (drop (nat (b_end c)) (b_arr c))) = length payload"
    using assms(3,6) by (auto simp: go_slice_def buffer_defs)
  from ReadFull_delivers [OF s1(3), of "length payload"] s1(2) obtain s2 where
    s2: "ReadFull rd (length payload) s1 = Some ((payload, None), s2)" "pending s2 = rest" "inv s2" by auto
  have "Buffer_ReadFullFrom rd c s1 (int (length payload)) =
      Some ((int (length payload), None), Buffer_absorb c payload, s2)"
    using room s2(1) by (simp add: Buffer_ReadFullFrom_def Buffer_Cap_def)
  then have "ReadLimitedPacket None rd c maxLen s = Some (None, Buffer_absorb c payload, s2)"
    using s1(1) len assms(5,6)
    by (simp add: ReadLimitedPacket_def CreateByteReader_def Let_def Buffer_FreeLen_free [OF assms(3)])
  then show ?thesis using s2 by blast
qed

lemma ReadLimitedPacket_delivers:
  assumes "inv s" "pending s = leb128 (of_nat (length payload)) @ payload @ rest" "buf_wf c"
    "length payload < 2 ^ 31" "int (length payload) \<le> maxLen" "length payload \<le> buf_free c"
  shows "\<exists>c' s'. ReadLimitedPacket None rd c maxLen s = Some (None, c', s') \<and> buf_wf c' \<and>
      buf_bytes c' = buf_bytes c @ payload \<and> pending s' = rest \<and> inv s'"
  using ReadLimitedPacket_absorbs [OF assms] buf_append [OF assms(3,6)] by blast

end

section \<open>Properties\<close>

text \<open>Packet fields survive the trip through a buffer: any list of fields that fits, written with
  \<open>WriteToPacket\<close> into an empty buffer and scanned with the matching types, comes back in order and
  leaves the buffer empty. Strings must not be empty and, the one lossy case, a Go \<open>int\<close> comes
  back modulo \<open>2 ^ 32\<close>, so a negative one comes back positive.\<close>

theorem packet_fields_roundtrip:
  assumes "buf_wf b" "buf_bytes b = []" "length (concat (map (item_bytes render) its)) \<le> buf_free b"
    "\<forall>it \<in> set its. scannable render parse it"
  shows "\<exists>b1 b2. WriteToPacket render b its = Some (None, b1) \<and>
           Scan parse b1 (map kind_of its) = Some ((map read_back its, None), b2) \<and> buf_bytes b2 = []"
proof -
  note a = buf_append [OF assms(1,3)]
  show ?thesis
    using WriteToPacket_fits [OF assms(1,3)] Scan_prefix [OF a(1), of render its "[]" parse] a(2) assms(2,4) by auto
qed

theorem packet_fields_roundtrip_witness:
  "\<exists>b1 b2. WriteToPacket (\<lambda>_. [123]) (Buffer_With (replicate 64 0) 64)
       [IInt (-1), IString ''ab'', IMessage (text_message ''hi''), IBool True] = Some (None, b1) \<and>
     Scan (\<lambda>_. Some (message_json (text_message ''hi''))) b1 [KInt, KString, KMessage zero_message, KBool] =
       Some (([IInt 4294967295, IString ''ab'', IMessage (text_message ''hi''), IBool True], None), b2) \<and>
     buf_bytes b2 = []"
proof -
  have l: "length (leb128 (of_nat (length bs))) \<le> 5" for bs :: bytes by (rule length_leb128_le)
  have "length (concat (map (item_bytes (\<lambda>_. [123])) [IInt (-1), IString ''ab'', IMessage (text_message ''hi''), IBool True]))
      \<le> buf_free (Buffer_With (replicate 64 0) 64)"
    using l [of "str_bytes ''ab''"] l [of "[123]"] by (simp add: Buffer_With_def buf_free_def str_field_def)
  then show ?thesis
    using packet_fields_roundtrip [of "Buffer_With (replicate 64 0) 64" "\<lambda>_. [123]"
        "[IInt (-1), IString ''ab'', IMessage (text_message ''hi''), IBool True]"
        "\<lambda>_. Some (message_json (text_message ''hi''))"]
    by (simp add: Buffer_With_def buffer_defs)
qed

text \<open>(C38)
  Packet framing survives the trip over a connection: \<open>WritePacket\<close> on a buffer with five bytes of
  headroom sends the VarInt length and the content and resets the buffer behind the headroom; and
  whatever segments the network delivers those bytes in, \<open>ReadLimitedPacket\<close> on the other side
  appends exactly the content to its buffer and leaves what follows on the wire unread.\<close>

theorem packet_framing_roundtrip:
  assumes "buf_wf b" "5 \<le> buf_headroom b" "buf_wf c" "length (buf_bytes b) < 2 ^ 31"
    "int (length (buf_bytes b)) \<le> maxLen" "length (buf_bytes b) \<le> buf_free c"
  shows "\<exists>b' wire. WritePacket stream_writer b [] = Some (None, b', wire) \<and> b_start b' = 5 \<and> b_end b' = 5 \<and>
    (\<forall>s rest. net_pending s = wire @ rest \<longrightarrow>
       (\<exists>c' s'. ReadLimitedPacket None net_Read c maxLen s = Some (None, c', s') \<and>
                buf_bytes c' = buf_bytes c @ buf_bytes b \<and> net_pending s' = rest))"
  using WritePacket_stream [OF assms(1,2), of "[]"]
    net.ReadLimitedPacket_delivers [OF TrueI _ assms(3-6)]
  by (fastforce simp del: length_buf_bytes)

theorem packet_framing_roundtrip_witness:
  "\<exists>c' s'. ReadLimitedPacket None net_Read (Buffer_With (replicate 8 0) 8) 8
       [Chunk (leb128 3 @ [1]), Chunk [2, 3, 9]] = Some (None, c', s') \<and>
     buf_bytes c' = [1, 2, 3] \<and> net_pending s' = [9]"
proof -
  let ?b = "(Buffer_As [0, 0, 0, 0, 0, 1, 2, 3] 8)\<lparr>b_start := 5\<rparr>"
  let ?c = "Buffer_With (replicate 8 0) 8"
  have wf: "buf_wf ?b" "5 \<le> buf_headroom ?b" "buf_wf ?c" and bytes: "buf_bytes ?b = [1, 2, 3]" "buf_bytes ?c = []"
    by (simp_all add: Buffer_As_def Buffer_With_def buffer_defs)
  have fit: "length (buf_bytes ?b) < 2 ^ 31" "int (length (buf_bytes ?b)) \<le> 8" "length (buf_bytes ?b) \<le> buf_free ?c"
    unfolding bytes by (simp_all add: Buffer_With_def buf_free_def)
  obtain b' wire where w: "WritePacket stream_writer ?b [] = Some (None, b', wire)"
    and rd: "\<And>s rest. net_pending s = wire @ rest \<Longrightarrow>
       \<exists>c' s'. ReadLimitedPacket None net_Read ?c 8 s = Some (None, c', s') \<and>
                buf_bytes c' = [1, 2, 3] \<and> net_pending s' = rest"
    using packet_framing_roundtrip [OF wf fit] unfolding bytes by auto
  have "wire = leb128 3 @ [1, 2, 3]"
    using WritePacket_stream [OF wf(1,2), of "[]"] w unfolding bytes by simp
  then show ?thesis using rd [of "[Chunk (leb128 3 @ [1]), Chunk [2, 3, 9]]" "[9]"] by simp
qed

end
