(* ===== verification/Socks.thy ===== *)
theory Socks
  imports Packets NetAddr Access
begin

text \<open>
  The SOCKS client (common/network/socks): versions 4, 4a and 5 of the handshake on a connection
  whose read side is a reader and whose write side a writer.

  \<open>LookupIP\<close>, the resolver, is a parameter. Of \<open>url.Parse\<close> only the result is used.
\<close>

section \<open>Addresses\<close>

text \<open>\<open>net.SplitHostPort\<close> and \<open>net.JoinHostPort\<close>.\<close>

definition find_char :: "char \<Rightarrow> string \<Rightarrow> nat option" where
  "find_char c s = (if c \<in> set s then Some (length (takeWhile (\<lambda>x. x \<noteq> c) s)) else None)"

definition last_char :: "char \<Rightarrow> string \<Rightarrow> nat option" where
  "last_char c s = map_option (\<lambda>i. length s - 1 - i) (find_char c (rev s))"

definition missingPort :: go_error where "missingPort = ErrText ''missing port in address''"
definition tooManyColons :: go_error where "tooManyColons = ErrText ''too many colons in address''"

text \<open>The end of the function: no stray brackets from \<open>j\<close> and \<open>k\<close> on, then the port.\<close>

definition split_port :: "string \<Rightarrow> string \<Rightarrow> nat \<Rightarrow> nat \<Rightarrow> nat \<Rightarrow> go_error + string \<times> string" where
  "split_port hostport host i j k =
     (if CHR ''['' \<in> set (drop j hostport) then Inl (ErrText ''unexpected [ in address'')
      else if CHR '']'' \<in> set (drop k hostport) then Inl (ErrText ''unexpected ] in address'')
      else Inr (host, drop (i + 1) hostport))"

definition SplitHostPort :: "string \<Rightarrow> go_error + string \<times> string" where
  "SplitHostPort hostport =
     (case last_char (CHR '':'') hostport of
        None \<Rightarrow> Inl missingPort
      | Some i \<Rightarrow>
          if hostport ! 0 = CHR ''['' then
            (case find_char (CHR '']'') hostport of
               None \<Rightarrow> Inl (ErrText ''missing ] in address'')
             | Some e \<Rightarrow>
                 if e + 1 = length hostport then Inl missingPort
                 else if e + 1 = i then split_port hostport (take (e - 1) (drop 1 hostport)) i 1 (e + 1)
                 else if hostport ! (e + 1) = CHR '':'' then Inl tooManyColons
                 else Inl missingPort)
          else if CHR '':'' \<in> set (take i hostport) then Inl tooManyColons
          else split_port hostport (take i hostport) i 0 0)"

definition JoinHostPort :: "string \<Rightarrow> string \<Rightarrow> string" where
  "JoinHostPort host port =
     (if CHR '':'' \<in> set host then ''['' @ host @ '']:'' @ port else host @ '':'' @ port)"

text \<open>\<open>net.ParseIP\<close> (sixteen bytes, or nil) and \<open>IP.To4\<close>.\<close>

definition ParseIP :: "string \<Rightarrow> bytes option" where
  "ParseIP s =
     (case ParseAddr s of
        Some (Addr4 w) \<Rightarrow> Some (mapped_prefix @ be_bytes 4 w)
      | Some (Addr6 w z) \<Rightarrow> if z = [] then Some (be_bytes 16 w) else None
      | _ \<Rightarrow> None)"

definition IP_To4 :: "bytes \<Rightarrow> bytes option" where
  "IP_To4 ip = (if length ip = 4 then Some ip else if is_mapped ip then Some (drop 12 ip) else None)"

section \<open>The client\<close>

record socks_client =
  sk_Version :: string
  sk_Network :: string
  sk_Address :: string
  sk_Username :: string
  sk_Password :: string
  sk_Methods :: bytes

record parsed_url =
  url_Scheme :: string
  url_User :: string
  url_Password :: string
  url_Host :: string

definition NewClientFromURL :: "go_error + parsed_url \<Rightarrow> go_error + socks_client" where
  "NewClientFromURL url =
     (case url of
        Inl e \<Rightarrow> Inl e
      | Inr u \<Rightarrow>
          let c = \<lparr>sk_Version = [], sk_Network = ''tcp'', sk_Address = url_Host u, sk_Username = url_User u,
                   sk_Password = [], sk_Methods = []\<rparr>
          in if url_Scheme u \<in> {''socks'', ''socks5'', []} then Inr (c\<lparr>sk_Version := ''5'', sk_Password := url_Password u\<rparr>)
             else if url_Scheme u = ''socks4a'' then Inr (c\<lparr>sk_Version := ''4a''\<rparr>)
             else if url_Scheme u = ''socks4'' then Inr (c\<lparr>sk_Version := ''4''\<rparr>)
             else Inl (ErrText (''socks: unknown SOCKS version: '' @ url_Scheme u)))"

definition GetVersion :: "socks_client \<Rightarrow> string \<times> socks_client" where
  "GetVersion c =
     (let v = str_lower (sk_Version c)
      in (if v \<in> {''5'', ''4a'', ''4''} then v
          else if v \<in> {[], ''socks'', ''socks5''} then ''5''
          else if v = ''socks4a'' then ''4a''
          else if v = ''socks4'' then ''4''
          else ''UNKNOWN'',
          c\<lparr>sk_Version := v\<rparr>))"

text \<open>The result of a handshake: the error, and the two sides of the connection.\<close>

type_synonym ('s, 'w) shaken = "(go_error option \<times> 's \<times> 'w) option"

text \<open>A sequence of writes, each followed by \<open>if err != nil { return err }\<close>.\<close>

definition send_all :: "'w writer \<Rightarrow> bytes list \<Rightarrow> 's \<Rightarrow> 'w \<Rightarrow> ('w \<Rightarrow> ('s, 'w) shaken) \<Rightarrow> ('s, 'w) shaken" where
  "send_all wr bss s w k = do {
     (err, w) \<leftarrow> write_buffers wr bss w;
     (case err of Some e \<Rightarrow> Some (Some e, s, w) | None \<Rightarrow> k w)
   }"

definition parse_port :: "string \<Rightarrow> go_error + 16 word" where
  "parse_port portString = map_Inr of_nat (ParseUint portString 16)"

section \<open>Versions 4 and 4a\<close>

definition version4 :: byte where "version4 = 4"
definition CommandConnect :: byte where "CommandConnect = 1"
definition ReplyCode4Granted :: byte where "ReplyCode4Granted = 0x5A"
definition ReplyCode4RejectedOrFailed :: byte where "ReplyCode4RejectedOrFailed = 0x5B"
definition ReplyCode4CannotConnectToIdentd :: byte where "ReplyCode4CannotConnectToIdentd = 0x5C"
definition ReplyCode4IdentdReportDifferentUserID :: byte where "ReplyCode4IdentdReportDifferentUserID = 0x5D"

definition byte_text :: "byte \<Rightarrow> string" where "byte_text b = dec (unat b)"

definition handleResponse4 :: "'s reader \<Rightarrow> 's \<Rightarrow> 'w \<Rightarrow> ('s, 'w) shaken" where
  "handleResponse4 rd s w = do {
     ((resp, err), s) \<leftarrow> rw_ReadBytes rd 2 s;
     (case err of
        Some e \<Rightarrow> Some (Some e, s, w)
      | None \<Rightarrow> do {
          version \<leftarrow> go_index resp (int (length resp)) 0;
          code \<leftarrow> go_index resp (int (length resp)) 1;
          if version \<noteq> 0 \<and> version \<noteq> version4
          then Some (Some (ErrText (''socks: expected response version 0, but got: '' @ byte_text version)), s, w)
          else if code = ReplyCode4RejectedOrFailed
          then Some (Some (ErrText ''socks: connection request rejected or failed''), s, w)
          else if code = ReplyCode4CannotConnectToIdentd
          then Some (Some (ErrText ''socks: connection request rejected because SOCKS server cannot connect to identd on the client''), s, w)
          else if code = ReplyCode4IdentdReportDifferentUserID
          then Some (Some (ErrText ''socks: connection request rejected because the client program and identd report different user-ids''), s, w)
          else if code \<noteq> ReplyCode4Granted
          then Some (Some (ErrText (''socks: unknown SOCKS 4 reply code: '' @ byte_text code)), s, w)
          else do {
            ((_, err), s) \<leftarrow> rw_ReadBytes rd 6 s;
            Some (err, s, w)
          }
        })
   }"

definition request4 ::
  "'s reader \<Rightarrow> 'w writer \<Rightarrow> socks_client \<Rightarrow> 16 word \<Rightarrow> bytes \<Rightarrow> 's \<Rightarrow> 'w \<Rightarrow> ('s, 'w) shaken" where
  "request4 rd wr c port a s w =
     send_all wr [[version4, CommandConnect], be_bytes 2 port, a, str_bytes (sk_Username c), [0]] s w (\<lambda>w.
       handleResponse4 rd s w)"

fun first_ip4 :: "bytes list \<Rightarrow> bytes option" where
  "first_ip4 [] = None"
| "first_ip4 (ip # ips) = (case IP_To4 ip of Some v \<Rightarrow> Some v | None \<Rightarrow> first_ip4 ips)"

definition ipv6_unsupported :: go_error where
  "ipv6_unsupported = ErrText ''socks: IPv6 is not supported in SOCKS verion 4/4a''"

definition handshake4 ::
  "(string \<Rightarrow> go_error + bytes list) \<Rightarrow> 's reader \<Rightarrow> 'w writer \<Rightarrow> socks_client \<Rightarrow> string \<Rightarrow> 's \<Rightarrow> 'w \<Rightarrow> ('s, 'w) shaken" where
  "handshake4 LookupIP rd wr c address s w =
     (case SplitHostPort address of
        Inl e \<Rightarrow> Some (Some e, s, w)
      | Inr (host, portString) \<Rightarrow>
          (case parse_port portString of
             Inl e \<Rightarrow> Some (Some e, s, w)
           | Inr port \<Rightarrow>
               (case ParseIP host of
                  Some ip \<Rightarrow>
                    (case IP_To4 ip of
                       Some ipv4 \<Rightarrow> request4 rd wr c port ipv4 s w
                     | None \<Rightarrow> Some (Some ipv6_unsupported, s, w))
                | None \<Rightarrow>
                    (case LookupIP host of
                       Inl e \<Rightarrow> Some (Some e, s, w)
                     | Inr ipList \<Rightarrow>
                         (case first_ip4 ipList of
                            Some ipv4 \<Rightarrow> request4 rd wr c port ipv4 s w
                          | None \<Rightarrow> Some (Some (ErrText (''socks: can't resolve any IPv4 address from domain '' @ host)), s, w))))))"

definition magic4A :: bytes where "magic4A = [0, 0, 0, 233]"

definition handshake4A :: "'s reader \<Rightarrow> 'w writer \<Rightarrow> socks_client \<Rightarrow> string \<Rightarrow> 's \<Rightarrow> 'w \<Rightarrow> ('s, 'w) shaken" where
  "handshake4A rd wr c address s w =
     (case SplitHostPort address of
        Inl e \<Rightarrow> Some (Some e, s, w)
      | Inr (host, portString) \<Rightarrow>
          (case parse_port portString of
             Inl e \<Rightarrow> Some (Some e, s, w)
           | Inr port \<Rightarrow>
               (case ParseIP host of
                  Some ip \<Rightarrow>
                    (case IP_To4 ip of
                       Some ipv4 \<Rightarrow> request4 rd wr c port ipv4 s w
                     | None \<Rightarrow> Some (Some ipv6_unsupported, s, w))
                | None \<Rightarrow>
                    send_all wr [[version4, CommandConnect], be_bytes 2 port, magic4A, str_bytes (sk_Username c), [0],
                                 str_bytes host, [0]] s w (\<lambda>w. handleResponse4 rd s w))))"

section \<open>Version 5\<close>

definition version5 :: byte where "version5 = 5"
definition AuthTypeNotRequired :: byte where "AuthTypeNotRequired = 0"
definition AuthTypeGSSAPI :: byte where "AuthTypeGSSAPI = 1"
definition AuthTypeUsernamePassword :: byte where "AuthTypeUsernamePassword = 2"
definition AuthTypeNoAcceptedMethods :: byte where "AuthTypeNoAcceptedMethods = 0xFF"
definition AddressTypeIPv4 :: byte where "AddressTypeIPv4 = 1"
definition AddressTypeDomain :: byte where "AddressTypeDomain = 3"
definition AddressTypeIPv6 :: byte where "AddressTypeIPv6 = 4"
definition ReplyCode5Success :: byte where "ReplyCode5Success = 0"

text \<open>
  \<open>r.Read\<close> into a new slice of \<open>n\<close> bytes: it may read fewer, and the rest of the slice stays zero.\<close>

definition read_once ::
  "'s reader \<Rightarrow> nat \<Rightarrow> 's \<Rightarrow> 'w \<Rightarrow> (bytes \<Rightarrow> 's \<Rightarrow> ('s, 'w) shaken) \<Rightarrow> ('s, 'w) shaken" where
  "read_once rd n s w k = do {
     ((bs, err), s) \<leftarrow> rd n s;
     (case err of Some e \<Rightarrow> Some (Some e, s, w) | None \<Rightarrow> k (put_at (replicate n 0) 0 bs) s)
   }"

text \<open>The writes of the request: the address by its kind, a domain with the low byte of its length.\<close>

definition address5 :: "string \<Rightarrow> bytes list" where
  "address5 host =
     (case ParseIP host of
        Some ip \<Rightarrow>
          (case IP_To4 ip of Some ipv4 \<Rightarrow> [[AddressTypeIPv4], ipv4] | None \<Rightarrow> [[AddressTypeIPv6], ip])
      | None \<Rightarrow> [[AddressTypeDomain, of_nat (length host)], str_bytes host])"

definition method_error :: "byte \<Rightarrow> go_error option" where
  "method_error m =
     (if m = AuthTypeNotRequired then None
      else if m = AuthTypeUsernamePassword then Some (ErrText ''socks: username/password auth is not implemented yet'')
      else if m = AuthTypeGSSAPI then Some (ErrText ''socks: unsupported SOCKS 5 auth type GSSAPI'')
      else if m = AuthTypeNoAcceptedMethods then Some (ErrText ''socks: server responded no acceptable methods'')
      else Some (ErrText (''socks: unknown auth method: '' @ byte_text m)))"

definition bad_version5 :: "byte \<Rightarrow> go_error" where
  "bad_version5 b = ErrText (''socks: expected server version 5, but got '' @ byte_text b)"

text \<open>The reply: its address is skipped by its kind (an unknown kind has none), then the port.\<close>

definition reply_port :: "'s reader \<Rightarrow> 's \<Rightarrow> 'w \<Rightarrow> ('s, 'w) shaken" where
  "reply_port rd s w = do { ((_, err), s) \<leftarrow> rw_ReadBytes rd 2 s; Some (err, s, w) }"

definition read_reply5 :: "'s byte_reader option \<Rightarrow> 's reader \<Rightarrow> byte \<Rightarrow> 's \<Rightarrow> 'w \<Rightarrow> ('s, 'w) shaken" where
  "read_reply5 own rd greeted s w =
     read_once rd 4 s w (\<lambda>reply s.
       (if reply ! 0 \<noteq> version5 then Some (Some (bad_version5 greeted), s, w)
        else if reply ! 1 \<noteq> ReplyCode5Success
        then Some (Some (ErrText (''socks: fail to connect destination through SOCKS 5, reason code: '' @ byte_text (reply ! 1))), s, w)
        else if reply ! 3 = AddressTypeIPv4 then read_once rd 4 s w (\<lambda>_ s. reply_port rd s w)
        else if reply ! 3 = AddressTypeDomain then do {
          ((l, err), s) \<leftarrow> rw_ReadByte own rd s;
          (case err of Some e \<Rightarrow> Some (Some e, s, w) | None \<Rightarrow> read_once rd (unat l) s w (\<lambda>_ s. reply_port rd s w))
        }
        else if reply ! 3 = AddressTypeIPv6 then read_once rd 16 s w (\<lambda>_ s. reply_port rd s w)
        else reply_port rd s w))"

definition handshake5 ::
  "'s byte_reader option \<Rightarrow> 's reader \<Rightarrow> 'w writer \<Rightarrow> socks_client \<Rightarrow> string \<Rightarrow> 's \<Rightarrow> 'w \<Rightarrow> ('s, 'w) shaken" where
  "handshake5 own rd wr c address s w =
     (case SplitHostPort address of
        Inl e \<Rightarrow> Some (Some e, s, w)
      | Inr (host, portString) \<Rightarrow>
          (case parse_port portString of
             Inl e \<Rightarrow> Some (Some e, s, w)
           | Inr port \<Rightarrow>
               let methods = (if length (sk_Methods c) = 0 then [AuthTypeNotRequired] else sk_Methods c) in
               send_all wr [[version5, of_nat (length methods)], methods] s w (\<lambda>w.
                 read_once rd 2 s w (\<lambda>handshakeResp s.
                   (if handshakeResp ! 0 \<noteq> version5 then Some (Some (bad_version5 (handshakeResp ! 0)), s, w)
                    else (case method_error (handshakeResp ! 1) of
                       Some e \<Rightarrow> Some (Some e, s, w)
                     | None \<Rightarrow>
                         send_all wr ([[version5, CommandConnect, 0]] @ address5 host @ [be_bytes 2 port]) s w (\<lambda>w.
                           read_reply5 own rd (handshakeResp ! 0) s w)))))))"

section \<open>Dialling\<close>

definition socks_Handshake ::
  "(string \<Rightarrow> go_error + bytes list) \<Rightarrow> 's byte_reader option \<Rightarrow> 's reader \<Rightarrow> 'w writer \<Rightarrow> socks_client \<Rightarrow> string \<Rightarrow> 's \<Rightarrow> 'w \<Rightarrow>
   ('s, 'w) shaken" where
  "socks_Handshake LookupIP own rd wr c address s w =
     (case GetVersion c of (v, c) \<Rightarrow>
        if v = ''5'' then handshake5 own rd wr c address s w
        else if v = ''4a'' then handshake4A rd wr c address s w
        else if v = ''4'' then handshake4 LookupIP rd wr c address s w
        else Some (Some (ErrText (''socks: unknown SOCKS version: '' @ sk_Version c)), s, w))"

text \<open>
  \<open>DialContext\<close>: \<open>dial\<close> is the inner dialer; the result is the connection, or the error and whether
  the connection was closed.\<close>

definition socks_DialContext ::
  "(string \<Rightarrow> go_error + bytes list) \<Rightarrow> 's byte_reader option \<Rightarrow> 's reader \<Rightarrow> 'w writer \<Rightarrow>
   (string \<Rightarrow> string \<Rightarrow> go_error + 's \<times> 'w) \<Rightarrow> socks_client \<Rightarrow> string \<Rightarrow> ((go_error \<times> bool) + 's \<times> 'w) option" where
  "socks_DialContext LookupIP own rd wr dial c address =
     (case dial (sk_Network c) (sk_Address c) of
        Inl e \<Rightarrow> Some (Inl (ErrText ''socks: fail to dial to SOCKS server'', False))
      | Inr (s, w) \<Rightarrow> do {
          (err, s, w) \<leftarrow> socks_Handshake LookupIP own rd wr c address s w;
          Some (case err of Some e \<Rightarrow> Inl (e, True) | None \<Rightarrow> Inr (s, w))
        })"

end
