(* ===== verification/Selector.thy ===== *)
theory Selector
  imports Frames
begin

text \<open>
  The choice between the TCP and the UDP path of a dual-tunnel outbound
  (common/transportselect/selector.go). The probes themselves are network calls: their results
  (a round-trip time, or a failure) are inputs. Times are nanoseconds.
\<close>

definition ModeTCP :: string where "ModeTCP = ''tcp''"
definition ModeUDP :: string where "ModeUDP = ''udp''"
definition ModeAuto :: string where "ModeAuto = ''auto''"
definition StickyMs :: int where "StickyMs = 5"
definition PathFailThreshold :: int where "PathFailThreshold = 3"

lemmas sel_modes = ModeTCP_def ModeUDP_def ModeAuto_def

record sel_config =
  sc_host :: string
  sc_tcpPort :: "16 word"
  sc_udpPort :: "16 word"
  sc_mode :: string
  sc_interval :: int
  sc_outbound :: string

record selector =
  sel_cfg :: sel_config
  sel_preferred :: string
  sel_tcpRTT :: int
  sel_udpRTT :: int
  sel_tcpFails :: int
  sel_udpFails :: int
  sel_tcpUp :: bool
  sel_udpUp :: bool
  sel_stopped :: bool

definition sel_New :: "sel_config \<Rightarrow> selector" where
  "sel_New cfg =
     (let cfg = (if sc_interval cfg < 3 * 10 ^ 9 then cfg\<lparr>sc_interval := 10 * 10 ^ 9\<rparr> else cfg);
          cfg = (if sc_interval cfg > 60 * 10 ^ 9 then cfg\<lparr>sc_interval := 60 * 10 ^ 9\<rparr> else cfg)
      in \<lparr>sel_cfg = cfg,
          sel_preferred = (if sc_mode cfg = ModeUDP then ModeUDP
                           else if sc_mode cfg = ModeAuto then (if sc_tcpPort cfg > 0 then ModeTCP else ModeUDP)
                           else ModeTCP),
          sel_tcpRTT = 0, sel_udpRTT = 0, sel_tcpFails = 0, sel_udpFails = 0,
          sel_tcpUp = False, sel_udpUp = False, sel_stopped = False\<rparr>)"

definition sel_Preferred :: "selector \<Rightarrow> string" where
  "sel_Preferred s =
     (if sel_preferred s = [] then ModeTCP
      else if sc_mode (sel_cfg s) = ModeTCP then ModeTCP
      else if sc_mode (sel_cfg s) = ModeUDP then ModeUDP
      else sel_preferred s)"

text \<open>\<open>Start\<close>: whether the probe loop runs.\<close>

definition sel_Start :: "selector \<Rightarrow> bool" where
  "sel_Start s =
     (if sc_mode (sel_cfg s) \<noteq> ModeAuto then False
      else if sc_tcpPort (sel_cfg s) = 0 \<and> sc_udpPort (sel_cfg s) = 0 then False
      else True)"

definition sel_Stop :: "selector \<Rightarrow> selector" where
  "sel_Stop s = s\<lparr>sel_stopped := True\<rparr>"

definition chooseLocked :: "selector \<Rightarrow> string \<Rightarrow> string" where
  "chooseLocked s sticky =
     (let tcpOK = sel_tcpUp s \<and> sc_tcpPort (sel_cfg s) > 0;
          udpOK = sel_udpUp s \<and> sc_udpPort (sel_cfg s) > 0
      in if tcpOK \<and> \<not> udpOK then ModeTCP
         else if udpOK \<and> \<not> tcpOK then ModeUDP
         else if \<not> tcpOK \<and> \<not> udpOK then (if sc_tcpPort (sel_cfg s) > 0 then ModeTCP else ModeUDP)
         else
           let diff = sel_tcpRTT s - sel_udpRTT s;
               diff = (if diff < 0 then - diff else diff)
           in if (sticky = ModeTCP \<or> sticky = ModeUDP) \<and> diff < StickyMs * 10 ^ 6 then sticky
              else if sel_udpRTT s < sel_tcpRTT s then ModeUDP
              else ModeTCP)"

text \<open>
  \<open>probeOnce\<close>: \<open>tcp\<close> and \<open>udp\<close> are the probes' results, used only when the port is configured.
  The first section measures, the second (under the mutex) records and chooses.
\<close>

definition sel_record :: "int option \<Rightarrow> int option \<Rightarrow> selector \<Rightarrow> selector" where
  "sel_record tcp udp s =
     (let s = (if sc_tcpPort (sel_cfg s) > 0 then
                 (case tcp of
                    Some rtt \<Rightarrow> s\<lparr>sel_tcpFails := 0, sel_tcpUp := True, sel_tcpRTT := rtt\<rparr>
                  | None \<Rightarrow>
                      let s = s\<lparr>sel_tcpFails := sel_tcpFails s + 1\<rparr>
                      in if sel_tcpFails s \<ge> PathFailThreshold then s\<lparr>sel_tcpUp := False\<rparr> else s)
               else s\<lparr>sel_tcpUp := False\<rparr>)
      in if sc_udpPort (sel_cfg s) > 0 then
           (case udp of
              Some rtt \<Rightarrow> s\<lparr>sel_udpFails := 0, sel_udpUp := True, sel_udpRTT := rtt\<rparr>
            | None \<Rightarrow>
                let s = s\<lparr>sel_udpFails := sel_udpFails s + 1\<rparr>
                in if sel_udpFails s \<ge> PathFailThreshold then s\<lparr>sel_udpUp := False\<rparr> else s)
         else s\<lparr>sel_udpUp := False\<rparr>)"

definition probeOnce :: "int option \<times> int option \<Rightarrow> selector \<Rightarrow> selector" where
  "probeOnce r s =
     (let s = sel_record (fst r) (snd r) s;
          old = sel_preferred s;
          next = chooseLocked s old
      in if next \<noteq> old then s\<lparr>sel_preferred := next\<rparr> else s)"

text \<open>The probe loop: one probe at once, then one per tick until it is stopped.\<close>

definition sel_loop :: "(int option \<times> int option) list \<Rightarrow> selector \<Rightarrow> selector" where
  "sel_loop rs s = fold probeOnce rs s"

section \<open>Specification: the state of a path from its probe history\<close>

text \<open>
  A path is up when one of its last three probes succeeded (never before the first success), and
  its round-trip time is that of the last success.
\<close>

definition path_up :: "'a option list \<Rightarrow> bool" where
  "path_up rs \<longleftrightarrow> (\<exists>r \<in> set (take 3 (rev rs)). r \<noteq> None)"

fun last_rtt :: "int option list \<Rightarrow> int" where
  "last_rtt rs = (case filter (\<lambda>r. r \<noteq> None) (rev rs) of Some x # _ \<Rightarrow> x | _ \<Rightarrow> 0)"

definition trailing_fails :: "'a option list \<Rightarrow> nat" where
  "trailing_fails rs = length (takeWhile (\<lambda>r. r = None) (rev rs))"

lemma trailing_fails_snoc [simp]:
  "trailing_fails [] = 0"
  "trailing_fails (rs @ [Some x]) = 0" "trailing_fails (rs @ [None]) = Suc (trailing_fails rs)"
  by (simp_all add: trailing_fails_def)

lemma path_up_iff: "path_up rs \<longleftrightarrow> trailing_fails rs < 3 \<and> (\<exists>r \<in> set rs. r \<noteq> None)"
proof -
  have "(\<exists>r \<in> set (take n xs). r \<noteq> None) \<longleftrightarrow> length (takeWhile (\<lambda>r. r = None) xs) < n \<and> (\<exists>r \<in> set xs. r \<noteq> None)"
    for xs :: "'a option list" and n
  proof (induction xs arbitrary: n)
    case (Cons x xs)
    then show ?case by (cases n; cases x) auto
  qed simp
  then show ?thesis by (simp add: path_up_def trailing_fails_def)
qed

lemma path_up_snoc: "path_up (rs @ [Some x])" "path_up [] = False"
  "path_up (rs @ [None]) \<longleftrightarrow> path_up rs \<and> Suc (trailing_fails rs) < 3"
  by (auto simp: path_up_iff)

lemma last_rtt_snoc: "last_rtt (rs @ [Some x]) = x" "last_rtt (rs @ [None]) = last_rtt rs" "last_rtt [] = 0"
  by simp_all

text \<open>The abstraction: what the selector's fields say about the two histories.\<close>

definition sel_tracks :: "(int option \<times> int option) list \<Rightarrow> selector \<Rightarrow> bool" where
  "sel_tracks rs s \<longleftrightarrow>
     (sc_tcpPort (sel_cfg s) > 0 \<longrightarrow>
        sel_tcpUp s = path_up (map fst rs) \<and> sel_tcpFails s = int (trailing_fails (map fst rs)) \<and>
        sel_tcpRTT s = last_rtt (map fst rs)) \<and>
     (sc_udpPort (sel_cfg s) > 0 \<longrightarrow>
        sel_udpUp s = path_up (map snd rs) \<and> sel_udpFails s = int (trailing_fails (map snd rs)) \<and>
        sel_udpRTT s = last_rtt (map snd rs))"

text \<open>The specification of the choice, over the histories.\<close>

definition choose_spec :: "sel_config \<Rightarrow> (int option \<times> int option) list \<Rightarrow> string \<Rightarrow> string" where
  "choose_spec cfg rs old =
     (let t = sc_tcpPort cfg > 0 \<and> path_up (map fst rs); u = sc_udpPort cfg > 0 \<and> path_up (map snd rs);
          d = last_rtt (map fst rs) - last_rtt (map snd rs)
      in if t \<and> u then (if \<bar>d\<bar> < 5000000 then old else if d > 0 then ModeUDP else ModeTCP)
         else if t then ModeTCP
         else if u then ModeUDP
         else if sc_tcpPort cfg > 0 then ModeTCP else ModeUDP)"

section \<open>The selector implements the specification\<close>

lemma sel_record_cfg [simp]: "sel_cfg (sel_record t u s) = sel_cfg s" "sel_preferred (sel_record t u s) = sel_preferred s"
  by (auto simp: sel_record_def Let_def split: option.splits)

lemma probeOnce_cfg [simp]: "sel_cfg (probeOnce r s) = sel_cfg s"
  by (simp add: probeOnce_def Let_def)

lemma sel_record_tracks: "sel_tracks rs s \<Longrightarrow> sel_tracks (rs @ [r]) (sel_record (fst r) (snd r) s)"
  by (cases "fst r"; cases "snd r")
     (auto simp: sel_tracks_def sel_record_def Let_def path_up_snoc last_rtt_snoc PathFailThreshold_def
        simp del: last_rtt.simps)

lemma sel_tracks_preferred [simp]: "sel_tracks rs (s\<lparr>sel_preferred := p\<rparr>) = sel_tracks rs s"
  by (simp add: sel_tracks_def)

lemma chooseLocked_spec:
  assumes "sel_tracks rs s" "old = ModeTCP \<or> old = ModeUDP"
  shows "chooseLocked s old = choose_spec (sel_cfg s) rs old"
  using assms
  by (auto simp: chooseLocked_def choose_spec_def Let_def sel_tracks_def StickyMs_def simp del: last_rtt.simps)

lemma probeOnce_tracks:
  assumes "sel_tracks rs s" "sel_preferred s = ModeTCP \<or> sel_preferred s = ModeUDP"
  shows "sel_tracks (rs @ [r]) (probeOnce r s) \<and>
    sel_preferred (probeOnce r s) = choose_spec (sel_cfg s) (rs @ [r]) (sel_preferred s)"
  using sel_record_tracks [OF assms(1), of r] chooseLocked_spec [OF sel_record_tracks [OF assms(1)], of _ r] assms(2)
  by (auto simp: probeOnce_def Let_def)

lemma choose_spec_mode: "old = ModeTCP \<or> old = ModeUDP \<Longrightarrow> choose_spec cfg rs old \<in> {ModeTCP, ModeUDP}"
  by (auto simp: choose_spec_def Let_def)

text \<open>The preference after a history: the specification folded over its prefixes.\<close>

fun preferred_spec :: "sel_config \<Rightarrow> (int option \<times> int option) list \<Rightarrow> (int option \<times> int option) list \<Rightarrow> string \<Rightarrow> string" where
  "preferred_spec cfg seen [] old = old"
| "preferred_spec cfg seen (r # rs) old = preferred_spec cfg (seen @ [r]) rs (choose_spec cfg (seen @ [r]) old)"

lemma sel_loop_tracks:
  "sel_tracks seen s \<Longrightarrow> sel_preferred s \<in> {ModeTCP, ModeUDP} \<Longrightarrow>
   sel_tracks (seen @ rs) (sel_loop rs s) \<and>
   sel_preferred (sel_loop rs s) = preferred_spec (sel_cfg s) seen rs (sel_preferred s) \<and>
   sel_preferred (sel_loop rs s) \<in> {ModeTCP, ModeUDP} \<and> sel_cfg (sel_loop rs s) = sel_cfg s"
proof (induction rs arbitrary: seen s)
  case (Cons r rs)
  have old: "sel_preferred s = ModeTCP \<or> sel_preferred s = ModeUDP" using Cons.prems(2) by simp
  note p = probeOnce_tracks [OF Cons.prems(1) old, of r]
  have "sel_preferred (probeOnce r s) \<in> {ModeTCP, ModeUDP}" using p choose_spec_mode [OF old] by simp
  from Cons.IH [OF conjunct1 [OF p] this] p show ?case by (simp add: sel_loop_def) metis
qed (simp add: sel_loop_def)

lemma sel_New_tracks:
  "sel_tracks [] (sel_New cfg) \<and> sel_preferred (sel_New cfg) \<in> {ModeTCP, ModeUDP} \<and>
   sc_mode (sel_cfg (sel_New cfg)) = sc_mode cfg \<and> sc_tcpPort (sel_cfg (sel_New cfg)) = sc_tcpPort cfg \<and>
   sc_udpPort (sel_cfg (sel_New cfg)) = sc_udpPort cfg"
  by (auto simp: sel_New_def Let_def sel_tracks_def path_up_snoc)

lemma choose_spec_cong:
  "sc_tcpPort c = sc_tcpPort c' \<Longrightarrow> sc_udpPort c = sc_udpPort c' \<Longrightarrow> choose_spec c rs old = choose_spec c' rs old"
  by (simp add: choose_spec_def)

lemma preferred_spec_cong:
  "sc_tcpPort c = sc_tcpPort c' \<Longrightarrow> sc_udpPort c = sc_udpPort c' \<Longrightarrow> preferred_spec c seen rs old = preferred_spec c' seen rs old"
  by (induction rs arbitrary: seen old) (simp_all add: choose_spec_cong [of c c'])

section \<open>Properties\<close>

text \<open>(C40)
  The path selector follows its probes. After any sequence of probe results the state of each
  configured path is that of its last three probes and its last measured time, the preference is the
  specified choice folded over the history (a dead path is left for a live one at the third
  failure, two live paths are swapped only for a gain of 5 ms or more), and the answer to the next dial
  is \<open>tcp\<close> or \<open>udp\<close>, the configured one in the two fixed modes.\<close>

theorem selector_follows_probes:
  fixes cfg :: sel_config and rs :: "(int option \<times> int option) list"
  defines "s \<equiv> sel_loop rs (sel_New cfg)"
  shows "sel_tracks rs s \<and>
    sel_preferred s = preferred_spec cfg [] rs (sel_preferred (sel_New cfg)) \<and>
    sel_Preferred s = (if sc_mode cfg = ModeTCP \<or> sc_mode cfg = ModeUDP then sc_mode cfg else sel_preferred s) \<and>
    sel_Preferred s \<in> {ModeTCP, ModeUDP}"
proof -
  have l: "sel_tracks rs s" "sel_preferred s = preferred_spec (sel_cfg (sel_New cfg)) [] rs (sel_preferred (sel_New cfg))"
    "sel_preferred s \<in> {ModeTCP, ModeUDP}" "sel_cfg s = sel_cfg (sel_New cfg)"
    using sel_loop_tracks [of "[]" "sel_New cfg" rs, unfolded append_Nil] sel_New_tracks [of cfg] unfolding s_def
    by blast+
  have "preferred_spec (sel_cfg (sel_New cfg)) [] rs (sel_preferred (sel_New cfg)) =
        preferred_spec cfg [] rs (sel_preferred (sel_New cfg))"
    by (rule preferred_spec_cong) (use sel_New_tracks [of cfg] in simp_all)
  then show ?thesis
    using l sel_New_tracks [of cfg] by (auto simp: sel_Preferred_def sel_modes)
qed

text \<open>The selector never sends a dial to a path that is not configured, when one is: in automatic
  mode with at least one port, after any probes, the preferred path has a port.\<close>

theorem selector_prefers_configured:
  assumes "sc_mode cfg = ModeAuto" "sc_tcpPort cfg > 0 \<or> sc_udpPort cfg > 0"
  shows "if sel_Preferred (sel_loop rs (sel_New cfg)) = ModeTCP then sc_tcpPort cfg > 0 else sc_udpPort cfg > 0"
proof -
  let ?ok = "\<lambda>p. if p = ModeTCP then sc_tcpPort cfg > 0 else sc_udpPort cfg > 0"
  have step: "?ok old \<Longrightarrow> ?ok (choose_spec cfg seen old)" for seen old
    using assms(2) by (auto simp: choose_spec_def Let_def sel_modes)
  have pres: "?ok old \<Longrightarrow> ?ok (preferred_spec cfg seen rs old)" for seen old
  proof (induction rs arbitrary: seen old)
    case (Cons r rs)
    show ?case unfolding preferred_spec.simps by (rule Cons.IH [OF step [OF Cons.prems]])
  qed simp
  have "?ok (sel_preferred (sel_New cfg))"
    using assms by (auto simp: sel_New_def Let_def sel_modes)
  then have ok: "?ok (preferred_spec cfg [] rs (sel_preferred (sel_New cfg)))" by (rule pres)
  have l: "sel_preferred (sel_loop rs (sel_New cfg)) = preferred_spec (sel_cfg (sel_New cfg)) [] rs (sel_preferred (sel_New cfg))"
    "sel_preferred (sel_loop rs (sel_New cfg)) \<in> {ModeTCP, ModeUDP}"
    "sel_cfg (sel_loop rs (sel_New cfg)) = sel_cfg (sel_New cfg)"
    using sel_loop_tracks [of "[]" "sel_New cfg" rs] sel_New_tracks [of cfg] by blast+
  have "preferred_spec (sel_cfg (sel_New cfg)) [] rs (sel_preferred (sel_New cfg)) =
        preferred_spec cfg [] rs (sel_preferred (sel_New cfg))"
    by (rule preferred_spec_cong) (use sel_New_tracks [of cfg] in simp_all)
  then show ?thesis using ok l sel_New_tracks [of cfg] assms(1) by (auto simp: sel_Preferred_def sel_modes)
qed

theorem selector_prefers_configured_witness:
  "sel_Preferred (sel_loop [(None, Some 7), (None, None)] (sel_New
     \<lparr>sc_host = ''h'', sc_tcpPort = 0, sc_udpPort = 9, sc_mode = ''auto'', sc_interval = 0, sc_outbound = ''o''\<rparr>)) \<noteq> ModeTCP"
  using selector_prefers_configured [of
      "\<lparr>sc_host = ''h'', sc_tcpPort = 0, sc_udpPort = 9, sc_mode = ''auto'', sc_interval = 0, sc_outbound = ''o''\<rparr>"
      "[(None, Some 7), (None, None)]"]
  by (auto simp: sel_modes split: if_splits)

end
