(* ===== verification/ProxyProtocol.thy ===== *)
theory ProxyProtocol
  imports CachedConns Metadata
begin

text \<open>
  The PROXY protocol (common/proxyprotocol): the header written to the next hop, versions 1 and 2,
  and the header read from a connection, with the address of the real client.

  The reader works on a cached connection whose wrapped connection is any reader; read deadlines
  only bound how long a read may block and are not modelled. Headers are written into \<open>b\<close>, the buffer
  that \<open>buf.New()\<close> hands out, and its \<open>Release\<close> to the pool is not shown. The errors that buffer
  writes return are ignored, as in the source.
\<close>

section \<open>Headers\<close>

definition VersionUnspecified :: "8 word" where "VersionUnspecified = 0"
definition Version1 :: "8 word" where "Version1 = 1"
definition Version2 :: "8 word" where "Version2 = 2"

definition maskVersion :: "8 word" where "maskVersion = 0xF0"
definition maskVersion2 :: "8 word" where "maskVersion2 = 0x20"
definition maskCommand :: "8 word" where "maskCommand = 0x0F"
definition CommandLocal :: "8 word" where "CommandLocal = 0"
definition CommandProxy :: "8 word" where "CommandProxy = 1"

definition transportProtocolUnspecified :: "8 word" where "transportProtocolUnspecified = 0"
definition maskAddressFamily :: "8 word" where "maskAddressFamily = 0xF0"
definition TransportProtocolIPv4 :: "8 word" where "TransportProtocolIPv4 = 0x10"
definition TransportProtocolIPv6 :: "8 word" where "TransportProtocolIPv6 = 0x20"
definition TransportProtocolUnix :: "8 word" where "TransportProtocolUnix = 0x30"
definition TransportProtocolStream :: "8 word" where "TransportProtocolStream = 1"
definition TransportProtocolDatagram :: "8 word" where "TransportProtocolDatagram = 2"

lemmas pp_consts = VersionUnspecified_def Version1_def Version2_def maskVersion_def maskVersion2_def
  maskCommand_def CommandLocal_def CommandProxy_def transportProtocolUnspecified_def maskAddressFamily_def
  TransportProtocolIPv4_def TransportProtocolIPv6_def TransportProtocolUnix_def TransportProtocolStream_def
  TransportProtocolDatagram_def

record pp_header =
  h_Version :: "8 word"
  h_Command :: "8 word"
  h_TransportProtocol :: "8 word"
  h_SourceAddress :: addr_port

definition TransportProtocolByNetwork :: "string \<Rightarrow> 8 word" where
  "TransportProtocolByNetwork network =
     (if network \<in> {''tcp'', ''tcp4'', ''tcp6'', ''unix''} then TransportProtocolStream
      else if network \<in> {''udp'', ''udp4'', ''udp6'', ''unixgram''} then TransportProtocolDatagram
      else transportProtocolUnspecified)"

definition AddressFamilyByAddr :: "addr \<Rightarrow> 8 word" where
  "AddressFamilyByAddr a = (if Addr_Is4 a then TransportProtocolIPv4 else TransportProtocolIPv6)"

definition CRLF :: bytes where "CRLF = [13, 10]"

definition headerIdentityV1 :: bytes where "headerIdentityV1 = str_bytes ''PROXY ''"
definition headerIdentityV2 :: bytes where
  "headerIdentityV2 = [13, 10, 13, 10, 0, 13, 10, 0x51, 0x55, 0x49, 0x54, 10]"

section \<open>Writing\<close>

definition zero_addr_port :: addr_port where
  "zero_addr_port = \<lparr>ap_addr = AddrZero, ap_port = 0\<rparr>"

text \<open>The address text of version 1: \<open>Addr().Unmap().WithZone("").String()\<close>.\<close>

definition addr_text :: "addr \<Rightarrow> string" where
  "addr_text a = Addr_String (Addr_WithZone (Addr_Unmap a) [])"

text \<open>The last statement of every writer: one \<open>Write\<close> of the buffer's bytes.\<close>

definition send_header :: "string \<Rightarrow> 'w writer \<Rightarrow> buffer \<Rightarrow> 'w \<Rightarrow> (go_error option \<times> 'w) option" where
  "send_header cause wr b w = do {
     bs \<leftarrow> Buffer_Bytes b;
     ((n, err), w') \<leftarrow> wr bs w;
     Some (map_option (Cause cause) err, w')
   }"

definition writeHeader1 ::
  "'w writer \<Rightarrow> buffer \<Rightarrow> pp_header \<Rightarrow> addr_port \<Rightarrow> 'w \<Rightarrow> (go_error option \<times> 'w) option" where
  "writeHeader1 wr b h destination w = do {
     (_, b) \<leftarrow> Buffer_Write b headerIdentityV1;
     let family = h_TransportProtocol h AND maskAddressFamily;
     if family = TransportProtocolIPv4 \<or> family = TransportProtocolIPv6 then do {
       (_, b) \<leftarrow> Buffer_WriteString b (if family = TransportProtocolIPv4 then ''TCP4 '' else ''TCP6 '');
       (_, b) \<leftarrow> Buffer_WriteString b (addr_text (ap_addr (h_SourceAddress h)));
       (_, b) \<leftarrow> Buffer_WriteByte b 32;
       (_, b) \<leftarrow> Buffer_WriteString b (addr_text (ap_addr destination));
       (_, b) \<leftarrow> Buffer_WriteByte b 32;
       (_, b) \<leftarrow> Buffer_WriteString b (dec (unat (ap_port (h_SourceAddress h))));
       (_, b) \<leftarrow> Buffer_WriteByte b 32;
       (_, b) \<leftarrow> Buffer_WriteString b (dec (unat (ap_port destination)));
       (_, b) \<leftarrow> Buffer_Write b CRLF;
       send_header ''write v1 header: '' wr b w
     }
     else if family = transportProtocolUnspecified then do {
       (_, b) \<leftarrow> Buffer_WriteString b (''UNKNOWN'' @ bytes_str CRLF);
       send_header ''write v1 header: '' wr b w
     }
     else Some (Some (ErrText ''unknown address family''), w)
   }"

definition put_uint16 :: "buffer \<Rightarrow> 16 word \<Rightarrow> buffer option" where
  "put_uint16 b x = do {
     (off, b) \<leftarrow> Buffer_Extend b 2;
     Some (Buffer_fill b off (be_bytes 2 x))
   }"

text \<open>The address block of version 2: its length, both addresses, both ports.\<close>

definition put_addresses :: "buffer \<Rightarrow> 16 word \<Rightarrow> addr_port \<Rightarrow> addr_port \<Rightarrow> buffer option" where
  "put_addresses b len source destination = do {
     b \<leftarrow> put_uint16 b len;
     (_, b) \<leftarrow> Buffer_Write b (Addr_AsSlice (ap_addr source));
     (_, b) \<leftarrow> Buffer_Write b (Addr_AsSlice (ap_addr destination));
     b \<leftarrow> put_uint16 b (ap_port source);
     put_uint16 b (ap_port destination)
   }"

definition writeHeader2 ::
  "'w writer \<Rightarrow> buffer \<Rightarrow> pp_header \<Rightarrow> addr_port \<Rightarrow> 'w \<Rightarrow> (go_error option \<times> 'w) option" where
  "writeHeader2 wr b h destination w = do {
     (_, b) \<leftarrow> Buffer_Write b headerIdentityV2;
     if \<not> (h_Command h = CommandLocal \<or> h_Command h = CommandProxy) then Some (Some (ErrText ''unknown command''), w)
     else do {
       (_, b) \<leftarrow> Buffer_WriteByte b (push_bit 4 (h_Version h) OR h_Command h);
       (_, b) \<leftarrow> Buffer_WriteByte b (h_TransportProtocol h);
       let family = h_TransportProtocol h AND maskAddressFamily;
       if h_Command h AND maskCommand = CommandLocal then do {
         (_, b) \<leftarrow> Buffer_WriteZeroN b 2;
         send_header ''write v2 header: '' wr b w
       }
       else if family = TransportProtocolIPv4 then
         (if \<not> Addr_Is4 (ap_addr (h_SourceAddress h)) then Some (Some (ErrText ''invalid IPv4 source address''), w)
          else if AddrPort_IsValid destination \<and> \<not> Addr_Is4 (ap_addr destination)
            then Some (Some (ErrText ''invalid IPv4 destination address''), w)
          else do {
            b \<leftarrow> put_addresses b 12 (h_SourceAddress h)
                   (if AddrPort_IsValid destination then destination else AddrPortFrom IPv4Unspecified 0);
            send_header ''write v2 header: '' wr b w
          })
       else if family = TransportProtocolIPv6 then
         (if \<not> Addr_Is6 (ap_addr (h_SourceAddress h)) then Some (Some (ErrText ''invalid IPv6 source address''), w)
          else if AddrPort_IsValid destination \<and> \<not> Addr_Is6 (ap_addr destination)
            then Some (Some (ErrText ''invalid IPv6 destination address''), w)
          else do {
            b \<leftarrow> put_addresses b 36 (h_SourceAddress h)
                   (if AddrPort_IsValid destination then destination else AddrPortFrom IPv6Unspecified 0);
            send_header ''write v2 header: '' wr b w
          })
       else if family = TransportProtocolUnix then Some (Some (ErrText ''unix socket is not supported''), w)
       else Some (Some (ErrText ''unrecognized transport protocol family''), w)
     }
   }"

definition WriteHeader ::
  "'w writer \<Rightarrow> buffer \<Rightarrow> pp_header \<Rightarrow> addr_port \<Rightarrow> 'w \<Rightarrow> (go_error option \<times> 'w) option" where
  "WriteHeader wr b h destination w =
     (if h_Version h = Version1 then writeHeader1 wr b h destination w
      else if h_Version h = Version2 then writeHeader2 wr b h destination w
      else Some (Some (ErrText ''unknown PROXY protocol version''), w))"

section \<open>Reading\<close>

type_synonym 's header_result = "((go_error + pp_header) \<times> 's cconn) option"

text \<open>A read with its error check: \<open>if err != nil { return nil, common.Cause(...) }\<close>.\<close>

definition peek_n ::
  "string \<Rightarrow> 's reader \<Rightarrow> bytes \<Rightarrow> int \<Rightarrow> 's cconn \<Rightarrow> (bytes \<Rightarrow> 's cconn \<Rightarrow> 's header_result) \<Rightarrow> 's header_result" where
  "peek_n cause rd fresh n c k = do {
     ((bs, err), c') \<leftarrow> cc_Peek rd fresh n c;
     (case err of Some e \<Rightarrow> Some (Inl (Cause cause e), c') | None \<Rightarrow> k bs c')
   }"

definition peek_until ::
  "string \<Rightarrow> 's reader \<Rightarrow> bytes \<Rightarrow> bytes list \<Rightarrow> 's cconn \<Rightarrow>
   (bytes \<Rightarrow> bytes \<Rightarrow> 's cconn \<Rightarrow> 's header_result) \<Rightarrow> 's header_result" where
  "peek_until cause rd fresh ends c k = do {
     ((bs, sep, err), c') \<leftarrow> cc_PeekUntil rd fresh ends c;
     (case err of Some e \<Rightarrow> Some (Inl (Cause cause e), c') | None \<Rightarrow> k bs sep c')
   }"

definition v1Separator :: bytes where "v1Separator = [32]"

definition readHeader1_rest :: "'s reader \<Rightarrow> bytes \<Rightarrow> 8 word \<Rightarrow> 's cconn \<Rightarrow> 's header_result" where
  "readHeader1_rest rd fresh tp c =
     peek_until ''read v1 source address: '' rd fresh [v1Separator] c (\<lambda>rawAddress _ c.
       (case ParseAddr (bytes_str rawAddress) of
          None \<Rightarrow> Some (Inl (Cause ''parse v1 source address: '' (ErrText ''ParseAddr'')), c)
        | Some address \<Rightarrow>
            peek_until ''read v1 destination address: '' rd fresh [v1Separator] c (\<lambda>_ _ c.
            peek_until ''read v1 source port: '' rd fresh [v1Separator] c (\<lambda>rawSourcePort _ c.
              (case ParseUint (bytes_str rawSourcePort) 16 of
                 Inl e \<Rightarrow> Some (Inl (Cause ''parse v1 source port: '' e), c)
               | Inr sourcePort \<Rightarrow>
                   peek_until ''read v1 destination port: '' rd fresh [CRLF] c (\<lambda>_ _ c.
                     Some (Inr \<lparr>h_Version = Version1, h_Command = CommandProxy, h_TransportProtocol = tp,
                                h_SourceAddress = AddrPortFrom (Addr_Unmap address) (of_nat sourcePort)\<rparr>, c)))))))"

definition readHeader1 :: "'s reader \<Rightarrow> bytes \<Rightarrow> 's cconn \<Rightarrow> 's header_result" where
  "readHeader1 rd fresh c =
     peek_until ''read v1 transport protocol type: '' rd fresh [v1Separator, CRLF] c (\<lambda>transportProtocol foundSeparator c.
       (if transportProtocol = str_bytes ''TCP4''
        then readHeader1_rest rd fresh (TransportProtocolStream OR TransportProtocolIPv4) c
        else if transportProtocol = str_bytes ''TCP6''
        then readHeader1_rest rd fresh (TransportProtocolStream OR TransportProtocolIPv6) c
        else if transportProtocol = str_bytes ''UNKNOWN''
        then (if foundSeparator = CRLF
              then Some (Inr \<lparr>h_Version = Version1, h_Command = CommandProxy,
                              h_TransportProtocol = transportProtocolUnspecified, h_SourceAddress = zero_addr_port\<rparr>, c)
              else readHeader1_rest rd fresh transportProtocolUnspecified c)
        else Some (Inl (ErrText ''unrecognized v1 protocol type''), c)))"

text \<open>The address block of version 2, for addresses of \<open>n\<close> bytes.\<close>

definition read_addresses :: "nat \<Rightarrow> buffer \<Rightarrow> (go_error + (bytes \<times> 16 word)) option" where
  "read_addresses n b = do {
     ((source, err), b) \<leftarrow> Buffer_Peek b (int n);
     (case err of Some e \<Rightarrow> Some (Inl (Cause ''read v2 source address: '' e)) | None \<Rightarrow> do {
        ((_, err), b) \<leftarrow> Buffer_Peek b (int n);
        (case err of Some e \<Rightarrow> Some (Inl (Cause ''read v2 destination address: '' e)) | None \<Rightarrow> do {
           ((port, err), b) \<leftarrow> Buffer_Peek b 2;
           (case err of Some e \<Rightarrow> Some (Inl (Cause ''read v2 source port: '' e)) | None \<Rightarrow> do {
              ((_, err), b) \<leftarrow> Buffer_Peek b 2;
              (case err of Some e \<Rightarrow> Some (Inl (Cause ''read v2 destination port: '' e))
               | None \<Rightarrow> Some (Inr (source, be_word port)))
           })
        })
     })
   }"

definition readHeader2 :: "'s reader \<Rightarrow> bytes \<Rightarrow> 's cconn \<Rightarrow> 's header_result" where
  "readHeader2 rd fresh c =
     peek_n ''read v2 version and command: '' rd fresh 1 c (\<lambda>vc c. do {
       versionAndCommand \<leftarrow> go_index vc (int (length vc)) 0;
       let version = versionAndCommand AND maskVersion;
       let command = versionAndCommand AND maskCommand;
       if version \<noteq> maskVersion2 then Some (Inl (ErrText ''v2 version mismatch''), c)
       else if \<not> (command = CommandLocal \<or> command = CommandProxy) then Some (Inl (ErrText ''bad v2 command''), c)
       else
         peek_n ''read v2 family and address: '' rd fresh 1 c (\<lambda>fa c. do {
           family \<leftarrow> go_index fa (int (length fa)) 0;
           peek_n ''read v2 rest length: '' rd fresh 2 c (\<lambda>restLenBuf c.
           peek_n ''read v2 rest data: '' rd fresh (int (unat (be_word restLenBuf :: 16 word))) c (\<lambda>restBuf c.
             let header = \<lparr>h_Version = Version2, h_Command = command, h_TransportProtocol = family,
                           h_SourceAddress = zero_addr_port\<rparr>;
                 buffer = Buffer_As restBuf (int (length restBuf));
                 protocolFamily = family AND maskAddressFamily
             in if command \<noteq> CommandProxy then Some (Inr header, c)
                else if protocolFamily = TransportProtocolIPv4 then do {
                  r \<leftarrow> read_addresses 4 buffer;
                  Some (map_Inr (\<lambda>(source, port).
                    header\<lparr>h_SourceAddress := AddrPortFrom (AddrFrom4 source) port\<rparr>) r, c)
                }
                else if protocolFamily = TransportProtocolIPv6 then do {
                  r \<leftarrow> read_addresses 16 buffer;
                  Some (map_Inr (\<lambda>(source, port).
                    header\<lparr>h_SourceAddress := AddrPortFrom (Addr_Unmap (AddrFrom16 source)) port\<rparr>) r, c)
                }
                else if protocolFamily = TransportProtocolUnix then Some (Inl (ErrText ''unix socket is not supported''), c)
                else Some (Inl (ErrText ''unrecognized transport protocol family''), c)))
         })
     })"

definition ReadHeader :: "'s reader \<Rightarrow> bytes \<Rightarrow> 's cconn \<Rightarrow> 's header_result" where
  "ReadHeader rd fresh c =
     peek_n ''read identity: '' rd fresh 6 c (\<lambda>identity c.
       (if identity = headerIdentityV1 then readHeader1 rd fresh c
        else if identity = take 6 headerIdentityV2 then
          peek_n ''read identity: '' rd fresh 6 c (\<lambda>identity c.
            (if identity = drop 6 headerIdentityV2 then readHeader2 rd fresh c
             else Some (Inl ErrNotProxyProtocol, c)))
        else Some (Inl ErrNotProxyProtocol, c)))"

text \<open>\<open>HandleConnection\<close>: whether the source address was replaced, the metadata and the connection.\<close>

definition pp_HandleConnection ::
  "'s reader \<Rightarrow> bytes \<Rightarrow> 's cconn \<Rightarrow> metadata \<Rightarrow> ((go_error + bool) \<times> 's cconn \<times> metadata) option" where
  "pp_HandleConnection rd fresh c m = do {
     (r, c') \<leftarrow> ReadHeader rd fresh c;
     Some (case r of
        Inl e \<Rightarrow> (Inl (Cause ''read PROXY protocol header: '' e), c', m)
      | Inr header \<Rightarrow>
          if h_Command header = CommandLocal \<or> h_TransportProtocol header = transportProtocolUnspecified
          then (Inr False, c', m)
          else if AddrPort_IsValid (h_SourceAddress header)
          then (Inr True, c', m\<lparr>md_SourceAddress := h_SourceAddress header\<rparr>)
          else (Inr True, c', m))
   }"

section \<open>What the writers send\<close>

definition v1_text :: "string \<Rightarrow> addr_port \<Rightarrow> addr_port \<Rightarrow> bytes" where
  "v1_text proto source destination =
     str_bytes (addr_text (ap_addr source)) @ [32] @ str_bytes (addr_text (ap_addr destination)) @ [32] @
     str_bytes (dec (unat (ap_port source))) @ [32] @ str_bytes (dec (unat (ap_port destination))) @ CRLF"

definition v1_bytes :: "string \<Rightarrow> addr_port \<Rightarrow> addr_port \<Rightarrow> bytes" where
  "v1_bytes proto source destination = headerIdentityV1 @ str_bytes proto @ [32] @ v1_text proto source destination"

definition v2_addresses :: "addr_port \<Rightarrow> addr_port \<Rightarrow> bytes" where
  "v2_addresses source destination =
     Addr_AsSlice (ap_addr source) @ Addr_AsSlice (ap_addr destination) @
     be_bytes 2 (ap_port source) @ be_bytes 2 (ap_port destination)"

definition v2_bytes :: "8 word \<Rightarrow> 8 word \<Rightarrow> bytes \<Rightarrow> bytes" where
  "v2_bytes command tp rest =
     headerIdentityV2 @ [0x20 OR command, tp] @ be_bytes 2 (of_nat (length rest) :: 16 word) @ rest"

lemma absorb_more:
  assumes "buf_wf b" "length xs \<le> buf_free b"
  shows "buf_wf (Buffer_absorb b xs)" "buf_free (Buffer_absorb b xs) = buf_free b - length xs"
  using buf_append [OF assms] by simp_all

lemma absorb_twice:
  assumes "buf_wf b" "length xs + length ys \<le> buf_free b"
  shows "Buffer_absorb (Buffer_absorb b xs) ys = Buffer_absorb b (xs @ ys)"
proof -
  have e: "0 \<le> b_end b" "nat (b_end b) + length xs + length ys \<le> length (b_arr b)"
    using assms by (auto simp: buffer_defs)
  have "nat (b_end b + int (length xs)) = nat (b_end b) + length xs" using e(1) by simp
  then show ?thesis using e by (simp add: Buffer_absorb_def put_at_def ac_simps)
qed

text \<open>Appends onto a buffer that already holds \<open>xs\<close>: the effect of the next write.\<close>

lemma append_next:
  assumes "buf_wf b"
  shows "length xs + length ys \<le> buf_free b \<Longrightarrow>
      Buffer_Write (Buffer_absorb b xs) ys = Some ((length ys, None), Buffer_absorb b (xs @ ys))"
    "length xs + length t \<le> buf_free b \<Longrightarrow>
      Buffer_WriteString (Buffer_absorb b xs) t = Some ((length t, None), Buffer_absorb b (xs @ str_bytes t))"
    "length xs < buf_free b \<Longrightarrow> Buffer_WriteByte (Buffer_absorb b xs) d = Some (None, Buffer_absorb b (xs @ [d]))"
    "length xs + 2 \<le> buf_free b \<Longrightarrow> put_uint16 (Buffer_absorb b xs) x = Some (Buffer_absorb b (xs @ be_bytes 2 x))"
  using assms absorb_more [OF assms, of xs]
    absorb_twice [OF assms, of xs ys] absorb_twice [OF assms, of xs "str_bytes t"] absorb_twice [OF assms, of xs "[d]"]
    absorb_twice [OF assms, of xs "be_bytes 2 x"] Buffer_Extend_fill [of "Buffer_absorb b xs" "be_bytes 2 x"]
  by (simp_all add: Buffer_Write_fits Buffer_WriteString_fits Buffer_WriteByte_fits put_uint16_def)

lemma send_header_bytes:
  assumes "buf_wf b" "buf_bytes b = []" "length xs \<le> buf_free b"
  shows "send_header cause stream_writer (Buffer_absorb b xs) w = Some (None, w @ xs)"
  using buf_append [OF assms(1,3)] assms(2) by (simp add: send_header_def stream_writer_def)

lemma writeHeader1_sends:
  assumes "buf_wf b" "buf_bytes b = []" "length (v1_bytes proto (h_SourceAddress h) destination) \<le> buf_free b"
    "proto = (if h_TransportProtocol h AND maskAddressFamily = TransportProtocolIPv4 then ''TCP4'' else ''TCP6'')"
    "h_TransportProtocol h AND maskAddressFamily \<in> {TransportProtocolIPv4, TransportProtocolIPv6}"
  shows "writeHeader1 stream_writer b h destination w = Some (None, w @ v1_bytes proto (h_SourceAddress h) destination)"
proof -
  let ?t = "v1_bytes proto (h_SourceAddress h) destination"
  have l0: "length headerIdentityV1 \<le> buf_free b" using assms(3) by (simp add: v1_bytes_def)
  have lt: "length ?t = length headerIdentityV1 + length proto + length (addr_text (ap_addr (h_SourceAddress h))) +
      length (addr_text (ap_addr destination)) + length (dec (unat (ap_port (h_SourceAddress h)))) +
      length (dec (unat (ap_port destination))) + length CRLF + 4" by (simp add: v1_bytes_def v1_text_def)
  have lp: "length proto = 4" using assms(4) by simp
  have ne: "TransportProtocolIPv4 \<noteq> TransportProtocolIPv6" by (simp add: pp_consts)
  have sp: "str_bytes ''TCP4 '' = str_bytes ''TCP4'' @ [32]" "str_bytes ''TCP6 '' = str_bytes ''TCP6'' @ [32]"
    by (simp_all add: str_bytes_def)
  note step = Buffer_Write_fits [OF assms(1) l0] append_next [OF assms(1)] send_header_bytes [OF assms(1,2)]
  show ?thesis
    using assms(3-5) lt lp ne
    by (auto simp: writeHeader1_def step sp v1_bytes_def v1_text_def)
qed

lemma WriteZeroN_2:
  assumes "buf_wf b" "length xs + 3 \<le> buf_free b"
  shows "\<exists>b'. Buffer_WriteZeroN (Buffer_absorb b xs) 2 = Some (None, b') \<and> Buffer_Bytes b' = Some (buf_bytes b @ xs @ [0, 0])"
proof -
  let ?c = "Buffer_absorb b xs"
  have xs: "length xs \<le> buf_free b" using assms(2) by simp
  have c: "buf_wf ?c" "length [0, 0, 0 :: byte] \<le> buf_free ?c" "buf_bytes ?c = buf_bytes b @ xs"
    using buf_append [OF assms(1) xs] assms(2) by simp_all
  let ?d = "Buffer_absorb ?c [0, 0, 0]"
  note d = buf_append(1,2) [OF c(1,2)]
  have b: "0 \<le> b_end ?c" "b_end ?c + 3 \<le> b_len ?c" "b_len ?c \<le> int (length (b_arr ?c))"
    using c(1,2) by (auto simp: buffer_defs)
  have "zero_from (b_arr ?c) (b_len ?c) (b_end ?c) (nat (2 + 1)) = Some (put_at (b_arr ?c) (nat (b_end ?c)) (replicate 3 0))"
    using zero_from_result [of "b_end ?c" "b_len ?c" "b_arr ?c" 3] b by simp
  moreover have "replicate 3 (0 :: byte) = [0, 0, 0]" by (simp add: eval_nat_numeral)
  ultimately have z: "Buffer_WriteZeroN ?c 2 = Some (None, ?d\<lparr>b_end := b_end ?d - 1\<rparr>)"
    using b by (simp add: Buffer_WriteZeroN_def Buffer_Cap_def Buffer_absorb_def [of ?c])
  have shorter: "buf_bytes (x\<lparr>b_end := b_end x - 1\<rparr>) = take (nat (b_end x - b_start x) - 1) (buf_bytes x)" for x
  proof -
    have "nat (b_end x - 1 - b_start x) = nat (b_end x - b_start x) - 1" by simp
    then show ?thesis by (simp add: buf_bytes_def min_def)
  qed
  have "nat (b_end ?d - b_start ?d) - 1 = length (buf_bytes ?c) + 2"
    using arg_cong [OF d(2), of length] d(1) by simp
  then have "buf_bytes (?d\<lparr>b_end := b_end ?d - 1\<rparr>) = take (length (buf_bytes ?c) + 2) (buf_bytes ?c @ [0, 0, 0])"
    using d(2) shorter [of ?d] by simp
  then have y: "buf_bytes (?d\<lparr>b_end := b_end ?d - 1\<rparr>) = buf_bytes b @ xs @ [0, 0]"
    using c(3) by (simp del: length_buf_bytes)
  have "buf_wf (?d\<lparr>b_end := b_end ?d - 1\<rparr>)" using d(1) c(1) by (auto simp: buf_wf_def Buffer_absorb_def)
  then show ?thesis using z y by (intro exI [of _ "?d\<lparr>b_end := b_end ?d - 1\<rparr>"]) simp
qed

lemma writeHeader2_local:
  assumes "buf_wf b" "buf_bytes b = []" "17 \<le> buf_free b" "h_Version h = Version2" "h_Command h = CommandLocal"
  shows "writeHeader2 stream_writer b h destination w = Some (None, w @ v2_bytes CommandLocal (h_TransportProtocol h) [])"
proof -
  have l0: "length headerIdentityV2 \<le> buf_free b" "length headerIdentityV2 = 12"
    using assms(3) by (simp_all add: headerIdentityV2_def)
  note step = Buffer_Write_fits [OF assms(1) l0(1)] append_next [OF assms(1)]
  from WriteZeroN_2 [OF assms(1), of "headerIdentityV2 @ [0x20] @ [h_TransportProtocol h]"] l0 assms(2,3) obtain b' where
    z: "Buffer_WriteZeroN (Buffer_absorb b (headerIdentityV2 @ [0x20] @ [h_TransportProtocol h])) 2 = Some (None, b')"
       "Buffer_Bytes b' = Some (headerIdentityV2 @ [0x20] @ [h_TransportProtocol h] @ [0, 0])" by auto
  show ?thesis
    using assms(3-5) l0 z
    by (simp add: writeHeader2_def step pp_consts send_header_def stream_writer_def v2_bytes_def be_bytes_def
        push_bit_eq_mult numeral_2_eq_2)
qed

definition v2_destination :: "addr_port \<Rightarrow> addr_port \<Rightarrow> addr_port" where
  "v2_destination source destination =
     (if AddrPort_IsValid destination then destination
      else AddrPortFrom (if Addr_Is4 (ap_addr source) then IPv4Unspecified else IPv6Unspecified) 0)"

lemma put_addresses_bytes:
  assumes "buf_wf b" "length xs + 2 + length (v2_addresses source destination) \<le> buf_free b"
  shows "put_addresses (Buffer_absorb b xs) len source destination =
     Some (Buffer_absorb b (xs @ be_bytes 2 len @ v2_addresses source destination))"
  using assms by (simp add: put_addresses_def append_next v2_addresses_def)

lemma writeHeader2_sends:
  assumes "buf_wf b" "buf_bytes b = []" "52 \<le> buf_free b" "h_Version h = Version2" "h_Command h = CommandProxy"
    "Addr_Is4 (ap_addr (h_SourceAddress h)) \<and> (AddrPort_IsValid destination \<longrightarrow> Addr_Is4 (ap_addr destination)) \<and>
       h_TransportProtocol h AND maskAddressFamily = TransportProtocolIPv4 \<or>
     Addr_Is6 (ap_addr (h_SourceAddress h)) \<and> (AddrPort_IsValid destination \<longrightarrow> Addr_Is6 (ap_addr destination)) \<and>
       h_TransportProtocol h AND maskAddressFamily = TransportProtocolIPv6"
  shows "writeHeader2 stream_writer b h destination w =
     Some (None, w @ v2_bytes CommandProxy (h_TransportProtocol h)
       (v2_addresses (h_SourceAddress h) (v2_destination (h_SourceAddress h) destination)))"
proof -
  let ?s = "h_SourceAddress h" let ?d = "v2_destination ?s destination" let ?v = "v2_addresses ?s ?d"
  have l0: "length headerIdentityV2 \<le> buf_free b" "length headerIdentityV2 = 12"
    using assms(3) by (simp_all add: headerIdentityV2_def)
  note step = Buffer_Write_fits [OF assms(1) l0(1)] append_next [OF assms(1)] send_header_bytes [OF assms(1,2)]
    put_addresses_bytes [OF assms(1)]
  have v: "push_bit 4 (h_Version h) OR h_Command h = 0x21" "h_Command h AND maskCommand \<noteq> CommandLocal"
    using assms(4,5) by (simp_all add: pp_consts push_bit_eq_mult)
  have ne: "TransportProtocolIPv4 \<noteq> TransportProtocolIPv6" by (simp add: pp_consts)
  have b: "(0x20 :: 8 word) OR CommandProxy = 0x21" by (simp add: pp_consts)
  from assms(6) show ?thesis
  proof (elim disjE conjE)
    assume h: "Addr_Is4 (ap_addr ?s)" "AddrPort_IsValid destination \<longrightarrow> Addr_Is4 (ap_addr destination)"
      "h_TransportProtocol h AND maskAddressFamily = TransportProtocolIPv4"
    have lv: "length ?v = 12"
      using h(1,2) by (cases "ap_addr ?s"; cases "ap_addr destination")
        (auto simp: v2_addresses_def v2_destination_def AddrPortFrom_def IPv4Unspecified_def AddrPort_IsValid_def Addr_IsValid_def)
    have d: "?d = (if AddrPort_IsValid destination then destination else AddrPortFrom IPv4Unspecified 0)"
      using h(1) by (simp add: v2_destination_def)
    have p: "put_addresses (Buffer_absorb b (headerIdentityV2 @ [0x21, h_TransportProtocol h])) 12 ?s ?d =
        Some (Buffer_absorb b (headerIdentityV2 @ [0x21, h_TransportProtocol h] @ be_bytes 2 (12 :: 16 word) @ ?v))"
      using put_addresses_bytes [OF assms(1), of "headerIdentityV2 @ [0x21, h_TransportProtocol h]" ?s ?d 12] lv assms(3) l0(2)
      by simp
    show ?thesis
      using h assms(3,5) l0(2) lv v ne b p send_header_bytes [OF assms(1,2)]
      by (simp add: writeHeader2_def step v2_bytes_def flip: d)
  next
    assume h: "Addr_Is6 (ap_addr ?s)" "AddrPort_IsValid destination \<longrightarrow> Addr_Is6 (ap_addr destination)"
      "h_TransportProtocol h AND maskAddressFamily = TransportProtocolIPv6"
    have n4: "\<not> Addr_Is4 (ap_addr ?s)" using h(1) by (cases "ap_addr ?s") auto
    have lv: "length ?v = 36"
      using h(1,2) by (cases "ap_addr ?s"; cases "ap_addr destination")
        (auto simp: v2_addresses_def v2_destination_def AddrPortFrom_def IPv6Unspecified_def AddrPort_IsValid_def Addr_IsValid_def)
    have d: "?d = (if AddrPort_IsValid destination then destination else AddrPortFrom IPv6Unspecified 0)"
      using n4 by (simp add: v2_destination_def)
    have p: "put_addresses (Buffer_absorb b (headerIdentityV2 @ [0x21, h_TransportProtocol h])) 36 ?s ?d =
        Some (Buffer_absorb b (headerIdentityV2 @ [0x21, h_TransportProtocol h] @ be_bytes 2 (36 :: 16 word) @ ?v))"
      using put_addresses_bytes [OF assms(1), of "headerIdentityV2 @ [0x21, h_TransportProtocol h]" ?s ?d 36] lv assms(3) l0(2)
      by simp
    show ?thesis
      using h assms(3,5) l0(2) lv v ne b p send_header_bytes [OF assms(1,2)]
      by (simp add: writeHeader2_def step v2_bytes_def flip: d)
  qed
qed

section \<open>What the reader accepts\<close>

text \<open>\<open>cc_view c pos xs\<close>: the connection is at position \<open>pos\<close> of its cache, with \<open>xs\<close> still to come.\<close>

definition cc_view ::
  "('s \<Rightarrow> bytes) \<Rightarrow> ('s \<Rightarrow> bool) \<Rightarrow> bytes \<Rightarrow> 's cconn \<Rightarrow> nat \<Rightarrow> bytes \<Rightarrow> bool" where
  "cc_view pend iv fresh c pos xs \<longleftrightarrow>
     iv (cc_conn c) \<and> cc_ok fresh c \<and> cc_at fresh c = pos \<and> cc_ahead pend fresh c = xs"

lemma of_char_byte_inject: "(of_char x :: byte) = of_char c \<longleftrightarrow> x = c"
proof
  assume h: "(of_char x :: byte) = of_char c"
  have "(of_char x :: nat) = of_char c"
    using arg_cong [OF h, of unat] unfolding unat_of_char_byte .
  then show "x = c" by (rule injD [OF inj_of_char])
qed simp

lemma byte_in_str: "(of_char c :: byte) \<in> set (str_bytes t) \<longleftrightarrow> c \<in> set t"
  unfolding str_bytes_def set_map image_iff of_char_byte_inject by blast

lemma bytes_index_char: "x \<notin> set xs \<Longrightarrow> bytes_index (xs @ x # ys) [x] = Some (length xs)"
  by (induction xs) auto

lemma bytes_index_crlf: "13 \<notin> set xs \<Longrightarrow> bytes_index (xs @ 13 # 10 # ys) CRLF = Some (length xs)"
  by (induction xs) (auto simp: CRLF_def)

lemma bytes_index_no_crlf: "13 \<notin> set xs \<Longrightarrow> bytes_index xs CRLF = None"
  by (induction xs) (auto simp: CRLF_def)

context io_reader
begin

lemma view_peek:
  assumes "cc_view pending inv fresh c pos (xs @ ys)" "length xs = n" "pos + n \<le> CacheSize"
  shows "\<exists>c'. cc_Peek rd fresh (int n) c = Some ((xs, None), c') \<and> cc_view pending inv fresh c' (pos + n) ys"
proof -
  have v: "inv (cc_conn c)" "cc_ok fresh c" "n \<le> length (cc_ahead pending fresh c)" "cc_at fresh c + n \<le> CacheSize"
    using assms by (simp_all add: cc_view_def)
  from cc_Peek_stream [OF v] assms show ?thesis by (auto simp: cc_view_def)
qed

lemma view_peek_n:
  assumes "cc_view pending inv fresh c pos (xs @ ys)" "length xs = n" "pos + n \<le> CacheSize"
  shows "\<exists>c'. (\<forall>cause k. peek_n cause rd fresh (int n) c k = k xs c') \<and> cc_view pending inv fresh c' (pos + n) ys"
  using view_peek [OF assms] by (auto simp: peek_n_def)

lemma view_peek_until:
  assumes "cc_view pending inv fresh c pos (xs @ e @ ys)" "bytes_index (xs @ e @ ys) e = Some (length xs)" "e \<noteq> []"
    "pos + length xs + length e \<le> CacheSize"
    "\<forall>e' \<in> set es. bytes_index (take (length xs + length e - 1) (xs @ e @ ys)) e' = None"
  shows "\<exists>c'. (\<forall>cause k. peek_until cause rd fresh (e # es) c k = k xs e c') \<and>
    cc_view pending inv fresh c' (pos + length xs + length e) ys"
proof -
  have v: "inv (cc_conn c)" "cc_ok fresh c" "bytes_index (cc_ahead pending fresh c) e = Some (length xs)"
    "cc_at fresh c + length xs + length e \<le> CacheSize"
    "\<forall>e' \<in> set es. bytes_index (take (length xs + length e - 1) (cc_ahead pending fresh c)) e' = None"
    using assms by (simp_all add: cc_view_def)
  from cc_PeekUntil_stream [OF v(1,2) assms(3) v(3-5)] assms show ?thesis
    by (auto simp: cc_view_def peek_until_def)
qed

lemmas view_peek_space = view_peek_until [where e = v1Separator and es = "[]", simplified v1Separator_def]

text \<open>One field of version 1, up to its space.\<close>

lemma view_field:
  assumes "cc_view pending inv fresh c pos (str_bytes t @ [32] @ ys)" "CHR '' '' \<notin> set t" "pos + length t < CacheSize"
  shows "\<exists>c'. (\<forall>cause k. peek_until cause rd fresh [v1Separator] c k = k (str_bytes t) v1Separator c') \<and>
    cc_view pending inv fresh c' (pos + length t + 1) ys"
proof -
  have n: "(32 :: byte) \<notin> set (str_bytes t)" using assms(2) byte_in_str [of "CHR '' ''" t] by simp
  show ?thesis
    using view_peek_until [of fresh c pos "str_bytes t" v1Separator ys "[]"] assms n
      bytes_index_char [OF n, of ys] by (simp add: v1Separator_def)
qed

text \<open>The rest of a version 1 header, from the source address on.\<close>

lemma view_v1_rest:
  assumes "cc_view pending inv fresh c pos (v1_text proto source destination @ rest)" "pos \<le> 20"
    "Addr_IsValid (ap_addr source)" "Addr_IsValid (ap_addr destination)"
  shows "\<exists>c'. readHeader1_rest rd fresh tp c =
      Some (Inr \<lparr>h_Version = Version1, h_Command = CommandProxy, h_TransportProtocol = tp,
                 h_SourceAddress = AddrPortFrom (Addr_WithZone (Addr_Unmap (ap_addr source)) []) (ap_port source)\<rparr>, c') \<and>
    cc_view pending inv fresh c' (pos + length (v1_text proto source destination)) rest"
proof -
  let ?a = "Addr_WithZone (Addr_Unmap (ap_addr source)) []" and ?b = "Addr_WithZone (Addr_Unmap (ap_addr destination)) []"
  let ?s = "addr_text (ap_addr source)" and ?d = "addr_text (ap_addr destination)"
  let ?p = "dec (unat (ap_port source))" and ?q = "dec (unat (ap_port destination))"
  have v: "Addr_IsValid ?a" "\<forall>w z. ?a = Addr6 w z \<longrightarrow> z = []" "Addr_IsValid ?b" "\<forall>w z. ?b = Addr6 w z \<longrightarrow> z = []"
    using assms(3,4) by (cases "ap_addr source"; cases "ap_addr destination"; auto simp: Addr_IsValid_def)+
  have sp: "CHR '' '' \<notin> set ?s" "CHR '' '' \<notin> set ?d"
    using Addr_String_chars(1) [OF v(1,2)] Addr_String_chars(1) [OF v(3,4)]
    by (auto simp: addr_text_def is_hex_def is_digit_def subset_iff)
  have sd: "CHR '' '' \<notin> set (dec n)" "CHR 0x0D \<notin> set (dec n)" for n
    using dec_digits(1) [of n] by (auto simp: list_all_iff is_digit_def)
  have len: "length ?s \<le> 45" "length ?d \<le> 45" "length ?p \<le> 5" "length ?q \<le> 5"
    using Addr_String_length [OF v(1,2)] Addr_String_length [OF v(3,4)] port_text by (simp_all add: addr_text_def)
  have ap: "ParseAddr (bytes_str (str_bytes ?s)) = Some ?a" using ParseAddr_String [OF v(1)] by (simp add: addr_text_def)
  have um: "Addr_Unmap ?a = ?a" by (rule Unmap_WithZone_swap)
  have "unat (ap_port source) < 2 ^ LENGTH(16)" by (rule unsigned_less)
  then have pp: "ParseUint (bytes_str (str_bytes ?p)) 16 = Inr (unat (ap_port source))" by (simp add: ParseUint_dec)
  from assms(1) have v0: "cc_view pending inv fresh c pos (str_bytes ?s @ [32] @ (str_bytes ?d @ [32] @
      (str_bytes ?p @ [32] @ (str_bytes ?q @ CRLF @ rest))))" by (simp add: v1_text_def)
  from view_field [OF v0 sp(1)] len assms(2) obtain c1 where
    c1: "\<And>cause k. peek_until cause rd fresh [v1Separator] c k = k (str_bytes ?s) v1Separator c1"
      and v1: "cc_view pending inv fresh c1 (pos + length ?s + 1) (str_bytes ?d @ [32] @ (str_bytes ?p @ [32] @ (str_bytes ?q @ CRLF @ rest)))"
    by (auto simp: CacheSize_def)
  from view_field [OF v1 sp(2)] len assms(2) obtain c2 where
    c2: "\<And>cause k. peek_until cause rd fresh [v1Separator] c1 k = k (str_bytes ?d) v1Separator c2"
      and v2: "cc_view pending inv fresh c2 (pos + length ?s + 1 + length ?d + 1) (str_bytes ?p @ [32] @ (str_bytes ?q @ CRLF @ rest))"
    by (auto simp: CacheSize_def)
  from view_field [OF v2 sd(1)] len assms(2) obtain c3 where
    c3: "\<And>cause k. peek_until cause rd fresh [v1Separator] c2 k = k (str_bytes ?p) v1Separator c3"
      and v3: "cc_view pending inv fresh c3 (pos + length ?s + 1 + length ?d + 1 + length ?p + 1) (str_bytes ?q @ CRLF @ rest)"
    by (auto simp: CacheSize_def)
  have "(13 :: byte) \<notin> set (str_bytes ?q)" using sd(2) byte_in_str [of "CHR 0x0D" ?q] by simp
  then have "bytes_index (str_bytes ?q @ CRLF @ rest) CRLF = Some (length (str_bytes ?q))"
    using bytes_index_crlf by (simp add: CRLF_def)
  from view_peek_until [OF v3 this, of "[]"] len assms(2) obtain c4 where
    c4: "\<And>cause k. peek_until cause rd fresh [CRLF] c3 k = k (str_bytes ?q) CRLF c4"
      and v4: "cc_view pending inv fresh c4 (pos + length ?s + 1 + length ?d + 1 + length ?p + 1 + length ?q + 2) rest"
    by (auto simp: CacheSize_def CRLF_def)
  have e: "pos + length ?s + 1 + length ?d + 1 + length ?p + 1 + length ?q + 2 = pos + length (v1_text proto source destination)"
    by (simp add: v1_text_def CRLF_def)
  have "cc_view pending inv fresh c4 (pos + length (v1_text proto source destination)) rest" by (rule v4 [unfolded e])
  then show ?thesis
    by (intro exI [of _ c4] conjI) (simp add: readHeader1_rest_def c1 c2 c3 c4 ap [simplified] pp [simplified] um)
qed

lemma view_v1:
  assumes "cc_view pending inv fresh c 0 (v1_bytes proto source destination @ rest)"
    "proto = ''TCP4'' \<and> family = TransportProtocolIPv4 \<or> proto = ''TCP6'' \<and> family = TransportProtocolIPv6"
    "Addr_IsValid (ap_addr source)" "Addr_IsValid (ap_addr destination)"
  shows "\<exists>c'. ReadHeader rd fresh c =
      Some (Inr \<lparr>h_Version = Version1, h_Command = CommandProxy, h_TransportProtocol = TransportProtocolStream OR family,
                 h_SourceAddress = AddrPortFrom (Addr_WithZone (Addr_Unmap (ap_addr source)) []) (ap_port source)\<rparr>, c') \<and>
    cc_view pending inv fresh c' (length (v1_bytes proto source destination)) rest"
proof -
  let ?t = "v1_text proto source destination"
  have v0: "cc_view pending inv fresh c 0 (headerIdentityV1 @ (str_bytes proto @ [32] @ ?t @ rest))"
    using assms(1) by (simp add: v1_bytes_def)
  have l: "length headerIdentityV1 = 6" "length proto = 4" using assms(2) by (auto simp: headerIdentityV1_def)
  from view_peek_n [OF v0 l(1)] obtain c1 where
    c1: "\<And>cause k. peek_n cause rd fresh (int 6) c k = k headerIdentityV1 c1"
      and v1: "cc_view pending inv fresh c1 6 (str_bytes proto @ [32] @ ?t @ rest)" by (auto simp: CacheSize_def)
  have n: "(32 :: byte) \<notin> set (str_bytes proto)" "(13 :: byte) \<notin> set (str_bytes proto)"
    using assms(2) by (auto simp: str_bytes_def)
  from view_peek_until [OF v1, of "[CRLF]"] bytes_index_char [OF n(1), of "?t @ rest"] bytes_index_no_crlf [OF n(2)] l(2)
  obtain c2 where c2: "\<And>cause k. peek_until cause rd fresh [v1Separator, CRLF] c1 k = k (str_bytes proto) v1Separator c2"
      and v2: "cc_view pending inv fresh c2 11 (?t @ rest)"
    by (auto simp: v1Separator_def CacheSize_def)
  from view_v1_rest [OF v2 _ assms(3,4), of "TransportProtocolStream OR family"] obtain c3 where
    c3: "readHeader1_rest rd fresh (TransportProtocolStream OR family) c2 =
      Some (Inr \<lparr>h_Version = Version1, h_Command = CommandProxy, h_TransportProtocol = TransportProtocolStream OR family,
                 h_SourceAddress = AddrPortFrom (Addr_WithZone (Addr_Unmap (ap_addr source)) []) (ap_port source)\<rparr>, c3)"
      and v3: "cc_view pending inv fresh c3 (11 + length ?t) rest" by auto
  have "11 + length ?t = length (v1_bytes proto source destination)" using l by (simp add: v1_bytes_def)
  moreover have "ReadHeader rd fresh c = readHeader1 rd fresh c1" using c1 [simplified] by (simp add: ReadHeader_def)
  moreover have "readHeader1 rd fresh c1 = readHeader1_rest rd fresh (TransportProtocolStream OR family) c2"
    using assms(2) c2 by (auto simp: readHeader1_def)
  ultimately show ?thesis using c3 v3 by simp
qed

lemma view_v2:
  assumes "cc_view pending inv fresh c 0 (v2_bytes command tp block @ rest)" "length block \<le> 4080"
    "command \<in> {CommandLocal, CommandProxy}"
  shows "\<exists>c'. cc_view pending inv fresh c' (16 + length block) rest \<and> ReadHeader rd fresh c =
     (let header = \<lparr>h_Version = Version2, h_Command = command, h_TransportProtocol = tp, h_SourceAddress = zero_addr_port\<rparr>
      in if command \<noteq> CommandProxy then Some (Inr header, c')
         else if tp AND maskAddressFamily = TransportProtocolIPv4
         then (do { r \<leftarrow> read_addresses 4 (Buffer_As block (int (length block)));
               Some (map_Inr (\<lambda>(source, port). header\<lparr>h_SourceAddress := AddrPortFrom (AddrFrom4 source) port\<rparr>) r, c') })
         else if tp AND maskAddressFamily = TransportProtocolIPv6
         then (do { r \<leftarrow> read_addresses 16 (Buffer_As block (int (length block)));
               Some (map_Inr (\<lambda>(source, port). header\<lparr>h_SourceAddress := AddrPortFrom (Addr_Unmap (AddrFrom16 source)) port\<rparr>) r, c') })
         else if tp AND maskAddressFamily = TransportProtocolUnix then Some (Inl (ErrText ''unix socket is not supported''), c')
         else Some (Inl (ErrText ''unrecognized transport protocol family''), c'))"
proof -
  let ?i = "take 6 headerIdentityV2" and ?j = "drop 6 headerIdentityV2" and ?vc = "0x20 OR command"
  let ?l = "be_bytes 2 (of_nat (length block) :: 16 word)"
  have l: "length ?i = 6" "length ?j = 6" by (simp_all add: headerIdentityV2_def)
  have v0: "cc_view pending inv fresh c 0 (?i @ (?j @ ([?vc] @ ([tp] @ (?l @ (block @ rest))))))"
    using assms(1) unfolding v2_bytes_def append_assoc [of ?i ?j, symmetric] append_take_drop_id by simp
  from view_peek_n [OF v0 l(1)] obtain c1 where
    c1: "\<And>cause k. peek_n cause rd fresh (int 6) c k = k ?i c1"
      and v1: "cc_view pending inv fresh c1 6 (?j @ ([?vc] @ ([tp] @ (?l @ (block @ rest)))))" by (auto simp: CacheSize_def)
  from view_peek_n [OF v1 l(2)] obtain c2 where
    c2: "\<And>cause k. peek_n cause rd fresh (int 6) c1 k = k ?j c2"
      and v2: "cc_view pending inv fresh c2 12 ([?vc] @ ([tp] @ (?l @ (block @ rest))))" by (auto simp: CacheSize_def)
  from view_peek_n [OF v2, of 1] obtain c3 where
    c3: "\<And>cause k. peek_n cause rd fresh (int 1) c2 k = k [?vc] c3"
      and v3: "cc_view pending inv fresh c3 13 ([tp] @ (?l @ (block @ rest)))" by (auto simp: CacheSize_def)
  from view_peek_n [OF v3, of 1] obtain c4 where
    c4: "\<And>cause k. peek_n cause rd fresh (int 1) c3 k = k [tp] c4"
      and v4: "cc_view pending inv fresh c4 14 (?l @ (block @ rest))" by (auto simp: CacheSize_def)
  from view_peek_n [OF v4, of 2] obtain c5 where
    c5: "\<And>cause k. peek_n cause rd fresh (int 2) c4 k = k ?l c5"
      and v5: "cc_view pending inv fresh c5 16 (block @ rest)" by (auto simp: CacheSize_def)
  from view_peek_n [OF v5 refl] assms(2) obtain c6 where
    c6: "\<And>cause k. peek_n cause rd fresh (int (length block)) c5 k = k block c6"
      and v6: "cc_view pending inv fresh c6 (16 + length block) rest" by (auto simp: CacheSize_def)
  have w: "unat (be_word ?l :: 16 word) = length block"
    using assms(2) by (simp add: unat_of_nat)
  have m: "?vc AND maskVersion = maskVersion2" "?vc AND maskCommand = command" using assms(3) by (auto simp: pp_consts)
  have known: "(command \<noteq> CommandLocal \<and> command \<noteq> CommandProxy) = False" using assms(3) by auto
  have ij: "?i \<noteq> headerIdentityV1" by (simp add: headerIdentityV1_def headerIdentityV2_def str_bytes_def)
  have i: "go_index [x] (int (length [x])) 0 = Some x" for x :: byte by (simp add: go_index_def)
  have "ReadHeader rd fresh c = readHeader2 rd fresh c2"
    using c1 [simplified] c2 [simplified] ij by (simp add: ReadHeader_def)
  also have "\<dots> = peek_n ''read v2 rest data: '' rd fresh (int (unat (be_word ?l :: 16 word))) c5 (\<lambda>restBuf c.
             let header = \<lparr>h_Version = Version2, h_Command = command, h_TransportProtocol = tp,
                           h_SourceAddress = zero_addr_port\<rparr>;
                 buffer = Buffer_As restBuf (int (length restBuf));
                 protocolFamily = tp AND maskAddressFamily
             in if command \<noteq> CommandProxy then Some (Inr header, c)
                else if protocolFamily = TransportProtocolIPv4 then do {
                  r \<leftarrow> read_addresses 4 buffer;
                  Some (map_Inr (\<lambda>(source, port).
                    header\<lparr>h_SourceAddress := AddrPortFrom (AddrFrom4 source) port\<rparr>) r, c)
                }
                else if protocolFamily = TransportProtocolIPv6 then do {
                  r \<leftarrow> read_addresses 16 buffer;
                  Some (map_Inr (\<lambda>(source, port).
                    header\<lparr>h_SourceAddress := AddrPortFrom (Addr_Unmap (AddrFrom16 source)) port\<rparr>) r, c)
                }
                else if protocolFamily = TransportProtocolUnix then Some (Inl (ErrText ''unix socket is not supported''), c)
                else Some (Inl (ErrText ''unrecognized transport protocol family''), c))"
    unfolding readHeader2_def using c3 c4 c5 [simplified] m by (simp add: i [simplified] del: One_nat_def) (use known in blast)
  finally show ?thesis
    using v6 unfolding w c6 Let_def by blast
qed

end

lemma As_wf: "buf_wf (Buffer_As xs (int (length xs)))" "buf_bytes (Buffer_As xs (int (length xs))) = xs"
  by (simp_all add: Buffer_As_def buffer_defs)

lemma read_addresses_block:
  assumes "length src = n" "length dst = n" "length q = 2"
  shows "read_addresses n (Buffer_As (src @ dst @ be_bytes 2 port @ q @ tlvs) (int (length (src @ dst @ be_bytes 2 port @ q @ tlvs)))) =
    Some (Inr (src, port))"
proof -
  let ?x = "src @ dst @ be_bytes 2 port @ q @ tlvs"
  from Peek_prefix [OF As_wf, of src "dst @ be_bytes 2 port @ q @ tlvs"] assms(1) obtain b1 where
    b1: "Buffer_Peek (Buffer_As ?x (int (length ?x))) (int n) = Some ((src, None), b1)"
      "buf_wf b1" "buf_bytes b1 = dst @ be_bytes 2 port @ q @ tlvs" by metis
  from Peek_prefix [OF b1(2,3)] assms(2) obtain b2 where
    b2: "Buffer_Peek b1 (int n) = Some ((dst, None), b2)" "buf_wf b2" "buf_bytes b2 = be_bytes 2 port @ q @ tlvs" by metis
  from Peek_prefix [OF b2(2,3)] obtain b3 where
    b3: "Buffer_Peek b2 2 = Some ((be_bytes 2 port, None), b3)" "buf_wf b3" "buf_bytes b3 = q @ tlvs" by auto
  from Peek_prefix [OF b3(2,3)] assms(3) obtain b4 where
    b4: "Buffer_Peek b3 2 = Some ((q, None), b4)" by auto
  show ?thesis using b1(1) b2(1) b3(1) b4 by (simp add: read_addresses_def)
qed

text \<open>One segment in the cache: the identity has been read, the rest of the segment is at hand.\<close>

lemma first_segment:
  assumes "length fresh = CacheSize" "0 < n" "n \<le> length x" "length x \<le> CacheSize"
  shows "\<exists>c1. cc_Peek net_Read fresh (int n) (NewCachedConn (Chunk x # r)) = Some ((take n x, None), c1) \<and>
    cc_conn c1 = r \<and> buf_wf (cc_buf fresh c1) \<and> buf_bytes (cc_buf fresh c1) = drop n x"
proof -
  let ?b = "cc_newbuf fresh"
  have ok: "cache_ok ?b" using assms(1) by simp
  then have wf: "buf_wf ?b" by (simp add: cache_ok_def)
  have free: "buf_free ?b = CacheSize" using assms(1) by (simp add: cc_newbuf_def buffer_defs)
  obtain room where room: "Buffer_FreeBytes ?b = Some room" "length room = CacheSize"
    using Buffer_FreeBytes_wf [OF wf] free by auto
  have nf: "\<not> Buffer_IsFull ?b" using free by (simp add: Buffer_IsFull_free [OF wf] CacheSize_def)
  have c: "0 < CacheSize" by (simp add: CacheSize_def)
  have "ReadAtLeast_loop net_Read CacheSize n [] (Chunk x # r) = Some ((x, None), r)"
    using assms c by (subst ReadAtLeast_loop.simps) (simp add: ReadAtLeast_loop.simps)
  then have "ReadAtLeast net_Read CacheSize n (Chunk x # r) = Some ((x, None), r)"
    using assms by (simp add: ReadAtLeast_def)
  then have f: "Buffer_ReadAtLeastFrom net_Read ?b (Chunk x # r) (int n) = Some ((int (length x), None), Buffer_absorb ?b x, r)"
    using room nf assms(2) by (simp add: Buffer_ReadAtLeastFrom_def)
  have x: "length x \<le> buf_free ?b" using assms(4) free by simp
  note a = buf_append(1,2) [OF wf x]
  have l: "Buffer_Len ?b = 0" by (simp add: cc_newbuf_def Buffer_Len_def)
  have "n \<le> length (buf_bytes (Buffer_absorb ?b x))" using a(2) assms(3) by simp
  then have "cc_Peek net_Read fresh (int n) (NewCachedConn (Chunk x # r)) =
      Some ((take n x, None), \<lparr>cc_conn = r, cc_cache = Some (Buffer_Advance (Buffer_absorb ?b x) (int n))\<rparr>)"
    using f a assms(2) l Buffer_Peek_wf [OF a(1), of "int n"]
    by (simp add: cc_Peek_def NewCachedConn_def cc_buf_def del: length_buf_bytes)
  moreover have "buf_wf (Buffer_Advance (Buffer_absorb ?b x) (int n))" "buf_bytes (Buffer_Advance (Buffer_absorb ?b x) (int n)) = drop n x"
    using buf_advance [OF a(1), of "int n"] a(2) assms(3) by (simp_all del: length_buf_bytes)
  ultimately show ?thesis by (simp add: cc_buf_def)
qed

lemma PeekUntil_at_hand:
  assumes "buf_wf (cc_buf fresh c)" "first_separator (buf_bytes (cc_buf fresh c)) ends = Some (i, e)"
  shows "\<exists>c'. \<forall>cause k. peek_until cause rd fresh ends c k = k (take i (buf_bytes (cc_buf fresh c))) e c'"
  using assms by (simp add: peek_until_def cc_PeekUntil_def PeekUntil_loop.simps) blast

section \<open>Properties\<close>

lemma family_cases:
  assumes "a \<noteq> AddrZero"
  shows "(TransportProtocolStream OR AddressFamilyByAddr a) AND maskAddressFamily = AddressFamilyByAddr a"
    "Addr_Is4 a \<and> AddressFamilyByAddr a = TransportProtocolIPv4 \<or> Addr_Is6 a \<and> AddressFamilyByAddr a = TransportProtocolIPv6"
  using assms by (cases a; simp add: AddressFamilyByAddr_def pp_consts)+

text \<open>The source address as it comes back: an IPv4 address, or an IPv6 address that is not a mapped one.\<close>

definition canonical :: "addr_port \<Rightarrow> addr_port" where
  "canonical p = AddrPortFrom (Addr_WithZone (Addr_Unmap (ap_addr p)) []) (ap_port p)"

text \<open>The header that the outbounds send for a stream connection.\<close>

definition stream_header :: "8 word \<Rightarrow> addr_port \<Rightarrow> pp_header" where
  "stream_header version source =
     \<lparr>h_Version = version, h_Command = CommandProxy,
      h_TransportProtocol = TransportProtocolByNetwork ''tcp'' OR AddressFamilyByAddr (ap_addr source),
      h_SourceAddress = source\<rparr>"

lemma v2_block:
  assumes "Addr_Is4 (ap_addr src) \<and> Addr_Is4 (ap_addr dst) \<or> Addr_Is6 (ap_addr src) \<and> Addr_Is6 (ap_addr dst)"
  shows "length (v2_addresses src dst) = (if Addr_Is4 (ap_addr src) then 12 else 36)"
    "Addr_Is4 (ap_addr src) \<Longrightarrow> read_addresses 4 (Buffer_As (v2_addresses src dst) (int (length (v2_addresses src dst)))) =
       Some (Inr (Addr_AsSlice (ap_addr src), ap_port src))"
    "Addr_Is6 (ap_addr src) \<Longrightarrow> read_addresses 16 (Buffer_As (v2_addresses src dst) (int (length (v2_addresses src dst)))) =
       Some (Inr (Addr_AsSlice (ap_addr src), ap_port src))"
proof -
  let ?s = "Addr_AsSlice (ap_addr src)" and ?d = "Addr_AsSlice (ap_addr dst)"
  have r: "read_addresses n (Buffer_As (v2_addresses src dst) (int (length (v2_addresses src dst)))) = Some (Inr (?s, ap_port src))"
    if "length ?s = n" "length ?d = n" for n
    using read_addresses_block [OF that, of "be_bytes 2 (ap_port dst)" "ap_port src" "[]"] by (simp add: v2_addresses_def)
  have l: "Addr_Is4 a \<Longrightarrow> length (Addr_AsSlice a) = 4" "Addr_Is6 a \<Longrightarrow> length (Addr_AsSlice a) = 16" for a by (cases a; simp)+
  have is46: "\<not> (Addr_Is4 a \<and> Addr_Is6 a)" for a by (cases a) auto
  show "length (v2_addresses src dst) = (if Addr_Is4 (ap_addr src) then 12 else 36)"
    using assms by (cases "ap_addr src"; cases "ap_addr dst") (auto simp: v2_addresses_def)
  show "Addr_Is4 (ap_addr src) \<Longrightarrow> read_addresses 4 (Buffer_As (v2_addresses src dst) (int (length (v2_addresses src dst)))) =
       Some (Inr (Addr_AsSlice (ap_addr src), ap_port src))"
    using assms l r [of 4] is46 by blast
  show "Addr_Is6 (ap_addr src) \<Longrightarrow> read_addresses 16 (Buffer_As (v2_addresses src dst) (int (length (v2_addresses src dst)))) =
       Some (Inr (Addr_AsSlice (ap_addr src), ap_port src))"
    using assms l r [of 16] is46 by blast
qed

lemma Unmap_Addr6: "Addr_Unmap (Addr6 w []) = Addr_WithZone (Addr_Unmap (Addr6 w z)) []"
  by simp

text \<open>Both versions, from any reader.\<close>

context io_reader
begin

lemma view_new:
  assumes "length fresh = CacheSize" "inv s"
  shows "cc_view pending inv fresh (NewCachedConn s) 0 (pending s)"
proof -
  have "buf_wf (cc_newbuf fresh)" "buf_bytes (cc_newbuf fresh) = []" "b_start (cc_newbuf fresh) = 0"
    "b_len (cc_newbuf fresh) = int CacheSize"
    using assms by (simp_all add: cc_newbuf_def buffer_defs)
  then show ?thesis
    using assms by (simp add: cc_view_def cc_ok_def cc_buf_def NewCachedConn_def cc_ahead_def cc_at_def)
qed

lemma v1_sent_and_read:
  assumes "buf_wf b" "buf_bytes b = []" "128 \<le> buf_free b"
    "Addr_IsValid (ap_addr source)" "Addr_IsValid (ap_addr destination)"
  shows "\<exists>bs. WriteHeader stream_writer b (stream_header Version1 source) destination w = Some (None, w @ bs) \<and>
    (\<forall>fresh s rest. length fresh = CacheSize \<longrightarrow> inv s \<longrightarrow> pending s = bs @ rest \<longrightarrow>
       (\<exists>c'. ReadHeader rd fresh (NewCachedConn s) =
           Some (Inr ((stream_header Version1 source)\<lparr>h_SourceAddress := canonical source\<rparr>), c') \<and>
         cc_ahead pending fresh c' = rest))"
proof -
  let ?h = "stream_header Version1 source" and ?f = "AddressFamilyByAddr (ap_addr source)"
  let ?proto = "if ?f = TransportProtocolIPv4 then ''TCP4'' else ''TCP6''"
  let ?bs = "v1_bytes ?proto source destination"
  have nz: "ap_addr source \<noteq> AddrZero" using assms(4) by (simp add: Addr_IsValid_def)
  have tp: "TransportProtocolByNetwork ''tcp'' = TransportProtocolStream" by (simp add: TransportProtocolByNetwork_def)
  have v: "Addr_IsValid (Addr_WithZone (Addr_Unmap (ap_addr p)) [])"
      "\<forall>w z. Addr_WithZone (Addr_Unmap (ap_addr p)) [] = Addr6 w z \<longrightarrow> z = []"
    if "Addr_IsValid (ap_addr p)" for p :: addr_port
    using that by (cases "ap_addr p"; auto simp: Addr_IsValid_def)+
  have l: "length (addr_text (ap_addr p)) \<le> 45" if "Addr_IsValid (ap_addr p)" for p :: addr_port
    using Addr_String_length [OF v [OF that]] by (simp add: addr_text_def)
  have "length ?bs \<le> 128"
    using l [OF assms(4)] l [OF assms(5)] port_text [of "ap_port source"] port_text [of "ap_port destination"]
    by (simp add: v1_bytes_def v1_text_def headerIdentityV1_def CRLF_def)
  then have fits: "length (v1_bytes ?proto (h_SourceAddress ?h) destination) \<le> buf_free b"
    using assms(3) by (simp add: stream_header_def)
  have fam: "h_TransportProtocol ?h AND maskAddressFamily = ?f"
    using family_cases(1) [OF nz] by (simp add: stream_header_def tp)
  have fam': "h_TransportProtocol ?h AND maskAddressFamily \<in> {TransportProtocolIPv4, TransportProtocolIPv6}"
    using fam family_cases(2) [OF nz] by auto
  have wr: "writeHeader1 stream_writer b ?h destination w = Some (None, w @ v1_bytes ?proto (h_SourceAddress ?h) destination)"
    by (rule writeHeader1_sends [OF assms(1,2) fits _ fam']) (simp add: fam)
  have pf: "?proto = ''TCP4'' \<and> ?f = TransportProtocolIPv4 \<or> ?proto = ''TCP6'' \<and> ?f = TransportProtocolIPv6"
    using family_cases(2) [OF nz] by auto
  have "\<exists>c'. ReadHeader rd fresh (NewCachedConn s) = Some (Inr (?h\<lparr>h_SourceAddress := canonical source\<rparr>), c') \<and>
       cc_ahead pending fresh c' = rest"
    if "length fresh = CacheSize" "inv s" "pending s = ?bs @ rest" for fresh s rest
    using view_v1 [OF view_new [OF that(1,2), unfolded that(3)] pf assms(4,5)]
    by (auto simp: stream_header_def tp canonical_def cc_view_def)
  then show ?thesis
    using wr by (intro exI [of _ ?bs]) (simp add: WriteHeader_def stream_header_def)
qed

lemma v2_sent_and_read:
  assumes "buf_wf b" "buf_bytes b = []" "128 \<le> buf_free b"
    "Addr_IsValid (ap_addr source)" "AddrPort_IsValid destination \<longrightarrow> Addr_Is4 (ap_addr destination) = Addr_Is4 (ap_addr source)"
  shows "\<exists>bs. WriteHeader stream_writer b (stream_header Version2 source) destination w = Some (None, w @ bs) \<and>
    (\<forall>fresh s rest. length fresh = CacheSize \<longrightarrow> inv s \<longrightarrow> pending s = bs @ rest \<longrightarrow>
       (\<exists>c'. ReadHeader rd fresh (NewCachedConn s) =
           Some (Inr ((stream_header Version2 source)\<lparr>h_SourceAddress := canonical source\<rparr>), c') \<and>
         cc_ahead pending fresh c' = rest))"
proof -
  let ?h = "stream_header Version2 source" and ?f = "AddressFamilyByAddr (ap_addr source)"
  let ?d = "v2_destination source destination" let ?blk = "v2_addresses source ?d"
  let ?tp = "h_TransportProtocol ?h" let ?bs = "v2_bytes CommandProxy ?tp ?blk"
  have nz: "ap_addr source \<noteq> AddrZero" using assms(4) by (simp add: Addr_IsValid_def)
  have tp: "TransportProtocolByNetwork ''tcp'' = TransportProtocolStream" by (simp add: TransportProtocolByNetwork_def)
  have six: "a \<noteq> AddrZero \<Longrightarrow> Addr_Is6 a = (\<not> Addr_Is4 a)" for a by (cases a) auto
  have fam: "?tp AND maskAddressFamily = ?f" using family_cases(1) [OF nz] by (simp add: stream_header_def tp)
  have dd: "Addr_Is4 (ap_addr ?d) = Addr_Is4 (ap_addr source)" "ap_addr ?d \<noteq> AddrZero"
    using assms(5) by (auto simp: v2_destination_def AddrPort_IsValid_def Addr_IsValid_def AddrPortFrom_def
        IPv4Unspecified_def IPv6Unspecified_def)
  have sd: "Addr_Is4 (ap_addr source) \<and> Addr_Is4 (ap_addr ?d) \<or> Addr_Is6 (ap_addr source) \<and> Addr_Is6 (ap_addr ?d)"
    using dd six [OF nz] six [OF dd(2)] by auto
  have "AddrPort_IsValid destination \<Longrightarrow> Addr_Is6 (ap_addr destination) = (\<not> Addr_Is4 (ap_addr destination))"
    using six [of "ap_addr destination"] by (simp add: AddrPort_IsValid_def Addr_IsValid_def)
  then have cond: "Addr_Is4 (ap_addr (h_SourceAddress ?h)) \<and> (AddrPort_IsValid destination \<longrightarrow> Addr_Is4 (ap_addr destination)) \<and>
       ?tp AND maskAddressFamily = TransportProtocolIPv4 \<or>
     Addr_Is6 (ap_addr (h_SourceAddress ?h)) \<and> (AddrPort_IsValid destination \<longrightarrow> Addr_Is6 (ap_addr destination)) \<and>
       ?tp AND maskAddressFamily = TransportProtocolIPv6"
    using family_cases(2) [OF nz] fam assms(5) six [OF nz] by (auto simp: stream_header_def)
  have wr: "writeHeader2 stream_writer b ?h destination w = Some (None, w @ ?bs)"
    using writeHeader2_sends [OF assms(1,2) _ _ _ cond] assms(3) by (simp add: stream_header_def)
  note blk = v2_block [OF sd]
  have lb: "length ?blk \<le> 4080" using blk(1) by simp
  have src: "AddrPortFrom (AddrFrom4 (Addr_AsSlice (ap_addr source))) (ap_port source) = canonical source"
    if "Addr_Is4 (ap_addr source)" using that by (cases "ap_addr source") (simp_all add: canonical_def)
  have src6: "AddrPortFrom (Addr_Unmap (AddrFrom16 (Addr_AsSlice (ap_addr source)))) (ap_port source) = canonical source"
    if "Addr_Is6 (ap_addr source)"
    using that Unmap_Addr6 by (cases "ap_addr source") (simp_all add: canonical_def)
  have "\<exists>c'. ReadHeader rd fresh (NewCachedConn s) = Some (Inr (?h\<lparr>h_SourceAddress := canonical source\<rparr>), c') \<and>
       cc_ahead pending fresh c' = rest"
    if "length fresh = CacheSize" "inv s" "pending s = ?bs @ rest" for fresh s rest
  proof -
    from view_v2 [OF view_new [OF that(1,2), unfolded that(3)] lb, simplified] obtain c' where
      c': "cc_view pending inv fresh c' (16 + length ?blk) rest" and
      r: "ReadHeader rd fresh (NewCachedConn s) =
        (if ?tp AND maskAddressFamily = TransportProtocolIPv4
         then (do { r \<leftarrow> read_addresses 4 (Buffer_As ?blk (int (length ?blk)));
               Some (map_Inr (\<lambda>(source, port). \<lparr>h_Version = Version2, h_Command = CommandProxy, h_TransportProtocol = ?tp,
                 h_SourceAddress = AddrPortFrom (AddrFrom4 source) port\<rparr>) r, c') })
         else if ?tp AND maskAddressFamily = TransportProtocolIPv6
         then (do { r \<leftarrow> read_addresses 16 (Buffer_As ?blk (int (length ?blk)));
               Some (map_Inr (\<lambda>(source, port). \<lparr>h_Version = Version2, h_Command = CommandProxy, h_TransportProtocol = ?tp,
                 h_SourceAddress = AddrPortFrom (Addr_Unmap (AddrFrom16 source)) port\<rparr>) r, c') })
         else if ?tp AND maskAddressFamily = TransportProtocolUnix then Some (Inl (ErrText ''unix socket is not supported''), c')
         else Some (Inl (ErrText ''unrecognized transport protocol family''), c'))"
      by (auto simp: Let_def)
    have ne: "TransportProtocolIPv4 \<noteq> TransportProtocolIPv6" by (simp add: pp_consts)
    have "ReadHeader rd fresh (NewCachedConn s) = Some (Inr (?h\<lparr>h_SourceAddress := canonical source\<rparr>), c')"
      using family_cases(2) [OF nz] fam r blk(2,3) src src6 ne by (auto simp: stream_header_def)
    then show ?thesis using c' by (auto simp: cc_view_def)
  qed
  then show ?thesis
    using wr by (intro exI [of _ ?bs]) (simp add: WriteHeader_def stream_header_def Version1_def Version2_def)
qed

lemma header_sent_and_handled:
  assumes "buf_wf b" "buf_bytes b = []" "128 \<le> buf_free b" "Addr_IsValid (ap_addr source)"
    "version = Version1 \<and> AddrPort_IsValid destination \<or>
     version = Version2 \<and> (AddrPort_IsValid destination \<longrightarrow> Addr_Is4 (ap_addr destination) = Addr_Is4 (ap_addr source))"
    "length fresh = CacheSize"
  shows "\<exists>bs. WriteHeader stream_writer b (stream_header version source) destination w = Some (None, w @ bs) \<and>
      (\<forall>s rest m. inv s \<longrightarrow> pending s = bs @ rest \<longrightarrow>
        (\<exists>c'. pp_HandleConnection rd fresh (NewCachedConn s) m =
            Some (Inr True, c', m\<lparr>md_SourceAddress := canonical source\<rparr>) \<and> cc_ahead pending fresh c' = rest))"
proof -
  have nz: "ap_addr source \<noteq> AddrZero" using assms(4) by (simp add: Addr_IsValid_def)
  have h: "h_Command (stream_header version source) \<noteq> CommandLocal"
    "h_TransportProtocol (stream_header version source) \<noteq> transportProtocolUnspecified"
    using nz by (cases "ap_addr source"; simp add: stream_header_def TransportProtocolByNetwork_def AddressFamilyByAddr_def pp_consts)+
  have v: "AddrPort_IsValid (canonical source)"
    using nz by (cases "ap_addr source") (simp_all add: canonical_def AddrPortFrom_def AddrPort_IsValid_def Addr_IsValid_def)
  obtain bs where wr: "WriteHeader stream_writer b (stream_header version source) destination w = Some (None, w @ bs)"
    and rd: "\<And>s rest. inv s \<Longrightarrow> pending s = bs @ rest \<Longrightarrow> \<exists>c'. ReadHeader rd fresh (NewCachedConn s) =
           Some (Inr ((stream_header version source)\<lparr>h_SourceAddress := canonical source\<rparr>), c') \<and>
         cc_ahead pending fresh c' = rest"
    using assms(5) v1_sent_and_read [OF assms(1-4), of destination w] v2_sent_and_read [OF assms(1-4), of destination w]
      assms(6) by (auto simp: AddrPort_IsValid_def)
  then show ?thesis using h v by (intro exI [of _ bs]) (fastforce simp: pp_HandleConnection_def)
qed

lemma ReadHeader_local:
  assumes "length fresh = CacheSize" "inv s" "pending s = v2_bytes CommandLocal tp block @ rest" "length block \<le> 4080"
  shows "\<exists>c'. ReadHeader rd fresh (NewCachedConn s) =
      Some (Inr \<lparr>h_Version = Version2, h_Command = CommandLocal, h_TransportProtocol = tp, h_SourceAddress = zero_addr_port\<rparr>, c') \<and>
    cc_ahead pending fresh c' = rest"
proof -
  have "CommandLocal \<noteq> CommandProxy" by (simp add: pp_consts)
  then show ?thesis
    using view_v2 [OF view_new [OF assms(1,2), unfolded assms(3)] assms(4), simplified]
    by (auto simp: cc_view_def)
qed

lemma ReadHeader_other:
  assumes "length fresh = CacheSize" "inv s" "6 \<le> length (pending s)"
    "take 6 (pending s) \<notin> {headerIdentityV1, take 6 headerIdentityV2}"
  shows "\<exists>c'. ReadHeader rd fresh (NewCachedConn s) = Some (Inl ErrNotProxyProtocol, c')"
proof -
  have v: "cc_view pending inv fresh (NewCachedConn s) 0 (take 6 (pending s) @ drop 6 (pending s))"
    using view_new [OF assms(1,2)] by simp
  from view_peek_n [OF v, of 6] assms(3) obtain c' where
    c': "\<And>cause k. peek_n cause rd fresh 6 (NewCachedConn s) k = k (take 6 (pending s)) c'"
    by (auto simp: CacheSize_def)
  then show ?thesis using assms(4) by (simp add: ReadHeader_def)
qed

end

text \<open>(C20)
  The PROXY header an outbound sends is the one the next hop reads: for a client address of either
  family and either version of the protocol, what \<open>WriteHeader\<close> writes is accepted by \<open>ReadHeader\<close>
  over any segmentation of the stream, gives back the version, the command, the transport and the
  client's address and port (a mapped address as IPv4, without a zone), and leaves exactly the bytes
  that follow the header. Version 2 asks that the hop's own address is of the client's family.\<close>

theorem proxy_header_roundtrip:
  assumes "buf_wf b" "buf_bytes b = []" "128 \<le> buf_free b" "Addr_IsValid (ap_addr source)"
    "version = Version1 \<and> AddrPort_IsValid destination \<or>
     version = Version2 \<and> (AddrPort_IsValid destination \<longrightarrow> Addr_Is4 (ap_addr destination) = Addr_Is4 (ap_addr source))"
  shows "\<exists>bs. WriteHeader stream_writer b (stream_header version source) destination w = Some (None, w @ bs) \<and>
    (\<forall>fresh s rest. length fresh = CacheSize \<longrightarrow> net_pending s = bs @ rest \<longrightarrow>
       (\<exists>c'. ReadHeader net_Read fresh (NewCachedConn s) =
           Some (Inr ((stream_header version source)\<lparr>h_SourceAddress := canonical source\<rparr>), c') \<and>
         cc_ahead net_pending fresh c' = rest))"
  using assms(5)
proof
  assume "version = Version1 \<and> AddrPort_IsValid destination"
  then show ?thesis using net.v1_sent_and_read [OF assms(1-4)] by (simp add: AddrPort_IsValid_def)
next
  assume "version = Version2 \<and> (AddrPort_IsValid destination \<longrightarrow> Addr_Is4 (ap_addr destination) = Addr_Is4 (ap_addr source))"
  then show ?thesis using net.v2_sent_and_read [OF assms(1-4)] by blast
qed

theorem proxy_header_roundtrip_witness:
  "\<exists>bs. WriteHeader stream_writer (Buffer_With (replicate 200 0) 200)
      (stream_header Version1 (AddrPortFrom (Addr4 0x01020304) 80)) (AddrPortFrom (Addr6 1 []) 90) [] = Some (None, bs)"
  using proxy_header_roundtrip [of "Buffer_With (replicate 200 0) 200" "AddrPortFrom (Addr4 0x01020304) 80" Version1
      "AddrPortFrom (Addr6 1 []) 90" "[]"]
  by (auto simp: Buffer_With_def buffer_defs AddrPortFrom_def Addr_IsValid_def AddrPort_IsValid_def)

text \<open>A version 2 header cannot be sent over a hop of the other family: when the client's address is
  IPv4 and the local address of the outbound connection is IPv6, or the other way round,
  \<open>WriteHeader\<close> returns an error and sends nothing, so the dial fails (version 1 has no such
  restriction).\<close>

theorem proxy_v2_family_mismatch:
  assumes "buf_wf b" "15 \<le> buf_free b" "Addr_IsValid (ap_addr source)" "AddrPort_IsValid destination"
    "Addr_Is4 (ap_addr destination) \<noteq> Addr_Is4 (ap_addr source)"
  shows "\<exists>e. WriteHeader wr b (stream_header Version2 source) destination w = Some (Some e, w)"
proof -
  have nz: "ap_addr source \<noteq> AddrZero" "ap_addr destination \<noteq> AddrZero"
    using assms(3,4) by (simp_all add: Addr_IsValid_def AddrPort_IsValid_def)
  have tp: "TransportProtocolByNetwork ''tcp'' = TransportProtocolStream" by (simp add: TransportProtocolByNetwork_def)
  have six: "a \<noteq> AddrZero \<Longrightarrow> Addr_Is6 a = (\<not> Addr_Is4 a)" for a by (cases a) auto
  have l0: "length headerIdentityV2 \<le> buf_free b" "length headerIdentityV2 = 12"
    using assms(2) by (simp_all add: headerIdentityV2_def)
  note step = Buffer_Write_fits [OF assms(1) l0(1)] append_next [OF assms(1)]
  have c: "CommandProxy AND maskCommand \<noteq> CommandLocal" "TransportProtocolIPv4 \<noteq> TransportProtocolIPv6" "Version2 \<noteq> Version1"
    by (simp_all add: pp_consts)
  from family_cases(2) [OF nz(1)] show ?thesis
    using family_cases(1) [OF nz(1)] assms(2,4,5) l0 six [OF nz(1)] six [OF nz(2)] c
    by (elim disjE conjE) (simp_all add: WriteHeader_def stream_header_def tp writeHeader2_def step)
qed

theorem proxy_v2_family_mismatch_witness:
  "\<exists>e. WriteHeader stream_writer (Buffer_With (replicate 200 0) 200)
      (stream_header Version2 (AddrPortFrom (Addr4 0x01020304) 80)) (AddrPortFrom (Addr6 1 []) 90) [] = Some (Some e, [])"
  using proxy_v2_family_mismatch [of "Buffer_With (replicate 200 0) 200" "AddrPortFrom (Addr4 0x01020304) 80"
      "AddrPortFrom (Addr6 1 []) 90" stream_writer "[]"]
  by (simp add: Buffer_With_def buffer_defs AddrPortFrom_def Addr_IsValid_def AddrPort_IsValid_def)

text \<open>The PROXY listener replaces the client's address exactly when it is told one: after a header
  sent by \<open>WriteHeader\<close> (either version) the metadata has the original client's address; a version 2
  LOCAL header (a health check), whatever its address block, leaves it alone; a stream that does not
  start with either identity is refused without touching the metadata. In the accepted cases the
  connection continues with the bytes after the header.\<close>

theorem pp_HandleConnection_source:
  assumes "buf_wf b" "buf_bytes b = []" "128 \<le> buf_free b" "Addr_IsValid (ap_addr source)"
    "version = Version1 \<and> AddrPort_IsValid destination \<or>
     version = Version2 \<and> (AddrPort_IsValid destination \<longrightarrow> Addr_Is4 (ap_addr destination) = Addr_Is4 (ap_addr source))"
    "length fresh = CacheSize"
  shows "(\<exists>bs. WriteHeader stream_writer b (stream_header version source) destination [] = Some (None, bs) \<and>
      (\<forall>s rest. net_pending s = bs @ rest \<longrightarrow>
        (\<exists>c'. pp_HandleConnection net_Read fresh (NewCachedConn s) m =
            Some (Inr True, c', m\<lparr>md_SourceAddress := canonical source\<rparr>) \<and> cc_ahead net_pending fresh c' = rest))) \<and>
    (\<forall>s tp block rest. net_pending s = v2_bytes CommandLocal tp block @ rest \<longrightarrow> length block \<le> 4080 \<longrightarrow>
        (\<exists>c'. pp_HandleConnection net_Read fresh (NewCachedConn s) m = Some (Inr False, c', m) \<and>
              cc_ahead net_pending fresh c' = rest)) \<and>
    (\<forall>s. 6 \<le> length (net_pending s) \<longrightarrow> take 6 (net_pending s) \<notin> {headerIdentityV1, take 6 headerIdentityV2} \<longrightarrow>
        (\<exists>e c'. pp_HandleConnection net_Read fresh (NewCachedConn s) m = Some (Inl e, c', m)))"
proof (intro conjI allI impI)
  show "\<exists>bs. WriteHeader stream_writer b (stream_header version source) destination [] = Some (None, bs) \<and>
      (\<forall>s rest. net_pending s = bs @ rest \<longrightarrow>
        (\<exists>c'. pp_HandleConnection net_Read fresh (NewCachedConn s) m =
            Some (Inr True, c', m\<lparr>md_SourceAddress := canonical source\<rparr>) \<and> cc_ahead net_pending fresh c' = rest))"
    using net.header_sent_and_handled [OF assms, of "[]"] by fastforce
next
  fix s tp block rest
  assume "net_pending s = v2_bytes CommandLocal tp block @ rest" "length block \<le> 4080"
  from net.ReadHeader_local [OF assms(6) TrueI this]
  show "\<exists>c'. pp_HandleConnection net_Read fresh (NewCachedConn s) m = Some (Inr False, c', m) \<and>
              cc_ahead net_pending fresh c' = rest"
    by (auto simp: pp_HandleConnection_def)
next
  fix s
  assume "6 \<le> length (net_pending s)" "take 6 (net_pending s) \<notin> {headerIdentityV1, take 6 headerIdentityV2}"
  from net.ReadHeader_other [OF assms(6) TrueI this]
  show "\<exists>e c'. pp_HandleConnection net_Read fresh (NewCachedConn s) m = Some (Inl e, c', m)"
    by (auto simp: pp_HandleConnection_def)
qed

theorem pp_HandleConnection_source_witness:
  "\<forall>m. \<exists>c'. pp_HandleConnection net_Read (replicate 4096 0)
       (NewCachedConn [Chunk (v2_bytes CommandLocal 0 []), Chunk [7]]) m = Some (Inr False, c', m)"
proof
  fix m
  have p: "net_pending [Chunk (v2_bytes CommandLocal 0 []), Chunk [7]] = v2_bytes CommandLocal 0 [] @ [7]" by simp
  let ?b = "Buffer_With (replicate 200 0) 200" and ?s = "AddrPortFrom (Addr4 0x01020304) 80" and ?d = "AddrPortFrom (Addr6 1 []) 90"
  have b: "buf_wf ?b" "buf_bytes ?b = []" "128 \<le> buf_free ?b" "Addr_IsValid (ap_addr ?s)"
    "Version1 = Version1 \<and> AddrPort_IsValid ?d \<or>
     Version1 = Version2 \<and> (AddrPort_IsValid ?d \<longrightarrow> Addr_Is4 (ap_addr ?d) = Addr_Is4 (ap_addr ?s))"
    "length (replicate 4096 (0 :: byte)) = CacheSize"
    by (simp_all add: Buffer_With_def buffer_defs AddrPortFrom_def Addr_IsValid_def AddrPort_IsValid_def CacheSize_def)
  from pp_HandleConnection_source [OF b, of m, THEN conjunct2, THEN conjunct1, rule_format, OF p] 
  show "\<exists>c'. pp_HandleConnection net_Read (replicate 4096 0)
       (NewCachedConn [Chunk (v2_bytes CommandLocal 0 []), Chunk [7]]) m = Some (Inr False, c', m)" by auto
qed

text \<open>A version 1 header without an address (\<open>PROXY UNKNOWN\<close> and the line end) is accepted or refused
  depending on how the network cuts the stream: when it arrives alone it is accepted, but when data
  with a space in it arrives in the same segment, \<open>PeekUntil\<close> finds the space first, takes everything
  up to it for the protocol name, and the connection is refused.\<close>

theorem v1_unknown_depends_on_segments:
  assumes "length fresh = CacheSize" "32 \<in> set d" "length d \<le> 4000"
  shows "(\<exists>c'. ReadHeader net_Read fresh (NewCachedConn (Chunk (headerIdentityV1 @ str_bytes ''UNKNOWN'' @ CRLF) # Chunk d # r)) =
       Some (Inr \<lparr>h_Version = Version1, h_Command = CommandProxy, h_TransportProtocol = transportProtocolUnspecified,
                  h_SourceAddress = zero_addr_port\<rparr>, c')) \<and>
    (\<exists>e c'. ReadHeader net_Read fresh (NewCachedConn (Chunk (headerIdentityV1 @ str_bytes ''UNKNOWN'' @ CRLF @ d) # r)) =
       Some (Inl e, c'))"
proof -
  let ?u = "str_bytes ''UNKNOWN''"
  have l6: "length headerIdentityV1 = 6" by (simp add: headerIdentityV1_def)
  have u: "?u = [0x55, 0x4E, 0x4B, 0x4E, 0x4F, 0x57, 0x4E]" by (simp add: str_bytes_def)
  obtain d1 d2 where d: "d = d1 @ 32 # d2" "32 \<notin> set d1" using split_list_first [OF assms(2)] by blast
  have hd: "ReadHeader net_Read fresh (NewCachedConn (Chunk (headerIdentityV1 @ x) # q)) = readHeader1 net_Read fresh c1"
    if "cc_Peek net_Read fresh 6 (NewCachedConn (Chunk (headerIdentityV1 @ x) # q)) = Some ((headerIdentityV1, None), c1)" for x q c1
    using that by (simp add: ReadHeader_def peek_n_def)
  have seg: "\<exists>c1. cc_Peek net_Read fresh 6 (NewCachedConn (Chunk (headerIdentityV1 @ x) # q)) = Some ((headerIdentityV1, None), c1) \<and>
      buf_wf (cc_buf fresh c1) \<and> buf_bytes (cc_buf fresh c1) = x" if "length x \<le> 4080" for x q
    using first_segment [OF assms(1), of 6 "headerIdentityV1 @ x" q] that l6 by (auto simp: CacheSize_def)
  have s1: "first_separator (?u @ CRLF) [v1Separator, CRLF] = Some (7, CRLF)"
    using bytes_index_crlf [of ?u "[]"] by (simp add: v1Separator_def u CRLF_def)
  have n32: "(32 :: byte) \<notin> set (?u @ CRLF @ d1)" using d(2) by (simp add: u CRLF_def)
  have s2: "first_separator (?u @ CRLF @ d) [v1Separator, CRLF] = Some (9 + length d1, v1Separator)"
    using bytes_index_char [OF n32, of d2] by (simp add: v1Separator_def d(1) u CRLF_def)
  have t: "length (?u @ CRLF) \<le> 4080" "length (?u @ CRLF @ d) \<le> 4080" using assms(3) by (simp_all add: CRLF_def)
  from seg [OF t(1), of "Chunk d # r"] obtain c1 where
    c1: "cc_Peek net_Read fresh 6 (NewCachedConn (Chunk (headerIdentityV1 @ ?u @ CRLF) # Chunk d # r)) = Some ((headerIdentityV1, None), c1)"
      "buf_wf (cc_buf fresh c1)" "buf_bytes (cc_buf fresh c1) = ?u @ CRLF" by auto
  from PeekUntil_at_hand [OF c1(2)] s1 c1(3) obtain c2 where
    c2: "\<And>cause k. peek_until cause net_Read fresh [v1Separator, CRLF] c1 k = k (take 7 (?u @ CRLF)) CRLF c2" by metis
  from seg [OF t(2), of r] obtain c3 where
    c3: "cc_Peek net_Read fresh 6 (NewCachedConn (Chunk (headerIdentityV1 @ ?u @ CRLF @ d) # r)) = Some ((headerIdentityV1, None), c3)"
      "buf_wf (cc_buf fresh c3)" "buf_bytes (cc_buf fresh c3) = ?u @ CRLF @ d" by auto
  from PeekUntil_at_hand [OF c3(2)] s2 c3(3) obtain c4 where
    c4: "\<And>cause k. peek_until cause net_Read fresh [v1Separator, CRLF] c3 k = k (take (9 + length d1) (?u @ CRLF @ d)) v1Separator c4" by metis
  have long: "length (take (9 + length d1) (?u @ CRLF @ d)) \<ge> 9" using d(1) by (simp add: CRLF_def)
  have ne: "take (9 + length d1) (?u @ CRLF @ d) \<notin> {str_bytes ''TCP4'', str_bytes ''TCP6'', ?u}"
  proof
    assume "take (9 + length d1) (?u @ CRLF @ d) \<in> {str_bytes ''TCP4'', str_bytes ''TCP6'', ?u}"
    then have "length (take (9 + length d1) (?u @ CRLF @ d)) \<in> length ` {str_bytes ''TCP4'', str_bytes ''TCP6'', ?u}"
      by (rule imageI)
    also have "\<dots> = {4, 7}" by auto
    finally show False using long by auto
  qed
  have "readHeader1 net_Read fresh c1 = Some (Inr \<lparr>h_Version = Version1, h_Command = CommandProxy,
      h_TransportProtocol = transportProtocolUnspecified, h_SourceAddress = zero_addr_port\<rparr>, c2)"
    by (simp add: readHeader1_def c2 str_bytes_def)
  moreover have "readHeader1 net_Read fresh c3 = Some (Inl (ErrText ''unrecognized v1 protocol type''), c4)"
  proof -
    define x where "x = take (9 + length d1) (?u @ CRLF @ d)"
    show ?thesis using ne c4 unfolding x_def [symmetric] by (simp add: readHeader1_def)
  qed
  ultimately show ?thesis using hd [OF c1(1)] hd [OF c3(1)] by simp
qed

theorem v1_unknown_depends_on_segments_witness:
  "\<exists>e c'. ReadHeader net_Read (replicate 4096 0) (NewCachedConn [Chunk (headerIdentityV1 @ str_bytes ''UNKNOWN'' @ CRLF @ [65, 32])]) =
     Some (Inl e, c')"
  using v1_unknown_depends_on_segments [of "replicate 4096 0" "[65, 32]" "[]"] by (simp add: CacheSize_def)

end
