(* ===== verification/Outbounds.thy ===== *)
theory Outbounds
  imports Config Socks Selector ProxyProtocol
begin

text \<open>
  The outbounds and how they dial (protocol/outbound.go, the dialling half of
  protocol/minecraft/outbound.go, adapter/outbound.go, common/network/system.go).

  Outbounds refer to each other by name; the router's map is the argument \<open>ob\<close>. What opens
  connections is outside: the record \<open>dial_env\<close> has the system's dialer, its SRV lookups, the UDP
  tunnel's dialer, and the two sides of a connection with its local address. A connection that
  an error path closes is dropped from the result.
\<close>

section \<open>State\<close>

datatype dialer =
    SystemDialer "outbound_options option"
  | OutboundDialer string
  | SocksDialer dialer socks_client

record outbound_state =
  os_config :: outbound_config
  os_dialer :: "dialer option"
  os_secret :: bytes
  os_selector :: "selector option"
  os_hostnameAccessLists :: "string_set list"
  os_nameAccessLists :: "string_set list"
  os_onlineCount :: "32 word"

text \<open>The type of an outbound is fixed when it is made.\<close>

datatype outbound = Plain outbound_state | McOutbound outbound_state

definition new_outbound_state :: "outbound_config \<Rightarrow> outbound_state" where
  "new_outbound_state c =
     \<lparr>os_config = c, os_dialer = None, os_secret = [], os_selector = None,
      os_hostnameAccessLists = [], os_nameAccessLists = [], os_onlineCount = 0\<rparr>"

definition mc_NewOutbound :: "outbound_config \<Rightarrow> go_error + outbound" where
  "mc_NewOutbound c =
     (if ob_Minecraft c = None then Inl (ErrText ''not Minecraft outbound config'')
      else Inr (McOutbound (new_outbound_state c)))"

definition protocol_NewOutbound :: "outbound_config option \<Rightarrow> go_error + outbound" where
  "protocol_NewOutbound newConfig =
     (case newConfig of
        None \<Rightarrow> Inl ErrOsInvalid
      | Some c \<Rightarrow> if ob_Minecraft c \<noteq> None then mc_NewOutbound c else Inr (Plain (new_outbound_state c)))"

text \<open>Both kinds of outbound set their secret in the same way.\<close>

definition SetAuthSecret :: "string \<Rightarrow> outbound_state \<Rightarrow> outbound_state" where
  "SetAuthSecret secret st =
     (case auth_Normalize secret of Inl _ \<Rightarrow> st\<lparr>os_secret := []\<rparr> | Inr b \<Rightarrow> st\<lparr>os_secret := b\<rparr>)"

section \<open>Initialization\<close>

text \<open>The names of an outbound, and the dial that outbounds which take connections themselves refuse.\<close>

definition outbound_Name :: "outbound_state \<Rightarrow> string" where
  "outbound_Name st = ob_Name (os_config st)"

definition mc_DialContext :: "go_error + 'conn" where
  "mc_DialContext = Inl ErrInjectionRequired"

text \<open>What \<open>PostInitialize\<close> asks its provider for: whether a name is known, and the lists of tags.\<close>

record provider =
  pv_FindOutboundByName :: "string \<Rightarrow> go_error option"
  pv_FindListsByTag :: "string list \<Rightarrow> go_error + string_set list"

definition socks_types :: "string list" where
  "socks_types = [''socks'', ''socks5'', ''socks4a'', ''socks4'']"

definition choose_dialer :: "provider \<Rightarrow> outbound_config \<Rightarrow> string \<Rightarrow> outbound_state \<Rightarrow> go_error option \<times> outbound_state" where
  "choose_dialer pv c mode st =
     (if ob_Dialer c \<noteq> [] then
        (if ob_SocketOptions c \<noteq> None then (Some (ErrText ''socket options are not available when dialer is specified''), st)
         else if mode = ModeUDP then (Some (ErrText ''nested dialer is not supported with Transport=udp''), st)
         else (case pv_FindOutboundByName pv (ob_Dialer c) of
                 Some e \<Rightarrow> (Some e, st\<lparr>os_dialer := None\<rparr>)
               | None \<Rightarrow> (None, st\<lparr>os_dialer := Some (OutboundDialer (ob_Dialer c))\<rparr>)))
      else (None, st\<lparr>os_dialer := Some (SystemDialer (ob_SocketOptions c))\<rparr>))"

definition wrap_socks :: "outbound_config \<Rightarrow> dialer \<Rightarrow> dialer" where
  "wrap_socks c d =
     (let p = ob_ProxyOptions c in
      if po_Type p \<in> set socks_types
      then SocksDialer d \<lparr>sk_Version = po_Type p, sk_Network = po_Network p, sk_Address = po_Address p,
                          sk_Username = [], sk_Password = [], sk_Methods = []\<rparr>
      else d)"

definition new_selector :: "(string \<Rightarrow> int option) \<Rightarrow> outbound_config \<Rightarrow> string \<Rightarrow> selector" where
  "new_selector ParseDuration c mode =
     sel_New \<lparr>sc_host = ob_TargetAddress c, sc_tcpPort = ob_TargetPort c, sc_udpPort = ob_UDPTargetPort c,
              sc_mode = mode, sc_interval = ProbeInterval ParseDuration c, sc_outbound = ob_Name c\<rparr>"

text \<open>The part of \<open>PostInitialize\<close> that both kinds of outbound have.\<close>

definition post_transport ::
  "(string \<Rightarrow> int option) \<Rightarrow> provider \<Rightarrow> outbound_state \<Rightarrow> go_error option \<times> outbound_state" where
  "post_transport ParseDuration pv st =
     (let c = os_config st; mode = ResolvedTransport c in
      if (mode = ModeUDP \<or> mode = ModeAuto) \<and> po_Type (ob_ProxyOptions c) \<noteq> []
      then (Some (ErrText ''SOCKS proxy options are not supported with UDP/auto transport''), st)
      else if mode = ModeUDP \<and> ob_UDPTargetPort c = 0
      then (Some (ErrText ''Transport=udp requires UDPTargetPort > 0''), st)
      else
        (case choose_dialer pv c mode st of
           (Some e, st) \<Rightarrow> (Some e, st)
         | (None, st) \<Rightarrow>
             if \<not> (ob_ProxyProtocolVersion c \<in> {VersionUnspecified, Version1, Version2})
             then (Some (ErrText (''invalid proxy protocol version: '' @ FormatInt (sint (ob_ProxyProtocolVersion c)))), st)
             else
               let st = st\<lparr>os_dialer := map_option (wrap_socks c) (os_dialer st)\<rparr>;
                   st = st\<lparr>os_selector := None\<rparr>
               in (None,
                   if mode = ModeAuto \<or> mode = ModeUDP \<or> ob_UDPTargetPort c > 0
                   then st\<lparr>os_selector := Some (new_selector ParseDuration c mode)\<rparr> else st)))"

definition plain_PostInitialize ::
  "(string \<Rightarrow> int option) \<Rightarrow> provider \<Rightarrow> outbound_state \<Rightarrow> go_error option \<times> outbound_state" where
  "plain_PostInitialize ParseDuration pv st = post_transport ParseDuration pv st"

definition plain_Reload ::
  "(string \<Rightarrow> int option) \<Rightarrow> provider \<Rightarrow> outbound_config \<Rightarrow> outbound_state \<Rightarrow> go_error option \<times> outbound_state" where
  "plain_Reload ParseDuration pv c st =
     plain_PostInitialize ParseDuration pv (st\<lparr>os_selector := None, os_config := c\<rparr>)"

section \<open>Opening connections\<close>

type_synonym ('s, 'w) conn = "'s \<times> 'w"

record ('s, 'w) dial_env =
  de_system :: "outbound_options option \<Rightarrow> string \<Rightarrow> string \<Rightarrow> go_error + ('s, 'w) conn"
  de_LookupSRV :: "string \<Rightarrow> string \<Rightarrow> string \<Rightarrow> (string \<times> 16 word) list"
  de_tunnel :: "string \<Rightarrow> go_error + ('s, 'w) conn"
  de_local :: "('s, 'w) conn \<Rightarrow> string"
  de_own :: "'s byte_reader option"
  de_Read :: "'s reader"
  de_Write :: "'w writer"
  de_LookupIP :: "string \<Rightarrow> go_error + bytes list"
  de_buf :: buffer

text \<open>\<open>netip.ParseAddrPort\<close>.\<close>

definition ParseAddrPort :: "string \<Rightarrow> go_error + addr_port" where
  "ParseAddrPort s =
     (case last_char (CHR '':'') s of
        None \<Rightarrow> Inl (ErrText ''not an ip:port'')
      | Some i \<Rightarrow>
          let ip = take i s; port = drop (i + 1) s in
          if ip = [] then Inl (ErrText ''no IP'')
          else if port = [] then Inl (ErrText ''no port'')
          else
            let v6 = (hd ip = CHR ''['') in
            if v6 \<and> (length ip < 2 \<or> last ip \<noteq> CHR '']'') then Inl (ErrText ''missing ]'')
            else
              let ip = (if v6 then butlast (tl ip) else ip) in
              (case ParseUint port 16 of
                 Inl _ \<Rightarrow> Inl (ErrText ''invalid port'')
               | Inr p \<Rightarrow>
                   (case ParseAddr ip of
                      None \<Rightarrow> Inl (ErrText ''ParseAddr'')
                    | Some a \<Rightarrow>
                        if v6 \<and> Addr_Is4 a then Inl (ErrText ''square brackets can only be used with IPv6 addresses'')
                        else if \<not> v6 \<and> Addr_Is6 a then Inl (ErrText ''IPv6 addresses must be surrounded by square brackets'')
                        else Inr (AddrPortFrom a (of_nat p)))))"

definition host_port :: "string \<Rightarrow> 16 word \<Rightarrow> string" where
  "host_port host port = JoinHostPort host (dec (unat port))"

text \<open>\<open>DialContextWithSRV\<close>: the targets in turn, then the address itself.\<close>

fun dial_targets ::
  "('s, 'w) dial_env \<Rightarrow> outbound_options option \<Rightarrow> string \<Rightarrow> (string \<times> 16 word) list \<Rightarrow> string \<Rightarrow> go_error + ('s, 'w) conn" where
  "dial_targets env opts network [] address = de_system env opts network address"
| "dial_targets env opts network ((target, port) # rs) address =
     (case de_system env opts network (host_port target port) of
        Inr conn \<Rightarrow> Inr conn
      | Inl _ \<Rightarrow> dial_targets env opts network rs address)"

definition DialContextWithSRV ::
  "('s, 'w) dial_env \<Rightarrow> outbound_options option \<Rightarrow> string \<Rightarrow> string \<Rightarrow> string \<Rightarrow> go_error + ('s, 'w) conn" where
  "DialContextWithSRV env opts network address serviceName =
     (if network \<in> {''tcp'', ''tcp4'', ''tcp6''}
      then dial_targets env opts network (de_LookupSRV env serviceName ''tcp'' (fst (Cut address (CHR '':'')))) address
      else if network \<in> {''udp'', ''udp4'', ''udp6''}
      then dial_targets env opts network (de_LookupSRV env serviceName ''udp'' (fst (Cut address (CHR '':'')))) address
      else Inl (ErrText (''unknown network '' @ network)))"

section \<open>Dialling the next hop\<close>

text \<open>
  \<open>dialTunnel\<close>: the path that is used now, and the address dialled on it. Outbounds with a tunnel
  always dial their fixed next hop.
\<close>

definition current_mode :: "outbound_state \<Rightarrow> string" where
  "current_mode st =
     (let mode = ResolvedTransport (os_config st) in
      case os_selector st of
        Some sel \<Rightarrow> if mode = ModeAuto then sel_Preferred sel else mode
      | None \<Rightarrow> mode)"

definition tunnelHop :: "outbound_config \<Rightarrow> bool" where
  "tunnelHop c \<longleftrightarrow> ob_UDPTargetPort c > 0 \<or> ResolvedTransport c = ModeUDP \<or> ResolvedTransport c = ModeAuto"

datatype target = TunnelTarget string | DialerTarget string

definition dial_target :: "outbound_state \<Rightarrow> metadata \<Rightarrow> go_error + target" where
  "dial_target st m =
     (let c = os_config st; host = ob_TargetAddress c in
      if current_mode st = ModeUDP then
        (if ob_UDPTargetPort c = 0 then Inl (ErrText ''UDP path selected but UDPTargetPort is 0'')
         else Inr (TunnelTarget (host_port host (ob_UDPTargetPort c))))
      else
        let destHost = (if \<not> tunnelHop c \<and> md_DestinationHostname m \<noteq> [] then md_DestinationHostname m else host);
            destPort = (if \<not> tunnelHop c \<and> md_DestinationPort m > 0 then md_DestinationPort m else ob_TargetPort c)
        in Inr (DialerTarget (host_port destHost destPort)))"

text \<open>The first bytes on a new connection: the pre-shared key, then the PROXY protocol header.\<close>

definition send_secret ::
  "('s, 'w) dial_env \<Rightarrow> outbound_state \<Rightarrow> ('s, 'w) conn \<Rightarrow> (go_error + ('s, 'w) conn) option" where
  "send_secret env st conn =
     (if ob_SendAuthSecret (os_config st) then
        (if length (os_secret st) = 0 then Some (Inl (ErrText ''SendAuthSecret set but AuthSecret is empty''))
         else do {
           (err, w) \<leftarrow> auth_Write (de_Write env) (os_secret st) (snd conn);
           Some (case err of Some e \<Rightarrow> Inl (Cause ''failed to write auth secret: '' e) | None \<Rightarrow> Inr (fst conn, w))
         })
      else Some (Inr conn))"

definition send_proxy_header ::
  "('s, 'w) dial_env \<Rightarrow> outbound_config \<Rightarrow> 8 word \<Rightarrow> metadata \<Rightarrow> ('s, 'w) conn \<Rightarrow> (go_error + ('s, 'w) conn) option" where
  "send_proxy_header env c transport m conn =
     (if ob_ProxyProtocolVersion c \<noteq> VersionUnspecified then
        (case ParseAddrPort (de_local env conn) of
           Inl e \<Rightarrow> Some (Inl (Cause ''failed to parse local address: '' e))
         | Inr localAddress \<Rightarrow> do {
             (err, w) \<leftarrow> WriteHeader (de_Write env) (de_buf env)
               \<lparr>h_Version = ob_ProxyProtocolVersion c, h_Command = CommandProxy,
                h_TransportProtocol = transport OR AddressFamilyByAddr (ap_addr (md_SourceAddress m)),
                h_SourceAddress = md_SourceAddress m\<rparr> localAddress (snd conn);
             Some (case err of Some e \<Rightarrow> Inl (Cause ''failed to write PROXY protocol header: '' e) | None \<Rightarrow> Inr (fst conn, w))
           })
      else Some (Inr conn))"

definition send_preamble ::
  "('s, 'w) dial_env \<Rightarrow> outbound_state \<Rightarrow> 8 word \<Rightarrow> metadata \<Rightarrow> go_error + ('s, 'w) conn \<Rightarrow> (go_error + ('s, 'w) conn) option" where
  "send_preamble env st transport m r =
     (case r of
        Inl e \<Rightarrow> Some (Inl e)
      | Inr conn \<Rightarrow> do {
          r \<leftarrow> send_secret env st conn;
          (case r of Inl e \<Rightarrow> Some (Inl e) | Inr conn \<Rightarrow> send_proxy_header env (os_config st) transport m conn)
        })"

text \<open>The outbound that a name stands for; the built-in ones cannot be dialled through.\<close>

definition dialed_outbound :: "(string \<Rightarrow> outbound option) \<Rightarrow> string \<Rightarrow> outbound option" where
  "dialed_outbound ob nm = (if nm \<in> {''REJECT'', ''RESET''} then None else ob nm)"

text \<open>
  Dialling through a dialer, with the metadata (\<open>adapter.DialContextWithMetadata\<close>) or without it
  (\<open>DialContext\<close>). Dialers can refer to each other in a cycle, which nothing checks: a dial may
  not return. A dialer that was never initialized is nil: a panic. Both are \<open>None\<close>.
\<close>

partial_function (option) dial ::
  "('s, 'w) dial_env \<Rightarrow> (string \<Rightarrow> outbound option) \<Rightarrow> bool \<Rightarrow> dialer \<Rightarrow> string \<Rightarrow> string \<Rightarrow> metadata \<Rightarrow>
   (go_error + ('s, 'w) conn) option" where
  "dial env ob withMeta d network address m =
     (case d of
        SystemDialer opts \<Rightarrow>
          Some (case md_SRV m of
            Some service \<Rightarrow>
              if withMeta then DialContextWithSRV env opts network address service else de_system env opts network address
          | None \<Rightarrow> de_system env opts network address)
      | SocksDialer inner c \<Rightarrow>
          Option.bind (dial env ob False inner (sk_Network c) (sk_Address c) m) (\<lambda>r.
            (case r of
               Inl e \<Rightarrow> Some (Inl (ErrText ''socks: fail to dial to SOCKS server''))
             | Inr (s, w) \<Rightarrow>
                 Option.bind (socks_Handshake (de_LookupIP env) (de_own env) (de_Read env) (de_Write env) c address s w)
                   (\<lambda>(err, s, w). Some (case err of Some e \<Rightarrow> Inl e | None \<Rightarrow> Inr (s, w)))))
      | OutboundDialer nm \<Rightarrow>
          (case dialed_outbound ob nm of
             Some (Plain st) \<Rightarrow>
               (if withMeta then
                  (case dial_target st m of
                     Inl e \<Rightarrow> Some (Inl e)
                   | Inr (TunnelTarget a) \<Rightarrow>
                       send_preamble env st (TransportProtocolByNetwork network) m (de_tunnel env a)
                   | Inr (DialerTarget a) \<Rightarrow>
                       Option.bind (os_dialer st) (\<lambda>d'.
                         Option.bind (dial env ob True d' ''tcp'' a m)
                           (send_preamble env st (TransportProtocolByNetwork network) m)))
                else Option.bind (os_dialer st) (\<lambda>d'. dial env ob False d' network address m))
           | _ \<Rightarrow> Some mc_DialContext))"

declare dial.simps [code]

text \<open>The methods of a plain outbound.\<close>

definition plain_DialContext where
  "plain_DialContext env ob st network address m =
     Option.bind (os_dialer st) (\<lambda>d. dial env ob False d network address m)"

definition plain_DialContextWithMetadata ::
  "('s, 'w) dial_env \<Rightarrow> (string \<Rightarrow> outbound option) \<Rightarrow> outbound_state \<Rightarrow> string \<Rightarrow> metadata \<Rightarrow>
   (go_error + ('s, 'w) conn) option" where
  "plain_DialContextWithMetadata env ob st network m =
     (case dial_target st m of
        Inl e \<Rightarrow> Some (Inl e)
      | Inr (TunnelTarget a) \<Rightarrow> send_preamble env st (TransportProtocolByNetwork network) m (de_tunnel env a)
      | Inr (DialerTarget a) \<Rightarrow> do {
          d \<leftarrow> os_dialer st;
          r \<leftarrow> dial env ob True d ''tcp'' a m;
          send_preamble env st (TransportProtocolByNetwork network) m r
        })"

text \<open>\<open>connectServer\<close> of a Minecraft outbound: it fills in the destination in the metadata.\<close>

definition minecraftSRV :: string where "minecraftSRV = ''minecraft''"

definition fill_destination :: "outbound_config \<Rightarrow> metadata \<Rightarrow> metadata" where
  "fill_destination c m =
     (let m = (if md_DestinationHostname m = [] then m\<lparr>md_DestinationHostname := ob_TargetAddress c\<rparr> else m);
          m = (if md_DestinationPort m = 0 then m\<lparr>md_DestinationPort := ob_TargetPort c\<rparr> else m)
      in case ob_Minecraft c of
           Some ms \<Rightarrow> if \<not> ms_IgnoreSRVRedirect ms then m\<lparr>md_SRV := Some minecraftSRV\<rparr> else m
         | None \<Rightarrow> m)"

definition connectServer ::
  "('s, 'w) dial_env \<Rightarrow> (string \<Rightarrow> outbound option) \<Rightarrow> outbound_state \<Rightarrow> metadata \<Rightarrow>
   ((go_error + ('s, 'w) conn) \<times> metadata) option" where
  "connectServer env ob st m =
     (let c = os_config st; m = fill_destination c m; preamble = send_preamble env st TransportProtocolStream m in
      if current_mode st = ModeUDP then
        (if ob_UDPTargetPort c = 0 then Some (Inl (ErrText ''UDP path selected but UDPTargetPort is 0''), m)
         else map_option (\<lambda>r. (r, m)) (preamble (de_tunnel env (host_port (ob_TargetAddress c) (ob_UDPTargetPort c)))))
      else do {
        d \<leftarrow> os_dialer st;
        r \<leftarrow> dial env ob True d ''tcp''
          (if tunnelHop c then host_port (ob_TargetAddress c) (ob_TargetPort c)
           else host_port (md_DestinationHostname m) (md_DestinationPort m)) m;
        map_option (\<lambda>r. (r, m)) (preamble r)
      })"

end
