(* ===== verification/Sockets.thy ===== *)
theory Sockets
  imports Outbounds
begin

text \<open>
  Socket options (common/network/sockopt_linux.go, sockopt_darwin.go, sockopt_freebsd.go,
  sockopt_windows.go, sockopt_other.go, keep_alive_go122.go, keep_alive_go123.go, mptcp.go,
  mptcp_stub.go), and what is built from them: the system's dialer (common/network/system.go) and the
  listener of a service (service/service.go).

  The build tags are the arguments \<open>os\<close> and \<open>go\<close>. The calls to the operating system are requests
  (\<open>sockopt\<close>) that \<open>so_Set\<close> answers; a control function returns its error and the requests that have
  succeeded. \<open>None\<close>, where a dialer or a listener is built, is a panic.
\<close>

section \<open>Requests\<close>

datatype os = Linux | Darwin | FreeBSD | Windows | OtherOS

datatype toolchain = Go120 | Go122 | Go123

datatype sockopt =
    SetsockoptInt string string int
  | SetsockoptString string string string
  | BindToDevice string

record sock_env =
  so_Control :: "go_error option"
  so_Set :: "sockopt \<Rightarrow> go_error option"

type_synonym control = "sock_env \<Rightarrow> string \<Rightarrow> go_error option \<times> sockopt list"

text \<open>A request under a condition; after an error nothing more is requested.\<close>

definition set_when :: "sock_env \<Rightarrow> bool \<Rightarrow> sockopt \<Rightarrow> go_error option \<times> sockopt list \<Rightarrow> go_error option \<times> sockopt list" where
  "set_when env c req r =
     (if fst r \<noteq> None \<or> \<not> c then r
      else (case so_Set env req of Some e \<Rightarrow> (Some e, snd r) | None \<Rightarrow> (None, snd r @ [req])))"

text \<open>\<open>RawConn.Control\<close>: it fails without running the function when the descriptor is closed.\<close>

definition run_control :: "sock_env \<Rightarrow> go_error option \<times> sockopt list \<Rightarrow> go_error option \<times> sockopt list" where
  "run_control env r = (case so_Control env of Some e \<Rightarrow> (Some e, []) | None \<Rightarrow> r)"

section \<open>The control functions\<close>

definition linux_dialer_control :: "outbound_options \<Rightarrow> control" where
  "linux_dialer_control o' env network = run_control env
     (let r = (None, []);
          r = set_when env (oo_Mark o' \<noteq> 0) (SetsockoptInt ''SOL_SOCKET'' ''SO_MARK'' (oo_Mark o')) r;
          r = set_when env (oo_Interface o' \<noteq> []) (BindToDevice (oo_Interface o')) r
      in if HasPrefix network ''tcp'' then
           let r = set_when env (oo_TCPFastOpen o') (SetsockoptInt ''SOL_TCP'' ''TCP_FASTOPEN_CONNECT'' 1) r
           in set_when env (oo_TCPCongestion o' \<noteq> []) (SetsockoptString ''SOL_TCP'' ''TCP_CONGESTION'' (oo_TCPCongestion o')) r
         else r)"

definition linux_listener_control :: "inbound_options \<Rightarrow> control" where
  "linux_listener_control o' env network = run_control env
     (let r = set_when env (io_Mark o' \<noteq> 0) (SetsockoptInt ''SOL_SOCKET'' ''SO_MARK'' (io_Mark o')) (None, [])
      in if HasPrefix network ''tcp'' then
           let r = set_when env (io_TCPFastOpen o') (SetsockoptInt ''SOL_TCP'' ''TCP_FASTOPEN'' 1) r
           in set_when env (io_TCPCongestion o' \<noteq> []) (SetsockoptString ''SOL_TCP'' ''TCP_CONGESTION'' (io_TCPCongestion o')) r
         else r)"

definition freebsd_dialer_control :: "outbound_options \<Rightarrow> control" where
  "freebsd_dialer_control o' env network = run_control env
     (let r = set_when env (oo_Mark o' \<noteq> 0) (SetsockoptInt ''SOL_SOCKET'' ''SO_USER_COOKIE'' (oo_Mark o')) (None, [])
      in if HasPrefix network ''tcp''
         then set_when env (oo_TCPFastOpen o') (SetsockoptInt ''IPPROTO_TCP'' ''TCP_FASTOPEN'' 1) r else r)"

definition freebsd_listener_control :: "inbound_options \<Rightarrow> control" where
  "freebsd_listener_control o' env network = run_control env
     (let r = set_when env (io_Mark o' \<noteq> 0) (SetsockoptInt ''SOL_SOCKET'' ''SO_USER_COOKIE'' (io_Mark o')) (None, [])
      in if HasPrefix network ''tcp''
         then set_when env (io_TCPFastOpen o') (SetsockoptInt ''IPPROTO_TCP'' ''TCP_FASTOPEN'' 1) r else r)"

definition TCP_FASTOPEN_SERVER :: int where "TCP_FASTOPEN_SERVER = 1"

definition TCP_FASTOPEN_CLIENT :: int where "TCP_FASTOPEN_CLIENT = 2"

definition darwin_dialer_control :: "outbound_options \<Rightarrow> control" where
  "darwin_dialer_control o' env network = run_control env
     (if HasPrefix network ''tcp''
      then set_when env (oo_TCPFastOpen o') (SetsockoptInt ''IPPROTO_TCP'' ''TCP_FASTOPEN'' TCP_FASTOPEN_CLIENT) (None, [])
      else (None, []))"

definition darwin_listener_control :: "inbound_options \<Rightarrow> control" where
  "darwin_listener_control o' env network = run_control env
     (if HasPrefix network ''tcp''
      then set_when env (io_TCPFastOpen o') (SetsockoptInt ''IPPROTO_TCP'' ''TCP_FASTOPEN'' TCP_FASTOPEN_SERVER) (None, [])
      else (None, []))"

definition windows_dialer_control :: "outbound_options \<Rightarrow> control" where
  "windows_dialer_control o' env network = run_control env
     (if HasPrefix network ''tcp''
      then set_when env (oo_TCPFastOpen o') (SetsockoptInt ''IPPROTO_TCP'' ''TCP_FASTOPEN'' 1) (None, []) else (None, []))"

definition windows_listener_control :: "inbound_options \<Rightarrow> control" where
  "windows_listener_control o' env network = run_control env
     (if HasPrefix network ''tcp''
      then set_when env (io_TCPFastOpen o') (SetsockoptInt ''IPPROTO_TCP'' ''TCP_FASTOPEN'' 1) (None, []) else (None, []))"

text \<open>\<open>NewDialerControlFromOptions\<close> and \<open>NewListenerControlFromOptions\<close>, of the file the build takes.\<close>

definition NewDialerControlFromOptions :: "os \<Rightarrow> outbound_options option \<Rightarrow> control option" where
  "NewDialerControlFromOptions sys opts =
     (case sys of
        Linux \<Rightarrow> map_option linux_dialer_control opts
      | Darwin \<Rightarrow> map_option darwin_dialer_control opts
      | FreeBSD \<Rightarrow> map_option freebsd_dialer_control opts
      | Windows \<Rightarrow> map_option windows_dialer_control opts
      | OtherOS \<Rightarrow> None)"

definition NewListenerControlFromOptions :: "os \<Rightarrow> inbound_options option \<Rightarrow> control option" where
  "NewListenerControlFromOptions sys opts =
     (case sys of
        Linux \<Rightarrow> map_option linux_listener_control opts
      | Darwin \<Rightarrow> map_option darwin_listener_control opts
      | FreeBSD \<Rightarrow> map_option freebsd_listener_control opts
      | Windows \<Rightarrow> map_option windows_listener_control opts
      | OtherOS \<Rightarrow> None)"

section \<open>Dialers and listeners\<close>

text \<open>
  The fields of \<open>net.Dialer\<close> and \<open>net.ListenConfig\<close> that are set; \<open>nd_LocalAddr\<close> holds the IP of an
  address that was set (\<open>Some None\<close> is one whose IP is nil).
\<close>

record net_dialer =
  nd_Control :: "control option"
  nd_KeepAlive :: int
  nd_KeepAliveConfig :: "bool \<times> keep_alive"
  nd_LocalAddr :: "bytes option option"
  nd_MultipathTCP :: bool

definition no_keep_alive :: "bool \<times> keep_alive" where
  "no_keep_alive = (False, \<lparr>ka_Idle = 0, ka_Interval = 0, ka_Count = 0\<rparr>)"

definition zero_dialer :: net_dialer where
  "zero_dialer = \<lparr>nd_Control = None, nd_KeepAlive = 0, nd_KeepAliveConfig = no_keep_alive, nd_LocalAddr = None,
                  nd_MultipathTCP = False\<rparr>"

text \<open>Before Go 1.23 only the idle time can be set; since then a negative configuration switches keep-alive off.\<close>

definition SetTCPKeepAlive_go122 :: "bool \<times> keep_alive \<Rightarrow> net_dialer \<Rightarrow> net_dialer" where
  "SetTCPKeepAlive_go122 c d = (if fst c then d\<lparr>nd_KeepAlive := ka_Idle (snd c)\<rparr> else d)"

definition SetTCPKeepAlive_go123 :: "bool \<times> keep_alive \<Rightarrow> net_dialer \<Rightarrow> net_dialer" where
  "SetTCPKeepAlive_go123 c d =
     (if ka_Idle (snd c) < 0 \<and> ka_Interval (snd c) < 0 \<and> ka_Count (snd c) < 0 then d\<lparr>nd_KeepAlive := -1\<rparr>
      else if fst c then d\<lparr>nd_KeepAliveConfig := c\<rparr>
      else d)"

definition SetTCPKeepAlive :: "toolchain \<Rightarrow> bool \<times> keep_alive \<Rightarrow> net_dialer \<Rightarrow> net_dialer" where
  "SetTCPKeepAlive go = (if go = Go123 then SetTCPKeepAlive_go123 else SetTCPKeepAlive_go122)"

text \<open>Multipath TCP needs Go 1.21; the stub panics.\<close>

definition SetMultiPathTCP :: "bool \<Rightarrow> net_dialer \<Rightarrow> net_dialer option" where
  "SetMultiPathTCP use d = Some (d\<lparr>nd_MultipathTCP := use\<rparr>)"

definition SetMultiPathTCP_stub :: "bool \<Rightarrow> net_dialer \<Rightarrow> net_dialer option" where
  "SetMultiPathTCP_stub use d = None"

definition use_MultiPathTCP :: "toolchain \<Rightarrow> bool \<Rightarrow> net_dialer \<Rightarrow> net_dialer option" where
  "use_MultiPathTCP go = (if go = Go120 then SetMultiPathTCP_stub else SetMultiPathTCP)"

definition NewSystemDialer :: "os \<Rightarrow> toolchain \<Rightarrow> outbound_options option \<Rightarrow> net_dialer option" where
  "NewSystemDialer sys go opts =
     (case opts of
        None \<Rightarrow> Some zero_dialer
      | Some o' \<Rightarrow>
          let d = zero_dialer\<lparr>nd_Control := NewDialerControlFromOptions sys opts\<rparr>;
              d = SetTCPKeepAlive go (KeepAliveConfig (oo_keepAlive o')) d;
              d = (if oo_SendThrough o' \<noteq> [] then d\<lparr>nd_LocalAddr := Some (ParseIP (oo_SendThrough o'))\<rparr> else d)
          in if oo_MultiPathTCP o' then use_MultiPathTCP go True d else Some d)"

text \<open>The listener of a service (a dialer's record without an address).\<close>

definition new_listen_config :: "os \<Rightarrow> toolchain \<Rightarrow> inbound_options option \<Rightarrow> net_dialer option" where
  "new_listen_config sys go opts =
     (let d = zero_dialer\<lparr>nd_Control := NewListenerControlFromOptions sys opts\<rparr> in
      case opts of
        None \<Rightarrow> Some d
      | Some o' \<Rightarrow>
          let d = SetTCPKeepAlive go (KeepAliveConfig (io_keepAlive o')) d
          in if io_MultiPathTCP o' then use_MultiPathTCP go True d else Some d)"

text \<open>\<open>DialTCPContext\<close> asserts that the connection is one of TCP.\<close>

definition DialTCPContext ::
  "(string \<Rightarrow> string \<Rightarrow> go_error + 'c) \<Rightarrow> ('c \<Rightarrow> bool) \<Rightarrow> string \<Rightarrow> string \<Rightarrow> (go_error + 'c) option" where
  "DialTCPContext DialContext is_tcp network address =
     (case DialContext network address of
        Inl e \<Rightarrow> Some (Inl e)
      | Inr conn \<Rightarrow> if is_tcp conn then Some (Inr conn) else None)"

section \<open>Their specification\<close>

text \<open>
  The requests a configuration asks for, in their order; a control function makes them until one
  fails.
\<close>

fun run_requests :: "(sockopt \<Rightarrow> go_error option) \<Rightarrow> sockopt list \<Rightarrow> go_error option \<times> sockopt list" where
  "run_requests answer [] = (None, [])"
| "run_requests answer (q # qs) =
     (case answer q of
        Some e \<Rightarrow> (Some e, [])
      | None \<Rightarrow> (case run_requests answer qs of (err, ok) \<Rightarrow> (err, q # ok)))"

definition requests_if :: "bool \<Rightarrow> sockopt \<Rightarrow> sockopt list" where
  "requests_if c q = (if c then [q] else [])"

lemma run_requests_append:
  "run_requests answer (xs @ ys) =
     (case run_requests answer xs of (None, ok) \<Rightarrow> map_prod id (\<lambda>l. ok @ l) (run_requests answer ys) | r \<Rightarrow> r)"
  by (induction xs; cases "run_requests answer ys") (auto split: option.splits prod.splits)

lemma set_when_runs:
  "set_when env c q (run_requests (so_Set env) qs) = run_requests (so_Set env) (qs @ requests_if c q)"
  by (cases "run_requests (so_Set env) qs")
    (auto simp: run_requests_append set_when_def requests_if_def split: option.splits)

lemma nothing_requested: "(None, []) = run_requests answer []"
  by simp

definition linux_requests :: "outbound_options \<Rightarrow> string \<Rightarrow> sockopt list" where
  "linux_requests o' network =
     requests_if (oo_Mark o' \<noteq> 0) (SetsockoptInt ''SOL_SOCKET'' ''SO_MARK'' (oo_Mark o')) @
     requests_if (oo_Interface o' \<noteq> []) (BindToDevice (oo_Interface o')) @
     (if HasPrefix network ''tcp''
      then requests_if (oo_TCPFastOpen o') (SetsockoptInt ''SOL_TCP'' ''TCP_FASTOPEN_CONNECT'' 1) @
           requests_if (oo_TCPCongestion o' \<noteq> []) (SetsockoptString ''SOL_TCP'' ''TCP_CONGESTION'' (oo_TCPCongestion o'))
      else [])"

lemma linux_dialer_runs:
  "linux_dialer_control o' env network = run_control env (run_requests (so_Set env) (linux_requests o' network))"
proof -
  let ?run = "run_requests (so_Set env)"
  have "set_when env c1 q1 (None, []) = ?run (requests_if c1 q1)" for c1 q1
    using set_when_runs [of env c1 q1 "[]"] by simp
  then show ?thesis
    unfolding linux_dialer_control_def linux_requests_def Let_def
    by (simp add: set_when_runs)
qed

text \<open>A control function succeeds exactly when every request does, and then has made all of them.\<close>

lemma run_requests_ok: "fst (run_requests answer qs) = None \<longleftrightarrow> (\<forall>q \<in> set qs. answer q = None)"
  by (induction qs) (auto split: option.splits prod.splits)

lemma run_requests_made: "\<exists>rest. qs = snd (run_requests answer qs) @ rest \<and> (fst (run_requests answer qs) = None \<longleftrightarrow> rest = [])"
proof (induction qs)
  case (Cons q qs)
  then show ?case by (cases "answer q"; cases "run_requests answer qs") auto
qed simp

lemma linux_dialer_control_ok:
  "so_Control env = None \<Longrightarrow>
   fst (linux_dialer_control o' env network) = None \<longleftrightarrow> (\<forall>q \<in> set (linux_requests o' network). so_Set env q = None)"
  by (simp add: linux_dialer_runs run_control_def run_requests_ok)

text \<open>Without options nothing is set, and outside Linux the interface and the congestion control are ignored.\<close>

lemma no_options: "NewSystemDialer sys go None = Some zero_dialer" "NewDialerControlFromOptions sys None = None"
  by (simp_all add: NewSystemDialer_def NewDialerControlFromOptions_def split: os.split)

lemma ignored_outside_Linux:
  "sys \<noteq> Linux \<Longrightarrow> NewDialerControlFromOptions sys (Some (o'\<lparr>oo_Interface := i, oo_TCPCongestion := c\<rparr>)) =
     NewDialerControlFromOptions sys (Some o')"
  by (cases sys)
    (auto simp: NewDialerControlFromOptions_def darwin_dialer_control_def freebsd_dialer_control_def
      windows_dialer_control_def fun_eq_iff Let_def)

text \<open>A dialer with multipath TCP is only refused by a toolchain that does not have it.\<close>

lemma NewSystemDialer_builds:
  "NewSystemDialer sys go (Some o') = None \<longleftrightarrow> oo_MultiPathTCP o' \<and> go = Go120"
  by (auto simp: NewSystemDialer_def Let_def use_MultiPathTCP_def SetMultiPathTCP_def SetMultiPathTCP_stub_def)

end
