(* ===== verification/Sniff.thy ===== *)
theory Sniff
  imports CachedConns Packets Metadata
begin

text \<open>
  The sniffers (protocol/sniff.go, protocol/minecraft/sniff.go): they look at the first packets of
  a connection, note what they find in the metadata and put the bytes back.

  Read deadlines show up as \<open>Fail\<close> events of the connection. \<open>logger.Fatal\<close> ends the process: like
  a panic it is \<open>None\<close>. The registry of custom sniffers is a list in the order in which the map is
  ranged over.
\<close>

definition IntentStatus :: "8 word" where "IntentStatus = 1"
definition IntentLogin :: "8 word" where "IntentLogin = 2"
definition IntentTransfer :: "8 word" where "IntentTransfer = 3"

lemmas intents = IntentStatus_def IntentLogin_def IntentTransfer_def

section \<open>The handshake packet\<close>

text \<open>
  The packet is parsed field by field and each field is stored as soon as it is read, so an error
  leaves the earlier ones in the metadata. The result is the error, or the intent, and the metadata.
\<close>

type_synonym 'r sniffed = "((go_error + 'r) \<times> mc_metadata) option"

text \<open>A field: \<open>if err != nil { return common.Cause(cause, err) }\<close>, otherwise go on with it.\<close>

definition sniff_field ::
  "string \<Rightarrow> (('x \<times> go_error option) \<times> buffer) option \<Rightarrow> mc_metadata \<Rightarrow> ('x \<Rightarrow> buffer \<Rightarrow> 'r sniffed) \<Rightarrow> 'r sniffed" where
  "sniff_field cause r mc k = do {
     ((x, err), b) \<leftarrow> r;
     (case err of Some e \<Rightarrow> Some (Inl (Cause cause e), mc) | None \<Rightarrow> k x b)
   }"

definition read_varint :: "buffer \<Rightarrow> ((32 word \<times> go_error option) \<times> buffer) option" where
  "read_varint b = map_option (\<lambda>((n, _, err), b'). ((n, err), b')) (ReadVarIntFrom Buffer_ReadByte b)"

definition parse_handshake :: "bytes \<Rightarrow> mc_metadata \<Rightarrow> byte sniffed" where
  "parse_handshake packetContent mc =
     sniff_field ''read packet ID: '' (Buffer_ReadByte (Buffer_As packetContent (int (length packetContent)))) mc (\<lambda>packetID b.
     (if packetID \<noteq> 0 then Some (Inl ErrBadPacket, mc)
      else sniff_field ''read protocol version: '' (read_varint b) mc (\<lambda>protocolVersion b.
       (if sint protocolVersion \<le> 0 then Some (Inl ErrBadPacket, mc)
        else let mc = mc\<lparr>mm_ProtocolVersion := scast protocolVersion\<rparr> in
         sniff_field ''read destination: '' (ReadString b) (mc\<lparr>mm_OriginDestination := []\<rparr>) (\<lambda>destination b.
          (let mc = mc\<lparr>mm_OriginDestination := destination\<rparr> in
           if destination = [] then Some (Inl ErrBadPacket, mc)
           else sniff_field ''read port: '' (ReadUint16 b) (mc\<lparr>mm_OriginPort := 0\<rparr>) (\<lambda>port b.
            (let mc = mc\<lparr>mm_OriginPort := port\<rparr> in
             if port = 0 then Some (Inl ErrBadPacket, mc)
             else sniff_field ''read next state: '' (Buffer_ReadByte b) mc (\<lambda>intent b.
               (if intent = IntentLogin \<or> intent = IntentStatus \<or> intent = IntentTransfer
                then Some (Inr intent, mc\<lparr>mm_NextState := intent\<rparr>)
                else Some (Inl ErrBadPacket, mc)))))))))))"

section \<open>The login packet\<close>

text \<open>\<open>copy(metadata.Minecraft.UUID[:], buffer.Bytes())\<close>.\<close>

definition copy_uuid :: "buffer \<Rightarrow> mc_metadata \<Rightarrow> mc_metadata option" where
  "copy_uuid b mc = do {
     bs \<leftarrow> Buffer_Bytes b;
     Some (mc\<lparr>mm_UUID := put_at (mm_UUID mc) 0 (take 16 bs)\<rparr>)
   }"

definition parse_uuid :: "byte \<Rightarrow> buffer \<Rightarrow> mc_metadata \<Rightarrow> unit sniffed" where
  "parse_uuid hasUUID b mc =
     (if hasUUID = 1 then map_option (Pair (Inr ())) (copy_uuid b mc) else Some (Inr (), mc))"

text \<open>The signature data of 1.19 to 1.19.2, skipped without any check of the lengths.\<close>

definition skip_signature ::
  "byte \<Rightarrow> buffer \<Rightarrow> mc_metadata \<Rightarrow> (buffer \<Rightarrow> unit sniffed) \<Rightarrow> unit sniffed" where
  "skip_signature hasSigData b mc k =
     (if hasSigData = 1 then
        sniff_field ''read public key length: '' (read_varint (Buffer_Advance b 8)) mc (\<lambda>len b.
          sniff_field ''read signature length: '' (read_varint (Buffer_Advance b (sint len))) mc (\<lambda>len b.
            k (Buffer_Advance b (sint len))))
      else k b)"

definition parse_login :: "bytes \<Rightarrow> mc_metadata \<Rightarrow> unit sniffed" where
  "parse_login packetContent mc =
     sniff_field ''read packet ID: '' (Buffer_ReadByte (Buffer_As packetContent (int (length packetContent)))) mc (\<lambda>packetID b.
     (if packetID \<noteq> 0 then Some (Inl ErrBadPacket, mc)
      else sniff_field ''read player name: '' (ReadLimitedString b 16) (mc\<lparr>mm_PlayerName := []\<rparr>) (\<lambda>nm b.
       (let mc = mc\<lparr>mm_PlayerName := nm\<rparr> in
        if 764 \<le> mm_ProtocolVersion mc then
          (if Buffer_Len b = 16 then map_option (Pair (Inr ())) (copy_uuid b mc) else Some (Inr (), mc))
        else if 761 \<le> mm_ProtocolVersion mc then
          sniff_field ''read has UUID: '' (Buffer_ReadByte b) mc (\<lambda>hasUUID b. parse_uuid hasUUID b mc)
        else if 759 \<le> mm_ProtocolVersion mc then
          sniff_field ''read has sig data: '' (Buffer_ReadByte b) mc (\<lambda>hasSigData b.
            skip_signature hasSigData b mc (\<lambda>b. do {
              ((hasUUID, err), b) \<leftarrow> Buffer_ReadByte b;
              if err \<noteq> None \<and> err \<noteq> Some EOF then Some (Inl (Cause ''read has UUID: '' (the err)), mc)
              else parse_uuid hasUUID b mc
            }))
        else Some (Inr (), mc)))))"

section \<open>The sniffer\<close>

text \<open>\<open>mcprotocol.ReadVarIntFrom(conn)\<close>: the cached connection has no \<open>ReadByte\<close> of its own.\<close>

definition conn_varint ::
  "'s reader \<Rightarrow> bytes \<Rightarrow> 's cconn \<Rightarrow> ((32 word \<times> go_error option) \<times> 's cconn) option" where
  "conn_varint rd fresh c =
     map_option (\<lambda>((n, _, err), c'). ((n, err), c'))
       (ReadVarIntFrom (CreateByteReader None (cc_Read rd fresh)) c)"

definition sniff_packet ::
  "'s reader \<Rightarrow> bytes \<Rightarrow> string \<Rightarrow> int option \<Rightarrow> 's cconn \<Rightarrow> ((go_error + bytes) \<times> 's cconn) option" where
  "sniff_packet rd fresh cause limit c = do {
     ((packetSize, err), c) \<leftarrow> conn_varint rd fresh c;
     (case err of
        Some e \<Rightarrow> Some (Inl (Cause ''read packet size: '' e), c)
      | None \<Rightarrow>
          if (case limit of None \<Rightarrow> False | Some l \<Rightarrow> sint packetSize > l) then Some (Inl ErrBadPacket, c)
          else do {
            ((packetContent, err), c) \<leftarrow> cc_Peek rd fresh (sint packetSize) c;
            Some (case err of Some e \<Rightarrow> (Inl (Cause cause e), c) | None \<Rightarrow> (Inr packetContent, c))
          })
   }"

definition sniff_result ::
  "'s cconn \<Rightarrow> metadata \<Rightarrow> ((go_error + 'r) \<times> mc_metadata) \<Rightarrow> (go_error option \<times> 's cconn \<times> metadata)" where
  "sniff_result c m r = (case fst r of Inl e \<Rightarrow> Some e | Inr _ \<Rightarrow> None, c, m\<lparr>md_Minecraft := Some (snd r)\<rparr>)"

definition SniffClientHandshake ::
  "'s reader \<Rightarrow> bytes \<Rightarrow> 's cconn \<Rightarrow> metadata \<Rightarrow> (go_error option \<times> 's cconn \<times> metadata) option" where
  "SniffClientHandshake rd fresh c m =
     (let mc = (case md_Minecraft m of None \<Rightarrow> new_mc_metadata (-1) | Some mc \<Rightarrow> mc) in do {
        (r, c) \<leftarrow> sniff_packet rd fresh ''read handshake packet: '' (Some 264) c;
        (case r of
           Inl e \<Rightarrow> Some (sniff_result c m (Inl e :: go_error + unit, mc))
         | Inr packetContent \<Rightarrow> do {
             (r, mc) \<leftarrow> parse_handshake packetContent mc;
             (case r of
                Inl e \<Rightarrow> Some (sniff_result c m (Inl e :: go_error + unit, mc))
              | Inr intent \<Rightarrow>
                  let mc = mc\<lparr>mm_SniffPosition := cc_CurrentPosition c\<rparr> in
                  if intent = IntentStatus then do {
                    ((_, err), c) \<leftarrow> cc_Peek rd fresh 2 c;
                    Some (sniff_result c m
                      (case err of Some e \<Rightarrow> Inl (Cause ''read status request: '' e) | None \<Rightarrow> Inr (), mc))
                  } else do {
                    (r, c) \<leftarrow> sniff_packet rd fresh ''read login packet: '' None c;
                    (case r of
                       Inl e \<Rightarrow> Some (sniff_result c m (Inl e :: go_error + unit, mc))
                     | Inr packetContent \<Rightarrow> map_option (sniff_result c m) (parse_login packetContent mc))
                  })
           })
      })"

section \<open>Several protocols\<close>

type_synonym 's sniffer = "'s cconn \<Rightarrow> metadata \<Rightarrow> (go_error option \<times> 's cconn \<times> metadata) option"

definition SniffTypeAll :: string where "SniffTypeAll = ''all''"
definition SniffTypeMinecraft :: string where "SniffTypeMinecraft = ''minecraft''"

fun run_sniffers :: "'s sniffer list \<Rightarrow> 's cconn \<Rightarrow> metadata \<Rightarrow> ('s cconn \<times> metadata) option" where
  "run_sniffers [] c m = Some (c, m)"
| "run_sniffers (f # fs) c m = do { (_, c, m) \<leftarrow> f c m; run_sniffers fs c m }"

definition sniff_minecraft :: "'s reader \<Rightarrow> bytes \<Rightarrow> 's cconn \<Rightarrow> metadata \<Rightarrow> ('s cconn \<times> metadata) option" where
  "sniff_minecraft rd fresh c m =
     (if md_Minecraft m = None then map_option snd (SniffClientHandshake rd fresh c m) else Some (c, m))"

text \<open>The loop over the protocols: \<open>all\<close> runs every sniffer and returns without rewinding.\<close>

fun sniff_loop ::
  "'s reader \<Rightarrow> bytes \<Rightarrow> (string \<times> 's sniffer) list \<Rightarrow> int \<Rightarrow> string list \<Rightarrow> 's cconn \<Rightarrow> metadata \<Rightarrow>
   ('s cconn \<times> metadata) option" where
  "sniff_loop rd fresh reg start [] c m = Some (c, m)"
| "sniff_loop rd fresh reg start (protocol # protocols) c m =
     (if protocol = SniffTypeAll then do {
        (c, m) \<leftarrow> sniff_minecraft rd fresh c m;
        run_sniffers (map snd reg) c m
      }
      else do {
        (c, m) \<leftarrow> (if protocol = SniffTypeMinecraft then sniff_minecraft rd fresh c m
          else (case map_of reg protocol of
                  None \<Rightarrow> None
                | Some f \<Rightarrow> map_option snd (f c m)));
        sniff_loop rd fresh reg start protocols (cc_Rewind start c) m
      })"

definition protocol_Sniff ::
  "'s reader \<Rightarrow> bytes \<Rightarrow> (string \<times> 's sniffer) list \<Rightarrow> string list \<Rightarrow> 's cconn \<Rightarrow> metadata \<Rightarrow>
   ('s cconn \<times> metadata) option" where
  "protocol_Sniff rd fresh reg protocols c m =
     (let startPosition = cc_CurrentPosition c;
          startPosition = (if startPosition < 0 then 0 else startPosition)
      in sniff_loop rd fresh reg startPosition protocols c m)"

end
