(* ===== verification/McOutbound.thy ===== *)
theory McOutbound
  imports Outbounds Sniff
begin

text \<open>
  The Minecraft outbound (protocol/minecraft/outbound.go, motd.go, kick.go): its initialization, the
  messages it makes, and \<open>InjectConnection\<close>, which takes over a client whose handshake has been
  sniffed.

  The record \<open>mc_env\<close> has what the outbound works with: how it dials, the two sides of the client's
  connection and whether it is a TCP connection, the JSON encoder, the clock, the buffers it is given
  and the icon of motd.go. A map is ranged over in the order of its list of entries.
\<close>

section \<open>Initialization\<close>

text \<open>\<open>strings.NewReplacer\<close>: left to right, at each position the first of the pairs that matches.\<close>

fun match_pair :: "(string \<times> string) list \<Rightarrow> string \<Rightarrow> (string \<times> string) option" where
  "match_pair [] s = None"
| "match_pair ((old, new) # ps) s = (if HasPrefix s old then Some (old, new) else match_pair ps s)"

function replace_all :: "(string \<times> string) list \<Rightarrow> string \<Rightarrow> string" where
  "replace_all ps [] = []"
| "replace_all ps (c # s) =
     (case match_pair ps (c # s) of
        Some (old, new) \<Rightarrow> new @ replace_all ps (drop (length old - 1) s)
      | None \<Rightarrow> c # replace_all ps s)"
  by pat_completeness auto
termination by (relation "measure (\<lambda>(ps, s). length s)") auto

definition version_Version :: string where "version_Version = ''3.1.0''"

definition motd_pairs :: "outbound_config \<Rightarrow> (string \<times> string) list" where
  "motd_pairs c =
     [(''{INFO}'', ''ZBProxy '' @ version_Version), (''{NAME}'', ob_Name c), (''{HOST}'', ob_TargetAddress c),
      (''{PORT}'', dec (unat (ob_TargetPort c)))]"

text \<open>The random UUID of a sample player, with its signature, and its text.\<close>

definition sample_uuid :: "nat \<Rightarrow> bytes \<Rightarrow> bytes" where
  "sample_uuid i u = put_at u 0 [of_nat i, 0x24, 0x5A, 0x42, 0x24]"

definition uuid_positions :: "nat list" where
  "uuid_positions = [0, 2, 4, 6, 9, 11, 14, 16, 19, 21, 24, 26, 28, 30, 32, 34]"

definition uuid_template :: string where
  "uuid_template = (replicate 36 (CHR 0x00))[8 := CHR ''-'', 13 := CHR ''-'', 18 := CHR ''-'', 23 := CHR ''-'']"

definition uuid_text :: "bytes \<Rightarrow> string" where
  "uuid_text u =
     fold (\<lambda>(x, c) dst. dst[x := hex_char (unat (drop_bit 4 c)), x + 1 := hex_char (unat (c AND 0x0F))])
       (zip uuid_positions u) uuid_template"

fun convert_map :: "(string \<times> json) list \<Rightarrow> (string \<times> string) list option" where
  "convert_map [] = Some []"
| "convert_map ((uuid, nm) # fs) =
     (case nm of JStr s \<Rightarrow> map_option (\<lambda>l. (s, uuid) # l) (convert_map fs) | _ \<Rightarrow> None)"

fun convert_list :: "(nat \<Rightarrow> bytes) \<Rightarrow> nat \<Rightarrow> json list \<Rightarrow> (string \<times> string) list option" where
  "convert_list rnd i [] = Some []"
| "convert_list rnd i (x # xs) =
     (case x of
        JStr s \<Rightarrow> map_option (\<lambda>l. (s, uuid_text (sample_uuid i (rnd i))) # l) (convert_list rnd (i + 1) xs)
      | _ \<Rightarrow> None)"

text \<open>The conversion of the player samples; a name that is not a string is a failed assertion.\<close>

definition convert_samples :: "(nat \<Rightarrow> bytes) \<Rightarrow> sample option \<Rightarrow> (go_error + sample option) option" where
  "convert_samples rnd samples =
     (case samples of
        None \<Rightarrow> Some (Inr None)
      | Some (RawSample (JObj fs)) \<Rightarrow> map_option (\<lambda>l. Inr (Some (PlayerSamples l))) (convert_map fs)
      | Some (RawSample (JArr xs)) \<Rightarrow> map_option (\<lambda>l. Inr (Some (PlayerSamples l))) (convert_list rnd 0 xs)
      | Some _ \<Rightarrow> Some (Inl (ErrText ''unknown player samples type'')))"

text \<open>The lists of an access rule: loaded unless the mode is the default one.\<close>

definition load_lists :: "provider \<Rightarrow> access_config \<Rightarrow> string_set list \<Rightarrow> go_error + string_set list" where
  "load_lists pv a old =
     (if ac_Mode a \<noteq> DefaultMode then
        (case pv_FindListsByTag pv (ac_ListTags a) of
           Inl e \<Rightarrow> Inl (Cause ''load access control lists: '' e)
         | Inr l \<Rightarrow> Inr l)
      else Inr old)"

definition mc_PostInitialize ::
  "string \<Rightarrow> (nat \<Rightarrow> bytes) \<Rightarrow> (string \<Rightarrow> int option) \<Rightarrow> provider \<Rightarrow> outbound_state \<Rightarrow>
   (go_error option \<times> outbound_state) option" where
  "mc_PostInitialize defaultMOTD rnd ParseDuration pv st = do {
     ms \<leftarrow> ob_Minecraft (os_config st);
     (case load_lists pv (ms_HostnameAccess ms) (os_hostnameAccessLists st) of
        Inl e \<Rightarrow> Some (Some e, st\<lparr>os_hostnameAccessLists := []\<rparr>)
      | Inr hl \<Rightarrow>
          let st = st\<lparr>os_hostnameAccessLists := hl\<rparr> in
          (case load_lists pv (ms_NameAccess ms) (os_nameAccessLists st) of
             Inl e \<Rightarrow> Some (Some e, st\<lparr>os_nameAccessLists := []\<rparr>)
           | Inr nl \<Rightarrow>
               let st = st\<lparr>os_nameAccessLists := nl\<rparr>;
                   ms = (if ms_MotdFavicon ms = ''{DEFAULT_MOTD}'' then ms\<lparr>ms_MotdFavicon := defaultMOTD\<rparr> else ms);
                   ms = ms\<lparr>ms_MotdDescription := replace_all (motd_pairs (os_config st)) (ms_MotdDescription ms)\<rparr>;
                   st = st\<lparr>os_config := (os_config st)\<lparr>ob_Minecraft := Some ms\<rparr>\<rparr>
               in do {
                 r \<leftarrow> convert_samples rnd (oc_Sample (ms_OnlineCount ms));
                 Some (case r of
                     Inl e \<Rightarrow> (Some e, st)
                   | Inr samples \<Rightarrow>
                       post_transport ParseDuration pv
                         (st\<lparr>os_config := (os_config st)\<lparr>ob_Minecraft :=
                            Some (ms\<lparr>ms_OnlineCount := (ms_OnlineCount ms)\<lparr>oc_Sample := samples\<rparr>\<rparr>)\<rparr>\<rparr>))
               }))
   }"

text \<open>\<open>Reload\<close>: a configuration without a Minecraft section is dereferenced all the same.\<close>

definition mc_Reload ::
  "string \<Rightarrow> (nat \<Rightarrow> bytes) \<Rightarrow> (string \<Rightarrow> int option) \<Rightarrow> provider \<Rightarrow> outbound_config \<Rightarrow> outbound_state \<Rightarrow>
   (go_error option \<times> outbound_state) option" where
  "mc_Reload defaultMOTD rnd ParseDuration pv c st =
     mc_PostInitialize defaultMOTD rnd ParseDuration pv
       (st\<lparr>os_selector := None, os_config := c, os_hostnameAccessLists := [], os_nameAccessLists := []\<rparr>)"

section \<open>Messages\<close>

text \<open>\<open>generateMOTD\<close> as a JSON value.\<close>

definition sample_field :: "sample option \<Rightarrow> (string \<times> json) list" where
  "sample_field s =
     (case s of
        None \<Rightarrow> []
      | Some (RawSample j) \<Rightarrow> [(''sample'', j)]
      | Some (PlayerSamples l) \<Rightarrow> [(''sample'', JArr (map (\<lambda>(nm, i). JObj [(''name'', JStr nm), (''id'', JStr i)]) l))])"

definition motd_json :: "64 word \<Rightarrow> mc_service \<Rightarrow> 32 word \<Rightarrow> json" where
  "motd_json protocolVersion ms onlineCount =
     (let oc = ms_OnlineCount ms; online = (if sint (oc_Online oc) < 0 then onlineCount else oc_Online oc)
      in JObj ([(''version'', JObj [(''name'', JStr (''ZBProxy '' @ version_Version)),
                                    (''protocol'', JNum (uint protocolVersion))]),
                (''players'', JObj ([(''max'', JNum (sint (oc_Max oc))), (''online'', JNum (sint online))] @
                                    sample_field (oc_Sample oc))),
                (''description'', JObj (opt_str ''text'' (ms_MotdDescription ms)))] @
               opt_str ''favicon'' (ms_MotdFavicon ms)))"

definition newline :: string where "newline = [CHR 0x0A]"

definition styled :: "bool \<Rightarrow> string \<Rightarrow> string \<Rightarrow> message" where
  "styled bold color t = set_bold bold (set_color color (text_message t))"

text \<open>Both messages of kick.go, which differ in the reason.\<close>

definition kick_message :: "string \<Rightarrow> int \<Rightarrow> outbound_config \<Rightarrow> string \<Rightarrow> message" where
  "kick_message reason now c nm =
     set_color ''white'' (set_extra
       [styled True ''red'' ''ZB'', styled True [] ''Proxy'', text_message '' - '',
        styled True ''gold'' (''Connection Rejected'' @ newline),
        text_message (''Your connection request is refused by ZBProxy.'' @ newline),
        text_message ''Reason: '',
        styled False ''light_purple'' (reason @ newline),
        text_message (''Please contact the Administrators for help.'' @ newline @ newline),
        styled False ''gray''
          (''Timestamp: '' @ FormatInt now @ '' | Player Name: '' @ nm @ '' | Outbound: '' @ ob_Name c @ newline),
        text_message ''GitHub: '',
        set_underlined True (styled False ''aqua'' ''https://github.com/layou233/ZBProxy'')]
       zero_message)"

definition generateKickMessage :: "int \<Rightarrow> outbound_config \<Rightarrow> string \<Rightarrow> message" where
  "generateKickMessage now c nm = kick_message ''You don't have permission to access this service.'' now c nm"

definition generatePlayerNumberLimitExceededMessage :: "int \<Rightarrow> outbound_config \<Rightarrow> string \<Rightarrow> message" where
  "generatePlayerNumberLimitExceededMessage now c nm = kick_message ''Service online player number limitation exceeded.'' now c nm"

section \<open>Taking over a connection\<close>

record ('s, 'w, 'a, 'b) mc_env =
  me_dial :: "('a, 'b) dial_env"
  me_outbounds :: "string \<Rightarrow> outbound option"
  me_Read :: "'s reader"
  me_Write :: "'w writer"
  me_fresh :: bytes
  me_tcp :: bool
  me_render :: "json \<Rightarrow> bytes"
  me_now :: int
  me_buf :: buffer
  me_copybuf :: buffer

datatype inj_event = EvUnlock | EvLinger int | EvCloseClient | EvCloseServer | EvOnline int | EvRelay

text \<open>
  The outcome: the error, what was done to locks, counters and connections in its order, and the two
  connections. The read lock is taken after the two checks of the metadata; \<open>EvUnlock\<close> releases it.
\<close>

record ('s, 'w, 'a, 'b) injected =
  in_err :: "go_error option"
  in_events :: "inj_event list"
  in_client :: "'s cconn"
  in_out :: 'w
  in_server :: "('a, 'b) conn option"
  in_meta :: metadata

definition returns where
  "returns err events c w server m =
     Some \<lparr>in_err = err, in_events = events, in_client = c, in_out = w, in_server = server, in_meta = m\<rparr>"

text \<open>\<open>conn.Conn.(*net.TCPConn).SetLinger(n)\<close>: the assertion fails on a UDP tunnel connection.\<close>

definition with_linger where
  "with_linger env k = (if me_tcp env then k else None)"

definition ignore_err :: "('e \<times> buffer) option \<Rightarrow> buffer option" where
  "ignore_err r = map_option snd r"

definition new_buffer :: "('s, 'w, 'a, 'b) mc_env \<Rightarrow> buffer" where
  "new_buffer env = Buffer_Reset (me_buf env) (int MaxVarIntLen)"

text \<open>A packet with identifier 0 and a JSON text, written as two slices.\<close>

definition send_json_packet ::
  "('s, 'w, 'a, 'b) mc_env \<Rightarrow> bytes \<Rightarrow> buffer \<Rightarrow> 'w \<Rightarrow> (go_error option \<times> buffer \<times> 'w) option" where
  "send_json_packet env msg b w = do {
     b \<leftarrow> ignore_err (Buffer_WriteByte b 0);
     b \<leftarrow> VarInt_WriteToBuffer b (of_nat (length msg));
     WriteVectorizedPacket (me_Write env) b [msg] w
   }"

text \<open>The hostname for the server: rewritten, or the client's own, with the markup of modded clients.\<close>

definition server_hostname :: "outbound_config \<Rightarrow> mc_service \<Rightarrow> mc_metadata \<Rightarrow> string \<times> mc_metadata" where
  "server_hostname c ms mc =
     (let (hostname, mc) =
            (if ms_EnableHostnameRewrite ms
             then (if ms_RewrittenHostname ms = [] then ob_TargetAddress c else ms_RewrittenHostname ms, mc)
             else if mm_RewrittenDestination mc = [] then CleanOriginDestination mc
             else (mm_RewrittenDestination mc, mc))
      in if \<not> ms_IgnoreFMLSuffix ms \<and> IsFML mc
         then (case FMLMarkup mc of (markup, mc) \<Rightarrow> (hostname @ CHR 0x00 # markup, mc))
         else (hostname, mc))"

definition server_port :: "mc_metadata \<Rightarrow> 16 word" where
  "server_port mc = (if mm_RewrittenPort mc = 0 then mm_OriginPort mc else mm_RewrittenPort mc)"

text \<open>The handshake packet for the server, its length in front.\<close>

definition handshake_packet :: "buffer \<Rightarrow> 64 word \<Rightarrow> string \<Rightarrow> 16 word \<Rightarrow> byte \<Rightarrow> buffer option" where
  "handshake_packet b version hostname port intent = do {
     b \<leftarrow> ignore_err (Buffer_WriteByte b 0);
     b \<leftarrow> VarInt_WriteToBuffer b (ucast version);
     b \<leftarrow> ignore_err (pk_WriteString b hostname);
     b \<leftarrow> put_word 2 b port;
     b \<leftarrow> ignore_err (Buffer_WriteByte b intent);
     AppendPacketLength b (Buffer_Len b)
   }"

definition pingModeDisconnect :: string where "pingModeDisconnect = ''disconnect''"
definition pingMode0ms :: string where "pingMode0ms = ''0ms''"

definition set_mc :: "mc_metadata \<Rightarrow> metadata \<Rightarrow> metadata" where
  "set_mc mc m = m\<lparr>md_Minecraft := Some mc\<rparr>"

text \<open>The relay at the end, after the lock is released.\<close>

definition relay where
  "relay env before after conn c w m = do {
     (err, conn, s, w) \<leftarrow> CopyConn (de_Read (me_dial env)) (de_Write (me_dial env)) (me_Read env) (me_Write env)
       (me_copybuf env) (me_copybuf env) (Some conn) c w;
     returns err (before @ [EvRelay] @ after) (NewCachedConn s) w (Some conn) m
   }"

text \<open>The status request is proxied to the server.\<close>

definition proxy_status where
  "proxy_status env st ms c w m = do {
     (r, m) \<leftarrow> connectServer (me_dial env) (me_outbounds env) st m;
     (case r of
        Inl e \<Rightarrow> returns (Some (Cause ''request remote MOTD: '' e)) [EvUnlock] c w None m
      | Inr (sR, wR) \<Rightarrow> do {
          mc \<leftarrow> md_Minecraft m;
          let mc = (if mm_RewrittenDestination mc = []
                    then (case CleanOriginDestination mc of (clean, mc) \<Rightarrow> mc\<lparr>mm_RewrittenDestination := clean\<rparr>) else mc);
          let mc = (if mm_RewrittenPort mc = 0 then mc\<lparr>mm_RewrittenPort := mm_OriginPort mc\<rparr> else mc);
          let (hostname, mc) = server_hostname (os_config st) ms mc;
          b \<leftarrow> handshake_packet (new_buffer env) (mm_ProtocolVersion mc) hostname (server_port mc) IntentStatus;
          b \<leftarrow> ignore_err (Buffer_WriteByte b 1);
          b \<leftarrow> ignore_err (Buffer_WriteByte b 0);
          bs \<leftarrow> Buffer_Bytes b;
          ((_, err), wR) \<leftarrow> de_Write (me_dial env) bs wR;
          (case err of
             Some e \<Rightarrow> returns (Some (Cause ''request remote MOTD: '' e)) [EvUnlock] c w (Some (sR, wR)) (set_mc mc m)
           | None \<Rightarrow> relay env [EvUnlock] [] (sR, wR) c w (set_mc mc m))
        })
   }"

text \<open>The status request is answered here, then the ping by its mode.\<close>

definition answer_status where
  "answer_status env st ms mc c w m = do {
     let motd = me_render env (motd_json (mm_ProtocolVersion mc) ms (os_onlineCount st));
     (err, b, w) \<leftarrow> send_json_packet env motd (new_buffer env) w;
     (case err of
        Some e \<Rightarrow> returns (Some (Cause ''respond MOTD: '' e)) [EvUnlock] c w None m
      | None \<Rightarrow>
          if ms_PingMode ms = pingModeDisconnect then returns None [EvUnlock] c w None m
          else if ms_PingMode ms = pingMode0ms then do {
            b \<leftarrow> ignore_err (Buffer_WriteByte b 1);
            b \<leftarrow> ignore_err (Buffer_WriteZeroN b 8);
            (err, _, w) \<leftarrow> WritePacket (me_Write env) b w;
            returns (map_option (Cause ''respond 0ms ping: '') err) [EvUnlock] c w None m
          }
          else do {
            (err, b, c) \<leftarrow> ReadLimitedPacket None (cc_Read (me_Read env) (me_fresh env)) b 9 c;
            (case err of
               Some e \<Rightarrow> returns (Some (Cause ''read ping request: '' e)) [EvUnlock] c w None m
             | None \<Rightarrow> do {
                 (err, _, w) \<leftarrow> WritePacket (me_Write env) b w;
                 returns (map_option (Cause ''respond ping request: '') err) [EvUnlock] c w None m
               })
          })
   }"

definition handle_status where
  "handle_status env st ms mc c w m = do {
     ((_, err), c) \<leftarrow> cc_Peek (me_Read env) (me_fresh env) 2 c;
     (case err of
        Some e \<Rightarrow> returns (Some (Cause ''skip status request: '' e)) [EvUnlock] c w None m
      | None \<Rightarrow>
          if ms_MotdFavicon ms = [] \<and> ms_MotdDescription ms = []
          then proxy_status env st ms c w m
          else answer_status env st ms mc c w m)
   }"

text \<open>A player is refused with a message.\<close>

definition kick where
  "kick env what msg c w m = do {
     (err, _, w) \<leftarrow> send_json_packet env (me_render env (message_json msg)) (new_buffer env) w;
     (case err of
        Some e \<Rightarrow> returns (Some (Cause what e)) [EvUnlock] c w None m
      | None \<Rightarrow> with_linger env (returns None [EvUnlock, EvLinger 10] c w None m))
   }"

definition forward_login where
  "forward_login env st ms c w m = do {
     (r, m) \<leftarrow> connectServer (me_dial env) (me_outbounds env) st m;
     (case r of
        Inl e \<Rightarrow> returns (Some (Cause ''connect server: '' e)) [EvUnlock] c w None m
      | Inr (sR, wR) \<Rightarrow> do {
          mc \<leftarrow> md_Minecraft m;
          let (hostname, mc) = server_hostname (os_config st) ms mc;
          b \<leftarrow> handshake_packet (new_buffer env) (mm_ProtocolVersion mc) hostname (server_port mc) IntentLogin;
          bs \<leftarrow> Buffer_Bytes b;
          cache \<leftarrow> cc_cache c;
          cached \<leftarrow> Buffer_Bytes cache;
          (err, wR) \<leftarrow> write_buffers (de_Write (me_dial env)) [bs, cached] wR;
          (case err of
             Some e \<Rightarrow> returns (Some (Cause ''server handshake: '' e)) [EvUnlock, EvCloseServer] c w (Some (sR, wR)) (set_mc mc m)
           | None \<Rightarrow>
               relay env [EvUnlock, EvOnline 1] [EvOnline (-1)] (sR, wR)
                 (c\<lparr>cc_cache := Some (Buffer_Advance cache (Buffer_Len cache))\<rparr>) w (set_mc mc m))
        })
   }"

text \<open>Whether an access rule refuses an item; the default mode admits everything.\<close>

definition access_refuses :: "access_config \<Rightarrow> string_set list \<Rightarrow> string \<Rightarrow> bool option" where
  "access_refuses a ls item =
     (if ac_Mode a \<noteq> DefaultMode
      then map_option Not (access_Check ls (ac_Mode a) (if ac_LowerCase a then str_lower item else item))
      else Some False)"

text \<open>The check of the player limit against the counter, both signed.\<close>

definition limit_reached :: "online_count \<Rightarrow> 32 word \<Rightarrow> bool" where
  "limit_reached oc online \<longleftrightarrow> oc_EnableMaxLimit oc \<and> sint (oc_Max oc) \<le> sint online"

declare limit_reached_def [simp]

definition handle_login where
  "handle_login env st ms mc c w m = do {
     refused \<leftarrow> access_refuses (ms_NameAccess ms) (os_nameAccessLists st) (mm_PlayerName mc);
     if refused
     then kick env ''send kick packet: '' (generateKickMessage (me_now env) (os_config st) (mm_PlayerName mc)) c w m
     else if limit_reached (ms_OnlineCount ms) (os_onlineCount st)
     then kick env ''send player number limit exceeded packet: ''
            (generatePlayerNumberLimitExceededMessage (me_now env) (os_config st) (mm_PlayerName mc)) c w m
     else forward_login env st ms c w m
   }"

definition InjectConnection where
  "InjectConnection env st c w m =
     (case md_Minecraft m of
        None \<Rightarrow> returns (Some (ErrText ''require Minecraft metadata'')) [] c w None m
      | Some mc \<Rightarrow>
          if \<not> mm_Valid mc then returns (Some (ErrText ''invalid Minecraft protocol'')) [] c w None m
          else do {
            ms \<leftarrow> ob_Minecraft (os_config st);
            let mc = (if ac_Mode (ms_HostnameAccess ms) \<noteq> DefaultMode then snd (CleanOriginDestination mc) else mc);
            let m = set_mc mc m;
            refused \<leftarrow> access_refuses (ms_HostnameAccess ms) (os_hostnameAccessLists st) (fst (CleanOriginDestination mc));
            if refused
            then with_linger env
              (returns (Some (Cause ''hostname'' ErrRejected)) [EvUnlock, EvLinger 0] c w None m)
            else do {
              let c = (if 0 \<le> mm_SniffPosition mc then cc_Rewind (mm_SniffPosition mc) c else c);
              if mm_NextState mc = IntentStatus then handle_status env st ms mc c w m
              else if mm_NextState mc = IntentLogin then handle_login env st ms mc c w m
              else if mm_NextState mc = IntentTransfer
              then with_linger env (returns None [EvUnlock, EvLinger 0, EvCloseClient] (cc_Release c) w None m)
              else returns (Some (ErrText ''unknown intent'')) [EvUnlock] c w None m
            }
          })"

end
