(* ===== verification/SniffFacts.thy ===== *)
theory SniffFacts
  imports Sniff
begin

text \<open>
  What the Minecraft sniffer finds: a handshake and a login in front of a stream, however the network
  cuts it, are read into the metadata, and the stream is left as it was.
\<close>

section \<open>The packets\<close>

definition handshake_bytes :: "32 word \<Rightarrow> string \<Rightarrow> 16 word \<Rightarrow> byte \<Rightarrow> bytes" where
  "handshake_bytes version host port intent =
     0 # leb128 version @ str_field (str_bytes host) @ be_bytes 2 port @ [intent]"

definition frame :: "bytes \<Rightarrow> bytes" where
  "frame payload = leb128 (of_nat (length payload)) @ payload"

text \<open>The end of a login packet by the version of the protocol, and the UUID that is taken from it.\<close>

definition login_tail :: "64 word \<Rightarrow> bytes \<Rightarrow> bytes \<Rightarrow> bool" where
  "login_tail version uuid tail \<longleftrightarrow> length uuid = 16 \<and>
     (if 764 \<le> version then tail = uuid
      else if 761 \<le> version then tail = 1 # uuid
      else if 759 \<le> version then tail = 0 # 1 # uuid \<or>
        (\<exists>expires key signature. length expires = 8 \<and> length key < 2 ^ 31 \<and> length signature < 2 ^ 31 \<and>
           tail = 1 # expires @ str_field key @ str_field signature @ 1 # uuid)
      else uuid = replicate 16 0)"

definition login_bytes :: "string \<Rightarrow> bytes \<Rightarrow> bytes" where
  "login_bytes nm tail = 0 # str_field (str_bytes nm) @ tail"

section \<open>Parsing\<close>

lemma sniff_field_ok: "r = Some ((x, None), b) \<Longrightarrow> sniff_field cause r mc k = k x b"
  by (simp add: sniff_field_def)

lemma Buffer_As_wf [simp]: "buf_wf (Buffer_As bs (int (length bs)))" "buf_bytes (Buffer_As bs (int (length bs))) = bs"
  by (simp_all add: Buffer_As_def buffer_defs)

lemma first_byte:
  assumes "h = x # rest"
  shows "\<exists>b. Buffer_ReadByte (Buffer_As h (int (length h))) = Some ((x, None), b) \<and> buf_wf b \<and> buf_bytes b = rest"
  using ReadByte_prefix [OF Buffer_As_wf(1), of h x rest] Buffer_As_wf(2) [of h] assms by simp

lemma ReadLimitedString_prefix:
  assumes "buf_wf b" "buf_bytes b = str_field (str_bytes s) @ rest" "s \<noteq> []" "int (length s) \<le> limit" "limit < 2 ^ 31"
  shows "\<exists>b'. ReadLimitedString b limit = Some ((s, None), b') \<and> buf_wf b' \<and> buf_bytes b' = rest"
proof -
  have "length (str_bytes s) < 2 ^ 31" using assms(4,5) by simp
  from str_field_prefix [OF assms(1,2) this] show ?thesis
    using assms(3,4) by (auto simp: ReadLimitedString_def)
qed

lemma read_varint_prefix:
  assumes "buf_wf b" "buf_bytes b = leb128 n @ rest"
  shows "\<exists>b'. read_varint b = Some ((n, None), b') \<and> buf_wf b' \<and> buf_bytes b' = rest"
  using buf_bytes.ReadVarIntFrom_leb128 [OF assms] by (auto simp: read_varint_def)

lemma ReadUint16_prefix:
  assumes "buf_wf b" "buf_bytes b = be_bytes 2 (w :: 16 word) @ rest"
  shows "\<exists>b'. ReadUint16 b = Some ((w, None), b') \<and> buf_wf b' \<and> buf_bytes b' = rest"
  using read_word_prefix [OF assms] by (simp add: ReadUint16_def)

lemma parse_handshake_bytes:
  assumes "0 < sint version" "host \<noteq> []" "length host < 2 ^ 31 - 1" "port \<noteq> 0"
    "intent = IntentLogin \<or> intent = IntentStatus \<or> intent = IntentTransfer"
  shows "parse_handshake (handshake_bytes version host port intent) mc = Some (Inr intent,
     mc\<lparr>mm_ProtocolVersion := scast version, mm_OriginDestination := host, mm_OriginPort := port, mm_NextState := intent\<rparr>)"
proof -
  let ?h = "handshake_bytes version host port intent"
  obtain b1 where b1: "Buffer_ReadByte (Buffer_As ?h (int (length ?h))) = Some ((0, None), b1)" "buf_wf b1"
    "buf_bytes b1 = leb128 version @ str_field (str_bytes host) @ be_bytes 2 port @ [intent]"
    using first_byte [OF handshake_bytes_def] by blast
  obtain b2 where b2: "read_varint b1 = Some ((version, None), b2)" "buf_wf b2"
    "buf_bytes b2 = str_field (str_bytes host) @ be_bytes 2 port @ [intent]"
    using read_varint_prefix [OF b1(2,3)] by auto
  obtain b3 where b3: "ReadString b2 = Some ((host, None), b3)" "buf_wf b3" "buf_bytes b3 = be_bytes 2 port @ [intent]"
    using ReadLimitedString_prefix [OF b2(2,3) assms(2), of "2 ^ 31 - 1"] assms(3) by (auto simp: ReadString_def)
  obtain b4 where b4: "ReadUint16 b3 = Some ((port, None), b4)" "buf_wf b4" "buf_bytes b4 = [intent]"
    using ReadUint16_prefix [OF b3(2,3)] by auto
  obtain b5 where b5: "Buffer_ReadByte b4 = Some ((intent, None), b5)"
    using ReadByte_prefix [OF b4(2,3)] by auto
  show ?thesis
    unfolding parse_handshake_def sniff_field_ok [OF b1(1)] sniff_field_ok [OF b2(1)] Let_def
      sniff_field_ok [OF b3(1)] sniff_field_ok [OF b4(1)] sniff_field_ok [OF b5]
    using assms by (auto simp: not_le)
qed

text \<open>The login packet.\<close>

lemma copy_uuid_bytes:
  "buf_wf b \<Longrightarrow> buf_bytes b = u \<Longrightarrow> length u = 16 \<Longrightarrow> length (mm_UUID mc) = 16 \<Longrightarrow>
   copy_uuid b mc = Some (mc\<lparr>mm_UUID := u\<rparr>)"
  by (simp add: copy_uuid_def put_at_def Buffer_Bytes_wf)

lemma parse_uuid_bytes:
  "buf_wf b \<Longrightarrow> buf_bytes b = u \<Longrightarrow> length u = 16 \<Longrightarrow> length (mm_UUID mc) = 16 \<Longrightarrow>
   parse_uuid 1 b mc = Some (Inr (), mc\<lparr>mm_UUID := u\<rparr>)"
  by (simp add: parse_uuid_def copy_uuid_bytes)

lemma advance_prefix:
  assumes "buf_wf b" "buf_bytes b = xs @ rest"
  shows "buf_wf (Buffer_Advance b (int (length xs)))" "buf_bytes (Buffer_Advance b (int (length xs))) = rest"
  using buf_advance [OF assms(1), of "int (length xs)"] arg_cong [OF assms(2), of length] assms(2) by simp_all

lemma skip_signature_none: "skip_signature 0 b mc k = k b"
  by (simp add: skip_signature_def)

lemma skip_signature_bytes:
  assumes "buf_wf b" "buf_bytes b = expires @ str_field key @ str_field sg @ rest"
    "length expires = 8" "length key < 2 ^ 31" "length sg < 2 ^ 31"
  shows "\<exists>b'. buf_wf b' \<and> buf_bytes b' = rest \<and> (\<forall>k. skip_signature 1 b mc k = k b')"
proof -
  have b1: "buf_wf (Buffer_Advance b 8)" "buf_bytes (Buffer_Advance b 8) = str_field key @ str_field sg @ rest"
    using advance_prefix [OF assms(1,2)] assms(3) by simp_all
  then have "buf_bytes (Buffer_Advance b 8) = leb128 (of_nat (length key)) @ key @ str_field sg @ rest"
    by (simp add: str_field_def)
  from read_varint_prefix [OF b1(1) this] obtain b2 where
    b2: "read_varint (Buffer_Advance b 8) = Some ((of_nat (length key), None), b2)" "buf_wf b2"
      "buf_bytes b2 = key @ str_field sg @ rest" by auto
  have b3: "buf_wf (Buffer_Advance b2 (int (length key)))"
    "buf_bytes (Buffer_Advance b2 (int (length key))) = leb128 (of_nat (length sg)) @ sg @ rest"
    using advance_prefix [OF b2(2,3)] by (simp_all add: str_field_def)
  from read_varint_prefix [OF b3] obtain b4 where
    b4: "read_varint (Buffer_Advance b2 (int (length key))) = Some ((of_nat (length sg), None), b4)" "buf_wf b4"
      "buf_bytes b4 = sg @ rest" by auto
  note b5 = advance_prefix [OF b4(2,3)]
  show ?thesis
    using b5
    by (intro exI [of _ "Buffer_Advance b4 (int (length sg))"])
       (simp add: skip_signature_def sint_of_nat_small [OF assms(4)] sint_of_nat_small [OF assms(5)] sniff_field_def b2(1) b4(1))
qed

lemma parse_login_bytes:
  assumes "nm \<noteq> []" "length nm \<le> 16" "login_tail (mm_ProtocolVersion mc) uuid tail" "mm_UUID mc = replicate 16 0"
  shows "parse_login (login_bytes nm tail) mc = Some (Inr (), mc\<lparr>mm_PlayerName := nm, mm_UUID := uuid\<rparr>)"
proof -
  let ?l = "login_bytes nm tail" let ?v = "mm_ProtocolVersion mc"
  obtain b1 where b1: "Buffer_ReadByte (Buffer_As ?l (int (length ?l))) = Some ((0, None), b1)" "buf_wf b1"
    "buf_bytes b1 = str_field (str_bytes nm) @ tail"
    using first_byte [OF login_bytes_def] by blast
  obtain b2 where b2: "ReadLimitedString b1 16 = Some ((nm, None), b2)" "buf_wf b2" "buf_bytes b2 = tail"
    using ReadLimitedString_prefix [OF b1(2,3) assms(1), of 16] assms(2) by auto
  have len: "length uuid = 16" using assms(3) by (simp add: login_tail_def)
  define mc1 where "mc1 = mc\<lparr>mm_PlayerName := nm\<rparr>"
  have m: "length (mm_UUID mc1) = 16" "mm_ProtocolVersion mc1 = ?v" using assms(4) by (simp_all add: mc1_def)
  have start: "parse_login ?l mc =
       (if 764 \<le> ?v then
          (if Buffer_Len b2 = 16 then map_option (Pair (Inr ())) (copy_uuid b2 mc1) else Some (Inr (), mc1))
        else if 761 \<le> ?v then
          sniff_field ''read has UUID: '' (Buffer_ReadByte b2) mc1 (\<lambda>hasUUID b. parse_uuid hasUUID b mc1)
        else if 759 \<le> ?v then
          sniff_field ''read has sig data: '' (Buffer_ReadByte b2) mc1 (\<lambda>hasSigData b.
            skip_signature hasSigData b mc1 (\<lambda>b. do {
              ((hasUUID, err), b) \<leftarrow> Buffer_ReadByte b;
              if err \<noteq> None \<and> err \<noteq> Some EOF then Some (Inl (Cause ''read has UUID: '' (the err)), mc1)
              else parse_uuid hasUUID b mc1
            }))
        else Some (Inr (), mc1))"
    unfolding parse_login_def sniff_field_ok [OF b1(1)] sniff_field_ok [OF b2(1)] Let_def mc1_def
    by simp
  have res: "mc1\<lparr>mm_UUID := uuid\<rparr> = mc\<lparr>mm_PlayerName := nm, mm_UUID := uuid\<rparr>" by (simp add: mc1_def)
  consider (a) "764 \<le> ?v" | (b) "\<not> 764 \<le> ?v" "761 \<le> ?v" | (c) "\<not> 764 \<le> ?v" "\<not> 761 \<le> ?v" "759 \<le> ?v"
    | (d) "\<not> 764 \<le> ?v" "\<not> 761 \<le> ?v" "\<not> 759 \<le> ?v" by blast
  then show ?thesis
  proof cases
    case a
    then have "buf_bytes b2 = uuid" using assms(3) b2(3) by (simp add: login_tail_def)
    then show ?thesis
      unfolding start using a b2(2) len m copy_uuid_bytes [OF b2(2)]
      by (simp add: Buffer_Len_bytes res del: length_buf_bytes)
  next
    case b
    then have t: "tail = 1 # uuid" using assms(3) by (simp add: login_tail_def)
    obtain b3 where b3: "Buffer_ReadByte b2 = Some ((1, None), b3)" "buf_wf b3" "buf_bytes b3 = uuid"
      using ReadByte_prefix [OF b2(2)] b2(3) t by auto
    show ?thesis unfolding start sniff_field_ok [OF b3(1)]
      using b parse_uuid_bytes [OF b3(2,3) len m(1)] by (simp add: res)
  next
    case c
    have rest: "\<exists>b'. Buffer_ReadByte b = Some ((1, None), b') \<and> parse_uuid 1 b' mc1 = Some (Inr (), mc1\<lparr>mm_UUID := uuid\<rparr>)"
      if "buf_wf b" "buf_bytes b = 1 # uuid" for b
      using ReadByte_prefix [OF that] parse_uuid_bytes len m(1) by blast
    from c assms(3) consider (plain) "tail = 0 # 1 # uuid"
      | (signed) expires key signature where "length expires = 8" "length key < 2 ^ 31" "length signature < 2 ^ 31"
          "tail = 1 # expires @ str_field key @ str_field signature @ 1 # uuid"
      by (auto simp: login_tail_def)
    then show ?thesis
    proof cases
      case plain
      obtain b3 where b3: "Buffer_ReadByte b2 = Some ((0, None), b3)" "buf_wf b3" "buf_bytes b3 = 1 # uuid"
        using ReadByte_prefix [OF b2(2)] b2(3) plain by auto
      from rest [OF b3(2,3)] show ?thesis unfolding start sniff_field_ok [OF b3(1)] skip_signature_none
        using c by (auto simp: res)
    next
      case signed
      obtain b3 where b3: "Buffer_ReadByte b2 = Some ((1, None), b3)" "buf_wf b3"
        "buf_bytes b3 = expires @ str_field key @ str_field signature @ 1 # uuid"
        using ReadByte_prefix [OF b2(2)] b2(3) signed(4) by auto
      from skip_signature_bytes [OF b3(2,3) signed(1-3)] obtain b4 where
        b4: "buf_wf b4" "buf_bytes b4 = 1 # uuid" "\<And>k. skip_signature 1 b3 mc1 k = k b4" by blast
      from rest [OF b4(1,2)] show ?thesis unfolding start sniff_field_ok [OF b3(1)] b4(3)
        using c by (auto simp: res)
    qed
  next
    case d
    then have "uuid = replicate 16 0" using assms(3) by (simp add: login_tail_def)
    then show ?thesis using d assms(4) by (simp add: start mc1_def)
  qed
qed

section \<open>Reading through the cache\<close>

text \<open>What the sniffer needs to know of a cached connection.\<close>

definition cc_filled :: "bytes \<Rightarrow> 's cconn \<Rightarrow> nat" where
  "cc_filled fresh c = cc_at fresh c + length (buf_bytes (cc_buf fresh c))"

definition cc_reads :: "('s \<Rightarrow> bool) \<Rightarrow> ('s \<Rightarrow> bytes) \<Rightarrow> bytes \<Rightarrow> bytes \<Rightarrow> nat \<Rightarrow> 's cconn \<Rightarrow> bool" where
  "cc_reads sok pend fresh S n c \<longleftrightarrow>
     sok (cc_conn c) \<and> cc_ok fresh c \<and> cc_stream pend fresh c = S \<and> cc_at fresh c = n"

lemma cc_reads_new:
  "length fresh = CacheSize \<Longrightarrow> sok s \<Longrightarrow> pend s = S \<Longrightarrow> cc_reads sok pend fresh S 0 (NewCachedConn s)"
  by (simp add: cc_reads_def NewCachedConn_def cc_ok_def cc_buf_def cc_at_def cc_stream_def cc_ahead_def cc_newbuf_def)
     (simp add: cache_ok_def buffer_defs passed_def CacheSize_def)

lemma cc_reads_filled: "cc_reads sok pend fresh S n c \<Longrightarrow> n \<le> cc_filled fresh c"
  by (simp add: cc_reads_def cc_filled_def)

lemma cc_reads_ahead: "cc_reads sok pend fresh S n c \<Longrightarrow> cc_ahead pend fresh c = drop n S"
proof -
  assume v: "cc_reads sok pend fresh S n c"
  then have "length (passed (cc_buf fresh c)) = n"
    by (auto simp: cc_reads_def cc_at_def cc_ok_def cache_ok_bounds(2))
  then show ?thesis using v by (auto simp: cc_reads_def cc_stream_def)
qed

context io_reader
begin

lemma cc_Read_one:
  assumes v: "cc_reads inv pending fresh S n c" and n: "n < length S" "n < CacheSize"
  shows "\<exists>bs c'. cc_Read rd fresh 1 c = Some ((bs, None), c') \<and>
    ((bs = [S ! n] \<and> cc_reads inv pending fresh S (n + 1) c' \<and> cc_cache c' \<noteq> None) \<or>
     (bs = [] \<and> cc_reads inv pending fresh S n c' \<and> rank (cc_conn c') < rank (cc_conn c) \<and>
      (cc_cache c \<noteq> None \<longrightarrow> cc_cache c' \<noteq> None)))"
proof -
  define b where "b = cc_buf fresh c"
  have ok: "cache_ok b" "length fresh = CacheSize" "inv (cc_conn c)" "nat (b_start b) = n"
    using v by (auto simp: cc_reads_def cc_ok_def b_def cc_at_def)
  have wf: "buf_wf b" using ok(1) by (simp add: cache_ok_def)
  have ah: "buf_bytes b @ pending (cc_conn c) = drop n S" using cc_reads_ahead [OF v] by (simp add: cc_ahead_def b_def)
  have hd: "drop n S = S ! n # drop (n + 1) S" using n(1) by (simp add: Cons_nth_drop_Suc)
  have st: "passed b @ drop n S = S" using v by (simp add: cc_reads_def cc_stream_def ah [symmetric] cc_ahead_def b_def)
  show ?thesis
  proof (cases "buf_bytes b = []")
    case False
    then obtain x xs where x: "buf_bytes b = x # xs" by (cases "buf_bytes b") auto
    then have xn: "x = S ! n" "xs @ pending (cc_conn c) = drop (n + 1) S" using ah hd by simp_all
    have cache: "cc_cache c = Some b"
      using False x ok(2) by (cases "cc_cache c") (auto simp: b_def cc_buf_def)
    have len: "1 \<le> length (buf_bytes b)" by (simp add: x del: length_buf_bytes)
    note a = advance_cache [OF ok(1) len]
    have rd1: "Buffer_Read 1 b = Some (([x], None), Buffer_Advance b 1)"
      using Buffer_Read_wf [OF wf, of 1] x by simp
    define c' where "c' = c\<lparr>cc_cache := Some (Buffer_Advance b 1)\<rparr>"
    have "cc_Read rd fresh 1 c = Some (([x], None), c')"
      using rd1 False by (simp add: cc_Read_def cache Buffer_IsEmpty_bytes [OF wf] c'_def)
    moreover have "cc_reads inv pending fresh S (n + 1) c'"
      using a ok x xn st hd by (simp add: cc_reads_def c'_def cc_ok_def cc_buf_def cc_at_def cc_stream_def cc_ahead_def)
    ultimately show ?thesis using xn(1) by (auto simp: c'_def)
  next
    case True
    then have pend: "pending (cc_conn c) = drop n S" using ah by simp
    then have "pending (cc_conn c) \<noteq> []" using hd by simp
    from rd_delivers [OF ok(3) zero_less_one this] obtain bs s' where
      r: "rd 1 (cc_conn c) = Some ((bs, None), s')" "pending (cc_conn c) = bs @ pending s'" "inv s'" "length bs \<le> 1"
        "rank s' < rank (cc_conn c) \<or> length bs = 1" by blast
    have free: "1 \<le> buf_free b" using cache_ok_bounds(1) [OF ok(1)] True ok(4) n(2) by simp
    have empty: "cc_cache c = Some b \<Longrightarrow> Buffer_IsEmpty b" using Buffer_IsEmpty_bytes [OF wf] True by simp
    show ?thesis
    proof (cases bs)
      case Nil
      define c' where "c' = c\<lparr>cc_conn := s'\<rparr>"
      have "cc_Read rd fresh 1 c = Some (([], None), c')"
        using r(1) Nil empty by (cases "cc_cache c") (simp_all add: cc_Read_def c'_def b_def cc_buf_def)
      moreover have "cc_reads inv pending fresh S n c'"
        using v r(2,3) Nil by (simp add: cc_reads_def c'_def cc_ok_def cc_buf_def cc_at_def cc_stream_def cc_ahead_def)
      ultimately show ?thesis using r(5) Nil by (auto simp: c'_def)
    next
      case (Cons x xs)
      then have bs: "bs = [x]" using r(4) by simp
      then have xn: "x = S ! n" "pending s' = drop (n + 1) S" using r(2) pend hd by simp_all
      note ab = absorb_cache [OF ok(1), of "[x]"]
      have free': "length [x] \<le> buf_free b" using free by simp
      have len: "1 \<le> length (buf_bytes (Buffer_absorb b [x]))"
        by (simp add: ab(2) [OF free'] del: length_buf_bytes)
      note adv = advance_cache [OF ab(1) [OF free'] len]
      have wr: "Buffer_Write b [x] = Some ((1, None), Buffer_absorb b [x])"
        using Buffer_Write_fits [OF wf free'] by simp
      define c' where "c' = \<lparr>cc_conn = s', cc_cache = Some (Buffer_Advance (Buffer_absorb b [x]) 1)\<rparr>"
      have "cc_Read rd fresh 1 c = Some (([x], None), c')"
        using r(1) bs wr empty by (cases "cc_cache c") (simp_all add: cc_Read_def c'_def b_def cc_buf_def)
      moreover have "cc_reads inv pending fresh S (n + 1) c'"
        using adv ok r(3) xn st hd True ab(2,3,4) [OF free']
        by (simp add: cc_reads_def c'_def cc_ok_def cc_buf_def cc_at_def cc_stream_def cc_ahead_def)
      ultimately show ?thesis using xn(1) by (auto simp: c'_def)
    qed
  qed
qed

lemma cc_ReadByte_view:
  "cc_reads inv pending fresh S n c \<Longrightarrow> n < length S \<Longrightarrow> n < CacheSize \<Longrightarrow>
   \<exists>c'. ByteReaderWrapper (cc_Read rd fresh) c = Some ((S ! n, None), c') \<and>
        cc_reads inv pending fresh S (n + 1) c' \<and> cc_cache c' \<noteq> None"
proof (induction "rank (cc_conn c)" arbitrary: c rule: less_induct)
  case less
  from cc_Read_one [OF less.prems] obtain bs c' where
    r: "cc_Read rd fresh 1 c = Some ((bs, None), c')" and cs:
    "(bs = [S ! n] \<and> cc_reads inv pending fresh S (n + 1) c' \<and> cc_cache c' \<noteq> None) \<or>
     (bs = [] \<and> cc_reads inv pending fresh S n c' \<and> rank (cc_conn c') < rank (cc_conn c))" by blast
  from cs show ?case
  proof
    assume "bs = [S ! n] \<and> cc_reads inv pending fresh S (n + 1) c' \<and> cc_cache c' \<noteq> None"
    then show ?thesis
      using r by (auto simp: ByteReaderWrapper_def ReadFull_def ReadAtLeast_def ReadAtLeast_loop.simps)
  next
    assume h: "bs = [] \<and> cc_reads inv pending fresh S n c' \<and> rank (cc_conn c') < rank (cc_conn c)"
    have "ReadAtLeast_loop (cc_Read rd fresh) 1 1 [] c = ReadAtLeast_loop (cc_Read rd fresh) 1 1 [] c'"
      using r h by (subst ReadAtLeast_loop.simps) simp
    then have "ByteReaderWrapper (cc_Read rd fresh) c = ByteReaderWrapper (cc_Read rd fresh) c'"
      by (simp add: ByteReaderWrapper_def ReadFull_def ReadAtLeast_def)
    then show ?thesis using less.hyps [of c'] h less.prems(2,3) by simp
  qed
qed

text \<open>Reading bytes up to position \<open>m\<close> of the stream, as a byte source.\<close>

lemma cached_source:
  "byte_source (ByteReaderWrapper (cc_Read rd fresh)) (\<lambda>c. drop (cc_at fresh c) (take m S))
     (\<lambda>c. \<exists>n \<le> m. m \<le> length S \<and> m \<le> CacheSize \<and> cc_reads inv pending fresh S n c)"
proof
  fix c b rest
  assume h: "\<exists>n \<le> m. m \<le> length S \<and> m \<le> CacheSize \<and> cc_reads inv pending fresh S n c" "drop (cc_at fresh c) (take m S) = b # rest"
  then obtain n where n: "n \<le> m" "m \<le> length S" "m \<le> CacheSize" "cc_reads inv pending fresh S n c" "cc_at fresh c = n"
    by (auto simp: cc_reads_def)
  then have lt: "n < m" using h(2) by (cases "n < m") auto
  then have b: "b = S ! n" "rest = drop (n + 1) (take m S)"
    using h(2) n Cons_nth_drop_Suc [of n "take m S"] by simp_all
  from cc_ReadByte_view [OF n(4)] lt n(2,3) obtain c' where
    "ByteReaderWrapper (cc_Read rd fresh) c = Some ((S ! n, None), c')" "cc_reads inv pending fresh S (n + 1) c'" by auto
  then show "\<exists>s'. ByteReaderWrapper (cc_Read rd fresh) c = Some ((b, None), s') \<and> drop (cc_at fresh s') (take m S) = rest \<and>
      (\<exists>n \<le> m. m \<le> length S \<and> m \<le> CacheSize \<and> cc_reads inv pending fresh S n s')"
    using b lt n(2,3) by (intro exI conjI) (auto simp: cc_reads_def)
qed

lemma conn_varint_view:
  assumes v: "cc_reads inv pending fresh S n c" and S: "S = xs @ leb128 k @ rest" "length xs = n"
    and room: "n + length (leb128 k) \<le> CacheSize"
  shows "\<exists>c'. conn_varint rd fresh c = Some ((k, None), c') \<and> cc_reads inv pending fresh S (n + length (leb128 k)) c'"
proof -
  let ?m = "n + length (leb128 k)"
  have src: "drop (cc_at fresh c) (take ?m S) = leb128 k @ []" using v S by (simp add: cc_reads_def)
  have "\<exists>n \<le> ?m. ?m \<le> length S \<and> ?m \<le> CacheSize \<and> cc_reads inv pending fresh S n c"
    using v S room by (intro exI [of _ n]) simp
  from byte_source.ReadVarIntFrom_leb128 [OF cached_source this src] obtain c' n' where
    c': "ReadVarIntFrom (ByteReaderWrapper (cc_Read rd fresh)) c = Some ((k, length (leb128 k), None), c')"
      "drop (cc_at fresh c') (take ?m S) = []" "n' \<le> ?m" "cc_reads inv pending fresh S n' c'" by blast
  then have "n' = ?m" using S by (auto simp: cc_reads_def)
  then show ?thesis using c' by (simp add: conn_varint_def CreateByteReader_def)
qed

lemma sniff_packet_view:
  assumes v: "cc_reads inv pending fresh S n c" and S: "S = xs @ frame p @ rest" "length xs = n"
    and room: "n + length (frame p) \<le> CacheSize" and limit: "limit = None \<or> (\<exists>l. limit = Some l \<and> int (length p) \<le> l)"
  shows "\<exists>c'. sniff_packet rd fresh cause limit c = Some (Inr p, c') \<and>
    cc_reads inv pending fresh S (n + length (frame p)) c' \<and> cc_cache c' \<noteq> None"
proof -
  let ?k = "of_nat (length p) :: 32 word"
  have p: "length p \<le> CacheSize" using room by (simp add: frame_def)
  then have k: "sint ?k = int (length p)" by (intro sint_of_nat_small) (simp add: CacheSize_def)
  have f: "frame p = leb128 ?k @ p" by (simp add: frame_def)
  have S1: "S = xs @ leb128 ?k @ p @ rest" using S by (simp add: f)
  from conn_varint_view [OF v S1 S(2)] room obtain c1 where
    c1: "conn_varint rd fresh c = Some ((?k, None), c1)" "cc_reads inv pending fresh S (n + length (leb128 ?k)) c1"
    by (auto simp: f)
  have ah: "cc_ahead pending fresh c1 = p @ rest" using cc_reads_ahead [OF c1(2)] S(2) by (simp add: S1)
  have "inv (cc_conn c1)" "cc_ok fresh c1" "cc_at fresh c1 = n + length (leb128 ?k)" "cc_stream pending fresh c1 = S"
    using c1(2) by (simp_all add: cc_reads_def)
  with cc_Peek_stream [of c1 fresh "length p"] room ah obtain c2 where
    c2: "cc_Peek rd fresh (int (length p)) c1 = Some ((p, None), c2)"
      "cc_reads inv pending fresh S (n + length (leb128 ?k) + length p) c2" "cc_cache c2 \<noteq> None"
    by (auto simp: f cc_reads_def)
  show ?thesis
    using c1(1) c2 k limit by (intro exI [of _ c2]) (auto simp: sniff_packet_def f add.assoc split: option.splits)
qed

text \<open>\<open>Rewind\<close> goes to any position of what is cached, backwards or forwards.\<close>

lemma cc_Rewind_view:
  assumes v: "cc_reads inv pending fresh S n c" "cc_cache c \<noteq> None" and p: "p \<le> cc_filled fresh c"
  shows "cc_reads inv pending fresh S p (cc_Rewind (int p) c) \<and> cc_cache (cc_Rewind (int p) c) \<noteq> None \<and>
    cc_filled fresh (cc_Rewind (int p) c) = cc_filled fresh c"
proof -
  obtain b where b: "cc_cache c = Some b" using v(2) by auto
  have ok: "cache_ok b" "length fresh = CacheSize" using v(1) by (simp_all add: cc_reads_def cc_ok_def cc_buf_def b)
  have e: "0 \<le> b_start b" "b_start b \<le> b_end b" "nat (b_end b) \<le> length (b_arr b)"
    using ok(1) by (auto simp: cache_ok_def buf_wf_def)
  have le: "int p \<le> b_end b" using p e by (simp add: cc_filled_def cc_at_def cc_buf_def b buf_bytes_def)
  let ?b = "Buffer_Rewind b (int p)"
  have all: "passed b @ buf_bytes b = take (nat (b_end b)) (b_arr b)" if "0 \<le> b_start b" "b_start b \<le> b_end b" for b
  proof -
    have "nat (b_end b) = nat (b_start b) + nat (b_end b - b_start b)" using that by simp
    then show ?thesis by (simp add: passed_def buf_bytes_def take_add)
  qed
  have "cache_ok ?b" using ok(1) le by (auto simp: cache_ok_def buf_wf_def Buffer_Rewind_def)
  moreover have "passed ?b @ buf_bytes ?b = passed b @ buf_bytes b"
    using all [of b] all [of ?b] e le by (simp add: Buffer_Rewind_def)
  moreover have "length (passed ?b) + length (buf_bytes ?b) = length (passed b) + length (buf_bytes b)"
    using arg_cong [OF calculation(2), of length] by simp
  moreover have "S = passed b @ buf_bytes b @ pending (cc_conn c)"
    using v(1) by (simp add: cc_reads_def cc_stream_def cc_ahead_def cc_buf_def b)
  then have "passed ?b @ buf_bytes ?b @ pending (cc_conn c) = S" using calculation(2) by (metis append.assoc)
  ultimately show ?thesis
    using v(1) ok e
    by (simp add: cc_reads_def cc_filled_def cc_Rewind_def b cc_buf_def cc_ok_def cc_at_def cc_stream_def cc_ahead_def
        cache_ok_bounds(2) del: length_buf_bytes)
       (simp add: Buffer_Rewind_def)
qed

lemma CurrentPosition_view: "cc_reads inv pending fresh S n c \<Longrightarrow> cc_cache c \<noteq> None \<Longrightarrow> cc_CurrentPosition c = int n"
proof -
  assume v: "cc_reads inv pending fresh S n c" "cc_cache c \<noteq> None"
  then obtain b where b: "cc_cache c = Some b" by auto
  then have "cache_ok b" "nat (b_start b) = n" using v(1) by (auto simp: cc_reads_def cc_ok_def cc_at_def cc_buf_def)
  then show ?thesis using cache_ok_bounds(3) [of b] b by (auto simp: cc_CurrentPosition_def Buffer_CurrentPosition_def)
qed

end

text \<open>The metadata of a connection that starts with a handshake and a login.\<close>

definition sniffed_login :: "32 word \<Rightarrow> string \<Rightarrow> 16 word \<Rightarrow> byte \<Rightarrow> string \<Rightarrow> bytes \<Rightarrow> nat \<Rightarrow> mc_metadata" where
  "sniffed_login version host port intent nm uuid pos =
     (new_mc_metadata intent)\<lparr>mm_ProtocolVersion := scast version, mm_OriginDestination := host, mm_OriginPort := port,
        mm_PlayerName := nm, mm_UUID := uuid, mm_SniffPosition := int pos\<rparr>"

text \<open>The metadata of a connection that asks for the status.\<close>

definition sniffed_status :: "32 word \<Rightarrow> string \<Rightarrow> 16 word \<Rightarrow> nat \<Rightarrow> mc_metadata" where
  "sniffed_status version host port pos =
     (new_mc_metadata IntentStatus)\<lparr>mm_ProtocolVersion := scast version, mm_OriginDestination := host, mm_OriginPort := port,
        mm_SniffPosition := int pos\<rparr>"

definition handshake_ok :: "32 word \<Rightarrow> string \<Rightarrow> 16 word \<Rightarrow> bool" where
  "handshake_ok version host port \<longleftrightarrow>
     0 < sint version \<and> host \<noteq> [] \<and> port \<noteq> 0 \<and> length (handshake_bytes version host port IntentStatus) \<le> 264"

text \<open>A handshake and a login that the sniffer accepts.\<close>

definition login_ok :: "32 word \<Rightarrow> string \<Rightarrow> 16 word \<Rightarrow> string \<Rightarrow> bytes \<Rightarrow> bytes \<Rightarrow> bool" where
  "login_ok version host port nm uuid tail \<longleftrightarrow>
     0 < sint version \<and> host \<noteq> [] \<and> port \<noteq> 0 \<and> length (handshake_bytes version host port IntentLogin) \<le> 264 \<and>
     nm \<noteq> [] \<and> length nm \<le> 16 \<and> login_tail (scast version) uuid tail"

definition login_stream :: "32 word \<Rightarrow> string \<Rightarrow> 16 word \<Rightarrow> byte \<Rightarrow> string \<Rightarrow> bytes \<Rightarrow> bytes" where
  "login_stream version host port intent nm tail =
     frame (handshake_bytes version host port intent) @ frame (login_bytes nm tail)"

context io_reader
begin

lemma SniffClientHandshake_login:
  assumes v: "cc_reads inv pending fresh S n c" and S: "S = xs @ login_stream version host port intent nm tail @ rest" "length xs = n"
    and room: "n + length (login_stream version host port intent nm tail) \<le> CacheSize"
    and ok: "login_ok version host port nm uuid tail" and intent: "intent = IntentLogin \<or> intent = IntentTransfer"
    and m: "md_Minecraft m = None"
  shows "\<exists>c'. SniffClientHandshake rd fresh c m = Some (None, c', m\<lparr>md_Minecraft := Some (sniffed_login version host port
        intent nm uuid (n + length (frame (handshake_bytes version host port intent))))\<rparr>) \<and>
      cc_reads inv pending fresh S (n + length (login_stream version host port intent nm tail)) c' \<and> cc_cache c' \<noteq> None"
proof -
  let ?h = "handshake_bytes version host port intent" and ?l = "login_bytes nm tail"
  let ?n = "n + length (frame ?h)"
  note ok' = ok [unfolded login_ok_def]
  have h264: "length ?h \<le> 264" "length host < 2 ^ 31 - 1" using ok' by (simp_all add: handshake_bytes_def str_field_def)
  have S1: "S = xs @ frame ?h @ frame ?l @ rest" using S by (simp add: login_stream_def)
  have room1: "?n \<le> CacheSize" "?n + length (frame ?l) \<le> CacheSize" using room by (simp_all add: login_stream_def)
  have limit: "Some 264 = None \<or> (\<exists>l. Some 264 = Some l \<and> int (length ?h) \<le> l)" using h264 by simp
  from sniff_packet_view [OF v S1 S(2) room1(1) limit] obtain c1 where
    c1: "sniff_packet rd fresh ''read handshake packet: '' (Some 264) c = Some (Inr ?h, c1)"
      "cc_reads inv pending fresh S ?n c1" "cc_cache c1 \<noteq> None" by blast
  have S2: "S = (xs @ frame ?h) @ frame ?l @ rest" "length (xs @ frame ?h) = ?n" using S1 S(2) by simp_all
  from sniff_packet_view [OF c1(2) S2 room1(2)] obtain c2 where
    c2: "sniff_packet rd fresh ''read login packet: '' None c1 = Some (Inr ?l, c2)"
      "cc_reads inv pending fresh S (?n + length (frame ?l)) c2" "cc_cache c2 \<noteq> None" by blast
  define mc0 where "mc0 = new_mc_metadata (-1)"
  define mc where "mc = mc0\<lparr>mm_ProtocolVersion := scast version, mm_OriginDestination := host, mm_OriginPort := port, mm_NextState := intent\<rparr>"
  define mc' where "mc' = mc\<lparr>mm_SniffPosition := int ?n\<rparr>"
  have ph: "parse_handshake ?h mc0 = Some (Inr intent, mc)"
    unfolding mc_def by (rule parse_handshake_bytes) (use ok' h264 intent in auto)
  have pl: "parse_login ?l mc' = Some (Inr (), mc'\<lparr>mm_PlayerName := nm, mm_UUID := uuid\<rparr>)"
    by (rule parse_login_bytes) (use ok' in \<open>auto simp: mc'_def mc_def mc0_def new_mc_metadata_def\<close>)
  have res: "mc'\<lparr>mm_PlayerName := nm, mm_UUID := uuid\<rparr> = sniffed_login version host port intent nm uuid ?n"
    by (simp add: mc'_def mc_def mc0_def sniffed_login_def new_mc_metadata_def)
  have st: "intent \<noteq> IntentStatus" using intent by (auto simp: intents)
  have "SniffClientHandshake rd fresh c m = Some (None, c2, m\<lparr>md_Minecraft := Some (sniffed_login version host port intent nm uuid ?n)\<rparr>)"
    using c1(1) c2(1) ph pl st
    by (simp add: SniffClientHandshake_def m mc0_def [symmetric] CurrentPosition_view [OF c1(2,3)] mc'_def [symmetric] sniff_result_def res del: of_nat_add)
  then show ?thesis using c2 by (auto simp: login_stream_def add.assoc)
qed

text \<open>A status request: the handshake, and the two bytes of the request.\<close>

lemma SniffClientHandshake_status:
  assumes v: "cc_reads inv pending fresh S 0 c" and S: "S = frame (handshake_bytes version host port IntentStatus) @ [1, 0] @ rest"
    and room: "length (frame (handshake_bytes version host port IntentStatus)) + 2 \<le> CacheSize"
    and ok: "handshake_ok version host port" and m: "md_Minecraft m = None"
  shows "\<exists>c'. SniffClientHandshake rd fresh c m = Some (None, c', m\<lparr>md_Minecraft := Some (sniffed_status version host port
        (length (frame (handshake_bytes version host port IntentStatus))))\<rparr>) \<and>
      cc_reads inv pending fresh S (length (frame (handshake_bytes version host port IntentStatus)) + 2) c' \<and> cc_cache c' \<noteq> None"
proof -
  let ?h = "handshake_bytes version host port IntentStatus"
  have h: "length ?h \<le> 264" "length host < 2 ^ 31 - 1" using ok by (simp_all add: handshake_ok_def handshake_bytes_def str_field_def)
  have S0: "S = [] @ frame ?h @ [1, 0] @ rest" "length ([] :: bytes) = 0" using S by simp_all
  have limit: "Some 264 = None \<or> (\<exists>l. Some 264 = Some l \<and> int (length ?h) \<le> l)" using h by simp
  from sniff_packet_view [OF v S0 _ limit] room obtain c1 where
    c1: "sniff_packet rd fresh ''read handshake packet: '' (Some 264) c = Some (Inr ?h, c1)"
      "cc_reads inv pending fresh S (length (frame ?h)) c1" "cc_cache c1 \<noteq> None" by fastforce
  have "inv (cc_conn c1)" "cc_ok fresh c1" "cc_at fresh c1 = length (frame ?h)" "cc_stream pending fresh c1 = S"
    using c1(2) by (simp_all add: cc_reads_def)
  with cc_Peek_stream [of c1 fresh 2] room cc_reads_ahead [OF c1(2)] S obtain c2 where
    c2: "cc_Peek rd fresh 2 c1 = Some (([1, 0], None), c2)" "cc_reads inv pending fresh S (length (frame ?h) + 2) c2" "cc_cache c2 \<noteq> None"
    by (auto simp: cc_reads_def)
  define mc0 where "mc0 = new_mc_metadata (-1)"
  have ph: "parse_handshake ?h mc0 = Some (Inr IntentStatus,
      mc0\<lparr>mm_ProtocolVersion := scast version, mm_OriginDestination := host, mm_OriginPort := port, mm_NextState := IntentStatus\<rparr>)"
    by (rule parse_handshake_bytes) (use ok h in \<open>auto simp: handshake_ok_def\<close>)
  show ?thesis
    using c1(1) c2 ph
    by (simp add: SniffClientHandshake_def m mc0_def [symmetric] CurrentPosition_view [OF c1(2,3)] sniff_result_def)
       (simp add: mc0_def sniffed_status_def new_mc_metadata_def)
qed

text \<open>The router's sniffing puts the stream back.\<close>

lemma protocol_Sniff_minecraft:
  assumes v: "cc_reads inv pending fresh S 0 c" and m: "md_Minecraft m = None"
    and r: "SniffClientHandshake rd fresh c m = Some (err, c', m')" "cc_reads inv pending fresh S n c'" "cc_cache c' \<noteq> None"
  shows "\<exists>c'. protocol_Sniff rd fresh reg [''minecraft''] c m = Some (c', m') \<and>
      cc_reads inv pending fresh S 0 c' \<and> cc_cache c' \<noteq> None \<and> n \<le> cc_filled fresh c'"
proof -
  have pos: "(if cc_CurrentPosition c < 0 then 0 else cc_CurrentPosition c) = int 0"
    using v CurrentPosition_view [OF v] by (cases "cc_cache c") (auto simp: cc_CurrentPosition_def)
  show ?thesis
    using r(1) m cc_Rewind_view [OF r(2,3), of 0] cc_reads_filled [OF r(2)]
    by (simp add: protocol_Sniff_def pos Let_def sniff_minecraft_def SniffTypeAll_def SniffTypeMinecraft_def)
qed

lemma protocol_Sniff_login:
  assumes v: "cc_reads inv pending fresh S 0 c" and S: "S = login_stream version host port intent nm tail @ rest"
    and room: "length (login_stream version host port intent nm tail) \<le> CacheSize"
    and ok: "login_ok version host port nm uuid tail" and intent: "intent = IntentLogin \<or> intent = IntentTransfer"
    and m: "md_Minecraft m = None"
  shows "\<exists>c'. protocol_Sniff rd fresh reg [''minecraft''] c m = Some (c', m\<lparr>md_Minecraft := Some (sniffed_login version host port
        intent nm uuid (length (frame (handshake_bytes version host port intent))))\<rparr>) \<and>
      cc_reads inv pending fresh S 0 c' \<and> cc_cache c' \<noteq> None \<and>
      length (login_stream version host port intent nm tail) \<le> cc_filled fresh c'"
  using SniffClientHandshake_login [OF v, of "[]" version host port intent nm tail rest uuid m] protocol_Sniff_minecraft [OF v m] assms
  by fastforce

lemma protocol_Sniff_status:
  assumes v: "cc_reads inv pending fresh S 0 c" and S: "S = frame (handshake_bytes version host port IntentStatus) @ [1, 0] @ rest"
    and room: "length (frame (handshake_bytes version host port IntentStatus)) + 2 \<le> CacheSize"
    and ok: "handshake_ok version host port" and m: "md_Minecraft m = None"
  shows "\<exists>c'. protocol_Sniff rd fresh reg [''minecraft''] c m = Some (c', m\<lparr>md_Minecraft := Some (sniffed_status version host port
        (length (frame (handshake_bytes version host port IntentStatus))))\<rparr>) \<and>
      cc_reads inv pending fresh S 0 c' \<and> cc_cache c' \<noteq> None \<and>
      length (frame (handshake_bytes version host port IntentStatus)) \<le> cc_filled fresh c'"
  using SniffClientHandshake_status [OF assms] protocol_Sniff_minecraft [OF v m] by fastforce

end

text \<open>Packets are read from the cached connection under the same contract as from any other.\<close>

interpretation cached: io_reader "cc_Read net_Read fresh" "cc_ahead net_pending fresh" "cc_rank length fresh"
    "cc_fits (\<lambda>_. True) net_pending fresh" for fresh
  using net.cc_Read_delivers by unfold_locales

section \<open>Properties\<close>

text \<open>(C6)
  Sniffing a Minecraft client: over any segmentation of the stream, the handshake and the login
  packet in front of it are read into the metadata (version, hostname, port, intent, player name, the
  UUID in the place where the protocol's version has it), and the connection gives the whole stream
  from its first byte again.
\<close>

theorem minecraft_sniffed:
  assumes "length fresh = CacheSize" "net_pending s = login_stream version host port intent nm tail @ rest"
    "length (login_stream version host port intent nm tail) \<le> CacheSize"
    "login_ok version host port nm uuid tail" "intent = IntentLogin \<or> intent = IntentTransfer" "md_Minecraft m = None"
  shows "\<exists>c. protocol_Sniff net_Read fresh reg [''minecraft''] (NewCachedConn s) m = Some (c, m\<lparr>md_Minecraft :=
        Some (sniffed_login version host port intent nm uuid (length (frame (handshake_bytes version host port intent))))\<rparr>) \<and>
      cc_ahead net_pending fresh c = net_pending s"
proof -
  have v: "cc_reads (\<lambda>_. True) net_pending fresh (net_pending s) 0 (NewCachedConn s)"
    by (rule cc_reads_new) (simp_all add: assms(1))
  from net.protocol_Sniff_login [OF v assms(2-6)] show ?thesis using cc_reads_ahead by fastforce
qed

text \<open>A login of version 1.21 to \<open>play.example.org\<close>.\<close>

definition steve_uuid :: bytes where "steve_uuid = map of_nat [1..<17]"

definition steve_stream :: bytes where
  "steve_stream = login_stream 767 ''play.example.org'' 25565 IntentLogin ''Steve'' steve_uuid"

lemma steve_lengths:
  "length (handshake_bytes 767 ''play.example.org'' 25565 IntentLogin) = 23" "length steve_stream = 48"
  "length (frame (handshake_bytes 767 ''play.example.org'' 25565 IntentLogin)) = 24"
  by code_simp+

lemma steve_login: "login_ok 767 ''play.example.org'' 25565 ''Steve'' steve_uuid steve_uuid"
  by (simp add: login_ok_def steve_lengths login_tail_def) (simp add: steve_uuid_def)

definition zero_metadata :: metadata where
  "zero_metadata =
     \<lparr>md_ConnectionID = [], md_ServiceName = [], md_SniffedProtocol = 0, md_SourceAddress = AddrPortFrom IPv4Unspecified 0,
      md_DestinationHostname = [], md_DestinationPort = 0, md_SRV = None, md_Minecraft = None, md_TLS = None\<rparr>"

theorem minecraft_sniffed_witness:
  "\<exists>c. protocol_Sniff net_Read (replicate CacheSize 0) [] [''minecraft'']
        (NewCachedConn [Chunk (take 9 steve_stream), Chunk (drop 9 steve_stream @ [1, 2, 3])]) zero_metadata
        = Some (c, zero_metadata\<lparr>md_Minecraft :=
          Some (sniffed_login 767 ''play.example.org'' 25565 IntentLogin ''Steve'' steve_uuid 24)\<rparr>) \<and>
      cc_ahead net_pending (replicate CacheSize 0) c = steve_stream @ [1, 2, 3]"
proof -
  let ?s = "[Chunk (take 9 steve_stream), Chunk (drop 9 steve_stream @ [1, 2, 3])]"
  have s: "net_pending ?s = steve_stream @ [1, 2, 3]" by (metis append.assoc append_Nil2 append_take_drop_id net_pending.simps)
  have len: "length (login_stream 767 ''play.example.org'' 25565 IntentLogin ''Steve'' steve_uuid) \<le> CacheSize"
    using steve_lengths(2) by (simp add: steve_stream_def CacheSize_def)
  note t = minecraft_sniffed [of "replicate CacheSize 0" ?s 767 "''play.example.org''" 25565 IntentLogin "''Steve''"
        steve_uuid "[1, 2, 3]" steve_uuid zero_metadata "[]", unfolded s steve_lengths(3)]
  show ?thesis by (rule t [OF _ _ len steve_login]) (simp_all add: steve_stream_def zero_metadata_def)
qed

end
