(* ===== verification/Bitmaps.thy ===== *)
theory Bitmaps
  imports Prelude
begin

text \<open>
  The bitmaps of the domain set (common/domain/set.go): setting and reading bits, the number of ones
  before a position (\<open>rank64\<close>) and the position of the i-th one (\<open>select32R64\<close>), with their indexes
  and the table for bytes.

  A bitmap is read as the list of its bits (\<open>bm_bits\<close>); rank and select are proved against counting
  in that list.
\<close>

section \<open>Bit counting\<close>

text \<open>\<open>math/bits\<close>: the number of ones, and the number of trailing zeros of a byte.\<close>

definition OnesCount :: "'a::len word \<Rightarrow> nat" where
  "OnesCount w = length (filter (bit w) [0..<LENGTH('a)])"

definition TrailingZeros8 :: "8 word \<Rightarrow> nat" where
  "TrailingZeros8 w = length (takeWhile (\<lambda>i. \<not> bit w i) [0..<8])"

text \<open>\<open>initSelectLookup\<close>: the position of the j-th one of every byte, 8 when there is none.\<close>

primrec select8_row :: "nat \<Rightarrow> 8 word \<Rightarrow> nat list" where
  "select8_row 0 w = []"
| "select8_row (Suc n) w = TrailingZeros8 w # select8_row n (w AND (w - 1))"

definition select8Lookup :: "nat list" where
  "select8Lookup = concat (map (\<lambda>i. select8_row 8 (of_nat i)) [0..<256])"

definition nth_opt :: "'a list \<Rightarrow> nat \<Rightarrow> 'a option" where
  "nth_opt xs i = (if i < length xs then Some (xs ! i) else None)"

section \<open>Bitmaps\<close>

definition setBit :: "64 word list \<Rightarrow> nat \<Rightarrow> 64 word \<Rightarrow> 64 word list" where
  "setBit bm i v =
     (let bm = bm @ replicate (i div 64 + 1 - length bm) 0
      in bm[i div 64 := bm ! (i div 64) OR push_bit (i mod 64) v])"

definition getBit :: "64 word list \<Rightarrow> nat \<Rightarrow> 64 word option" where
  "getBit bm i = do { w \<leftarrow> nth_opt bm (i div 64); Some (w AND push_bit (i mod 64) 1) }"

text \<open>\<open>indexRank64\<close> with the trailing entry: the number of ones before every word, and in all.\<close>

fun rank_index :: "64 word list \<Rightarrow> nat \<Rightarrow> nat list" where
  "rank_index [] n = [n]"
| "rank_index (w # ws) n = n # rank_index ws (n + OnesCount w)"

definition indexRank64 :: "64 word list \<Rightarrow> nat list" where
  "indexRank64 words = rank_index words 0"

text \<open>\<open>initMasks\<close>: the bits below a position, and the bits above it.\<close>

definition mask_table :: "64 word list" where
  "mask_table = map (\<lambda>i. push_bit i 1 - 1) [0..<65]"

definition rMaskUpto :: "64 word list" where
  "rMaskUpto = map (\<lambda>i. NOT (push_bit (i + 1) 1 - 1)) [0..<64]"

text \<open>The number of ones before a position, and the bit there.\<close>

definition rank64 :: "64 word list \<Rightarrow> nat list \<Rightarrow> nat \<Rightarrow> (nat \<times> nat) option" where
  "rank64 words rindex i = do {
     n \<leftarrow> nth_opt rindex (i div 64);
     w \<leftarrow> nth_opt words (i div 64);
     m \<leftarrow> nth_opt mask_table (i mod 64);
     Some (n + OnesCount (w AND m), unat (drop_bit (i mod 64) w AND 1))
   }"

text \<open>\<open>indexSelect32R64\<close>: the position of every 32nd one; \<open>ith\<close> counts the ones so far.\<close>

fun select_index :: "64 word list \<Rightarrow> nat list \<Rightarrow> nat \<Rightarrow> nat list" where
  "select_index words [] ith = []"
| "select_index words (i # is) ith =
     (if bit (words ! (i div 64)) (i mod 64)
      then (if ith mod 32 = 0 then i # select_index words is (ith + 1) else select_index words is (ith + 1))
      else select_index words is ith)"

definition indexSelect32R64 :: "64 word list \<Rightarrow> nat list \<times> nat list" where
  "indexSelect32R64 words = (select_index words [0..<64 * length words] 0, indexRank64 words)"

text \<open>The search for the word that has the i-th one.\<close>

function select_word :: "nat list \<Rightarrow> nat \<Rightarrow> nat \<Rightarrow> nat option" where
  "select_word rankIndex i wordI =
     (if wordI + 1 < length rankIndex
      then (if rankIndex ! (wordI + 1) \<le> i then select_word rankIndex i (wordI + 1) else Some wordI)
      else None)"
  by pat_completeness auto
termination by (relation "measure (\<lambda>(rankIndex, i, wordI). length rankIndex - wordI)") auto

declare select_word.simps [simp del]

text \<open>
  \<open>select32R64\<close>, the position of the i-th one and of the one after it: inside the word the half, the
  quarter and the byte are found by counting ones, the position in the byte by the table. Without a
  one after it, the second result is the length of the bitmap.
\<close>

definition TrailingZeros64 :: "64 word \<Rightarrow> nat" where
  "TrailingZeros64 w = length (takeWhile (\<lambda>i. \<not> bit w i) [0..<64])"

function next_word :: "64 word list \<Rightarrow> nat \<Rightarrow> nat" where
  "next_word words wordI =
     (if wordI < length words
      then (if words ! wordI \<noteq> 0 then 64 * wordI + TrailingZeros64 (words ! wordI) else next_word words (wordI + 1))
      else 64 * length words)"
  by pat_completeness auto
termination by (relation "measure (\<lambda>(words, wordI). length words - wordI)") auto

declare next_word.simps [simp del]

definition select_in_word :: "64 word \<Rightarrow> nat \<Rightarrow> nat option" where
  "select_in_word w findIth =
     (let ones = OnesCount (ucast w :: 32 word);
          (findIth, offset, ww) = (if ones \<le> findIth then (findIth - ones, 32, drop_bit 32 w) else (findIth, 0, w));
          ones = OnesCount (ucast ww :: 16 word);
          (findIth, offset, ww) = (if ones \<le> findIth then (findIth - ones, offset + 16, drop_bit 16 ww) else (findIth, offset, ww));
          ones = OnesCount (ucast ww :: 8 word)
      in if ones \<le> findIth
         then map_option (\<lambda>a. a + offset + 8)
                (nth_opt select8Lookup (unat (drop_bit 5 ww AND 0x7F8 OR of_nat (findIth - ones))))
         else map_option (\<lambda>a. a + offset)
                (nth_opt select8Lookup (unat (push_bit 3 (ww AND 0xFF) OR of_nat findIth))))"

definition select32R64 :: "64 word list \<Rightarrow> nat list \<Rightarrow> nat list \<Rightarrow> nat \<Rightarrow> (nat \<times> nat) option" where
  "select32R64 words selectIndex rankIndex i = do {
     s \<leftarrow> nth_opt selectIndex (i div 32);
     wordI \<leftarrow> select_word rankIndex i (s div 64);
     w \<leftarrow> nth_opt words wordI;
     r \<leftarrow> nth_opt rankIndex wordI;
     a \<leftarrow> select_in_word w (i - r);
     let a = a + 64 * wordI;
     m \<leftarrow> nth_opt rMaskUpto (a mod 64);
     Some (a, if w AND m \<noteq> 0 then 64 * wordI + TrailingZeros64 (w AND m) else next_word words (wordI + 1))
   }"

section \<open>Lists of bits\<close>

definition ones :: "bool list \<Rightarrow> nat" where "ones bs = length (filter (\<lambda>b. b) bs)"

lemma ones_simps [simp]:
  "ones [] = 0" "ones (b # bs) = (if b then Suc (ones bs) else ones bs)" "ones (xs @ ys) = ones xs + ones ys"
  "ones (replicate n False) = 0"
  by (simp_all add: ones_def)

lemma ones_le: "ones bs \<le> length bs"
  by (simp add: ones_def)

definition word_bits :: "'a::len word \<Rightarrow> bool list" where
  "word_bits w = map (bit w) [0..<LENGTH('a)]"

definition bm_bits :: "64 word list \<Rightarrow> bool list" where
  "bm_bits bm = concat (map word_bits bm)"

lemma length_word_bits [simp]: "length (word_bits (w :: 'a::len word)) = LENGTH('a)"
  by (simp add: word_bits_def)

lemma nth_word_bits [simp]: "i < LENGTH('a) \<Longrightarrow> word_bits (w :: 'a::len word) ! i = bit w i"
  by (simp add: word_bits_def)

lemma OnesCount_ones: "OnesCount w = ones (word_bits w)"
  by (simp add: OnesCount_def ones_def word_bits_def filter_map comp_def)

lemma bm_bits_simps [simp]: "bm_bits [] = []" "bm_bits (w # ws) = word_bits w @ bm_bits ws" "bm_bits (xs @ ys) = bm_bits xs @ bm_bits ys"
  by (simp_all add: bm_bits_def)

lemma length_bm_bits [simp]: "length (bm_bits bm) = 64 * length bm"
  by (induction bm) simp_all

lemma nth_bm_bits: "i < 64 * length bm \<Longrightarrow> bm_bits bm ! i = bit (bm ! (i div 64)) (i mod 64)"
proof (induction bm arbitrary: i)
  case (Cons w ws)
  show ?case
  proof (cases "i < 64")
    case False
    have "i div 64 = Suc ((i - 64) div 64)" "i mod 64 = (i - 64) mod 64"
      using False by (simp_all add: le_div_geq le_mod_geq)
    then show ?thesis using False Cons by (simp add: nth_append)
  qed (simp add: nth_append)
qed simp

lemma word_at_bits:
  "k < length bm \<Longrightarrow> bm_bits bm = bm_bits (take k bm) @ word_bits (bm ! k) @ bm_bits (drop (Suc k) bm)"
  by (metis bm_bits_simps(2,3) id_take_nth_drop)

lemma take_word_bits: "take k (word_bits (w :: 'a::len word)) = map (bit w) [0..<min k LENGTH('a)]"
  by (simp add: word_bits_def take_map min_def)

text \<open>The i-th one of a list of bits is at \<open>p\<close>.\<close>

definition ith_one :: "bool list \<Rightarrow> nat \<Rightarrow> nat \<Rightarrow> bool" where
  "ith_one bs i p \<longleftrightarrow> p < length bs \<and> bs ! p \<and> ones (take p bs) = i"

lemma ones_take_mono: "p \<le> q \<Longrightarrow> ones (take p bs) \<le> ones (take q bs)"
proof -
  assume "p \<le> q"
  then have "take q bs = take p bs @ drop p (take q bs)" by (metis append_take_drop_id min.absorb1 take_take)
  then show ?thesis by (metis le_add1 ones_simps(3))
qed

lemma ones_take_Suc: "p < length bs \<Longrightarrow> ones (take (Suc p) bs) = ones (take p bs) + (if bs ! p then 1 else 0)"
  by (simp add: take_Suc_conv_app_nth)

text \<open>The i-th one is before a position exactly when there are more than i ones before it.\<close>

lemma ith_one_less: "ith_one bs i p \<Longrightarrow> p < q \<longleftrightarrow> i < ones (take q bs)"
proof
  assume h: "ith_one bs i p" "p < q"
  then have "ones (take (Suc p) bs) \<le> ones (take q bs)" by (intro ones_take_mono) simp
  then show "i < ones (take q bs)" using h(1) by (simp add: ith_one_def ones_take_Suc)
next
  assume h: "ith_one bs i p" "i < ones (take q bs)"
  then show "p < q" using ones_take_mono [of q p bs] by (auto simp: ith_one_def not_less [symmetric])
qed

lemma ith_one_unique: "ith_one bs i p \<Longrightarrow> ith_one bs i q \<Longrightarrow> p = q"
  using ith_one_less [of bs i p q] ith_one_less [of bs i q p] by (auto simp: ith_one_def)

lemma ith_one_mono: "ith_one bs i p \<Longrightarrow> ith_one bs j q \<Longrightarrow> i \<le> j \<Longrightarrow> p \<le> q"
  using ith_one_less [of bs j q p] by (auto simp: ith_one_def not_less [symmetric])

lemma ith_one_bound: "ith_one bs i p \<Longrightarrow> i < ones bs"
  using ith_one_less [of bs i p "length bs"] by (simp add: ith_one_def)

lemma ith_one_exists: "i < ones bs \<Longrightarrow> \<exists>p. ith_one bs i p"
proof (induction bs rule: rev_induct)
  case (snoc b bs)
  show ?case
  proof (cases "i < ones bs")
    case True
    then obtain p where "ith_one bs i p" using snoc.IH by blast
    then have "ith_one (bs @ [b]) i p" by (simp add: ith_one_def nth_append)
    then show ?thesis by blast
  next
    case False
    then have "ith_one (bs @ [b]) i (length bs)" using snoc.prems by (simp add: ith_one_def split: if_splits)
    then show ?thesis by blast
  qed
qed simp

lemma ith_one_append:
  "ith_one (xs @ ys) i p \<longleftrightarrow>
   (if i < ones xs then ith_one xs i p else length xs \<le> p \<and> ith_one ys (i - ones xs) (p - length xs))"
proof (cases "p < length xs")
  case True
  then show ?thesis
    using ith_one_bound [of xs i p] ones_take_mono [of p "length xs" xs] by (auto simp: ith_one_def nth_append)
next
  case False
  then show ?thesis by (auto simp: ith_one_def nth_append)
qed

lemma ith_one_zeros [simp]: "ith_one (bs @ replicate n False) i p \<longleftrightarrow> ith_one bs i p"
  by (auto simp: ith_one_append) (auto simp: ith_one_def ith_one_bound)

section \<open>Reading and setting\<close>

lemma nth_opt_Some [simp]: "i < length xs \<Longrightarrow> nth_opt xs i = Some (xs ! i)"
  by (simp add: nth_opt_def)

lemma nth_opt_eq_Some: "nth_opt xs i = Some x \<longleftrightarrow> i < length xs \<and> xs ! i = x"
  by (auto simp: nth_opt_def)

lemma getBit_bits:
  "i < length (bm_bits bm) \<Longrightarrow> \<exists>w. getBit bm i = Some w \<and> (w \<noteq> 0 \<longleftrightarrow> bm_bits bm ! i)"
proof -
  assume h: "i < length (bm_bits bm)"
  then have "i div 64 < length bm" by simp
  then show ?thesis
    using h by (simp add: getBit_def nth_bm_bits and_exp_eq_0_iff_not_bit)
qed

text \<open>A bitmap that holds the bits \<open>bs\<close>: as many words as needed, the rest of the last one is zero.\<close>

definition bm_holds :: "64 word list \<Rightarrow> bool list \<Rightarrow> bool" where
  "bm_holds bm bs \<longleftrightarrow> bm_bits bm = bs @ replicate (64 * length bm - length bs) False \<and>
     length bs \<le> 64 * length bm"

lemma bm_holds_Nil [simp]: "bm_holds [] []"
  by (simp add: bm_holds_def)

lemma word_bits_set:
  "r < LENGTH('a) \<Longrightarrow> word_bits (w OR push_bit r (of_bool b)) = (word_bits (w :: 'a::len word))[r := bit w r \<or> b]"
  by (rule nth_equalityI) (auto simp: nth_list_update bit_simps)

lemma bm_bits_update:
  "k < length bm \<Longrightarrow> r < 64 \<Longrightarrow>
   bm_bits (bm[k := bm ! k OR push_bit r (of_bool b)]) = (bm_bits bm)[64 * k + r := bm_bits bm ! (64 * k + r) \<or> b]"
proof (induction bm arbitrary: k)
  case (Cons w ws)
  show ?case
  proof (cases k)
    case 0
    then show ?thesis using Cons.prems
      by (simp add: word_bits_set list_update_append nth_append del: of_bool_eq)
  next
    case (Suc j)
    then show ?thesis using Cons by (simp add: list_update_append nth_append)
  qed
qed simp

lemma bm_bits_zeros [simp]: "bm_bits (replicate n 0) = replicate (64 * n) False"
proof (induction n)
  case (Suc n)
  have "word_bits (0 :: 64 word) = replicate 64 False"
    by (rule nth_equalityI) simp_all
  with Suc show ?case by (simp flip: replicate_add)
qed simp

lemma bm_holds_setBit:
  assumes "bm_holds bm bs" "length bs \<le> i"
  shows "bm_holds (setBit bm i (of_bool b)) (bs @ replicate (i - length bs) False @ [b])"
proof -
  define bm' where "bm' = bm @ replicate (i div 64 + 1 - length bm) 0"
  have l: "i div 64 < length bm'" "i < 64 * length bm'" by (auto simp: bm'_def)
  have "bm_bits bm' = bs @ replicate (64 * length bm' - length bs) False"
    using assms by (simp add: bm'_def bm_holds_def add_mult_distrib2 flip: replicate_add)
  moreover have "bm_bits (setBit bm i (of_bool b)) = (bm_bits bm')[i := bm_bits bm' ! i \<or> b]"
    unfolding setBit_def Let_def bm'_def [symmetric]
    using bm_bits_update [OF l(1), of "i mod 64" b] by (simp only: mult_div_mod_eq mod_less_divisor zero_less_numeral)
  ultimately have e: "bm_bits (setBit bm i (of_bool b)) = (bs @ replicate (64 * length bm' - length bs) False)[i := b]"
    using l assms(2) by (simp add: nth_append)
  have "replicate (64 * length bm' - length bs) False
        = replicate (i - length bs) False @ False # replicate (64 * length bm' - Suc i) False"
    using l(2) assms(2) by (simp add: replicate_app_Cons_same flip: replicate_add replicate_Suc)
  then have "(bs @ replicate (64 * length bm' - length bs) False)[i := b]
      = bs @ replicate (i - length bs) False @ b # replicate (64 * length bm' - Suc i) False"
    using assms(2) by (simp add: list_update_append)
  moreover have "length (setBit bm i (of_bool b)) = length bm'" by (simp add: setBit_def bm'_def Let_def)
  ultimately show ?thesis using e l assms(2) by (simp add: bm_holds_def)
qed

lemma bm_holds_append:
  "bm_holds bm bs \<Longrightarrow> bm_holds (setBit bm (length bs) (of_bool b)) (bs @ [b])"
  using bm_holds_setBit [of bm bs "length bs" b] by simp

lemma getBit_holds:
  "bm_holds bm bs \<Longrightarrow> i < length bs \<Longrightarrow> \<exists>w. getBit bm i = Some w \<and> (w \<noteq> 0 \<longleftrightarrow> bs ! i)"
  using getBit_bits [of i bm] by (simp add: bm_holds_def nth_append)

section \<open>Rank\<close>

lemma rank_index_nth:
  "k \<le> length words \<Longrightarrow> rank_index words n ! k = n + ones (bm_bits (take k words))"
proof (induction words arbitrary: k n)
  case (Cons w ws)
  then show ?case by (cases k) (simp_all add: OnesCount_ones)
qed simp

lemma length_rank_index [simp]: "length (rank_index words n) = Suc (length words)"
  by (induction words arbitrary: n) simp_all

lemma take_bm_bits:
  assumes "k < length bm" "r \<le> 64"
  shows "take (64 * k + r) (bm_bits bm) = bm_bits (take k bm) @ take r (word_bits (bm ! k))"
proof -
  define xs ys where "xs = bm_bits (take k bm)" and "ys = bm_bits (drop (Suc k) bm)"
  have "length xs = 64 * k" using assms(1) by (simp add: xs_def)
  then have "take (64 * k + r) (xs @ word_bits (bm ! k) @ ys) = xs @ take r (word_bits (bm ! k))"
    using assms(2) by simp
  then show ?thesis using word_at_bits [OF assms(1)] by (simp add: xs_def ys_def)
qed

lemma word_bits_mask: "word_bits (w AND mask r) = take r (word_bits w) @ replicate (LENGTH('a) - r) False"
  for w :: "'a::len word"
  by (rule nth_equalityI) (auto simp: nth_append bit_simps)

lemma mask_table_nth [simp]: "i < 64 \<Longrightarrow> nth_opt mask_table i = Some (mask i)"
  by (simp add: nth_opt_def mask_table_def mask_eq_exp_minus_1 push_bit_eq_mult del: upt_Suc)

lemma rank64_correct:
  assumes "i < 64 * length words"
  shows "rank64 words (indexRank64 words) i = Some (ones (take i (bm_bits words)), of_bool (bm_bits words ! i))"
proof -
  have k: "i div 64 < length words" using assms by auto
  have "take i (bm_bits words) = bm_bits (take (i div 64) words) @ take (i mod 64) (word_bits (words ! (i div 64)))"
    using take_bm_bits [OF k, of "i mod 64"] by simp
  moreover have "unat (drop_bit (i mod 64) w AND 1) = of_bool (bit w (i mod 64))" for w :: "64 word"
    by (simp add: and_one_eq mod_2_eq_odd flip: bit_iff_odd_drop_bit)
  ultimately show ?thesis
    using k assms nth_bm_bits [of i words]
    by (simp add: rank64_def indexRank64_def rank_index_nth OnesCount_ones word_bits_mask nth_opt_def [of words] nth_opt_def [of "rank_index _ _"])
qed

section \<open>Select\<close>

text \<open>The table: entry \<open>8 * b + j\<close> is the position of the j-th one of the byte \<open>b\<close>.\<close>

lemma lowest_bit: "w \<noteq> 0 \<Longrightarrow> bit w (TrailingZeros8 w) \<and> (\<forall>i < TrailingZeros8 w. \<not> bit w i) \<and> TrailingZeros8 w < 8"
  for w :: "8 word"
proof -
  assume "w \<noteq> 0"
  then obtain n where n: "bit w n" by (auto simp: bit_eq_iff)
  then have "n < 8" using bit_imp_le_length [of w n] by simp
  define xs where "xs = takeWhile (\<lambda>i. \<not> bit w i) [0..<8]"
  have t: "TrailingZeros8 w = length xs" by (simp add: TrailingZeros8_def xs_def)
  have "xs \<noteq> [0..<8]" using n \<open>n < 8\<close> set_takeWhileD [of n "\<lambda>i. \<not> bit w i" "[0..<8]"] by (auto simp: xs_def)
  moreover have "xs = take (length xs) [0..<8]" unfolding xs_def by (rule takeWhile_eq_take)
  moreover have "length xs \<le> 8" using length_takeWhile_le [of "\<lambda>i. \<not> bit w i" "[0..<8]"] by (simp add: xs_def)
  ultimately have l: "length xs < 8" by (metis le_neq_implies_less length_upt minus_nat.diff_0 order_refl take_all)
  then have "bit w ([0..<8] ! length xs)"
    using nth_length_takeWhile [of "\<lambda>i. \<not> bit w i" "[0..<8]"] by (simp add: xs_def)
  moreover have "\<not> bit w ([0..<8] ! i)" if "i < length xs" for i
    using takeWhile_nth [of i "\<lambda>i. \<not> bit w i" "[0..<8]"] nth_mem [OF that] that l
    by (metis (no_types, lifting) set_takeWhileD xs_def)
  ultimately show ?thesis using l t by simp
qed

lemma clear_lowest: "w \<noteq> 0 \<Longrightarrow> bit (w AND (w - 1)) i \<longleftrightarrow> bit w i \<and> i \<noteq> TrailingZeros8 w" for w :: "8 word"
proof -
  assume w: "w \<noteq> 0"
  define t where "t = TrailingZeros8 w"
  define r where "r = w AND NOT (mask (Suc t))"
  note lw = lowest_bit [OF w, folded t_def]
  have split: "w = r OR 2 ^ t"
    using lw by (intro bit_word_eqI) (auto simp: bit_simps r_def less_Suc_eq)
  have disj: "r AND 2 ^ t = 0" "r AND mask t = 0" by (rule bit_word_eqI, auto simp: bit_simps r_def)+
  have "w = r + 2 ^ t"
    using split disj(1) by (simp add: disjunctive_add_eq_or)
  then have "w - 1 = r + mask t" by (simp add: mask_eq_exp_minus_1)
  also have "\<dots> = r OR mask t" using disj(2) by (rule disjunctive_add_eq_or)
  finally have "w - 1 = r OR mask t" .
  then show ?thesis
    using lw bit_imp_le_length [of w i] by (auto simp: bit_simps r_def t_def [symmetric] less_Suc_eq not_less)
qed

lemma ith_one_Cons: "ith_one (True # ys) j p \<longleftrightarrow> (if j = 0 then p = 0 else 0 < p \<and> ith_one ys (j - 1) (p - 1))"
  by (cases p) (auto simp: ith_one_def)

lemma select8_row_nth:
  "ith_one (word_bits w) j p \<Longrightarrow> j < n \<Longrightarrow> select8_row n w ! j = p"
proof (induction n arbitrary: w j)
  case (Suc n)
  have w: "w \<noteq> 0" using Suc.prems(1) by (auto simp: ith_one_def)
  define t where "t = TrailingZeros8 w"
  note lw = lowest_bit [OF w, folded t_def]
  have z: "word_bits w = replicate t False @ True # drop (Suc t) (word_bits w)"
    using lw by (intro nth_equalityI) (auto simp: nth_append nth_Cons')
  have c: "word_bits (w AND (w - 1)) = replicate t False @ False # drop (Suc t) (word_bits w)"
    using lw clear_lowest [OF w] by (intro nth_equalityI) (auto simp: nth_append nth_Cons' t_def)
  have one: "ith_one (replicate t False @ True # ys) j p \<longleftrightarrow> (if j = 0 then p = t else Suc t \<le> p \<and> ith_one ys (j - 1) (p - Suc t))" for ys
    by (auto simp: ith_one_append [of "replicate t False"] ith_one_Cons)
  have clear: "ith_one (replicate t False @ False # ys) (j - 1) p \<longleftrightarrow> Suc t \<le> p \<and> ith_one ys (j - 1) (p - Suc t)" for ys
    using ith_one_append [of "replicate t False @ [False]" ys "j - 1" p] by simp
  show ?case
  proof (cases j)
    case 0
    then show ?thesis using Suc.prems(1) one [of "drop (Suc t) (word_bits w)"] z by (simp add: t_def)
  next
    case (Suc k)
    then have "ith_one (word_bits (w AND (w - 1))) k p"
      using Suc.prems(1) one [of "drop (Suc t) (word_bits w)"] clear [of "drop (Suc t) (word_bits w)"] z c by simp
    then show ?thesis using Suc.IH [of "w AND (w - 1)" k] Suc.prems(2) Suc by simp
  qed
qed simp

lemma length_select8_row [simp]: "length (select8_row n w) = n"
  by (induction n arbitrary: w) simp_all

lemma concat_rows:
  "(\<And>i. length (f i) = k) \<Longrightarrow> j < k \<Longrightarrow> i < n \<Longrightarrow> concat (map f [0..<n]) ! (k * i + j) = f i ! j"
proof (induction n)
  case (Suc n)
  have len: "length (concat (map f [0..<n])) = k * n"
    using Suc.prems(1) by (simp add: length_concat comp_def sum_list_triv)
  show ?case
  proof (cases "i < n")
    case True
    then have "k * i + j < k * n"
      using Suc.prems(2) by (metis add_less_cancel_left less_le_trans mult_Suc_right mult_le_mono2 Suc_leI add.commute)
    then show ?thesis using Suc True len by (simp add: nth_append)
  next
    case False
    then have "i = n" using Suc.prems(3) by simp
    then show ?thesis using len by (simp add: nth_append)
  qed
qed simp

lemma length_select8Lookup [simp]: "length select8Lookup = 2048"
  by (simp add: select8Lookup_def length_concat comp_def sum_list_triv)

lemma select8Lookup_correct:
  "ith_one (word_bits (b :: 8 word)) j p \<Longrightarrow> nth_opt select8Lookup (8 * unat b + j) = Some p"
proof -
  assume h: "ith_one (word_bits b) j p"
  have j: "j < 8" using ith_one_bound [OF h] ones_le [of "word_bits b"] by simp
  have b: "unat b < 256" using unsigned_less [of b] by simp
  have "select8Lookup ! (8 * unat b + j) = select8_row 8 b ! j"
    unfolding select8Lookup_def using concat_rows [of "\<lambda>i. select8_row 8 (of_nat i)" 8 j "unat b" 256] j b by simp
  then show ?thesis using select8_row_nth [OF h j] j b by simp
qed

text \<open>Counting in halves: when the lower \<open>k\<close> bits have too few ones the position is in the rest.\<close>

lemma word_bits_drop: "k \<le> LENGTH('a) \<Longrightarrow> word_bits (drop_bit k w) = drop k (word_bits w) @ replicate k False"
  for w :: "'a::len word"
  by (rule nth_equalityI) (auto simp: nth_append bit_simps not_less dest: bit_imp_le_length)

lemma word_bits_ucast:
  "LENGTH('b) \<le> LENGTH('a) \<Longrightarrow> word_bits (ucast (w :: 'a::len word) :: 'b::len word) = take LENGTH('b) (word_bits w)"
  by (rule nth_equalityI) (auto simp: bit_simps)

lemma halving:
  fixes w :: "'a::len word"
  assumes "ith_one (word_bits w) f q" "LENGTH('b) \<le> LENGTH('a)"
  shows "if OnesCount (ucast w :: 'b::len word) \<le> f
         then LENGTH('b) \<le> q \<and> ith_one (word_bits (drop_bit LENGTH('b) w)) (f - OnesCount (ucast w :: 'b word)) (q - LENGTH('b))
         else q < LENGTH('b)"
proof -
  let ?xs = "take LENGTH('b) (word_bits w)" and ?ys = "drop LENGTH('b) (word_bits w)"
  have l: "length ?xs = LENGTH('b)" using assms(2) by simp
  have "ith_one (?xs @ ?ys) f q" using assms(1) by simp
  moreover have "ith_one ?xs f q \<Longrightarrow> q < LENGTH('b)" using l by (simp add: ith_one_def)
  ultimately show ?thesis
    using l unfolding OnesCount_ones word_bits_ucast [OF assms(2)] word_bits_drop [OF assms(2)] ith_one_append [of ?xs] ith_one_zeros
    by (auto split: if_splits)
qed

lemma ith_one_low:
  "ith_one (word_bits w) f q \<Longrightarrow> q < LENGTH('b) \<Longrightarrow> LENGTH('b) \<le> LENGTH('a) \<Longrightarrow>
   ith_one (word_bits (ucast w :: 'b::len word)) f q" for w :: "'a::len word"
  by (simp add: word_bits_ucast) (simp add: ith_one_def min_def)

lemma table_index:
  assumes "j < 8" "m < 256"
  shows "unat (push_bit 3 (of_nat m :: 64 word) OR of_nat j) = 8 * m + j"
proof -
  have j: "(of_nat j :: 64 word) = take_bit 3 (of_nat j)"
    using assms(1) by (simp add: take_bit_of_nat take_bit_nat_eq_self)
  have "push_bit 3 (of_nat m :: 64 word) AND take_bit 3 (of_nat j) = 0"
    by (rule bit_word_eqI) (auto simp: bit_simps)
  then have "push_bit 3 (of_nat m :: 64 word) OR of_nat j = push_bit 3 (of_nat m) + of_nat j"
    using j by (metis disjunctive_add_eq_or)
  also have "\<dots> = of_nat (8 * m + j)" by (simp add: push_bit_eq_mult)
  finally show ?thesis
    using assms by (simp add: unat_of_nat take_bit_nat_eq_self del: of_nat_add of_nat_mult)
qed

lemma table_low:
  "ww AND 0xFF = of_nat (unat (ucast ww :: 8 word))" "drop_bit 5 ww AND 0x7F8 = push_bit 3 (of_nat (unat (ucast (drop_bit 8 ww) :: 8 word)))"
  for ww :: "64 word"
proof -
  have m: "(0xFF :: 64 word) = mask 8" "(0x7F8 :: 64 word) = push_bit 3 (mask 8)"
    by (simp_all add: mask_eq_exp_minus_1 push_bit_eq_mult)
  show "ww AND 0xFF = of_nat (unat (ucast ww :: 8 word))"
    unfolding m by (rule bit_word_eqI) (auto simp: bit_simps)
  show "drop_bit 5 ww AND 0x7F8 = push_bit 3 (of_nat (unat (ucast (drop_bit 8 ww) :: 8 word)))"
    unfolding m by (rule bit_word_eqI) (auto simp: bit_simps)
qed

lemma select_in_word_correct:
  assumes "ith_one (word_bits (w :: 64 word)) f q"
  shows "select_in_word w f = Some q"
proof -
  obtain f1 o1 w1 where s1: "(f1, o1, w1) = (let ones = OnesCount (ucast w :: 32 word) in
      if ones \<le> f then (f - ones, 32, drop_bit 32 w) else (f, 0 :: nat, w))" by (metis prod_cases3)
  have h1: "ith_one (word_bits w1) f1 (q - o1)" "o1 \<le> q" "q - o1 < 32"
    using halving [OF assms, where 'b = 32] s1 assms
    by (auto simp: Let_def ith_one_def split: if_splits)
  obtain f2 o2 w2 where s2: "(f2, o2, w2) = (let ones = OnesCount (ucast w1 :: 16 word) in
      if ones \<le> f1 then (f1 - ones, o1 + 16, drop_bit 16 w1) else (f1, o1, w1))" by (metis prod_cases3)
  have h2: "ith_one (word_bits w2) f2 (q - o2)" "o2 \<le> q" "q - o2 < 16"
    using halving [OF h1(1), where 'b = 16] s2 h1
    by (auto simp: Let_def split: if_splits)
  note h3 = halving [OF h2(1), where 'b = 8]
  have r: "select_in_word w f =
     (if OnesCount (ucast w2 :: 8 word) \<le> f2
      then map_option (\<lambda>a. a + o2 + 8) (nth_opt select8Lookup
             (unat (drop_bit 5 w2 AND 0x7F8 OR of_nat (f2 - OnesCount (ucast w2 :: 8 word)))))
      else map_option (\<lambda>a. a + o2) (nth_opt select8Lookup (unat (push_bit 3 (w2 AND 0xFF) OR of_nat f2))))"
    by (simp only: select_in_word_def Let_def s1 [unfolded Let_def, symmetric] s2 [unfolded Let_def, symmetric] prod.case)
  show ?thesis
  proof (cases "OnesCount (ucast w2 :: 8 word) \<le> f2")
    case True
    let ?b = "ucast (drop_bit 8 w2) :: 8 word" and ?j = "f2 - OnesCount (ucast w2 :: 8 word)"
    have "ith_one (word_bits (drop_bit 8 w2)) ?j (q - o2 - 8)" "8 \<le> q - o2" using h3 True by simp_all
    then have b: "ith_one (word_bits ?b) ?j (q - o2 - 8)" using h2(3) by (intro ith_one_low) simp_all
    then have j: "?j < 8" using ith_one_bound [OF b] ones_le [of "word_bits ?b"] by simp
    have "unat (drop_bit 5 w2 AND 0x7F8 OR of_nat ?j) = 8 * unat ?b + ?j"
      unfolding table_low using j unsigned_less [of ?b] by (intro table_index) simp_all
    then show ?thesis using r True select8Lookup_correct [OF b] \<open>8 \<le> q - o2\<close> h2(2) by simp
  next
    case False
    let ?b = "ucast w2 :: 8 word"
    have b: "ith_one (word_bits ?b) f2 (q - o2)" using h3 False h2(1) by (intro ith_one_low) simp_all
    then have j: "f2 < 8" using ith_one_bound [OF b] ones_le [of "word_bits ?b"] by simp
    have "unat (push_bit 3 (w2 AND 0xFF) OR of_nat f2) = 8 * unat ?b + f2"
      unfolding table_low using j unsigned_less [of ?b] by (intro table_index) simp_all
    then show ?thesis using r False select8Lookup_correct [OF b] h2(2) by simp
  qed
qed

text \<open>The index of every 32nd one.\<close>

lemma select_index_nth:
  "bs = take n (bm_bits words) \<Longrightarrow> n + length is = 64 * length words \<Longrightarrow> is = [n..<64 * length words] \<Longrightarrow>
   ith = ones bs \<Longrightarrow> ith_one (bm_bits words) (32 * k) p \<Longrightarrow> (ith + 31) div 32 \<le> k \<Longrightarrow>
   nth_opt (select_index words is ith) (k - (ith + 31) div 32) = Some p"
proof (induction "is" arbitrary: n ith bs)
  case Nil
  then have "ith = ones (bm_bits words)" by simp
  then show ?case using ith_one_bound [OF Nil.prems(5)] Nil.prems(6) by linarith
next
  case (Cons i "is")
  have n: "i = n" "n < 64 * length words" "is = [Suc n..<64 * length words]"
    using Cons.prems(3) [symmetric] by (auto simp: upt_eq_Cons_conv)
  define b where "b = bm_bits words ! n"
  have b: "bit (words ! (i div 64)) (i mod 64) = b" using n by (simp add: b_def nth_bm_bits)
  have ones': "ones (take (Suc n) (bm_bits words)) = ith + (if b then 1 else 0)"
    using Cons.prems(1,4) n(2) by (simp add: ones_take_Suc b_def)
  note IH = Cons.IH [OF refl, of "Suc n", OF _ n(3) refl Cons.prems(5), unfolded ones']
  have l: "Suc n + length is = 64 * length words" using Cons.prems(2) by simp
  show ?case
  proof (cases b)
    case False
    then show ?thesis using IH [OF l] Cons.prems(6) b by simp
  next
    case True
    have here: "ith_one (bm_bits words) ith n" using n(2) True Cons.prems(1,4) by (simp add: ith_one_def b_def)
    show ?thesis
    proof (cases "ith mod 32 = 0")
      case r: True
      then have d: "(ith + 31) div 32 = ith div 32" "(ith + 1 + 31) div 32 = ith div 32 + 1" by (auto simp: mod_eq_0_iff_dvd)
      show ?thesis
      proof (cases "k = ith div 32")
        case k: True
        then have "32 * k = ith" using r mult_div_mod_eq [of 32 ith] by simp
        then have "p = n" using ith_one_unique [OF Cons.prems(5)] here by simp
        then show ?thesis using True b r d k n(1) by simp
      next
        case False
        then have "ith div 32 < k" using Cons.prems(6) d(1) by simp
        then have "ith div 32 + 1 \<le> k" "k - ith div 32 = Suc (k - (ith div 32 + 1))" by simp_all
        then show ?thesis using IH [OF l] True b r d by (simp add: nth_opt_def split: if_splits)
      qed
    next
      case False
      then obtain m where m: "ith mod 32 = Suc m" using not0_implies_Suc by blast
      define a where "a = ith div 32"
      have e: "ith = 32 * a + Suc m" using mult_div_mod_eq [of 32 ith] m by (simp add: a_def)
      have "m + 32 * (a + 1) = ith + 31" "Suc m + 32 * (a + 1) = ith + 1 + 31" using e by simp_all
      moreover have "(m + 32 * (a + 1)) div 32 = a + 1" "(Suc m + 32 * (a + 1)) div 32 = a + 1"
        using m mod_less_divisor [of 32 ith] by (subst div_mult_self2; simp)+
      ultimately have "(ith + 1 + 31) div 32 = (ith + 31) div 32" by metis
      then show ?thesis using IH [OF l] True b False Cons.prems(6) by simp
    qed
  qed
qed

lemma indexSelect_nth:
  "ith_one (bm_bits words) (32 * k) p \<Longrightarrow> nth_opt (fst (indexSelect32R64 words)) k = Some p"
  using select_index_nth [of "[]" 0 words "[0..<64 * length words]" 0 k p]
  by (simp add: indexSelect32R64_def)

text \<open>The search among the words stops at the one with the position.\<close>

lemma select_word_correct:
  assumes "ith_one (bm_bits words) i p"
  shows "k \<le> p div 64 \<Longrightarrow> select_word (indexRank64 words) i k = Some (p div 64)"
proof (induction "p div 64 - k" arbitrary: k rule: less_induct)
  case less
  have p: "p < 64 * length words" using assms by (simp add: ith_one_def)
  then have k: "k + 1 \<le> length words" using less.prems by linarith
  have "indexRank64 words ! (k + 1) = ones (take (64 * (k + 1)) (bm_bits words))"
  proof (cases "k + 1 < length words")
    case True
    then show ?thesis using take_bm_bits [of "k + 1" words 0] by (simp add: indexRank64_def rank_index_nth)
  next
    case False
    then have "k + 1 = length words" using k by simp
    then show ?thesis by (simp add: indexRank64_def rank_index_nth flip: mult_Suc_right)
  qed
  then have "indexRank64 words ! (k + 1) \<le> i \<longleftrightarrow> \<not> p < 64 * (k + 1)"
    using ith_one_less [OF assms, of "64 * (k + 1)"] by (simp add: not_less)
  moreover have "p < 64 * (k + 1) \<longleftrightarrow> p div 64 = k" using less.prems by auto
  ultimately show ?case
    using less k by (subst select_word.simps) (auto simp: indexRank64_def)
qed

text \<open>The next one after a position: none between, and a one there unless it is the length.\<close>

definition next_one :: "bool list \<Rightarrow> nat \<Rightarrow> nat \<Rightarrow> bool" where
  "next_one bs from q \<longleftrightarrow> from \<le> q \<and> q \<le> length bs \<and> (\<forall>k. from \<le> k \<and> k < q \<longrightarrow> \<not> bs ! k) \<and> (q < length bs \<longrightarrow> bs ! q)"

lemma next_one_skip:
  assumes "next_one bs b q" "a \<le> b" "\<And>j. a \<le> j \<Longrightarrow> j < b \<Longrightarrow> \<not> bs ! j"
  shows "next_one bs a q"
proof -
  have "\<not> bs ! k" if "a \<le> k" "k < q" for k
    using assms(1) assms(3) [of k] that by (cases "k < b") (auto simp: next_one_def)
  then show ?thesis using assms(1,2) by (simp add: next_one_def)
qed

lemma TrailingZeros64_lowest:
  assumes "w \<noteq> 0"
  shows "TrailingZeros64 w < 64" "bit w (TrailingZeros64 w)" "i < TrailingZeros64 w \<Longrightarrow> \<not> bit w i"
proof -
  obtain n where n: "bit w n" using assms by (auto simp: bit_eq_iff)
  then have "n < 64" using bit_imp_le_length [of w n] by simp
  let ?xs = "takeWhile (\<lambda>i. \<not> bit w i) [0..<64]"
  have l: "length ?xs < length [0..<64]"
  proof (rule ccontr)
    assume "\<not> ?thesis"
    then have "?xs = [0..<64]" by (metis length_takeWhile_le takeWhile_eq_take take_all not_less)
    then have "\<forall>i \<in> set [0..<64]. \<not> bit w i" by (metis takeWhile_eq_all_conv)
    then show False using n \<open>n < 64\<close> by simp
  qed
  then show "TrailingZeros64 w < 64" by (simp add: TrailingZeros64_def)
  show "bit w (TrailingZeros64 w)"
    using nth_length_takeWhile [OF l] l by (simp add: TrailingZeros64_def)
  show "\<not> bit w i" if "i < TrailingZeros64 w"
    using takeWhile_nth [of i "\<lambda>i. \<not> bit w i" "[0..<64]"] nth_mem [of i ?xs] that l set_takeWhileD
    by (fastforce simp: TrailingZeros64_def)
qed

lemma next_word_correct: "k \<le> length words \<Longrightarrow> next_one (bm_bits words) (64 * k) (next_word words k)"
proof (induction "length words - k" arbitrary: k rule: less_induct)
  case less
  show ?case
  proof (cases "k < length words")
    case False
    then have "k = length words" using less.prems by simp
    then show ?thesis by (subst next_word.simps) (auto simp: next_one_def)
  next
    case True
    have bits: "bm_bits words ! (64 * k + j) = bit (words ! k) j" if "j < 64" for j
      using nth_bm_bits [of "64 * k + j" words] True that by simp
    show ?thesis
    proof (cases "words ! k = 0")
      case False
      note t = TrailingZeros64_lowest [OF False]
      have "\<not> bm_bits words ! j" if "64 * k \<le> j" "j < 64 * k + TrailingZeros64 (words ! k)" for j
        using bits [of "j - 64 * k"] t(1) t(3) [of "j - 64 * k"] that by simp
      then show ?thesis
        using True False bits [OF t(1)] t(1,2) by (subst next_word.simps) (simp add: next_one_def)
    next
      case zero: True
      have z: "\<not> bm_bits words ! j" if "64 * k \<le> j" "j < 64 * (k + 1)" for j
        using bits [of "j - 64 * k"] zero that by simp
      have e: "next_word words k = next_word words (k + 1)" using True zero by (subst next_word.simps) simp
      have "next_one (bm_bits words) (64 * (k + 1)) (next_word words (k + 1))"
        by (rule less.hyps) (use True in simp_all)
      from next_one_skip [OF this _ z] show ?thesis unfolding e by simp
    qed
  qed
qed

lemma rMaskUpto_nth [simp]: "i < 64 \<Longrightarrow> nth_opt rMaskUpto i = Some (NOT (mask (i + 1)))"
  by (simp add: nth_opt_def rMaskUpto_def mask_eq_exp_minus_1 push_bit_eq_mult del: upt_Suc)

lemma next_in_words:
  assumes "p < 64 * length words"
  defines "v \<equiv> words ! (p div 64) AND NOT (mask (p mod 64 + 1))"
  shows "next_one (bm_bits words) (p + 1)
    (if v \<noteq> 0 then 64 * (p div 64) + TrailingZeros64 v else next_word words (p div 64 + 1))"
proof -
  let ?k = "p div 64"
  have k: "?k < length words" using assms(1) by auto
  have bits: "bit v j \<longleftrightarrow> bm_bits words ! (64 * ?k + j) \<and> p < 64 * ?k + j" if "j < 64" for j
  proof -
    have "p < 64 * ?k + j \<longleftrightarrow> \<not> j < p mod 64 + 1" using mult_div_mod_eq [of 64 p] by linarith
    then show ?thesis using nth_bm_bits [of "64 * ?k + j" words] k that by (simp add: v_def bit_simps)
  qed
  show ?thesis
  proof (cases "v = 0")
    case False
    note t = TrailingZeros64_lowest [OF False]
    have "\<not> bm_bits words ! j" if "p + 1 \<le> j" "j < 64 * ?k + TrailingZeros64 v" for j
    proof -
      have "64 * ?k \<le> j" using that(1) mult_div_mod_eq [of 64 p] by linarith
      then show ?thesis using bits [of "j - 64 * ?k"] t(1) t(3) [of "j - 64 * ?k"] that by simp
    qed
    then show ?thesis using False bits [OF t(1)] t(1,2) k by (simp add: next_one_def)
  next
    case True
    have z: "\<not> bm_bits words ! j" if "p + 1 \<le> j" "j < 64 * (?k + 1)" for j
    proof -
      have "64 * ?k \<le> j" using that(1) mult_div_mod_eq [of 64 p] by linarith
      then show ?thesis using bits [of "j - 64 * ?k"] True that by simp
    qed
    have "next_one (bm_bits words) (64 * (?k + 1)) (next_word words (?k + 1))"
      by (rule next_word_correct) (use k in simp)
    moreover have "p + 1 \<le> 64 * (?k + 1)" using dividend_less_times_div [of 64 p] by simp
    ultimately have "next_one (bm_bits words) (p + 1) (next_word words (?k + 1))" using next_one_skip [OF _ _ z] by blast
    then show ?thesis using True by simp
  qed
qed

theorem select32R64_correct:
  assumes "ith_one (bm_bits words) i p"
  shows "\<exists>q. select32R64 words (fst (indexSelect32R64 words)) (snd (indexSelect32R64 words)) i = Some (p, q) \<and>
    next_one (bm_bits words) (p + 1) q"
proof -
  have p: "p < 64 * length words" using assms by (simp add: ith_one_def)
  then have w: "p div 64 < length words" by auto
  have "32 * (i div 32) < ones (bm_bits words)" using ith_one_bound [OF assms] by linarith
  then obtain q where q: "ith_one (bm_bits words) (32 * (i div 32)) q" using ith_one_exists by blast
  have "q \<le> p" using ith_one_mono [OF q assms] by simp
  then have s: "select_word (indexRank64 words) i (q div 64) = Some (p div 64)"
    by (intro select_word_correct [OF assms] div_le_mono)
  have r: "indexRank64 words ! (p div 64) = ones (bm_bits (take (p div 64) words))"
    using w by (simp add: indexRank64_def rank_index_nth)
  have "ith_one (bm_bits (take (p div 64) words) @ word_bits (words ! (p div 64)) @ bm_bits (drop (Suc (p div 64)) words)) i p"
    using assms word_at_bits [OF w] by simp
  moreover have l: "length (bm_bits (take (p div 64) words)) = 64 * (p div 64)" using w by simp
  have le: "64 * (p div 64) \<le> p" "p mod 64 < 64" by simp_all
  ultimately have "ith_one (word_bits (words ! (p div 64))) (i - ones (bm_bits (take (p div 64) words))) (p mod 64)"
    unfolding ith_one_append l
    using le by (auto simp: ith_one_def minus_mult_div_eq_mod split: if_splits)
  then have "select_in_word (words ! (p div 64)) (i - indexRank64 words ! (p div 64)) = Some (p mod 64)"
    unfolding r by (rule select_in_word_correct)
  then have "select32R64 words (fst (indexSelect32R64 words)) (snd (indexSelect32R64 words)) i = Some (p,
      let v = words ! (p div 64) AND NOT (mask (p mod 64 + 1))
      in if v \<noteq> 0 then 64 * (p div 64) + TrailingZeros64 v else next_word words (p div 64 + 1))"
    using indexSelect_nth [OF q] s w le
    by (simp add: select32R64_def indexSelect32R64_def indexRank64_def nth_opt_def [of words] nth_opt_def [of "rank_index _ _"] Let_def)
  then show ?thesis using next_in_words [OF p] by (simp only: Let_def) blast
qed

end
