(* ===== verification/Domains.thy ===== *)
theory Domains
  imports Bitmaps "HOL-Library.List_Lexorder"
begin

text \<open>
  The domain matcher (common/domain): domain names and domain suffixes, reversed, in a succinct trie.
  The trie is the level-order unary degree sequence of \<open>set.go\<close>: \<open>labelBitmap\<close> has, for every node in
  breadth-first order, one zero per child and a closing one; \<open>labels\<close> are the characters of the
  children; \<open>leaves\<close> marks the nodes that end a key. Children are found by counting zeros (\<open>rank64\<close>)
  and locating ones (\<open>select32R64\<close>) with the help of two indexes, theory Bitmaps.

  Strings are byte lists here. Positions are natural numbers (the code keeps them in \<open>int\<close> and
  \<open>int32\<close>; the sets are far smaller), an index out of range is a panic, \<open>None\<close>.
\<close>

definition prefixLabel :: byte where "prefixLabel = 13"
definition rootLabel :: byte where "rootLabel = 10"
definition dot :: byte where "dot = 0x2E"

lemmas label_defs = prefixLabel_def rootLabel_def dot_def

section \<open>Counting in the label bitmap\<close>

definition countZeros :: "64 word list \<Rightarrow> nat list \<Rightarrow> nat \<Rightarrow> nat option" where
  "countZeros bm ranks i = map_option (\<lambda>(a, _). i - a) (rank64 bm ranks i)"

definition selectIthOne :: "64 word list \<Rightarrow> nat list \<Rightarrow> nat list \<Rightarrow> nat \<Rightarrow> nat option" where
  "selectIthOne bm ranks selects i = map_option fst (select32R64 bm selects ranks i)"

section \<open>Building the set\<close>

record succinct_set =
  ss_leaves :: "64 word list"
  ss_labelBitmap :: "64 word list"
  ss_labels :: bytes
  ss_ranks :: "nat list"
  ss_selects :: "nat list"

definition ss_init :: "succinct_set \<Rightarrow> succinct_set" where
  "ss_init ss =
     (case indexSelect32R64 (ss_labelBitmap ss) of (selects, ranks) \<Rightarrow> ss\<lparr>ss_selects := selects, ss_ranks := ranks\<rparr>)"

text \<open>The end of the group of keys that have the character \<open>c\<close> at \<open>col\<close>.\<close>

function group_end :: "bytes list \<Rightarrow> nat \<Rightarrow> nat \<Rightarrow> byte \<Rightarrow> nat \<Rightarrow> nat option" where
  "group_end keys e col c j =
     (if j < e
      then do {
        key \<leftarrow> nth_opt keys j;
        x \<leftarrow> nth_opt key col;
        if x = c then group_end keys e col c (j + 1) else Some j
      }
      else Some j)"
  by pat_completeness auto
termination by (relation "measure (\<lambda>(keys, e, col, c, j). e - j)") auto

declare group_end.simps [simp del]

lemma group_end_ge: "group_end keys e col c j = Some j' \<Longrightarrow> j \<le> j' \<and> (j \<le> e \<longrightarrow> j' \<le> e)"
proof (induction keys e col c j rule: group_end.induct)
  case (1 keys e col c j)
  then show ?case
    by (subst (asm) (2) group_end.simps) (fastforce split: if_splits simp: bind_eq_Some_conv)
qed

text \<open>The children of a node: for every group its bounds and its character.\<close>

function groups :: "bytes list \<Rightarrow> nat \<Rightarrow> nat \<Rightarrow> nat \<Rightarrow> (nat \<times> nat \<times> byte) list option" where
  "groups keys e col j =
     (if j < e
      then (case Option.bind (nth_opt keys j) (\<lambda>key. nth_opt key col) of
              None \<Rightarrow> None
            | Some c \<Rightarrow>
                (case group_end keys e col c (j + 1) of
                   None \<Rightarrow> None
                 | Some j' \<Rightarrow> map_option (\<lambda>gs. (j, j', c) # gs) (groups keys e col j')))
      else Some [])"
  by pat_completeness auto
termination
  by (relation "measure (\<lambda>(keys, e, col, j). e - j)") (auto dest: group_end_ge)

declare groups.simps [simp del]

text \<open>One step of the inner loop: a new node, its label and its zero bit.\<close>

definition add_child :: "nat \<Rightarrow> nat \<times> nat \<times> byte \<Rightarrow>
    succinct_set \<times> nat \<times> (nat \<times> nat \<times> nat) list \<Rightarrow> succinct_set \<times> nat \<times> (nat \<times> nat \<times> nat) list" where
  "add_child col g st =
     (case (g, st) of ((frm, j, c), (ss, lIdx, queue)) \<Rightarrow>
        (ss\<lparr>ss_labels := ss_labels ss @ [c], ss_labelBitmap := setBit (ss_labelBitmap ss) lIdx 0\<rparr>,
         lIdx + 1, queue @ [(frm, j, col + 1)]))"

text \<open>The breadth-first loop over the queue of \<open>(start, end, column)\<close>.\<close>

partial_function (option) build_loop ::
  "bytes list \<Rightarrow> nat \<Rightarrow> (nat \<times> nat \<times> nat) list \<Rightarrow> nat \<Rightarrow> succinct_set \<Rightarrow> succinct_set option" where
  "build_loop keys i queue lIdx ss =
     (if i < length queue
      then (case queue ! i of (s, e, col) \<Rightarrow>
        Option.bind (nth_opt keys s) (\<lambda>key.
          let leaf = (col = length key);
              s' = (if leaf then s + 1 else s);
              ss' = (if leaf then ss\<lparr>ss_leaves := setBit (ss_leaves ss) i 1\<rparr> else ss)
          in Option.bind (groups keys e col s') (\<lambda>gs.
               (case fold (add_child col) gs (ss', lIdx, queue) of (ss'', lIdx', queue') \<Rightarrow>
                  build_loop keys (i + 1) queue' (lIdx' + 1)
                    (ss''\<lparr>ss_labelBitmap := setBit (ss_labelBitmap ss'') lIdx' 1\<rparr>)))))
      else Some ss)"

declare build_loop.simps [code]

definition empty_set :: succinct_set where
  "empty_set = \<lparr>ss_leaves = [], ss_labelBitmap = [], ss_labels = [], ss_ranks = [], ss_selects = []\<rparr>"

definition newSuccinctSet :: "bytes list \<Rightarrow> succinct_set option" where
  "newSuccinctSet keys = map_option ss_init (build_loop keys 0 [(0, length keys, 0)] 0 empty_set)"

section \<open>Looking up\<close>

text \<open>
  The inner loop of \<open>Has\<close> for one character: the answer of a \<open>return\<close>, or the position of the label
  it stopped at.
\<close>

function scan_labels :: "succinct_set \<Rightarrow> byte \<Rightarrow> nat \<Rightarrow> nat \<Rightarrow> (bool + nat) option" where
  "scan_labels ss currentChar nodeId bmIdx =
     (case getBit (ss_labelBitmap ss) bmIdx of
        None \<Rightarrow> None
      | Some w \<Rightarrow>
          if w \<noteq> 0 then Some (Inl False)
          else do {
            guard_panic (nodeId \<le> bmIdx);
            nextLabel \<leftarrow> nth_opt (ss_labels ss) (bmIdx - nodeId);
            if nextLabel = prefixLabel then Some (Inl True)
            else do {
              hit \<leftarrow> (if nextLabel = rootLabel
                then do {
                  nextNodeId \<leftarrow> countZeros (ss_labelBitmap ss) (ss_ranks ss) (bmIdx + 1);
                  leaf \<leftarrow> getBit (ss_leaves ss) nextNodeId;
                  Some (currentChar = dot \<and> leaf \<noteq> 0)
                }
                else Some False);
              if hit then Some (Inl True)
              else if nextLabel = currentChar then Some (Inr bmIdx)
              else scan_labels ss currentChar nodeId (bmIdx + 1)
            }
          })"
  by pat_completeness auto
termination
proof (relation "measure (\<lambda>(ss, c, n, b). 64 * length (ss_labelBitmap ss) - b)", simp)
  fix ss :: succinct_set and currentChar nodeId bmIdx w
  assume "getBit (ss_labelBitmap ss) bmIdx = Some w"
  then have "bmIdx div 64 < length (ss_labelBitmap ss)" by (auto simp: getBit_def nth_opt_def split: if_splits)
  then have "bmIdx < 64 * length (ss_labelBitmap ss)" by linarith
  then show "((ss, currentChar, nodeId, bmIdx + 1), ss, currentChar, nodeId, bmIdx)
      \<in> measure (\<lambda>(ss, c, n, b). 64 * length (ss_labelBitmap ss) - b)" by simp
qed

declare scan_labels.simps [simp del]

text \<open>The last loop, after the key is used up.\<close>

function scan_end :: "succinct_set \<Rightarrow> nat \<Rightarrow> nat \<Rightarrow> bool option" where
  "scan_end ss nodeId bmIdx =
     (case getBit (ss_labelBitmap ss) bmIdx of
        None \<Rightarrow> None
      | Some w \<Rightarrow>
          if w \<noteq> 0 then Some False
          else do {
            guard_panic (nodeId \<le> bmIdx);
            nextLabel \<leftarrow> nth_opt (ss_labels ss) (bmIdx - nodeId);
            if nextLabel = prefixLabel \<or> nextLabel = rootLabel then Some True
            else scan_end ss nodeId (bmIdx + 1)
          })"
  by pat_completeness auto
termination
proof (relation "measure (\<lambda>(ss, n, b). 64 * length (ss_labelBitmap ss) - b)", simp)
  fix ss :: succinct_set and nodeId bmIdx w
  assume "getBit (ss_labelBitmap ss) bmIdx = Some w"
  then have "bmIdx div 64 < length (ss_labelBitmap ss)" by (auto simp: getBit_def nth_opt_def split: if_splits)
  then have "bmIdx < 64 * length (ss_labelBitmap ss)" by linarith
  then show "((ss, nodeId, bmIdx + 1), ss, nodeId, bmIdx) \<in> measure (\<lambda>(ss, n, b). 64 * length (ss_labelBitmap ss) - b)"
    by simp
qed

declare scan_end.simps [simp del]

fun has_loop :: "succinct_set \<Rightarrow> bytes \<Rightarrow> nat \<Rightarrow> nat \<Rightarrow> bool option" where
  "has_loop ss [] nodeId bmIdx = do {
     leaf \<leftarrow> getBit (ss_leaves ss) nodeId;
     if leaf \<noteq> 0 then Some True else scan_end ss nodeId bmIdx
   }"
| "has_loop ss (c # key) nodeId bmIdx = do {
     r \<leftarrow> scan_labels ss c nodeId bmIdx;
     (case r of
        Inl answer \<Rightarrow> Some answer
      | Inr bmIdx \<Rightarrow> do {
          nodeId \<leftarrow> countZeros (ss_labelBitmap ss) (ss_ranks ss) (bmIdx + 1);
          guard_panic (1 \<le> nodeId);
          p \<leftarrow> selectIthOne (ss_labelBitmap ss) (ss_ranks ss) (ss_selects ss) (nodeId - 1);
          has_loop ss key nodeId (p + 1)
        })
   }"

definition ss_Has :: "succinct_set \<Rightarrow> bytes \<Rightarrow> bool option" where
  "ss_Has ss key = has_loop ss key 0 0"

section \<open>Reversing by characters\<close>

text \<open>
  \<open>utf8.DecodeRuneInString\<close> of a non-empty string: the character and its size; a byte that starts no
  well-formed sequence is the replacement character, of size one.
\<close>

definition RuneError :: nat where "RuneError = 0xFFFD"

definition cont_byte :: "byte \<Rightarrow> bool" where "cont_byte b \<longleftrightarrow> 0x80 \<le> b \<and> b \<le> 0xBF"

definition low6 :: "byte \<Rightarrow> nat" where "low6 b = unat b mod 64"

definition DecodeRune :: "bytes \<Rightarrow> nat \<times> nat" where
  "DecodeRune s =
     (case s of
        [] \<Rightarrow> (RuneError, 0)
      | b0 # r \<Rightarrow>
          if b0 < 0x80 then (unat b0, 1)
          else if 0xC2 \<le> b0 \<and> b0 \<le> 0xDF then
            (case r of
               b1 # _ \<Rightarrow> if cont_byte b1 then (unat b0 mod 32 * 64 + low6 b1, 2) else (RuneError, 1)
             | _ \<Rightarrow> (RuneError, 1))
          else if 0xE0 \<le> b0 \<and> b0 \<le> 0xEF then
            (case r of
               b1 # b2 # _ \<Rightarrow>
                 if (if b0 = 0xE0 then 0xA0 else 0x80) \<le> b1 \<and> b1 \<le> (if b0 = 0xED then 0x9F else 0xBF) \<and> cont_byte b2
                 then (unat b0 mod 16 * 4096 + low6 b1 * 64 + low6 b2, 3) else (RuneError, 1)
             | _ \<Rightarrow> (RuneError, 1))
          else if 0xF0 \<le> b0 \<and> b0 \<le> 0xF4 then
            (case r of
               b1 # b2 # b3 # _ \<Rightarrow>
                 if (if b0 = 0xF0 then 0x90 else 0x80) \<le> b1 \<and> b1 \<le> (if b0 = 0xF4 then 0x8F else 0xBF)
                    \<and> cont_byte b2 \<and> cont_byte b3
                 then (unat b0 mod 8 * 262144 + low6 b1 * 4096 + low6 b2 * 64 + low6 b3, 4) else (RuneError, 1)
             | _ \<Rightarrow> (RuneError, 1))
          else (RuneError, 1))"

lemma DecodeRune_size: "s \<noteq> [] \<Longrightarrow> 1 \<le> snd (DecodeRune s)"
  by (cases s) (auto simp: DecodeRune_def split: list.splits if_splits)

lemma DecodeRune_drop_size: "(r, n) = DecodeRune (drop i s) \<Longrightarrow> i < length s \<Longrightarrow> 1 \<le> n"
  using DecodeRune_size [of "drop i s"] by (metis drop_eq_Nil not_le snd_conv)

text \<open>The UTF-8 bytes of a character; surrogates and numbers out of range are replaced.\<close>

definition rune_bytes :: "nat \<Rightarrow> bytes" where
  "rune_bytes r =
     (let r = (if 0x10FFFF < r \<or> (0xD800 \<le> r \<and> r \<le> 0xDFFF) then RuneError else r) in
      if r < 0x80 then [of_nat r]
      else if r < 0x800 then [of_nat (0xC0 + r div 64), of_nat (0x80 + r mod 64)]
      else if r < 0x10000 then
        [of_nat (0xE0 + r div 4096), of_nat (0x80 + r div 64 mod 64), of_nat (0x80 + r mod 64)]
      else [of_nat (0xF0 + r div 262144), of_nat (0x80 + r div 4096 mod 64),
            of_nat (0x80 + r div 64 mod 64), of_nat (0x80 + r mod 64)])"

text \<open>\<open>utf8.EncodeRune(b[i:], r)\<close>: it panics when the bytes do not fit.\<close>

definition EncodeRune :: "bytes \<Rightarrow> nat \<Rightarrow> nat \<Rightarrow> bytes option" where
  "EncodeRune b i r = do {
     guard_panic (i + length (rune_bytes r) \<le> length b);
     Some (put_at b i (rune_bytes r))
   }"

text \<open>The loop the three functions share; \<open>b\<close> is the result's memory.\<close>

function reverse_fill :: "bytes \<Rightarrow> nat \<Rightarrow> bytes \<Rightarrow> bytes option" where
  "reverse_fill domain i b =
     (if i < length domain
      then (case DecodeRune (drop i domain) of (r, n) \<Rightarrow>
              Option.bind (EncodeRune b (length domain - (i + n)) r) (\<lambda>b'. reverse_fill domain (i + n) b'))
      else Some b)"
  by pat_completeness auto
termination
  by (relation "measure (\<lambda>(domain, i, b). length domain - i)") (auto dest!: DecodeRune_drop_size)

declare reverse_fill.simps [simp del]

definition reverseDomain :: "bytes \<Rightarrow> bytes option" where
  "reverseDomain domain = reverse_fill domain 0 (replicate (length domain) 0)"

definition reverseDomainSuffix :: "bytes \<Rightarrow> bytes option" where
  "reverseDomainSuffix domain = do {
     b \<leftarrow> reverse_fill domain 0 (replicate (length domain + 1) 0);
     Some (b[length domain := prefixLabel])
   }"

definition reverseDomainRoot :: "bytes \<Rightarrow> bytes option" where
  "reverseDomainRoot domain = do {
     b \<leftarrow> reverse_fill domain 0 (replicate (length domain + 1) 0);
     Some (b[length domain := rootLabel])
   }"

section \<open>Matchers\<close>

text \<open>The map \<open>seen\<close> is the list of its keys; \<open>sort.Strings\<close> is the library's sort, in byte order.\<close>

record matcher_builder =
  mb_seen :: "bytes list"
  mb_domainList :: "bytes list"

definition NewMatcherBuilder :: matcher_builder where
  "NewMatcherBuilder = \<lparr>mb_seen = [], mb_domainList = []\<rparr>"

definition AddDomainSuffix :: "bytes \<Rightarrow> matcher_builder \<Rightarrow> matcher_builder option" where
  "AddDomainSuffix domain b =
     (if domain \<in> set (mb_seen b) then Some b
      else do {
        first \<leftarrow> nth_opt domain 0;
        key \<leftarrow> (if first = dot then reverseDomainSuffix domain else reverseDomainRoot domain);
        Some \<lparr>mb_seen = domain # mb_seen b, mb_domainList = mb_domainList b @ [key]\<rparr>
      })"

definition AddDomain :: "bytes \<Rightarrow> matcher_builder \<Rightarrow> matcher_builder option" where
  "AddDomain domain b =
     (if domain \<in> set (mb_seen b) then Some b
      else do {
        key \<leftarrow> reverseDomain domain;
        Some \<lparr>mb_seen = domain # mb_seen b, mb_domainList = mb_domainList b @ [key]\<rparr>
      })"

definition Build :: "matcher_builder \<Rightarrow> succinct_set option" where
  "Build b = newSuccinctSet (sort (mb_domainList b))"

fun add_all :: "('a \<Rightarrow> 'b \<Rightarrow> 'b option) \<Rightarrow> 'a list \<Rightarrow> 'b \<Rightarrow> 'b option" where
  "add_all add [] b = Some b"
| "add_all add (x # xs) b = Option.bind (add x b) (add_all add xs)"

text \<open>\<open>NewMatcher\<close> runs the same two loops on the names in lower case, the suffixes first.\<close>

definition domain_lower :: "bytes \<Rightarrow> bytes" where
  "domain_lower d = str_bytes (str_lower (bytes_str d))"

definition NewMatcher :: "bytes list \<Rightarrow> bytes list \<Rightarrow> succinct_set option" where
  "NewMatcher domains domainSuffix = do {
     b \<leftarrow> add_all (\<lambda>d. AddDomainSuffix (domain_lower d)) domainSuffix NewMatcherBuilder;
     b \<leftarrow> add_all (\<lambda>d. AddDomain (domain_lower d)) domains b;
     Build b
   }"

definition matcher_Match :: "succinct_set \<Rightarrow> bytes \<Rightarrow> bool option" where
  "matcher_Match m domain = do {
     key \<leftarrow> reverseDomain (domain_lower domain);
     ss_Has m key
   }"

end
