(* ===== verification/Rules.thy ===== *)
theory Rules
  imports Config Domains Sniff "HOL-Library.AList"
begin

text \<open>
  The rules of the router (route/rule*.go): their construction from the configuration and how they
  match a connection.

  What the rules use from outside is in the record \<open>rule_env\<close>: the order in which a map is ranged
  over, the address sets of go4.org/netipx (built from addresses and prefixes, asked for an
  address), and the registered constructors and the matching of custom rules. An error that
  \<open>fmt.Errorf\<close> wraps keeps the fixed text of its message.
\<close>

section \<open>Address entries\<close>

datatype ip_entry = EntryAddr addr | EntryPrefix addr nat

text \<open>\<open>netip.ParsePrefix\<close>: no zone, no sign and no leading zero in the length.\<close>

definition last_slash :: "string \<Rightarrow> (string \<times> string) option" where
  "last_slash s =
     (if CHR ''/'' \<in> set s
      then Some (rev (tl (dropWhile (\<lambda>c. c \<noteq> CHR ''/'') (rev s))), rev (takeWhile (\<lambda>c. c \<noteq> CHR ''/'') (rev s)))
      else None)"

definition has_zone :: "addr \<Rightarrow> bool" where
  "has_zone a = (case a of Addr6 _ z \<Rightarrow> z \<noteq> [] | _ \<Rightarrow> False)"

definition ParsePrefix :: "string \<Rightarrow> (addr \<times> nat) option" where
  "ParsePrefix s = do {
     (a, bits) \<leftarrow> last_slash s;
     ip \<leftarrow> ParseAddr a;
     if has_zone ip then None
     else if 1 < length bits \<and> \<not> (is_digit (hd bits) \<and> hd bits \<noteq> CHR ''0'') then None
     else (case ParseUint bits 63 of
             Inl _ \<Rightarrow> None
           | Inr n \<Rightarrow> if n \<le> (if Addr_Is6 ip then 128 else 32) then Some (ip, n) else None)
   }"

definition netip_error :: go_error where "netip_error = ErrText ''unable to parse IP''"

text \<open>\<open>addIPToBuilder\<close>; the builder is the list of what was added.\<close>

definition addIPToBuilder :: "ip_entry list \<Rightarrow> string \<Rightarrow> go_error + ip_entry list" where
  "addIPToBuilder builder s =
     (case last_slash s of
        None \<Rightarrow> (case ParseAddr s of None \<Rightarrow> Inl netip_error | Some a \<Rightarrow> Inr (builder @ [EntryAddr a]))
      | Some _ \<Rightarrow> (case ParsePrefix s of None \<Rightarrow> Inl netip_error | Some (a, n) \<Rightarrow> Inr (builder @ [EntryPrefix a n])))"

fun addIPs :: "ip_entry list \<Rightarrow> string list \<Rightarrow> go_error + ip_entry list" where
  "addIPs builder [] = Inr builder"
| "addIPs builder (s # ss) =
     (case addIPToBuilder builder s of
        Inl e \<Rightarrow> Inl (CauseError ''bad IP address or CIDR: '' e)
      | Inr builder' \<Rightarrow> addIPs builder' ss)"

section \<open>Rules\<close>

datatype ('ip, 'c) rule =
    RuleAlways rule_config
  | RuleLogicalAnd "('ip, 'c) rule list" rule_config
  | RuleLogicalOr "('ip, 'c) rule list" rule_config
  | RuleServiceName "string_set list" rule_config
  | RuleSourceIPVersion rule_config "8 word"
  | RuleSourceIP 'ip rule_config
  | RuleSourcePort rule_config "16 word set"
  | RuleMinecraftHostname succinct_set rule_config
  | RuleMinecraftPlayerName "string_set list" bool rule_config
  | RuleMinecraftStatus rule_config
  | RuleMinecraftTransfer rule_config
  | RuleCustom 'c rule_config

type_synonym list_map = "string \<rightharpoonup> string_set"
type_synonym 'c registry = "(string \<times> (rule_config \<Rightarrow> list_map \<Rightarrow> go_error + 'c)) list"

record ('ip, 'c) rule_env =
  re_enum :: "string_set \<Rightarrow> string list"
  re_IPSet :: "ip_entry list \<Rightarrow> go_error + 'ip"
  re_Contains :: "'ip \<Rightarrow> addr \<Rightarrow> bool"
  re_custom :: "'c \<Rightarrow> metadata \<Rightarrow> bool \<times> metadata"

fun rule_Config :: "('ip, 'c) rule \<Rightarrow> rule_config" where
  "rule_Config (RuleAlways c) = c"
| "rule_Config (RuleLogicalAnd _ c) = c"
| "rule_Config (RuleLogicalOr _ c) = c"
| "rule_Config (RuleServiceName _ c) = c"
| "rule_Config (RuleSourceIPVersion c _) = c"
| "rule_Config (RuleSourceIP _ c) = c"
| "rule_Config (RuleSourcePort c _) = c"
| "rule_Config (RuleMinecraftHostname _ c) = c"
| "rule_Config (RuleMinecraftPlayerName _ _ c) = c"
| "rule_Config (RuleMinecraftStatus c) = c"
| "rule_Config (RuleMinecraftTransfer c) = c"
| "rule_Config (RuleCustom _ c) = c"

section \<open>Construction\<close>

definition parameterListPrefix :: string where "parameterListPrefix = ''list:''"
definition typeCustomPrefix :: string where "typeCustomPrefix = ''custom:''"

text \<open>\<open>RegisterCustomRule\<close>: a nil constructor removes the name.\<close>

definition RegisterCustomRule ::
  "string \<Rightarrow> (rule_config \<Rightarrow> list_map \<Rightarrow> go_error + 'c) option \<Rightarrow> 'c registry \<Rightarrow> 'c registry" where
  "RegisterCustomRule nm initializer reg =
     (case initializer of None \<Rightarrow> AList.delete nm reg | Some f \<Rightarrow> AList.update nm f reg)"

definition list_missing :: "string \<Rightarrow> go_error" where
  "list_missing i = ErrText (''list ['' @ i @ ''] is not found'')"

text \<open>
  The loop that service names and player names share: a named list joins the sets, anything else
  goes into the first set.
\<close>

fun name_sets :: "list_map \<Rightarrow> string list \<Rightarrow> string_set list \<Rightarrow> go_error + string_set list" where
  "name_sets lm [] sets = Inr sets"
| "name_sets lm (i # is) sets =
     (if HasPrefix i parameterListPrefix
      then (let i = TrimPrefix i parameterListPrefix in
            case lm i of None \<Rightarrow> Inl (list_missing i) | Some s \<Rightarrow> name_sets lm is (sets @ [s]))
      else name_sets lm is (Set_Add (hd sets) i # tl sets))"

definition NewServiceNameRule :: "rule_config \<Rightarrow> list_map \<Rightarrow> go_error + ('ip, 'c) rule" where
  "NewServiceNameRule c lm =
     (case with_parameter (rc_Parameter c) Listable_UnmarshalJSON of
        Inl e \<Rightarrow> Inl (CauseError ''bad service name list: '' e)
      | Inr serviceList \<Rightarrow> map_Inr (\<lambda>sets. RuleServiceName sets c) (name_sets lm serviceList [{}]))"

definition NewMinecraftPlayerNameRule :: "rule_config \<Rightarrow> list_map \<Rightarrow> go_error + ('ip, 'c) rule" where
  "NewMinecraftPlayerNameRule c lm =
     (case with_parameter (rc_Parameter c) (\<lambda>j. list_parameter_UnmarshalJSON j \<lparr>lp_Lists = [], lp_LowerCase = False\<rparr>) of
        Inl e \<Rightarrow> Inl (CauseError ''bad player name parameter: '' e)
      | Inr p \<Rightarrow> map_Inr (\<lambda>sets. RuleMinecraftPlayerName sets (lp_LowerCase p) c) (name_sets lm (lp_Lists p) [{}]))"

definition NewSourceIPVersionRule :: "rule_config \<Rightarrow> go_error + ('ip, 'c) rule" where
  "NewSourceIPVersionRule c =
     (case with_parameter (rc_Parameter c) (\<lambda>j. get_word j 0) of
        Inl e \<Rightarrow> Inl (CauseError ''bad IP version: '' e)
      | Inr version \<Rightarrow> Inr (RuleSourceIPVersion c version))"

definition NewSourcePortRule :: "rule_config \<Rightarrow> go_error + ('ip, 'c) rule" where
  "NewSourcePortRule c =
     (case with_parameter (rc_Parameter c) (decode_array (\<lambda>j. get_word j 0)) of
        Inl e \<Rightarrow> Inl (CauseError ''bad port list: '' e)
      | Inr ports \<Rightarrow> Inr (RuleSourcePort c (set ports)))"

fun cidr_loop :: "(string_set \<Rightarrow> string list) \<Rightarrow> list_map \<Rightarrow> string list \<Rightarrow> ip_entry list \<Rightarrow> go_error + ip_entry list" where
  "cidr_loop enum lm [] builder = Inr builder"
| "cidr_loop enum lm (i # is) builder =
     (if HasPrefix i parameterListPrefix
      then (let i = TrimPrefix i parameterListPrefix in
            case lm i of
              None \<Rightarrow> Inl (list_missing i)
            | Some s \<Rightarrow> (case addIPs builder (enum s) of Inl e \<Rightarrow> Inl e | Inr b \<Rightarrow> cidr_loop enum lm is b))
      else (case addIPs builder [i] of Inl e \<Rightarrow> Inl e | Inr b \<Rightarrow> cidr_loop enum lm is b))"

definition NewSourceIPRule :: "('ip, 'c) rule_env \<Rightarrow> rule_config \<Rightarrow> list_map \<Rightarrow> go_error + ('ip, 'c) rule" where
  "NewSourceIPRule env c lm =
     (case with_parameter (rc_Parameter c) Listable_UnmarshalJSON of
        Inl e \<Rightarrow> Inl (CauseError ''bad IP CIDR list: '' e)
      | Inr cidrList \<Rightarrow>
          (case cidr_loop (re_enum env) lm cidrList [] of
             Inl e \<Rightarrow> Inl e
           | Inr builder \<Rightarrow>
               (case re_IPSet env builder of
                  Inl e \<Rightarrow> Inl (Cause ''build IP set: '' e)
                | Inr s \<Rightarrow> Inr (RuleSourceIP s c))))"

text \<open>One of the two loops of \<open>newDomainRule\<close>; the builder panics on an empty suffix.\<close>

fun domain_loop ::
  "(bytes \<Rightarrow> matcher_builder \<Rightarrow> matcher_builder option) \<Rightarrow> (string_set \<Rightarrow> string list) \<Rightarrow> list_map \<Rightarrow>
   string list \<Rightarrow> matcher_builder \<Rightarrow> (go_error + matcher_builder) option" where
  "domain_loop add enum lm [] b = Some (Inr b)"
| "domain_loop add enum lm (i # is) b =
     (if HasPrefix i parameterListPrefix
      then (let i = TrimPrefix i parameterListPrefix in
            case lm i of
              None \<Rightarrow> Some (Inl (list_missing i))
            | Some s \<Rightarrow> do { b \<leftarrow> add_all (\<lambda>k. add (str_bytes k)) (enum s) b; domain_loop add enum lm is b })
      else do { b \<leftarrow> add (str_bytes i) b; domain_loop add enum lm is b })"

definition newDomainRule ::
  "('ip, 'c) rule_env \<Rightarrow> rule_config \<Rightarrow> list_map \<Rightarrow> (go_error + succinct_set) option" where
  "newDomainRule env c lm =
     (case with_parameter (rc_Parameter c) (\<lambda>j. decode_struct domain_field j \<lparr>rd_Domain = [], rd_DomainSuffix = []\<rparr>) of
        Inl e \<Rightarrow> Some (Inl (Cause ''bad domain rule parameter: '' e))
      | Inr dc \<Rightarrow> do {
          r \<leftarrow> domain_loop AddDomain (re_enum env) lm (rd_Domain dc) NewMatcherBuilder;
          (case r of
             Inl e \<Rightarrow> Some (Inl e)
           | Inr b \<Rightarrow> do {
               r \<leftarrow> domain_loop AddDomainSuffix (re_enum env) lm (rd_DomainSuffix dc) b;
               (case r of Inl e \<Rightarrow> Some (Inl e) | Inr b \<Rightarrow> map_option Inr (Build b))
             })
        })"

definition NewMinecraftHostnameRule ::
  "('ip, 'c) rule_env \<Rightarrow> rule_config \<Rightarrow> list_map \<Rightarrow> (go_error + ('ip, 'c) rule) option" where
  "NewMinecraftHostnameRule env c lm =
     map_option (map_Inr (\<lambda>m. RuleMinecraftHostname m c)) (newDomainRule env c lm)"

text \<open>
  Decoded rules carry parameters that are smaller than the text they were decoded from: this is why
  the construction of nested rules ends.
\<close>

definition parameter_size :: "rule_config \<Rightarrow> nat" where
  "parameter_size c = (case rc_Parameter c of None \<Rightarrow> 0 | Some j \<Rightarrow> size j)"

lemma rule_field_parameter:
  "rule_field k v r = Inr r' \<Longrightarrow> rc_Parameter r' = rc_Parameter r \<or> rc_Parameter r' = Some v"
  by (auto simp: rule_field_def map_Inr_def split: if_splits sum.splits)

lemma set_fields_parameter:
  "set_fields rule_field fs r = Inr r' \<Longrightarrow>
   rc_Parameter r' = rc_Parameter r \<or> (\<exists>k v. (k, v) \<in> set fs \<and> rc_Parameter r' = Some v)"
proof (induction fs arbitrary: r)
  case Nil
  then show ?case by simp
next
  case (Cons f fs)
  obtain k v where f: "f = (k, v)" by (cases f)
  from Cons.prems obtain r1 where r1: "rule_field k v r = Inr r1" "set_fields rule_field fs r1 = Inr r'"
    by (auto simp: f split: sum.splits)
  show ?case using Cons.IH [OF r1(2)] rule_field_parameter [OF r1(1)] f by auto
qed

lemma decode_rule_size: "decode_rule j = Inr c \<Longrightarrow> parameter_size c \<le> size j"
proof (cases j)
  case (JObj fs)
  assume "decode_rule j = Inr c"
  then have "set_fields rule_field fs zero_rule = Inr c" by (simp add: decode_rule_def decode_struct_def JObj)
  from set_fields_parameter [OF this] consider "rc_Parameter c = None"
    | k v where "(k, v) \<in> set fs" "rc_Parameter c = Some v" by (auto simp: zero_rule_def)
  then show ?thesis
  proof cases
    case 2
    have "size v \<le> size_list (\<lambda>p. size (snd p)) fs"
      using size_list_estimation' [OF 2(1), of "size v" "\<lambda>p. size (snd p)"] by simp
    also have "\<dots> \<le> size j"
      unfolding JObj json.size by (intro le_trans [OF size_list_pointwise le_add1]) (auto split: prod.splits)
    finally show ?thesis using 2(2) by (simp add: parameter_size_def)
  qed (simp add: parameter_size_def)
qed (auto simp: decode_rule_def decode_struct_def parameter_size_def zero_rule_def)

definition rules_weight :: "rule_config list \<Rightarrow> nat" where
  "rules_weight cs = sum_list (map (\<lambda>c. 2 * parameter_size c + 2) cs)"

lemma decode_rules_weight: "decode_list decode_rule xs = Inr cs \<Longrightarrow> rules_weight cs \<le> 2 * size_list size xs"
proof (induction xs arbitrary: cs)
  case Nil
  then show ?case by (simp add: rules_weight_def)
next
  case (Cons x xs)
  then obtain c cs' where c: "decode_rule x = Inr c" "decode_list decode_rule xs = Inr cs'" "cs = c # cs'"
    by (auto simp: map_Inr_def split: sum.splits)
  show ?case using Cons.IH [OF c(2)] decode_rule_size [OF c(1)] by (simp add: c(3) rules_weight_def)
qed

definition NewMinecraftStatusRule :: "rule_config \<Rightarrow> go_error + ('ip, 'c) rule" where
  "NewMinecraftStatusRule c = Inr (RuleMinecraftStatus c)"

definition NewMinecraftTransferRule :: "rule_config \<Rightarrow> go_error + ('ip, 'c) rule" where
  "NewMinecraftTransferRule c = Inr (RuleMinecraftTransfer c)"

lemmas NewMinecraft_defs [simp] = NewMinecraftStatusRule_def NewMinecraftTransferRule_def

definition logic_rules :: "rule_config \<Rightarrow> go_error + rule_config list" where
  "logic_rules c = with_parameter (rc_Parameter c) (decode_array decode_rule)"

lemma logic_rules_weight: "logic_rules c = Inr cs \<Longrightarrow> rules_weight cs \<le> 2 * parameter_size c"
  by (auto simp: logic_rules_def with_parameter_def decode_array_def rules_weight_def parameter_size_def
      split: option.splits json.splits dest!: decode_rules_weight)

text \<open>The two logical rules, from the result of \<open>newLogicalRule\<close>.\<close>

definition NewLogicalAndRule :: "rule_config \<Rightarrow> (go_error + ('ip, 'c) rule list) option \<Rightarrow> (go_error + ('ip, 'c) rule) option" where
  "NewLogicalAndRule c logicRule = map_option (map_Inr (\<lambda>rs. RuleLogicalAnd rs c)) logicRule"

definition NewLogicalOrRule :: "rule_config \<Rightarrow> (go_error + ('ip, 'c) rule list) option \<Rightarrow> (go_error + ('ip, 'c) rule) option" where
  "NewLogicalOrRule c logicRule = map_option (map_Inr (\<lambda>rs. RuleLogicalOr rs c)) logicRule"

lemmas NewLogical_defs [simp] = NewLogicalAndRule_def NewLogicalOrRule_def

function
  NewRule :: "('ip, 'c) rule_env \<Rightarrow> 'c registry \<Rightarrow> list_map \<Rightarrow> rule_config \<Rightarrow> (go_error + ('ip, 'c) rule) option"
  and newLogicalRule :: "('ip, 'c) rule_env \<Rightarrow> 'c registry \<Rightarrow> list_map \<Rightarrow> rule_config list \<Rightarrow>
    (go_error + ('ip, 'c) rule list) option" where
  "NewRule env reg lm c =
     (if rc_Type c = ''always'' then Some (Inr (RuleAlways c))
      else if rc_Type c = ''and'' \<or> rc_Type c = ''or'' then
        (case logic_rules c of
           Inl e \<Rightarrow> Some (Inl (Cause ''bad rule in logic rule parameter: '' e))
         | Inr cs \<Rightarrow>
             if rc_Type c = ''and'' then NewLogicalAndRule c (newLogicalRule env reg lm cs)
             else NewLogicalOrRule c (newLogicalRule env reg lm cs))
      else if rc_Type c = ''ServiceName'' then Some (NewServiceNameRule c lm)
      else if rc_Type c = ''SourceIPVersion'' then Some (NewSourceIPVersionRule c)
      else if rc_Type c = ''SourceIP'' then Some (NewSourceIPRule env c lm)
      else if rc_Type c = ''SourcePort'' then Some (NewSourcePortRule c)
      else if rc_Type c = ''MinecraftHostname'' then NewMinecraftHostnameRule env c lm
      else if rc_Type c = ''MinecraftPlayerName'' then Some (NewMinecraftPlayerNameRule c lm)
      else if rc_Type c = ''MinecraftStatus'' then Some (NewMinecraftStatusRule c)
      else if rc_Type c = ''MinecraftTransfer'' then Some (NewMinecraftTransferRule c)
      else if reg \<noteq> [] \<and> HasPrefix (rc_Type c) typeCustomPrefix then
        (let typeName = TrimPrefix (rc_Type c) typeCustomPrefix in
         case map_of reg typeName of
           None \<Rightarrow> Some (Inl (ErrText (''unknown custom rule type: '' @ typeName)))
         | Some f \<Rightarrow> Some (map_Inr (\<lambda>x. RuleCustom x c) (f c lm)))
      else Some (Inl (Cause (''type ['' @ rc_Type c @ '']: '') ErrRuleTypeNotFound)))"
| "newLogicalRule env reg lm [] = Some (Inr [])"
| "newLogicalRule env reg lm (c # cs) = do {
     r \<leftarrow> NewRule env reg lm c;
     (case r of
        Inl e \<Rightarrow> Some (Inl (Cause ''initialize rule in logic rule parameter: '' e))
      | Inr rule \<Rightarrow> map_option (map_Inr (\<lambda>rs. rule # rs)) (newLogicalRule env reg lm cs))
   }"
  by pat_completeness auto
termination
  by (relation "measure (case_sum (\<lambda>(env, reg, lm, c). 2 * parameter_size c + 1)
                                  (\<lambda>(env, reg, lm, cs). rules_weight cs))")
     (auto dest!: logic_rules_weight simp: rules_weight_def)

declare NewRule.simps [simp del]

section \<open>Matching\<close>

definition inverted :: "rule_config \<Rightarrow> bool \<Rightarrow> bool" where
  "inverted c match = (if rc_Invert c then \<not> match else match)"

text \<open>The \<open>Match\<close> methods of the rules that hold no other rule.\<close>

definition Always_Match :: "rule_config \<Rightarrow> bool" where
  "Always_Match c = (if rc_Invert c then False else True)"

definition ServiceName_Match :: "string_set list \<Rightarrow> rule_config \<Rightarrow> metadata \<Rightarrow> bool" where
  "ServiceName_Match sets c m = inverted c (access_hit sets (md_ServiceName m))"

definition SourceIPVersion_Match :: "rule_config \<Rightarrow> 8 word \<Rightarrow> metadata \<Rightarrow> bool" where
  "SourceIPVersion_Match c version m =
     inverted c (if Addr_Is4 (ap_addr (md_SourceAddress m)) then version = 4 else version = 6)"

definition SourceIP_Match :: "('ip, 'c) rule_env \<Rightarrow> 'ip \<Rightarrow> rule_config \<Rightarrow> metadata \<Rightarrow> bool" where
  "SourceIP_Match env s c m = inverted c (re_Contains env s (Addr_WithZone (ap_addr (md_SourceAddress m)) []))"

definition SourcePort_Match :: "rule_config \<Rightarrow> 16 word set \<Rightarrow> metadata \<Rightarrow> bool" where
  "SourcePort_Match c ports m = inverted c (ap_port (md_SourceAddress m) \<in> ports)"

text \<open>A hostname rule notes the markup of modded clients in the metadata.\<close>

definition MinecraftHostname_Match :: "succinct_set \<Rightarrow> rule_config \<Rightarrow> metadata \<Rightarrow> (bool \<times> metadata) option" where
  "MinecraftHostname_Match matcher c m =
     (case md_Minecraft m of
        None \<Rightarrow> Some (inverted c False, m)
      | Some mc \<Rightarrow> (case CleanOriginDestination mc of
          (clean, mc') \<Rightarrow> map_option (\<lambda>match. (inverted c match, m\<lparr>md_Minecraft := Some mc'\<rparr>))
                            (matcher_Match matcher (str_bytes clean))))"

definition MinecraftPlayerName_Match :: "string_set list \<Rightarrow> bool \<Rightarrow> rule_config \<Rightarrow> metadata \<Rightarrow> bool" where
  "MinecraftPlayerName_Match sets lowerCase c m =
     (case md_Minecraft m of
        None \<Rightarrow> inverted c False
      | Some mc \<Rightarrow>
          (let nm = (if lowerCase then str_lower (mm_PlayerName mc) else mm_PlayerName mc)
           in inverted c (access_hit sets nm)))"

definition MinecraftStatus_Match :: "rule_config \<Rightarrow> metadata \<Rightarrow> bool" where
  "MinecraftStatus_Match c m =
     inverted c (case md_Minecraft m of None \<Rightarrow> False | Some mc \<Rightarrow> mm_NextState mc = IntentStatus)"

definition MinecraftTransfer_Match :: "rule_config \<Rightarrow> metadata \<Rightarrow> bool" where
  "MinecraftTransfer_Match c m =
     inverted c (case md_Minecraft m of None \<Rightarrow> False | Some mc \<Rightarrow> mm_NextState mc = IntentTransfer)"

lemmas Match_defs = Always_Match_def ServiceName_Match_def SourceIPVersion_Match_def SourceIP_Match_def
  SourcePort_Match_def MinecraftHostname_Match_def MinecraftPlayerName_Match_def MinecraftStatus_Match_def
  MinecraftTransfer_Match_def

text \<open>\<open>Match\<close> of any rule; the logical rules stop at the first rule that decides.\<close>

fun rule_Match :: "('ip, 'c) rule_env \<Rightarrow> ('ip, 'c) rule \<Rightarrow> metadata \<Rightarrow> (bool \<times> metadata) option"
  and all_Match :: "('ip, 'c) rule_env \<Rightarrow> ('ip, 'c) rule list \<Rightarrow> metadata \<Rightarrow> (bool \<times> metadata) option"
  and any_Match :: "('ip, 'c) rule_env \<Rightarrow> ('ip, 'c) rule list \<Rightarrow> metadata \<Rightarrow> (bool \<times> metadata) option" where
  "rule_Match env (RuleAlways c) m = Some (Always_Match c, m)"
| "rule_Match env (RuleLogicalAnd rs c) m = map_option (map_prod (inverted c) id) (all_Match env rs m)"
| "rule_Match env (RuleLogicalOr rs c) m = map_option (map_prod (inverted c) id) (any_Match env rs m)"
| "rule_Match env (RuleServiceName sets c) m = Some (ServiceName_Match sets c m, m)"
| "rule_Match env (RuleSourceIPVersion c version) m = Some (SourceIPVersion_Match c version m, m)"
| "rule_Match env (RuleSourceIP s c) m = Some (SourceIP_Match env s c m, m)"
| "rule_Match env (RuleSourcePort c ports) m = Some (SourcePort_Match c ports m, m)"
| "rule_Match env (RuleMinecraftHostname matcher c) m = MinecraftHostname_Match matcher c m"
| "rule_Match env (RuleMinecraftPlayerName sets lowerCase c) m = Some (MinecraftPlayerName_Match sets lowerCase c m, m)"
| "rule_Match env (RuleMinecraftStatus c) m = Some (MinecraftStatus_Match c m, m)"
| "rule_Match env (RuleMinecraftTransfer c) m = Some (MinecraftTransfer_Match c m, m)"
| "rule_Match env (RuleCustom x c) m = Some (re_custom env x m)"
| "all_Match env [] m = Some (True, m)"
| "all_Match env (r # rs) m = do {
     (match, m) \<leftarrow> rule_Match env r m;
     if \<not> match then Some (False, m) else all_Match env rs m
   }"
| "any_Match env [] m = Some (False, m)"
| "any_Match env (r # rs) m = do {
     (match, m) \<leftarrow> rule_Match env r m;
     if match then Some (True, m) else any_Match env rs m
   }"

end
