(* ===== verification/Louds.thy ===== *)
theory Louds
  imports Domains
begin

text \<open>
  The domain set is a set: its construction ends, and a lookup answers what the keys say.

  The proof goes through the trie whose nodes are the lists of remaining keys: \<open>kids\<close> are the children
  of such a node with their labels. \<open>built\<close> relates the arrays of the construction to the nodes in
  breadth-first order; \<open>ahas\<close> is the walk over nodes that \<open>Has\<close> performs on the arrays.
\<close>

section \<open>Nodes as lists of keys\<close>

function agroups :: "bytes list \<Rightarrow> (byte \<times> bytes list) list" where
  "agroups [] = []"
| "agroups (x # xs) =
     (hd x, map tl (x # takeWhile (\<lambda>y. hd y = hd x) xs)) # agroups (dropWhile (\<lambda>y. hd y = hd x) xs)"
  by pat_completeness auto
termination by (relation "measure length") (auto intro: le_imp_less_Suc length_dropWhile_le)

definition leaf :: "bytes list \<Rightarrow> bool" where "leaf K \<longleftrightarrow> hd K = []"
definition body :: "bytes list \<Rightarrow> bytes list" where "body K = (if hd K = [] then tl K else K)"
definition kids :: "bytes list \<Rightarrow> (byte \<times> bytes list) list" where "kids K = agroups (body K)"

text \<open>The keys of a queue element.\<close>

definition seg :: "bytes list \<Rightarrow> nat \<times> nat \<times> nat \<Rightarrow> bytes list" where
  "seg keys q = (case q of (s, e, col) \<Rightarrow> map (drop col) (take (e - s) (drop s keys)))"

definition seg_ok :: "bytes list \<Rightarrow> nat \<times> nat \<times> nat \<Rightarrow> bool" where
  "seg_ok keys q \<longleftrightarrow> (case q of (s, e, col) \<Rightarrow> s < e \<and> e \<le> length keys \<and> (\<forall>k. s \<le> k \<and> k < e \<longrightarrow> col \<le> length (keys ! k)))"

lemma seg_Cons: "s < e \<Longrightarrow> e \<le> length keys \<Longrightarrow> seg keys (s, e, col) = drop col (keys ! s) # seg keys (s + 1, e, col)"
  by (simp add: seg_def Cons_nth_drop_Suc [symmetric] take_Cons' Suc_diff_Suc)

lemma seg_Nil: "e \<le> s \<Longrightarrow> seg keys (s, e, col) = []"
  by (simp add: seg_def)

lemma length_seg: "e \<le> length keys \<Longrightarrow> length (seg keys (s, e, col)) = e - s"
  by (simp add: seg_def)

lemma seg_split: "e \<le> length keys \<Longrightarrow> s + n \<le> e \<Longrightarrow>
    take n (seg keys (s, e, col)) = seg keys (s, s + n, col) \<and> drop n (seg keys (s, e, col)) = seg keys (s + n, e, col)"
  by (simp add: seg_def take_map drop_map take_drop min_def add.commute)

lemma seg_tl: "map tl (seg keys (s, e, col)) = seg keys (s, e, col + 1)"
  by (simp add: seg_def tl_drop drop_Suc [symmetric] comp_def flip: drop_Suc)

lemma group_end_seg:
  "j \<le> e \<Longrightarrow> e \<le> length keys \<Longrightarrow> (\<And>k. j \<le> k \<Longrightarrow> k < e \<Longrightarrow> col < length (keys ! k)) \<Longrightarrow>
   group_end keys e col c j = Some (j + length (takeWhile (\<lambda>x. hd x = c) (seg keys (j, e, col))))"
proof (induction "e - j" arbitrary: j)
  case 0
  then show ?case by (subst group_end.simps) (simp add: seg_Nil)
next
  case (Suc n)
  then have j: "j < e" by simp
  have h: "col < length (keys ! j)" using Suc.prems(3) j by simp
  then have hd: "hd (drop col (keys ! j)) = keys ! j ! col" by (rule hd_drop_conv_nth)
  have IH: "group_end keys e col c (j + 1) = Some (j + 1 + length (takeWhile (\<lambda>x. hd x = c) (seg keys (j + 1, e, col))))"
    using Suc.hyps(2) Suc.prems j by (intro Suc.hyps(1)) auto
  show ?case
    using j h Suc.prems(2) IH by (subst group_end.simps) (simp add: seg_Cons hd)
qed

lemma groups_seg:
  "j \<le> e \<Longrightarrow> e \<le> length keys \<Longrightarrow> (\<And>k. j \<le> k \<Longrightarrow> k < e \<Longrightarrow> col < length (keys ! k)) \<Longrightarrow>
   \<exists>gs. groups keys e col j = Some gs \<and>
        map (\<lambda>(f, j', c). (c, seg keys (f, j', col + 1))) gs = agroups (seg keys (j, e, col)) \<and>
        (\<forall>(f, j', c) \<in> set gs. seg_ok keys (f, j', col + 1))"
proof (induction "e - j" arbitrary: j rule: less_induct)
  case less
  show ?case
  proof (cases "j < e")
    case False
    then show ?thesis by (subst groups.simps) (simp add: seg_Nil)
  next
    case True
    have h: "col < length (keys ! j)" using less.prems(3) True by simp
    then have hd: "hd (drop col (keys ! j)) = keys ! j ! col" by (rule hd_drop_conv_nth)
    define n where "n = length (takeWhile (\<lambda>x. hd x = keys ! j ! col) (seg keys (j + 1, e, col)))"
    define j' where "j' = j + 1 + n"
    have n: "n \<le> e - (j + 1)"
      using length_takeWhile_le [of _ "seg keys (j + 1, e, col)"] less.prems(2) by (simp add: n_def length_seg)
    then have j': "j < j'" "j' \<le> e" using True by (simp_all add: j'_def)
    have ge: "group_end keys e col (keys ! j ! col) (j + 1) = Some j'"
      unfolding j'_def n_def using less.prems True by (intro group_end_seg) auto
    have "e - j' < e - j" using j' by simp
    from less.hyps [OF this j'(2) less.prems(2)] less.prems(3) j'(1) obtain gs where
      gs: "groups keys e col j' = Some gs"
        "map (\<lambda>(f, j', c). (c, seg keys (f, j', col + 1))) gs = agroups (seg keys (j', e, col))"
        "\<forall>(f, j', c) \<in> set gs. seg_ok keys (f, j', col + 1)" by auto
    have tw: "takeWhile (\<lambda>x. hd x = keys ! j ! col) (seg keys (j + 1, e, col)) = seg keys (j + 1, j', col)"
      "dropWhile (\<lambda>x. hd x = keys ! j ! col) (seg keys (j + 1, e, col)) = seg keys (j', e, col)"
      using seg_split [OF less.prems(2), of "j + 1" n col] n True takeWhile_eq_take dropWhile_eq_drop
      unfolding j'_def n_def by (metis Suc_eq_plus1 Suc_leI add.commute le_diff_conv2)+
    have "seg keys (j, j', col) = drop col (keys ! j) # seg keys (j + 1, j', col)"
      using j' less.prems(2) by (intro seg_Cons) auto
    then have first: "agroups (seg keys (j, e, col)) = (keys ! j ! col, seg keys (j, j', col + 1)) # agroups (seg keys (j', e, col))"
      using True less.prems(2) by (simp add: seg_Cons hd tw [simplified] flip: seg_tl [simplified])
    have ok: "seg_ok keys (j, j', col + 1)"
      using j' less.prems by (auto simp: seg_ok_def Suc_le_eq)
    have "groups keys e col j = Some ((j, j', keys ! j ! col) # gs)"
      using True h ge gs(1) less.prems(2) by (subst groups.simps) simp
    then show ?thesis using gs(2,3) first ok by auto
  qed
qed

section \<open>The arrays of a list of nodes\<close>

definition nkids :: "bytes list list \<Rightarrow> nat" where "nkids A = sum_list (map (length \<circ> kids) A)"

definition bitseq :: "bytes list list \<Rightarrow> bool list" where
  "bitseq A = concat (map (\<lambda>K. replicate (length (kids K)) False @ [True]) A)"

definition labelseq :: "bytes list list \<Rightarrow> bytes" where
  "labelseq A = concat (map (\<lambda>K. map fst (kids K)) A)"

definition kidseq :: "bytes list list \<Rightarrow> bytes list list" where
  "kidseq A = concat (map (\<lambda>K. map snd (kids K)) A)"

lemma seqs_simps [simp]:
  "nkids [] = 0" "nkids (A @ B) = nkids A + nkids B" "nkids [K] = length (kids K)"
  "bitseq [] = []" "bitseq (A @ B) = bitseq A @ bitseq B" "bitseq [K] = replicate (length (kids K)) False @ [True]"
  "labelseq [] = []" "labelseq (A @ B) = labelseq A @ labelseq B" "labelseq [K] = map fst (kids K)"
  "kidseq [] = []" "kidseq (A @ B) = kidseq A @ kidseq B" "kidseq [K] = map snd (kids K)"
  by (simp_all add: nkids_def bitseq_def labelseq_def kidseq_def)

lemma length_seqs [simp]:
  "length (bitseq A) = length A + nkids A" "length (labelseq A) = nkids A" "length (kidseq A) = nkids A"
  "ones (bitseq A) = length A"
  by (induction A) (simp_all add: nkids_def bitseq_def labelseq_def kidseq_def)

text \<open>A node that has been processed: its keys are distinct and sorted, and there are some.\<close>

definition node_ok :: "bytes list \<Rightarrow> bool" where
  "node_ok K \<longleftrightarrow> K \<noteq> [] \<and> sorted_wrt (<) K"

lemma bytes_less_Cons: "(a # u) < (b # v) \<longleftrightarrow> a < b \<or> (a = b \<and> u < v)" for u v :: bytes
  by (auto simp: list_less_def lexord_cons_cons)

lemma Nil_less: "[] < x \<longleftrightarrow> x \<noteq> []" for x :: bytes
  by (cases x) auto

lemma body_nonempty: "sorted_wrt (<) K \<Longrightarrow> x \<in> set (body K) \<Longrightarrow> x \<noteq> []"
  by (cases K) (auto simp: body_def split: if_splits)

lemma body_sorted: "sorted_wrt (<) K \<Longrightarrow> sorted_wrt (<) (body K)"
  by (cases K) (auto simp: body_def)

lemma leaf_iff: "node_ok K \<Longrightarrow> leaf K \<longleftrightarrow> [] \<in> set K"
  by (cases K) (auto simp: leaf_def node_ok_def)

lemma set_body: "node_ok K \<Longrightarrow> set (body K) = set K - {[]}"
  by (cases K) (auto simp: body_def node_ok_def)

text \<open>The groups of a sorted list: by ascending label, each with the rests of the keys that have it.\<close>

lemma sorted_heads:
  "sorted_wrt (<) (x # xs) \<Longrightarrow> (\<And>y. y \<in> set (x # xs) \<Longrightarrow> y \<noteq> []) \<Longrightarrow> y \<in> set xs \<Longrightarrow> hd x \<le> hd y" for x :: bytes
proof -
  assume h: "sorted_wrt (<) (x # xs)" "\<And>y. y \<in> set (x # xs) \<Longrightarrow> y \<noteq> []" "y \<in> set xs"
  then have "x < y" "x \<noteq> []" "y \<noteq> []" by auto
  then show ?thesis by (cases x; cases y) (auto simp: bytes_less_Cons)
qed

lemma tl_sorted:
  "sorted_wrt (<) zs \<Longrightarrow> (\<And>y. y \<in> set zs \<Longrightarrow> y \<noteq> [] \<and> hd y = c) \<Longrightarrow> sorted_wrt (<) (map tl zs)" for zs :: "bytes list"
proof (induction zs)
  case (Cons z zs)
  have "tl z < tl y" if y: "y \<in> set zs" for y
  proof -
    obtain u v where "z = c # u" "y = c # v"
      using Cons.prems(2) [of z] Cons.prems(2) [of y] y by (cases z; cases y) auto
    then show ?thesis using Cons.prems(1) y by (auto simp: bytes_less_Cons)
  qed
  then show ?case using Cons by auto
qed simp

lemma set_map_tl:
  "(\<And>y. y \<in> set zs \<Longrightarrow> y \<noteq> [] \<and> hd y = c) \<Longrightarrow> set (map tl zs) = {t. c # t \<in> set zs}"
proof (intro set_eqI iffI; clarsimp)
  fix y assume h: "\<And>y. y \<in> set zs \<Longrightarrow> y \<noteq> [] \<and> hd y = c" "y \<in> set zs"
  then have "c # tl y = y" by (metis list.collapse)
  then show "c # tl y \<in> set zs" using h(2) by simp
next
  fix t assume "c # t \<in> set zs"
  then show "t \<in> tl ` set zs" by force
qed

lemma agroups_sorted:
  "sorted_wrt (<) xs \<Longrightarrow> (\<And>x. x \<in> set xs \<Longrightarrow> x \<noteq> []) \<Longrightarrow>
   sorted_wrt (<) (map fst (agroups xs)) \<and>
   (\<forall>(l, K) \<in> set (agroups xs). node_ok K \<and> l \<in> hd ` set xs \<and> set K = {t. l # t \<in> set xs}) \<and>
   hd ` set xs \<subseteq> fst ` set (agroups xs)"
proof (induction xs rule: agroups.induct)
  case (2 x xs)
  define T where "T = takeWhile (\<lambda>y. hd y = hd x) xs"
  define D where "D = dropWhile (\<lambda>y. hd y = hd x) xs"
  have app: "xs = T @ D" by (simp add: T_def D_def)
  have xs: "sorted_wrt (<) (x # T)" "sorted_wrt (<) D" "\<And>d. d \<in> set D \<Longrightarrow> x < d"
    using "2.prems"(1) by (auto simp: app sorted_wrt_append)
  have ne: "x \<noteq> []" "\<And>y. y \<in> set T \<Longrightarrow> y \<noteq> []" "\<And>y. y \<in> set D \<Longrightarrow> y \<noteq> []"
    using "2.prems"(2) by (auto simp: app)
  have T: "y \<in> set T \<Longrightarrow> hd y = hd x" for y unfolding T_def by (auto dest: set_takeWhileD)
  have later: "hd x < hd y" if y: "y \<in> set D" for y
  proof -
    from y obtain d ds where d: "D = d # ds" by (cases D) auto
    then have "hd d \<noteq> hd x" using hd_dropWhile [of "\<lambda>y. hd y = hd x" xs] unfolding D_def by auto
    moreover have "hd x \<le> hd d"
      using sorted_heads [of x D d] xs d ne by auto
    moreover have "hd d \<le> hd y"
      using sorted_heads [of d ds y] xs(2) ne(3) d y by (cases "y = d") auto
    ultimately show ?thesis by simp
  qed
  have g: "agroups (x # xs) = (hd x, map tl (x # T)) # agroups D" by (simp add: T_def D_def)
  have IH: "sorted_wrt (<) (map fst (agroups D))"
    "\<And>l K. (l, K) \<in> set (agroups D) \<Longrightarrow> node_ok K \<and> l \<in> hd ` set D \<and> set K = {t. l # t \<in> set D}"
    "hd ` set D \<subseteq> fst ` set (agroups D)"
    using "2.IH" [folded D_def, OF xs(2) ne(3)] by auto
  have hdT: "y \<in> set (x # T) \<Longrightarrow> y \<noteq> [] \<and> hd y = hd x" for y using T ne by auto
  have "set (map tl (x # T)) = {t. hd x # t \<in> set (x # T)}" by (rule set_map_tl) (rule hdT)
  moreover have "hd x # t \<notin> set D" for t using later [of "hd x # t"] by auto
  ultimately have "set (map tl (x # T)) = {t. hd x # t \<in> set (x # xs)}" by (auto simp: app)
  moreover have "sorted_wrt (<) (map tl (x # T))" by (rule tl_sorted [OF xs(1)]) (rule hdT)
  ultimately have first: "node_ok (map tl (x # T))" "set (map tl (x # T)) = {t. hd x # t \<in> set (x # xs)}"
    by (auto simp: node_ok_def)
  have rest: "node_ok K \<and> l \<in> hd ` set (x # xs) \<and> set K = {t. l # t \<in> set (x # xs)}"
    if "(l, K) \<in> set (agroups D)" for l K
  proof -
    have K: "node_ok K" "l \<in> hd ` set D" "set K = {t. l # t \<in> set D}" using IH(2) [OF that] by auto
    then have "hd x < l" using later by auto
    then have "l # t \<notin> set (x # T)" for t using hdT [of "l # t"] by auto
    then show ?thesis using K by (auto simp: app)
  qed
  have "sorted_wrt (<) (map fst (agroups (x # xs)))"
    using IH(1,2) later unfolding g by fastforce
  moreover have "\<forall>(l, K) \<in> set (agroups (x # xs)). node_ok K \<and> l \<in> hd ` set (x # xs) \<and> set K = {t. l # t \<in> set (x # xs)}"
    using first rest unfolding g by auto
  moreover have "hd ` set (x # xs) \<subseteq> insert (hd x) (hd ` set D)" using T by (auto simp: app)
  then have "hd ` set (x # xs) \<subseteq> fst ` set (agroups (x # xs))"
    using IH(3) unfolding g by auto
  ultimately show ?case by blast
qed simp

text \<open>The children of a node: ascending labels, each with the rests of the keys that start with it.\<close>

lemma kids_ok:
  assumes "node_ok K"
  shows "sorted_wrt (<) (map fst (kids K))"
    and "(l, K') \<in> set (kids K) \<Longrightarrow> node_ok K' \<and> set K' = {t. l # t \<in> set K}"
    and "l # t \<in> set K \<Longrightarrow> \<exists>K'. (l, K') \<in> set (kids K)"
proof -
  have K: "sorted_wrt (<) K" using assms by (simp add: node_ok_def)
  have b: "sorted_wrt (<) (body K)" "\<And>x. x \<in> set (body K) \<Longrightarrow> x \<noteq> []"
    using body_sorted [OF K] body_nonempty [OF K] by auto
  note g = agroups_sorted [OF b, folded kids_def]
  show "sorted_wrt (<) (map fst (kids K))" using g by simp
  show "node_ok K' \<and> set K' = {t. l # t \<in> set K}" if "(l, K') \<in> set (kids K)"
    using g that set_body [OF assms] by fastforce
  show "\<exists>K'. (l, K') \<in> set (kids K)" if "l # t \<in> set K"
  proof -
    have "l # t \<in> set (body K)" using that set_body [OF assms] by simp
    then have "l \<in> hd ` set (body K)" by (metis image_eqI list.sel(1))
    then have "l \<in> fst ` set (kids K)" using g by blast
    then show ?thesis by auto
  qed
qed

text \<open>The weight of a node; its children weigh less.\<close>

definition weight :: "bytes list \<Rightarrow> nat" where
  "weight K = sum_list (map (\<lambda>k. length k + 1) K)"

lemma weight_simps [simp]:
  "weight [] = 0" "weight (k # K) = length k + 1 + weight K" "weight (A @ B) = weight A + weight B"
  by (simp_all add: weight_def)

lemma weight_tl: "(\<And>x. x \<in> set xs \<Longrightarrow> x \<noteq> []) \<Longrightarrow> weight (map tl xs) + length xs = weight xs"
  by (induction xs) auto

lemma weight_agroups:
  "(\<And>x. x \<in> set xs \<Longrightarrow> x \<noteq> []) \<Longrightarrow> sum_list (map (weight \<circ> snd) (agroups xs)) + length xs = weight xs"
proof (induction xs rule: agroups.induct)
  case (2 x xs)
  define T where "T = takeWhile (\<lambda>y. hd y = hd x) xs"
  define D where "D = dropWhile (\<lambda>y. hd y = hd x) xs"
  have app: "xs = T @ D" by (simp add: T_def D_def)
  have g: "agroups (x # xs) = (hd x, map tl (x # T)) # agroups D" by (simp add: T_def D_def)
  have "sum_list (map (weight \<circ> snd) (agroups D)) + length D = weight D"
    using "2.prems" by (intro "2.IH" [folded D_def]) (auto simp: app)
  moreover have "weight (map tl (x # T)) + length (x # T) = weight (x # T)"
    using "2.prems" by (intro weight_tl) (auto simp: app)
  ultimately show ?case unfolding g by (simp add: app comp_def)
qed simp

lemma weight_kids: "node_ok K \<Longrightarrow> sum_list (map (weight \<circ> snd) (kids K)) < weight K"
proof -
  assume ok: "node_ok K"
  then have "sum_list (map (weight \<circ> snd) (kids K)) + length (body K) = weight (body K)"
    unfolding kids_def by (intro weight_agroups body_nonempty) (simp_all add: node_ok_def)
  then show ?thesis using ok by (cases K) (auto simp: node_ok_def body_def split: if_splits)
qed

lemma weight_kid: "node_ok K \<Longrightarrow> (l, K') \<in> set (kids K) \<Longrightarrow> weight K' < weight K"
  using weight_kids [of K] member_le_sum_list [of "weight K'" "map (weight \<circ> snd) (kids K)"] by force

lemma kids_Nil: "node_ok K \<Longrightarrow> kids K = [] \<Longrightarrow> leaf K"
  by (cases K) (auto simp: node_ok_def kids_def body_def leaf_def split: if_splits)

section \<open>Building\<close>

text \<open>A bitmap that stops after its last one.\<close>

definition bm_ones :: "64 word list \<Rightarrow> bool list \<Rightarrow> bool" where
  "bm_ones bm bs \<longleftrightarrow> (\<exists>n. bm_holds bm (take n bs) \<and> True \<notin> set (drop n bs))"

lemma bm_ones_Nil [simp]: "bm_ones [] []"
  by (simp add: bm_ones_def)

lemma bm_ones_append: "bm_ones bm bs \<Longrightarrow> bm_ones (if b then setBit bm (length bs) 1 else bm) (bs @ [b])"
proof (cases b)
  case True
  assume "bm_ones bm bs"
  then obtain n where n: "bm_holds bm (take n bs)" "True \<notin> set (drop n bs)" by (auto simp: bm_ones_def)
  have "drop n bs = replicate (length (drop n bs)) False"
    using n(2) by (metis (full_types) replicate_length_same)
  moreover have "length (drop n bs) = length bs - length (take n bs)" by simp
  ultimately have e: "take n bs @ replicate (length bs - length (take n bs)) False = bs" by (metis append_take_drop_id)
  have "bm_holds (setBit bm (length bs) 1) ((take n bs @ replicate (length bs - length (take n bs)) False) @ [True])"
    using bm_holds_setBit [OF n(1), of "length bs" True] by simp
  then have "bm_holds (setBit bm (length bs) 1) (bs @ [True])" unfolding e .
  then show ?thesis using True unfolding bm_ones_def by (intro exI [of _ "length bs + 1"]) simp
next
  case False
  assume "bm_ones bm bs"
  then obtain n where n: "bm_holds bm (take n bs)" "True \<notin> set (drop n bs)" by (auto simp: bm_ones_def)
  then show ?thesis using False unfolding bm_ones_def
    by (intro exI [of _ "min n (length bs)"]) (auto simp: min_def)
qed

lemma bm_ones_last: "bm_ones bm bs \<Longrightarrow> bs \<noteq> [] \<Longrightarrow> last bs \<Longrightarrow> bm_holds bm bs"
proof -
  assume h: "bm_ones bm bs" "bs \<noteq> []" "last bs"
  then obtain n where n: "bm_holds bm (take n bs)" "True \<notin> set (drop n bs)" by (auto simp: bm_ones_def)
  have "length bs \<le> n"
  proof (rule ccontr)
    assume "\<not> length bs \<le> n"
    then have "last bs \<in> set (drop n bs)" by (metis drop_eq_Nil last_drop last_in_set linorder_not_less)
    then show False using h(3) n(2) by simp
  qed
  then show ?thesis using n(1) by simp
qed

text \<open>The state of the construction after \<open>i\<close> nodes.\<close>

definition built :: "bytes list \<Rightarrow> nat \<Rightarrow> (nat \<times> nat \<times> nat) list \<Rightarrow> nat \<Rightarrow> succinct_set \<Rightarrow> bool" where
  "built keys i queue lIdx ss \<longleftrightarrow>
     (let A = map (seg keys) queue in
        i \<le> length queue \<and> (\<forall>q \<in> set queue. seg_ok keys q) \<and> (\<forall>K \<in> set A. node_ok K) \<and>
        A = keys # kidseq (take i A) \<and>
        lIdx = length (bitseq (take i A)) \<and>
        bm_holds (ss_labelBitmap ss) (bitseq (take i A)) \<and>
        ss_labels ss = labelseq (take i A) \<and>
        bm_ones (ss_leaves ss) (map leaf (take i A)))"

lemma add_children:
  "bm_holds (ss_labelBitmap ss) bs \<Longrightarrow> length bs = lIdx \<Longrightarrow>
   \<exists>bm. fold (add_child col) gs (ss, lIdx, queue)
        = (ss\<lparr>ss_labels := ss_labels ss @ map (\<lambda>(f, j, c). c) gs, ss_labelBitmap := bm\<rparr>,
           lIdx + length gs, queue @ map (\<lambda>(f, j, c). (f, j, col + 1)) gs) \<and>
        bm_holds bm (bs @ replicate (length gs) False)"
proof (induction gs arbitrary: ss bs lIdx queue)
  case Nil
  then show ?case by (intro exI [of _ "ss_labelBitmap ss"]) simp
next
  case (Cons g gs)
  obtain f j c where g: "g = (f, j, c)" by (cases g)
  define ss' where "ss' = ss\<lparr>ss_labels := ss_labels ss @ [c], ss_labelBitmap := setBit (ss_labelBitmap ss) lIdx 0\<rparr>"
  have "bm_holds (ss_labelBitmap ss') (bs @ [False])"
    using bm_holds_append [OF Cons.prems(1), of False] Cons.prems(2) by (simp add: ss'_def)
  then obtain bm where bm:
    "fold (add_child col) gs (ss', lIdx + 1, queue @ [(f, j, col + 1)])
     = (ss'\<lparr>ss_labels := ss_labels ss' @ map (\<lambda>(f, j, c). c) gs, ss_labelBitmap := bm\<rparr>,
        lIdx + 1 + length gs, (queue @ [(f, j, col + 1)]) @ map (\<lambda>(f, j, c). (f, j, col + 1)) gs)"
    "bm_holds bm ((bs @ [False]) @ replicate (length gs) False)"
    using Cons.IH [of ss' "bs @ [False]" "lIdx + 1" "queue @ [(f, j, col + 1)]"] Cons.prems(2) by auto
  have one: "add_child col g (ss, lIdx, queue) = (ss', lIdx + 1, queue @ [(f, j, col + 1)])"
    by (simp add: g add_child_def ss'_def)
  show ?case using bm by (intro exI [of _ bm]) (simp add: one, simp add: g ss'_def)
qed

text \<open>One round of the loop.\<close>

lemma build_step:
  assumes b: "built keys i queue lIdx ss" and i: "i < length queue"
  shows "\<exists>queue' lIdx' ss'. build_loop keys i queue lIdx ss = build_loop keys (i + 1) queue' lIdx' ss' \<and>
           built keys (i + 1) queue' lIdx' ss' \<and>
           (\<exists>q. queue' = queue @ q \<and> map (seg keys) q = map snd (kids (seg keys (queue ! i))))"
proof -
  define A where "A = map (seg keys) queue"
  have B: "i \<le> length queue" "\<And>q. q \<in> set queue \<Longrightarrow> seg_ok keys q" "\<And>K. K \<in> set A \<Longrightarrow> node_ok K"
    "A = keys # kidseq (take i A)" "lIdx = length (bitseq (take i A))"
    "bm_holds (ss_labelBitmap ss) (bitseq (take i A))" "ss_labels ss = labelseq (take i A)"
    "bm_ones (ss_leaves ss) (map leaf (take i A))"
    using b unfolding built_def Let_def A_def by blast+
  obtain s e col where q: "queue ! i = (s, e, col)" by (cases "queue ! i")
  have ok: "seg_ok keys (s, e, col)" using B(2) [OF nth_mem [OF i]] q by simp
  then have se: "s < e" "e \<le> length keys" "\<And>k. s \<le> k \<Longrightarrow> k < e \<Longrightarrow> col \<le> length (keys ! k)"
    by (auto simp: seg_ok_def)
  define K where "K = seg keys (s, e, col)"
  have Ai: "A ! i = K" "i < length A" using i q by (simp_all add: A_def K_def)
  then have nok: "node_ok K" using B(3) nth_mem by metis
  have K: "K = drop col (keys ! s) # seg keys (s + 1, e, col)" unfolding K_def using se(1,2) by (rule seg_Cons)
  define lf where "lf = (col = length (keys ! s))"
  have leaf: "leaf K = lf" using se(3) [of s] se(1) by (auto simp: leaf_def K lf_def)
  define s' where "s' = (if lf then s + 1 else s)"
  have body: "body K = seg keys (s', e, col)"
  proof (cases lf)
    case True
    then show ?thesis using leaf K by (simp add: body_def leaf_def s'_def)
  next
    case False
    then show ?thesis using leaf by (simp add: body_def leaf_def s'_def K_def)
  qed
  have s': "s' \<le> e" "s \<le> s'" using se(1) by (auto simp: s'_def)
  have long: "col < length (keys ! k)" if k: "s' \<le> k" "k < e" for k
  proof -
    have "seg keys (s', e, col) ! (k - s') = drop col (keys ! k)" "k - s' < length (seg keys (s', e, col))"
      using k se(2) by (simp_all add: seg_def)
    then have "drop col (keys ! k) \<in> set (body K)" using nth_mem body by metis
    then have "drop col (keys ! k) \<noteq> []" using body_nonempty [of K] nok by (metis node_ok_def)
    then show ?thesis by simp
  qed
  from groups_seg [OF s'(1) se(2) long] obtain gs where gs: "groups keys e col s' = Some gs"
    "map (\<lambda>(f, j', c). (c, seg keys (f, j', col + 1))) gs = kids K"
    "\<forall>(f, j', c) \<in> set gs. seg_ok keys (f, j', col + 1)"
    by (auto simp: kids_def body)
  define ss1 where "ss1 = (if lf then ss\<lparr>ss_leaves := setBit (ss_leaves ss) i 1\<rparr> else ss)"
  have "bm_holds (ss_labelBitmap ss1) (bitseq (take i A))" using B(6) by (simp add: ss1_def)
  from add_children [OF this B(5) [symmetric], of col gs queue] obtain bm where bm:
    "fold (add_child col) gs (ss1, lIdx, queue)
       = (ss1\<lparr>ss_labels := ss_labels ss1 @ map (\<lambda>(f, j, c). c) gs, ss_labelBitmap := bm\<rparr>,
          lIdx + length gs, queue @ map (\<lambda>(f, j, c). (f, j, col + 1)) gs)"
    "bm_holds bm (bitseq (take i A) @ replicate (length gs) False)" by auto
  define q' where "q' = map (\<lambda>(f, j, c). (f, j, col + 1)) gs"
  define ss' where "ss' = ss1\<lparr>ss_labels := ss_labels ss1 @ map (\<lambda>(f, j, c). c) gs,
                               ss_labelBitmap := setBit bm (lIdx + length gs) 1\<rparr>"
  have step: "build_loop keys i queue lIdx ss = build_loop keys (i + 1) (queue @ q') (lIdx + length gs + 1) ss'"
    using i se(1,2) gs(1) bm(1)
    by (subst build_loop.simps) (simp add: q lf_def [symmetric] s'_def [symmetric] ss1_def [symmetric] q'_def ss'_def Let_def)
  have kq: "map snd (kids K) = map (seg keys) q'" "map fst (kids K) = map (\<lambda>(f, j, c). c) gs" "length (kids K) = length gs"
    unfolding gs(2) [symmetric] by (auto simp: q'_def)
  have take: "take (i + 1) (map (seg keys) (queue @ q')) = take i A @ [K]"
    using Ai by (simp add: A_def [symmetric] take_Suc_conv_app_nth)
  have "built keys (i + 1) (queue @ q') (lIdx + length gs + 1) ss'"
    unfolding built_def Let_def take
  proof (intro conjI)
    show "i + 1 \<le> length (queue @ q')" using i by simp
    show "\<forall>q \<in> set (queue @ q'). seg_ok keys q" using B(2) gs(3) by (auto simp: q'_def)
    show "\<forall>K \<in> set (map (seg keys) (queue @ q')). node_ok K"
    proof
      fix K' assume "K' \<in> set (map (seg keys) (queue @ q'))"
      then consider "K' \<in> set A" | "K' \<in> set (map snd (kids K))" unfolding kq(1) A_def by auto
      then show "node_ok K'" using B(3) kids_ok(2) [OF nok] by cases auto
    qed
    show "map (seg keys) (queue @ q') = keys # kidseq (take i A @ [K])"
      using B(4) kq(1) by (simp add: A_def [symmetric])
    show "lIdx + length gs + 1 = length (bitseq (take i A @ [K]))" using B(5) kq(3) by simp
    have "length (bitseq (take i A) @ replicate (length gs) False) = lIdx + length gs" using B(5) by simp
    from bm_holds_append [OF bm(2), of True, unfolded this]
    show "bm_holds (ss_labelBitmap ss') (bitseq (take i A @ [K]))" by (simp add: ss'_def kq(3))
    show "ss_labels ss' = labelseq (take i A @ [K])" using B(7) kq(2) by (simp add: ss'_def ss1_def)
    have "length (map leaf (take i A)) = i" using Ai(2) by simp
    with bm_ones_append [OF B(8), of lf]
    show "bm_ones (ss_leaves ss') (map leaf (take i A @ [K]))" using leaf by (simp add: ss'_def ss1_def split: if_splits)
  qed
  then show ?thesis using step kq(1) q K_def by (intro exI conjI) auto
qed

lemma pending_weight:
  assumes "built keys i queue lIdx ss" "i < length queue"
    "queue' = queue @ q" "map (seg keys) q = map snd (kids (seg keys (queue ! i)))"
  shows "sum_list (map (weight \<circ> seg keys) (drop (i + 1) queue')) < sum_list (map (weight \<circ> seg keys) (drop i queue))"
proof -
  have "node_ok (seg keys (queue ! i))" using assms(1,2) by (auto simp: built_def Let_def)
  moreover have "map (weight \<circ> seg keys) q = map (weight \<circ> snd) (kids (seg keys (queue ! i)))"
    using arg_cong [OF assms(4), of "map weight"] by (simp only: map_map comp_assoc)
  ultimately have "sum_list (map (weight \<circ> seg keys) q) < weight (seg keys (queue ! i))"
    using weight_kids by simp
  moreover have "drop i queue = queue ! i # drop (i + 1) queue" using assms(2) by (simp add: Cons_nth_drop_Suc)
  ultimately show ?thesis using assms(2,3) by simp
qed

text \<open>The loop ends with every node processed.\<close>

lemma build_loop_built:
  "built keys i queue lIdx ss \<Longrightarrow>
   \<exists>queue' lIdx' ss'. build_loop keys i queue lIdx ss = Some ss' \<and> built keys (length queue') queue' lIdx' ss'"
proof (induction "sum_list (map (weight \<circ> seg keys) (drop i queue))" arbitrary: i queue lIdx ss rule: less_induct)
  case less
  show ?case
  proof (cases "i < length queue")
    case True
    from build_step [OF less.prems True] obtain queue' lIdx' ss' q where
      step: "build_loop keys i queue lIdx ss = build_loop keys (i + 1) queue' lIdx' ss'"
      "built keys (i + 1) queue' lIdx' ss'" "queue' = queue @ q"
      "map (seg keys) q = map snd (kids (seg keys (queue ! i)))" by blast
    show ?thesis
      unfolding step(1) by (rule less.hyps [OF pending_weight [OF less.prems True step(3,4)] step(2)])
  next
    case False
    then have "i = length queue" using less.prems by (simp add: built_def Let_def)
    then show ?thesis using less.prems by (subst build_loop.simps) auto
  qed
qed

text \<open>The finished set: its arrays describe the breadth-first list of the nodes.\<close>

definition describes :: "succinct_set \<Rightarrow> bytes list list \<Rightarrow> bool" where
  "describes ss A \<longleftrightarrow>
     bm_holds (ss_labelBitmap ss) (bitseq A) \<and> ss_labels ss = labelseq A \<and>
     bm_holds (ss_leaves ss) (map leaf A) \<and>
     ss_selects ss = fst (indexSelect32R64 (ss_labelBitmap ss)) \<and> ss_ranks ss = indexRank64 (ss_labelBitmap ss)"

lemma last_leaf:
  assumes A: "A = keys # kidseq A" and ok: "\<And>K. K \<in> set A \<Longrightarrow> node_ok K"
  shows "leaf (last A)"
proof (rule kids_Nil)
  have ne: "A \<noteq> []" using A by (cases A) auto
  then show l: "node_ok (last A)" using ok by simp
  show "kids (last A) = []"
  proof (rule ccontr)
    assume k: "kids (last A) \<noteq> []"
    have "kidseq A = kidseq (butlast A) @ map snd (kids (last A))"
      by (metis append_butlast_last_id ne seqs_simps(11,12))
    then have "last A = snd (last (kids (last A)))"
      using k by (subst A) (simp add: last_map)
    moreover have "last (kids (last A)) \<in> set (kids (last A))" using k by simp
    ultimately show False using weight_kid [OF l] by (metis less_irrefl prod.collapse)
  qed
qed

theorem newSuccinctSet_describes:
  assumes keys: "keys \<noteq> []" "sorted_wrt (<) keys"
  shows "\<exists>ss A. newSuccinctSet keys = Some ss \<and> describes ss A \<and> A = keys # kidseq A \<and> (\<forall>K \<in> set A. node_ok K)"
proof -
  have "seg keys (0, length keys, 0) = keys" by (simp add: seg_def)
  then have "built keys 0 [(0, length keys, 0)] 0 empty_set"
    using keys by (simp add: built_def Let_def node_ok_def seg_ok_def empty_set_def)
  from build_loop_built [OF this] obtain queue lIdx ss where
    b: "build_loop keys 0 [(0, length keys, 0)] 0 empty_set = Some ss" "built keys (length queue) queue lIdx ss" by blast
  define A where "A = map (seg keys) queue"
  have t: "take (length queue) A = A" by (simp add: A_def)
  have B: "\<And>K. K \<in> set A \<Longrightarrow> node_ok K" "A = keys # kidseq A" "bm_holds (ss_labelBitmap ss) (bitseq A)"
    "ss_labels ss = labelseq A" "bm_ones (ss_leaves ss) (map leaf A)"
    using b(2) unfolding built_def Let_def A_def [symmetric] t by blast+
  have "A \<noteq> []" using B(2) by (cases A) auto
  then have "bm_holds (ss_leaves ss) (map leaf A)"
    using last_leaf [OF B(2,1)] by (intro bm_ones_last [OF B(5)]) (simp_all add: last_map)
  then have "describes (ss_init ss) A" using B(3,4) by (simp add: describes_def ss_init_def indexSelect32R64_def)
  then show ?thesis using b(1) B(1,2) by (auto simp: newSuccinctSet_def)
qed

section \<open>Looking up\<close>

text \<open>The walk over nodes: what \<open>Has\<close> does, on the lists of keys.\<close>

fun ascan :: "byte \<Rightarrow> (byte \<times> bytes list) list \<Rightarrow> bool + bytes list" where
  "ascan c [] = Inl False"
| "ascan c ((l, K) # ks) =
     (if l = prefixLabel then Inl True
      else if l = rootLabel \<and> c = dot \<and> leaf K then Inl True
      else if l = c then Inr K else ascan c ks)"

fun ahas :: "bytes list \<Rightarrow> bytes \<Rightarrow> bool" where
  "ahas K [] \<longleftrightarrow> leaf K \<or> prefixLabel \<in> fst ` set (kids K) \<or> rootLabel \<in> fst ` set (kids K)"
| "ahas K (c # q) \<longleftrightarrow> (case ascan c (kids K) of Inl b \<Rightarrow> b | Inr K' \<Rightarrow> ahas K' q)"

text \<open>Where the bits of a node start.\<close>

definition start :: "bytes list list \<Rightarrow> nat \<Rightarrow> nat" where
  "start A i = length (bitseq (take i A))"

lemma start_eq: "i \<le> length A \<Longrightarrow> start A i = i + nkids (take i A)"
  by (simp add: start_def)

lemma take_split: "i < length A \<Longrightarrow> A = take i A @ [A ! i] @ drop (i + 1) A"
  by (simp add: id_take_nth_drop)

lemma bitseq_split:
  "i < length A \<Longrightarrow> bitseq A = bitseq (take i A) @ (replicate (length (kids (A ! i))) False @ [True]) @ bitseq (drop (i + 1) A)"
  by (metis seqs_simps(5,6) take_split)

lemma start_bit:
  assumes "i < length A" "j \<le> length (kids (A ! i))"
  shows "start A i + j < length (bitseq A)" "bitseq A ! (start A i + j) \<longleftrightarrow> j = length (kids (A ! i))"
    "ones (take (start A i + j) (bitseq A)) = i"
  unfolding start_def using assms
  by (subst bitseq_split [OF assms(1)], force simp: nth_append nth_Cons' not_less)+

lemma start_label:
  assumes "i < length A" "j < length (kids (A ! i))"
  shows "labelseq A ! (start A i + j - i) = fst (kids (A ! i) ! j)" "start A i + j - i < length (labelseq A)"
proof -
  have "labelseq A = labelseq (take i A) @ map fst (kids (A ! i)) @ labelseq (drop (i + 1) A)"
    by (metis assms(1) seqs_simps(8,9) take_split)
  then show "labelseq A ! (start A i + j - i) = fst (kids (A ! i) ! j)" "start A i + j - i < length (labelseq A)"
    using assms by (simp_all add: start_eq nth_append)
qed

lemma kid_node:
  assumes A: "A = keys # kidseq A" and ij: "i < length A" "j < length (kids (A ! i))"
  shows "start A i + j + 1 - i < length A" "A ! (start A i + j + 1 - i) = snd (kids (A ! i) ! j)"
proof -
  have "kidseq A = kidseq (take i A) @ map snd (kids (A ! i)) @ kidseq (drop (i + 1) A)"
    by (metis ij(1) seqs_simps(11,12) take_split)
  then have k: "nkids (take i A) + j < length (kidseq A)" "kidseq A ! (nkids (take i A) + j) = snd (kids (A ! i) ! j)"
    using ij by (simp_all add: nth_append)
  have e: "start A i + j + 1 - i = Suc (nkids (take i A) + j)" using ij(1) by (simp add: start_eq)
  have "length A = Suc (length (kidseq A))" using A by (metis length_Cons)
  then show "start A i + j + 1 - i < length A" using k(1) unfolding e by simp
  show "A ! (start A i + j + 1 - i) = snd (kids (A ! i) ! j)" unfolding e by (subst A) (simp only: nth_Cons_Suc k(2))
qed

text \<open>Counting in the finished bitmap.\<close>

lemma describes_bit:
  assumes "describes ss A" "i < length A" "j \<le> length (kids (A ! i))"
  shows "\<exists>w. getBit (ss_labelBitmap ss) (start A i + j) = Some w \<and> (w \<noteq> 0 \<longleftrightarrow> j = length (kids (A ! i)))"
  using getBit_holds [of "ss_labelBitmap ss" "bitseq A" "start A i + j"] start_bit [OF assms(2,3)] assms(1)
  by (auto simp: describes_def)

lemma describes_leaf:
  "describes ss A \<Longrightarrow> i < length A \<Longrightarrow> \<exists>w. getBit (ss_leaves ss) i = Some w \<and> (w \<noteq> 0 \<longleftrightarrow> leaf (A ! i))"
  using getBit_holds [of "ss_leaves ss" "map leaf A" i] by (auto simp: describes_def)

lemma describes_zeros:
  assumes d: "describes ss A" and ij: "i < length A" "j < length (kids (A ! i))"
  shows "countZeros (ss_labelBitmap ss) (ss_ranks ss) (start A i + j + 1) = Some (start A i + j + 1 - i)"
proof -
  have h: "bm_bits (ss_labelBitmap ss) = bitseq A @ replicate (64 * length (ss_labelBitmap ss) - length (bitseq A)) False"
    "length (bitseq A) \<le> 64 * length (ss_labelBitmap ss)" using d by (auto simp: describes_def bm_holds_def)
  have s: "start A i + (j + 1) < length (bitseq A)" "ones (take (start A i + (j + 1)) (bitseq A)) = i"
    using start_bit(1,3) [OF ij(1), of "j + 1"] ij(2) by simp_all
  then have "ones (take (start A i + j + 1) (bm_bits (ss_labelBitmap ss))) = i" unfolding h(1) by simp
  then show ?thesis
    using rank64_correct [of "start A i + j + 1" "ss_labelBitmap ss"] s(1) h(2) d by (simp add: countZeros_def describes_def)
qed

lemma describes_select:
  assumes d: "describes ss A" and n: "n + 1 < length A"
  shows "selectIthOne (ss_labelBitmap ss) (ss_ranks ss) (ss_selects ss) n = Some (start A (n + 1) - 1)"
proof -
  define k where "k = length (kids (A ! n))"
  have k: "start A n + k < length (bitseq A)" "bitseq A ! (start A n + k)" "ones (take (start A n + k) (bitseq A)) = n"
    using start_bit [of n A k] n by (simp_all add: k_def)
  then have "ith_one (bitseq A) n (start A n + k)" by (simp add: ith_one_def)
  then have "ith_one (bm_bits (ss_labelBitmap ss)) n (start A n + k)"
    using d by (simp add: describes_def bm_holds_def)
  moreover have "start A (n + 1) - 1 = start A n + k"
    using n by (simp add: start_eq k_def take_Suc_conv_app_nth)
  ultimately show ?thesis
    using select32R64_correct [of "ss_labelBitmap ss" n] d by (fastforce simp: selectIthOne_def describes_def indexSelect32R64_def)
qed

lemma describes_scan:
  assumes d: "describes ss A" and A: "A = keys # kidseq A" and i: "i < length A"
  shows "j \<le> length (kids (A ! i)) \<Longrightarrow>
    (case ascan c (drop j (kids (A ! i))) of
       Inl b \<Rightarrow> scan_labels ss c i (start A i + j) = Some (Inl b)
     | Inr K \<Rightarrow> \<exists>m < length (kids (A ! i)). scan_labels ss c i (start A i + j) = Some (Inr (start A i + m)) \<and>
                  K = snd (kids (A ! i) ! m))"
proof (induction "length (kids (A ! i)) - j" arbitrary: j)
  case 0
  then have j: "j = length (kids (A ! i))" by simp
  from describes_bit [OF d i, of j] show ?case
    unfolding j by (auto simp: scan_labels.simps [of ss c i "start A i + length (kids (A ! i))"])
next
  case (Suc n)
  then have j: "j < length (kids (A ! i))" by simp
  obtain l K where lK: "kids (A ! i) ! j = (l, K)" by fastforce
  have dr: "drop j (kids (A ! i)) = (l, K) # drop (j + 1) (kids (A ! i))"
    using j lK by (metis Cons_nth_drop_Suc Suc_eq_plus1)
  from describes_bit [OF d i Suc.prems] j have bit: "getBit (ss_labelBitmap ss) (start A i + j) = Some 0" by auto
  have label: "nth_opt (ss_labels ss) (start A i + j - i) = Some l"
    using start_label [OF i j] d lK by (simp add: describes_def)
  have ge: "i \<le> start A i + j" using i by (simp add: start_eq)
  have zeros: "countZeros (ss_labelBitmap ss) (ss_ranks ss) (Suc (start A i + j)) = Some (start A i + j + 1 - i)"
    using describes_zeros [OF d i j] by simp
  obtain w where w: "getBit (ss_leaves ss) (start A i + j + 1 - i) = Some w" "w \<noteq> 0 \<longleftrightarrow> leaf K"
    using describes_leaf [OF d kid_node(1) [OF A i j]] kid_node(2) [OF A i j] lK by auto
  have IH: "case ascan c (drop (j + 1) (kids (A ! i))) of
       Inl b \<Rightarrow> scan_labels ss c i (start A i + (j + 1)) = Some (Inl b)
     | Inr K \<Rightarrow> \<exists>m < length (kids (A ! i)). scan_labels ss c i (start A i + (j + 1)) = Some (Inr (start A i + m)) \<and>
                  K = snd (kids (A ! i) ! m)"
    using Suc.hyps(2) j by (intro Suc.hyps(1)) auto
  show ?case
    unfolding dr using IH bit label ge zeros w j lK
    by (subst (1 2) scan_labels.simps) (auto simp: rootLabel_def prefixLabel_def split: sum.splits)
qed

lemma describes_end:
  assumes d: "describes ss A" and i: "i < length A"
  shows "j \<le> length (kids (A ! i)) \<Longrightarrow>
    scan_end ss i (start A i + j)
      = Some (prefixLabel \<in> fst ` set (drop j (kids (A ! i))) \<or> rootLabel \<in> fst ` set (drop j (kids (A ! i))))"
proof (induction "length (kids (A ! i)) - j" arbitrary: j)
  case 0
  then have j: "j = length (kids (A ! i))" by simp
  from describes_bit [OF d i, of j] show ?case
    unfolding j by (auto simp: scan_end.simps [of ss i "start A i + length (kids (A ! i))"])
next
  case (Suc n)
  then have j: "j < length (kids (A ! i))" by simp
  have dr: "drop j (kids (A ! i)) = kids (A ! i) ! j # drop (j + 1) (kids (A ! i))"
    using j by (metis Cons_nth_drop_Suc Suc_eq_plus1)
  from describes_bit [OF d i Suc.prems] j have bit: "getBit (ss_labelBitmap ss) (start A i + j) = Some 0" by auto
  have label: "nth_opt (ss_labels ss) (start A i + j - i) = Some (fst (kids (A ! i) ! j))"
    using start_label [OF i j] d by (simp add: describes_def)
  have ge: "i \<le> start A i + j" using i by (simp add: start_eq)
  have "scan_end ss i (start A i + (j + 1))
      = Some (prefixLabel \<in> fst ` set (drop (j + 1) (kids (A ! i))) \<or> rootLabel \<in> fst ` set (drop (j + 1) (kids (A ! i))))"
    using Suc.hyps(2) j by (intro Suc.hyps(1)) auto
  then show ?case
    unfolding dr using bit label ge by (subst scan_end.simps) auto
qed

lemma describes_has:
  assumes d: "describes ss A" and A: "A = keys # kidseq A"
  shows "i < length A \<Longrightarrow> has_loop ss q i (start A i) = Some (ahas (A ! i) q)"
proof (induction q arbitrary: i)
  case Nil
  then show ?case using describes_leaf [OF d Nil] describes_end [OF d Nil, of 0] by auto
next
  case (Cons c q)
  note scan = describes_scan [OF d A Cons.prems, of 0 c, simplified]
  show ?case
  proof (cases "ascan c (kids (A ! i))")
    case (Inl b)
    then show ?thesis using scan by simp
  next
    case (Inr K)
    with scan obtain m where m: "m < length (kids (A ! i))" "scan_labels ss c i (start A i) = Some (Inr (start A i + m))"
      "K = snd (kids (A ! i) ! m)" by auto
    define n where "n = start A i + m + 1 - i"
    have n: "n < length A" "A ! n = K" "1 \<le> n"
      using kid_node [OF A Cons.prems m(1)] m(3) Cons.prems by (auto simp: n_def start_eq)
    have "countZeros (ss_labelBitmap ss) (ss_ranks ss) (start A i + m + 1) = Some n"
      using describes_zeros [OF d Cons.prems m(1)] by (simp add: n_def)
    moreover have "selectIthOne (ss_labelBitmap ss) (ss_ranks ss) (ss_selects ss) (n - 1) = Some (start A n - 1)"
      using describes_select [OF d, of "n - 1"] n by simp
    moreover have "start A n - 1 + 1 = start A n" using n by (simp add: start_eq)
    ultimately show ?thesis using m(2) n Inr Cons.IH [OF n(1)] by simp
  qed
qed

section \<open>What the set contains\<close>

text \<open>
  A string is in the set when it is a key, when a key that ends in the prefix label is a prefix of it,
  or when a key that ends in the root label is the string or continues in it with a dot.
\<close>

definition set_has :: "bytes set \<Rightarrow> bytes \<Rightarrow> bool" where
  "set_has S q \<longleftrightarrow> q \<in> S \<or> (\<exists>p r. q = p @ r \<and> p @ [prefixLabel] \<in> S) \<or>
     (\<exists>p. p @ [rootLabel] \<in> S \<and> (q = p \<or> (\<exists>r. q = p @ dot # r)))"

text \<open>The labels end keys only.\<close>

definition labels_last :: "bytes set \<Rightarrow> bool" where
  "labels_last S \<longleftrightarrow> (\<forall>k \<in> S. \<forall>c \<in> set (butlast k). prefixLabel < c)"

lemma ascan_label:
  "sorted_wrt (<) (map fst ks) \<Longrightarrow> prefixLabel < c \<Longrightarrow>
   ascan c ks =
     (if prefixLabel \<in> fst ` set ks \<or> (c = dot \<and> (\<exists>K. (rootLabel, K) \<in> set ks \<and> leaf K)) then Inl True
      else case map_of ks c of Some K \<Rightarrow> Inr K | None \<Rightarrow> Inl False)"
proof (induction ks)
  case (Cons lK ks)
  obtain l K where l: "lK = (l, K)" by (cases lK)
  have lt: "l < fst k" if "k \<in> set ks" for k using Cons.prems(1) that by (auto simp: l)
  have IH: "ascan c ks =
     (if prefixLabel \<in> fst ` set ks \<or> (c = dot \<and> (\<exists>K. (rootLabel, K) \<in> set ks \<and> leaf K)) then Inl True
      else case map_of ks c of Some K \<Rightarrow> Inr K | None \<Rightarrow> Inl False)"
    using Cons by auto
  have rp: "rootLabel < prefixLabel" by (simp add: label_defs)
  show ?case
  proof (cases "l = c")
    case True
    then have "prefixLabel \<notin> fst ` set ks" "(rootLabel, K) \<notin> set ks" for K
      using lt Cons.prems(2) rp by (auto dest!: lt)
    then show ?thesis using True Cons.prems(2) rp by (auto simp: l)
  next
    case False
    then show ?thesis using IH by (auto simp: l rp less_imp_neq)
  qed
qed simp

lemma kids_member: "node_ok K \<Longrightarrow> (l, K') \<in> set (kids K) \<Longrightarrow> t \<in> set K' \<longleftrightarrow> l # t \<in> set K"
  using kids_ok(2) by blast

lemma kids_label: "node_ok K \<Longrightarrow> l \<in> fst ` set (kids K) \<longleftrightarrow> (\<exists>t. l # t \<in> set K)"
proof
  assume ok: "node_ok K" and "l \<in> fst ` set (kids K)"
  then obtain K' where K': "(l, K') \<in> set (kids K)" by auto
  then have "node_ok K'" using kids_ok(2) [OF ok] by simp
  then obtain t where "t \<in> set K'" by (cases K') (auto simp: node_ok_def)
  then show "\<exists>t. l # t \<in> set K" using kids_member [OF ok K'] by blast
next
  assume "node_ok K" "\<exists>t. l # t \<in> set K"
  then show "l \<in> fst ` set (kids K)" using kids_ok(3) by force
qed

lemma labels_last_single:
  "labels_last S \<Longrightarrow> l # t \<in> S \<Longrightarrow> l \<le> prefixLabel \<Longrightarrow> t = []"
  by (cases t) (fastforce simp: labels_last_def)+

lemma labels_last_kid: "labels_last (set K) \<Longrightarrow> node_ok K \<Longrightarrow> (l, K') \<in> set (kids K) \<Longrightarrow> labels_last (set K')"
proof -
  assume h: "labels_last (set K)" "node_ok K" "(l, K') \<in> set (kids K)"
  have "\<forall>c \<in> set (butlast t). prefixLabel < c" if "t \<in> set K'" for t
  proof -
    have "l # t \<in> set K" using that kids_member [OF h(2,3)] by simp
    then have "\<forall>c \<in> set (butlast (l # t)). prefixLabel < c" using h(1) by (auto simp: labels_last_def)
    then show ?thesis by (cases t) auto
  qed
  then show ?thesis by (auto simp: labels_last_def)
qed

lemma set_has_Nil: "set_has S [] \<longleftrightarrow> [] \<in> S \<or> [prefixLabel] \<in> S \<or> [rootLabel] \<in> S"
  by (auto simp: set_has_def)

lemma set_has_Cons:
  "set_has S (c # q) \<longleftrightarrow> [prefixLabel] \<in> S \<or> (c = dot \<and> [rootLabel] \<in> S) \<or> set_has {t. c # t \<in> S} q"
proof -
  have ex: "(\<exists>p. P p) \<longleftrightarrow> P [] \<or> (\<exists>a p. P (a # p))" for P :: "bytes \<Rightarrow> bool"
    by (metis list.exhaust)
  show ?thesis unfolding set_has_def by (subst (1 3) ex) auto
qed

text \<open>The walk decides membership.\<close>

lemma ahas_set_has:
  "node_ok K \<Longrightarrow> labels_last (set K) \<Longrightarrow> (\<And>c. c \<in> set q \<Longrightarrow> prefixLabel < c) \<Longrightarrow> ahas K q \<longleftrightarrow> set_has (set K) q"
proof (induction q arbitrary: K)
  case Nil
  have "l \<in> fst ` set (kids K) \<longleftrightarrow> [l] \<in> set K" if "l \<le> prefixLabel" for l
    using kids_label [OF Nil(1), of l] labels_last_single [OF Nil(2) _ that] by auto
  then show ?case using leaf_iff [OF Nil(1)] by (simp add: set_has_Nil label_defs)
next
  case (Cons c q)
  note ok = Cons.prems(1) and last = Cons.prems(2)
  have c: "prefixLabel < c" using Cons.prems(3) by simp
  have lab: "l \<in> fst ` set (kids K) \<longleftrightarrow> [l] \<in> set K" if "l \<le> prefixLabel" for l
    using kids_label [OF ok, of l] labels_last_single [OF last _ that] by auto
  have rp: "rootLabel \<le> prefixLabel" by (simp add: label_defs)
  have root: "(\<exists>K'. (rootLabel, K') \<in> set (kids K) \<and> leaf K') \<longleftrightarrow> [rootLabel] \<in> set K"
  proof
    assume "[rootLabel] \<in> set K"
    then obtain K' where K': "(rootLabel, K') \<in> set (kids K)" using lab [OF rp] by auto
    then have "leaf K'" using \<open>[rootLabel] \<in> set K\<close> kids_ok(2) [OF ok K'] leaf_iff by auto
    then show "\<exists>K'. (rootLabel, K') \<in> set (kids K) \<and> leaf K'" using K' by blast
  qed (use lab [OF rp] in force)
  have dist: "distinct (map fst (kids K))" using kids_ok(1) [OF ok] by (simp add: strict_sorted_iff)
  have scan: "ascan c (kids K) =
     (if [prefixLabel] \<in> set K \<or> (c = dot \<and> [rootLabel] \<in> set K) then Inl True
      else case map_of (kids K) c of Some K \<Rightarrow> Inr K | None \<Rightarrow> Inl False)"
    using ascan_label [OF kids_ok(1) [OF ok] c] lab [of prefixLabel] root by simp
  show ?case
  proof (cases "map_of (kids K) c")
    case None
    then have "c \<notin> fst ` set (kids K)" by (simp add: map_of_eq_None_iff)
    then have "{t. c # t \<in> set K} = {}" using kids_label [OF ok, of c] by auto
    then have "\<not> set_has {t. c # t \<in> set K} q" by (simp add: set_has_def)
    then show ?thesis using scan None by (simp add: set_has_Cons)
  next
    case (Some K')
    then have K': "(c, K') \<in> set (kids K)" by (rule map_of_SomeD)
    have "ahas K' q \<longleftrightarrow> set_has (set K') q"
      using Cons.prems(3) kids_ok(2) [OF ok K'] labels_last_kid [OF last ok K'] by (intro Cons.IH) auto
    then show ?thesis using scan Some kids_ok(2) [OF ok K'] by (auto simp: set_has_Cons)
  qed
qed

text \<open>Lookup in the set of sorted keys.\<close>

theorem newSuccinctSet_Has:
  assumes "keys \<noteq> []" "sorted_wrt (<) keys" "labels_last (set keys)"
  shows "\<exists>ss. newSuccinctSet keys = Some ss \<and>
     (\<forall>q. (\<forall>c \<in> set q. prefixLabel < c) \<longrightarrow> ss_Has ss q = Some (set_has (set keys) q))"
proof -
  from newSuccinctSet_describes [OF assms(1,2)] obtain ss A where
    ss: "newSuccinctSet keys = Some ss" "describes ss A" "A = keys # kidseq A" "\<forall>K \<in> set A. node_ok K" by blast
  have A: "0 < length A" "A ! 0 = keys" using ss(3) by (metis length_greater_0_conv list.distinct(1), metis nth_Cons_0)
  then have "node_ok keys" using ss(4) nth_mem by metis
  then have "ss_Has ss q = Some (set_has (set keys) q)" if "\<forall>c \<in> set q. prefixLabel < c" for q
    using describes_has [OF ss(2,3) A(1), of q] ahas_set_has [of keys q] assms(3) that
    by (simp add: ss_Has_def A(2) start_def)
  then show ?thesis using ss(1) by blast
qed

text \<open>(C18)
  The trie decides membership: from any sorted, duplicate-free, non-empty list of keys in which
  the two label bytes only end a key, \<open>newSuccinctSet\<close> builds the bitmaps and \<open>Has\<close>, walking them
  with rank and select, answers whether a name is a key, continues a key that ends in the prefix
  label, or is, or continues after a dot, a key that ends in the root label.
\<close>

theorem succinct_set_correct:
  assumes "keys \<noteq> []" "sorted_wrt (<) keys"
    "\<forall>k \<in> set keys. \<forall>c \<in> set (butlast k). prefixLabel < c" "\<forall>c \<in> set q. prefixLabel < c"
  shows "\<exists>ss. newSuccinctSet keys = Some ss \<and>
    ss_Has ss q = Some (q \<in> set keys \<or> (\<exists>p r. q = p @ r \<and> p @ [prefixLabel] \<in> set keys) \<or>
       (\<exists>p. p @ [rootLabel] \<in> set keys \<and> (q = p \<or> (\<exists>r. q = p @ dot # r))))"
  using newSuccinctSet_Has [of keys] assms unfolding labels_last_def set_has_def by blast

theorem succinct_set_correct_witness:
  "\<exists>ss. newSuccinctSet [str_bytes ''moc.a'' @ [prefixLabel], str_bytes ''moc.b'', str_bytes ''ten'' @ [rootLabel]] = Some ss \<and>
     ss_Has ss (str_bytes ''ten.b'') = Some True"
proof -
  let ?keys = "[str_bytes ''moc.a'' @ [prefixLabel], str_bytes ''moc.b'', str_bytes ''ten'' @ [rootLabel]]"
  have "str_bytes ''ten.b'' = str_bytes ''ten'' @ dot # str_bytes ''b''" by code_simp
  then have "\<exists>p. p @ [rootLabel] \<in> set ?keys \<and> (str_bytes ''ten.b'' = p \<or> (\<exists>r. str_bytes ''ten.b'' = p @ dot # r))"
    by (intro exI [of _ "str_bytes ''ten''"]) auto
  moreover have "?keys \<noteq> []" by simp
  moreover have "sorted_wrt (<) ?keys" by code_simp
  moreover have "\<forall>k \<in> set ?keys. \<forall>c \<in> set (butlast k). prefixLabel < c" by code_simp
  moreover have "\<forall>c \<in> set (str_bytes ''ten.b''). prefixLabel < c" by code_simp
  ultimately show ?thesis using succinct_set_correct [of ?keys "str_bytes ''ten.b''"] by auto
qed

end
