(* ===== verification/Matcher.thy ===== *)
theory Matcher
  imports Louds
begin

text \<open>
  The domain matcher for names of printable ASCII characters: it accepts a name when the name is one of
  the domains or when it falls under one of the suffixes, letter case aside.
\<close>

section \<open>Plain names\<close>

definition plain :: "bytes \<Rightarrow> bool" where
  "plain d \<longleftrightarrow> (\<forall>c \<in> set d. prefixLabel < c \<and> c < 0x80)"

lemma plain_simps [simp]: "plain []" "plain (c # d) \<longleftrightarrow> prefixLabel < c \<and> c < 0x80 \<and> plain d" "plain (d @ e) \<longleftrightarrow> plain d \<and> plain e"
  by (auto simp: plain_def)

lemma plain_lower_byte:
  fixes c :: byte
  assumes "prefixLabel < c" "c < 0x80"
  shows "prefixLabel < (of_char (char_lower (char_of (unat c))) :: byte) \<and> (of_char (char_lower (char_of (unat c))) :: byte) < 0x80"
proof -
  have "13 < unat c" "unat c < 128" using assms by (simp_all add: prefixLabel_def word_less_nat_alt)
  then have "13 < unat (of_char (char_lower (char_of (unat c))) :: byte)" "unat (of_char (char_lower (char_of (unat c))) :: byte) < 128"
    unfolding unat_of_char_byte by (auto simp: char_lower_def)
  then show ?thesis by (simp add: prefixLabel_def word_less_nat_alt)
qed

lemma lower_byte:
  fixes b :: byte
  shows "of_char (char_lower (char_of (unat b))) = (if 0x41 \<le> b \<and> b \<le> 0x5A then b + 0x20 else b)"
proof (cases "0x41 \<le> b \<and> b \<le> 0x5A")
  case True
  then have u: "65 \<le> unat b" "unat b \<le> 90" by (simp_all add: word_le_nat_alt)
  have "unat (b + 0x20) = unat b + 32" using u by (subst unat_add_lem [THEN iffD1]) simp_all
  then have "unat (of_char (char_lower (char_of (unat b))) :: byte) = unat (b + 0x20)"
    unfolding unat_of_char_byte using u by (simp add: char_lower_def)
  then show ?thesis using True by (simp add: unsigned_word_eqI)
next
  case False
  then have "\<not> (65 \<le> unat b \<and> unat b \<le> 90)" by (simp add: word_le_nat_alt)
  moreover have "unat b < 2 ^ LENGTH(8)" by (rule unsigned_less)
  ultimately have "char_lower (char_of (unat b)) = char_of (unat b)" by (simp add: char_lower_def)
  then show ?thesis using False by (simp add: of_char_char_of_byte)
qed

lemma domain_lower_bytes: "domain_lower d = map (\<lambda>b. if 0x41 \<le> b \<and> b \<le> 0x5A then b + 0x20 else b) d"
  by (simp add: domain_lower_def str_lower_def str_bytes_def bytes_str_def lower_byte)

lemma plain_domain_lower: "plain d \<Longrightarrow> plain (domain_lower d)"
  using plain_lower_byte by (fastforce simp: plain_def domain_lower_def str_lower_def str_bytes_def bytes_str_def)

lemma domain_lower_eq_Nil [simp]: "domain_lower d = [] \<longleftrightarrow> d = []"
  by (simp add: domain_lower_def str_lower_def bytes_str_def)

section \<open>Reversal\<close>

lemma DecodeRune_plain: "c < 0x80 \<Longrightarrow> DecodeRune (c # r) = (unat c, 1)"
  by (simp add: DecodeRune_def)

lemma rune_bytes_plain: "c < 0x80 \<Longrightarrow> rune_bytes (unat c) = [c]" for c :: byte
  by (simp add: rune_bytes_def word_less_nat_alt)

lemma reverse_fill_plain:
  "plain d \<Longrightarrow> i \<le> length d \<Longrightarrow> length d \<le> length b \<Longrightarrow>
   reverse_fill d i b = Some (rev (drop i d) @ drop (length d - i) b)"
proof (induction "length d - i" arbitrary: i b)
  case 0
  then show ?case by (subst reverse_fill.simps) simp
next
  case (Suc n)
  then have i: "i < length d" by simp
  have dr: "drop i d = d ! i # drop (i + 1) d" using i by (simp add: Cons_nth_drop_Suc)
  have c: "d ! i < 0x80" using Suc.prems(1) i by (simp add: plain_def)
  define b' where "b' = put_at b (length d - (i + 1)) [d ! i]"
  have enc: "EncodeRune b (length d - (i + 1)) (unat (d ! i)) = Some b'"
    using i Suc.prems(3) by (simp add: EncodeRune_def rune_bytes_plain [OF c] b'_def guard_panic_def)
  have "reverse_fill d (i + 1) b' = Some (rev (drop (i + 1) d) @ drop (length d - (i + 1)) b')"
    using Suc.hyps(2) i Suc.prems(1,3) by (intro Suc.hyps(1)) (simp_all add: b'_def)
  moreover have "drop (length d - (i + 1)) b' = d ! i # drop (length d - i) b"
    using i Suc.prems(3) by (simp add: b'_def put_at_def Suc_diff_Suc)
  ultimately show ?case
    using i enc by (subst reverse_fill.simps) (simp add: dr DecodeRune_plain [OF c])
qed

lemma reverseDomain_plain: "plain d \<Longrightarrow> reverseDomain d = Some (rev d)"
  by (simp add: reverseDomain_def reverse_fill_plain)

lemma reverse_labels_plain:
  "plain d \<Longrightarrow> reverseDomainSuffix d = Some (rev d @ [prefixLabel])"
  "plain d \<Longrightarrow> reverseDomainRoot d = Some (rev d @ [rootLabel])"
proof -
  have "drop (length d) (replicate (length d + 1) (0 :: byte)) = [0]" by (simp only: drop_replicate) simp
  then show "plain d \<Longrightarrow> reverseDomainSuffix d = Some (rev d @ [prefixLabel])"
    "plain d \<Longrightarrow> reverseDomainRoot d = Some (rev d @ [rootLabel])"
    by (simp_all only: reverseDomainSuffix_def reverseDomainRoot_def)
      (simp_all add: reverse_fill_plain list_update_append del: replicate_Suc)
qed

section \<open>The keys\<close>

definition suffix_key :: "bytes \<Rightarrow> bytes" where
  "suffix_key s = rev s @ [if hd s = dot then prefixLabel else rootLabel]"

text \<open>A name falls under a suffix: one that starts with a dot is a plain suffix, another one is a zone.\<close>

definition under :: "bytes \<Rightarrow> bytes \<Rightarrow> bool" where
  "under s d \<longleftrightarrow> (if hd s = dot then \<exists>p. d = p @ s else d = s \<or> (\<exists>p. d = p @ dot # s))"

lemma suffix_key_inject [simp]: "suffix_key s = suffix_key t \<longleftrightarrow> s = t"
  by (auto simp: suffix_key_def)

lemma suffix_key_not_plain: "plain d \<Longrightarrow> suffix_key s \<noteq> rev d"
proof
  assume h: "plain d" "suffix_key s = rev d"
  then have "plain (rev d)" by (simp add: plain_def)
  then show False unfolding h(2) [symmetric] by (simp add: suffix_key_def label_defs split: if_splits)
qed

text \<open>The builder after the suffixes \<open>S\<close> and the domains \<open>D\<close>.\<close>

definition mb_ok :: "bytes set \<Rightarrow> bytes set \<Rightarrow> matcher_builder \<Rightarrow> bool" where
  "mb_ok S D b \<longleftrightarrow>
     set (mb_seen b) = S \<union> D \<and> set (mb_domainList b) = suffix_key ` S \<union> rev ` (D - S) \<and>
     distinct (mb_domainList b) \<and> (\<forall>d \<in> S \<union> D. plain d)"

lemma AddDomainSuffix_key:
  "plain l \<Longrightarrow> l \<noteq> [] \<Longrightarrow> l \<notin> set (mb_seen b) \<Longrightarrow>
   AddDomainSuffix l b = Some \<lparr>mb_seen = l # mb_seen b, mb_domainList = mb_domainList b @ [suffix_key l]\<rparr>"
  by (simp add: AddDomainSuffix_def suffix_key_def reverse_labels_plain hd_conv_nth)

lemma AddDomainSuffix_ok:
  assumes "mb_ok S {} b" "plain l" "l \<noteq> []"
  shows "\<exists>b'. AddDomainSuffix l b = Some b' \<and> mb_ok (insert l S) {} b'"
proof (cases "l \<in> S")
  case True
  then show ?thesis using assms by (auto simp: mb_ok_def AddDomainSuffix_def insert_absorb)
next
  case False
  then show ?thesis using assms by (auto simp: mb_ok_def AddDomainSuffix_key)
qed

lemma AddDomain_ok:
  assumes "mb_ok S D b" "plain l"
  shows "\<exists>b'. AddDomain l b = Some b' \<and> mb_ok S (insert l D) b'"
proof (cases "l \<in> S \<union> D")
  case True
  then show ?thesis using assms by (auto simp: mb_ok_def AddDomain_def insert_absorb insert_Diff_if)
next
  case False
  have "rev l \<notin> suffix_key ` S" using suffix_key_not_plain [OF assms(2)] by auto (metis)
  then show ?thesis
    using assms False by (auto simp: mb_ok_def AddDomain_def reverseDomain_plain insert_Diff_if)
qed

lemma add_suffixes_ok:
  "(\<And>s. s \<in> set ss \<Longrightarrow> plain s \<and> s \<noteq> []) \<Longrightarrow> mb_ok S {} b \<Longrightarrow>
   \<exists>b'. add_all (\<lambda>d. AddDomainSuffix (domain_lower d)) ss b = Some b' \<and> mb_ok (S \<union> domain_lower ` set ss) {} b'"
proof (induction ss arbitrary: S b)
  case (Cons s ss)
  obtain b1 where b1: "AddDomainSuffix (domain_lower s) b = Some b1" "mb_ok (insert (domain_lower s) S) {} b1"
    using AddDomainSuffix_ok [OF Cons.prems(2), of "domain_lower s"] Cons.prems(1) by (auto simp: plain_domain_lower)
  then show ?case using Cons.IH [OF _ b1(2)] Cons.prems(1) by auto
qed simp

lemma add_domains_ok:
  "(\<And>s. s \<in> set ds \<Longrightarrow> plain s) \<Longrightarrow> mb_ok S D b \<Longrightarrow>
   \<exists>b'. add_all (\<lambda>d. AddDomain (domain_lower d)) ds b = Some b' \<and> mb_ok S (D \<union> domain_lower ` set ds) b'"
proof (induction ds arbitrary: D b)
  case (Cons s ds)
  obtain b1 where b1: "AddDomain (domain_lower s) b = Some b1" "mb_ok S (insert (domain_lower s) D) b1"
    using AddDomain_ok [OF Cons.prems(2), of "domain_lower s"] Cons.prems(1) by (auto simp: plain_domain_lower)
  then show ?case using Cons.IH [OF _ b1(2)] Cons.prems(1) by auto
qed simp

section \<open>Matching\<close>

lemma plain_key: "plain s \<Longrightarrow> plain (rev s)"
  by (simp add: plain_def)

lemma key_labels_last:
  assumes "\<And>d. d \<in> S \<union> D \<Longrightarrow> plain d"
  shows "labels_last (suffix_key ` S \<union> rev ` (D - S))"
  unfolding labels_last_def
proof (intro ballI)
  fix k c assume k: "k \<in> suffix_key ` S \<union> rev ` (D - S)" "c \<in> set (butlast k)"
  then have "\<exists>d \<in> S \<union> D. c \<in> set d"
    by (auto simp: suffix_key_def dest: in_set_butlastD) (metis UnI2 in_set_butlastD butlast_rev in_set_conv_decomp list.sel(2) list.set_sel(2))
  then show "prefixLabel < c" using assms by (auto simp: plain_def)
qed

lemma keys_set_has:
  assumes p: "\<And>d. d \<in> S \<union> D \<Longrightarrow> plain d" "plain q"
  shows "set_has (suffix_key ` S \<union> rev ` (D - S)) (rev q) \<longleftrightarrow> q \<in> D \<or> (\<exists>s \<in> S. under s q)"
proof -
  let ?K = "suffix_key ` S \<union> rev ` (D - S)"
  have nolabel: "p @ [l] \<noteq> rev d" if "d \<in> D" "l \<le> prefixLabel" for p d l
    using plain_key [OF p(1), of d] that by (metis UnCI leD plain_simps(2,3))
  have pre: "p @ [prefixLabel] \<in> ?K \<longleftrightarrow> (\<exists>s \<in> S. hd s = dot \<and> p = rev s)" for p
    using nolabel [of _ prefixLabel p] by (auto simp: suffix_key_def label_defs image_iff split: if_splits)
  have root: "p @ [rootLabel] \<in> ?K \<longleftrightarrow> (\<exists>s \<in> S. hd s \<noteq> dot \<and> p = rev s)" for p
    using nolabel [of _ rootLabel p] by (auto simp: suffix_key_def label_defs image_iff split: if_splits)
  have "rev q \<notin> suffix_key ` S" using suffix_key_not_plain [OF p(2)] by auto (metis)
  then have whole: "rev q \<in> ?K \<longleftrightarrow> q \<in> D - S" by auto
  have dots: "(\<exists>p r. rev q = p @ r \<and> (\<exists>s \<in> S. hd s = dot \<and> p = rev s)) \<longleftrightarrow> (\<exists>s \<in> S. hd s = dot \<and> (\<exists>p. q = p @ s))"
    by (auto simp: rev_eq_append_conv) (metis rev_rev_ident)
  have zones: "(\<exists>p. (\<exists>s \<in> S. hd s \<noteq> dot \<and> p = rev s) \<and> (rev q = p \<or> (\<exists>r. rev q = p @ dot # r)))
      \<longleftrightarrow> (\<exists>s \<in> S. hd s \<noteq> dot \<and> (q = s \<or> (\<exists>p. q = p @ dot # s)))"
    by (auto simp: rev_eq_append_conv) (metis rev_rev_ident)
  have self: "q \<in> S \<Longrightarrow> \<exists>s \<in> S. under s q" by (rule bexI [of _ q]) (auto simp: under_def)
  have "set_has ?K (rev q) \<longleftrightarrow> q \<in> D - S \<or> (\<exists>s \<in> S. under s q)"
    unfolding set_has_def pre root whole dots zones by (auto simp: under_def)
  then show ?thesis using self by blast
qed

lemma no_keys: "suffix_key ` S \<union> rev ` (D - S) = {} \<longleftrightarrow> S = {} \<and> D = {}"
  by auto

lemma Build_ok:
  assumes b: "mb_ok S D b" and ne: "S \<union> D \<noteq> {}"
  shows "\<exists>m. Build b = Some m \<and>
     (\<forall>d. plain d \<longrightarrow> matcher_Match m d = Some (domain_lower d \<in> D \<or> (\<exists>s \<in> S. under s (domain_lower d))))"
proof -
  define ks where "ks = sort (mb_domainList b)"
  have pl: "\<And>d. d \<in> S \<union> D \<Longrightarrow> plain d" using b by (simp add: mb_ok_def)
  have ks: "set ks = suffix_key ` S \<union> rev ` (D - S)" "sorted_wrt (<) ks"
    using b by (auto simp: ks_def mb_ok_def strict_sorted_iff)
  then have "ks \<noteq> []" using no_keys [of S D] ne by auto
  from newSuccinctSet_Has [OF this ks(2)] key_labels_last [OF pl] obtain m where
    m: "newSuccinctSet ks = Some m" "\<And>q. \<forall>c \<in> set q. prefixLabel < c \<Longrightarrow> ss_Has m q = Some (set_has (set ks) q)"
    unfolding ks(1) by auto
  have "matcher_Match m d = Some (domain_lower d \<in> D \<or> (\<exists>s \<in> S. under s (domain_lower d)))" if "plain d" for d
  proof -
    have d: "plain (domain_lower d)" using that by (rule plain_domain_lower)
    then have "ss_Has m (rev (domain_lower d)) = Some (set_has (set ks) (rev (domain_lower d)))"
      by (intro m(2)) (simp add: plain_def)
    then show ?thesis
      using keys_set_has [OF pl d] by (simp add: matcher_Match_def reverseDomain_plain [OF d] ks(1))
  qed
  then show ?thesis using m(1) by (auto simp: Build_def ks_def)
qed

text \<open>(C24)
  \<open>NewMatcher\<close>: from plain domains and non-empty plain suffixes, at least one of all, a matcher is
  built; it accepts exactly the names that, letter case aside, are one of the domains or fall under
  one of the suffixes.
\<close>

theorem NewMatcher_accepts:
  assumes "\<forall>d \<in> set domains \<union> set suffixes. plain d" "[] \<notin> set suffixes" "domains \<noteq> [] \<or> suffixes \<noteq> []"
  shows "\<exists>m. NewMatcher domains suffixes = Some m \<and>
     (\<forall>d. plain d \<longrightarrow> matcher_Match m d =
        Some (domain_lower d \<in> domain_lower ` set domains \<or> (\<exists>s \<in> domain_lower ` set suffixes. under s (domain_lower d))))"
proof -
  let ?S = "domain_lower ` set suffixes" and ?D = "domain_lower ` set domains"
  have "mb_ok {} {} NewMatcherBuilder" by (simp add: mb_ok_def NewMatcherBuilder_def)
  then obtain b1 where b1: "add_all (\<lambda>d. AddDomainSuffix (domain_lower d)) suffixes NewMatcherBuilder = Some b1" "mb_ok ?S {} b1"
    using add_suffixes_ok [of suffixes "{}" NewMatcherBuilder] assms(1,2) by auto
  then obtain b2 where b2: "add_all (\<lambda>d. AddDomain (domain_lower d)) domains b1 = Some b2" "mb_ok ?S ?D b2"
    using add_domains_ok [of domains ?S "{}" b1] assms(1) by auto
  have "?S \<union> ?D \<noteq> {}" using assms(3) by auto
  from Build_ok [OF b2(2) this] show ?thesis using b1(1) b2(1) by (auto simp: NewMatcher_def)
qed

lemma under_ends [code]:
  "under s d \<longleftrightarrow>
     (let ends = (\<lambda>t. length t \<le> length d \<and> drop (length d - length t) d = t)
      in if hd s = dot then ends s else d = s \<or> ends (dot # s))"
proof -
  have "(\<exists>p. d = p @ t) \<longleftrightarrow> length t \<le> length d \<and> drop (length d - length t) d = t" for t
    by (auto intro: exI [of _ "take (length d - length t) d"]) (metis append_take_drop_id)
  then show ?thesis by (simp add: under_def Let_def)
qed

theorem NewMatcher_accepts_witness:
  "\<exists>m. NewMatcher [str_bytes ''Hypixel.net''] [str_bytes ''.example.org'', str_bytes ''zone.com''] = Some m \<and>
     matcher_Match m (str_bytes ''hypixel.NET'') = Some True \<and> matcher_Match m (str_bytes ''mc.hypixel.net'') = Some False \<and>
     matcher_Match m (str_bytes ''play.Example.org'') = Some True \<and> matcher_Match m (str_bytes ''ozone.com'') = Some False \<and>
     matcher_Match m (str_bytes ''o.zone.com'') = Some True"
proof -
  have "\<exists>m. NewMatcher [str_bytes ''Hypixel.net''] [str_bytes ''.example.org'', str_bytes ''zone.com''] = Some m \<and>
     (\<forall>d. plain d \<longrightarrow> matcher_Match m d =
        Some (domain_lower d \<in> domain_lower ` set [str_bytes ''Hypixel.net''] \<or>
          (\<exists>s \<in> domain_lower ` set [str_bytes ''.example.org'', str_bytes ''zone.com'']. under s (domain_lower d))))"
    by (rule NewMatcher_accepts) (simp_all add: str_bytes_def plain_def prefixLabel_def)
  then obtain m where m: "NewMatcher [str_bytes ''Hypixel.net''] [str_bytes ''.example.org'', str_bytes ''zone.com''] = Some m"
    "\<And>d. plain d \<Longrightarrow> matcher_Match m d =
        Some (domain_lower d = domain_lower (str_bytes ''Hypixel.net'') \<or> under (domain_lower (str_bytes ''.example.org'')) (domain_lower d) \<or>
              under (domain_lower (str_bytes ''zone.com'')) (domain_lower d))" by auto
  have *: "matcher_Match m d = Some b" if "plain d"
    "b = (domain_lower d = domain_lower (str_bytes ''Hypixel.net'') \<or> under (domain_lower (str_bytes ''.example.org'')) (domain_lower d) \<or>
              under (domain_lower (str_bytes ''zone.com'')) (domain_lower d))" for d b
    using that m(2) by simp
  show ?thesis
    by (intro exI [of _ m] conjI m(1) *) (simp_all add: domain_lower_bytes str_bytes_def plain_def prefixLabel_def under_ends dot_def)
qed

end
