(* ===== verification/RuleFacts.thy ===== *)
theory RuleFacts
  imports Rules Matcher
begin

text \<open>
  What rules mean. \<open>rule_holds\<close> says when a rule applies to a connection; matching decides it, and
  changes the metadata at most by the markup it keeps of the client's hostname. Hostname rules are
  traced to their configuration.
\<close>

section \<open>When a rule applies\<close>

definition clean_host :: "mc_metadata \<Rightarrow> string" where
  "clean_host mc = takeWhile (\<lambda>c. c \<noteq> CHR 0x00) (mm_OriginDestination mc)"

fun rule_holds :: "('ip, 'c) rule_env \<Rightarrow> metadata \<Rightarrow> ('ip, 'c) rule \<Rightarrow> bool" where
  "rule_holds env m (RuleAlways c) \<longleftrightarrow> \<not> rc_Invert c"
| "rule_holds env m (RuleLogicalAnd rs c) \<longleftrightarrow> (\<forall>r \<in> set rs. rule_holds env m r) \<noteq> rc_Invert c"
| "rule_holds env m (RuleLogicalOr rs c) \<longleftrightarrow> (\<exists>r \<in> set rs. rule_holds env m r) \<noteq> rc_Invert c"
| "rule_holds env m (RuleServiceName sets c) \<longleftrightarrow> (\<exists>s \<in> set sets. md_ServiceName m \<in> s) \<noteq> rc_Invert c"
| "rule_holds env m (RuleSourceIPVersion c version) \<longleftrightarrow>
     (version = (if Addr_Is4 (ap_addr (md_SourceAddress m)) then 4 else 6)) \<noteq> rc_Invert c"
| "rule_holds env m (RuleSourceIP s c) \<longleftrightarrow> re_Contains env s (Addr_WithZone (ap_addr (md_SourceAddress m)) []) \<noteq> rc_Invert c"
| "rule_holds env m (RuleSourcePort c ports) \<longleftrightarrow> (ap_port (md_SourceAddress m) \<in> ports) \<noteq> rc_Invert c"
| "rule_holds env m (RuleMinecraftHostname matcher c) \<longleftrightarrow>
     (\<exists>mc \<in> set_option (md_Minecraft m). matcher_Match matcher (str_bytes (clean_host mc)) = Some True) \<noteq> rc_Invert c"
| "rule_holds env m (RuleMinecraftPlayerName sets lowerCase c) \<longleftrightarrow>
     (\<exists>mc \<in> set_option (md_Minecraft m).
        (\<exists>s \<in> set sets. (if lowerCase then str_lower (mm_PlayerName mc) else mm_PlayerName mc) \<in> s)) \<noteq> rc_Invert c"
| "rule_holds env m (RuleMinecraftStatus c) \<longleftrightarrow>
     (\<exists>mc \<in> set_option (md_Minecraft m). mm_NextState mc = IntentStatus) \<noteq> rc_Invert c"
| "rule_holds env m (RuleMinecraftTransfer c) \<longleftrightarrow>
     (\<exists>mc \<in> set_option (md_Minecraft m). mm_NextState mc = IntentTransfer) \<noteq> rc_Invert c"
| "rule_holds env m (RuleCustom x c) \<longleftrightarrow> fst (re_custom env x m)"

text \<open>The matchers of a rule that give an answer for the client's hostname.\<close>

fun rule_answers :: "metadata \<Rightarrow> ('ip, 'c) rule \<Rightarrow> bool" where
  "rule_answers m (RuleLogicalAnd rs c) \<longleftrightarrow> (\<forall>r \<in> set rs. rule_answers m r)"
| "rule_answers m (RuleLogicalOr rs c) \<longleftrightarrow> (\<forall>r \<in> set rs. rule_answers m r)"
| "rule_answers m (RuleMinecraftHostname matcher c) \<longleftrightarrow>
     (\<forall>mc \<in> set_option (md_Minecraft m). matcher_Match matcher (str_bytes (clean_host mc)) \<noteq> None)"
| "rule_answers m r \<longleftrightarrow> True"

text \<open>The metadata with the markup noted.\<close>

definition noted :: "metadata \<Rightarrow> metadata" where
  "noted m = m\<lparr>md_Minecraft := map_option (snd \<circ> CleanOriginDestination) (md_Minecraft m)\<rparr>"

text \<open>Custom rules that look at the connection only.\<close>

definition custom_pure :: "('ip, 'c) rule_env \<Rightarrow> bool" where
  "custom_pure env \<longleftrightarrow> (\<forall>x m. snd (re_custom env x m) = m \<and> fst (re_custom env x (noted m)) = fst (re_custom env x m))"

lemma Clean_clean_host: "fst (CleanOriginDestination mc) = clean_host mc"
proof -
  have "c \<notin> set s \<Longrightarrow> s = takeWhile (\<lambda>x. x \<noteq> c) s" for c :: char and s by (induction s) auto
  from this [of "CHR 0x00" "mm_OriginDestination mc"] show ?thesis
    by (simp add: CleanOriginDestination_def clean_host_def Cut_def split: prod.splits)
qed

lemma Clean_fields [simp]:
  "mm_OriginDestination (snd (CleanOriginDestination mc)) = mm_OriginDestination mc"
  "mm_PlayerName (snd (CleanOriginDestination mc)) = mm_PlayerName mc"
  "mm_NextState (snd (CleanOriginDestination mc)) = mm_NextState mc"
  "clean_host (snd (CleanOriginDestination mc)) = clean_host mc"
  by (simp_all add: CleanOriginDestination_def clean_host_def split: prod.splits)

lemma Clean_idem [simp]:
  "snd (CleanOriginDestination (snd (CleanOriginDestination mc))) = snd (CleanOriginDestination mc)"
  by (simp add: CleanOriginDestination_def split: prod.splits)

lemma noted_fields [simp]:
  "md_ServiceName (noted m) = md_ServiceName m" "md_SourceAddress (noted m) = md_SourceAddress m"
  "md_Minecraft (noted m) = map_option (snd \<circ> CleanOriginDestination) (md_Minecraft m)"
  "noted (noted m) = noted m"
  by (simp_all add: noted_def option.map_comp comp_def)

lemma rule_holds_noted: "custom_pure env \<Longrightarrow> rule_holds env (noted m) r = rule_holds env m r"
  by (induction env m r rule: rule_holds.induct) (auto simp: custom_pure_def)

lemma rule_answers_noted: "rule_answers (noted m) r = rule_answers m r"
  by (induction m r rule: rule_answers.induct) auto

text \<open>Matching decides whether the rule applies.\<close>

lemma inverted_iff: "inverted c b = (b \<noteq> rc_Invert c)"
  by (auto simp: inverted_def)

lemma match_spec:
  shows "custom_pure env \<Longrightarrow> rule_answers m r \<Longrightarrow>
           \<exists>m'. rule_Match env r m = Some (rule_holds env m r, m') \<and> (m' = m \<or> m' = noted m)"
    and "custom_pure env \<Longrightarrow> \<forall>r \<in> set rs. rule_answers m r \<Longrightarrow>
           \<exists>m'. all_Match env rs m = Some (\<forall>r \<in> set rs. rule_holds env m r, m') \<and> (m' = m \<or> m' = noted m)"
    and "custom_pure env \<Longrightarrow> \<forall>r \<in> set rs. rule_answers m r \<Longrightarrow>
           \<exists>m'. any_Match env rs m = Some (\<exists>r \<in> set rs. rule_holds env m r, m') \<and> (m' = m \<or> m' = noted m)"
proof (induction env r m and env rs m and env rs m rule: rule_Match_all_Match_any_Match.induct)
  case (8 env matcher c m)
  then show ?case
    by (auto simp: MinecraftHostname_Match_def Clean_clean_host inverted_iff noted_def split: option.splits prod.splits)
       (auto simp: Clean_clean_host [symmetric])
next
  case (12 env x c m)
  then show ?case by (cases "re_custom env x m") (auto simp: custom_pure_def, metis snd_conv)
next
  case (14 env r rs m)
  then obtain m1 where m1: "rule_Match env r m = Some (rule_holds env m r, m1)" "m1 = m \<or> m1 = noted m" by auto
  show ?case
  proof (cases "rule_holds env m r")
    case True
    have "\<forall>r \<in> set rs. rule_answers m1 r" using "14.prems"(2) m1(2) by (auto simp: rule_answers_noted)
    from "14.IH"(2) [OF m1(1) refl _ "14.prems"(1) this] True obtain m' where
      "all_Match env rs m1 = Some (\<forall>r \<in> set rs. rule_holds env m1 r, m')" "m' = m1 \<or> m' = noted m1" by auto
    then show ?thesis using m1 True rule_holds_noted [OF "14.prems"(1)] by auto
  qed (use m1 in auto)
next
  case (16 env r rs m)
  then obtain m1 where m1: "rule_Match env r m = Some (rule_holds env m r, m1)" "m1 = m \<or> m1 = noted m" by auto
  show ?case
  proof (cases "rule_holds env m r")
    case False
    have "\<forall>r \<in> set rs. rule_answers m1 r" using "16.prems"(2) m1(2) by (auto simp: rule_answers_noted)
    from "16.IH"(2) [OF m1(1) refl _ "16.prems"(1) this] False obtain m' where
      "any_Match env rs m1 = Some (\<exists>r \<in> set rs. rule_holds env m1 r, m')" "m' = m1 \<or> m' = noted m1" by auto
    then show ?thesis using m1 False rule_holds_noted [OF "16.prems"(1)] by auto
  qed (use m1 in auto)
qed (auto simp: Match_defs inverted_iff access_hit_iff split: option.splits)

text \<open>(C17)
  Rules mean what they say: matching a rule (nested logical rules and their short cuts included)
  answers whether it holds of the connection, and leaves the metadata as they were, but for the
  markup of modded clients that a hostname rule notes.
\<close>

theorem rule_Match_holds:
  assumes "custom_pure env" "rule_answers m r"
  shows "\<exists>m'. rule_Match env r m = Some (rule_holds env m r, m') \<and> (m' = m \<or> m' = noted m)"
  using assms by (rule match_spec(1))

section \<open>Hostname rules\<close>

text \<open>The names of a list in the configuration, the named lists filled in.\<close>

definition entry_names :: "(string_set \<Rightarrow> string list) \<Rightarrow> list_map \<Rightarrow> string \<Rightarrow> string list" where
  "entry_names enum lm i =
     (if HasPrefix i parameterListPrefix then enum (the (lm (TrimPrefix i parameterListPrefix))) else [i])"

definition entries :: "(string_set \<Rightarrow> string list) \<Rightarrow> list_map \<Rightarrow> string list \<Rightarrow> bytes list" where
  "entries enum lm is = map str_bytes (concat (map (entry_names enum lm) is))"

definition lists_known :: "list_map \<Rightarrow> string list \<Rightarrow> bool" where
  "lists_known lm is \<longleftrightarrow> (\<forall>i \<in> set is. HasPrefix i parameterListPrefix \<longrightarrow> lm (TrimPrefix i parameterListPrefix) \<noteq> None)"

lemma add_all_append: "add_all f (xs @ ys) b = Option.bind (add_all f xs b) (add_all f ys)"
  by (induction xs arbitrary: b) (auto split: Option.bind_splits)

lemma add_all_map: "add_all (\<lambda>k. f (g k)) xs b = add_all f (map g xs) b"
  by (induction xs arbitrary: b) (auto split: Option.bind_splits)

lemma domain_loop_entries:
  "lists_known lm is \<Longrightarrow> domain_loop add enum lm is b = map_option Inr (add_all add (entries enum lm is) b)"
proof (induction "is" arbitrary: b)
  case (Cons i "is")
  then have IH: "domain_loop add enum lm is b = map_option Inr (add_all add (entries enum lm is) b)" for b
    by (simp add: lists_known_def)
  have e: "entries enum lm (i # is) = map str_bytes (entry_names enum lm i) @ entries enum lm is"
    by (simp add: entries_def)
  have known: "HasPrefix i parameterListPrefix \<Longrightarrow> lm (TrimPrefix i parameterListPrefix) \<noteq> None"
    using Cons.prems by (simp add: lists_known_def)
  show ?case
    unfolding e add_all_append using known
    by (auto simp: IH entry_names_def add_all_map Let_def split: option.splits Option.bind_splits)
qed (simp add: entries_def)

text \<open>The builder with the domains first: a suffix that is among the domains is left out.\<close>

lemma mb_ok_domains:
  "(\<And>d. d \<in> set ds \<Longrightarrow> plain d) \<Longrightarrow> mb_ok {} D b \<Longrightarrow>
   \<exists>b'. add_all AddDomain ds b = Some b' \<and> mb_ok {} (D \<union> set ds) b'"
proof (induction ds arbitrary: D b)
  case (Cons d ds)
  obtain b1 where b1: "AddDomain d b = Some b1" "mb_ok {} (insert d D) b1"
    using AddDomain_ok [OF Cons.prems(2)] Cons.prems(1) by auto
  then show ?case using Cons.IH [OF _ b1(2)] Cons.prems(1) by auto
qed simp

lemma AddDomainSuffix_after:
  assumes "mb_ok S D b" "plain l" "l \<noteq> []" "S \<inter> D = {}"
  shows "\<exists>b'. AddDomainSuffix l b = Some b' \<and> mb_ok (S \<union> ({l} - D)) D b'"
proof (cases "l \<in> S \<union> D")
  case True
  then have "S \<union> ({l} - D) = S" by auto
  then show ?thesis using assms True by (auto simp: mb_ok_def AddDomainSuffix_def)
next
  case False
  then have "S \<union> ({l} - D) = insert l S" "D - insert l S = D" "D - S = D" using assms(4) by auto
  moreover have "suffix_key l \<notin> rev ` D" using assms(1) suffix_key_not_plain by (auto simp: mb_ok_def)
  ultimately show ?thesis using assms(1-3) False by (auto simp: mb_ok_def AddDomainSuffix_key)
qed

lemma mb_ok_suffixes:
  "(\<And>s. s \<in> set ss \<Longrightarrow> plain s \<and> s \<noteq> []) \<Longrightarrow> mb_ok S D b \<Longrightarrow> S \<inter> D = {} \<Longrightarrow>
   \<exists>b'. add_all AddDomainSuffix ss b = Some b' \<and> mb_ok (S \<union> (set ss - D)) D b'"
proof (induction ss arbitrary: S b)
  case (Cons s ss)
  obtain b1 where b1: "AddDomainSuffix s b = Some b1" "mb_ok (S \<union> ({s} - D)) D b1"
    using AddDomainSuffix_after [OF Cons.prems(2) _ _ Cons.prems(3)] Cons.prems(1) by auto
  have "(S \<union> ({s} - D)) \<inter> D = {}" using Cons.prems(3) by auto
  then obtain b' where "add_all AddDomainSuffix ss b1 = Some b'" "mb_ok (S \<union> ({s} - D) \<union> (set ss - D)) D b'"
    using Cons.IH [OF _ b1(2)] Cons.prems(1) by auto
  moreover have "S \<union> ({s} - D) \<union> (set ss - D) = S \<union> (set (s # ss) - D)" by auto
  ultimately show ?case using b1(1) by auto
qed simp

text \<open>The matcher that \<open>newDomainRule\<close> makes of its entries.\<close>

lemma newDomainRule_matches:
  fixes env :: "('ip, 'c) rule_env"
  assumes conf: "with_parameter (rc_Parameter c) (\<lambda>j. decode_struct domain_field j \<lparr>rd_Domain = [], rd_DomainSuffix = []\<rparr>)
            = Inr dc"
    and known: "lists_known lm (rd_Domain dc)" "lists_known lm (rd_DomainSuffix dc)"
    and names: "domains = entries (re_enum env) lm (rd_Domain dc)" "suffixes = entries (re_enum env) lm (rd_DomainSuffix dc)"
    and pl: "\<forall>d \<in> set domains \<union> set suffixes. plain d"
    and ne: "[] \<notin> set suffixes" "domains \<noteq> [] \<or> suffixes \<noteq> []"
  shows "\<exists>m. newDomainRule env c lm = Some (Inr m) \<and>
     (\<forall>h. plain h \<longrightarrow> matcher_Match m h =
        Some (domain_lower h \<in> set domains \<or> (\<exists>s \<in> set suffixes - set domains. under s (domain_lower h))))"
proof -
  let ?D = "set domains" and ?S = "set suffixes - set domains"
  have "mb_ok {} {} NewMatcherBuilder" by (simp add: mb_ok_def NewMatcherBuilder_def)
  then obtain b1 where b1: "add_all AddDomain domains NewMatcherBuilder = Some b1" "mb_ok {} ?D b1"
    using mb_ok_domains [of domains "{}" NewMatcherBuilder] pl by auto
  then obtain b2 where b2: "add_all AddDomainSuffix suffixes b1 = Some b2" "mb_ok ?S ?D b2"
    using mb_ok_suffixes [of suffixes "{}" ?D b1] pl ne(1) by auto
  have "?S \<union> ?D \<noteq> {}" using ne(2) by (cases domains; cases suffixes) auto
  from Build_ok [OF b2(2) this] obtain m where m: "Build b2 = Some m"
    "\<And>h. plain h \<Longrightarrow> matcher_Match m h = Some (domain_lower h \<in> ?D \<or> (\<exists>s \<in> ?S. under s (domain_lower h)))" by blast
  have "newDomainRule env c lm = Some (Inr m)"
    using b1(1) b2(1) m(1) unfolding newDomainRule_def conf
    by (simp add: domain_loop_entries [OF known(1)] domain_loop_entries [OF known(2)] names)
  then show ?thesis using m(2) by blast
qed

text \<open>(C25)
  A hostname rule, from its configuration: with plain names and at least one of them, the rule is
  built, and it matches a host when the host in lower case is one of the domains or falls under one
  of the suffixes that is not also a domain. So a suffix written beside the same domain is lost, and
  an entry with capital letters never matches.
\<close>

theorem hostname_rule_matches:
  fixes env :: "('ip, 'c) rule_env"
  assumes conf: "with_parameter (rc_Parameter c) (\<lambda>j. decode_struct domain_field j \<lparr>rd_Domain = [], rd_DomainSuffix = []\<rparr>)
            = Inr dc"
    and known: "lists_known lm (rd_Domain dc)" "lists_known lm (rd_DomainSuffix dc)"
    and names: "domains = entries (re_enum env) lm (rd_Domain dc)" "suffixes = entries (re_enum env) lm (rd_DomainSuffix dc)"
    and pl: "\<forall>d \<in> set domains \<union> set suffixes. plain d"
    and ne: "[] \<notin> set suffixes" "domains \<noteq> [] \<or> suffixes \<noteq> []"
  shows "\<exists>m. NewMinecraftHostnameRule env c lm = Some (Inr (RuleMinecraftHostname m c)) \<and>
     (\<forall>h. plain h \<longrightarrow> matcher_Match m h =
        Some (domain_lower h \<in> set domains \<or> (\<exists>s \<in> set suffixes - set domains. under s (domain_lower h))))"
  using newDomainRule_matches [OF assms] by (auto simp: NewMinecraftHostnameRule_def)

text \<open>An environment without custom rules, whose address sets are the lists of their entries.\<close>

definition plain_rules :: "(ip_entry list, unit) rule_env" where
  "plain_rules = \<lparr>re_enum = (\<lambda>s. filter (\<lambda>x. x \<in> s) [''hub.org'', ''mc.hub.org'']), re_IPSet = Inr, re_Contains = (\<lambda>es a. EntryAddr a \<in> set es),
     re_custom = (\<lambda>x m. (False, m))\<rparr>"

definition hostname_config :: rule_config where
  "hostname_config = zero_rule\<lparr>rc_Type := ''MinecraftHostname'', rc_Parameter := Some (JObj
     [(''Domain'', JArr [JStr ''example.org'', JStr ''list:lobby'']),
      (''DomainSuffix'', JArr [JStr ''example.org'', JStr ''Example.com'', JStr ''.net''])])\<rparr>"

theorem hostname_rule_matches_witness:
  "\<exists>m. NewMinecraftHostnameRule plain_rules hostname_config (Map.empty(''lobby'' \<mapsto> {''hub.org''}))
          = Some (Inr (RuleMinecraftHostname m hostname_config)) \<and>
     matcher_Match m (str_bytes ''Example.org'') = Some True \<and> matcher_Match m (str_bytes ''HUB.org'') = Some True \<and>
     matcher_Match m (str_bytes ''mc.example.org'') = Some False \<and> matcher_Match m (str_bytes ''Example.com'') = Some False \<and>
     matcher_Match m (str_bytes ''a.b.net'') = Some True"
proof -
  let ?lm = "Map.empty(''lobby'' \<mapsto> {''hub.org''}) :: list_map"
  let ?dc = "\<lparr>rd_Domain = [''example.org'', ''list:lobby''], rd_DomainSuffix = [''example.org'', ''Example.com'', ''.net'']\<rparr>"
  have conf: "with_parameter (rc_Parameter hostname_config)
      (\<lambda>j. decode_struct domain_field j \<lparr>rd_Domain = [], rd_DomainSuffix = []\<rparr>) = Inr ?dc"
    by code_simp
  have names: "map str_bytes [''example.org'', ''hub.org''] = entries (re_enum plain_rules) ?lm (rd_Domain ?dc)"
    "map str_bytes [''example.org'', ''Example.com'', ''.net''] = entries (re_enum plain_rules) ?lm (rd_DomainSuffix ?dc)"
    by (simp_all add: entries_def entry_names_def plain_rules_def parameterListPrefix_def HasPrefix_def TrimPrefix_def)
  from hostname_rule_matches [OF conf _ _ names] obtain m where
    m: "NewMinecraftHostnameRule plain_rules hostname_config ?lm = Some (Inr (RuleMinecraftHostname m hostname_config))"
    "\<And>h. plain h \<Longrightarrow> matcher_Match m h =
        Some (domain_lower h \<in> set (map str_bytes [''example.org'', ''hub.org'']) \<or>
          (\<exists>s \<in> set (map str_bytes [''example.org'', ''Example.com'', ''.net'']) -
                set (map str_bytes [''example.org'', ''hub.org'']). under s (domain_lower h)))"
    by (auto simp: lists_known_def parameterListPrefix_def HasPrefix_def TrimPrefix_def str_bytes_def plain_def prefixLabel_def)
  have *: "matcher_Match m h = Some b" if "plain h"
    "b = (domain_lower h \<in> set (map str_bytes [''example.org'', ''hub.org'']) \<or>
          (\<exists>s \<in> set (map str_bytes [''Example.com'', ''.net'']). under s (domain_lower h)))" for h b
  proof -
    have "set (map str_bytes [''example.org'', ''Example.com'', ''.net'']) - set (map str_bytes [''example.org'', ''hub.org''])
        = set (map str_bytes [''Example.com'', ''.net''])" by (auto simp: insert_Diff_if)
    then show ?thesis using m(2) [OF that(1)] that(2) by simp
  qed
  show ?thesis
    by (intro exI [of _ m] conjI m(1) *) (simp_all add: domain_lower_bytes str_bytes_def plain_def prefixLabel_def under_ends dot_def)
qed

section \<open>Rules and their configuration\<close>

text \<open>The names that a list of entries stands for: named lists and the entry itself.\<close>

definition names_of :: "list_map \<Rightarrow> string list \<Rightarrow> string set" where
  "names_of lm is = (\<Union>i \<in> set is. if HasPrefix i parameterListPrefix then the (lm (TrimPrefix i parameterListPrefix)) else {i})"

text \<open>The entry that a text stands for: a prefix when it has a slash, an address otherwise.\<close>

definition ip_entry_of :: "string \<Rightarrow> ip_entry option" where
  "ip_entry_of s =
     (if CHR ''/'' \<in> set s then map_option (\<lambda>(a, n). EntryPrefix a n) (ParsePrefix s)
      else map_option EntryAddr (ParseAddr s))"

text \<open>
  A rule that is what its configuration says: of the configured type, with the names, the addresses,
  the ports, the matcher and the nested rules that the parameter and the named lists stand for; a custom
  rule is what the factory registered under its name made of the configuration. Every list that is named exists.
\<close>

fun rule_wf :: "('ip, 'c) rule_env \<Rightarrow> 'c registry \<Rightarrow> list_map \<Rightarrow> ('ip, 'c) rule \<Rightarrow> bool" where
  "rule_wf env reg lm (RuleAlways c) \<longleftrightarrow> rc_Type c = ''always''"
| "rule_wf env reg lm (RuleLogicalAnd rs c) \<longleftrightarrow>
     rc_Type c = ''and'' \<and> logic_rules c = Inr (map rule_Config rs) \<and> (\<forall>r \<in> set rs. rule_wf env reg lm r)"
| "rule_wf env reg lm (RuleLogicalOr rs c) \<longleftrightarrow>
     rc_Type c = ''or'' \<and> logic_rules c = Inr (map rule_Config rs) \<and> (\<forall>r \<in> set rs. rule_wf env reg lm r)"
| "rule_wf env reg lm (RuleServiceName sets c) \<longleftrightarrow>
     rc_Type c = ''ServiceName'' \<and> (\<exists>is. with_parameter (rc_Parameter c) Listable_UnmarshalJSON = Inr is \<and>
       lists_known lm is \<and> \<Union> (set sets) = names_of lm is)"
| "rule_wf env reg lm (RuleSourceIPVersion c version) \<longleftrightarrow>
     rc_Type c = ''SourceIPVersion'' \<and> with_parameter (rc_Parameter c) (\<lambda>j. get_word j 0) = Inr version"
| "rule_wf env reg lm (RuleSourceIP s c) \<longleftrightarrow>
     rc_Type c = ''SourceIP'' \<and> (\<exists>is es. with_parameter (rc_Parameter c) Listable_UnmarshalJSON = Inr is \<and> lists_known lm is \<and>
       map ip_entry_of (concat (map (entry_names (re_enum env) lm) is)) = map Some es \<and> re_IPSet env es = Inr s)"
| "rule_wf env reg lm (RuleSourcePort c ports) \<longleftrightarrow>
     rc_Type c = ''SourcePort'' \<and> (\<exists>ps. with_parameter (rc_Parameter c) (decode_array (\<lambda>j. get_word j 0)) = Inr ps \<and> ports = set ps)"
| "rule_wf env reg lm (RuleMinecraftHostname matcher c) \<longleftrightarrow>
     rc_Type c = ''MinecraftHostname'' \<and>
     (\<exists>dc. with_parameter (rc_Parameter c) (\<lambda>j. decode_struct domain_field j \<lparr>rd_Domain = [], rd_DomainSuffix = []\<rparr>) = Inr dc \<and>
        lists_known lm (rd_Domain dc) \<and> lists_known lm (rd_DomainSuffix dc) \<and>
        (let domains = entries (re_enum env) lm (rd_Domain dc); suffixes = entries (re_enum env) lm (rd_DomainSuffix dc) in
           (\<forall>d \<in> set domains \<union> set suffixes. plain d) \<longrightarrow> [] \<notin> set suffixes \<longrightarrow> domains \<noteq> [] \<or> suffixes \<noteq> [] \<longrightarrow>
           (\<forall>h. plain h \<longrightarrow> matcher_Match matcher h =
              Some (domain_lower h \<in> set domains \<or> (\<exists>s \<in> set suffixes - set domains. under s (domain_lower h))))))"
| "rule_wf env reg lm (RuleMinecraftPlayerName sets lowerCase c) \<longleftrightarrow>
     rc_Type c = ''MinecraftPlayerName'' \<and>
     (\<exists>p. with_parameter (rc_Parameter c) (\<lambda>j. list_parameter_UnmarshalJSON j \<lparr>lp_Lists = [], lp_LowerCase = False\<rparr>) = Inr p \<and>
        lowerCase = lp_LowerCase p \<and> lists_known lm (lp_Lists p) \<and> \<Union> (set sets) = names_of lm (lp_Lists p))"
| "rule_wf env reg lm (RuleMinecraftStatus c) \<longleftrightarrow> rc_Type c = ''MinecraftStatus''"
| "rule_wf env reg lm (RuleMinecraftTransfer c) \<longleftrightarrow> rc_Type c = ''MinecraftTransfer''"
| "rule_wf env reg lm (RuleCustom x c) \<longleftrightarrow>
     HasPrefix (rc_Type c) typeCustomPrefix \<and>
     (\<exists>f. map_of reg (TrimPrefix (rc_Type c) typeCustomPrefix) = Some f \<and> f c lm = Inr x)"

lemma name_sets_names:
  "name_sets lm is sets = Inr sets' \<Longrightarrow> sets \<noteq> [] \<Longrightarrow> \<Union> (set sets') = \<Union> (set sets) \<union> names_of lm is"
proof (induction "is" arbitrary: sets)
  case (Cons i "is")
  obtain s ss where s: "sets = s # ss" using Cons.prems(2) by (cases sets) auto
  have n: "names_of lm (i # is) =
      (if HasPrefix i parameterListPrefix then the (lm (TrimPrefix i parameterListPrefix)) else {i}) \<union> names_of lm is"
    by (simp only: names_of_def list.set UN_insert)
  show ?case
  proof (cases "HasPrefix i parameterListPrefix")
    case True
    then obtain x where x: "lm (TrimPrefix i parameterListPrefix) = Some x" "name_sets lm is (sets @ [x]) = Inr sets'"
      using Cons.prems(1) by (auto simp: Let_def split: option.splits)
    show ?thesis using Cons.IH [OF x(2)] x(1) True by (auto simp: n)
  next
    case False
    then have "name_sets lm is (Set_Add s i # ss) = Inr sets'" using Cons.prems(1) s by simp
    from Cons.IH [OF this] show ?thesis using False by (auto simp: n s Set_Add_def)
  qed
qed (simp add: names_of_def)

lemma name_sets_known: "name_sets lm is sets = Inr sets' \<Longrightarrow> lists_known lm is"
  by (induction lm "is" sets rule: name_sets.induct) (auto simp: lists_known_def Let_def split: if_splits option.splits)

lemma name_sets_spec: "name_sets lm is [{}] = Inr sets \<Longrightarrow> lists_known lm is \<and> \<Union> (set sets) = names_of lm is"
  using name_sets_names name_sets_known by fastforce

lemma addIPs_entries:
  "addIPs b ss = Inr b' \<Longrightarrow> \<exists>es. map ip_entry_of ss = map Some es \<and> b' = b @ es"
proof (induction ss arbitrary: b)
  case (Cons s ss)
  then obtain e where e: "ip_entry_of s = Some e" "addIPs (b @ [e]) ss = Inr b'"
    by (auto simp: addIPToBuilder_def ip_entry_of_def last_slash_def split: sum.splits option.splits if_splits)
  from Cons.IH [OF e(2)] obtain es where "map ip_entry_of ss = map Some es" "b' = (b @ [e]) @ es" by blast
  then show ?case using e(1) by (intro exI [of _ "e # es"]) simp
qed simp

lemma cidr_loop_entries:
  "cidr_loop enum lm is b = Inr b' \<Longrightarrow>
   lists_known lm is \<and> (\<exists>es. map ip_entry_of (concat (map (entry_names enum lm) is)) = map Some es \<and> b' = b @ es)"
proof (induction "is" arbitrary: b)
  case (Cons i "is")
  have step: "lists_known lm (i # is)" "\<exists>es. map ip_entry_of (concat (map (entry_names enum lm) (i # is))) = map Some es \<and> b' = b @ es"
    if "HasPrefix i parameterListPrefix \<longrightarrow> lm (TrimPrefix i parameterListPrefix) \<noteq> None"
      "addIPs b (entry_names enum lm i) = Inr b1" "cidr_loop enum lm is b1 = Inr b'" for b1
  proof -
    from addIPs_entries [OF that(2)] obtain es where es: "map ip_entry_of (entry_names enum lm i) = map Some es" "b1 = b @ es" by blast
    from Cons.IH [OF that(3)] obtain fs where "lists_known lm is"
      "map ip_entry_of (concat (map (entry_names enum lm) is)) = map Some fs" "b' = b1 @ fs" by blast
    then show "lists_known lm (i # is)" "\<exists>es. map ip_entry_of (concat (map (entry_names enum lm) (i # is))) = map Some es \<and> b' = b @ es"
      using that(1) es by (auto simp: lists_known_def intro: exI [of _ "es @ fs"])
  qed
  obtain b1 where "HasPrefix i parameterListPrefix \<longrightarrow> lm (TrimPrefix i parameterListPrefix) \<noteq> None"
    "addIPs b (entry_names enum lm i) = Inr b1" "cidr_loop enum lm is b1 = Inr b'"
    using Cons.prems by (auto simp: entry_names_def Let_def split: if_splits option.splits sum.splits)
  from step [OF this] show ?case by blast
qed (simp add: lists_known_def)

lemma domain_loop_known: "domain_loop add enum lm is b = Some (Inr b') \<Longrightarrow> lists_known lm is"
  by (induction add enum lm "is" b rule: domain_loop.induct)
     (auto simp: lists_known_def Let_def bind_eq_Some_conv split: if_splits option.splits)

lemma newDomainRule_decodes:
  assumes "newDomainRule env c lm = Some (Inr m)"
  shows "\<exists>dc. with_parameter (rc_Parameter c) (\<lambda>j. decode_struct domain_field j \<lparr>rd_Domain = [], rd_DomainSuffix = []\<rparr>) = Inr dc \<and>
    lists_known lm (rd_Domain dc) \<and> lists_known lm (rd_DomainSuffix dc)"
proof -
  let ?p = "with_parameter (rc_Parameter c) (\<lambda>j. decode_struct domain_field j \<lparr>rd_Domain = [], rd_DomainSuffix = []\<rparr>)"
  from assms obtain dc where dc: "?p = Inr dc" by (cases ?p) (auto simp: newDomainRule_def)
  let ?d = "domain_loop AddDomain (re_enum env) lm (rd_Domain dc) NewMatcherBuilder"
  obtain b where b: "?d = Some (Inr b)" using assms dc by (cases ?d; cases "the ?d") (simp_all add: newDomainRule_def)
  let ?s = "domain_loop AddDomainSuffix (re_enum env) lm (rd_DomainSuffix dc) b"
  obtain b' where "?s = Some (Inr b')" using assms dc b by (cases ?s; cases "the ?s") (simp_all add: newDomainRule_def)
  then show ?thesis using dc b domain_loop_known by blast
qed

lemma map_Inr_eq_Inr [simp]: "map_Inr f r = Inr y \<longleftrightarrow> (\<exists>x. r = Inr x \<and> y = f x)"
  by (cases r) auto

lemma hostname_rule_wf:
  assumes "NewMinecraftHostnameRule env c lm = Some (Inr r)" "rc_Type c = ''MinecraftHostname''"
  shows "rule_wf env reg lm r \<and> rule_Config r = c"
proof -
  from assms(1) obtain m where m: "newDomainRule env c lm = Some (Inr m)" "r = RuleMinecraftHostname m c"
    by (auto simp: NewMinecraftHostnameRule_def)
  from newDomainRule_decodes [OF m(1)] obtain dc where dc:
    "with_parameter (rc_Parameter c) (\<lambda>j. decode_struct domain_field j \<lparr>rd_Domain = [], rd_DomainSuffix = []\<rparr>) = Inr dc"
    "lists_known lm (rd_Domain dc)" "lists_known lm (rd_DomainSuffix dc)" by blast
  show ?thesis
    using newDomainRule_matches [OF dc refl refl, of env] m dc assms(2) by (simp add: Let_def)
qed

lemma simple_rules_wf:
  "NewServiceNameRule c lm = Inr r \<Longrightarrow> rc_Type c = ''ServiceName'' \<Longrightarrow> rule_wf env reg lm r \<and> rule_Config r = c"
  "NewSourceIPVersionRule c = Inr r \<Longrightarrow> rc_Type c = ''SourceIPVersion'' \<Longrightarrow> rule_wf env reg lm r \<and> rule_Config r = c"
  "NewSourceIPRule env c lm = Inr r \<Longrightarrow> rc_Type c = ''SourceIP'' \<Longrightarrow> rule_wf env reg lm r \<and> rule_Config r = c"
  "NewSourcePortRule c = Inr r \<Longrightarrow> rc_Type c = ''SourcePort'' \<Longrightarrow> rule_wf env reg lm r \<and> rule_Config r = c"
  "NewMinecraftPlayerNameRule c lm = Inr r \<Longrightarrow> rc_Type c = ''MinecraftPlayerName'' \<Longrightarrow> rule_wf env reg lm r \<and> rule_Config r = c"
  by (auto simp: NewServiceNameRule_def NewSourceIPVersionRule_def NewSourceIPRule_def NewSourcePortRule_def
      NewMinecraftPlayerNameRule_def split: sum.splits dest!: name_sets_spec cidr_loop_entries)

lemma NewRule_wf:
  shows "NewRule env reg lm c = Some (Inr r) \<Longrightarrow> rule_wf env reg lm r \<and> rule_Config r = c"
    and "newLogicalRule env reg lm cs = Some (Inr rs) \<Longrightarrow> (\<forall>r \<in> set rs. rule_wf env reg lm r) \<and> map rule_Config rs = cs"
proof (induction env reg lm c and env reg lm cs arbitrary: r and rs rule: NewRule_newLogicalRule.induct)
  case (1 env reg lm c)
  show ?case
  proof (cases "rc_Type c = ''and'' \<or> rc_Type c = ''or''")
    case True
    then have na: "rc_Type c \<noteq> ''always''" by auto
    from "1.prems" True obtain cs rs where
      cs: "logic_rules c = Inr cs" "newLogicalRule env reg lm cs = Some (Inr rs)"
        "r = (if rc_Type c = ''and'' then RuleLogicalAnd rs c else RuleLogicalOr rs c)"
      by (subst (asm) NewRule.simps) (auto simp: na split: sum.splits if_splits)
    then have "(\<forall>r \<in> set rs. rule_wf env reg lm r) \<and> map rule_Config rs = cs"
      using "1.IH" [OF na True cs(1)] by blast
    then show ?thesis using cs True by auto
  next
    case False
    then show ?thesis
      using "1.prems"
      by (subst (asm) NewRule.simps) (auto simp: Let_def dest: simple_rules_wf hostname_rule_wf split: if_splits option.splits)
  qed
next
  case (3 env reg lm c cs)
  from "3.prems" obtain r rs' where
    r: "NewRule env reg lm c = Some (Inr r)" "newLogicalRule env reg lm cs = Some (Inr rs')" "rs = r # rs'"
    by (cases "NewRule env reg lm c") (auto split: sum.splits)
  then show ?case using "3.IH"(1) [OF r(1)] "3.IH"(2) [OF r(1) refl r(2)] by simp
qed auto

text \<open>(C26)
  The construction of rules is well typed: a rule that \<open>NewRule\<close> returns has the constructor of
  its configured type, keeps its configuration, and holds what the parameter says: the names of the
  entries and of the named lists (all of which exist), the set of exactly the configured addresses and
  prefixes, the ports, the version, a matcher of the configured domains and suffixes, for a custom rule
  what the factory of its name returned, and for logical rules one such rule per nested
  configuration, in their order.
\<close>

theorem NewRule_typed:
  assumes "NewRule env reg lm c = Some (Inr r)"
  shows "rule_wf env reg lm r \<and> rule_Config r = c"
  using assms by (rule NewRule_wf(1))

definition nested_config :: rule_config where
  "nested_config = zero_rule\<lparr>rc_Type := ''or'', rc_Parameter := Some (JArr
     [JObj [(''Type'', JStr ''MinecraftStatus''), (''Invert'', JBool True)],
      JObj [(''Type'', JStr ''ServiceName''), (''Parameter'', JArr [JStr ''lobby'', JStr ''list:all''])],
      JObj [(''Type'', JStr ''SourceIP''), (''Parameter'', JArr [JStr ''10.0.0.1'', JStr ''10.1.0.0/16''])]])\<rparr>"

lemma nested_rule:
  "NewRule plain_rules [] (Map.empty(''all'' \<mapsto> {''a'', ''b''})) nested_config =
     Some (Inr (RuleLogicalOr
       [RuleMinecraftStatus (zero_rule\<lparr>rc_Type := ''MinecraftStatus'', rc_Invert := True\<rparr>),
        RuleServiceName [{''lobby''}, {''a'', ''b''}]
          (zero_rule\<lparr>rc_Type := ''ServiceName'', rc_Parameter := Some (JArr [JStr ''lobby'', JStr ''list:all''])\<rparr>),
        RuleSourceIP [EntryAddr (Addr4 0x0A000001), EntryPrefix (Addr4 0x0A010000) 16]
          (zero_rule\<lparr>rc_Type := ''SourceIP'', rc_Parameter := Some (JArr [JStr ''10.0.0.1'', JStr ''10.1.0.0/16''])\<rparr>)]
       nested_config))"
proof -
  have "logic_rules nested_config = Inr
       [zero_rule\<lparr>rc_Type := ''MinecraftStatus'', rc_Invert := True\<rparr>,
        zero_rule\<lparr>rc_Type := ''ServiceName'', rc_Parameter := Some (JArr [JStr ''lobby'', JStr ''list:all''])\<rparr>,
        zero_rule\<lparr>rc_Type := ''SourceIP'', rc_Parameter := Some (JArr [JStr ''10.0.0.1'', JStr ''10.1.0.0/16''])\<rparr>]"
    by code_simp
  moreover have "Listable_UnmarshalJSON (JArr [JStr ''lobby'', JStr ''list:all'']) = Inr [''lobby'', ''list:all'']"
    "Listable_UnmarshalJSON (JArr [JStr ''10.0.0.1'', JStr ''10.1.0.0/16'']) = Inr [''10.0.0.1'', ''10.1.0.0/16'']"
    by code_simp+
  moreover have "addIPToBuilder b ''10.0.0.1'' = Inr (b @ [EntryAddr (Addr4 0x0A000001)])" for b
  proof -
    have "ParseAddr ''10.0.0.1'' = Some (Addr4 0x0A000001)" "last_slash ''10.0.0.1'' = None" by code_simp+
    then show ?thesis by (simp add: addIPToBuilder_def)
  qed
  moreover have "addIPToBuilder b ''10.1.0.0/16'' = Inr (b @ [EntryPrefix (Addr4 0x0A010000) 16])" for b
  proof -
    have a: "ParseAddr ''10.1.0.0'' = Some (Addr4 0x0A010000)" "last_slash ''10.1.0.0/16'' = Some (''10.1.0.0'', ''16'')" by code_simp+
    have "ParseUint ''16'' 63 = Inr 16" by (simp add: ParseUint_def dec_val_def is_digit_def digit_val_def)
    then show ?thesis using a by (simp add: addIPToBuilder_def ParsePrefix_def has_zone_def is_digit_def)
  qed
  ultimately show ?thesis
    by (simp add: NewRule.simps nested_config_def [THEN arg_cong [of _ _ rc_Type]] NewServiceNameRule_def NewSourceIPRule_def
        with_parameter_def parameterListPrefix_def HasPrefix_def TrimPrefix_def Set_Add_def plain_rules_def)
qed

theorem NewRule_typed_witness:
  "\<exists>r. NewRule plain_rules [] (Map.empty(''all'' \<mapsto> {''a'', ''b''})) nested_config = Some (Inr r) \<and>
     rule_wf plain_rules [] (Map.empty(''all'' \<mapsto> {''a'', ''b''})) r \<and> rule_Config r = nested_config"
  using NewRule_typed [OF nested_rule] nested_rule by blast

definition sample_metadata :: metadata where
  "sample_metadata =
     \<lparr>md_ConnectionID = ''x'', md_ServiceName = ''b'', md_SniffedProtocol = 0,
      md_SourceAddress = AddrPortFrom IPv4Unspecified 7, md_DestinationHostname = [], md_DestinationPort = 0, md_SRV = None,
      md_Minecraft = Some ((new_mc_metadata IntentStatus)\<lparr>mm_OriginDestination := ''play.example.org''\<rparr>), md_TLS = None\<rparr>"

theorem rule_Match_holds_witness:
  "\<exists>m'. rule_Match plain_rules (RuleLogicalOr
       [RuleMinecraftStatus (zero_rule\<lparr>rc_Type := ''MinecraftStatus'', rc_Invert := True\<rparr>),
        RuleServiceName [{''lobby''}, {''a'', ''b''}] zero_rule] nested_config) sample_metadata = Some (True, m')"
proof -
  let ?r = "RuleLogicalOr
       [RuleMinecraftStatus (zero_rule\<lparr>rc_Type := ''MinecraftStatus'', rc_Invert := True\<rparr>),
        RuleServiceName [{''lobby''}, {''a'', ''b''}] zero_rule] nested_config :: (ip_entry list, unit) rule"
  have h: "rule_holds plain_rules sample_metadata ?r = True"
    by (simp add: sample_metadata_def new_mc_metadata_def zero_rule_def nested_config_def)
  have "custom_pure plain_rules" "rule_answers sample_metadata ?r" by (simp_all add: custom_pure_def plain_rules_def)
  from rule_Match_holds [OF this] show ?thesis unfolding h by blast
qed

end
