(* ===== verification/McFacts.thy ===== *)
theory McFacts
  imports McOutbound SniffFacts RuleFacts
begin

text \<open>
  What the Minecraft outbound does with a player: the server gets the handshake it should, then the
  client's own bytes from the login on, and nobody who is refused reaches a server.
\<close>

section \<open>Filling a buffer\<close>

text \<open>A buffer that has \<open>xs\<close>, room for \<open>n\<close> more bytes, and room for a length in front.\<close>

definition room :: "buffer \<Rightarrow> bytes \<Rightarrow> nat \<Rightarrow> bool" where
  "room b xs n \<longleftrightarrow> buf_wf b \<and> buf_bytes b = xs \<and> n \<le> buf_free b \<and> 5 \<le> buf_headroom b"

lemma room_absorb: "room b xs (length bs + n) \<Longrightarrow> room (Buffer_absorb b bs) (xs @ bs) n"
  using buf_append [of b bs] unfolding room_def by (metis add_leD1 le_diff_conv2 add.commute)

lemma room_steps:
  "room b xs (Suc n) \<Longrightarrow> Buffer_WriteByte b x = Some (None, Buffer_absorb b [x])"
  "room b xs (length (leb128 v) + n) \<Longrightarrow> VarInt_WriteToBuffer b v = Some (Buffer_absorb b (leb128 v))"
  "room b xs (length (str_field (str_bytes s)) + n) \<Longrightarrow> pk_WriteString b s = Some (None, Buffer_absorb b (str_field (str_bytes s)))"
  "room b xs (Suc (Suc n)) \<Longrightarrow> put_word 2 b (p :: 16 word) = Some (Buffer_absorb b (be_bytes 2 p))"
proof -
  show "room b xs (Suc n) \<Longrightarrow> Buffer_WriteByte b x = Some (None, Buffer_absorb b [x])"
    by (rule Buffer_WriteByte_fits) (auto simp: room_def)
  show "room b xs (length (leb128 v) + n) \<Longrightarrow> VarInt_WriteToBuffer b v = Some (Buffer_absorb b (leb128 v))"
    by (rule VarInt_WriteToBuffer_append) (auto simp: room_def)
  show "room b xs (Suc (Suc n)) \<Longrightarrow> put_word 2 b p = Some (Buffer_absorb b (be_bytes 2 p))"
    by (rule put_word_fits) (auto simp: room_def)
  assume "room b xs (length (str_field (str_bytes s)) + n)"
  then have h: "buf_wf b" "length (str_field (str_bytes s)) \<le> buf_free b" by (auto simp: room_def)
  note f = field_fits [OF h]
  show "pk_WriteString b s = Some (None, Buffer_absorb b (str_field (str_bytes s)))"
    using f Buffer_WriteString_fits [OF f(2), of s] by (simp add: pk_WriteString_def)
qed

lemma handshake_packet_frame:
  assumes "room b [] (length (handshake_bytes (ucast version) host port intent) + n)"
  shows "\<exists>b'. handshake_packet b version host port intent = Some b' \<and> buf_wf b' \<and>
    buf_bytes b' = frame (handshake_bytes (ucast version) host port intent) \<and> n \<le> buf_free b'"
proof -
  let ?v = "leb128 (ucast version)" and ?h = "str_field (str_bytes host)"
  have r0: "room b [] (Suc (length ?v + (length ?h + Suc (Suc (Suc n)))))"
    using assms by (simp add: handshake_bytes_def numeral_eq_Suc add.assoc)
  define b1 where "b1 = Buffer_absorb b [0]"
  have r1: "room b1 [0] (length ?v + (length ?h + Suc (Suc (Suc n))))"
    using room_absorb [of b "[]" "[0]"] r0 by (simp add: b1_def)
  define b2 where "b2 = Buffer_absorb b1 ?v"
  have r2: "room b2 (0 # ?v) (length ?h + Suc (Suc (Suc n)))" using room_absorb [OF r1] by (simp add: b2_def)
  define b3 where "b3 = Buffer_absorb b2 ?h"
  have r3: "room b3 (0 # ?v @ ?h) (Suc (Suc (Suc n)))" using room_absorb [OF r2] by (simp add: b3_def)
  define b4 where "b4 = Buffer_absorb b3 (be_bytes 2 port)"
  have r4: "room b4 (0 # ?v @ ?h @ be_bytes 2 port) (Suc n)"
    using room_absorb [of b3 "0 # ?v @ ?h" "be_bytes 2 port" "Suc n"] r3 by (simp add: b4_def numeral_eq_Suc)
  define b5 where "b5 = Buffer_absorb b4 [intent]"
  have r5: "room b5 (handshake_bytes (ucast version) host port intent) n"
    using room_absorb [of b4 "0 # ?v @ ?h @ be_bytes 2 port" "[intent]" n] r4 by (simp add: b5_def handshake_bytes_def)
  then have wf: "buf_wf b5" "5 \<le> buf_headroom b5" "buf_bytes b5 = handshake_bytes (ucast version) host port intent"
    and free: "n \<le> buf_free b5" by (simp_all add: room_def)
  from AppendPacketLength_front [OF wf(1,2), of "Buffer_Len b5"] obtain b6 where
    "AppendPacketLength b5 (Buffer_Len b5) = Some b6" "buf_wf b6"
    "buf_bytes b6 = leb128 (of_int (Buffer_Len b5)) @ buf_bytes b5" "b_len b6 = b_len b5" "b_end b6 = b_end b5" by blast
  then show ?thesis
    using room_steps(1) [OF r0, of 0] room_steps(2) [OF r1] room_steps(3) [OF r2] room_steps(4) [OF r3, of port]
      room_steps(1) [OF r4, of intent] wf free
    by (simp add: handshake_packet_def ignore_err_def b1_def [symmetric] b2_def [symmetric] b3_def [symmetric]
        b4_def [symmetric] b5_def [symmetric] frame_def Buffer_Len_bytes buf_free_def del: length_buf_bytes)
qed

section \<open>The environment of a relay\<close>

text \<open>Both connections are streams, and the buffers are as large as the pool makes them.\<close>

definition stream_env :: "(net_in, bytes, net_in, bytes) mc_env \<Rightarrow> bool" where
  "stream_env env \<longleftrightarrow>
     me_Read env = net_Read \<and> me_Write env = stream_writer \<and>
     de_Read (me_dial env) = net_Read \<and> de_Write (me_dial env) = stream_writer \<and>
     length (me_fresh env) = CacheSize \<and> relay_buf (me_copybuf env) \<and>
     5 \<le> b_len (me_buf env) \<and> b_len (me_buf env) \<le> int (length (b_arr (me_buf env)))"

lemma new_buffer_room:
  "stream_env env \<Longrightarrow> 5 + int n \<le> b_len (me_buf env) \<Longrightarrow> room (new_buffer env) [] n"
  by (auto simp: stream_env_def room_def new_buffer_def Buffer_Reset_def buffer_defs MaxVarIntLen_def)

text \<open>A connection whose peer sends some segments and closes, read through the same contract.\<close>

definition orderly :: "net_in \<Rightarrow> bool" where
  "orderly s \<longleftrightarrow> (\<exists>cs. s = map Chunk cs)"

interpretation orderly: io_reader net_Read net_pending length orderly
proof
  fix s :: net_in and k :: nat
  assume h: "orderly s" "0 < k" "net_pending s \<noteq> []"
  then obtain c cs where s: "s = Chunk c # map Chunk cs" by (cases s) (auto simp: orderly_def)
  have "orderly (map Chunk cs)" "orderly (Chunk (drop k c) # map Chunk cs)"
    unfolding orderly_def by (blast, metis list.simps(9))
  then show "\<exists>bs s'. net_Read k s = Some ((bs, None), s') \<and> net_pending s = bs @ net_pending s' \<and>
      orderly s' \<and> length bs \<le> k \<and> length s' \<le> length s \<and> (length s' < length s \<or> length bs = k)"
    using s h(2) by auto
qed

lemma CopyConn_streams:
  assumes "relay_buf b1" "relay_buf b2" "case cc_cache c of None \<Rightarrow> True | Some k \<Rightarrow> Buffer_Len k = 0" "orderly (cc_conn c)"
  shows "CopyConn net_Read stream_writer net_Read stream_writer b1 b2 (Some (map Chunk rs, wR)) c w =
     Some (None, ([], wR @ net_pending (cc_conn c)), [], w @ concat rs)"
proof -
  obtain cs where cs: "cc_conn c = map Chunk cs" using assms(4) by (auto simp: orderly_def)
  show ?thesis
    using CopyBuffer_net [OF assms(1,3) cs] CopyBuffer_net [OF assms(2), of "NewCachedConn (map Chunk rs)" rs]
    by (simp add: CopyConn_def NewCachedConn_def CopyConn_error_def cs net_pending_chunks)
qed

section \<open>Metadata on the way\<close>

lemma connectServer_meta: "connectServer env ob st m = Some (r, m1) \<Longrightarrow> m1 = fill_destination (os_config st) m"
  by (auto simp: connectServer_def Let_def bind_eq_Some_conv split: if_splits)

lemma fill_destination_mc [simp]: "md_Minecraft (fill_destination c m) = md_Minecraft m"
  by (simp add: fill_destination_def Let_def split: option.splits)

lemma set_mc_mc [simp]: "md_Minecraft (set_mc mc m) = Some mc"
  by (simp add: set_mc_def)

text \<open>
  The hostname for the server depends on what the client has sent, not on whether its markup has been
  noted already.
\<close>

definition origin_markup :: "mc_metadata \<Rightarrow> string" where
  "origin_markup mc = (case Cut (mm_OriginDestination mc) (CHR 0x00) of (_, markup, _) \<Rightarrow> markup)"

definition markup_ok :: "mc_metadata \<Rightarrow> bool" where
  "markup_ok mc \<longleftrightarrow> mm_fmlMarkup mc = [] \<or> mm_fmlMarkup mc = origin_markup mc"

lemma CleanOriginDestination_eq: "CleanOriginDestination mc = (clean_host mc, mc\<lparr>mm_fmlMarkup := origin_markup mc\<rparr>)"
  using Clean_clean_host [of mc] by (simp add: CleanOriginDestination_def origin_markup_def split: prod.splits)

lemma markup_ok_Clean: "markup_ok (snd (CleanOriginDestination mc))"
  by (simp add: CleanOriginDestination_eq markup_ok_def origin_markup_def)

lemma server_hostname_eq:
  assumes "markup_ok mc"
  shows "fst (server_hostname c ms mc) =
     (if ms_EnableHostnameRewrite ms then (if ms_RewrittenHostname ms = [] then ob_TargetAddress c else ms_RewrittenHostname ms)
      else if mm_RewrittenDestination mc = [] then clean_host mc else mm_RewrittenDestination mc) @
     (if \<not> ms_IgnoreFMLSuffix ms \<and> IsFML mc then CHR 0x00 # origin_markup mc else [])"
proof -
  have "FMLMarkup k = (origin_markup k, k\<lparr>mm_fmlMarkup := origin_markup k\<rparr>)" if "markup_ok k" for k
    using that by (cases k) (auto simp: FMLMarkup_def markup_ok_def origin_markup_def Let_def split: prod.splits)
  moreover have "markup_ok (mc\<lparr>mm_fmlMarkup := origin_markup mc\<rparr>)" "origin_markup (mc\<lparr>mm_fmlMarkup := origin_markup mc\<rparr>) = origin_markup mc"
    "IsFML (mc\<lparr>mm_fmlMarkup := origin_markup mc\<rparr>) = IsFML mc"
    by (simp_all add: markup_ok_def origin_markup_def IsFML_def)
  ultimately show ?thesis using assms by (simp add: server_hostname_def Let_def CleanOriginDestination_eq)
qed

lemma server_hostname_noted:
  assumes "markup_ok mc"
  shows "fst (server_hostname c ms (snd (CleanOriginDestination mc))) = fst (server_hostname c ms mc)"
  unfolding server_hostname_eq [OF markup_ok_Clean] server_hostname_eq [OF assms]
  by (simp add: CleanOriginDestination_eq clean_host_def IsFML_def origin_markup_def)

section \<open>Forwarding a login\<close>

text \<open>Whom the outbound lets in: both access rules and the limit of players.\<close>

definition admitted :: "outbound_state \<Rightarrow> mc_service \<Rightarrow> mc_metadata \<Rightarrow> bool" where
  "admitted st ms mc \<longleftrightarrow>
     access_refuses (ms_HostnameAccess ms) (os_hostnameAccessLists st) (clean_host mc) = Some False \<and>
     access_refuses (ms_NameAccess ms) (os_nameAccessLists st) (mm_PlayerName mc) = Some False \<and>
     \<not> (oc_EnableMaxLimit (ms_OnlineCount ms) \<and> sint (oc_Max (ms_OnlineCount ms)) \<le> sint (os_onlineCount st))"

text \<open>The metadata with which the server is dialled.\<close>

definition inject_meta :: "mc_service \<Rightarrow> mc_metadata \<Rightarrow> mc_metadata" where
  "inject_meta ms mc = (if ac_Mode (ms_HostnameAccess ms) \<noteq> DefaultMode then snd (CleanOriginDestination mc) else mc)"

lemma inject_meta_fields [simp]:
  "mm_PlayerName (inject_meta ms mc) = mm_PlayerName mc" "mm_NextState (inject_meta ms mc) = mm_NextState mc"
  "mm_SniffPosition (inject_meta ms mc) = mm_SniffPosition mc" "mm_ProtocolVersion (inject_meta ms mc) = mm_ProtocolVersion mc"
  "server_port (inject_meta ms mc) = server_port mc" "mm_Valid (inject_meta ms mc) = mm_Valid mc"
  "fst (CleanOriginDestination (inject_meta ms mc)) = clean_host mc"
  by (simp_all add: inject_meta_def server_port_def mm_Valid_def Clean_clean_host)
     (simp_all add: CleanOriginDestination_def split: prod.splits)

text \<open>Noting the markup of the hostname once more changes nothing.\<close>

lemma server_hostname_inject:
  "markup_ok mc \<Longrightarrow> fst (server_hostname c ms (inject_meta ms mc)) = fst (server_hostname c ms mc)"
  by (simp add: inject_meta_def server_hostname_noted)

lemma forward_login_streams:
  assumes env: "stream_env env" and v: "cc_reads orderly net_pending (me_fresh env) S n c" "cc_cache c \<noteq> None"
    and conn: "connectServer (me_dial env) (me_outbounds env) st m = Some (Inr (map Chunk rs, wR), m1)"
    and mc: "md_Minecraft m = Some mc"
    and room: "5 + int (length (handshake_bytes (ucast (mm_ProtocolVersion mc)) (fst (server_hostname (os_config st) ms mc))
                 (server_port mc) IntentLogin)) \<le> b_len (me_buf env)"
  shows "\<exists>i. forward_login env st ms c w m = Some i \<and> in_err i = None \<and>
      in_events i = [EvUnlock, EvOnline 1, EvRelay, EvOnline (-1)] \<and> in_out i = w @ concat rs \<and>
      in_server i = Some ([], wR @ frame (handshake_bytes (ucast (mm_ProtocolVersion mc))
        (fst (server_hostname (os_config st) ms mc)) (server_port mc) IntentLogin) @ drop n S)"
proof -
  obtain host mc2 where host: "server_hostname (os_config st) ms mc = (host, mc2)" by fastforce
  have port: "server_port mc2 = server_port mc" "mm_ProtocolVersion mc2 = mm_ProtocolVersion mc"
    using host by (auto simp: server_hostname_def server_port_def Let_def CleanOriginDestination_def FMLMarkup_def
        split: if_splits prod.splits)
  have m1: "md_Minecraft m1 = Some mc" using connectServer_meta [OF conn] mc by simp
  obtain b where b: "handshake_packet (new_buffer env) (mm_ProtocolVersion mc) host (server_port mc) IntentLogin = Some b" "buf_wf b"
    "buf_bytes b = frame (handshake_bytes (ucast (mm_ProtocolVersion mc)) host (server_port mc) IntentLogin)"
    using handshake_packet_frame [OF new_buffer_room [OF env], where version = "mm_ProtocolVersion mc" and n = 0] room host by fastforce
  obtain k where k: "cc_cache c = Some k" using v(2) by auto
  have ok: "cache_ok k" using v(1) k by (auto simp: cc_reads_def cc_ok_def cc_buf_def)
  have wf: "buf_wf k" using ok by (simp add: cache_ok_def)
  define c' where "c' = c\<lparr>cc_cache := Some (Buffer_Advance k (Buffer_Len k))\<rparr>"
  have len: "Buffer_Len k = int (length (buf_bytes k))" by (rule Buffer_Len_bytes [OF wf])
  have "buf_bytes (Buffer_Advance k (Buffer_Len k)) = []" "cache_ok (Buffer_Advance k (Buffer_Len k))"
    using advance_cache [OF ok, of "length (buf_bytes k)"] unfolding len by simp_all
  then have "Buffer_Len (Buffer_Advance k (Buffer_Len k)) = 0" by (simp add: Buffer_Len_bytes cache_ok_def del: length_buf_bytes)
  then have used_up: "case cc_cache c' of None \<Rightarrow> True | Some k \<Rightarrow> Buffer_Len k = 0" by (simp add: c'_def)
  have ord: "orderly (cc_conn c')" using v(1) by (simp add: c'_def cc_reads_def)
  have S: "buf_bytes k @ net_pending (cc_conn c') = drop n S"
    using cc_reads_ahead [OF v(1)] k by (simp add: c'_def cc_ahead_def cc_buf_def)
  note e = env [unfolded stream_env_def]
  have cp: "relay_buf (me_copybuf env)" using e by simp
  let ?wR = "wR @ frame (handshake_bytes (ucast (mm_ProtocolVersion mc)) host (server_port mc) IntentLogin) @ buf_bytes k"
  have relay: "CopyConn net_Read stream_writer net_Read stream_writer (me_copybuf env) (me_copybuf env)
      (Some (map Chunk rs, ?wR)) c' w = Some (None, ([], ?wR @ net_pending (cc_conn c')), [], w @ concat rs)"
    by (rule CopyConn_streams [OF cp cp used_up ord])
  show ?thesis
    using e conn b wf k m1 host port relay S
    by (simp add: forward_login_def relay_def returns_def stream_writer_def c'_def [symmetric])
qed

lemma InjectConnection_login:
  assumes env: "stream_env env" and v: "cc_reads orderly net_pending (me_fresh env) S n c" "cc_cache c \<noteq> None" "p \<le> cc_filled (me_fresh env) c"
    and mc: "md_Minecraft m = Some mc" "mm_NextState mc = IntentLogin" "mm_SniffPosition mc = int p"
    and markup: "markup_ok mc"
    and ms: "ob_Minecraft (os_config st) = Some ms" and adm: "admitted st ms mc"
    and conn: "connectServer (me_dial env) (me_outbounds env) st (set_mc (inject_meta ms mc) m) = Some (Inr (map Chunk rs, wR), m1)"
    and room: "5 + int (length (handshake_bytes (ucast (mm_ProtocolVersion mc)) (fst (server_hostname (os_config st) ms mc))
                 (server_port mc) IntentLogin)) \<le> b_len (me_buf env)"
  shows "\<exists>i. InjectConnection env st c w m = Some i \<and> in_err i = None \<and>
      in_events i = [EvUnlock, EvOnline 1, EvRelay, EvOnline (-1)] \<and> in_out i = w @ concat rs \<and>
      in_server i = Some ([], wR @ frame (handshake_bytes (ucast (mm_ProtocolVersion mc))
        (fst (server_hostname (os_config st) ms mc)) (server_port mc) IntentLogin) @ drop p S)"
proof -
  let ?mc = "inject_meta ms mc"
  note host = server_hostname_inject [OF markup]
  note rw = orderly.cc_Rewind_view [OF v]
  have fwd: "\<exists>i. forward_login env st ms (cc_Rewind (int p) c) w (set_mc ?mc m) = Some i \<and> in_err i = None \<and>
      in_events i = [EvUnlock, EvOnline 1, EvRelay, EvOnline (-1)] \<and> in_out i = w @ concat rs \<and>
      in_server i = Some ([], wR @ frame (handshake_bytes (ucast (mm_ProtocolVersion ?mc))
        (fst (server_hostname (os_config st) ms ?mc)) (server_port ?mc) IntentLogin) @ drop p S)"
    by (rule forward_login_streams [OF env _ _ conn]) (use rw room in \<open>simp_all add: host\<close>)
  have valid: "mm_Valid mc" by (simp add: mm_Valid_def mc(2) IntentLogin_def)
  have state: "mm_NextState mc \<noteq> IntentStatus" by (simp add: mc(2) intents)
  note a = adm [unfolded admitted_def]
  have "InjectConnection env st c w m = forward_login env st ms (cc_Rewind (int p) c) w (set_mc ?mc m)"
    using a valid state unfolding InjectConnection_def mc(1) option.case inject_meta_def [symmetric] Let_def
    by (auto simp: ms mc handle_login_def)
  then show ?thesis using fwd by (simp add: host)
qed

lemma ucast_scast_version: "ucast (scast (v :: 32 word) :: 64 word) = v"
  by (rule bit_word_eqI) (simp add: bit_simps)

text \<open>(C3)
  A player who is admitted is connected: when the sniffed client (whose stream comes in any
  segments and then ends) is let in and the server can be dialled, the server receives what dialling
  has sent, then the handshake with the hostname of the configuration, the client's port and version
  and the login intent, then the client's login packet and everything after it, unchanged and in
  order; the client receives everything the server sends; the read lock is released before the relay,
  and the player is counted for just as long as the relay runs.
\<close>

theorem player_forwarded:
  assumes env: "stream_env env" and cs: "concat cs = login_stream version host port IntentLogin nm tail @ rest"
    and len: "length (login_stream version host port IntentLogin nm tail) \<le> CacheSize"
    and ok: "login_ok version host port nm uuid tail" and m: "md_Minecraft m = None"
    and mc: "mc = sniffed_login version host port IntentLogin nm uuid
        (length (frame (handshake_bytes version host port IntentLogin)))"
    and ms: "ob_Minecraft (os_config st) = Some ms" and adm: "admitted st ms mc"
    and conn: "connectServer (me_dial env) (me_outbounds env) st (set_mc (inject_meta ms mc) m) = Some (Inr (map Chunk rs, wR), m1)"
    and room: "5 + int (length (handshake_bytes version (fst (server_hostname (os_config st) ms mc)) port IntentLogin)) \<le> b_len (me_buf env)"
  shows "\<exists>c m2 i. protocol_Sniff net_Read (me_fresh env) reg [''minecraft''] (NewCachedConn (map Chunk cs)) m = Some (c, m2) \<and>
      InjectConnection env st c w m2 = Some i \<and> in_err i = None \<and>
      in_events i = [EvUnlock, EvOnline 1, EvRelay, EvOnline (-1)] \<and> in_out i = w @ concat rs \<and>
      in_server i = Some ([], wR @ frame (handshake_bytes version (fst (server_hostname (os_config st) ms mc)) port IntentLogin) @
        frame (login_bytes nm tail) @ rest)"
proof -
  let ?f = "length (frame (handshake_bytes version host port IntentLogin))" and ?S = "concat cs"
  have fresh: "length (me_fresh env) = CacheSize" using env by (simp add: stream_env_def)
  have v: "cc_reads orderly net_pending (me_fresh env) ?S 0 (NewCachedConn (map Chunk cs))"
    by (rule cc_reads_new) (auto simp: fresh orderly_def net_pending_chunks)
  from orderly.protocol_Sniff_login [OF v cs len ok _ m, where reg = reg] obtain c where
    c: "protocol_Sniff net_Read (me_fresh env) reg [''minecraft''] (NewCachedConn (map Chunk cs)) m = Some (c, m\<lparr>md_Minecraft := Some mc\<rparr>)"
      "cc_reads orderly net_pending (me_fresh env) ?S 0 c" "cc_cache c \<noteq> None"
      "length (login_stream version host port IntentLogin nm tail) \<le> cc_filled (me_fresh env) c"
    unfolding mc by auto
  have pos: "?f \<le> cc_filled (me_fresh env) c" using c(4) by (simp add: login_stream_def)
  have f: "md_Minecraft (m\<lparr>md_Minecraft := Some mc\<rparr>) = Some mc" "mm_NextState mc = IntentLogin" "mm_SniffPosition mc = int ?f"
    "markup_ok mc" "ucast (mm_ProtocolVersion mc) = version" "server_port mc = port"
    by (simp_all add: mc sniffed_login_def new_mc_metadata_def server_port_def ucast_scast_version markup_ok_def)
  have s: "set_mc k (m\<lparr>md_Minecraft := Some mc\<rparr>) = set_mc k m" for k by (simp add: set_mc_def)
  have S: "drop ?f ?S = frame (login_bytes nm tail) @ rest" by (simp add: cs login_stream_def)
  from InjectConnection_login [OF env c(2,3) pos f(1-4) ms adm, unfolded s f(5,6) S, OF conn room]
  show ?thesis using c(1) by blast
qed

text \<open>An outbound that rewrites the hostname, refuses one player and admits twenty.\<close>

definition sample_mc :: mc_service where
  "sample_mc =
     \<lparr>ms_EnableHostnameRewrite = True, ms_RewrittenHostname = ''mc.server.net'',
      ms_OnlineCount = \<lparr>oc_Max = 20, oc_Online = -1, oc_EnableMaxLimit = True, oc_Sample = None\<rparr>,
      ms_IgnoreFMLSuffix = False, ms_IgnoreSRVRedirect = True,
      ms_HostnameAccess = \<lparr>ac_Mode = [], ac_ListTags = [], ac_LowerCase = False\<rparr>,
      ms_NameAccess = \<lparr>ac_Mode = ''block'', ac_ListTags = [''banned''], ac_LowerCase = True\<rparr>,
      ms_PingMode = [], ms_MotdFavicon = [], ms_MotdDescription = []\<rparr>"

definition sample_outbound :: outbound_config where
  "sample_outbound =
     \<lparr>ob_Name = ''out'', ob_Dialer = [], ob_TargetAddress = ''mc.server.net'', ob_TargetPort = 25565, ob_UDPTargetPort = 0,
      ob_Transport = [], ob_DialNetwork = [], ob_TransportProbeInterval = [], ob_Minecraft = Some sample_mc,
      ob_SocketOptions = None, ob_ProxyProtocolVersion = 0, ob_ProxyOptions = no_proxy, ob_SendAuthSecret = False\<rparr>"

definition sample_state :: outbound_state where
  "sample_state = (new_outbound_state sample_outbound)\<lparr>os_dialer := Some (SystemDialer None), os_nameAccessLists := [{''herobrine''}]\<rparr>"

definition sample_dial :: "(net_in, bytes) dial_env" where
  "sample_dial =
     \<lparr>de_system = (\<lambda>opts network address. Inr ([Chunk [7, 8]], [])), de_LookupSRV = (\<lambda>service proto nm. []),
      de_tunnel = (\<lambda>address. Inl ErrOsClosed), de_local = (\<lambda>conn. ''10.0.0.1:1000''), de_own = None,
      de_Read = net_Read, de_Write = stream_writer, de_LookupIP = (\<lambda>host. Inr []), de_buf = Buffer_With (replicate 600 0) 600\<rparr>"

definition sample_env :: "(net_in, bytes, net_in, bytes) mc_env" where
  "sample_env =
     \<lparr>me_dial = sample_dial, me_outbounds = (\<lambda>nm. None), me_Read = net_Read, me_Write = stream_writer,
      me_fresh = replicate CacheSize 0, me_tcp = True, me_render = (\<lambda>j. [123, 125]), me_now = 0,
      me_buf = Buffer_With (replicate 600 0) 600, me_copybuf = Buffer_With (replicate 64 0) 64\<rparr>"

lemma sample_env_ok: "stream_env sample_env"
  by (simp add: stream_env_def sample_env_def sample_dial_def relay_buf_def Buffer_With_def)

lemma sample_selectors:
  "ob_Minecraft (os_config sample_state) = Some sample_mc" "me_fresh sample_env = replicate CacheSize 0"
  "b_len (me_buf sample_env) = 600"
  by (simp_all add: sample_state_def new_outbound_state_def sample_outbound_def sample_env_def Buffer_With_def)

abbreviation steve_mc :: mc_metadata where
  "steve_mc \<equiv> sniffed_login 767 ''play.example.org'' 25565 IntentLogin ''Steve'' steve_uuid
     (length (frame (handshake_bytes 767 ''play.example.org'' 25565 IntentLogin)))"

lemma sample_admits: "admitted sample_state sample_mc steve_mc"
  by (simp add: admitted_def sample_state_def sample_mc_def access_refuses_def DefaultMode_def sniffed_login_def
      new_mc_metadata_def access_Check_def AllowMode_def BlockMode_def str_lower_def char_lower_def Set_Has_def new_outbound_state_def)

lemma sample_connects:
  "\<exists>m1. connectServer (me_dial sample_env) (me_outbounds sample_env) sample_state (set_mc (inject_meta sample_mc steve_mc) zero_metadata)
     = Some (Inr (map Chunk [[7, 8]], []), m1)"
  by (simp add: connectServer_def sample_env_def sample_state_def sample_outbound_def new_outbound_state_def current_mode_def
      ResolvedTransport_def NormalizeTransport_def ModeUDP_def Let_def dial.simps sample_dial_def sample_mc_def
      fill_destination_def zero_metadata_def set_mc_def send_preamble_def send_secret_def send_proxy_header_def VersionUnspecified_def)

lemma sample_hostname: "fst (server_hostname (os_config sample_state) sample_mc steve_mc) = ''mc.server.net''"
  by (simp add: server_hostname_def sample_mc_def IsFML_def sniffed_login_def)

theorem player_forwarded_witness:
  "\<exists>c m i. protocol_Sniff net_Read (replicate CacheSize 0) [] [''minecraft'']
       (NewCachedConn (map Chunk [take 30 steve_stream, drop 30 steve_stream @ [1], [2, 3]])) zero_metadata = Some (c, m) \<and>
     InjectConnection sample_env sample_state c [] m = Some i \<and> in_err i = None \<and> in_out i = [7, 8] \<and>
     in_server i = Some ([], frame (handshake_bytes 767 ''mc.server.net'' 25565 IntentLogin) @
        frame (login_bytes ''Steve'' steve_uuid) @ [1, 2, 3])"
proof -
  let ?cs = "[take 30 steve_stream, drop 30 steve_stream @ [1], [2, 3]]"
  have cs: "concat ?cs = login_stream 767 ''play.example.org'' 25565 IntentLogin ''Steve'' steve_uuid @ [1, 2, 3]"
    unfolding steve_stream_def [symmetric] by simp
  have len: "length (login_stream 767 ''play.example.org'' 25565 IntentLogin ''Steve'' steve_uuid) \<le> CacheSize"
    using steve_lengths(2) by (simp add: steve_stream_def CacheSize_def)
  have m: "md_Minecraft zero_metadata = None" by (simp add: zero_metadata_def)
  obtain m1 where conn: "connectServer (me_dial sample_env) (me_outbounds sample_env) sample_state
      (set_mc (inject_meta sample_mc steve_mc) zero_metadata) = Some (Inr (map Chunk [[7, 8]], []), m1)"
    using sample_connects by blast
  have room: "5 + int (length (handshake_bytes 767 (fst (server_hostname (os_config sample_state) sample_mc steve_mc)) 25565 IntentLogin))
      \<le> b_len (me_buf sample_env)"
    unfolding sample_hostname sample_selectors by code_simp
  from player_forwarded [OF sample_env_ok cs len steve_login m refl sample_selectors(1) sample_admits conn room, of "[]" "[]",
      unfolded sample_hostname sample_selectors(2)]
  show ?thesis by auto
qed

section \<open>Refusing\<close>

lemma kick_dial: "kick (env\<lparr>me_dial := d\<rparr>) what msg c w m = kick env what msg c w m"
proof -
  have "me_tcp (env\<lparr>me_dial := d\<rparr>) = me_tcp env" by simp
  then show ?thesis unfolding kick_def send_json_packet_def new_buffer_def with_linger_def by (simp only:) simp
qed

lemma kick_result:
  "kick env what msg c w m = Some i \<Longrightarrow> in_server i = None \<and> (in_events i = [EvUnlock] \<or> in_events i = [EvUnlock, EvLinger 10])"
  by (auto simp: kick_def with_linger_def returns_def bind_eq_Some_conv split: option.splits if_splits)

lemma InjectConnection_mc:
  "md_Minecraft m = Some mc \<Longrightarrow> mm_Valid mc \<Longrightarrow> ob_Minecraft (os_config st) = Some ms \<Longrightarrow>
   mm_NextState mc = IntentLogin \<Longrightarrow>
   InjectConnection env st c w m = do {
     refused \<leftarrow> access_refuses (ms_HostnameAccess ms) (os_hostnameAccessLists st) (clean_host mc);
     if refused
     then with_linger env (returns (Some (Cause ''hostname'' ErrRejected)) [EvUnlock, EvLinger 0] c w None (set_mc (inject_meta ms mc) m))
     else handle_login env st ms (inject_meta ms mc)
            (if 0 \<le> mm_SniffPosition mc then cc_Rewind (mm_SniffPosition mc) c else c) w (set_mc (inject_meta ms mc) m)
   }"
  unfolding InjectConnection_def option.case inject_meta_def [symmetric] Let_def
  by (simp add: intents cong: if_cong)

text \<open>(C7)
  A player who is not admitted (by the hostname rule, by the player rule or by the limit) never
  reaches a server: what the outbound does then does not depend on the dialler at all, it ends without
  a server connection and without counting the player, and the read lock is released exactly once.
\<close>

theorem refused_player_dials_nothing:
  assumes "md_Minecraft m = Some mc" "mm_NextState mc = IntentLogin" "ob_Minecraft (os_config st) = Some ms"
    "\<not> admitted st ms mc"
  shows "InjectConnection (env\<lparr>me_dial := d\<rparr>) st c w m = InjectConnection env st c w m \<and>
    (\<forall>i. InjectConnection env st c w m = Some i \<longrightarrow> in_server i = None \<and> EvRelay \<notin> set (in_events i) \<and>
       (\<forall>k. EvOnline k \<notin> set (in_events i)) \<and> filter ((=) EvUnlock) (in_events i) = [EvUnlock])"
proof -
  have valid: "mm_Valid mc" using assms(2) by (simp add: mm_Valid_def IntentLogin_def)
  note inj = InjectConnection_mc [OF assms(1) valid assms(3,2)]
  have adm: "\<not> (access_refuses (ms_HostnameAccess ms) (os_hostnameAccessLists st) (clean_host mc) = Some False \<and>
     access_refuses (ms_NameAccess ms) (os_nameAccessLists st) (mm_PlayerName mc) = Some False \<and>
     \<not> (oc_EnableMaxLimit (ms_OnlineCount ms) \<and> sint (oc_Max (ms_OnlineCount ms)) \<le> sint (os_onlineCount st)))"
    using assms(4) by (simp add: admitted_def)
  have l: "with_linger (env\<lparr>me_dial := d\<rparr>) k = with_linger env k" for k by (simp add: with_linger_def)
  have kicked: "handle_login env' st ms (inject_meta ms mc) c' w m' = (case access_refuses (ms_NameAccess ms) (os_nameAccessLists st) (mm_PlayerName mc) of
       None \<Rightarrow> None
     | Some r \<Rightarrow>
         if r then kick env' ''send kick packet: '' (generateKickMessage (me_now env') (os_config st) (mm_PlayerName mc)) c' w m'
         else kick env' ''send player number limit exceeded packet: ''
            (generatePlayerNumberLimitExceededMessage (me_now env') (os_config st) (mm_PlayerName mc)) c' w m')"
    if "access_refuses (ms_HostnameAccess ms) (os_hostnameAccessLists st) (clean_host mc) = Some False"
    for env' :: "('a, 'b, 'c, 'd) mc_env" and c' m'
    using adm that by (auto simp: handle_login_def split: option.splits)
  show ?thesis
    unfolding inj
    by (cases "access_refuses (ms_HostnameAccess ms) (os_hostnameAccessLists st) (clean_host mc)")
       (auto simp: l kicked kick_dial with_linger_def returns_def split: option.splits if_splits dest!: kick_result)
qed

lemma send_json_packet_frame:
  assumes "stream_env env" "10 \<le> b_len (me_buf env) - 5"
  shows "\<exists>b. send_json_packet env msg (new_buffer env) w = Some (None, b, w @ frame (0 # str_field msg)) \<and>
    room b [] (nat (b_len (me_buf env) - 5))"
proof -
  let ?v = "leb128 (of_nat (length msg))"
  have len: "5 + int (Suc (length ?v)) \<le> b_len (me_buf env)" using assms(2) length_leb128_le [of "of_nat (length msg)"] by linarith
  have r0: "room (new_buffer env) [] (Suc (length ?v))" by (rule new_buffer_room [OF assms(1) len])
  define b1 where "b1 = Buffer_absorb (new_buffer env) [0]"
  have r1: "room b1 [0] (length ?v + 0)" using room_absorb [of "new_buffer env" "[]" "[0]" "length ?v"] r0 by (simp add: b1_def)
  define b2 where "b2 = Buffer_absorb b1 ?v"
  have r2: "room b2 (0 # ?v) 0" using room_absorb [OF r1] by (simp add: b2_def)
  then have wf: "buf_wf b2" "5 \<le> buf_headroom b2" "buf_bytes b2 = 0 # ?v" by (simp_all add: room_def)
  from AppendPacketLength_front [OF wf(1,2), of "Buffer_Len b2 + int (length msg)"] obtain b3 where
    b3: "AppendPacketLength b2 (Buffer_Len b2 + int (length msg)) = Some b3" "buf_wf b3"
      "buf_bytes b3 = leb128 (of_int (Buffer_Len b2 + int (length msg))) @ buf_bytes b2" "b_len b3 = b_len b2" by blast
  have "b_len b3 = b_len (me_buf env)" by (simp add: b3(4) b2_def b1_def new_buffer_def Buffer_absorb_def Buffer_Reset_def)
  then have again: "room (Buffer_Reset b3 (int MaxVarIntLen)) [] (nat (b_len (me_buf env) - 5))"
    using b3(2) assms(2) by (auto simp: room_def Buffer_Reset_def buffer_defs MaxVarIntLen_def)
  have total: "of_int (Buffer_Len b2 + int (length msg)) = (of_nat (length (0 # str_field msg)) :: 32 word)"
    by (simp add: Buffer_Len_bytes [OF wf(1)] wf(3) str_field_def del: length_buf_bytes)
  have all: "buf_bytes b3 @ msg = frame (0 # str_field msg)"
    unfolding b3(3) total wf(3) by (simp add: frame_def str_field_def)
  show ?thesis
    unfolding all [symmetric]
    using room_steps(1) [OF r0, of 0] room_steps(2) [OF r1] b3(1,2) assms(1) again
    by (simp add: send_json_packet_def ignore_err_def b1_def [symmetric] b2_def [symmetric] WriteVectorizedPacket_def
        stream_env_def stream_writer_def)
qed

text \<open>(C27)
  What a refused player sees. On a TCP connection, a player refused by the hostname gets nothing: the
  connection is reset and the error says why; a player refused by the name, or by the limit of players,
  gets exactly one login packet, the disconnect packet with the message for that reason, and the connection
  lingers ten seconds so that it arrives. Neither has a server connection. On a connection of the UDP
  tunnel every refusal is a panic: the linger is set through an assertion that it is a TCP connection.
\<close>

theorem refused_player_kicked:
  assumes "stream_env env" "10 \<le> b_len (me_buf env) - 5"
    and mc: "md_Minecraft m = Some mc" "mm_NextState mc = IntentLogin" and ms: "ob_Minecraft (os_config st) = Some ms"
    and host: "access_refuses (ms_HostnameAccess ms) (os_hostnameAccessLists st) (clean_host mc) = Some by_host"
    and nm: "\<not> by_host \<longrightarrow> access_refuses (ms_NameAccess ms) (os_nameAccessLists st) (mm_PlayerName mc) = Some by_name"
    and refused: "by_host \<or> by_name \<or> oc_EnableMaxLimit (ms_OnlineCount ms) \<and> sint (oc_Max (ms_OnlineCount ms)) \<le> sint (os_onlineCount st)"
  shows "if me_tcp env
    then \<exists>i. InjectConnection env st c w m = Some i \<and> in_server i = None \<and>
      (if by_host
       then in_err i = Some (Cause ''hostname'' ErrRejected) \<and> in_events i = [EvUnlock, EvLinger 0] \<and> in_out i = w
       else in_err i = None \<and> in_events i = [EvUnlock, EvLinger 10] \<and>
         in_out i = w @ frame (0 # str_field (me_render env (message_json
           (if by_name then generateKickMessage (me_now env) (os_config st) (mm_PlayerName mc)
            else generatePlayerNumberLimitExceededMessage (me_now env) (os_config st) (mm_PlayerName mc))))))
    else InjectConnection env st c w m = None"
proof -
  have valid: "mm_Valid mc" using mc(2) by (simp add: mm_Valid_def IntentLogin_def)
  have kick: "kick env what msg c' w m' = with_linger env (returns None [EvUnlock, EvLinger 10] c'
      (w @ frame (0 # str_field (me_render env (message_json msg)))) None m')" for what msg c' m'
    using send_json_packet_frame [OF assms(1,2), of "me_render env (message_json msg)" w]
    by (auto simp: kick_def)
  show ?thesis
    unfolding InjectConnection_mc [OF mc(1) valid ms mc(2)]
    using host nm refused
    by (cases by_host; cases by_name) (simp_all add: handle_login_def kick with_linger_def returns_def)
qed

definition banned_mc :: mc_metadata where
  "banned_mc = steve_mc\<lparr>mm_PlayerName := ''herobrine''\<rparr>"

lemma banned_facts:
  "md_Minecraft (zero_metadata\<lparr>md_Minecraft := Some banned_mc\<rparr>) = Some banned_mc" "mm_NextState banned_mc = IntentLogin"
  "access_refuses (ms_HostnameAccess sample_mc) (os_hostnameAccessLists sample_state) (clean_host banned_mc) = Some False"
  "access_refuses (ms_NameAccess sample_mc) (os_nameAccessLists sample_state) (mm_PlayerName banned_mc) = Some True"
  by (simp_all add: banned_mc_def sample_state_def sample_mc_def access_refuses_def DefaultMode_def sniffed_login_def
      new_mc_metadata_def access_Check_def AllowMode_def BlockMode_def str_lower_def char_lower_def Set_Has_def new_outbound_state_def)

lemma banned_refused: "\<not> admitted sample_state sample_mc banned_mc"
  using banned_facts(4) by (simp add: admitted_def)

theorem refused_player_dials_nothing_witness:
  "InjectConnection (sample_env\<lparr>me_dial := sample_dial\<lparr>de_tunnel := (\<lambda>address. Inr ([], []))\<rparr>\<rparr>) sample_state (NewCachedConn []) []
     (zero_metadata\<lparr>md_Minecraft := Some banned_mc\<rparr>)
   = InjectConnection sample_env sample_state (NewCachedConn []) [] (zero_metadata\<lparr>md_Minecraft := Some banned_mc\<rparr>)"
  by (rule refused_player_dials_nothing [OF banned_facts(1,2) sample_selectors(1) banned_refused, THEN conjunct1])

theorem refused_player_kicked_witness:
  "\<exists>i. InjectConnection sample_env sample_state (NewCachedConn []) [] (zero_metadata\<lparr>md_Minecraft := Some banned_mc\<rparr>) = Some i \<and>
     in_events i = [EvUnlock, EvLinger 10] \<and> in_out i = frame [0, 2, 123, 125]"
proof -
  have str: "str_field (me_render sample_env j) = [2, 123, 125]" for j
    by (simp add: sample_env_def str_field_def leb128_unfold)
  from refused_player_kicked [OF sample_env_ok _ banned_facts(1,2) sample_selectors(1) banned_facts(3), of True, where w = "[]" and c = "NewCachedConn []",
      unfolded str]
  show ?thesis using banned_facts(4) by (auto simp: sample_env_def Buffer_With_def)
qed

end
