(* ===== verification/Online.thy ===== *)
theory Online
  imports McFacts "HOL-Library.Multiset"
begin

text \<open>
  The counter of players of a Minecraft outbound (\<open>onlineCount\<close> of protocol/minecraft/outbound.go)
  under concurrency. Logins are handled by goroutines of their own: the limit is read when a login
  enters, the counter is incremented when its relay starts, after the server has been dialled, and
  decremented when the relay ends. The steps of all logins interleave freely; what one login does
  between its steps is \<open>handle_login\<close>.
\<close>

declare limit_reached_def [simp del]

section \<open>One login\<close>

definition online_events :: "inj_event list \<Rightarrow> inj_event list" where
  "online_events evs = filter (\<lambda>e. \<exists>k. e = EvOnline k) evs"

lemma online_events_simps [simp]:
  "online_events [] = []" "online_events (EvUnlock # es) = online_events es" "online_events (EvLinger n # es) = online_events es"
  "online_events (EvCloseClient # es) = online_events es" "online_events (EvCloseServer # es) = online_events es"
  "online_events (EvRelay # es) = online_events es" "online_events (EvOnline k # es) = EvOnline k # online_events es"
  by (simp_all add: online_events_def)

text \<open>
  A login that is handled changes the counter only around its relay, up and down once, and only when
  the limit was not reached when it read the counter.
\<close>

lemma kick_online: "kick env what msg c w m = Some r \<Longrightarrow> online_events (in_events r) = []"
  by (auto simp: kick_def returns_def with_linger_def bind_eq_Some_conv split: option.splits if_splits)

definition counted :: "('s, 'w, 'a, 'b) injected option \<Rightarrow> bool" where
  "counted x \<longleftrightarrow> (\<forall>r. x = Some r \<longrightarrow>
     online_events (in_events r) = [] \<or> online_events (in_events r) = [EvOnline 1, EvOnline (-1)])"

lemma counted_branches:
  "(\<And>y. counted (f y)) \<Longrightarrow> counted (Option.bind x f)"
  "counted a \<Longrightarrow> (\<And>e. counted (b e)) \<Longrightarrow> counted (case v of None \<Rightarrow> a | Some e \<Rightarrow> b e)"
  "(\<And>e. counted (g e)) \<Longrightarrow> (\<And>y. counted (h y)) \<Longrightarrow> counted (case s of Inl e \<Rightarrow> g e | Inr y \<Rightarrow> h y)"
  "(\<And>y z. counted (q y z)) \<Longrightarrow> counted (case p of (y, z) \<Rightarrow> q y z)"
  by (cases x, auto simp: counted_def split: option.split sum.split prod.split)

lemma counted_ends:
  "counted (returns err [EvUnlock] c w sv m)" "counted (returns err [EvUnlock, EvCloseServer] c w sv m)"
  "counted (relay env [EvUnlock, EvOnline 1] [EvOnline (-1)] conn c w m)"
  by (auto simp: counted_def returns_def relay_def bind_eq_Some_conv)

lemma forward_login_counted: "counted (forward_login env st ms c w m)"
  unfolding forward_login_def Let_def by (intro counted_branches counted_ends)

lemma handle_login_online:
  assumes "handle_login env st ms mc c w m = Some r"
  shows "online_events (in_events r) = [] \<or>
    online_events (in_events r) = [EvOnline 1, EvOnline (-1)] \<and> \<not> limit_reached (ms_OnlineCount ms) (os_onlineCount st) \<and>
    access_refuses (ms_NameAccess ms) (os_nameAccessLists st) (mm_PlayerName mc) = Some False"
proof (cases "access_refuses (ms_NameAccess ms) (os_nameAccessLists st) (mm_PlayerName mc) = Some False \<and>
      \<not> limit_reached (ms_OnlineCount ms) (os_onlineCount st)")
  case True
  then have "forward_login env st ms c w m = Some r" using assms by (simp add: handle_login_def)
  then have "online_events (in_events r) = [] \<or> online_events (in_events r) = [EvOnline 1, EvOnline (-1)]"
    using forward_login_counted by (metis counted_def)
  then show ?thesis using True by blast
next
  case False
  then obtain what msg where k: "kick env what msg c w m = Some r"
    using assms by (auto simp: handle_login_def bind_eq_Some_conv split: if_splits)
  show ?thesis using kick_online [OF k] by simp
qed

section \<open>All logins of an outbound\<close>

datatype phase = Entering | Joining | Playing | Gone

definition many :: "phase \<Rightarrow> phase list \<Rightarrow> nat" where
  "many p ps = count (mset ps) p"

lemma many_Nil [simp]: "many p [] = 0"
  by (simp add: many_def)

lemma many_append [simp]: "many p (ps @ [q]) = many p ps + (if q = p then 1 else 0)"
  by (simp add: many_def)

lemma many_update:
  "i < length ps \<Longrightarrow> many p (ps[i := q]) + (if ps ! i = p then 1 else 0) = many p ps + (if q = p then 1 else 0)"
proof -
  assume i: "i < length ps"
  then have "mset ps = add_mset (ps ! i) (mset ps - {#ps ! i#})" by simp
  moreover have "mset (ps[i := q]) = add_mset q (mset ps - {#ps ! i#})" using i by (simp add: mset_update)
  moreover obtain rest where "rest = mset ps - {#ps ! i#}" by blast
  ultimately have "mset ps = add_mset (ps ! i) rest" "mset (ps[i := q]) = add_mset q rest" by simp_all
  then show ?thesis unfolding many_def by simp
qed

text \<open>
  One step of one login: it arrives; it is kicked (by its name or by the limit), or passes the limit
  and dials; the dial or the handshake fails, or the relay starts; the relay ends.
\<close>

inductive login_step :: "mc_service \<Rightarrow> outbound_state \<times> phase list \<Rightarrow> outbound_state \<times> phase list \<Rightarrow> bool" for ms where
  arrives: "login_step ms (st, ps) (st, ps @ [Entering])"
| kicked: "i < length ps \<Longrightarrow> ps ! i = Entering \<Longrightarrow> login_step ms (st, ps) (st, ps[i := Gone])"
| passes: "i < length ps \<Longrightarrow> ps ! i = Entering \<Longrightarrow> \<not> limit_reached (ms_OnlineCount ms) (os_onlineCount st) \<Longrightarrow>
    login_step ms (st, ps) (st, ps[i := Joining])"
| fails: "i < length ps \<Longrightarrow> ps ! i = Joining \<Longrightarrow> login_step ms (st, ps) (st, ps[i := Gone])"
| joins: "i < length ps \<Longrightarrow> ps ! i = Joining \<Longrightarrow>
    login_step ms (st, ps) (st\<lparr>os_onlineCount := os_onlineCount st + 1\<rparr>, ps[i := Playing])"
| leaves: "i < length ps \<Longrightarrow> ps ! i = Playing \<Longrightarrow>
    login_step ms (st, ps) (st\<lparr>os_onlineCount := os_onlineCount st - 1\<rparr>, ps[i := Gone])"

text \<open>The runs in which at most \<open>k\<close> logins are dialling at any time.\<close>

inductive login_run :: "mc_service \<Rightarrow> nat \<Rightarrow> outbound_state \<times> phase list \<Rightarrow> bool" for ms k where
  start: "os_onlineCount st = 0 \<Longrightarrow> login_run ms k (st, [])"
| step: "login_run ms k (st, ps) \<Longrightarrow> login_step ms (st, ps) (st', ps') \<Longrightarrow> many Joining ps' \<le> k \<Longrightarrow> login_run ms k (st', ps')"

lemma counter_is_playing: "login_run ms k (st, ps) \<Longrightarrow> os_onlineCount st = of_nat (many Playing ps)"
proof (induction "(st, ps)" arbitrary: st ps rule: login_run.induct)
  case (step st ps st' ps')
  from step.hyps(3) step.hyps(2) show ?case
  proof (cases rule: login_step.cases)
    case (joins i)
    then show ?thesis using many_update [of i ps Playing Playing] step.hyps(2) by simp
  next
    case (leaves i)
    then have "many Playing ps = many Playing (ps[i := Gone]) + 1" using many_update [of i ps Playing Gone] by simp
    then show ?thesis using leaves step.hyps(2) by simp
  qed (use many_update [of _ ps Playing] step.hyps(2) in force)+
qed simp

lemma players_bounded:
  assumes "oc_EnableMaxLimit (ms_OnlineCount ms)" "0 < sint (oc_Max (ms_OnlineCount ms))"
    "sint (oc_Max (ms_OnlineCount ms)) + int k \<le> 2 ^ 31"
  shows "login_run ms k (st, ps) \<Longrightarrow> int (many Playing ps + many Joining ps) < sint (oc_Max (ms_OnlineCount ms)) + int k"
proof (induction "(st, ps)" arbitrary: st ps rule: login_run.induct)
  case (start st)
  then show ?case using assms(2) by simp
next
  case (step st ps st' ps')
  note c = counter_is_playing [OF step.hyps(1)]
  from step.hyps(3) show ?case
  proof (cases rule: login_step.cases)
    case (passes i)
    have "int (many Playing ps) < 2 ^ 31" using step.hyps(2) assms(3) by linarith
    then have "int (many Playing ps) < sint (oc_Max (ms_OnlineCount ms))"
      using passes c assms(1) by (simp add: limit_reached_def sint_of_nat_small)
    then show ?thesis using passes step.hyps(4) many_update [of i ps Playing Joining] by simp
  next
    case arrives
    then show ?thesis using step.hyps(2) by simp
  next
    case (kicked i)
    then show ?thesis using step.hyps(2) many_update [of i ps Playing Gone] many_update [of i ps Joining Gone] by simp
  next
    case (fails i)
    then show ?thesis using step.hyps(2) many_update [of i ps Playing Gone] many_update [of i ps Joining Gone] by simp
  next
    case (joins i)
    then show ?thesis using step.hyps(2) many_update [of i ps Playing Playing] many_update [of i ps Joining Playing] by simp
  next
    case (leaves i)
    then show ?thesis using step.hyps(2) many_update [of i ps Playing Gone] many_update [of i ps Joining Gone] by simp
  qed
qed

section \<open>Properties\<close>

text \<open>(C16)
  The counter of players, under every interleaving of logins: it always is the number of relays that
  run (modulo 2^32). With the limit on and at most \<open>k\<close> logins between the check and the start of their
  relay at any time, fewer than \<open>Max + k\<close> players are on and the counter is exact. The limit is not
  kept by itself: it is checked before the server is dialled and counted after (the run of the witness
  has two players with a limit of one).\<close>

theorem online_count_bounded:
  assumes "login_run ms k (st, ps)"
  shows "os_onlineCount st = of_nat (many Playing ps) \<and>
    (oc_EnableMaxLimit (ms_OnlineCount ms) \<and> 0 < sint (oc_Max (ms_OnlineCount ms)) \<and>
     sint (oc_Max (ms_OnlineCount ms)) + int k \<le> 2 ^ 31 \<longrightarrow>
       int (many Playing ps) < sint (oc_Max (ms_OnlineCount ms)) + int k \<and>
       sint (os_onlineCount st) = int (many Playing ps))"
proof (intro conjI impI)
  show c: "os_onlineCount st = of_nat (many Playing ps)" by (rule counter_is_playing [OF assms])
  assume l: "oc_EnableMaxLimit (ms_OnlineCount ms) \<and> 0 < sint (oc_Max (ms_OnlineCount ms)) \<and>
     sint (oc_Max (ms_OnlineCount ms)) + int k \<le> 2 ^ 31"
  then show b: "int (many Playing ps) < sint (oc_Max (ms_OnlineCount ms)) + int k"
    using players_bounded [of ms k st ps] assms by auto
  show "sint (os_onlineCount st) = int (many Playing ps)"
  proof -
    have "int (many Playing ps) < 2 ^ 31" using l b by linarith
    then show ?thesis unfolding c by (intro sint_of_nat_small) simp
  qed
qed

text \<open>The run of the witness: two logins enter, both pass the limit of one, both join.\<close>

definition limit_one :: mc_service where
  "limit_one = \<lparr>ms_EnableHostnameRewrite = False, ms_RewrittenHostname = [],
     ms_OnlineCount = \<lparr>oc_Max = 1, oc_Online = -1, oc_EnableMaxLimit = True, oc_Sample = None\<rparr>,
     ms_IgnoreFMLSuffix = False, ms_IgnoreSRVRedirect = False, ms_HostnameAccess = no_access, ms_NameAccess = no_access,
     ms_PingMode = [], ms_MotdFavicon = [], ms_MotdDescription = []\<rparr>"

lemma over_the_limit:
  assumes "os_onlineCount st = 0"
  shows "login_run limit_one 2 (st\<lparr>os_onlineCount := 1 + 1\<rparr>, [Playing, Playing])"
proof -
  note run = login_run.step [where ms = limit_one and k = 2]
  have l: "\<not> limit_reached (ms_OnlineCount limit_one) (os_onlineCount st)"
    by (simp add: limit_reached_def limit_one_def assms)
  note r0 = login_run.start [OF assms, of limit_one 2]
  have r1: "login_run limit_one 2 (st, [Entering])" using run [OF r0 arrives] by (simp add: many_def)
  have r2: "login_run limit_one 2 (st, [Entering, Entering])" using run [OF r1 arrives] by (simp add: many_def)
  have r3: "login_run limit_one 2 (st, [Joining, Entering])" using run [OF r2 passes [of 0]] l by (simp add: many_def)
  have r4: "login_run limit_one 2 (st, [Joining, Joining])" using run [OF r3 passes [of 1]] l by (simp add: many_def)
  have r5: "login_run limit_one 2 (st\<lparr>os_onlineCount := 1\<rparr>, [Playing, Joining])"
    using run [OF r4 joins [of 0]] assms by (simp add: many_def)
  show ?thesis using run [OF r5 joins [of 1]] by (simp add: many_def)
qed

theorem online_count_bounded_witness:
  "\<exists>st ps. login_run limit_one 2 (st, ps) \<and> many Playing ps = 2 \<and> sint (os_onlineCount st) = 2 \<and>
     limit_reached (ms_OnlineCount limit_one) (os_onlineCount st) \<and> sint (oc_Max (ms_OnlineCount limit_one)) = 1"
proof -
  let ?st = "(new_outbound_state zero_outbound_config)\<lparr>os_onlineCount := 0\<rparr>"
  have run: "login_run limit_one 2 (?st\<lparr>os_onlineCount := 1 + 1\<rparr>, [Playing, Playing])" by (rule over_the_limit) simp
  have two: "many Playing [Playing, Playing] = 2" by (simp add: many_def)
  have one: "oc_EnableMaxLimit (ms_OnlineCount limit_one)" "sint (oc_Max (ms_OnlineCount limit_one)) = 1"
    by (simp_all add: limit_one_def)
  have "sint (os_onlineCount (?st\<lparr>os_onlineCount := 1 + 1\<rparr>)) = int (many Playing [Playing, Playing])"
    using online_count_bounded [OF run] one by simp
  then show ?thesis using run two one
    by (intro exI [of _ "?st\<lparr>os_onlineCount := 1 + 1\<rparr>"] exI [of _ "[Playing, Playing]"]) (simp add: limit_reached_def)
qed

end
