(* ===== verification/Router.thy ===== *)
theory Router
  imports Rules McOutbound
begin

text \<open>
  The router (route/router.go, route/builtin_outbounds.go): its initialization from the
  configuration, the search for outbounds and lists, and the handling of a connection.

  The outbounds live outside, in the map \<open>me_outbounds\<close> from names to outbounds (the objects the Go
  code points to); the router's own map is the list of the names in it. A nil map is \<open>None\<close>.
\<close>

section \<open>State\<close>

text \<open>What a rule, or the default, can send a connection to.\<close>

datatype outbound_ref = RefReject | RefReset | RefNamed string | RefDefault outbound_state

record ('s, 'ip, 'c) router =
  rt_started :: bool
  rt_outboundMap :: "string list option"
  rt_listMap :: "list_map option"
  rt_ruleRegistry :: "'c registry"
  rt_snifferRegistry :: "(string \<times> 's sniffer) list"
  rt_rules :: "('ip, 'c) rule list"
  rt_defaultOutbound :: outbound_ref

record ('s, 'c) router_options =
  op_Config :: router_config
  op_OutboundMap :: "string list option"
  op_ListMap :: "list_map option"
  op_RuleRegistry :: "'c registry"
  op_SnifferRegistry :: "(string \<times> 's sniffer) list"

definition list_lookup :: "list_map option \<Rightarrow> list_map" where
  "list_lookup lm = (case lm of None \<Rightarrow> Map.empty | Some l \<Rightarrow> l)"

section \<open>Searching\<close>

definition findOutboundByName :: "string list option \<Rightarrow> string \<Rightarrow> go_error + outbound_ref" where
  "findOutboundByName outboundMap nm =
     (if nm = ''REJECT'' then Inr RefReject
      else if nm = ''RESET'' then Inr RefReset
      else (case outboundMap of
              None \<Rightarrow> Inl (ErrText ''outbounds are not initialized'')
            | Some names \<Rightarrow> if nm \<in> set names then Inr (RefNamed nm)
                            else Inl (ErrText (''outbound not found ['' @ nm @ '']''))))"

fun find_lists :: "list_map \<Rightarrow> string list \<Rightarrow> go_error + string_set list" where
  "find_lists lm [] = Inr []"
| "find_lists lm (tag # tags) =
     (case lm tag of
        None \<Rightarrow> Inl (ErrText (''list not found ['' @ tag @ '']''))
      | Some l \<Rightarrow> map_Inr (\<lambda>ls. l # ls) (find_lists lm tags))"

definition FindListsByTag :: "list_map option \<Rightarrow> string list \<Rightarrow> go_error + string_set list" where
  "FindListsByTag listMap tags =
     (case listMap of None \<Rightarrow> Inl (ErrText ''lists are not initialized'') | Some lm \<Rightarrow> find_lists lm tags)"

text \<open>The router as the provider of \<open>PostInitialize\<close>.\<close>

definition router_provider :: "('s, 'ip, 'c) router \<Rightarrow> provider" where
  "router_provider rt =
     \<lparr>pv_FindOutboundByName =
        (\<lambda>nm. case findOutboundByName (rt_outboundMap rt) nm of Inl e \<Rightarrow> Some e | Inr _ \<Rightarrow> None),
      pv_FindListsByTag = FindListsByTag (rt_listMap rt)\<rparr>"

text \<open>The provider of a reload (adapter/provider): the new lists, and the outbounds of the router.\<close>

definition reload_provider :: "('s, 'ip, 'c) router \<Rightarrow> list_map option \<Rightarrow> provider" where
  "reload_provider rt listMap =
     \<lparr>pv_FindOutboundByName = pv_FindOutboundByName (router_provider rt),
      pv_FindListsByTag = (\<lambda>tags. case listMap of
         Some lm \<Rightarrow> find_lists lm tags
       | None \<Rightarrow> FindListsByTag (rt_listMap rt) tags)\<rparr>"

section \<open>Initialization\<close>

fun init_rules ::
  "('ip, 'c) rule_env \<Rightarrow> 'c registry \<Rightarrow> list_map \<Rightarrow> nat \<Rightarrow> rule_config list \<Rightarrow> (go_error + ('ip, 'c) rule list) option" where
  "init_rules env reg lm i [] = Some (Inr [])"
| "init_rules env reg lm i (c # cs) = do {
     r \<leftarrow> NewRule env reg lm c;
     (case r of
        Inl e \<Rightarrow> Some (Inl (CauseError (''initialize rule [index='' @ dec i @ '']: '') e))
      | Inr rule \<Rightarrow> map_option (map_Inr (\<lambda>rs. rule # rs)) (init_rules env reg lm (i + 1) cs))
   }"

definition zero_outbound_config :: outbound_config where
  "zero_outbound_config =
     \<lparr>ob_Name = [], ob_Dialer = [], ob_TargetAddress = [], ob_TargetPort = 0, ob_UDPTargetPort = 0,
      ob_Transport = [], ob_DialNetwork = [], ob_TransportProbeInterval = [], ob_Minecraft = None,
      ob_SocketOptions = None, ob_ProxyProtocolVersion = 0, ob_ProxyOptions = no_proxy, ob_SendAuthSecret = False\<rparr>"

text \<open>The default outbound without a name: a plain one, whose initialization error is ignored.\<close>

definition default_outbound :: "(string \<Rightarrow> int option) \<Rightarrow> provider \<Rightarrow> outbound_ref" where
  "default_outbound ParseDuration pv =
     RefDefault (snd (plain_PostInitialize ParseDuration pv
       (new_outbound_state (zero_outbound_config\<lparr>ob_Name := ''default''\<rparr>))))"

definition Router_Initialize ::
  "('ip, 'c) rule_env \<Rightarrow> (string \<Rightarrow> int option) \<Rightarrow> ('s, 'c) router_options \<Rightarrow> ('s, 'ip, 'c) router \<Rightarrow>
   (go_error option \<times> ('s, 'ip, 'c) router) option" where
  "Router_Initialize env ParseDuration opts rt =
     (if rt_started rt then Some (Some (ErrText ''already initialized''), rt)
      else do {
        r \<leftarrow> init_rules env (op_RuleRegistry opts) (list_lookup (op_ListMap opts)) 0 (ro_Rules (op_Config opts));
        (case r of
           Inl e \<Rightarrow> Some (Some e, rt)
         | Inr rules \<Rightarrow>
             (case (if ro_DefaultOutbound (op_Config opts) \<noteq> []
                    then findOutboundByName (op_OutboundMap opts) (ro_DefaultOutbound (op_Config opts))
                    else Inr (default_outbound ParseDuration (router_provider rt))) of
                Inl e \<Rightarrow> Some (Some (Cause ''default outbound is not found: '' e), rt)
              | Inr dflt \<Rightarrow>
                  Some (None, \<lparr>rt_started = True, rt_outboundMap = op_OutboundMap opts, rt_listMap = op_ListMap opts,
                    rt_ruleRegistry = op_RuleRegistry opts, rt_snifferRegistry = op_SnifferRegistry opts,
                    rt_rules = rules, rt_defaultOutbound = dflt\<rparr>)))
      })"

text \<open>\<open>UpdateConfig\<close>, under the write lock.\<close>

definition Router_UpdateConfig ::
  "('ip, 'c) rule_env \<Rightarrow> (string \<Rightarrow> int option) \<Rightarrow> ('s, 'c) router_options \<Rightarrow> ('s, 'ip, 'c) router \<Rightarrow>
   (go_error option \<times> ('s, 'ip, 'c) router) option" where
  "Router_UpdateConfig env ParseDuration opts rt =
     Router_Initialize env ParseDuration opts (rt\<lparr>rt_started := False\<rparr>)"

section \<open>Handling a connection\<close>

definition apply_rewrite :: "rule_rewrite \<Rightarrow> metadata \<Rightarrow> metadata" where
  "apply_rewrite rw m =
     (let m = (if rr_TargetAddress rw \<noteq> [] then m\<lparr>md_DestinationHostname := rr_TargetAddress rw\<rparr> else m);
          m = (if rr_TargetPort rw > 0 then m\<lparr>md_DestinationPort := rr_TargetPort rw\<rparr> else m)
      in case (rr_Minecraft rw, md_Minecraft m) of
           (Some r, Some mc) \<Rightarrow>
             let mc = (if rw_Hostname r \<noteq> [] then mc\<lparr>mm_RewrittenDestination := rw_Hostname r\<rparr> else mc);
                 mc = (if rw_Port r > 0 then mc\<lparr>mm_RewrittenPort := rw_Port r\<rparr> else mc);
                 mc = (if sint (rw_Intent r) > 0 then mc\<lparr>mm_NextState := rw_Intent r\<rparr> else mc)
             in m\<lparr>md_Minecraft := Some mc\<rparr>
         | _ \<Rightarrow> m)"

text \<open>
  The loop over the rules: a matching rule sniffs, rewrites and may name the outbound, which ends the
  loop. The result is the outbound, or an outbound that was not found (\<open>Inl\<close>).
\<close>

fun rule_loop ::
  "'s reader \<Rightarrow> bytes \<Rightarrow> ('ip, 'c) rule_env \<Rightarrow> ('s, 'ip, 'c) router \<Rightarrow> ('ip, 'c) rule list \<Rightarrow> 's cconn \<Rightarrow> metadata \<Rightarrow>
   ((go_error + outbound_ref) \<times> 's cconn \<times> metadata) option" where
  "rule_loop rd fresh renv rt [] c m = Some (Inr (rt_defaultOutbound rt), c, m)"
| "rule_loop rd fresh renv rt (rule # rules) c m = do {
     (match, m) \<leftarrow> rule_Match renv rule m;
     if match then do {
       let rc = rule_Config rule;
       (c, m) \<leftarrow> (if rc_Sniff rc \<noteq> [] then protocol_Sniff rd fresh (rt_snifferRegistry rt) (rc_Sniff rc) c m
                  else Some (c, m));
       let m = apply_rewrite (rc_Rewrite rc) m;
       if rc_Outbound rc \<noteq> []
       then Some (findOutboundByName (rt_outboundMap rt) (rc_Outbound rc), c, m)
       else rule_loop rd fresh renv rt rules c m
     }
     else rule_loop rd fresh renv rt rules c m
   }"

datatype route_event =
    RtRLock | RtRUnlock | RtCloseConn | RtCloseCached
  | RtInject outbound_ref | RtDial outbound_ref string | RtRelay

record ('s, 'w, 'a, 'b) handled =
  hd_events :: "route_event list"
  hd_client :: "'s cconn"
  hd_out :: 'w
  hd_server :: "('a, 'b) conn option"
  hd_meta :: metadata
  hd_injected :: "('s, 'w, 'a, 'b) injected option"

text \<open>\<open>InjectConnection\<close> of the outbounds that have it; the others are plain outbounds (\<open>None\<close>).\<close>

definition reject_InjectConnection ::
  "'s cconn \<Rightarrow> 'w \<Rightarrow> metadata \<Rightarrow> ('s, 'w, 'a, 'b) injected option" where
  "reject_InjectConnection c w m = returns None [EvCloseClient] (cc_Release c) w None m"

definition reset_InjectConnection ::
  "('s, 'w, 'a, 'b) mc_env \<Rightarrow> 's cconn \<Rightarrow> 'w \<Rightarrow> metadata \<Rightarrow> ('s, 'w, 'a, 'b) injected option" where
  "reset_InjectConnection env c w m =
     returns None ((if me_tcp env then [EvLinger 0] else []) @ [EvCloseClient]) (cc_Release c) w None m"

definition inject_ref ::
  "('s, 'w, 'a, 'b) mc_env \<Rightarrow> outbound_ref \<Rightarrow> 's cconn \<Rightarrow> 'w \<Rightarrow> metadata \<Rightarrow> ('s, 'w, 'a, 'b) injected option option" where
  "inject_ref env ref c w m =
     (case ref of
        RefReject \<Rightarrow> Some (reject_InjectConnection c w m)
      | RefReset \<Rightarrow> Some (reset_InjectConnection env c w m)
      | RefDefault st \<Rightarrow> None
      | RefNamed nm \<Rightarrow>
          (case me_outbounds env nm of
             Some (McOutbound st) \<Rightarrow> Some (InjectConnection env st c w m)
           | _ \<Rightarrow> None))"

definition plain_ref :: "('s, 'w, 'a, 'b) mc_env \<Rightarrow> outbound_ref \<Rightarrow> outbound_state option" where
  "plain_ref env ref =
     (case ref of
        RefDefault st \<Rightarrow> Some st
      | RefNamed nm \<Rightarrow> (case me_outbounds env nm of Some (Plain st) \<Rightarrow> Some st | _ \<Rightarrow> None)
      | _ \<Rightarrow> None)"

text \<open>
  After the loop. When dialling fails the error is logged and the relay is started all the same, with
  a nil connection. The address a plain outbound is called with is not used by it.
\<close>

definition route_dispatch ::
  "('s, 'w, 'a, 'b) mc_env \<Rightarrow> outbound_ref \<Rightarrow> 's cconn \<Rightarrow> 'w \<Rightarrow> metadata \<Rightarrow> ('s, 'w, 'a, 'b) handled option" where
  "route_dispatch env ref c w m =
     (case inject_ref env ref c w m of
        Some r \<Rightarrow> do {
          i \<leftarrow> r;
          Some \<lparr>hd_events = [RtRLock, RtRUnlock, RtInject ref, RtCloseCached], hd_client = cc_Release (in_client i),
                hd_out = in_out i, hd_server = in_server i, hd_meta = in_meta i,
                hd_injected = Some i\<rparr>
        }
      | None \<Rightarrow>
          if md_DestinationHostname m \<noteq> [] \<and> md_DestinationPort m > 0 then do {
            st \<leftarrow> plain_ref env ref;
            r \<leftarrow> plain_DialContextWithMetadata (me_dial env) (me_outbounds env) st ''tcp'' m;
            (err, remote, s, w) \<leftarrow> CopyConn (de_Read (me_dial env)) (de_Write (me_dial env)) (me_Read env) (me_Write env)
              (me_copybuf env) (me_copybuf env) (case r of Inl e \<Rightarrow> None | Inr conn \<Rightarrow> Some conn) c w;
            Some \<lparr>hd_events = [RtRLock, RtDial ref (host_port (md_DestinationHostname m) (md_DestinationPort m)),
                     RtRUnlock, RtRelay, RtCloseCached],
                  hd_client = NewCachedConn s, hd_out = w, hd_server = Some remote, hd_meta = m,
                  hd_injected = None\<rparr>
          }
          else Some \<lparr>hd_events = [RtRLock, RtCloseCached, RtRUnlock], hd_client = cc_Release c, hd_out = w,
                     hd_server = None, hd_meta = m, hd_injected = None\<rparr>)"

text \<open>\<open>HandleConnection\<close>; a connection that is not cached yet has an empty cache.\<close>

definition Router_HandleConnection ::
  "('ip, 'c) rule_env \<Rightarrow> ('s, 'w, 'a, 'b) mc_env \<Rightarrow> ('s, 'ip, 'c) router \<Rightarrow> 's cconn \<Rightarrow> 'w \<Rightarrow> metadata \<Rightarrow>
   ('s, 'w, 'a, 'b) handled option" where
  "Router_HandleConnection renv env rt c w m = do {
     (r, c, m) \<leftarrow> rule_loop (me_Read env) (me_fresh env) renv rt (rt_rules rt) c m;
     (case r of
        Inl e \<Rightarrow> Some \<lparr>hd_events = [RtRLock, RtCloseConn, RtRUnlock], hd_client = c, hd_out = w, hd_server = None, hd_meta = m,
                    hd_injected = None\<rparr>
      | Inr ref \<Rightarrow> route_dispatch env ref c w m)
   }"

end
