(* ===== verification/Service.thy ===== *)
theory Service
  imports Router
begin

text \<open>
  A service (service/service.go): its listeners, its reloads, and what it does with a connection it has
  accepted before the router or the legacy Minecraft outbound gets it.

  Listening and accepting belong to the operating system: the results of listening are arguments, an
  accepted connection is its remote address, whether it is TCP, and its two sides.
\<close>

section \<open>State\<close>

record service =
  sv_config :: service_config
  sv_tcpListener :: bool
  sv_udpListener :: bool
  sv_legacyOutbound :: "outbound_state option"
  sv_listenAddress :: string
  sv_ipAccessLists :: "string_set list option"
  sv_authSecret :: bytes
  sv_started :: bool

definition NewService :: "service_config \<Rightarrow> service" where
  "NewService c =
     \<lparr>sv_config = c, sv_tcpListener = False, sv_udpListener = False, sv_legacyOutbound = None,
      sv_listenAddress = CHR '':'' # dec (unat (sv_Listen c)), sv_ipAccessLists = None, sv_authSecret = [],
      sv_started = False\<rparr>"

definition sv_SetAuthSecret :: "string \<Rightarrow> service \<Rightarrow> service" where
  "sv_SetAuthSecret secret s =
     s\<lparr>sv_authSecret := (case auth_Normalize secret of Inl _ \<Rightarrow> [] | Inr b \<Rightarrow> b)\<rparr>"

section \<open>Starting and stopping\<close>

definition legacy_config :: "service_config \<Rightarrow> outbound_config" where
  "legacy_config c =
     zero_outbound_config\<lparr>ob_Name := ''legacy-'' @ sv_Name c, ob_TargetAddress := sv_TargetAddress c,
       ob_TargetPort := sv_TargetPort c, ob_Minecraft := sv_Minecraft c,
       ob_SocketOptions := ConvertLegacyOutboundOptions (sv_SocketOptions c)\<rparr>"

text \<open>The legacy outbound that a Minecraft section in the service asks for.\<close>

definition start_legacy ::
  "string \<Rightarrow> (nat \<Rightarrow> bytes) \<Rightarrow> (string \<Rightarrow> int option) \<Rightarrow> provider \<Rightarrow> service \<Rightarrow> (go_error option \<times> service) option" where
  "start_legacy defaultMOTD rnd ParseDuration pv s =
     (if sv_Minecraft (sv_config s) = None then Some (None, s)
      else (case mc_PostInitialize defaultMOTD rnd ParseDuration pv (new_outbound_state (legacy_config (sv_config s))) of
              None \<Rightarrow> None
            | Some (err, st) \<Rightarrow>
                Some (map_option (Cause ''post initialize legacy Minecraft outbound: '') err,
                      s\<lparr>sv_legacyOutbound := Some st,
                        sv_config := (sv_config s)\<lparr>sv_Minecraft := ob_Minecraft (os_config st)\<rparr>\<rparr>)))"

text \<open>Opening the listeners; \<open>tcpErr\<close> and \<open>udpErr\<close> are what the system answers.\<close>

definition start_listeners :: "go_error option \<Rightarrow> go_error option \<Rightarrow> service \<Rightarrow> go_error option \<times> service" where
  "start_listeners tcpErr udpErr s =
     (let c = sv_config s; enableTCP = TCPEnabled c; enableUDP = UDPEnabled c in
      if \<not> enableTCP \<and> \<not> enableUDP then (Some (ErrText ''service: neither TCP nor UDP inbound enabled''), s)
      else if sv_EnableUDP c \<and> sv_ListenUDP c = 0 then (Some (ErrText ''service: EnableUDP requires ListenUDP > 0''), s)
      else if enableTCP \<and> tcpErr \<noteq> None then (map_option (Cause ''start TCP listening: '') tcpErr, s)
      else
        let s = (if enableTCP then s\<lparr>sv_tcpListener := True\<rparr> else s) in
        if enableUDP \<and> udpErr \<noteq> None
        then (map_option (Cause ''start UDP tunnel listening: '') udpErr, s\<lparr>sv_tcpListener := False\<rparr>)
        else (None, (if enableUDP then s\<lparr>sv_udpListener := True\<rparr> else s)\<lparr>sv_started := True\<rparr>))"

definition sv_Start ::
  "string \<Rightarrow> (nat \<Rightarrow> bytes) \<Rightarrow> (string \<Rightarrow> int option) \<Rightarrow> provider \<Rightarrow> go_error option \<Rightarrow> go_error option \<Rightarrow> service \<Rightarrow>
   (go_error option \<times> service) option" where
  "sv_Start defaultMOTD rnd ParseDuration pv tcpErr udpErr s =
     (if sv_Minecraft (sv_config s) \<noteq> None \<and> sv_TLSSniffing (sv_config s) \<noteq> None
      then Some (Some (ErrText ''Minecraft and TLSSniffing are mutually exclusive in legacy mode''), s)
      else do {
        (err, s) \<leftarrow> start_legacy defaultMOTD rnd ParseDuration pv s;
        (case err of
           Some e \<Rightarrow> Some (Some e, s)
         | None \<Rightarrow>
             if ac_Mode (sv_IPAccess (sv_config s)) \<noteq> DefaultMode then
               (case pv_FindListsByTag pv (ac_ListTags (sv_IPAccess (sv_config s))) of
                  Inl e \<Rightarrow> Some (Some (Cause ''load access control lists: '' e), s\<lparr>sv_ipAccessLists := None\<rparr>)
                | Inr ls \<Rightarrow> Some (start_listeners tcpErr udpErr (s\<lparr>sv_ipAccessLists := Some ls\<rparr>)))
             else Some (start_listeners tcpErr udpErr s))
      })"

text \<open>
  \<open>Close\<close>, with what closing the two listeners gives: an error, or, for the tunnel's listener, a call
  that never returns (\<open>Listener_Close\<close> in theory Listener).
\<close>

definition sv_Close :: "go_error option \<Rightarrow> go_error option outcome \<Rightarrow> service \<Rightarrow> (go_error option \<times> service) outcome" where
  "sv_Close tcpClose udpClose s =
     (if \<not> sv_started s \<and> \<not> sv_tcpListener s \<and> \<not> sv_udpListener s then Returns (Some ErrOsClosed, s)
      else
        let err = (if sv_tcpListener s then tcpClose else None); s = s\<lparr>sv_tcpListener := False\<rparr> in
        if sv_udpListener s then
          (case udpClose of
             Blocks \<Rightarrow> Blocks
           | Returns e \<Rightarrow> Returns (if err = None then e else err, s\<lparr>sv_udpListener := False, sv_started := False\<rparr>))
        else Returns (err, s\<lparr>sv_started := False\<rparr>))"

text \<open>\<open>Reload\<close> ignores the error of \<open>Close\<close> and does not return when that does not.\<close>

definition sv_Reload ::
  "go_error option \<Rightarrow> go_error option outcome \<Rightarrow> string \<Rightarrow> (nat \<Rightarrow> bytes) \<Rightarrow> (string \<Rightarrow> int option) \<Rightarrow> provider \<Rightarrow>
   go_error option \<Rightarrow> go_error option \<Rightarrow> service_config \<Rightarrow> service \<Rightarrow> (go_error option \<times> service) outcome option" where
  "sv_Reload tcpClose udpClose defaultMOTD rnd ParseDuration pv tcpErr udpErr c s =
     (if \<not> sv_started s then Some (Returns (Some ErrOsClosed, s))
      else
        (case sv_Close tcpClose udpClose s of
           Blocks \<Rightarrow> Some Blocks
         | Returns (_, s) \<Rightarrow>
             let s = s\<lparr>sv_listenAddress := CHR '':'' # dec (unat (sv_Listen c)), sv_config := c,
                       sv_legacyOutbound := None, sv_ipAccessLists := None\<rparr>
             in map_option Returns (sv_Start defaultMOTD rnd ParseDuration pv tcpErr udpErr s)))"

section \<open>An accepted connection\<close>

text \<open>
  \<open>listenTCPLoop\<close> over the results of \<open>AcceptTCP\<close>: each connection is handed to \<open>handleInbound\<close> in a
  goroutine of its own, the first error of any kind ends the loop. The flag says that it still runs.
\<close>

fun listenTCPLoop :: "(go_error + 'c) list \<Rightarrow> 'c list \<times> bool" where
  "listenTCPLoop [] = ([], True)"
| "listenTCPLoop (Inl e # rs) = ([], False)"
| "listenTCPLoop (Inr conn # rs) = (let (conns, running) = listenTCPLoop rs in (conn # conns, running))"

lemma listenTCPLoop_error: "listenTCPLoop (map Inr conns @ Inl e # rs) = (conns, False)"
  by (induction conns) simp_all

datatype remote_addr = RemoteTCP bytes nat | RemoteUDP bytes nat | RemoteOther string

text \<open>\<open>net.IP.String\<close>.\<close>

definition hex_string :: "bytes \<Rightarrow> string" where
  "hex_string bs = concat (map (\<lambda>b. [hex_char (unat (drop_bit 4 b)), hex_char (unat (b AND 0x0F))]) bs)"

definition net_IP_String :: "bytes \<Rightarrow> string" where
  "net_IP_String ip =
     (if ip = [] then ''<nil>''
      else (case IP_To4 ip of
              Some v4 \<Rightarrow> string4 v4
            | None \<Rightarrow> if length ip = 16 then Addr_String (AddrFrom16 ip) else CHR ''?'' # hex_string ip))"

definition remote_ip :: "remote_addr \<Rightarrow> string" where
  "remote_ip r = (case r of RemoteTCP ip _ \<Rightarrow> net_IP_String ip | RemoteUDP ip _ \<Rightarrow> net_IP_String ip | RemoteOther s \<Rightarrow> s)"

text \<open>\<open>MustOK(netip.AddrFromSlice(ip)).Unmap()\<close> panics when the slice is no address.\<close>

definition remote_source :: "remote_addr \<Rightarrow> addr_port option" where
  "remote_source r =
     (case r of
        RemoteTCP ip port \<Rightarrow> map_option (\<lambda>a. AddrPortFrom (Addr_Unmap a) (of_nat port)) (AddrFromSlice ip)
      | RemoteUDP ip port \<Rightarrow> map_option (\<lambda>a. AddrPortFrom (Addr_Unmap a) (of_nat port)) (AddrFromSlice ip)
      | RemoteOther _ \<Rightarrow> Some (AddrPortFrom IPv4Unspecified 0))"

datatype sv_event = SvLinger int | SvClose | SvRouted | SvInjected | SvSniffFailed

text \<open>The checks before any metadata exists; \<open>Inl\<close> is a refusal.\<close>

definition refuse :: "bool \<Rightarrow> sv_event list" where
  "refuse isTCP = (if isTCP then [SvLinger 0] else []) @ [SvClose]"

definition admit ::
  "'s reader \<Rightarrow> int \<Rightarrow> service \<Rightarrow> string \<Rightarrow> 's \<Rightarrow> ((go_error option + unit) \<times> 's) option" where
  "admit rd now s ip conn = do {
     (r, conn) \<leftarrow>
       (if sv_RequireAuthSecret (sv_config s) then
          (if length (sv_authSecret s) = 0 then Some (Inl None, conn)
           else do {
             ((err, _), conn) \<leftarrow> auth_Verify rd now (sv_authSecret s) auth_DefaultTimeout conn;
             Some (case err of Some e \<Rightarrow> Inl (Some e) | None \<Rightarrow> Inr (), conn)
           })
        else Some (Inr (), conn));
     (case r of
        Inl e \<Rightarrow> Some (Inl e, conn)
      | Inr _ \<Rightarrow>
          (case sv_ipAccessLists s of
             None \<Rightarrow> Some (Inr (), conn)
           | Some ls \<Rightarrow> do {
               ok \<leftarrow> access_Check ls (ac_Mode (sv_IPAccess (sv_config s))) ip;
               Some (if ok then Inr () else Inl None, conn)
             }))
   }"

definition inbound_metadata :: "service_config \<Rightarrow> addr_port \<Rightarrow> metadata" where
  "inbound_metadata c srcAddr =
     \<lparr>md_ConnectionID = [], md_ServiceName = sv_Name c, md_SniffedProtocol = 0, md_SourceAddress = srcAddr,
      md_DestinationHostname = sv_TargetAddress c, md_DestinationPort = sv_TargetPort c, md_SRV = None,
      md_Minecraft = None, md_TLS = None\<rparr>"

text \<open>The end of \<open>handleInbound\<close>: the events, the state of the two sides, and what the router did.\<close>

record ('s, 'w, 'a, 'b) inbound =
  ib_events :: "sv_event list"
  ib_client :: "'s cconn"
  ib_out :: 'w
  ib_injected :: "('s, 'w, 'a, 'b) injected option"
  ib_handled :: "('s, 'w, 'a, 'b) handled option"

definition inbound_end where
  "inbound_end events c w = Some \<lparr>ib_events = events, ib_client = c, ib_out = w, ib_injected = None, ib_handled = None\<rparr>"

text \<open>Legacy mode: the cache is released before the outbound gets the connection.\<close>

definition handle_legacy where
  "handle_legacy env st c w m = do {
     (err, c, m) \<leftarrow> SniffClientHandshake (me_Read env) (me_fresh env) c m;
     let c = cc_Release c;
     (case err of
        Some e \<Rightarrow> inbound_end [SvSniffFailed, SvClose] c w
      | None \<Rightarrow> do {
          i \<leftarrow> InjectConnection env st c w m;
          Some \<lparr>ib_events = [SvInjected, SvClose], ib_client = in_client i, ib_out = in_out i, ib_injected = Some i,
                ib_handled = None\<rparr>
        })
   }"

definition handleInbound ::
  "('ip, 'c) rule_env \<Rightarrow> ('s, 'w, 'a, 'b) mc_env \<Rightarrow> nat \<Rightarrow> nat \<Rightarrow> int \<Rightarrow> ('s, 'ip, 'c) router \<Rightarrow> service \<Rightarrow>
   remote_addr \<Rightarrow> 's \<Rightarrow> 'w \<Rightarrow> ('s, 'w, 'a, 'b) inbound option" where
  "handleInbound renv env rnd idColor now rt s remote conn w = do {
     (r, conn) \<leftarrow> admit (me_Read env) now s (remote_ip remote) conn;
     (case r of
        Inl _ \<Rightarrow> inbound_end (refuse (me_tcp env)) (NewCachedConn conn) w
      | Inr _ \<Rightarrow> do {
          srcAddr \<leftarrow> remote_source remote;
          m \<leftarrow> GenerateID rnd idColor (inbound_metadata (sv_config s) srcAddr);
          (r, c, m) \<leftarrow>
            (if sv_EnableProxyProtocol (sv_config s)
             then pp_HandleConnection (me_Read env) (me_fresh env) (NewCachedConn conn) m
             else Some (Inr False, NewCachedConn conn, m));
          (case r of
             Inl e \<Rightarrow> inbound_end [SvClose] (cc_Release c) w
           | Inr _ \<Rightarrow>
               (case sv_legacyOutbound s of
                  Some st \<Rightarrow> handle_legacy env st c w m
                | None \<Rightarrow> do {
                    h \<leftarrow> Router_HandleConnection renv env rt c w m;
                    Some \<lparr>ib_events = [SvRouted], ib_client = hd_client h, ib_out = hd_out h, ib_injected = None,
                          ib_handled = Some h\<rparr>
                  }))
        })
   }"

end
