(* ===== verification/DialFacts.thy ===== *)
theory DialFacts
  imports Outbounds
begin

text \<open>
  When a dial returns. Connections and their input are scripts of segments, so every step of a dial
  returns; dials through other outbounds return exactly when the chain of dialers ends, which nothing
  checks when outbounds are initialized.
\<close>

section \<open>Every step of a dial returns\<close>

definition env_total :: "(net_in, bytes) dial_env \<Rightarrow> bool" where
  "env_total env \<longleftrightarrow> de_Read env = net_Read \<and> de_Write env = stream_writer \<and> de_own env = None \<and>
     buf_wf (de_buf env) \<and> buf_bytes (de_buf env) = [] \<and> 64 \<le> buf_free (de_buf env)"

lemma net_loop_returns:
  "least \<le> cap \<Longrightarrow> \<exists>bs err s'. ReadAtLeast_loop net_Read cap least acc s = Some ((bs, err), s') \<and>
     (err = None \<longrightarrow> least \<le> length bs)"
proof (induction "length s + (cap - length acc)" arbitrary: acc s rule: less_induct)
  case less
  show ?case
  proof (cases "least \<le> length acc")
    case True
    then show ?thesis by (subst ReadAtLeast_loop.simps) auto
  next
    case False
    then have room: "0 < cap - length acc" using less.prems by linarith
    show ?thesis
    proof (cases s)
      case Nil
      then show ?thesis using False by (subst ReadAtLeast_loop.simps) simp
    next
      case (Cons e r)
      show ?thesis
      proof (cases e)
        case (Fail x)
        then show ?thesis using False Cons by (subst ReadAtLeast_loop.simps) simp
      next
        case (Chunk c)
        have step: "ReadAtLeast_loop net_Read cap least acc s =
            (if length c \<le> cap - length acc then ReadAtLeast_loop net_Read cap least (acc @ c) r
             else ReadAtLeast_loop net_Read cap least (acc @ take (cap - length acc) c) (Chunk (drop (cap - length acc) c) # r))"
          using False room Cons Chunk by (subst ReadAtLeast_loop.simps) simp
        show ?thesis
        proof (cases "length c \<le> cap - length acc")
          case True
          then show ?thesis
            using less.hyps [of r "acc @ c"] less.prems Cons step by simp
        next
          case False
          then show ?thesis
            using less.hyps [of "Chunk (drop (cap - length acc) c) # r" "acc @ take (cap - length acc) c"]
              less.prems Cons step room by simp
        qed
      qed
    qed
  qed
qed

lemma rw_ReadBytes_returns:
  "\<exists>bs err s'. rw_ReadBytes net_Read n s = Some ((bs, err), s') \<and> (err = None \<longrightarrow> n \<le> length bs)"
proof -
  obtain bs err s' where "ReadAtLeast_loop net_Read n n [] s = Some ((bs, err), s')" "err = None \<longrightarrow> n \<le> length bs"
    using net_loop_returns [of n n "[]" s] by auto
  then show ?thesis by (cases err) (auto simp: rw_ReadBytes_def ReadFull_def ReadAtLeast_def)
qed

lemma net_Read_returns: "\<exists>bs err s'. net_Read n s = Some ((bs, err), s') \<and> length bs \<le> n"
  by (cases "(n, s)" rule: net_Read.cases) auto

text \<open>The sub-routines of a handshake return when what follows them does.\<close>

definition returns :: "'a option \<Rightarrow> bool" where "returns x \<longleftrightarrow> x \<noteq> None"

named_theorems returning

lemma returns_Some [simp, returning]: "returns (Some x)" by (simp add: returns_def)

lemma returns_branch [returning]:
  "(c \<Longrightarrow> returns a) \<Longrightarrow> (\<not> c \<Longrightarrow> returns b) \<Longrightarrow> returns (if c then a else b)"
  "(v = None \<Longrightarrow> returns n) \<Longrightarrow> (\<And>y. v = Some y \<Longrightarrow> returns (f y)) \<Longrightarrow> returns (case v of None \<Rightarrow> n | Some y \<Rightarrow> f y)"
  "(\<And>y. r = Inl y \<Longrightarrow> returns (g y)) \<Longrightarrow> (\<And>y. r = Inr y \<Longrightarrow> returns (h y)) \<Longrightarrow> returns (case r of Inl y \<Rightarrow> g y | Inr y \<Rightarrow> h y)"
  "(\<And>y z. p = (y, z) \<Longrightarrow> returns (q y z)) \<Longrightarrow> returns (case p of (y, z) \<Rightarrow> q y z)"
  by (auto split: option.split sum.split prod.split)

lemma ReadBytes_returning [returning]:
  "(\<And>bs s'. n \<le> length bs \<Longrightarrow> returns (k (bs, None) s')) \<Longrightarrow> (\<And>e s'. returns (k ([], Some e) s')) \<Longrightarrow>
   returns (Option.bind (rw_ReadBytes net_Read n s) (\<lambda>(r, s'). k r s'))"
proof -
  assume k: "\<And>bs s'. n \<le> length bs \<Longrightarrow> returns (k (bs, None) s')" "\<And>e s'. returns (k ([], Some e) s')"
  obtain bs err s' where r: "rw_ReadBytes net_Read n s = Some ((bs, err), s')" "err = None \<longrightarrow> n \<le> length bs"
    using rw_ReadBytes_returns by blast
  have "err = None \<or> bs = []"
    using r(1) by (auto simp: rw_ReadBytes_def bind_eq_Some_conv split: option.splits)
  then show ?thesis using k r by (cases err) auto
qed

lemma read_once_returning [returning]:
  "(\<And>bs s'. returns (k bs s')) \<Longrightarrow> returns (read_once net_Read n s w k)"
  using net_Read_returns [of n s] by (auto simp: read_once_def split: option.split)

lemma send_all_returning [returning]:
  assumes "\<And>w. returns (k w)"
  shows "returns (send_all stream_writer bss s w k)"
proof -
  have "\<exists>w'. write_buffers stream_writer bss w = Some (None, w')" for w
    by (induction bss arbitrary: w) (auto simp: stream_writer_def)
  then obtain w' where "write_buffers stream_writer bss w = Some (None, w')" by blast
  then show ?thesis using assms by (simp add: send_all_def)
qed

lemma handleResponse4_returns [returning]: "returns (handleResponse4 net_Read s w)"
  unfolding handleResponse4_def
  by (rule ReadBytes_returning) (auto simp: go_index_def intro!: ReadBytes_returning)

lemma reply_port_returns [returning]: "returns (reply_port net_Read s w)"
  unfolding reply_port_def using rw_ReadBytes_returns [of 2 s] by auto

lemma rw_ReadByte_returns: "\<exists>b err s'. rw_ReadByte None net_Read s = Some ((b, err), s')"
proof -
  obtain bs err s' where "ReadAtLeast_loop net_Read 1 1 [] s = Some ((bs, err), s')"
    using net_loop_returns [of 1 1 "[]" s] by auto
  then show ?thesis by (auto simp: rw_ReadByte_def ReadFull_def ReadAtLeast_def)
qed

lemma read_reply5_returns [returning]: "returns (read_reply5 None net_Read greeted s w)"
  unfolding read_reply5_def
proof (rule read_once_returning, goal_cases)
  case (1 reply s)
  obtain l err s' where "rw_ReadByte None net_Read s = Some ((l, err), s')" using rw_ReadByte_returns by blast
  then show ?case by (cases err) (auto intro!: returning)
qed

lemma request4_returns [returning]: "returns (request4 net_Read stream_writer c port a s w)"
  unfolding request4_def by (intro returning)

lemma socks_Handshake_returns [returning]:
  "returns (socks_Handshake LookupIP None net_Read stream_writer c address s w)"
  unfolding socks_Handshake_def handshake5_def handshake4A_def handshake4_def Let_def
  by (intro returning)

section \<open>The preamble\<close>

text \<open>Writes into a well-formed buffer return and keep it well formed, however much fits.\<close>

lemma Buffer_write_returns:
  assumes "buf_wf b"
  shows "\<exists>r b'. Buffer_Write b xs = Some (r, b') \<and> buf_wf b'"
    "\<exists>r b'. Buffer_WriteString b t = Some (r, b') \<and> buf_wf b'"
    "\<exists>r b'. Buffer_WriteByte b d = Some (r, b') \<and> buf_wf b'"
proof -
  have w: "\<exists>r b'. Buffer_Write b xs = Some (r, b') \<and> buf_wf b'" for xs
    using buf_append(1) [OF assms, of "take (buf_free b) xs"] assms by (simp add: Buffer_Write_wf)
  then show "\<exists>r b'. Buffer_Write b xs = Some (r, b') \<and> buf_wf b'"
    "\<exists>r b'. Buffer_WriteString b t = Some (r, b') \<and> buf_wf b'"
    by (simp_all add: WriteString_is_Write)
  show "\<exists>r b'. Buffer_WriteByte b d = Some (r, b') \<and> buf_wf b'"
  proof (cases "buf_free b = 0")
    case True
    then show ?thesis using assms by (simp add: Buffer_WriteByte_def Buffer_IsFull_free)
  next
    case False
    then show ?thesis using Buffer_WriteByte_fits [OF assms] buf_append(1) [OF assms, of "[d]"] by simp
  qed
qed

lemma buffer_returning [returning]:
  assumes "buf_wf b" "\<And>r b'. buf_wf b' \<Longrightarrow> returns (k r b')"
  shows "returns (Option.bind (Buffer_Write b xs) (\<lambda>(r, b). k r b))"
    "returns (Option.bind (Buffer_WriteString b t) (\<lambda>(r, b). k r b))"
  using Buffer_write_returns(1) [OF assms(1), of xs] Buffer_write_returns(2) [OF assms(1), of t] assms(2) by auto

lemma byte_returning [returning]:
  assumes "buf_wf b" "\<And>r b'. buf_wf b' \<Longrightarrow> returns (k r b')"
  shows "returns (Option.bind (Buffer_WriteByte b d) (\<lambda>(r, b). k r b))"
  using Buffer_write_returns(3) [OF assms(1), of d] assms(2) by auto

lemma send_header_returns [returning]: "buf_wf b \<Longrightarrow> returns (send_header cause stream_writer b w)"
  by (simp add: send_header_def stream_writer_def)

lemma writeHeader1_returns: "buf_wf b \<Longrightarrow> returns (writeHeader1 stream_writer b h destination w)"
  unfolding writeHeader1_def Let_def
  by (intro returning; assumption)

lemma put_addresses_returns:
  assumes "buf_wf b" "buf_bytes b = []" "length xs + 42 \<le> buf_free b"
  shows "returns (do { b \<leftarrow> put_addresses (Buffer_absorb b xs) len source destination; send_header cause stream_writer b w })"
proof -
  have l: "length (Addr_AsSlice a) \<le> 16" for a by (cases a) auto
  have "length (v2_addresses source destination) \<le> 36"
    using l [of "ap_addr source"] l [of "ap_addr destination"] by (simp add: v2_addresses_def)
  then have "put_addresses (Buffer_absorb b xs) len source destination =
      Some (Buffer_absorb b (xs @ be_bytes 2 len @ v2_addresses source destination))"
    using assms by (intro put_addresses_bytes) auto
  moreover have "length (xs @ be_bytes 2 len @ v2_addresses source destination) \<le> buf_free b"
    using assms(3) \<open>length (v2_addresses source destination) \<le> 36\<close> by simp
  ultimately show ?thesis using send_header_bytes [OF assms(1,2)] by simp
qed

lemma writeHeader2_returns:
  assumes "buf_wf b" "buf_bytes b = []" "64 \<le> buf_free b"
  shows "returns (writeHeader2 stream_writer b h destination w)"
proof -
  have l0: "length headerIdentityV2 \<le> buf_free b" "length headerIdentityV2 = 12"
    using assms(3) by (simp_all add: headerIdentityV2_def)
  let ?x = "push_bit 4 (h_Version h) OR h_Command h" and ?y = "h_TransportProtocol h"
  let ?xs = "headerIdentityV2 @ [?x] @ [?y]"
  note start = Buffer_Write_fits [OF assms(1) l0(1)]
  have bytes: "Buffer_WriteByte (Buffer_absorb b headerIdentityV2) ?x = Some (None, Buffer_absorb b (headerIdentityV2 @ [?x]))"
    "Buffer_WriteByte (Buffer_absorb b (headerIdentityV2 @ [?x])) ?y = Some (None, Buffer_absorb b ?xs)"
    using append_next(3) [OF assms(1)] l0 assms(3) by simp_all
  obtain b' bs where z: "Buffer_WriteZeroN (Buffer_absorb b ?xs) 2 = Some (None, b')" "Buffer_Bytes b' = Some bs"
    using WriteZeroN_2 [OF assms(1), of ?xs] l0 assms(3) by auto
  have zero: "returns (Option.bind (Buffer_WriteZeroN (Buffer_absorb b ?xs) 2) (\<lambda>(_, b). send_header cause stream_writer b w))"
    for cause using z by (simp add: send_header_def stream_writer_def)
  have put: "returns (do { b \<leftarrow> put_addresses (Buffer_absorb b ?xs) len source destination; send_header cause stream_writer b w })"
    for len source destination cause using put_addresses_returns [OF assms(1,2), of ?xs] l0 assms(3) by simp
  show ?thesis
    unfolding writeHeader2_def Let_def start bind.bind_lunit case_prod_conv bytes
    by (intro returns_branch zero put returns_Some)
qed

lemma send_preamble_returns:
  assumes "env_total env"
  shows "returns (send_preamble env st transport m r)"
proof -
  have e: "de_Write env = stream_writer" "buf_wf (de_buf env)" "buf_bytes (de_buf env) = []" "64 \<le> buf_free (de_buf env)"
    using assms by (simp_all add: env_total_def)
  have w: "returns (WriteHeader stream_writer (de_buf env) h local w)" for h local w
    unfolding WriteHeader_def by (intro returning writeHeader1_returns writeHeader2_returns e)
  have a: "returns (auth_Write stream_writer secret w)" for secret w
    unfolding auth_Write_def stream_writer_def by simp
  have bind: "returns (Option.bind x f)" if "returns x" "\<And>y. returns (f y)" for x :: "'x option" and f :: "'x \<Rightarrow> 'y option"
    using that by (cases x) (auto simp: returns_def)
  have h: "returns (send_proxy_header env c transport m conn)" for c conn
    unfolding send_proxy_header_def e by (intro bind returning w)
  have s: "returns (send_secret env st conn)" for conn
    unfolding send_secret_def e by (intro bind returning a)
  show ?thesis unfolding send_preamble_def by (intro bind returning s h)
qed

section \<open>Chains of dialers\<close>

text \<open>
  Whether the chain of dialers behind a dialer ends. With metadata (\<open>meta\<close>) an outbound whose
  path is UDP dials its tunnel and leaves its dialer alone; a SOCKS client dials its server without.
\<close>

inductive grounded :: "(string \<Rightarrow> outbound option) \<Rightarrow> bool \<Rightarrow> dialer \<Rightarrow> bool" for ob where
  system: "grounded ob meta (SystemDialer opts)"
| socks: "grounded ob False d \<Longrightarrow> grounded ob meta (SocksDialer d c)"
| refused: "\<forall>st. dialed_outbound ob nm \<noteq> Some (Plain st) \<Longrightarrow> grounded ob meta (OutboundDialer nm)"
| tunnel: "dialed_outbound ob nm = Some (Plain st) \<Longrightarrow> meta \<Longrightarrow> current_mode st = ModeUDP \<Longrightarrow> grounded ob meta (OutboundDialer nm)"
| nested: "dialed_outbound ob nm = Some (Plain st) \<Longrightarrow> meta \<longrightarrow> current_mode st \<noteq> ModeUDP \<Longrightarrow> os_dialer st = Some d \<Longrightarrow>
    grounded ob meta d \<Longrightarrow> grounded ob meta (OutboundDialer nm)"

inductive_simps grounded_simps:
  "grounded ob meta (SystemDialer opts)" "grounded ob meta (SocksDialer d c)" "grounded ob meta (OutboundDialer nm)"

lemma dial_target_cases:
  "current_mode st = ModeUDP \<Longrightarrow> (\<exists>e. dial_target st m = Inl e) \<or> (\<exists>a. dial_target st m = Inr (TunnelTarget a))"
  "current_mode st \<noteq> ModeUDP \<Longrightarrow> \<exists>a. dial_target st m = Inr (DialerTarget a)"
  by (auto simp: dial_target_def Let_def)

lemma grounded_dial_returns:
  assumes "env_total env"
  shows "grounded ob meta d \<Longrightarrow> \<exists>r. dial env ob meta d network address m = Some r"
proof (induction arbitrary: network address rule: grounded.induct)
  case (system meta opts)
  then show ?case by (subst dial.simps) simp
next
  case (socks d meta c)
  obtain r where r: "dial env ob False d (sk_Network c) (sk_Address c) m = Some r" using socks.IH by blast
  show ?case
  proof (cases r)
    case (Inr sw)
    obtain s w where sw: "sw = (s, w)" by (cases sw)
    have "returns (socks_Handshake (de_LookupIP env) (de_own env) (de_Read env) (de_Write env) c address s w)"
      using assms socks_Handshake_returns by (simp add: env_total_def)
    then show ?thesis using r Inr sw by (subst dial.simps) (auto simp: returns_def)
  qed (use r in \<open>subst dial.simps, simp\<close>)
next
  case (refused nm meta)
  then show ?case by (subst dial.simps) (auto split: option.split outbound.split)
next
  case (tunnel nm st meta)
  from dial_target_cases(1) [OF tunnel(3), of m] show ?case
    using tunnel send_preamble_returns [OF assms, of st "TransportProtocolByNetwork network" m]
    by (subst dial.simps) (auto simp: returns_def)
next
  case (nested nm st meta d)
  show ?case
  proof (cases meta)
    case True
    then obtain a where a: "dial_target st m = Inr (DialerTarget a)" using nested.hyps(2) dial_target_cases(2) by blast
    obtain r where "dial env ob True d ''tcp'' a m = Some r" using nested.IH True by auto
    moreover obtain r' where "send_preamble env st (TransportProtocolByNetwork network) m r = Some r'"
      using send_preamble_returns [OF assms, of st "TransportProtocolByNetwork network" m r] by (auto simp: returns_def)
    ultimately show ?thesis using nested.hyps True a by (subst dial.simps) simp
  next
    case False
    then show ?thesis using nested.hyps nested.IH by (subst dial.simps) simp
  qed
qed

lemma dial_returns_grounded:
  assumes "dial env ob meta d network address m = Some r"
  shows "grounded ob meta d"
  using assms
proof (rule dial.raw_induct [rotated, where P = "\<lambda>env ob meta d network address m r. grounded ob meta d"], goal_cases)
  case (1 dial' env ob meta d network address m r)
  show ?case
  proof (cases d)
    case (OutboundDialer nm)
    show ?thesis
    proof (cases "\<exists>st. dialed_outbound ob nm = Some (Plain st)")
      case True
      then obtain st where st: "dialed_outbound ob nm = Some (Plain st)" by blast
      show ?thesis
      proof (cases "meta \<and> current_mode st = ModeUDP")
        case True
        then show ?thesis using st OutboundDialer by (auto intro: grounded.tunnel)
      next
        case False
        then obtain a where "meta \<Longrightarrow> dial_target st m = Inr (DialerTarget a)" using dial_target_cases(2) by blast
        then show ?thesis
          using 1 False st OutboundDialer
          by (auto simp: bind_eq_Some_conv intro!: grounded.nested split: if_splits)
      qed
    qed (use OutboundDialer in \<open>auto intro: grounded.refused\<close>)
  qed (use 1 in \<open>auto simp: bind_eq_Some_conv intro: grounded.intros\<close>)
qed

text \<open>(C19)
  Dialling terminates exactly when the chain of dialers ends: over connections that deliver any
  scripts of segments and failures, a dial returns (a connection or an error) if and only if following
  the dialers of outbounds, and of SOCKS clients to their servers, reaches the system's dialer, a
  tunnel, or an outbound that cannot be dialled through; an outbound without a dialer is a panic.
\<close>

theorem dial_returns_iff:
  assumes "env_total env"
  shows "(\<exists>r. dial env ob meta d network address m = Some r) \<longleftrightarrow> grounded ob meta d"
  using grounded_dial_returns [OF assms] dial_returns_grounded by blast

text \<open>An outbound behind a SOCKS server that another outbound reaches, and two that dial through each other.\<close>

definition chain_config :: "string \<Rightarrow> outbound_config" where
  "chain_config next_hop =
     \<lparr>ob_Name = ''hop'', ob_Dialer = next_hop, ob_TargetAddress = ''10.0.0.2'', ob_TargetPort = 25565, ob_UDPTargetPort = 0,
      ob_Transport = [], ob_DialNetwork = [], ob_TransportProbeInterval = [], ob_Minecraft = None,
      ob_SocketOptions = None, ob_ProxyProtocolVersion = 0,
      ob_ProxyOptions = \<lparr>po_Type = [], po_Network = [], po_Address = []\<rparr>, ob_SendAuthSecret = False\<rparr>"

definition chain_outbounds :: "string \<Rightarrow> outbound option" where
  "chain_outbounds =
     map_of [(''entry'', Plain ((new_outbound_state (chain_config ''hop''))
                \<lparr>os_dialer := Some (SocksDialer (OutboundDialer ''exit'')
                   \<lparr>sk_Version = ''socks5'', sk_Network = ''tcp'', sk_Address = ''10.0.0.9:1080'', sk_Username = [], sk_Password = [], sk_Methods = []\<rparr>)\<rparr>)),
             (''exit'', Plain ((new_outbound_state (chain_config []))\<lparr>os_dialer := Some (SystemDialer None)\<rparr>)),
             (''ping'', Plain ((new_outbound_state (chain_config ''pong''))\<lparr>os_dialer := Some (OutboundDialer ''pong'')\<rparr>)),
             (''pong'', Plain ((new_outbound_state (chain_config ''ping''))\<lparr>os_dialer := Some (OutboundDialer ''ping'')\<rparr>))]"

definition sample_dials :: "(net_in, bytes) dial_env" where
  "sample_dials =
     \<lparr>de_system = (\<lambda>_ _ address. Inr ([Chunk [5, 0], Chunk [5, 0, 0, 1, 10, 0, 0, 2, 99, 221]], [])),
      de_LookupSRV = (\<lambda>_ _ _. []), de_tunnel = (\<lambda>_. Inl ErrOsClosed), de_local = (\<lambda>_. ''10.0.0.1:40000''),
      de_own = None, de_Read = net_Read, de_Write = stream_writer, de_LookupIP = (\<lambda>_. Inr []),
      de_buf = Buffer_With (replicate 128 0) 128\<rparr>"

lemma sample_dials_total: "env_total sample_dials"
  by (simp add: env_total_def sample_dials_def Buffer_With_def buffer_defs)

lemma no_ground:
  assumes "grounded ob meta d" "d \<in> OutboundDialer ` S"
    "\<And>nm. nm \<in> S \<Longrightarrow> \<exists>st. dialed_outbound ob nm = Some (Plain st) \<and> current_mode st \<noteq> ModeUDP \<and> (\<forall>d. os_dialer st = Some d \<longrightarrow> d \<in> OutboundDialer ` S)"
  shows False
  using assms(1,2)
proof induction
  case (nested nm st meta d)
  then show ?case using assms(3) [of nm] by fastforce
qed (use assms(3) in fastforce)+

lemma chain_facts:
  "grounded chain_outbounds True (OutboundDialer ''entry'')"
  "\<not> grounded chain_outbounds True (OutboundDialer ''ping'')"
proof -
  have mode: "ResolvedTransport (chain_config x) \<noteq> ModeUDP" for x
    by (simp add: chain_config_def ResolvedTransport_def NormalizeTransport_def ModeUDP_def)
  then have m: "current_mode ((new_outbound_state (chain_config x))\<lparr>os_dialer := d\<rparr>) \<noteq> ModeUDP" for x d
    by (simp add: current_mode_def new_outbound_state_def)
  show "grounded chain_outbounds True (OutboundDialer ''entry'')"
    using m by (simp add: grounded_simps chain_outbounds_def dialed_outbound_def)
  show "\<not> grounded chain_outbounds True (OutboundDialer ''ping'')"
  proof
    assume g: "grounded chain_outbounds True (OutboundDialer ''ping'')"
    have pp: "dialed_outbound chain_outbounds ''ping'' = Some (Plain ((new_outbound_state (chain_config ''pong''))\<lparr>os_dialer := Some (OutboundDialer ''pong'')\<rparr>))"
      "dialed_outbound chain_outbounds ''pong'' = Some (Plain ((new_outbound_state (chain_config ''ping''))\<lparr>os_dialer := Some (OutboundDialer ''ping'')\<rparr>))"
      by (simp_all add: chain_outbounds_def dialed_outbound_def)
    have "\<exists>st. dialed_outbound chain_outbounds nm = Some (Plain st) \<and> current_mode st \<noteq> ModeUDP \<and>
        (\<forall>d. os_dialer st = Some d \<longrightarrow> d \<in> OutboundDialer ` {''ping'', ''pong''})" if "nm \<in> {''ping'', ''pong''}" for nm
      using that pp m by (elim insertE emptyE) simp_all
    from no_ground [OF g _ this] show False by simp
  qed
qed

theorem dial_returns_iff_witness:
  "\<forall>m. (\<exists>r. dial sample_dials chain_outbounds True (OutboundDialer ''entry'') ''tcp'' ''10.0.0.2:25565'' m = Some r) \<and>
     dial sample_dials chain_outbounds True (OutboundDialer ''ping'') ''tcp'' ''10.0.0.2:25565'' m = None"
proof (intro allI conjI)
  fix m
  show "\<exists>r. dial sample_dials chain_outbounds True (OutboundDialer ''entry'') ''tcp'' ''10.0.0.2:25565'' m = Some r"
    unfolding dial_returns_iff [OF sample_dials_total] by (rule chain_facts(1))
  have "\<not> (\<exists>r. dial sample_dials chain_outbounds True (OutboundDialer ''ping'') ''tcp'' ''10.0.0.2:25565'' m = Some r)"
    unfolding dial_returns_iff [OF sample_dials_total] by (rule chain_facts(2))
  then show "dial sample_dials chain_outbounds True (OutboundDialer ''ping'') ''tcp'' ''10.0.0.2:25565'' m = None" by simp
qed

end
