(* ===== verification/HopFacts.thy ===== *)
theory HopFacts
  imports Service DialFacts McFacts
begin

text \<open>
  Two proxies in a row: what an outbound sends first (the pre-shared key, the PROXY protocol header) is
  what the service of the next hop checks and removes before it handles the connection. And what a
  service never lets through.
\<close>

section \<open>Admission\<close>

text \<open>Over any script of segments and failures, a full read returns only what the stream has.\<close>

lemma net_Read_takes: "net_Read k s = Some ((bs, err), s') \<Longrightarrow> \<exists>cs. net_pending s = bs @ cs \<and> (err = None \<longrightarrow> cs = net_pending s')"
  by (cases "(k, s)" rule: net_Read.cases) (auto split: if_splits)

lemma loop_result:
  assumes "ReadAtLeast_loop net_Read cap least acc s = Some r"
  shows "\<exists>cs rest. fst (fst r) = acc @ cs \<and> net_pending s = cs @ rest"
proof -
  have "rd = net_Read \<longrightarrow> (\<exists>cs rest. fst (fst r) = acc @ cs \<and> net_pending s = cs @ rest)"
    if "ReadAtLeast_loop rd cap least acc s = Some r" for rd
    using that
  proof (rule ReadAtLeast_loop.raw_induct [rotated, where P = "\<lambda>rd cap least acc s r. rd = net_Read \<longrightarrow>
      (\<exists>cs rest. fst (fst r) = acc @ cs \<and> net_pending s = cs @ rest)"], goal_cases)
    case (1 loop rd cap least acc s r)
    show ?case
    proof (cases "least \<le> length acc")
      case False
      show ?thesis
      proof
        assume rd: "rd = net_Read"
        with 1(2) False obtain bs err s1 where r1: "net_Read (cap - length acc) s = Some ((bs, err), s1)"
          "(case err of Some e \<Rightarrow> Some ((acc @ bs, Some e), s1) | None \<Rightarrow> loop rd cap least (acc @ bs) s1) = Some r"
          by (auto simp: bind_eq_Some_conv)
        from net_Read_takes [OF r1(1)] obtain cs where cs: "net_pending s = bs @ cs" "err = None \<longrightarrow> cs = net_pending s1" by blast
        show "\<exists>cs rest. fst (fst r) = acc @ cs \<and> net_pending s = cs @ rest"
        proof (cases err)
          case None
          then have "loop rd cap least (acc @ bs) s1 = Some r" using r1(2) by simp
          from 1(1) [OF this] rd obtain ds rest where "fst (fst r) = (acc @ bs) @ ds" "net_pending s1 = ds @ rest" by blast
          then show ?thesis using cs None by simp
        qed (use r1(2) cs in auto)
      qed
    qed (use 1 in auto)
  qed
  then show ?thesis using assms by blast
qed

lemma auth_Verify_sound:
  assumes "auth_Verify net_Read now secret timeout s = Some ((None, dls), s')"
  shows "secret \<noteq> [] \<and> take (length secret) (net_pending s) = secret"
proof -
  from assms obtain err where r: "ReadFull net_Read (length secret) s = Some ((secret, err), s')" "secret \<noteq> []"
    by (auto simp: auth_Verify_def Let_def bind_eq_Some_conv ConstantTimeCompare_eq ConstantTimeCompare_eq [unfolded One_nat_def]
        split: if_splits option.splits)
  then obtain e where "ReadAtLeast_loop net_Read (length secret) (length secret) [] s = Some ((secret, e), s')"
    by (auto simp: ReadFull_def ReadAtLeast_def bind_eq_Some_conv)
  from loop_result [OF this] show ?thesis using r(2) by auto
qed

text \<open>What a service asks of a connection before anything else is done with it.\<close>

definition passes :: "service \<Rightarrow> string \<Rightarrow> net_in \<Rightarrow> bool" where
  "passes s ip conn \<longleftrightarrow>
     (sv_RequireAuthSecret (sv_config s) \<longrightarrow>
        sv_authSecret s \<noteq> [] \<and> take (length (sv_authSecret s)) (net_pending conn) = sv_authSecret s) \<and>
     (\<forall>ls. sv_ipAccessLists s = Some ls \<longrightarrow> access_Check ls (ac_Mode (sv_IPAccess (sv_config s))) ip = Some True)"

lemma admit_sound: "admit net_Read now s ip conn = Some (Inr u, conn') \<Longrightarrow> passes s ip conn"
  by (auto simp: admit_def passes_def bind_eq_Some_conv split: if_splits option.splits sum.splits dest: auth_Verify_sound)

text \<open>What \<open>handleInbound\<close> does with the connection after the checks: the legacy outbound or the router.\<close>

abbreviation passed_on ::
  "('ip, 'c) rule_env \<Rightarrow> ('s, 'w, 'a, 'b) mc_env \<Rightarrow> ('s, 'ip, 'c) router \<Rightarrow> service \<Rightarrow> 's cconn \<Rightarrow> 'w \<Rightarrow> metadata \<Rightarrow>
   ('s, 'w, 'a, 'b) inbound option" where
  "passed_on renv env rt s c out m \<equiv>
     (case sv_legacyOutbound s of
        Some lo \<Rightarrow> handle_legacy env lo c out m
      | None \<Rightarrow> Option.bind (Router_HandleConnection renv env rt c out m) (\<lambda>h.
          Some \<lparr>ib_events = [SvRouted], ib_client = hd_client h, ib_out = hd_out h, ib_injected = None,
                ib_handled = Some h\<rparr>))"

text \<open>An admitted connection: the PROXY protocol header, then the legacy outbound or the router.\<close>

lemma handleInbound_admitted:
  assumes "admit (me_Read env) now s (remote_ip remote) conn = Some (Inr (), conn')"
    "sv_EnableProxyProtocol (sv_config s) \<longleftrightarrow> v \<noteq> VersionUnspecified"
    "remote_source remote = Some src" "GenerateID rnd idColor (inbound_metadata (sv_config s) src) = Some md"
  shows "handleInbound renv env rnd idColor now rt s remote conn out = (do {
      (r, c, m) \<leftarrow> (if v \<noteq> VersionUnspecified then pp_HandleConnection (me_Read env) (me_fresh env) (NewCachedConn conn') md
           else Some (Inr False, NewCachedConn conn', md));
      (case r of
         Inl e \<Rightarrow> inbound_end [SvClose] (cc_Release c) out
       | Inr _ \<Rightarrow>
           passed_on renv env rt s c out m) })"
  unfolding handleInbound_def assms(1) assms(2) [symmetric] by (simp add: assms(3,4))

context io_reader
begin

text \<open>The preamble over a stream: what an outbound writes, and what the service takes.\<close>

lemma admit_keyed:
  assumes "inv conn" "sv_ipAccessLists s = None" "sv_RequireAuthSecret (sv_config s) \<longrightarrow> key \<noteq> [] \<and> length key \<le> auth_MaxLen"
    "sv_authSecret s = str_bytes key" "pending conn = (if sv_RequireAuthSecret (sv_config s) then str_bytes key else []) @ rest"
  shows "\<exists>conn'. admit rd now s ip conn = Some (Inr (), conn') \<and> pending conn' = rest \<and> inv conn'"
proof (cases "sv_RequireAuthSecret (sv_config s)")
  case True
  with assms have k: "0 < length (str_bytes key)" "length (str_bytes key) \<le> auth_MaxLen"
    "length (str_bytes key) \<le> length (pending conn)" by (auto simp: length_greater_0_conv [symmetric] simp del: length_greater_0_conv)
  from auth_Verify_delivers [OF assms(1) k, of now auth_DefaultTimeout] obtain conn' dls where
    "auth_Verify rd now (str_bytes key) auth_DefaultTimeout conn =
       Some ((if take (length (str_bytes key)) (pending conn) = str_bytes key then None else Some AuthErrMismatch, dls), conn')"
    "pending conn' = drop (length (str_bytes key)) (pending conn)" "inv conn'" by blast
  then show ?thesis using assms True k(1) by (auto simp: admit_def)
qed (use assms in \<open>auto simp: admit_def\<close>)

lemma preamble_sent:
  assumes "de_Write env = stream_writer" "buf_wf (de_buf env)" "buf_bytes (de_buf env) = []" "128 \<le> buf_free (de_buf env)"
    and "ob_SendAuthSecret (os_config st) \<longrightarrow> os_secret st \<noteq> []" "Addr_IsValid (ap_addr (md_SourceAddress m))"
    and ver: "v = ob_ProxyProtocolVersion (os_config st)"
    and proxy: "v \<noteq> VersionUnspecified \<longrightarrow> ParseAddrPort (de_local env (c, w @ (if ob_SendAuthSecret (os_config st) then os_secret st else []))) = Inr local \<and>
      (v = Version1 \<and> AddrPort_IsValid local \<or>
       v = Version2 \<and> (AddrPort_IsValid local \<longrightarrow> Addr_Is4 (ap_addr local) = Addr_Is4 (ap_addr (md_SourceAddress m))))"
    and fresh: "length fresh = CacheSize"
  shows "\<exists>bs. send_preamble env st TransportProtocolStream m (Inr (c, w)) =
        Some (Inr (c, w @ (if ob_SendAuthSecret (os_config st) then os_secret st else []) @ bs)) \<and>
      (\<forall>s rest md. inv s \<longrightarrow> pending s = bs @ rest \<longrightarrow>
        (\<exists>c'. (if v \<noteq> VersionUnspecified then pp_HandleConnection rd fresh (NewCachedConn s) md
               else Some (Inr False, NewCachedConn s, md)) =
              Some (Inr (v \<noteq> VersionUnspecified), c',
                if v \<noteq> VersionUnspecified then md\<lparr>md_SourceAddress := canonical (md_SourceAddress m)\<rparr> else md) \<and>
            cc_ahead pending fresh c' = rest))"
proof -
  let ?k = "if ob_SendAuthSecret (os_config st) then os_secret st else []"
  have secret: "send_secret env st (c, w) = Some (Inr (c, w @ ?k))"
    using assms(1,5) by (auto simp: send_secret_def auth_Write_def stream_writer_def)
  show ?thesis
  proof (cases "v = VersionUnspecified")
    case True
    have "cc_ahead pending fresh (NewCachedConn s) = pending s" for s
      by (simp add: cc_ahead_def cc_buf_def NewCachedConn_def)
    then show ?thesis using True ver secret
      by (intro exI [of _ "[]"]) (simp add: send_preamble_def send_proxy_header_def)
  next
    case False
    then have l: "ParseAddrPort (de_local env (c, w @ ?k)) = Inr local" and
      cond: "v = Version1 \<and> AddrPort_IsValid local \<or>
       v = Version2 \<and> (AddrPort_IsValid local \<longrightarrow> Addr_Is4 (ap_addr local) = Addr_Is4 (ap_addr (md_SourceAddress m)))"
      using proxy by auto
    from header_sent_and_handled [OF assms(2-4,6) cond fresh, of "w @ ?k"] obtain bs where
      wr: "WriteHeader stream_writer (de_buf env) (stream_header v (md_SourceAddress m)) local (w @ ?k) = Some (None, (w @ ?k) @ bs)"
      and rd: "\<And>s rest md. inv s \<Longrightarrow> pending s = bs @ rest \<Longrightarrow> \<exists>c'. pp_HandleConnection rd fresh (NewCachedConn s) md =
            Some (Inr True, c', md\<lparr>md_SourceAddress := canonical (md_SourceAddress m)\<rparr>) \<and> cc_ahead pending fresh c' = rest"
      by blast
    have "TransportProtocolByNetwork ''tcp'' = TransportProtocolStream" by (simp add: TransportProtocolByNetwork_def)
    then have "send_proxy_header env (os_config st) TransportProtocolStream m (c, w @ ?k) = Some (Inr (c, (w @ ?k) @ bs))"
      using False ver l wr assms(1) by (simp add: send_proxy_header_def stream_header_def)
    then show ?thesis using False secret rd by (intro exI [of _ bs]) (simp add: send_preamble_def)
  qed
qed

text \<open>Two hops, from any reader of the stream.\<close>

lemma next_hop:
  assumes env: "de_Write denv = stream_writer" "buf_wf (de_buf denv)" "buf_bytes (de_buf denv) = []" "128 \<le> buf_free (de_buf denv)"
    and key: "key \<noteq> []" "length key \<le> auth_MaxLen" "st = SetAuthSecret key st0" "s = sv_SetAuthSecret key s0"
    and conf: "ob_SendAuthSecret (os_config st) = sv_RequireAuthSecret (sv_config s)" "v = ob_ProxyProtocolVersion (os_config st)"
      "sv_EnableProxyProtocol (sv_config s) \<longleftrightarrow> v \<noteq> VersionUnspecified"
    and proxy: "v \<noteq> VersionUnspecified \<longrightarrow>
      ParseAddrPort (de_local denv (c, w @ (if ob_SendAuthSecret (os_config st) then str_bytes key else []))) = Inr local \<and>
      (v = Version1 \<and> AddrPort_IsValid local \<or>
       v = Version2 \<and> (AddrPort_IsValid local \<longrightarrow> Addr_Is4 (ap_addr local) = Addr_Is4 (ap_addr (md_SourceAddress m))))"
    and client: "Addr_IsValid (ap_addr (md_SourceAddress m))"
    and inb: "me_Read env = rd" "length (me_fresh env) = CacheSize" "sv_ipAccessLists s = None"
      "remote_source remote = Some src" "GenerateID rnd idColor (inbound_metadata (sv_config s) src) = Some md"
    and md': "md' = (if v = VersionUnspecified then md else md\<lparr>md_SourceAddress := canonical (md_SourceAddress m)\<rparr>)"
  shows "\<exists>bs. send_preamble denv st TransportProtocolStream m (Inr (c, w)) = Some (Inr (c, w @ bs)) \<and>
    (\<forall>conn rest. inv conn \<longrightarrow> pending conn = bs @ rest \<longrightarrow>
      (\<exists>c'. cc_ahead pending (me_fresh env) c' = rest \<and>
        handleInbound renv env rnd idColor now rt s remote conn out =
          passed_on renv env rt s c' out md'))"
proof -
  let ?k = "if ob_SendAuthSecret (os_config st) then str_bytes key else []"
  have secrets: "os_secret st = str_bytes key" "sv_authSecret s = str_bytes key"
    using key by (auto simp: SetAuthSecret_def sv_SetAuthSecret_def auth_Normalize_def)
  have ne: "ob_SendAuthSecret (os_config st) \<longrightarrow> os_secret st \<noteq> []" using key(1) by (simp add: secrets)
  from preamble_sent [OF env ne client conf(2) _ inb(2), unfolded secrets, OF proxy] obtain bs where
    sent: "send_preamble denv st TransportProtocolStream m (Inr (c, w)) = Some (Inr (c, w @ ?k @ bs))"
    and handled: "\<And>s rest md. inv s \<Longrightarrow> pending s = bs @ rest \<Longrightarrow>
        (\<exists>c'. (if v \<noteq> VersionUnspecified then pp_HandleConnection rd (me_fresh env) (NewCachedConn s) md
               else Some (Inr False, NewCachedConn s, md)) =
              Some (Inr (v \<noteq> VersionUnspecified), c',
                if v \<noteq> VersionUnspecified then md\<lparr>md_SourceAddress := canonical (md_SourceAddress m)\<rparr> else md) \<and>
            cc_ahead pending (me_fresh env) c' = rest)" by blast
  have "\<exists>c'. cc_ahead pending (me_fresh env) c' = rest \<and>
        handleInbound renv env rnd idColor now rt s remote conn out =
          passed_on renv env rt s c' out md'" if "inv conn" "pending conn = (?k @ bs) @ rest" for conn rest
  proof -
    have "pending conn = (if sv_RequireAuthSecret (sv_config s) then str_bytes key else []) @ bs @ rest"
      using that(2) by (simp add: conf(1))
    from admit_keyed [OF that(1) inb(3) _ secrets(2) this, of now "remote_ip remote"] key(1,2) obtain conn' where
      adm: "admit rd now s (remote_ip remote) conn = Some (Inr (), conn')" "pending conn' = bs @ rest" "inv conn'" by blast
    from handled [OF adm(3,2), of md] obtain c' where
      c': "(if v \<noteq> VersionUnspecified then pp_HandleConnection rd (me_fresh env) (NewCachedConn conn') md
               else Some (Inr False, NewCachedConn conn', md)) = Some (Inr (v \<noteq> VersionUnspecified), c', md')"
        "cc_ahead pending (me_fresh env) c' = rest" unfolding md' by auto
    show ?thesis
      using c'(2) unfolding handleInbound_admitted [where env = env, unfolded inb(1), OF adm(1) conf(3) inb(4,5)] c'(1) by (intro exI [of _ c']) simp
  qed
  then show ?thesis using sent by (intro exI [of _ "?k @ bs"]) simp
qed

end

section \<open>Properties\<close>

text \<open>(C8)
  Nobody gets past the checks of a service: when a service requires the pre-shared key and the stream
  does not begin with it (or no key is set), or the address lists of the service do not let the
  address through, then over any script of segments and failures the connection is closed (a TCP
  connection with a reset), nothing is written to it, and neither the router nor an outbound sees it.\<close>

theorem unadmitted_refused:
  assumes "me_Read env = net_Read" "\<not> passes s (remote_ip remote) conn"
    "handleInbound renv env rnd idColor now rt s remote conn w = Some r"
  shows "ib_events r = refuse (me_tcp env) \<and> ib_out r = w \<and> ib_injected r = None \<and> ib_handled r = None"
proof -
  from assms(3) obtain a conn' where a: "admit (me_Read env) now s (remote_ip remote) conn = Some (a, conn')"
    by (auto simp: handleInbound_def bind_eq_Some_conv)
  then obtain e where "a = Inl e"
    using assms(1,2) admit_sound [of now s "remote_ip remote" conn _ conn'] by (cases a) auto
  then show ?thesis using assms(3) a by (auto simp: handleInbound_def inbound_end_def)
qed

definition keyed_service :: service_config where
  "keyed_service =
     \<lparr>sv_Name = ''game'', sv_TargetAddress = ''10.0.0.7'', sv_TargetPort = 25565, sv_Listen = 25566, sv_ListenUDP = 0,
      sv_EnableTCP = True, sv_EnableUDP = False, sv_EnableProxyProtocol = True, sv_RequireAuthSecret = True,
      sv_IPAccess = \<lparr>ac_Mode = [], ac_ListTags = [], ac_LowerCase = False\<rparr>, sv_Minecraft = None, sv_TLSSniffing = None,
      sv_SocketOptions = None, sv_Outbound = no_proxy\<rparr>"

definition hop_service :: service where
  "hop_service = sv_SetAuthSecret ''key'' (NewService keyed_service)"

lemma hop_service_fields [simp]:
  "sv_config hop_service = keyed_service" "sv_authSecret hop_service = str_bytes ''key''" "sv_ipAccessLists hop_service = None"
  "sv_legacyOutbound hop_service = None"
  by (simp_all add: hop_service_def sv_SetAuthSecret_def auth_Normalize_def auth_MaxLen_def NewService_def)

lemma key_bytes: "str_bytes ''key'' = [107, 101, 121]" by (simp add: str_bytes_def)

theorem unadmitted_refused_witness:
  "\<forall>renv now rt. \<exists>r. handleInbound renv sample_env 7 0 now rt hop_service (RemoteTCP [10, 0, 0, 1] 4000)
      [Chunk [107], Chunk [101, 122, 1, 2]] [] = Some r \<and>
    ib_events r = [SvLinger 0, SvClose] \<and> ib_handled r = None"
proof (intro allI)
  fix renv :: "('ip, 'c) rule_env" and now and rt :: "(net_in, 'ip, 'c) router"
  let ?conn = "[Chunk [107], Chunk [101, 122, 1, 2]]"
  have np: "\<not> passes hop_service ip ?conn" for ip by (simp add: passes_def keyed_service_def key_bytes)
  obtain err dls conn' where v: "auth_Verify net_Read now (str_bytes ''key'') auth_DefaultTimeout ?conn = Some ((err, dls), conn')"
    using net.auth_Verify_delivers [where s = ?conn and secret = "str_bytes ''key''" and now = now and timeout = auth_DefaultTimeout]
    by (auto simp: key_bytes auth_MaxLen_def)
  define x :: "go_error option + unit" where "x = (case err of Some e \<Rightarrow> Inl (Some e) | None \<Rightarrow> Inr ())"
  have adm: "admit net_Read now hop_service ip ?conn = Some (x, conn')" for ip
    using v by (cases err) (simp_all add: admit_def x_def keyed_service_def key_bytes)
  have "\<exists>e. x = Inl e" using adm np by (cases x) (auto dest: admit_sound)
  then have "\<exists>r. handleInbound renv sample_env 7 0 now rt hop_service (RemoteTCP [10, 0, 0, 1] 4000) ?conn [] = Some r"
    using adm by (auto simp: handleInbound_def sample_env_def inbound_end_def)
  then obtain r where r: "handleInbound renv sample_env 7 0 now rt hop_service (RemoteTCP [10, 0, 0, 1] 4000) ?conn [] = Some r" ..
  from unadmitted_refused [OF _ np r] have "ib_events r = refuse (me_tcp sample_env) \<and> ib_handled r = None"
    by (simp add: sample_env_def)
  then show "\<exists>r. handleInbound renv sample_env 7 0 now rt hop_service (RemoteTCP [10, 0, 0, 1] 4000) ?conn [] = Some r \<and>
    ib_events r = [SvLinger 0, SvClose] \<and> ib_handled r = None"
    using r by (auto simp: refuse_def sample_env_def)
qed

text \<open>(C9)
  Two hops agree: with the same key in both configurations (sent by the one, required by the other) and
  the PROXY protocol in either version (or on neither side), the service of the next hop admits, over
  any segmentation, the connection that the outbound has opened, removes exactly what the outbound has
  sent in front, and hands the router (or its legacy outbound) the rest of the stream with the
  address of the original client, a mapped address as IPv4.\<close>

theorem next_hop_restores_client:
  assumes env: "de_Write denv = stream_writer" "buf_wf (de_buf denv)" "buf_bytes (de_buf denv) = []" "128 \<le> buf_free (de_buf denv)"
    and key: "key \<noteq> []" "length key \<le> auth_MaxLen" "st = SetAuthSecret key st0" "s = sv_SetAuthSecret key s0"
    and conf: "ob_SendAuthSecret (os_config st) = sv_RequireAuthSecret (sv_config s)" "v = ob_ProxyProtocolVersion (os_config st)"
      "sv_EnableProxyProtocol (sv_config s) \<longleftrightarrow> v \<noteq> VersionUnspecified"
    and proxy: "v \<noteq> VersionUnspecified \<longrightarrow>
      ParseAddrPort (de_local denv (c, w @ (if ob_SendAuthSecret (os_config st) then str_bytes key else []))) = Inr local \<and>
      (v = Version1 \<and> AddrPort_IsValid local \<or>
       v = Version2 \<and> (AddrPort_IsValid local \<longrightarrow> Addr_Is4 (ap_addr local) = Addr_Is4 (ap_addr (md_SourceAddress m))))"
    and client: "Addr_IsValid (ap_addr (md_SourceAddress m))"
    and inb: "me_Read env = net_Read" "length (me_fresh env) = CacheSize" "sv_ipAccessLists s = None"
      "remote_source remote = Some src" "GenerateID rnd idColor (inbound_metadata (sv_config s) src) = Some md"
    and md': "md' = (if v = VersionUnspecified then md else md\<lparr>md_SourceAddress := canonical (md_SourceAddress m)\<rparr>)"
  shows "\<exists>bs. send_preamble denv st TransportProtocolStream m (Inr (c, w)) = Some (Inr (c, w @ bs)) \<and>
    (\<forall>conn rest. net_pending conn = bs @ rest \<longrightarrow>
      (\<exists>c'. cc_ahead net_pending (me_fresh env) c' = rest \<and>
        handleInbound renv env rnd idColor now rt s remote conn out =
          passed_on renv env rt s c' out md'))"
  using net.next_hop [OF assms] by simp

definition hop_config :: outbound_config where
  "hop_config = (chain_config [])\<lparr>ob_ProxyProtocolVersion := Version2, ob_SendAuthSecret := True\<rparr>"

definition hop_metadata :: metadata where
  "hop_metadata = zero_metadata\<lparr>md_SourceAddress := AddrPortFrom (Addr4 0x01020304) 5555\<rparr>"

lemma GenerateID_returns: "\<exists>md. GenerateID rnd 0 m = Some md"
proof -
  have "0 < length color_List" by code_simp
  then show ?thesis by (simp add: GenerateID_def guard_panic_def)
qed

lemma hop_local: "ParseAddrPort ''10.0.0.1:40000'' = Inr (AddrPortFrom (Addr4 0x0A000001) 40000)"
proof -
  have a: "last_char (CHR '':'') ''10.0.0.1:40000'' = Some 8" by (simp add: last_char_def find_char_def)
  have b: "ParseUint ''40000'' 16 = Inr 40000"
    by (simp add: ParseUint_def dec_val_def is_digit_def digit_val_def)
  have c: "ParseAddr ''10.0.0.1'' = Some (Addr4 0x0A000001)" by code_simp
  show ?thesis using b c by (simp add: ParseAddrPort_def a Let_def)
qed

lemma hop_remote: "remote_source (RemoteTCP [10, 0, 0, 1] 40000) = Some (AddrPortFrom (Addr4 0x0A000001) 40000)"
proof -
  have "AddrFromSlice [10, 0, 0, 1] = Some (Addr4 0x0A000001)" by code_simp
  then show ?thesis by (simp add: remote_source_def)
qed

lemma hop_canonical: "canonical (md_SourceAddress hop_metadata) = AddrPortFrom (Addr4 0x01020304) 5555"
  by (simp add: canonical_def hop_metadata_def AddrPortFrom_def)

lemmas hop_defs = sample_dials_def Buffer_With_def buffer_defs auth_MaxLen_def hop_metadata_def zero_metadata_def AddrPortFrom_def
  Addr_IsValid_def AddrPort_IsValid_def hop_config_def keyed_service_def SetAuthSecret_def auth_Normalize_def
  new_outbound_state_def chain_config_def pp_consts

theorem next_hop_restores_client_witness:
  "\<forall>renv now rt. \<exists>bs c' md. send_preamble sample_dials (SetAuthSecret ''key'' (new_outbound_state hop_config)) TransportProtocolStream
        hop_metadata (Inr ([], [])) = Some (Inr ([], bs)) \<and>
      cc_ahead net_pending (replicate CacheSize 0) c' = [1, 2, 3] \<and> md_SourceAddress md = AddrPortFrom (Addr4 0x01020304) 5555 \<and>
      handleInbound renv sample_env 7 0 now rt hop_service (RemoteTCP [10, 0, 0, 1] 40000) [Chunk bs, Chunk [1, 2, 3]] [] =
        passed_on renv sample_env rt hop_service c' [] md"
proof (intro allI)
  fix renv :: "('ip, 'c) rule_env" and now and rt :: "(net_in, 'ip, 'c) router"
  obtain md where md: "GenerateID 7 0 (inbound_metadata keyed_service (AddrPortFrom (Addr4 0x0A000001) 40000)) = Some md"
    using GenerateID_returns by blast
  have "\<exists>bs. send_preamble sample_dials (SetAuthSecret ''key'' (new_outbound_state hop_config)) TransportProtocolStream
        hop_metadata (Inr ([], [])) = Some (Inr ([], [] @ bs)) \<and>
    (\<forall>conn rest. net_pending conn = bs @ rest \<longrightarrow>
      (\<exists>c'. cc_ahead net_pending (me_fresh sample_env) c' = rest \<and>
        handleInbound renv sample_env 7 0 now rt hop_service (RemoteTCP [10, 0, 0, 1] 40000) conn [] =
          passed_on renv sample_env rt hop_service c' [] (md\<lparr>md_SourceAddress := canonical (md_SourceAddress hop_metadata)\<rparr>)))"
  proof (rule next_hop_restores_client [where key = "''key''" and v = Version2 and ?s0.0 = "NewService keyed_service"
        and ?st0.0 = "new_outbound_state hop_config" and local = "AddrPortFrom (Addr4 0x0A000001) 40000"
        and src = "AddrPortFrom (Addr4 0x0A000001) 40000"])
    show "GenerateID 7 0 (inbound_metadata (sv_config hop_service) (AddrPortFrom (Addr4 0x0A000001) 40000)) = Some md"
      using md by simp
    show "remote_source (RemoteTCP [10, 0, 0, 1] 40000) = Some (AddrPortFrom (Addr4 0x0A000001) 40000)"
      by (rule hop_remote)
    show "hop_service = sv_SetAuthSecret ''key'' (NewService keyed_service)" by (rule hop_service_def)
  qed (simp_all add: hop_defs sample_env_def hop_service_def [symmetric] hop_local)
  then obtain bs where bs: "send_preamble sample_dials (SetAuthSecret ''key'' (new_outbound_state hop_config)) TransportProtocolStream
        hop_metadata (Inr ([], [])) = Some (Inr ([], [] @ bs))"
    and inb: "\<And>conn rest. net_pending conn = bs @ rest \<Longrightarrow>
      \<exists>c'. cc_ahead net_pending (me_fresh sample_env) c' = rest \<and>
        handleInbound renv sample_env 7 0 now rt hop_service (RemoteTCP [10, 0, 0, 1] 40000) conn [] =
          passed_on renv sample_env rt hop_service c' [] (md\<lparr>md_SourceAddress := canonical (md_SourceAddress hop_metadata)\<rparr>)" by blast
  from inb [of "[Chunk bs, Chunk [1, 2, 3]]" "[1, 2, 3]"] obtain c' where
    "cc_ahead net_pending (me_fresh sample_env) c' = [1, 2, 3]"
    "handleInbound renv sample_env 7 0 now rt hop_service (RemoteTCP [10, 0, 0, 1] 40000) [Chunk bs, Chunk [1, 2, 3]] [] =
       passed_on renv sample_env rt hop_service c' [] (md\<lparr>md_SourceAddress := canonical (md_SourceAddress hop_metadata)\<rparr>)" by auto
  with bs show "\<exists>bs c' md. send_preamble sample_dials (SetAuthSecret ''key'' (new_outbound_state hop_config)) TransportProtocolStream
        hop_metadata (Inr ([], [])) = Some (Inr ([], bs)) \<and>
      cc_ahead net_pending (replicate CacheSize 0) c' = [1, 2, 3] \<and> md_SourceAddress md = AddrPortFrom (Addr4 0x01020304) 5555 \<and>
      handleInbound renv sample_env 7 0 now rt hop_service (RemoteTCP [10, 0, 0, 1] 40000) [Chunk bs, Chunk [1, 2, 3]] [] =
        passed_on renv sample_env rt hop_service c' [] md"
    using hop_canonical by (intro exI [of _ bs] exI [of _ c'] exI [of _ "md\<lparr>md_SourceAddress := canonical (md_SourceAddress hop_metadata)\<rparr>"])
      (simp add: sample_env_def)
qed

end
