(* ===== verification/RouteFacts.thy ===== *)
theory RouteFacts
  imports HopFacts
begin

text \<open>
  What the router does with a connection, end to end: the first rule that holds and names an outbound
  decides; a plain outbound relays both streams; a failed dial, a sniffed connection on a plain
  outbound and a legacy login do not end well.
\<close>

section \<open>The rules\<close>

text \<open>
  A rule is passed over when it does not hold, or when it holds but only rewrites; \<open>route\<close> gives the
  outbound and the rewritten metadata.
\<close>

fun route :: "('ip, 'c) rule_env \<Rightarrow> outbound_ref \<Rightarrow> string list option \<Rightarrow> ('ip, 'c) rule list \<Rightarrow> metadata \<Rightarrow>
    (go_error + outbound_ref) \<times> metadata" where
  "route renv dflt names [] m = (Inr dflt, m)"
| "route renv dflt names (r # rs) m =
     (if \<not> rule_holds renv m r then route renv dflt names rs m
      else let m' = apply_rewrite (rc_Rewrite (rule_Config r)) m in
        if rc_Outbound (rule_Config r) = [] then route renv dflt names rs m'
        else (findOutboundByName names (rc_Outbound (rule_Config r)), m'))"

lemma noted_plain: "md_Minecraft m = None \<Longrightarrow> noted m = m"
  by (simp add: noted_def)

lemma rewrite_plain: "md_Minecraft m = None \<Longrightarrow> md_Minecraft (apply_rewrite rw m) = None"
  by (simp add: apply_rewrite_def Let_def split: option.split)

lemma answers_plain: "md_Minecraft m = None \<Longrightarrow> rule_answers m r"
  by (induction m r rule: rule_answers.induct) auto

text \<open>Routing sees the client's hostname and what it rewrites, but not whether the markup has been noted.\<close>

lemma noted_rewrite: "noted (apply_rewrite rw m) = apply_rewrite rw (noted m)"
  by (cases "md_Minecraft m"; cases "rr_Minecraft rw")
    (auto simp: apply_rewrite_def noted_def Let_def CleanOriginDestination_def split: prod.splits)

lemma answers_rewrite: "rule_answers (apply_rewrite rw m) r = rule_answers m r"
proof -
  have h: "clean_host (mc\<lparr>mm_RewrittenDestination := d\<rparr>) = clean_host mc" "clean_host (mc\<lparr>mm_RewrittenPort := p\<rparr>) = clean_host mc"
    "clean_host (mc\<lparr>mm_NextState := i\<rparr>) = clean_host mc" for mc d p i by (simp_all add: clean_host_def)
  have "(\<forall>mc \<in> set_option (md_Minecraft (apply_rewrite rw m)). Q (clean_host mc)) = (\<forall>mc \<in> set_option (md_Minecraft m). Q (clean_host mc))" for Q m
    by (cases "md_Minecraft m"; cases "rr_Minecraft rw") (auto simp: apply_rewrite_def Let_def h)
  note this [where Q = "\<lambda>h. \<exists>y. matcher_Match matcher (str_bytes h) = Some y" for matcher, simp]
  show ?thesis by (induction m r rule: rule_answers.induct) simp_all
qed

lemma route_noted:
  "custom_pure renv \<Longrightarrow> route renv dflt names rules (noted m) = (fst (route renv dflt names rules m), noted (snd (route renv dflt names rules m)))"
  by (induction rules arbitrary: m) (simp_all add: Let_def rule_holds_noted noted_rewrite [symmetric])

text \<open>Rules that do not sniff leave the connection alone.\<close>

lemma rule_loop_route:
  assumes "custom_pure renv" "\<forall>r \<in> set rules. rc_Sniff (rule_Config r) = [] \<and> rule_answers m r"
  shows "\<exists>m'. rule_loop rd fresh renv rt rules c m = Some (fst (route renv (rt_defaultOutbound rt) (rt_outboundMap rt) rules m), c, m') \<and>
    (m' = snd (route renv (rt_defaultOutbound rt) (rt_outboundMap rt) rules m) \<or>
     m' = noted (snd (route renv (rt_defaultOutbound rt) (rt_outboundMap rt) rules m)))"
  using assms(2)
proof (induction rules arbitrary: m)
  case (Cons r rules)
  then obtain m1 where m1: "rule_Match renv r m = Some (rule_holds renv m r, m1)" "m1 = m \<or> m1 = noted m"
    using match_spec(1) [OF assms(1), of m r] by auto
  have ih: "\<exists>m'. rule_loop rd fresh renv rt rules c x = Some (fst (route renv (rt_defaultOutbound rt) (rt_outboundMap rt) rules m2), c, m') \<and>
      (m' = snd (route renv (rt_defaultOutbound rt) (rt_outboundMap rt) rules m2) \<or>
       m' = noted (snd (route renv (rt_defaultOutbound rt) (rt_outboundMap rt) rules m2)))"
    if "m2 = m \<or> m2 = apply_rewrite rw m" "x = m2 \<or> x = noted m2" for x m2 rw
    using Cons.IH [of x] Cons.prems that by (auto simp: answers_rewrite rule_answers_noted route_noted [OF assms(1)])
  show ?case
    using m1 Cons.prems ih [of m _ m1] ih [of "apply_rewrite (rc_Rewrite (rule_Config r)) m" "rc_Rewrite (rule_Config r)"]
    by (auto simp: Let_def noted_rewrite [symmetric])
qed simp

lemma rule_loop_plain:
  assumes "custom_pure renv" "\<forall>r \<in> set rules. rc_Sniff (rule_Config r) = []" "md_Minecraft m = None"
  shows "rule_loop rd fresh renv rt rules c m =
    (case route renv (rt_defaultOutbound rt) (rt_outboundMap rt) rules m of (ref, m') \<Rightarrow> Some (ref, c, m'))"
proof -
  have "md_Minecraft (snd (route renv (rt_defaultOutbound rt) (rt_outboundMap rt) rules m)) = None"
    using assms(3) by (induction rules arbitrary: m) (simp_all add: Let_def rewrite_plain)
  then show ?thesis
    using rule_loop_route [OF assms(1), of rules m rd fresh rt c] assms(2,3) by (auto simp: answers_plain noted_plain split: prod.split)
qed

text \<open>Rules before it that do not hold are passed over.\<close>

lemma rule_loop_skip:
  assumes "custom_pure renv" "md_Minecraft m = None" "\<forall>r \<in> set pre. \<not> rule_holds renv m r"
  shows "rule_loop rd fresh renv rt (pre @ rules) c m = rule_loop rd fresh renv rt rules c m"
  using assms(3)
proof (induction pre)
  case (Cons r pre)
  have "rule_Match renv r m = Some (False, m)"
    using match_spec(1) [OF assms(1) answers_plain [OF assms(2)], of r] Cons.prems by (auto simp: noted_plain [OF assms(2)])
  with Cons show ?case by simp
qed simp

lemma plain_not_injected: "plain_ref env ref = Some st \<Longrightarrow> inject_ref env ref c w m = None"
  by (auto simp: plain_ref_def inject_ref_def split: outbound_ref.splits option.splits outbound.splits)

text \<open>The relay does not return with unread bytes in the cache.\<close>

lemma CopyBuffer_unread:
  assumes "cc_cache c = Some k" "Buffer_Len k \<noteq> 0" "\<forall>bs w. \<exists>n w'. wr bs w = Some ((n, None), w')"
  shows "CopyBuffer rd wr b c w = None"
  using Copy_unwrap_returns [of wr c 0 w] assms by (cases "Copy_unwrap wr c 0 w") (auto simp: CopyBuffer_def)

text \<open>A connection with unread cached bytes on a plain outbound: the relay does not return.\<close>

lemma unread_on_plain_outbound:
  assumes "rule_loop (me_Read env) (me_fresh env) renv rt (rt_rules rt) c m = Some (Inr ref, c1, m1)"
    "cc_cache c1 = Some k" "Buffer_Len k \<noteq> 0" "plain_ref env ref = Some st"
    "md_DestinationHostname m1 \<noteq> []" "md_DestinationPort m1 > 0"
    "plain_DialContextWithMetadata (me_dial env) (me_outbounds env) st ''tcp'' m1 = Some (Inr (sR, wR))"
    "\<forall>bs w. \<exists>n w'. de_Write (me_dial env) bs w = Some ((n, None), w')"
  shows "Router_HandleConnection renv env rt c w m = None"
  using assms(1,4-7) plain_not_injected [OF assms(4)] CopyBuffer_unread [OF assms(2,3,8)]
  by (simp add: Router_HandleConnection_def route_dispatch_def CopyConn_def)

section \<open>Properties\<close>

text \<open>(C12)
  A connection that no rule sniffs is routed by the first rule that holds and names an outbound (the
  rules before it that hold only rewrite the destination), or by the default. When that is a plain
  outbound and the destination is known, then, if the dial succeeds, the server receives the
  preamble and then exactly the bytes of the client, in order and over any segmentation, and the client
  receives exactly the bytes of the server; if the dial fails the relay is started all the same on a
  nil connection, which ends the process.\<close>

theorem routed_to_plain_outbound:
  assumes "stream_env env" "custom_pure renv" "\<forall>r \<in> set (rt_rules rt). rc_Sniff (rule_Config r) = []" "md_Minecraft m = None"
    "route renv (rt_defaultOutbound rt) (rt_outboundMap rt) (rt_rules rt) m = (Inr ref, m')"
    "plain_ref env ref = Some st"
    "md_DestinationHostname m' \<noteq> []" "md_DestinationPort m' > 0"
    "plain_DialContextWithMetadata (me_dial env) (me_outbounds env) st ''tcp'' m' = Some r"
    "r = Inr (map Chunk rs, wR) \<or> r = Inl e"
  shows "case Router_HandleConnection renv env rt (NewCachedConn (map Chunk cs)) w m of
      Some h \<Rightarrow> r = Inr (map Chunk rs, wR) \<and> hd_server h = Some ([], wR @ concat cs) \<and> hd_out h = w @ concat rs \<and> hd_meta h = m'
    | None \<Rightarrow> r = Inl e"
proof -
  have loop: "rule_loop (me_Read env) (me_fresh env) renv rt (rt_rules rt) (NewCachedConn (map Chunk cs)) m =
      Some (Inr ref, NewCachedConn (map Chunk cs), m')"
    by (simp add: rule_loop_plain [OF assms(2-4)] assms(5))
  note e = assms(1) [unfolded stream_env_def]
  have cp: "relay_buf (me_copybuf env)" and rd: "me_Read env = net_Read" using e by simp_all
  have relay: "CopyConn net_Read stream_writer net_Read stream_writer (me_copybuf env) (me_copybuf env)
      (Some (map Chunk rs, wR)) (NewCachedConn (map Chunk cs)) w = Some (None, ([], wR @ concat cs), [], w @ concat rs)"
    using CopyConn_streams [OF cp cp, of "NewCachedConn (map Chunk cs)"]
    by (auto simp: NewCachedConn_def orderly_def net_pending_chunks)
  have nil: "CopyConn rdR wrR rdL wrL b1 b2 None c' w' = None" for rdR wrR rdL wrL b1 b2 c' w' by (simp add: CopyConn_def)
  from assms(10) show ?thesis
    by (elim disjE) (use assms(6-9) plain_not_injected [OF assms(6)] e in \<open>simp_all add: Router_HandleConnection_def loop [unfolded rd] route_dispatch_def relay nil\<close>)
qed


text \<open>A login whose cache was released: the nil cache is dereferenced once the server is connected.\<close>

lemma forward_login_released:
  assumes "cc_cache c = None" "connectServer (me_dial env) (me_outbounds env) st m = Some (Inr server, m1)"
  shows "forward_login env st ms c w m = None"
  using assms by (cases server) (auto simp: forward_login_def Let_def bind_eq_None_conv split: prod.splits)

text \<open>(C32)
  Legacy mode cannot serve a login: for every client that logs in (over any segmentation), that the
  legacy outbound of a service admits, and whose server can be reached, the service panics, since it
  has released the cache that holds the login packet before the outbound forwards it.\<close>

theorem legacy_login_panics:
  assumes "me_Read env = net_Read" "length (me_fresh env) = CacheSize"
    "net_pending conn = login_stream version host port IntentLogin nm tail @ rest"
    "length (login_stream version host port IntentLogin nm tail) \<le> CacheSize"
    "login_ok version host port nm uuid tail" "md_Minecraft m = None"
    "mc = sniffed_login version host port IntentLogin nm uuid (length (frame (handshake_bytes version host port IntentLogin)))"
    "ob_Minecraft (os_config st) = Some ms" "admitted st ms mc"
    "connectServer (me_dial env) (me_outbounds env) st (set_mc (inject_meta ms mc) m) = Some (Inr server, m1)"
  shows "handle_legacy env st (NewCachedConn conn) w m = None"
proof -
  have v: "cc_reads (\<lambda>_. True) net_pending (me_fresh env) (net_pending conn) 0 (NewCachedConn conn)"
    by (rule cc_reads_new) (use assms(2) in auto)
  from net.SniffClientHandshake_login [OF v, of "[]" version host port IntentLogin nm tail rest uuid m] assms obtain c' where
    c': "SniffClientHandshake net_Read (me_fresh env) (NewCachedConn conn) m = Some (None, c', m\<lparr>md_Minecraft := Some mc\<rparr>)" by auto
  have f: "mm_NextState mc = IntentLogin" "mm_Valid mc" "mm_fmlMarkup mc = []"
    by (simp_all add: assms(7) sniffed_login_def new_mc_metadata_def mm_Valid_def IntentLogin_def)
  have s: "set_mc x (m\<lparr>md_Minecraft := Some mc\<rparr>) = set_mc x m" for x by (simp add: set_mc_def)
  define c2 where "c2 = (if 0 \<le> mm_SniffPosition mc then cc_Rewind (mm_SniffPosition mc) (cc_Release c') else cc_Release c')"
  have "cc_cache c2 = None" by (simp add: c2_def cc_Rewind_def cc_Release_def)
  from forward_login_released [OF this assms(10)] have fwd: "forward_login env st ms c2 w (set_mc (inject_meta ms mc) m) = None" .
  note adm = assms(9) [unfolded admitted_def]
  have login: "handle_login env st ms (inject_meta ms mc) c2 w (set_mc (inject_meta ms mc) m) = None"
    using adm fwd by (auto simp: handle_login_def)
  have "InjectConnection env st (cc_Release c') w (m\<lparr>md_Minecraft := Some mc\<rparr>) = None"
    using adm by (simp add: InjectConnection_mc [of "m\<lparr>md_Minecraft := Some mc\<rparr>" mc st ms env "cc_Release c'" w, OF _ f(2) assms(8) f(1)]
        s login c2_def [symmetric])
  then show ?thesis using c' assms(1) by (simp add: handle_legacy_def)
qed

section \<open>Witnesses\<close>

text \<open>A router that sends what arrives at one service to a plain outbound, after sniffing or not.\<close>

definition plain_out :: outbound_state where
  "plain_out = (new_outbound_state (chain_config []))\<lparr>os_dialer := Some (SystemDialer None)\<rparr>"

definition plain_env :: "(net_in, bytes, net_in, bytes) mc_env" where
  "plain_env = sample_env\<lparr>me_outbounds := [''game'' \<mapsto> Plain plain_out]\<rparr>"

definition service_rule :: "string list \<Rightarrow> (ip_entry list, unit) rule" where
  "service_rule sniff = RuleServiceName [{''lobby''}]
     (zero_rule\<lparr>rc_Type := ''ServiceName'', rc_Outbound := ''game'', rc_Sniff := sniff\<rparr>)"

definition plain_router :: "string list \<Rightarrow> (net_in, ip_entry list, unit) router" where
  "plain_router sniff =
     \<lparr>rt_started = True, rt_outboundMap = Some [''game''], rt_listMap = None, rt_ruleRegistry = [], rt_snifferRegistry = [],
      rt_rules = [service_rule sniff], rt_defaultOutbound = RefReject\<rparr>"

definition lobby_metadata :: metadata where
  "lobby_metadata = zero_metadata\<lparr>md_ServiceName := ''lobby'', md_DestinationHostname := ''10.0.0.2'', md_DestinationPort := 25565\<rparr>"

lemma plain_env_ok: "stream_env plain_env"
  using sample_env_ok by (simp add: stream_env_def plain_env_def)

lemma plain_dials:
  assumes "md_SRV m = None"
  shows "plain_DialContextWithMetadata (me_dial plain_env) (me_outbounds plain_env) plain_out ''tcp'' m =
     Some (Inr (map Chunk [[7, 8]], []))"
  using assms
  by (simp add: plain_DialContextWithMetadata_def dial_target_def plain_out_def new_outbound_state_def chain_config_def current_mode_def
      ResolvedTransport_def NormalizeTransport_def ModeUDP_def Let_def dial.simps plain_env_def sample_env_def sample_dial_def
      send_preamble_def send_secret_def send_proxy_header_def VersionUnspecified_def split: target.split)

lemma lobby_route:
  "route plain_rules RefReject (Some [''game'']) [service_rule sniff] lobby_metadata = (Inr (RefNamed ''game''), lobby_metadata)"
  by (simp add: service_rule_def zero_rule_def zero_rewrite_def lobby_metadata_def zero_metadata_def apply_rewrite_def Let_def findOutboundByName_def)

lemma lobby_ref: "plain_ref plain_env (RefNamed ''game'') = Some plain_out"
  by (simp add: plain_ref_def plain_env_def)

theorem routed_to_plain_outbound_witness:
  "\<exists>h. Router_HandleConnection plain_rules plain_env (plain_router []) (NewCachedConn [Chunk [1], Chunk [2, 3]]) [] lobby_metadata = Some h \<and>
     hd_server h = Some ([], [1, 2, 3]) \<and> hd_out h = [7, 8]"
proof -
  have prem: "custom_pure plain_rules" "\<forall>r \<in> set (rt_rules (plain_router [])). rc_Sniff (rule_Config r) = []"
    "md_Minecraft lobby_metadata = None"
    "route plain_rules (rt_defaultOutbound (plain_router [])) (rt_outboundMap (plain_router [])) (rt_rules (plain_router [])) lobby_metadata =
       (Inr (RefNamed ''game''), lobby_metadata)"
    "md_DestinationHostname lobby_metadata \<noteq> []" "0 < md_DestinationPort lobby_metadata" "md_SRV lobby_metadata = None"
    using lobby_route
    by (simp_all add: plain_router_def custom_pure_def plain_rules_def service_rule_def zero_rule_def lobby_metadata_def zero_metadata_def)
  note routed_to_plain_outbound [OF plain_env_ok prem(1-4) lobby_ref prem(5,6) plain_dials [OF prem(7)],
      where cs = "[[1], [2, 3]]" and w = "[]" and rs = "[[7, 8]]" and wR = "[]" and e = ErrOsClosed]
  then show ?thesis by (auto split: option.splits)
qed


theorem legacy_login_panics_witness:
  "handle_legacy sample_env sample_state (NewCachedConn [Chunk (take 9 steve_stream), Chunk (drop 9 steve_stream)]) [] zero_metadata = None"
proof -
  obtain m1 where conn: "connectServer (me_dial sample_env) (me_outbounds sample_env) sample_state
      (set_mc (inject_meta sample_mc steve_mc) zero_metadata) = Some (Inr (map Chunk [[7, 8]], []), m1)"
    using sample_connects by blast
  show ?thesis
  proof (rule legacy_login_panics [OF _ _ _ _ steve_login _ refl sample_selectors(1) sample_admits conn])
    show "net_pending [Chunk (take 9 steve_stream), Chunk (drop 9 steve_stream)] =
        login_stream 767 ''play.example.org'' 25565 IntentLogin ''Steve'' steve_uuid @ []"
      by (simp add: steve_stream_def)
    show "length (login_stream 767 ''play.example.org'' 25565 IntentLogin ''Steve'' steve_uuid) \<le> CacheSize"
      using steve_lengths(2) by (simp add: steve_stream_def CacheSize_def)
  qed (simp_all add: sample_env_def zero_metadata_def)
qed

end
