(* ===== verification/PlayerFacts.thy ===== *)
theory PlayerFacts
  imports RouteFacts
begin

text \<open>
  A Minecraft player from the accepted connection to the server: the rule that sniffs the login, the
  rules that choose the outbound by what was sniffed and rewrite it, and the Minecraft outbound that
  takes the connection over.
\<close>

section \<open>Dialling does not look at the player\<close>

text \<open>What is dialled depends on the destination and the source of the connection only.\<close>

abbreviation with_mc :: "mc_metadata option \<Rightarrow> metadata \<Rightarrow> metadata" where
  "with_mc x m \<equiv> m\<lparr>md_Minecraft := x\<rparr>"

lemma send_preamble_mc: "send_preamble env st transport (with_mc x m) = send_preamble env st transport m"
proof -
  have "send_proxy_header env c transport (with_mc x m) = send_proxy_header env c transport m" for c
    by (rule ext) (simp add: send_proxy_header_def split: sum.split)
  then show ?thesis by (intro ext) (simp add: send_preamble_def split: sum.split)
qed

lemma dial_target_mc: "dial_target st (with_mc x m) = dial_target st m"
  by (simp add: dial_target_def Let_def)

lemma dial_mc: "dial env ob wm d network address m = Some r \<Longrightarrow> dial env ob wm d network address (with_mc x m) = Some r"
proof (rule dial.raw_induct [rotated, where P = "\<lambda>env ob wm d network address m r.
    dial env ob wm d network address (with_mc x m) = Some r"], goal_cases)
  case (2 dial' env ob wm d network address m r)
  note step = "2"(2,3)
  show ?case
  proof (cases d)
    case (SystemDialer opts)
    then show ?thesis using step(2) by (subst dial.simps) simp
  next
    case (SocksDialer inner c)
    with step(2) obtain r1 where r1: "dial' env ob False inner (sk_Network c) (sk_Address c) m = Some r1" by (auto simp: bind_eq_Some_conv)
    from step(1) [OF r1] show ?thesis using step(2) r1 SocksDialer by (subst dial.simps) simp
  next
    case (OutboundDialer nm)
    show ?thesis
    proof (cases "dialed_outbound ob nm")
      case None
      then show ?thesis using step(2) OutboundDialer by (subst dial.simps) simp
    next
      case (Some o1)
      show ?thesis
      proof (cases o1)
        case (Plain st)
        show ?thesis
          using step(2) OutboundDialer Some Plain
          by (subst dial.simps)
            (auto simp: dial_target_mc send_preamble_mc bind_eq_Some_conv dest: step(1) split: if_splits sum.splits target.splits)
      qed (use step(2) OutboundDialer Some in \<open>subst dial.simps, simp\<close>)
    qed
  qed
qed

lemma fill_destination_with_mc: "fill_destination c (with_mc x m) = with_mc x (fill_destination c m)"
  by (simp add: fill_destination_def Let_def split: option.split)

lemma connectServer_mc:
  "connectServer env ob st m = Some (r, m1) \<Longrightarrow> connectServer env ob st (with_mc x m) = Some (r, with_mc x m1)"
  by (auto simp: connectServer_def Let_def fill_destination_with_mc send_preamble_mc bind_eq_Some_conv split: if_splits dest: dial_mc)

section \<open>What the rules may do to a player\<close>

text \<open>Routing may only redirect a client: the destination, its port and the intent are rewritten.\<close>

definition undirected :: "mc_metadata \<Rightarrow> mc_metadata" where
  "undirected mc = mc\<lparr>mm_RewrittenDestination := [], mm_RewrittenPort := 0, mm_NextState := 0\<rparr>"

definition redirected :: "mc_metadata \<Rightarrow> mc_metadata \<Rightarrow> bool" where
  "redirected mc mc' \<longleftrightarrow> undirected mc' = undirected mc"

lemma redirected_fields:
  assumes "redirected mc mc'"
  shows "mm_fmlMarkup mc' = mm_fmlMarkup mc" "mm_SniffPosition mc' = mm_SniffPosition mc"
    "mm_ProtocolVersion mc' = mm_ProtocolVersion mc" "mm_PlayerName mc' = mm_PlayerName mc"
    "mm_OriginDestination mc' = mm_OriginDestination mc" "mm_OriginPort mc' = mm_OriginPort mc"
  using assms by (cases mc; cases mc'; simp add: redirected_def undirected_def)+

lemma rewrite_redirects:
  "md_Minecraft m = Some mc1 \<Longrightarrow> redirected mc mc1 \<Longrightarrow> \<exists>mc'. md_Minecraft (apply_rewrite rw m) = Some mc' \<and> redirected mc mc'"
  by (auto simp: apply_rewrite_def Let_def redirected_def undirected_def split: option.split)

lemma route_redirects:
  "md_Minecraft m = Some mc1 \<Longrightarrow> redirected mc mc1 \<Longrightarrow>
   \<exists>mc'. md_Minecraft (snd (route renv dflt names rules m)) = Some mc' \<and> redirected mc mc'"
proof (induction rules arbitrary: m mc1)
  case (Cons r rules)
  from rewrite_redirects [OF Cons.prems, of "rc_Rewrite (rule_Config r)"] obtain mc2 where
    mc2: "md_Minecraft (apply_rewrite (rc_Rewrite (rule_Config r)) m) = Some mc2" "redirected mc mc2" by blast
  from Cons.IH [OF mc2] Cons.IH [OF Cons.prems] mc2 show ?case by (simp add: Let_def)
qed auto

section \<open>From the accepted connection to the server\<close>

text \<open>Where a sniffed player goes: the sniffing rule names the outbound, or the rules after it do.\<close>

definition route_player ::
  "('ip, 'c) rule_env \<Rightarrow> ('s, 'ip, 'c) router \<Rightarrow> ('ip, 'c) rule \<Rightarrow> ('ip, 'c) rule list \<Rightarrow> metadata \<Rightarrow>
   (go_error + outbound_ref) \<times> metadata" where
  "route_player renv rt r rules m =
     (let m' = apply_rewrite (rc_Rewrite (rule_Config r)) m in
      if rc_Outbound (rule_Config r) = [] then route renv (rt_defaultOutbound rt) (rt_outboundMap rt) rules m'
      else (findOutboundByName (rt_outboundMap rt) (rc_Outbound (rule_Config r)), m'))"

lemma route_player_redirects:
  assumes "md_Minecraft m = Some mc"
  shows "\<exists>mc'. md_Minecraft (snd (route_player renv rt r rules m)) = Some mc' \<and> redirected mc mc'"
proof -
  have "redirected mc mc" by (simp add: redirected_def)
  from rewrite_redirects [OF assms this, of "rc_Rewrite (rule_Config r)"] obtain mc1 where
    mc1: "md_Minecraft (apply_rewrite (rc_Rewrite (rule_Config r)) m) = Some mc1" "redirected mc mc1" by blast
  from route_redirects [OF mc1, of renv "rt_defaultOutbound rt" "rt_outboundMap rt" rules] mc1 show ?thesis by (simp add: route_player_def Let_def)
qed

lemma rule_loop_player:
  assumes "custom_pure renv" "rule_holds renv m r" "rc_Sniff (rule_Config r) \<noteq> []" "md_Minecraft m = None"
    and "protocol_Sniff rd fresh (rt_snifferRegistry rt) (rc_Sniff (rule_Config r)) c m = Some (c', ms)"
    and "\<forall>r \<in> set rules. rc_Sniff (rule_Config r) = [] \<and> rule_answers ms r"
  shows "\<exists>m'. rule_loop rd fresh renv rt (r # rules) c m = Some (fst (route_player renv rt r rules ms), c', m') \<and>
    (m' = snd (route_player renv rt r rules ms) \<or> m' = noted (snd (route_player renv rt r rules ms)))"
proof -
  have "rule_Match renv r m = Some (True, m)"
    using match_spec(1) [OF assms(1) answers_plain [OF assms(4)], of r] assms(2) by (auto simp: noted_plain [OF assms(4)])
  then show ?thesis
    using assms(3,5,6) rule_loop_route [OF assms(1), of rules "apply_rewrite (rc_Rewrite (rule_Config r)) ms" rd fresh rt c']
    by (auto simp: route_player_def Let_def answers_rewrite)
qed

lemma InjectConnection_routed:
  assumes env: "stream_env env" and v: "cc_reads orderly net_pending (me_fresh env) S n c" "cc_cache c \<noteq> None" "p \<le> cc_filled (me_fresh env) c"
    and mc: "md_Minecraft m = Some mc" "mm_NextState mc = IntentLogin" "mm_SniffPosition mc = int p" "markup_ok mc"
    and ms: "ob_Minecraft (os_config st) = Some ms" and adm: "admitted st ms mc"
    and conn: "connectServer (me_dial env) (me_outbounds env) st m = Some (Inr (map Chunk rs, wR), m1)"
    and room: "5 + int (length (handshake_bytes (ucast (mm_ProtocolVersion mc)) (fst (server_hostname (os_config st) ms mc))
                 (server_port mc) IntentLogin)) \<le> b_len (me_buf env)"
    and m': "m' = m \<or> m' = noted m"
  shows "\<exists>i. InjectConnection env st c w m' = Some i \<and> in_out i = w @ concat rs \<and>
      in_server i = Some ([], wR @ frame (handshake_bytes (ucast (mm_ProtocolVersion mc))
        (fst (server_hostname (os_config st) ms mc)) (server_port mc) IntentLogin) @ drop p S)"
proof -
  have s: "set_mc x m = with_mc (Some x) m" "set_mc x (noted m) = with_mc (Some x) m" for x by (simp_all add: set_mc_def noted_def)
  let ?k = "snd (CleanOriginDestination mc)"
  have k: "mm_NextState ?k = IntentLogin" "mm_SniffPosition ?k = int p" "mm_ProtocolVersion ?k = mm_ProtocolVersion mc"
    "server_port ?k = server_port mc"
    using mc by (simp_all add: CleanOriginDestination_def server_port_def split: prod.splits)
  have adm': "admitted st ms ?k" using adm by (simp add: admitted_def)
  have conn': "connectServer (me_dial env) (me_outbounds env) st (with_mc x m) = Some (Inr (map Chunk rs, wR), with_mc x m1)" for x
    by (rule connectServer_mc [OF conn])
  note host = server_hostname_noted [OF mc(4)]
  have nm: "md_Minecraft (noted m) = Some ?k" by (simp add: mc(1))
  from m' show ?thesis
  proof
    assume "m' = m"
    then show ?thesis
      using InjectConnection_login [OF env v mc(1-4) ms adm _ room, where rs = rs and wR = wR and w = w]
        conn' unfolding s by blast
  next
    assume "m' = noted m"
    then show ?thesis
      using InjectConnection_login [OF env v nm k(1,2) markup_ok_Clean ms adm', where rs = rs and wR = wR and w = w]
        conn' room unfolding s k host by blast
  qed
qed

text \<open>The router takes a sniffed player to the outbound with all that was sniffed.\<close>

lemma routed_injection:
  assumes env: "me_Read env = net_Read" "custom_pure renv" "rt_rules rt = pre @ r # rules" "md_Minecraft m = None"
    and before: "\<forall>r \<in> set pre. \<not> rule_holds renv m r" "rule_holds renv m r" "rc_Sniff (rule_Config r) \<noteq> []"
    and sniff: "protocol_Sniff net_Read (me_fresh env) (rt_snifferRegistry rt) (rc_Sniff (rule_Config r)) c0 m = Some (c, ms)"
    and after: "\<forall>r \<in> set rules. rc_Sniff (rule_Config r) = [] \<and> rule_answers ms r"
      "route_player renv rt r rules ms = (Inr (RefNamed game), m')" "me_outbounds env game = Some (McOutbound st)"
    and inject: "\<And>m2. m2 = m' \<or> m2 = noted m' \<Longrightarrow>
      \<exists>i. InjectConnection env st c w m2 = Some i \<and> in_out i = out \<and> in_server i = server"
  shows "\<exists>h. Router_HandleConnection renv env rt c0 w m = Some h \<and>
      hd_events h = [RtRLock, RtRUnlock, RtInject (RefNamed game), RtCloseCached] \<and> hd_out h = out \<and> hd_server h = server"
proof -
  from rule_loop_player [OF env(2) before(2,3) env(4) sniff after(1)] after(2) obtain m2 where
    m2: "rule_loop net_Read (me_fresh env) renv rt (rt_rules rt) c0 m = Some (Inr (RefNamed game), c, m2)" "m2 = m' \<or> m2 = noted m'"
    by (auto simp: env(3) rule_loop_skip [OF env(2,4) before(1)])
  from inject [OF m2(2)] show ?thesis
    by (auto simp: Router_HandleConnection_def env(1) m2(1) route_dispatch_def inject_ref_def after(3))
qed

section \<open>Properties\<close>

text \<open>(C1)
  A player from the accepted connection to the server: the rules in front do not hold, the first rule
  that does sniffs for Minecraft, and this rule or the rules after it (which may ask for the player or
  the hostname, and rewrite the destination on the way) name a Minecraft outbound that admits the
  player and reaches its server. Then, over any segmentation of the client's stream, the server
  receives what dialling has sent, one handshake with the hostname, port and version that routing and
  the outbound decide, and the client's login packet and everything after it, unchanged and in order;
  the client receives everything the server sends, and the read lock is given up before the relay.\<close>

theorem player_routed:
  assumes env: "stream_env env" "custom_pure renv" "rt_rules rt = pre @ r # rules"
    and before: "\<forall>r \<in> set pre. \<not> rule_holds renv m r" "rule_holds renv m r" "rc_Sniff (rule_Config r) = [''minecraft'']"
    and player: "concat cs = login_stream version host port IntentLogin nm tail @ rest"
      "length (login_stream version host port IntentLogin nm tail) \<le> CacheSize" "login_ok version host port nm uuid tail"
      "md_Minecraft m = None"
    and ms: "ms = with_mc (Some (sniffed_login version host port IntentLogin nm uuid
        (length (frame (handshake_bytes version host port IntentLogin))))) m"
    and after: "\<forall>r \<in> set rules. rc_Sniff (rule_Config r) = [] \<and> rule_answers ms r"
      "route_player renv rt r rules ms = (Inr (RefNamed game), m')" "md_Minecraft m' = Some mc" "mm_NextState mc = IntentLogin"
    and outbound: "me_outbounds env game = Some (McOutbound st)" "ob_Minecraft (os_config st) = Some sv" "admitted st sv mc"
      "connectServer (me_dial env) (me_outbounds env) st m' = Some (Inr (map Chunk rs, wR), m1)"
    and room: "5 + int (length (handshake_bytes version (fst (server_hostname (os_config st) sv mc)) (server_port mc) IntentLogin))
        \<le> b_len (me_buf env)"
  shows "\<exists>h. Router_HandleConnection renv env rt (NewCachedConn (map Chunk cs)) w m = Some h \<and>
      hd_events h = [RtRLock, RtRUnlock, RtInject (RefNamed game), RtCloseCached] \<and> hd_out h = w @ concat rs \<and>
      hd_server h = Some ([], wR @ frame (handshake_bytes version (fst (server_hostname (os_config st) sv mc)) (server_port mc) IntentLogin) @
        frame (login_bytes nm tail) @ rest)"
proof -
  let ?f = "length (frame (handshake_bytes version host port IntentLogin))" and ?c = "NewCachedConn (map Chunk cs)"
  have fresh: "length (me_fresh env) = CacheSize" "me_Read env = net_Read" using env(1) by (simp_all add: stream_env_def)
  have v: "cc_reads orderly net_pending (me_fresh env) (concat cs) 0 ?c"
    by (rule cc_reads_new) (auto simp: fresh orderly_def net_pending_chunks)
  from orderly.protocol_Sniff_login [OF v player(1-3) _ player(4), where reg = "rt_snifferRegistry rt"] obtain c where
    c: "protocol_Sniff net_Read (me_fresh env) (rt_snifferRegistry rt) (rc_Sniff (rule_Config r)) ?c m = Some (c, ms)"
      "cc_reads orderly net_pending (me_fresh env) (concat cs) 0 c" "cc_cache c \<noteq> None"
      "length (login_stream version host port IntentLogin nm tail) \<le> cc_filled (me_fresh env) c"
    unfolding ms before(3) by auto
  have "md_Minecraft ms = Some (sniffed_login version host port IntentLogin nm uuid ?f)" by (simp add: ms)
  from route_player_redirects [OF this, of renv rt r rules] after(2,3) have
    "redirected (sniffed_login version host port IntentLogin nm uuid ?f) mc" by simp
  note red = redirected_fields [OF this]
  have mc: "mm_SniffPosition mc = int ?f" "markup_ok mc" "ucast (mm_ProtocolVersion mc) = version"
    by (simp_all add: red sniffed_login_def new_mc_metadata_def ucast_scast_version markup_ok_def)
  have pos: "?f \<le> cc_filled (me_fresh env) c" using c(4) by (simp add: login_stream_def)
  have S: "drop ?f (concat cs) = frame (login_bytes nm tail) @ rest" by (simp add: player(1) login_stream_def)
  have sn: "rc_Sniff (rule_Config r) \<noteq> []" by (simp add: before(3))
  show ?thesis
    by (rule routed_injection [OF fresh(2) env(2,3) player(4) before(1,2) sn c(1) after(1,2) outbound(1)],
        rule InjectConnection_routed [OF env(1) c(2,3) pos after(3,4) mc(1,2) outbound(2-4), unfolded mc(3) S, OF room])
qed

section \<open>A lobby\<close>

text \<open>
  Another service's rule, the rule that sniffs, and a rule for one player, who is sent to another port.
\<close>

definition steve_rule :: "(ip_entry list, unit) rule" where
  "steve_rule = RuleMinecraftPlayerName [{''Steve''}] False
     (zero_rule\<lparr>rc_Type := ''MinecraftPlayerName'', rc_Outbound := ''game'',
        rc_Rewrite := zero_rewrite\<lparr>rr_Minecraft := Some (zero_mc_rewrite\<lparr>rw_Port := 25566\<rparr>)\<rparr>\<rparr>)"

definition other_rule :: "(ip_entry list, unit) rule" where
  "other_rule = RuleServiceName [{''other''}] (zero_rule\<lparr>rc_Type := ''ServiceName'', rc_Outbound := ''REJECT''\<rparr>)"

definition sniff_rule :: "(ip_entry list, unit) rule" where
  "sniff_rule = RuleAlways (zero_rule\<lparr>rc_Type := ''always'', rc_Sniff := [''minecraft'']\<rparr>)"

definition lobby_router :: "(net_in, ip_entry list, unit) router" where
  "lobby_router = (plain_router [])\<lparr>rt_rules := [other_rule, sniff_rule, steve_rule]\<rparr>"

definition lobby_env :: "(net_in, bytes, net_in, bytes) mc_env" where
  "lobby_env = sample_env\<lparr>me_outbounds := [''game'' \<mapsto> McOutbound sample_state]\<rparr>"

lemma lobby_env_ok: "stream_env lobby_env"
  using sample_env_ok by (simp add: stream_env_def lobby_env_def)

abbreviation steve_routed :: mc_metadata where
  "steve_routed \<equiv> steve_mc\<lparr>mm_RewrittenPort := 25566\<rparr>"

lemma steve_routed:
  "route_player plain_rules lobby_router sniff_rule [steve_rule] (with_mc (Some steve_mc) lobby_metadata) =
     (Inr (RefNamed ''game''), with_mc (Some steve_routed) lobby_metadata)"
  by (simp add: route_player_def lobby_router_def plain_router_def sniff_rule_def steve_rule_def zero_rule_def zero_rewrite_def zero_mc_rewrite_def
      apply_rewrite_def findOutboundByName_def sniffed_login_def)

lemma steve_served:
  "admitted sample_state sample_mc steve_routed"
  "fst (server_hostname (os_config sample_state) sample_mc steve_routed) = ''mc.server.net''" "server_port steve_routed = 25566"
  "\<exists>m1. connectServer (me_dial lobby_env) (me_outbounds lobby_env) sample_state (with_mc (Some steve_routed) lobby_metadata)
     = Some (Inr (map Chunk [[7, 8]], []), m1)"
proof -
  show "admitted sample_state sample_mc steve_routed" using sample_admits by (simp add: admitted_def clean_host_def)
  show "fst (server_hostname (os_config sample_state) sample_mc steve_routed) = ''mc.server.net''"
    by (simp add: server_hostname_def sample_mc_def IsFML_def sniffed_login_def)
  show "server_port steve_routed = 25566" by (simp add: server_port_def)
  show "\<exists>m1. connectServer (me_dial lobby_env) (me_outbounds lobby_env) sample_state (with_mc (Some steve_routed) lobby_metadata)
     = Some (Inr (map Chunk [[7, 8]], []), m1)"
    by (simp add: connectServer_def lobby_env_def sample_env_def sample_state_def sample_outbound_def new_outbound_state_def current_mode_def
        ResolvedTransport_def NormalizeTransport_def ModeUDP_def Let_def dial.simps sample_dial_def sample_mc_def
        fill_destination_def lobby_metadata_def zero_metadata_def send_preamble_def send_secret_def send_proxy_header_def VersionUnspecified_def)
qed

theorem player_routed_witness:
  "\<exists>h. Router_HandleConnection plain_rules lobby_env lobby_router
       (NewCachedConn (map Chunk [take 30 steve_stream, drop 30 steve_stream @ [1], [2, 3]])) [] lobby_metadata = Some h \<and>
     hd_events h = [RtRLock, RtRUnlock, RtInject (RefNamed ''game''), RtCloseCached] \<and> hd_out h = [7, 8] \<and>
     hd_server h = Some ([], frame (handshake_bytes 767 ''mc.server.net'' 25566 IntentLogin) @
        frame (login_bytes ''Steve'' steve_uuid) @ [1, 2, 3])"
proof -
  let ?cs = "[take 30 steve_stream, drop 30 steve_stream @ [1], [2, 3]]"
  have cs: "concat ?cs = login_stream 767 ''play.example.org'' 25565 IntentLogin ''Steve'' steve_uuid @ [1, 2, 3]"
    unfolding steve_stream_def [symmetric] by simp
  have len: "length (login_stream 767 ''play.example.org'' 25565 IntentLogin ''Steve'' steve_uuid) \<le> CacheSize"
    using steve_lengths(2) by (simp add: steve_stream_def CacheSize_def)
  have pre: "custom_pure plain_rules" "rt_rules lobby_router = [other_rule] @ sniff_rule # [steve_rule]"
    "\<forall>r \<in> set [other_rule]. \<not> rule_holds plain_rules lobby_metadata r" "rule_holds plain_rules lobby_metadata sniff_rule"
    "rc_Sniff (rule_Config sniff_rule) = [''minecraft'']"
    by (simp_all add: custom_pure_def plain_rules_def lobby_router_def other_rule_def sniff_rule_def zero_rule_def lobby_metadata_def)
  have m: "md_Minecraft lobby_metadata = None" by (simp add: lobby_metadata_def zero_metadata_def)
  have after: "\<forall>r \<in> set [steve_rule]. rc_Sniff (rule_Config r) = [] \<and> rule_answers (with_mc (Some steve_mc) lobby_metadata) r"
    "md_Minecraft (with_mc (Some steve_routed) lobby_metadata) = Some steve_routed" "mm_NextState steve_routed = IntentLogin"
    "me_outbounds lobby_env ''game'' = Some (McOutbound sample_state)"
    by (simp_all add: steve_rule_def zero_rule_def sniffed_login_def new_mc_metadata_def lobby_env_def)
  obtain m1 where conn: "connectServer (me_dial lobby_env) (me_outbounds lobby_env) sample_state (with_mc (Some steve_routed) lobby_metadata)
     = Some (Inr (map Chunk [[7, 8]], []), m1)"
    using steve_served(4) by blast
  have buf: "b_len (me_buf lobby_env) = 600" using sample_selectors(3) by (simp add: lobby_env_def)
  have room: "5 + int (length (handshake_bytes 767 (fst (server_hostname (os_config sample_state) sample_mc steve_routed))
      (server_port steve_routed) IntentLogin)) \<le> b_len (me_buf lobby_env)"
    unfolding steve_served(2,3) buf by code_simp
  from player_routed [OF lobby_env_ok pre cs len steve_login m refl after(1) steve_routed after(2,3,4) sample_selectors(1) steve_served(1)
      conn room, of "[]"]
  show ?thesis by (simp add: steve_served(2,3))
qed

end
