(* ===== verification/StatusFacts.thy ===== *)
theory StatusFacts
  imports PlayerFacts
begin

text \<open>
  A client that asks for the status, from the accepted connection to the answer: the outbound answers
  with its own message of the day, and a ping by its mode, without any server.
\<close>

section \<open>The answer\<close>

text \<open>The answer to the status request, and the answer to the ping: none, zeros, or the ping itself.\<close>

definition status_reply :: "mc_service \<Rightarrow> bytes \<Rightarrow> bytes \<Rightarrow> bytes" where
  "status_reply sv motd ping =
     frame (0 # str_field motd) @
     (if ms_PingMode sv = pingModeDisconnect then []
      else if ms_PingMode sv = pingMode0ms then frame (1 # replicate 8 0) else frame ping)"

definition pings_back :: "mc_service \<Rightarrow> bool" where
  "pings_back sv \<longleftrightarrow> ms_PingMode sv \<noteq> pingModeDisconnect \<and> ms_PingMode sv \<noteq> pingMode0ms"

lemma WritePacket_frame:
  "room b p n \<Longrightarrow> \<exists>b'. WritePacket stream_writer b w = Some (None, b', w @ frame p)"
  using WritePacket_stream [of b w] by (auto simp: room_def frame_def)

lemma zero_ping:
  assumes "room b [] 10"
  shows "\<exists>b1 b2. Buffer_WriteByte b 1 = Some (None, b1) \<and> Buffer_WriteZeroN b1 8 = Some (None, b2) \<and> room b2 (1 # replicate 8 0) 0"
proof -
  have r1: "room (Buffer_absorb b [1]) [1] 9" using room_absorb [of b "[]" "[1]" 9] assms by simp
  then have wf: "buf_wf (Buffer_absorb b [1])" "8 < buf_free (Buffer_absorb b [1])" by (simp_all add: room_def)
  from Buffer_WriteZeroN_cases [OF wf(1), of 8] wf(2) obtain b2 where
    b2: "Buffer_WriteZeroN (Buffer_absorb b [1]) 8 = Some (None, b2)" "buf_wf b2" "buf_bytes b2 = 1 # replicate 8 0"
    using r1 by (auto simp: room_def)
  have "b_start b2 = b_start (Buffer_absorb b [1])"
    using b2(1) by (auto simp: Buffer_WriteZeroN_def bind_eq_Some_conv split: if_splits)
  then have "room b2 (1 # replicate 8 0) 0" using b2 r1 by (simp add: room_def buf_headroom_def)
  then show ?thesis using room_steps(1) [of b "[]" 9 1] assms b2(1) by auto
qed

lemma answer_status_replies:
  assumes env: "stream_env env" "15 \<le> b_len (me_buf env)"
    and c: "cc_fits (\<lambda>_. True) net_pending (me_fresh env) c"
    and ping: "pings_back sv \<longrightarrow> cc_ahead net_pending (me_fresh env) c = frame ping @ rest \<and> length ping \<le> 9"
  shows "\<exists>i :: (net_in, bytes, net_in, bytes) injected. answer_status env st sv mc c w m = Some i \<and> in_err i = None \<and> in_server i = None \<and>
    in_out i = w @ status_reply sv (me_render env (motd_json (mm_ProtocolVersion mc) sv (os_onlineCount st))) ping"
proof -
  let ?motd = "me_render env (motd_json (mm_ProtocolVersion mc) sv (os_onlineCount st))"
  let ?w = "w @ frame (0 # str_field ?motd)"
  note e = env(1) [unfolded stream_env_def]
  have "10 \<le> b_len (me_buf env) - 5" using env(2) by simp
  from send_json_packet_frame [OF env(1) this, of ?motd w] env(2) obtain b where
    b: "send_json_packet env ?motd (new_buffer env) w = Some (None, b, ?w)" "room b [] 10"
    by (auto simp: room_def)
  consider (none) "ms_PingMode sv = pingModeDisconnect" | (zeros) "ms_PingMode sv \<noteq> pingModeDisconnect" "ms_PingMode sv = pingMode0ms"
    | (echo) "pings_back sv" unfolding pings_back_def by blast
  then show ?thesis
  proof cases
    case none
    then show ?thesis using b(1) by (simp add: answer_status_def status_reply_def McOutbound.returns_def)
  next
    case zeros
    from zero_ping [OF b(2)] obtain b1 b2 where
      z: "Buffer_WriteByte b 1 = Some (None, b1)" "Buffer_WriteZeroN b1 8 = Some (None, b2)" "room b2 (1 # replicate 8 0) 0" by blast
    from WritePacket_frame [OF z(3), of ?w] obtain b3 where "WritePacket stream_writer b2 ?w = Some (None, b3, ?w @ frame (1 # replicate 8 0))" by blast
    then show ?thesis
      using b(1) z(1,2) zeros e by (simp add: answer_status_def status_reply_def McOutbound.returns_def ignore_err_def pingMode0ms_def pingModeDisconnect_def)
  next
    case echo
    then have p: "cc_ahead net_pending (me_fresh env) c = leb128 (of_nat (length ping)) @ ping @ rest" "length ping \<le> 9"
      using ping by (simp_all add: frame_def)
    have b': "buf_wf b" "length ping \<le> buf_free b" using b(2) p(2) by (auto simp: room_def)
    from cached.ReadLimitedPacket_absorbs [OF c p(1) b'(1) _ _ b'(2), of 9] p(2) obtain c' where
      r: "ReadLimitedPacket None (cc_Read net_Read (me_fresh env)) b 9 c = Some (None, Buffer_absorb b ping, c')" by auto
    have "room (Buffer_absorb b ping) ([] @ ping) 0" by (rule room_absorb) (use b(2) p(2) in \<open>simp add: room_def\<close>)
    from WritePacket_frame [OF this, of ?w] obtain b3 where
      "WritePacket stream_writer (Buffer_absorb b ping) ?w = Some (None, b3, ?w @ frame ping)" by auto
    then show ?thesis
      using b(1) r echo e by (simp add: answer_status_def status_reply_def McOutbound.returns_def pings_back_def)
  qed
qed

section \<open>Taking over a status request\<close>

lemma InjectConnection_status:
  assumes env: "stream_env env" "15 \<le> b_len (me_buf env)"
    and v: "cc_reads (\<lambda>_. True) net_pending (me_fresh env) S n c" "cc_cache c \<noteq> None" "p \<le> cc_filled (me_fresh env) c" "length S \<le> CacheSize"
    and S: "drop p S = [1, 0] @ rest" "pings_back sv \<longrightarrow> rest = frame ping @ tail \<and> length ping \<le> 9"
    and mc: "md_Minecraft m = Some mc" "mm_NextState mc = IntentStatus" "mm_SniffPosition mc = int p"
    and sv: "ob_Minecraft (os_config st) = Some sv" "ms_MotdFavicon sv \<noteq> [] \<or> ms_MotdDescription sv \<noteq> []"
      "access_refuses (ms_HostnameAccess sv) (os_hostnameAccessLists st) (clean_host mc) = Some False"
  shows "\<exists>i. InjectConnection env st c w m = Some i \<and> in_server i = None \<and>
    in_out i = w @ status_reply sv (me_render env (motd_json (mm_ProtocolVersion mc) sv (os_onlineCount st))) ping"
proof -
  let ?mc = "inject_meta sv mc" and ?c = "cc_Rewind (int p) c"
  note rw = net.cc_Rewind_view [OF v(1-3)]
  then have c1: "cc_ok (me_fresh env) ?c" "cc_at (me_fresh env) ?c = p" "cc_stream net_pending (me_fresh env) ?c = S"
    "cc_ahead net_pending (me_fresh env) ?c = [1, 0] @ rest"
    using cc_reads_ahead [of _ net_pending "me_fresh env" S p ?c] S(1) by (auto simp: cc_reads_def)
  have "length S = p + (2 + length rest)" using arg_cong [OF S(1), of length] by simp
  with v(4) have room: "p + 2 + length rest \<le> CacheSize" by simp
  with net.cc_Peek_stream [OF TrueI c1(1), of 2] c1 obtain c2 where
    c2: "cc_Peek net_Read (me_fresh env) 2 ?c = Some (([1, 0], None), c2)" "cc_ok (me_fresh env) c2" "cc_at (me_fresh env) c2 = p + 2"
      "cc_ahead net_pending (me_fresh env) c2 = rest" by auto
  have fits: "cc_fits (\<lambda>_. True) net_pending (me_fresh env) c2" using c2 room by (simp add: cc_fits_def)
  have ping: "pings_back sv \<longrightarrow> cc_ahead net_pending (me_fresh env) c2 = frame ping @ tail \<and> length ping \<le> 9" using S(2) c2(4) by simp
  from answer_status_replies [OF env fits ping, of st ?mc w "set_mc ?mc m"]
  obtain i :: "(net_in, bytes, net_in, bytes) injected" where
    i: "answer_status env st sv ?mc c2 w (set_mc ?mc m) = Some i" "in_server i = None"
      "in_out i = w @ status_reply sv (me_render env (motd_json (mm_ProtocolVersion mc) sv (os_onlineCount st))) ping" by auto
  have handled: "handle_status env st sv ?mc ?c w (set_mc ?mc m) = Some i"
    using c2(1) i(1) sv(2) env(1) by (auto simp: handle_status_def stream_env_def)
  have valid: "mm_Valid mc" by (simp add: mm_Valid_def mc(2) IntentStatus_def)
  have "InjectConnection env st c w m = handle_status env st sv ?mc ?c w (set_mc ?mc m)"
    using sv valid unfolding InjectConnection_def mc(1) option.case inject_meta_def [symmetric] Let_def by (simp add: mc)
  then show ?thesis using handled i(2,3) by auto
qed

section \<open>Properties\<close>

text \<open>(C4)
  The server list: a client that asks for the status of a Minecraft outbound with a message of its own
  gets, over any segmentation of its stream, exactly one status response (the message of the day with
  the client's protocol version and the number of players online, as the encoder renders it) and then,
  by the ping mode, nothing, a pong with zeros, or its own ping back; no server is dialled.\<close>

theorem status_answered:
  assumes env: "stream_env env" "15 \<le> b_len (me_buf env)" "custom_pure renv" "rt_rules rt = pre @ r # rules"
    and before: "\<forall>r \<in> set pre. \<not> rule_holds renv m r" "rule_holds renv m r" "rc_Sniff (rule_Config r) = [''minecraft'']"
    and client: "concat cs = frame (handshake_bytes version host port IntentStatus) @ [1, 0] @ rest" "length (concat cs) \<le> CacheSize"
      "handshake_ok version host port" "md_Minecraft m = None" "pings_back sv \<longrightarrow> rest = frame ping @ tail \<and> length ping \<le> 9"
    and ms: "ms = with_mc (Some (sniffed_status version host port (length (frame (handshake_bytes version host port IntentStatus))))) m"
    and after: "\<forall>r \<in> set rules. rc_Sniff (rule_Config r) = [] \<and> rule_answers ms r"
      "route_player renv rt r rules ms = (Inr (RefNamed game), m')" "md_Minecraft m' = Some mc" "mm_NextState mc = IntentStatus"
    and outbound: "me_outbounds env game = Some (McOutbound st)" "ob_Minecraft (os_config st) = Some sv"
      "ms_MotdFavicon sv \<noteq> [] \<or> ms_MotdDescription sv \<noteq> []"
      "access_refuses (ms_HostnameAccess sv) (os_hostnameAccessLists st) (clean_host mc) = Some False"
  shows "\<exists>h. Router_HandleConnection renv env rt (NewCachedConn (map Chunk cs)) w m = Some h \<and>
      hd_events h = [RtRLock, RtRUnlock, RtInject (RefNamed game), RtCloseCached] \<and>
      hd_out h = w @ status_reply sv (me_render env (motd_json (scast version) sv (os_onlineCount st))) ping \<and> hd_server h = None"
proof -
  let ?f = "length (frame (handshake_bytes version host port IntentStatus))" and ?c = "NewCachedConn (map Chunk cs)"
  have fresh: "length (me_fresh env) = CacheSize" "me_Read env = net_Read" using env(1) by (simp_all add: stream_env_def)
  have v: "cc_reads (\<lambda>_. True) net_pending (me_fresh env) (concat cs) 0 ?c"
    by (rule cc_reads_new) (auto simp: fresh net_pending_chunks)
  have room: "?f + 2 \<le> CacheSize" using client(1,2) by simp
  from net.protocol_Sniff_status [OF v client(1) room client(3,4), where reg = "rt_snifferRegistry rt"] obtain c where
    c: "protocol_Sniff net_Read (me_fresh env) (rt_snifferRegistry rt) (rc_Sniff (rule_Config r)) ?c m = Some (c, ms)"
      "cc_reads (\<lambda>_. True) net_pending (me_fresh env) (concat cs) 0 c" "cc_cache c \<noteq> None" "?f \<le> cc_filled (me_fresh env) c"
    unfolding ms before(3) by auto
  have "md_Minecraft ms = Some (sniffed_status version host port ?f)" by (simp add: ms)
  from route_player_redirects [OF this, of renv rt r rules] after(2,3) have "redirected (sniffed_status version host port ?f) mc" by simp
  note red = redirected_fields [OF this]
  have mc: "mm_SniffPosition mc = int ?f" "mm_ProtocolVersion mc = scast version" by (simp_all add: red sniffed_status_def)
  let ?k = "snd (CleanOriginDestination mc)"
  have k: "md_Minecraft (noted m') = Some ?k" "mm_NextState ?k = IntentStatus" "mm_SniffPosition ?k = int ?f"
    "mm_ProtocolVersion ?k = scast version" "clean_host ?k = clean_host mc"
    using after(3,4) mc by (simp_all add: CleanOriginDestination_def clean_host_def split: prod.splits)
  have S: "drop ?f (concat cs) = [1, 0] @ rest" by (simp add: client(1))
  note inj = InjectConnection_status [OF env(1,2) c(2-4) client(2) S client(5) _ _ _ outbound(2,3), where w = w]
  have sn: "rc_Sniff (rule_Config r) \<noteq> []" by (simp add: before(3))
  show ?thesis
    by (rule routed_injection [OF fresh(2) env(3,4) client(4) before(1,2) sn c(1) after(1,2) outbound(1)])
      (use inj [OF after(3,4) mc(1) outbound(4)] inj [OF k(1-3)] mc(2) k(4,5) outbound(4) in auto)
qed

text \<open>The lobby again, with an outbound that has a message of its own and returns pings.\<close>

definition motd_mc :: mc_service where
  "motd_mc = sample_mc\<lparr>ms_MotdDescription := ''A server''\<rparr>"

definition motd_state :: outbound_state where
  "motd_state = sample_state\<lparr>os_config := sample_outbound\<lparr>ob_Minecraft := Some motd_mc\<rparr>, os_onlineCount := 3\<rparr>"

definition motd_env :: "(net_in, bytes, net_in, bytes) mc_env" where
  "motd_env = sample_env\<lparr>me_outbounds := [''game'' \<mapsto> McOutbound motd_state]\<rparr>"

definition open_rule :: "(ip_entry list, unit) rule" where
  "open_rule = RuleMinecraftStatus (zero_rule\<lparr>rc_Type := ''MinecraftStatus'', rc_Outbound := ''game''\<rparr>)"

definition status_router :: "(net_in, ip_entry list, unit) router" where
  "status_router = (plain_router [])\<lparr>rt_rules := [other_rule, sniff_rule, open_rule]\<rparr>"

definition ping_stream :: bytes where
  "ping_stream = frame (handshake_bytes 767 ''play.example.org'' 25565 IntentStatus) @ [1, 0] @ frame (1 # [1, 2, 3, 4, 5, 6, 7, 8])"

lemma ping_facts:
  "handshake_ok 767 ''play.example.org'' 25565" "length ping_stream \<le> CacheSize"
  by code_simp+

theorem status_answered_witness:
  "\<exists>h. Router_HandleConnection plain_rules motd_env status_router
       (NewCachedConn (map Chunk [take 9 ping_stream, drop 9 ping_stream])) [] lobby_metadata = Some h \<and>
     hd_out h = frame (0 # str_field [123, 125]) @ frame [1, 1, 2, 3, 4, 5, 6, 7, 8] \<and> hd_server h = None"
proof -
  let ?cs = "[take 9 ping_stream, drop 9 ping_stream]"
  let ?mc = "sniffed_status 767 ''play.example.org'' 25565 (length (frame (handshake_bytes 767 ''play.example.org'' 25565 IntentStatus)))"
  have env: "stream_env motd_env" using sample_env_ok by (simp add: stream_env_def motd_env_def)
  have cs: "concat ?cs = frame (handshake_bytes 767 ''play.example.org'' 25565 IntentStatus) @ [1, 0] @ frame [1, 1, 2, 3, 4, 5, 6, 7, 8]"
    unfolding ping_stream_def [symmetric] by simp
  have len: "length (concat ?cs) \<le> CacheSize" "15 \<le> b_len (me_buf motd_env)"
    using ping_facts(2) sample_selectors(3) by (simp_all add: motd_env_def)
  have pre: "custom_pure plain_rules" "rt_rules status_router = [other_rule] @ sniff_rule # [open_rule]"
    "\<forall>r \<in> set [other_rule]. \<not> rule_holds plain_rules lobby_metadata r" "rule_holds plain_rules lobby_metadata sniff_rule"
    "rc_Sniff (rule_Config sniff_rule) = [''minecraft'']" "md_Minecraft lobby_metadata = None"
    by (simp_all add: custom_pure_def plain_rules_def status_router_def other_rule_def sniff_rule_def zero_rule_def lobby_metadata_def zero_metadata_def)
  have after: "\<forall>r \<in> set [open_rule]. rc_Sniff (rule_Config r) = [] \<and> rule_answers (with_mc (Some ?mc) lobby_metadata) r"
    "route_player plain_rules status_router sniff_rule [open_rule] (with_mc (Some ?mc) lobby_metadata) =
       (Inr (RefNamed ''game''), with_mc (Some ?mc) lobby_metadata)"
    "md_Minecraft (with_mc (Some ?mc) lobby_metadata) = Some ?mc" "mm_NextState ?mc = IntentStatus"
    by (simp_all add: route_player_def status_router_def plain_router_def open_rule_def sniff_rule_def zero_rule_def zero_rewrite_def apply_rewrite_def
        findOutboundByName_def sniffed_status_def new_mc_metadata_def)
  have out: "me_outbounds motd_env ''game'' = Some (McOutbound motd_state)" "ob_Minecraft (os_config motd_state) = Some motd_mc"
    "ms_MotdFavicon motd_mc \<noteq> [] \<or> ms_MotdDescription motd_mc \<noteq> []"
    "access_refuses (ms_HostnameAccess motd_mc) (os_hostnameAccessLists motd_state) (clean_host ?mc) = Some False"
    by (simp_all add: motd_env_def motd_state_def motd_mc_def sample_mc_def access_refuses_def DefaultMode_def)
  have mode: "pings_back motd_mc \<longrightarrow> frame [1, 1, 2, 3, 4, 5, 6, 7, 8] = frame [1, 1, 2, 3, 4, 5, 6, 7, 8] @ [] \<and> length [1, 1, 2, 3, 4, 5, 6, 7, 8 :: byte] \<le> 9"
    by simp
  have reply: "status_reply motd_mc (me_render motd_env j) p = frame (0 # str_field [123, 125]) @ frame p" for j p
    by (simp add: status_reply_def motd_mc_def sample_mc_def pingMode0ms_def pingModeDisconnect_def motd_env_def sample_env_def)
  from status_answered [OF env len(2) pre(1-5) cs len(1) ping_facts(1) pre(6) mode refl after out, of "[]", unfolded reply]
  show ?thesis by auto
qed

end
