(* ===== verification/StatusProxyFacts.thy ===== *)
theory StatusProxyFacts
  imports StatusFacts
begin

text \<open>
  A client that asks for the status of an outbound without a message of its own: the request goes on to
  the server. Bytes that the client has sent along with the request are in the cache when the relay
  starts, which then does not end.
\<close>

section \<open>A stream in two parts\<close>

text \<open>The reading of the first segments only, up to a boundary between two segments.\<close>

definition splits_at :: "bytes list \<Rightarrow> net_in \<Rightarrow> bool" where
  "splits_at later s \<longleftrightarrow> (\<exists>ds. s = map Chunk (ds @ later))"

definition head_pending :: "bytes list \<Rightarrow> net_in \<Rightarrow> bytes" where
  "head_pending later s = take (length (net_pending s) - length (concat later)) (net_pending s)"

lemma head_pending_chunks: "head_pending later (map Chunk (ds @ later)) = concat ds"
proof -
  have "net_pending (map Chunk (ds @ later)) = concat ds @ concat later" by (simp add: net_pending_chunks flip: map_append)
  then show ?thesis by (simp add: head_pending_def del: length_concat)
qed

interpretation first_part: io_reader net_Read "head_pending later" length "splits_at later" for later
proof
  fix s :: net_in and k :: nat
  assume h: "splits_at later s" "0 < k" "head_pending later s \<noteq> []"
  then obtain ds where s: "s = map Chunk (ds @ later)" by (auto simp: splits_at_def)
  have "concat ds \<noteq> []" using h(3) unfolding s head_pending_chunks .
  then obtain d es where ds: "ds = d # es" by (cases ds) auto
  have c: "s = Chunk d # map Chunk (es @ later)" by (simp add: s ds)
  have ok: "splits_at later (map Chunk (es @ later))" "splits_at later (Chunk (drop k d) # map Chunk (es @ later))"
    unfolding splits_at_def by (blast, rule exI [of _ "drop k d # es"], simp)
  have p: "head_pending later s = d @ concat es" "head_pending later (map Chunk (es @ later)) = concat es"
    "head_pending later (Chunk (drop k d) # map Chunk (es @ later)) = drop k d @ concat es"
    using head_pending_chunks [of later ds] head_pending_chunks [of later es] head_pending_chunks [of later "drop k d # es"]
    by (simp_all add: s ds)
  show "\<exists>bs s'. net_Read k s = Some ((bs, None), s') \<and> head_pending later s = bs @ head_pending later s' \<and>
      splits_at later s' \<and> length bs \<le> k \<and> length s' \<le> length s \<and> (length s' < length s \<or> length bs = k)"
    using ok p h(2) unfolding c by simp
qed

section \<open>Forwarding the request\<close>

text \<open>The request that goes to the server in one write: the handshake, then the status request.\<close>

lemma proxy_status_relays:
  assumes env: "stream_env env"
    and conn: "connectServer (me_dial env) (me_outbounds env) st m = Some (Inr (sR, wR), m1)"
    and mc: "md_Minecraft m = Some mc" "markup_ok mc"
    and size: "7 + int (length (handshake_bytes (ucast (mm_ProtocolVersion mc)) (fst (server_hostname (os_config st) sv mc))
                 (server_port mc) IntentStatus)) \<le> b_len (me_buf env)"
  shows "\<exists>m2. proxy_status env st sv c w m = relay env [EvUnlock] []
    (sR, wR @ frame (handshake_bytes (ucast (mm_ProtocolVersion mc)) (fst (server_hostname (os_config st) sv mc)) (server_port mc) IntentStatus) @ [1, 0]) c w m2"
proof -
  define mc1 where "mc1 = (if mm_RewrittenDestination mc = []
      then (case CleanOriginDestination mc of (clean, mc) \<Rightarrow> mc\<lparr>mm_RewrittenDestination := clean\<rparr>) else mc)"
  define mc2 where "mc2 = (if mm_RewrittenPort mc1 = 0 then mc1\<lparr>mm_RewrittenPort := mm_OriginPort mc1\<rparr> else mc1)"
  have ok2: "markup_ok mc2" using mc(2) by (simp add: mc2_def mc1_def CleanOriginDestination_eq markup_ok_def origin_markup_def)
  have same: "fst (server_hostname (os_config st) sv mc2) = fst (server_hostname (os_config st) sv mc)"
    unfolding server_hostname_eq [OF ok2] server_hostname_eq [OF mc(2)]
    by (simp add: mc2_def mc1_def CleanOriginDestination_eq clean_host_def IsFML_def origin_markup_def)
  obtain host mc3 where host: "server_hostname (os_config st) sv mc2 = (host, mc3)" by fastforce
  have "server_port mc3 = server_port mc2" "mm_ProtocolVersion mc3 = mm_ProtocolVersion mc2"
    using host by (auto simp: server_hostname_def server_port_def Let_def CleanOriginDestination_eq FMLMarkup_def
        split: if_splits prod.splits)
  then have port: "server_port mc3 = server_port mc" "mm_ProtocolVersion mc3 = mm_ProtocolVersion mc"
    by (simp_all add: mc2_def mc1_def CleanOriginDestination_eq server_port_def)
  have m1: "md_Minecraft m1 = Some mc" using connectServer_meta [OF conn] mc(1) by simp
  let ?h = "handshake_bytes (ucast (mm_ProtocolVersion mc)) host (server_port mc) IntentStatus"
  have h: "fst (server_hostname (os_config st) sv mc) = host" using same host by simp
  have "5 + int (length ?h + 2) \<le> b_len (me_buf env)" using size unfolding h by simp
  from handshake_packet_frame [OF new_buffer_room [OF env this]] obtain b where
    b: "handshake_packet (new_buffer env) (mm_ProtocolVersion mc) host (server_port mc) IntentStatus = Some b"
      "buf_wf b" "buf_bytes b = frame ?h" "2 \<le> buf_free b" by blast
  have b1: "Buffer_WriteByte b 1 = Some (None, Buffer_absorb b [1])" "buf_wf (Buffer_absorb b [1])" "buf_bytes (Buffer_absorb b [1]) = frame ?h @ [1]"
    "1 \<le> buf_free (Buffer_absorb b [1])"
    using Buffer_WriteByte_fits [OF b(2), of 1] buf_append [OF b(2), of "[1]"] b(3,4) by simp_all
  have b2: "Buffer_WriteByte (Buffer_absorb b [1]) 0 = Some (None, Buffer_absorb (Buffer_absorb b [1]) [0])"
    "buf_wf (Buffer_absorb (Buffer_absorb b [1]) [0])" "buf_bytes (Buffer_absorb (Buffer_absorb b [1]) [0]) = frame ?h @ [1, 0]"
    using Buffer_WriteByte_fits [OF b1(2), of 0] buf_append [OF b1(2), of "[0]"] b1(3,4) by simp_all
  note e = env [unfolded stream_env_def]
  show ?thesis
    unfolding h
    using e conn b(1) b1(1) b2 m1
    by (simp add: proxy_status_def mc1_def [symmetric] mc2_def [symmetric] host port ignore_err_def stream_writer_def) blast
qed

lemma proxy_status_streams:
  assumes env: "stream_env env" and c: "case cc_cache c of None \<Rightarrow> True | Some k \<Rightarrow> Buffer_Len k = 0" "orderly (cc_conn c)"
    and conn: "connectServer (me_dial env) (me_outbounds env) st m = Some (Inr (map Chunk rs, wR), m1)"
    and mc: "md_Minecraft m = Some mc" "markup_ok mc"
    and size: "7 + int (length (handshake_bytes (ucast (mm_ProtocolVersion mc)) (fst (server_hostname (os_config st) sv mc))
                 (server_port mc) IntentStatus)) \<le> b_len (me_buf env)"
  shows "\<exists>i. proxy_status env st sv c w m = Some i \<and> in_out i = w @ concat rs \<and>
      in_server i = Some ([], wR @ frame (handshake_bytes (ucast (mm_ProtocolVersion mc))
        (fst (server_hostname (os_config st) sv mc)) (server_port mc) IntentStatus) @ [1, 0] @ net_pending (cc_conn c))"
proof -
  note e = env [unfolded stream_env_def]
  have cp: "relay_buf (me_copybuf env)" using e by simp
  from proxy_status_relays [OF env conn mc size, of c w] obtain m2 where
    m2: "proxy_status env st sv c w m = relay env [EvUnlock] [] (map Chunk rs, wR @ frame (handshake_bytes (ucast (mm_ProtocolVersion mc))
      (fst (server_hostname (os_config st) sv mc)) (server_port mc) IntentStatus) @ [1, 0]) c w m2" ..
  show ?thesis
    unfolding m2 using e CopyConn_streams [OF cp cp c, where rs = rs and w = w] by (simp add: relay_def McOutbound.returns_def)
qed

text \<open>A ping that the client has sent along with the request keeps the relay from ever ending.\<close>

lemma proxy_status_pipelined:
  assumes env: "stream_env env" and c: "cc_cache c = Some k" "Buffer_Len k \<noteq> 0"
    and conn: "connectServer (me_dial env) (me_outbounds env) st m = Some (Inr (sR, wR), m1)"
    and mc: "md_Minecraft m = Some mc" "markup_ok mc"
    and size: "7 + int (length (handshake_bytes (ucast (mm_ProtocolVersion mc)) (fst (server_hostname (os_config st) sv mc))
                 (server_port mc) IntentStatus)) \<le> b_len (me_buf env)"
  shows "proxy_status env st sv c w m = None"
proof -
  have wr: "\<forall>bs w. \<exists>n w'. de_Write (me_dial env) bs w = Some ((n, None), w')"
    using env by (simp add: stream_env_def stream_writer_def)
  from proxy_status_relays [OF env conn mc size, of c w] show ?thesis
    by (auto simp: relay_def CopyConn_def CopyBuffer_unread [OF c wr])
qed

lemma InjectConnection_proxied:
  assumes env: "stream_env env"
    and v: "cc_reads (splits_at later) (head_pending later) (me_fresh env) S n c" "cc_cache c \<noteq> None" "p \<le> cc_filled (me_fresh env) c"
      "length S \<le> CacheSize" "drop p S = [1, 0]"
    and mc: "md_Minecraft m = Some mc" "mm_NextState mc = IntentStatus" "mm_SniffPosition mc = int p" "markup_ok mc"
    and sv: "ob_Minecraft (os_config st) = Some sv" "ms_MotdFavicon sv = []" "ms_MotdDescription sv = []"
      "access_refuses (ms_HostnameAccess sv) (os_hostnameAccessLists st) (clean_host mc) = Some False"
    and conn: "connectServer (me_dial env) (me_outbounds env) st m = Some (Inr (map Chunk rs, wR), m1)"
    and size: "7 + int (length (handshake_bytes (ucast (mm_ProtocolVersion mc)) (fst (server_hostname (os_config st) sv mc))
                 (server_port mc) IntentStatus)) \<le> b_len (me_buf env)"
  shows "\<exists>i. InjectConnection env st c w m = Some i \<and> in_out i = w @ concat rs \<and>
      in_server i = Some ([], wR @ frame (handshake_bytes (ucast (mm_ProtocolVersion mc))
        (fst (server_hostname (os_config st) sv mc)) (server_port mc) IntentStatus) @ [1, 0] @ concat later)"
proof -
  let ?mc = "inject_meta sv mc" and ?c = "cc_Rewind (int p) c"
  note rw = first_part.cc_Rewind_view [OF v(1-3)]
  then have c1: "cc_ok (me_fresh env) ?c" "cc_at (me_fresh env) ?c = p" "splits_at later (cc_conn ?c)"
    "cc_ahead (head_pending later) (me_fresh env) ?c = [1, 0]"
    using cc_reads_ahead [of "splits_at later" "head_pending later" "me_fresh env" S p ?c] v(5) by (auto simp: cc_reads_def)
  have room: "p + 2 \<le> CacheSize" using v(4) arg_cong [OF v(5), of length] by simp
  with first_part.cc_Peek_stream [OF c1(3,1), of 2] c1 obtain c2 where
    c2: "cc_Peek net_Read (me_fresh env) 2 ?c = Some (([1, 0], None), c2)" "splits_at later (cc_conn c2)"
      "cc_ahead (head_pending later) (me_fresh env) c2 = []" "cc_ok (me_fresh env) c2" by auto
  from c2(2) obtain ds where ds: "cc_conn c2 = map Chunk (ds @ later)" by (auto simp: splits_at_def)
  have "concat ds = []" using c2(3) head_pending_chunks [of later ds] by (simp add: cc_ahead_def ds)
  then have rest: "net_pending (cc_conn c2) = concat later"
    unfolding ds net_pending_chunks concat_append by simp
  have empty: "case cc_cache c2 of None \<Rightarrow> True | Some k \<Rightarrow> Buffer_Len k = 0"
    using c2(3,4) by (auto simp: cc_ahead_def cc_buf_def cc_ok_def cache_ok_def Buffer_Len_bytes simp del: length_buf_bytes split: option.split)
  have ord: "orderly (cc_conn c2)" unfolding orderly_def ds by blast
  have k: "md_Minecraft (with_mc (Some ?mc) m) = Some ?mc" by simp
  have ok: "markup_ok ?mc" using mc(4) by (simp add: inject_meta_def markup_ok_Clean)
  note same = server_hostname_inject [OF mc(4), of "os_config st" sv]
  from proxy_status_streams [OF env empty ord connectServer_mc [OF conn] k ok, where sv = sv, unfolded rest same inject_meta_fields, OF size, of w]
  obtain i where i: "proxy_status env st sv c2 w (with_mc (Some ?mc) m) = Some i" "in_out i = w @ concat rs"
    "in_server i = Some ([], wR @ frame (handshake_bytes (ucast (mm_ProtocolVersion mc))
        (fst (server_hostname (os_config st) sv mc)) (server_port mc) IntentStatus) @ [1, 0] @ concat later)" by blast
  have handled: "handle_status env st sv ?mc ?c w (set_mc ?mc m) = Some i"
    using c2(1) i(1) sv(2,3) env by (simp add: handle_status_def stream_env_def set_mc_def)
  have valid: "mm_Valid mc" by (simp add: mm_Valid_def mc(2) IntentStatus_def)
  have "InjectConnection env st c w m = handle_status env st sv ?mc ?c w (set_mc ?mc m)"
    using sv valid unfolding InjectConnection_def mc(1) option.case inject_meta_def [symmetric] Let_def by (simp add: mc)
  then show ?thesis using handled i(2,3) by auto
qed

section \<open>Properties\<close>

text \<open>(C5)
  A proxied status: without a message of its own, a Minecraft outbound that reaches its server sends
  it the handshake (with the hostname and port that routing and the outbound decide) and the status
  request, then all that the client sends later, and the client gets everything the server
  answers. It matters that the client waits for the answer: \<open>later\<close> starts a new segment.\<close>

theorem status_proxied:
  assumes env: "stream_env env" "custom_pure renv" "rt_rules rt = pre @ r # rules"
    and before: "\<forall>r \<in> set pre. \<not> rule_holds renv m r" "rule_holds renv m r" "rc_Sniff (rule_Config r) = [''minecraft'']"
    and client: "concat cs = frame (handshake_bytes version host port IntentStatus) @ [1, 0]"
      "handshake_ok version host port" "md_Minecraft m = None"
    and ms: "ms = with_mc (Some (sniffed_status version host port (length (frame (handshake_bytes version host port IntentStatus))))) m"
    and after: "\<forall>r \<in> set rules. rc_Sniff (rule_Config r) = [] \<and> rule_answers ms r"
      "route_player renv rt r rules ms = (Inr (RefNamed game), m')" "md_Minecraft m' = Some mc" "mm_NextState mc = IntentStatus"
    and outbound: "me_outbounds env game = Some (McOutbound st)" "ob_Minecraft (os_config st) = Some sv"
      "ms_MotdFavicon sv = []" "ms_MotdDescription sv = []"
      "access_refuses (ms_HostnameAccess sv) (os_hostnameAccessLists st) (clean_host mc) = Some False"
      "connectServer (me_dial env) (me_outbounds env) st m' = Some (Inr (map Chunk rs, wR), m1)"
    and size: "7 + int (length (handshake_bytes version (fst (server_hostname (os_config st) sv mc)) (server_port mc) IntentStatus))
        \<le> b_len (me_buf env)"
  shows "\<exists>h. Router_HandleConnection renv env rt (NewCachedConn (map Chunk (cs @ later))) w m = Some h \<and>
      hd_events h = [RtRLock, RtRUnlock, RtInject (RefNamed game), RtCloseCached] \<and> hd_out h = w @ concat rs \<and>
      hd_server h = Some ([], wR @ frame (handshake_bytes version (fst (server_hostname (os_config st) sv mc)) (server_port mc) IntentStatus) @
        [1, 0] @ concat later)"
proof -
  let ?f = "length (frame (handshake_bytes version host port IntentStatus))" and ?c = "NewCachedConn (map Chunk (cs @ later))"
  have fresh: "length (me_fresh env) = CacheSize" "me_Read env = net_Read" using env(1) by (simp_all add: stream_env_def)
  have v: "cc_reads (splits_at later) (head_pending later) (me_fresh env) (concat cs) 0 ?c"
    by (rule cc_reads_new [OF fresh(1)]) (auto simp only: splits_at_def head_pending_chunks)
  have "?f \<le> 5 + 264"
    using client(2) length_leb128_le [of "of_nat (length (handshake_bytes version host port IntentStatus))"]
    by (simp add: handshake_ok_def frame_def)
  then have len: "length (concat cs) \<le> CacheSize" "?f + 2 \<le> CacheSize" using arg_cong [OF client(1), of length] by (simp_all add: CacheSize_def)
  from first_part.protocol_Sniff_status [OF v _ len(2) client(2,3), of "[]" "rt_snifferRegistry rt"] client(1) obtain c where
    c: "protocol_Sniff net_Read (me_fresh env) (rt_snifferRegistry rt) (rc_Sniff (rule_Config r)) ?c m = Some (c, ms)"
      "cc_reads (splits_at later) (head_pending later) (me_fresh env) (concat cs) 0 c" "cc_cache c \<noteq> None" "?f \<le> cc_filled (me_fresh env) c"
    unfolding ms before(3) by auto
  have "md_Minecraft ms = Some (sniffed_status version host port ?f)" by (simp add: ms)
  from route_player_redirects [OF this, of renv rt r rules] after(2,3) have "redirected (sniffed_status version host port ?f) mc" by simp
  note red = redirected_fields [OF this]
  have mc: "mm_SniffPosition mc = int ?f" "markup_ok mc" "ucast (mm_ProtocolVersion mc) = version"
    by (simp_all add: red sniffed_status_def new_mc_metadata_def markup_ok_def ucast_scast_version)
  let ?k = "snd (CleanOriginDestination mc)"
  have k: "md_Minecraft (noted m') = Some ?k" "mm_NextState ?k = IntentStatus" "mm_SniffPosition ?k = int ?f"
    "mm_ProtocolVersion ?k = mm_ProtocolVersion mc" "clean_host ?k = clean_host mc" "server_port ?k = server_port mc"
    "connectServer (me_dial env) (me_outbounds env) st (noted m') = Some (Inr (map Chunk rs, wR), with_mc (Some ?k) m1)"
    using after(3,4) mc connectServer_mc [OF outbound(6), of "Some ?k"]
    by (simp_all add: CleanOriginDestination_eq clean_host_def server_port_def noted_def)
  have S: "drop ?f (concat cs) = [1, 0]" by (simp add: client(1))
  note inj = InjectConnection_proxied [OF env(1) c(2-4) len(1) S _ _ _ _ outbound(2-4), where w = w and rs = rs and wR = wR]
  have sn: "rc_Sniff (rule_Config r) \<noteq> []" by (simp add: before(3))
  show ?thesis
    by (rule routed_injection [OF fresh(2) env(2,3) client(3) before(1,2) sn c(1) after(1,2) outbound(1)])
      (use inj [OF after(3,4) mc(1,2) outbound(5,6)] inj [OF k(1-3) markup_ok_Clean _ k(7)] size
        server_hostname_noted [OF mc(2)] mc(3) k(4-6) outbound(5) in auto)
qed

definition request_stream :: bytes where
  "request_stream = frame (handshake_bytes 767 ''play.example.org'' 25565 IntentStatus) @ [1, 0]"

theorem status_proxied_witness:
  "\<exists>h. Router_HandleConnection plain_rules lobby_env status_router
       (NewCachedConn (map Chunk ([take 9 request_stream, drop 9 request_stream] @ [[9, 1], [2, 3]]))) [] lobby_metadata = Some h \<and>
     hd_out h = [7, 8] \<and>
     hd_server h = Some ([], frame (handshake_bytes 767 ''mc.server.net'' 25565 IntentStatus) @ [1, 0, 9, 1, 2, 3])"
proof -
  let ?cs = "[take 9 request_stream, drop 9 request_stream]"
  let ?mc = "sniffed_status 767 ''play.example.org'' 25565 (length (frame (handshake_bytes 767 ''play.example.org'' 25565 IntentStatus)))"
  have cs: "concat ?cs = frame (handshake_bytes 767 ''play.example.org'' 25565 IntentStatus) @ [1, 0]"
    unfolding request_stream_def [symmetric] by simp
  have pre: "custom_pure plain_rules" "rt_rules status_router = [other_rule] @ sniff_rule # [open_rule]"
    "\<forall>r \<in> set [other_rule]. \<not> rule_holds plain_rules lobby_metadata r" "rule_holds plain_rules lobby_metadata sniff_rule"
    "rc_Sniff (rule_Config sniff_rule) = [''minecraft'']" "md_Minecraft lobby_metadata = None"
    by (simp_all add: custom_pure_def plain_rules_def status_router_def other_rule_def sniff_rule_def zero_rule_def lobby_metadata_def zero_metadata_def)
  have after: "\<forall>r \<in> set [open_rule]. rc_Sniff (rule_Config r) = [] \<and> rule_answers (with_mc (Some ?mc) lobby_metadata) r"
    "route_player plain_rules status_router sniff_rule [open_rule] (with_mc (Some ?mc) lobby_metadata) =
       (Inr (RefNamed ''game''), with_mc (Some ?mc) lobby_metadata)"
    "md_Minecraft (with_mc (Some ?mc) lobby_metadata) = Some ?mc" "mm_NextState ?mc = IntentStatus"
    by (simp_all add: route_player_def status_router_def plain_router_def open_rule_def sniff_rule_def zero_rule_def zero_rewrite_def apply_rewrite_def
        findOutboundByName_def sniffed_status_def new_mc_metadata_def)
  have out: "me_outbounds lobby_env ''game'' = Some (McOutbound sample_state)" "ms_MotdFavicon sample_mc = []" "ms_MotdDescription sample_mc = []"
    "access_refuses (ms_HostnameAccess sample_mc) (os_hostnameAccessLists sample_state) (clean_host ?mc) = Some False"
    by (simp_all add: lobby_env_def sample_mc_def access_refuses_def DefaultMode_def)
  obtain m1 where conn: "connectServer (me_dial lobby_env) (me_outbounds lobby_env) sample_state (with_mc (Some ?mc) lobby_metadata)
     = Some (Inr (map Chunk [[7, 8]], []), m1)"
    using steve_served(4) connectServer_mc [where x = "Some ?mc"] by fastforce
  have host: "fst (server_hostname (os_config sample_state) sample_mc ?mc) = ''mc.server.net''" "server_port ?mc = 25565"
    by (simp_all add: server_hostname_def sample_mc_def IsFML_def sniffed_status_def server_port_def new_mc_metadata_def)
  have buf: "b_len (me_buf lobby_env) = 600" using sample_selectors(3) by (simp add: lobby_env_def)
  have size: "7 + int (length (handshake_bytes 767 (fst (server_hostname (os_config sample_state) sample_mc ?mc))
      (server_port ?mc) IntentStatus)) \<le> b_len (me_buf lobby_env)"
    unfolding host buf by code_simp
  from status_proxied [OF lobby_env_ok pre(1-5) cs ping_facts(1) pre(6) refl after out(1) sample_selectors(1) out(2-4) conn size,
      of "[[9, 1], [2, 3]]" "[]"]
  show ?thesis by (auto simp: host)
qed

end
