(* ===== verification/Instance.thy ===== *)
theory Instance
  imports Service
begin

text \<open>
  The program as a whole (zbproxy.go): an instance starts its outbounds, its router and its services
  from the configuration, and updates them when the configuration is reloaded.

  The outbounds are the map \<open>in_outbounds\<close> from names to outbounds, which the instance and the router
  share. The map is ranged over in the order of the configuration. \<open>start_env\<close> has what the parts
  need from outside: the icon, random numbers, \<open>time.ParseDuration\<close>, whether the ports can be opened,
  and what closing the listeners gives (by service name).
\<close>

record ('s, 'ip, 'c) zb_instance =
  is_config :: raw_root
  is_router :: "('s, 'ip, 'c) router"
  is_serviceMap :: "string \<rightharpoonup> service"
  is_outboundMap :: "string list option"
  is_outbounds :: "string \<rightharpoonup> outbound"
  is_ruleRegistry :: "'c registry"
  is_snifferRegistry :: "(string \<times> 's sniffer) list"

record ('ip, 'c) start_env =
  se_rules :: "('ip, 'c) rule_env"
  se_MOTD :: string
  se_rnd :: "nat \<Rightarrow> bytes"
  se_ParseDuration :: "string \<Rightarrow> int option"
  se_tcpErr :: "string \<Rightarrow> go_error option"
  se_udpErr :: "string \<Rightarrow> go_error option"
  se_tcpClose :: "string \<Rightarrow> go_error option"
  se_udpClose :: "string \<Rightarrow> go_error option outcome"

definition zero_router :: "('s, 'ip, 'c) router" where
  "zero_router =
     \<lparr>rt_started = False, rt_outboundMap = None, rt_listMap = None, rt_ruleRegistry = [], rt_snifferRegistry = [],
      rt_rules = [], rt_defaultOutbound = RefReject\<rparr>"

definition set_secret :: "string \<Rightarrow> outbound \<Rightarrow> outbound" where
  "set_secret secret o' = (case o' of Plain st \<Rightarrow> Plain (SetAuthSecret secret st) | McOutbound st \<Rightarrow> McOutbound (SetAuthSecret secret st))"

definition outbound_PostInitialize ::
  "('ip, 'c) start_env \<Rightarrow> provider \<Rightarrow> outbound \<Rightarrow> (go_error option \<times> outbound) option" where
  "outbound_PostInitialize env pv o' =
     (case o' of
        Plain st \<Rightarrow> Some (map_prod id Plain (plain_PostInitialize (se_ParseDuration env) pv st))
      | McOutbound st \<Rightarrow> map_option (map_prod id McOutbound) (mc_PostInitialize (se_MOTD env) (se_rnd env) (se_ParseDuration env) pv st))"

definition outbound_Reload ::
  "('ip, 'c) start_env \<Rightarrow> provider \<Rightarrow> outbound_config \<Rightarrow> outbound \<Rightarrow> (go_error option \<times> outbound) option" where
  "outbound_Reload env pv c o' =
     (case o' of
        Plain st \<Rightarrow> Some (map_prod id Plain (plain_Reload (se_ParseDuration env) pv c st))
      | McOutbound st \<Rightarrow> map_option (map_prod id McOutbound) (mc_Reload (se_MOTD env) (se_rnd env) (se_ParseDuration env) pv c st))"

section \<open>Starting\<close>

text \<open>The first loop of \<open>Start\<close>: the outbounds in the order of the configuration, a later name replacing an earlier one.\<close>

fun make_outbounds ::
  "string \<Rightarrow> outbound_config list \<Rightarrow> string list \<Rightarrow> (string \<rightharpoonup> outbound) \<Rightarrow> go_error + string list \<times> (string \<rightharpoonup> outbound)" where
  "make_outbounds secret [] names obs = Inr (names, obs)"
| "make_outbounds secret (c # cs) names obs =
     (case protocol_NewOutbound (Some c) of
        Inl e \<Rightarrow> Inl (Cause (''initialize outbound ['' @ ob_Name c @ '']: '') e)
      | Inr o' \<Rightarrow>
          make_outbounds secret cs (if ob_Name c \<in> set names then names else names @ [ob_Name c])
            (obs(ob_Name c \<mapsto> set_secret secret o')))"

fun post_outbounds ::
  "('ip, 'c) start_env \<Rightarrow> provider \<Rightarrow> string list \<Rightarrow> (string \<rightharpoonup> outbound) \<Rightarrow>
   (go_error option \<times> (string \<rightharpoonup> outbound)) option" where
  "post_outbounds env pv [] obs = Some (None, obs)"
| "post_outbounds env pv (nm # names) obs = do {
     o' \<leftarrow> obs nm;
     (err, o') \<leftarrow> outbound_PostInitialize env pv o';
     let obs = obs(nm \<mapsto> o');
     (case err of
        Some e \<Rightarrow> Some (Some (Cause (''post initialize outbound ['' @ nm @ '']: '') e), obs)
      | None \<Rightarrow> post_outbounds env pv names obs)
   }"

definition router_options_of ::
  "('s, 'ip, 'c) zb_instance \<Rightarrow> string list \<Rightarrow> ('s, 'c) router_options" where
  "router_options_of i names =
     \<lparr>op_Config = rr_Router (is_config i), op_OutboundMap = Some names, op_ListMap = rr_Lists (is_config i),
      op_RuleRegistry = is_ruleRegistry i, op_SnifferRegistry = is_snifferRegistry i\<rparr>"

definition start_service ::
  "('ip, 'c) start_env \<Rightarrow> provider \<Rightarrow> string \<Rightarrow> service_config \<Rightarrow> (go_error option \<times> service) option" where
  "start_service env pv secret c =
     sv_Start (se_MOTD env) (se_rnd env) (se_ParseDuration env) pv (se_tcpErr env (sv_Name c)) (se_udpErr env (sv_Name c))
       (sv_SetAuthSecret secret (NewService c))"

fun start_services ::
  "('ip, 'c) start_env \<Rightarrow> provider \<Rightarrow> string \<Rightarrow> service_config list \<Rightarrow> (string \<rightharpoonup> service) \<Rightarrow>
   (go_error option \<times> (string \<rightharpoonup> service)) option" where
  "start_services env pv secret [] svs = Some (None, svs)"
| "start_services env pv secret (c # cs) svs = do {
     (err, s) \<leftarrow> start_service env pv secret c;
     (case err of
        Some e \<Rightarrow> Some (Some (Cause (''start service ['' @ sv_Name c @ '']: '') e), svs)
      | None \<Rightarrow> start_services env pv secret cs (svs(sv_Name c \<mapsto> s)))
   }"

definition Instance_Start ::
  "('ip, 'c) start_env \<Rightarrow> ('s, 'ip, 'c) zb_instance \<Rightarrow> (go_error option \<times> ('s, 'ip, 'c) zb_instance) option" where
  "Instance_Start env i =
     (case make_outbounds (rr_AuthSecret (is_config i)) (rr_Outbounds (is_config i)) [] Map.empty of
        Inl e \<Rightarrow> Some (Some e, i)
      | Inr (names, obs) \<Rightarrow>
          let i = i\<lparr>is_outboundMap := Some names, is_outbounds := obs, is_router := zero_router\<rparr> in do {
            (err, rt) \<leftarrow> Router_Initialize (se_rules env) (se_ParseDuration env) (router_options_of i names) zero_router;
            let i = i\<lparr>is_router := rt\<rparr>;
            (case err of
               Some e \<Rightarrow> Some (Some (Cause ''initialize router: '' e), i)
             | None \<Rightarrow> do {
                 (err, obs) \<leftarrow> post_outbounds env (router_provider rt) names obs;
                 let i = i\<lparr>is_outbounds := obs\<rparr>;
                 (case err of
                    Some e \<Rightarrow> Some (Some e, i)
                  | None \<Rightarrow> do {
                      (err, svs) \<leftarrow> start_services env (router_provider rt) (rr_AuthSecret (is_config i))
                        (rr_Services (is_config i)) Map.empty;
                      Some (err, i\<lparr>is_serviceMap := svs\<rparr>)
                    })
               })
          })"

section \<open>Updating\<close>

text \<open>
  The loop over the new outbounds: one with a name the instance has is reloaded, another is made (and
  not initialized). An error ends the update.
\<close>

fun update_outbounds ::
  "('ip, 'c) start_env \<Rightarrow> provider \<Rightarrow> string \<Rightarrow> string list option \<Rightarrow> outbound_config list \<Rightarrow> string list \<Rightarrow> (string \<rightharpoonup> outbound) \<Rightarrow>
   ((string list option) \<times> (string \<rightharpoonup> outbound)) option" where
  "update_outbounds env pv secret old [] names obs = Some (Some names, obs)"
| "update_outbounds env pv secret old (c # cs) names obs =
     (let names' = (if ob_Name c \<in> set names then names else names @ [ob_Name c]) in
      if (case old of None \<Rightarrow> False | Some l \<Rightarrow> ob_Name c \<in> set l) then do {
        o' \<leftarrow> obs (ob_Name c);
        (err, o') \<leftarrow> outbound_Reload env pv c (set_secret secret o');
        let obs = obs(ob_Name c \<mapsto> o');
        (case err of
           Some e \<Rightarrow> Some (None, obs)
         | None \<Rightarrow> update_outbounds env pv secret old cs names' obs)
      }
      else
        (case protocol_NewOutbound (Some c) of
           Inl e \<Rightarrow> Some (None, obs)
         | Inr o' \<Rightarrow> update_outbounds env pv secret old cs names' (obs(ob_Name c \<mapsto> set_secret secret o'))))"

text \<open>
  The loop over the new services. The result has the new map unless an error ended the loop, and the
  services as they are then (an error leaves the rest as they were).
\<close>

fun update_services ::
  "('ip, 'c) start_env \<Rightarrow> provider \<Rightarrow> string \<Rightarrow> service_config list \<Rightarrow> (string \<rightharpoonup> service) \<Rightarrow> (string \<rightharpoonup> service) \<Rightarrow>
   ((string \<rightharpoonup> service) option \<times> (string \<rightharpoonup> service)) outcome option" where
  "update_services env pv secret [] old new = Some (Returns (Some new, old))"
| "update_services env pv secret (c # cs) old new =
     (case old (sv_Name c) of
        Some s \<Rightarrow>
          on_return (sv_Reload (se_tcpClose env (sv_Name c)) (se_udpClose env (sv_Name c)) (se_MOTD env) (se_rnd env) (se_ParseDuration env) pv
              (se_tcpErr env (sv_Name c)) (se_udpErr env (sv_Name c)) c (sv_SetAuthSecret secret s))
            (\<lambda>(err, s).
               let old = old(sv_Name c \<mapsto> s) in
               (case err of
                  Some e \<Rightarrow> Some (Returns (None, old))
                | None \<Rightarrow> update_services env pv secret cs old (new(sv_Name c \<mapsto> s))))
      | None \<Rightarrow> do {
          (err, s) \<leftarrow> start_service env pv secret c;
          (case err of
             Some e \<Rightarrow> Some (Returns (None, old))
           | None \<Rightarrow> update_services env pv secret cs old (new(sv_Name c \<mapsto> s)))
        })"

text \<open>\<open>UpdateConfig\<close>, called when \<open>is_config\<close> has been replaced; the errors are only logged. It does not
  return (\<open>Some Blocks\<close>) when closing a service does not.\<close>

definition Instance_UpdateConfig ::
  "('ip, 'c) start_env \<Rightarrow> ('s, 'ip, 'c) zb_instance \<Rightarrow> ('s, 'ip, 'c) zb_instance outcome option" where
  "Instance_UpdateConfig env i = do {
     (names, obs) \<leftarrow> update_outbounds env (reload_provider (is_router i) (rr_Lists (is_config i)))
       (rr_AuthSecret (is_config i)) (is_outboundMap i) (rr_Outbounds (is_config i)) [] (is_outbounds i);
     let i = i\<lparr>is_outbounds := obs\<rparr>;
     (case names of
        None \<Rightarrow> Some (Returns i)
      | Some names \<Rightarrow> do {
          (err, rt) \<leftarrow> Router_UpdateConfig (se_rules env) (se_ParseDuration env) (router_options_of i names) (is_router i);
          let i = i\<lparr>is_router := rt\<rparr>;
          (case err of
             Some e \<Rightarrow> Some (Returns i)
           | None \<Rightarrow>
               on_return (update_services env (router_provider rt) (rr_AuthSecret (is_config i))
                   (rr_Services (is_config i)) (is_serviceMap i) Map.empty)
                 (\<lambda>(new, svs). Some (Returns (case new of
                      None \<Rightarrow> i\<lparr>is_serviceMap := svs\<rparr>
                    | Some m \<Rightarrow> i\<lparr>is_outboundMap := Some names, is_serviceMap := m\<rparr>))))
        })
   }"

text \<open>A reload that the configuration's loop accepts: the new contents, then the update.\<close>

definition Instance_reload ::
  "('ip, 'c) start_env \<Rightarrow> raw_root \<Rightarrow> ('s, 'ip, 'c) zb_instance \<Rightarrow> ('s, 'ip, 'c) zb_instance outcome option" where
  "Instance_reload env raw i = Instance_UpdateConfig env (i\<lparr>is_config := raw\<rparr>)"

end
