(* ===== verification/InstanceFacts.thy ===== *)
theory InstanceFacts
  imports Instance HopFacts
begin

text \<open>
  What a started instance guarantees (every outbound has a dialer, every name it refers to exists, every
  configured service listens), what it does not (dialers in a cycle are accepted), and what a reload
  breaks (an outbound that a reload adds is never initialized).
\<close>

section \<open>Initialized outbounds\<close>

fun outbound_state_of :: "outbound \<Rightarrow> outbound_state" where
  "outbound_state_of (Plain st) = st"
| "outbound_state_of (McOutbound st) = st"

text \<open>The outbound a dialer refers to, inside SOCKS clients.\<close>

fun dialer_name :: "dialer \<Rightarrow> string option" where
  "dialer_name (SystemDialer opts) = None"
| "dialer_name (OutboundDialer nm) = Some nm"
| "dialer_name (SocksDialer d c) = dialer_name d"

definition linked :: "provider \<Rightarrow> outbound_state \<Rightarrow> bool" where
  "linked pv st \<longleftrightarrow> (\<exists>d. os_dialer st = Some d \<and>
     dialer_name d = (if ob_Dialer (os_config st) = [] then None else Some (ob_Dialer (os_config st))) \<and>
     (\<forall>nm. dialer_name d = Some nm \<longrightarrow> pv_FindOutboundByName pv nm = None))"

lemma wrap_socks_name [simp]: "dialer_name (wrap_socks c d) = dialer_name d"
  by (simp add: wrap_socks_def Let_def)

lemma post_transport_linked:
  assumes "post_transport ParseDuration pv st = (None, st')"
  shows "linked pv st' \<and> os_config st' = os_config st"
  using assms
  by (auto simp: post_transport_def choose_dialer_def linked_def Let_def split: if_splits option.splits prod.splits)

definition of_config :: "outbound_config \<Rightarrow> outbound \<Rightarrow> bool" where
  "of_config c o' \<longleftrightarrow> ob_Dialer (os_config (outbound_state_of o')) = ob_Dialer c \<and>
     ResolvedTransport (os_config (outbound_state_of o')) = ResolvedTransport c \<and>
     ob_ProxyOptions (os_config (outbound_state_of o')) = ob_ProxyOptions c \<and>
     (case o' of Plain st \<Rightarrow> ob_Minecraft c = None | McOutbound st \<Rightarrow> ob_Minecraft c \<noteq> None)"

lemma ResolvedTransport_mc [simp]: "ResolvedTransport (c\<lparr>ob_Minecraft := x\<rparr>) = ResolvedTransport c"
  by (simp add: ResolvedTransport_def)

lemma mc_PostInitialize_linked:
  assumes "mc_PostInitialize motd rnd ParseDuration pv st = Some (None, st')"
  shows "linked pv st' \<and> (\<exists>x. os_config st' = (os_config st)\<lparr>ob_Minecraft := x\<rparr>)"
proof -
  obtain ms where ms: "ob_Minecraft (os_config st) = Some ms" using assms by (auto simp: mc_PostInitialize_def bind_eq_Some_conv)
  obtain hl nl where l: "load_lists pv (ms_HostnameAccess ms) (os_hostnameAccessLists st) = Inr hl"
    "load_lists pv (ms_NameAccess ms) (os_nameAccessLists st) = Inr nl"
    using assms ms by (cases "load_lists pv (ms_HostnameAccess ms) (os_hostnameAccessLists st)";
      cases "load_lists pv (ms_NameAccess ms) (os_nameAccessLists st)") (auto simp: mc_PostInitialize_def Let_def)
  have "\<exists>ms3. post_transport ParseDuration pv (st\<lparr>os_hostnameAccessLists := hl, os_nameAccessLists := nl,
        os_config := (os_config st)\<lparr>ob_Minecraft := Some ms3\<rparr>\<rparr>) = (None, st')"
    using assms unfolding mc_PostInitialize_def ms Let_def bind.bind_lunit
    by (simp add: l bind_eq_Some_conv, elim exE conjE, rename_tac y, case_tac y) auto
  then obtain ms3 where "post_transport ParseDuration pv (st\<lparr>os_hostnameAccessLists := hl, os_nameAccessLists := nl,
        os_config := (os_config st)\<lparr>ob_Minecraft := Some ms3\<rparr>\<rparr>) = (None, st')" by blast
  then show ?thesis using post_transport_linked by fastforce
qed

lemma outbound_PostInitialize_linked:
  assumes "outbound_PostInitialize env pv o1 = Some (None, o2)" "of_config c o1"
  shows "linked pv (outbound_state_of o2) \<and> of_config c o2"
proof (cases o1)
  case (Plain st)
  then obtain st' where "post_transport (se_ParseDuration env) pv st = (None, st')" "o2 = Plain st'"
    using assms(1) by (cases "post_transport (se_ParseDuration env) pv st") (auto simp: outbound_PostInitialize_def plain_PostInitialize_def)
  then show ?thesis using post_transport_linked assms(2) Plain by (fastforce simp: of_config_def)
next
  case (McOutbound st)
  then obtain st' where "mc_PostInitialize (se_MOTD env) (se_rnd env) (se_ParseDuration env) pv st = Some (None, st')" "o2 = McOutbound st'"
    using assms(1) by (auto simp: outbound_PostInitialize_def)
  then show ?thesis using mc_PostInitialize_linked assms(2) McOutbound by (fastforce simp: of_config_def)
qed

lemma set_secret_config [simp]: "of_config c (set_secret secret o') = of_config c o'"
  by (cases o') (simp_all add: set_secret_def of_config_def SetAuthSecret_def split: sum.split)

lemma NewOutbound_config: "protocol_NewOutbound (Some c) = Inr o' \<Longrightarrow> of_config c o' \<and> os_dialer (outbound_state_of o') = None"
  by (auto simp: protocol_NewOutbound_def mc_NewOutbound_def of_config_def new_outbound_state_def split: if_splits)

section \<open>The loops of a start\<close>

lemma make_outbounds_spec:
  "make_outbounds secret cs names obs = Inr (names', obs') \<Longrightarrow>
   set names' = set names \<union> ob_Name ` set cs \<and> dom obs' = dom obs \<union> ob_Name ` set cs \<and>
   (\<forall>nm o'. obs' nm = Some o' \<longrightarrow> obs nm = Some o' \<or> (\<exists>c \<in> set cs. ob_Name c = nm \<and> of_config c o'))"
proof (induction cs arbitrary: names obs)
  case (Cons c cs)
  then obtain o1 where o1: "protocol_NewOutbound (Some c) = Inr o1"
    "make_outbounds secret cs (if ob_Name c \<in> set names then names else names @ [ob_Name c]) (obs(ob_Name c \<mapsto> set_secret secret o1)) = Inr (names', obs')"
    by (auto split: sum.splits)
  note IH = Cons.IH [OF o1(2)]
  have "obs nm = Some o' \<or> (\<exists>c \<in> set (c # cs). ob_Name c = nm \<and> of_config c o')" if o': "obs' nm = Some o'" for nm o'
  proof -
    from IH o' have "(obs(ob_Name c \<mapsto> set_secret secret o1)) nm = Some o' \<or> (\<exists>c \<in> set cs. ob_Name c = nm \<and> of_config c o')" by blast
    then show ?thesis using NewOutbound_config [OF o1(1)] by (cases "nm = ob_Name c") auto
  qed
  moreover have "set names' = set names \<union> ob_Name ` set (c # cs)" using IH by (auto split: if_splits)
  moreover have "dom obs' = dom obs \<union> ob_Name ` set (c # cs)" using IH by auto
  ultimately show ?case by blast
qed simp

lemma post_outbounds_spec:
  assumes "\<And>nm o1 o2. P nm o1 \<Longrightarrow> outbound_PostInitialize env pv o1 = Some (None, o2) \<Longrightarrow> P nm o2 \<and> linked pv (outbound_state_of o2)"
  shows "post_outbounds env pv names obs = Some (None, obs') \<Longrightarrow> (\<And>nm o'. obs nm = Some o' \<Longrightarrow> P nm o') \<Longrightarrow>
   dom obs' = dom obs \<and> (\<forall>nm. nm \<notin> set names \<longrightarrow> obs' nm = obs nm) \<and>
   (\<forall>nm o'. obs' nm = Some o' \<longrightarrow> P nm o' \<and> (nm \<in> set names \<longrightarrow> linked pv (outbound_state_of o')))"
proof (induction names arbitrary: obs)
  case (Cons nm names)
  from Cons.prems(1) obtain o1 o2 where o: "obs nm = Some o1" "outbound_PostInitialize env pv o1 = Some (None, o2)"
    "post_outbounds env pv names (obs(nm \<mapsto> o2)) = Some (None, obs')"
    by (auto simp: Let_def bind_eq_Some_conv split: option.splits)
  have P2: "P nm o2 \<and> linked pv (outbound_state_of o2)" using assms Cons.prems(2) o by blast
  then have "P k o'" if "(obs(nm \<mapsto> o2)) k = Some o'" for k o' using that Cons.prems(2) by (cases "k = nm") auto
  note IH = Cons.IH [OF o(3) this]
  have "linked pv (outbound_state_of o')" if o': "obs' nm = Some o'" for o'
  proof (cases "nm \<in> set names")
    case False
    then have "o' = o2" using IH o' by auto
    then show ?thesis using P2 by simp
  qed (use IH o' in blast)
  moreover have "dom (obs(nm \<mapsto> o2)) = dom obs" using o(1) by auto
  then have "dom obs' = dom obs" using IH by metis
  moreover have "obs' k = obs k" if "k \<notin> set (nm # names)" for k using IH that by auto
  ultimately show ?case using IH \<open>dom obs' = dom obs\<close> by auto
qed simp

definition listening :: "service \<Rightarrow> bool" where
  "listening s \<longleftrightarrow> sv_started s \<and> (TCPEnabled (sv_config s) \<or> UDPEnabled (sv_config s)) \<and>
     (TCPEnabled (sv_config s) \<longrightarrow> sv_tcpListener s) \<and> (UDPEnabled (sv_config s) \<longrightarrow> sv_udpListener s)"

lemma start_listeners_listening: "start_listeners tcpErr udpErr s = (None, s') \<Longrightarrow> listening s'"
  by (auto simp: start_listeners_def Let_def listening_def split: if_splits)

lemma sv_Start_listening: "sv_Start motd rnd ParseDuration pv tcpErr udpErr s = Some (None, s') \<Longrightarrow> listening s'"
  by (auto simp: sv_Start_def bind_eq_Some_conv dest: start_listeners_listening split: if_splits option.splits sum.splits)

lemma start_services_spec:
  "start_services env pv secret cs svs = Some (None, svs') \<Longrightarrow> (\<And>s. s \<in> ran svs \<Longrightarrow> listening s) \<Longrightarrow>
   dom svs' = dom svs \<union> sv_Name ` set cs \<and> (\<forall>s \<in> ran svs'. listening s)"
proof (induction cs arbitrary: svs)
  case (Cons c cs)
  from Cons.prems(1) obtain s where s: "start_service env pv secret c = Some (None, s)"
    "start_services env pv secret cs (svs(sv_Name c \<mapsto> s)) = Some (None, svs')"
    by (auto simp: bind_eq_Some_conv split: option.splits)
  have l: "listening s" using s(1) sv_Start_listening by (auto simp: start_service_def)
  have "listening x" if "x \<in> ran (svs(sv_Name c \<mapsto> s))" for x
    using that l Cons.prems(2) by (auto simp: ran_def split: if_splits)
  note IH = Cons.IH [OF s(2) this]
  have "dom svs' = dom (svs(sv_Name c \<mapsto> s)) \<union> sv_Name ` set cs" "\<forall>s \<in> ran svs'. listening s" using IH by blast+
  then show ?case by auto
qed simp

lemma Router_Initialize_started:
  "Router_Initialize renv ParseDuration opts rt = Some (None, rt') \<Longrightarrow>
   rt_started rt' \<and> rt_outboundMap rt' = op_OutboundMap opts \<and> rt_listMap rt' = op_ListMap opts"
  unfolding Router_Initialize_def
  by (simp add: bind_eq_Some_conv split: if_splits; elim exE conjE; rename_tac y; case_tac y)
    (auto split: sum.splits)

lemma provider_finds:
  "pv_FindOutboundByName (router_provider rt) nm = None \<Longrightarrow> rt_outboundMap rt = Some names \<Longrightarrow> nm \<in> set names \<union> {''REJECT'', ''RESET''}"
  by (auto simp: router_provider_def findOutboundByName_def split: if_splits)

text \<open>What a successful start has done, for use in properties.\<close>

definition started :: "('s, 'ip, 'c) zb_instance \<Rightarrow> bool" where
  "started i \<longleftrightarrow> (\<exists>names. is_outboundMap i = Some names \<and> rt_outboundMap (is_router i) = Some names \<and> rt_started (is_router i) \<and>
     set names = ob_Name ` set (rr_Outbounds (is_config i)) \<and> dom (is_outbounds i) = set names \<and>
     (\<forall>nm o'. is_outbounds i nm = Some o' \<longrightarrow> linked (router_provider (is_router i)) (outbound_state_of o') \<and>
        (\<exists>c \<in> set (rr_Outbounds (is_config i)). ob_Name c = nm \<and> of_config c o')) \<and>
     dom (is_serviceMap i) = sv_Name ` set (rr_Services (is_config i)) \<and> (\<forall>s \<in> ran (is_serviceMap i). listening s))"

lemma Instance_Start_started:
  assumes "Instance_Start env i = Some (None, i')"
  shows "started i' \<and> is_config i' = is_config i"
proof -
  from assms obtain names obs where m: "make_outbounds (rr_AuthSecret (is_config i)) (rr_Outbounds (is_config i)) [] Map.empty = Inr (names, obs)"
    by (auto simp: Instance_Start_def split: sum.splits)
  let ?i1 = "i\<lparr>is_outboundMap := Some names, is_outbounds := obs, is_router := zero_router\<rparr>"
  from assms m obtain rt where r: "Router_Initialize (se_rules env) (se_ParseDuration env) (router_options_of ?i1 names) zero_router = Some (None, rt)"
    by (auto simp: Instance_Start_def Let_def bind_eq_Some_conv split: option.splits)
  from assms m r obtain obs2 where p: "post_outbounds env (router_provider rt) names obs = Some (None, obs2)"
    by (auto simp: Instance_Start_def Let_def bind_eq_Some_conv split: option.splits)
  from assms m r p obtain svs where s: "start_services env (router_provider rt) (rr_AuthSecret (is_config i)) (rr_Services (is_config i)) Map.empty = Some (None, svs)"
    "i' = ?i1\<lparr>is_router := rt, is_outbounds := obs2, is_serviceMap := svs\<rparr>"
    by (auto simp: Instance_Start_def Let_def bind_eq_Some_conv split: option.splits)
  note ms = make_outbounds_spec [OF m] and rs = Router_Initialize_started [OF r]
  let ?P = "\<lambda>nm o'. \<exists>c \<in> set (rr_Outbounds (is_config i)). ob_Name c = nm \<and> of_config c o'"
  have P: "?P nm o2 \<and> linked (router_provider rt) (outbound_state_of o2)"
    if "?P nm o1" "outbound_PostInitialize env (router_provider rt) o1 = Some (None, o2)" for nm o1 o2
    using that outbound_PostInitialize_linked by blast
  have P0: "?P nm o'" if "obs nm = Some o'" for nm o' using ms that by auto
  have "dom obs2 = dom obs \<and> (\<forall>nm. nm \<notin> set names \<longrightarrow> obs2 nm = obs nm) \<and>
     (\<forall>nm o'. obs2 nm = Some o' \<longrightarrow> ?P nm o' \<and> (nm \<in> set names \<longrightarrow> linked (router_provider rt) (outbound_state_of o')))"
    by (rule post_outbounds_spec [where P = ?P, OF _ p]) (fact P P0)+
  then have ps: "dom obs2 = dom obs"
    "\<And>nm o'. obs2 nm = Some o' \<Longrightarrow> ?P nm o' \<and> (nm \<in> set names \<longrightarrow> linked (router_provider rt) (outbound_state_of o'))" by blast+
  have names: "set names = ob_Name ` set (rr_Outbounds (is_config i))" "dom obs = set names" using ms by auto
  have "linked (router_provider rt) (outbound_state_of o') \<and> ?P nm o'" if "obs2 nm = Some o'" for nm o'
    using ps(1) ps(2) [OF that] names(2) that by blast
  moreover from start_services_spec [OF s(1)] have "dom svs = sv_Name ` set (rr_Services (is_config i))" "\<forall>s \<in> ran svs. listening s" by auto
  ultimately show ?thesis
    using names ps(1) rs by (auto simp: started_def s(2) router_options_of_def)
qed

section \<open>Properties\<close>

text \<open>(C15)
  A successful start leaves a complete instance: the router and the instance agree on the names, which
  are those of the configuration; every outbound has been initialized from a configuration of its name
  and of its kind and has a dialer; a dialer refers to the outbound its configuration names, which is
  one of the instance's or built in; and every configured service listens on what it enables.\<close>

theorem started_instance:
  assumes "Instance_Start env i = Some (None, i')"
  shows "\<exists>names. is_outboundMap i' = Some names \<and> rt_outboundMap (is_router i') = Some names \<and>
     set names = ob_Name ` set (rr_Outbounds (is_config i)) \<and> dom (is_outbounds i') = set names \<and>
     (\<forall>nm o'. is_outbounds i' nm = Some o' \<longrightarrow>
        (\<exists>c \<in> set (rr_Outbounds (is_config i)). ob_Name c = nm \<and> ((\<exists>st. o' = Plain st) \<longleftrightarrow> ob_Minecraft c = None) \<and>
           (\<exists>d. os_dialer (outbound_state_of o') = Some d \<and>
              dialer_name d = (if ob_Dialer c = [] then None else Some (ob_Dialer c)) \<and>
              (\<forall>nm. dialer_name d = Some nm \<longrightarrow> nm \<in> set names \<union> {''REJECT'', ''RESET''})))) \<and>
     dom (is_serviceMap i') = sv_Name ` set (rr_Services (is_config i)) \<and>
     (\<forall>s \<in> ran (is_serviceMap i'). sv_started s \<and> (TCPEnabled (sv_config s) \<longrightarrow> sv_tcpListener s) \<and>
        (UDPEnabled (sv_config s) \<longrightarrow> sv_udpListener s))"
proof -
  from Instance_Start_started [OF assms] obtain names where s: "is_outboundMap i' = Some names"
    "rt_outboundMap (is_router i') = Some names" "set names = ob_Name ` set (rr_Outbounds (is_config i))"
    "dom (is_outbounds i') = set names"
    "\<And>nm o'. is_outbounds i' nm = Some o' \<Longrightarrow> linked (router_provider (is_router i')) (outbound_state_of o') \<and>
        (\<exists>c \<in> set (rr_Outbounds (is_config i)). ob_Name c = nm \<and> of_config c o')"
    "dom (is_serviceMap i') = sv_Name ` set (rr_Services (is_config i))" "\<forall>s \<in> ran (is_serviceMap i'). listening s"
    unfolding started_def by metis
  have "\<exists>c \<in> set (rr_Outbounds (is_config i)). ob_Name c = nm \<and> ((\<exists>st. o' = Plain st) \<longleftrightarrow> ob_Minecraft c = None) \<and>
           (\<exists>d. os_dialer (outbound_state_of o') = Some d \<and>
              dialer_name d = (if ob_Dialer c = [] then None else Some (ob_Dialer c)) \<and>
              (\<forall>nm. dialer_name d = Some nm \<longrightarrow> nm \<in> set names \<union> {''REJECT'', ''RESET''}))" if o': "is_outbounds i' nm = Some o'" for nm o'
  proof -
    from s(5) [OF o'] obtain c where c: "c \<in> set (rr_Outbounds (is_config i))" "ob_Name c = nm" "of_config c o'" by blast
    from s(5) [OF o'] obtain d where d: "os_dialer (outbound_state_of o') = Some d"
      "dialer_name d = (if ob_Dialer c = [] then None else Some (ob_Dialer c))"
      "\<forall>nm. dialer_name d = Some nm \<longrightarrow> pv_FindOutboundByName (router_provider (is_router i')) nm = None"
      using c(3) by (auto simp: linked_def of_config_def)
    have "(\<exists>st. o' = Plain st) \<longleftrightarrow> ob_Minecraft c = None" using c(3) by (cases o') (auto simp: of_config_def)
    moreover have "\<forall>nm. dialer_name d = Some nm \<longrightarrow> nm \<in> set names \<union> {''REJECT'', ''RESET''}"
      using d(3) provider_finds [OF _ s(2)] by blast
    ultimately show ?thesis using c(1,2) d(1,2) by (intro bexI [of _ c] conjI exI [of _ d])
  qed
  then show ?thesis using s by (intro exI [of _ names]) (auto simp: listening_def)
qed

text \<open>A lobby that is reached through another outbound, and a service that needs the secret.\<close>

definition sample_start :: "(ip_entry list, unit) start_env" where
  "sample_start =
     \<lparr>se_rules = plain_rules, se_MOTD = ''icon'', se_rnd = (\<lambda>n. replicate n 7), se_ParseDuration = (\<lambda>_. None),
      se_tcpErr = (\<lambda>_. None), se_udpErr = (\<lambda>_. None),
      se_tcpClose = (\<lambda>_. None), se_udpClose = (\<lambda>_. Returns None)\<rparr>"

definition sample_root :: "outbound_config list \<Rightarrow> raw_root" where
  "sample_root obs =
     \<lparr>rr_Log = 1, rr_Services = [keyed_service], rr_Router = \<lparr>ro_DefaultOutbound = ''hop'', ro_Rules = []\<rparr>,
      rr_Outbounds = obs, rr_Lists = None, rr_AuthSecret = ''key''\<rparr>"

definition named_hop :: "string \<Rightarrow> string \<Rightarrow> outbound_config" where
  "named_hop nm next_hop = (chain_config next_hop)\<lparr>ob_Name := nm\<rparr>"

definition sample_instance :: "outbound_config list \<Rightarrow> (net_in, ip_entry list, unit) zb_instance" where
  "sample_instance obs =
     \<lparr>is_config = sample_root obs, is_router = zero_router, is_serviceMap = Map.empty, is_outboundMap = None,
      is_outbounds = Map.empty, is_ruleRegistry = [], is_snifferRegistry = []\<rparr>"

lemma named_hop_fields [simp]:
  "ob_Name (named_hop nm d) = nm" "ob_Dialer (named_hop nm d) = d" "ob_Minecraft (named_hop nm d) = None"
  "ob_SocketOptions (named_hop nm d) = None" "ob_ProxyOptions (named_hop nm d) = \<lparr>po_Type = [], po_Network = [], po_Address = []\<rparr>"
  "ob_ProxyProtocolVersion (named_hop nm d) = 0" "ob_UDPTargetPort (named_hop nm d) = 0"
  by (simp_all add: named_hop_def chain_config_def)

lemma named_hop_transport [simp]: "ResolvedTransport (named_hop nm d) = ''tcp''"
  by (simp add: named_hop_def chain_config_def ResolvedTransport_def NormalizeTransport_def)

definition hop_state :: "string \<Rightarrow> string \<Rightarrow> outbound_state" where
  "hop_state nm d = SetAuthSecret ''key'' (new_outbound_state (named_hop nm d))"

lemma hop_state_fields [simp]:
  "os_config (hop_state nm d) = named_hop nm d" "os_dialer (hop_state nm d) = None" "os_selector (hop_state nm d) = None"
  by (simp_all add: hop_state_def SetAuthSecret_def auth_Normalize_def auth_MaxLen_def new_outbound_state_def)

lemma hop_made [simp]: "protocol_NewOutbound (Some (named_hop nm d)) = Inr (Plain (new_outbound_state (named_hop nm d)))"
  by (simp add: protocol_NewOutbound_def)

lemma hop_secret [simp]: "set_secret ''key'' (Plain (new_outbound_state (named_hop nm d))) = Plain (hop_state nm d)"
  by (simp add: set_secret_def hop_state_def)

lemma hop_initialized:
  assumes "d = [] \<or> pv_FindOutboundByName pv d = None"
  shows "outbound_PostInitialize env pv (Plain (hop_state nm d)) =
    Some (None, Plain ((hop_state nm d)\<lparr>os_dialer := Some (if d = [] then SystemDialer None else OutboundDialer d)\<rparr>))"
  using assms
  by (auto simp: outbound_PostInitialize_def plain_PostInitialize_def post_transport_def choose_dialer_def wrap_socks_def
      socks_types_def pp_consts ModeUDP_def ModeAuto_def Let_def)

text \<open>The service and the router of the sample, whatever its outbounds.\<close>

lemma keyed_service_fields [simp]:
  "sv_Name keyed_service = ''game''" "sv_Minecraft keyed_service = None" "sv_TLSSniffing keyed_service = None"
  "ac_Mode (sv_IPAccess keyed_service) = []" "sv_EnableTCP keyed_service" "\<not> sv_EnableUDP keyed_service"
  by (simp_all add: keyed_service_def)

lemma sample_service_starts:
  "start_service sample_start pv ''key'' keyed_service =
     Some (None, hop_service\<lparr>sv_tcpListener := True, sv_started := True\<rparr>)"
  by (simp add: start_service_def sv_Start_def start_legacy_def start_listeners_def Let_def sample_start_def
      TCPEnabled_def UDPEnabled_def DefaultMode_def flip: hop_service_def)

definition sample_router :: "string list \<Rightarrow> (net_in, ip_entry list, unit) router" where
  "sample_router names = zero_router\<lparr>rt_started := True, rt_outboundMap := Some names, rt_defaultOutbound := RefNamed ''hop''\<rparr>"

lemma sample_finds: "pv_FindOutboundByName (router_provider (sample_router names)) nm = None \<longleftrightarrow> nm \<in> set names \<union> {''REJECT'', ''RESET''}"
  by (simp add: router_provider_def sample_router_def findOutboundByName_def)

lemma sample_starts:
  assumes "make_outbounds ''key'' obs [] Map.empty = Inr (names, made)" "''hop'' \<in> set names"
    "post_outbounds sample_start (router_provider (sample_router names)) names made = Some (None, linked_obs)"
  shows "Instance_Start sample_start (sample_instance obs) = Some (None, (sample_instance obs)
     \<lparr>is_outboundMap := Some names, is_outbounds := linked_obs, is_router := sample_router names,
      is_serviceMap := [''game'' \<mapsto> hop_service\<lparr>sv_tcpListener := True, sv_started := True\<rparr>]\<rparr>)"
proof -
  let ?i = "(sample_instance obs)\<lparr>is_outboundMap := Some names, is_outbounds := made, is_router := zero_router\<rparr>"
  have r: "Router_Initialize (se_rules sample_start) (se_ParseDuration sample_start) (router_options_of ?i names) zero_router =
      Some (None, sample_router names)"
    using assms(2) by (simp add: Router_Initialize_def router_options_of_def sample_instance_def sample_root_def sample_router_def
        zero_router_def findOutboundByName_def)
  have c: "is_config (sample_instance obs) = sample_root obs" "rr_Services (sample_root obs) = [keyed_service]"
    "rr_AuthSecret (sample_root obs) = ''key''" "rr_Outbounds (sample_root obs) = obs"
    by (simp_all add: sample_instance_def sample_root_def)
  show ?thesis
    unfolding Instance_Start_def c assms(1) by (simp add: Let_def r c assms(3) sample_service_starts)
qed

definition linked_hop :: "string \<Rightarrow> string \<Rightarrow> outbound" where
  "linked_hop nm d = Plain ((hop_state nm d)\<lparr>os_dialer := Some (if d = [] then SystemDialer None else OutboundDialer d)\<rparr>)"

lemma two_hops_start:
  assumes "nm1 \<noteq> nm2" "''hop'' \<in> {nm1, nm2}" "d1 \<in> {[], nm1, nm2}" "d2 \<in> {[], nm1, nm2}"
  shows "\<exists>i'. Instance_Start sample_start (sample_instance [named_hop nm1 d1, named_hop nm2 d2]) = Some (None, i') \<and>
     is_outboundMap i' = Some [nm1, nm2] \<and> is_router i' = sample_router [nm1, nm2] \<and>
     is_outbounds i' = [nm1 \<mapsto> linked_hop nm1 d1, nm2 \<mapsto> linked_hop nm2 d2]"
proof -
  have h: "outbound_PostInitialize sample_start (router_provider (sample_router [nm1, nm2])) (Plain (hop_state nm d)) =
      Some (None, linked_hop nm d)" if "d \<in> {d1, d2}" for nm d
    unfolding linked_hop_def using that assms(3,4) by (intro hop_initialized) (auto simp: sample_finds)
  have "make_outbounds ''key'' [named_hop nm1 d1, named_hop nm2 d2] [] Map.empty =
      Inr ([nm1, nm2], [nm1 \<mapsto> Plain (hop_state nm1 d1), nm2 \<mapsto> Plain (hop_state nm2 d2)])"
    using assms(1) by simp
  moreover have "''hop'' \<in> set [nm1, nm2]" using assms(2) by auto
  moreover have "post_outbounds sample_start (router_provider (sample_router [nm1, nm2])) [nm1, nm2]
      [nm1 \<mapsto> Plain (hop_state nm1 d1), nm2 \<mapsto> Plain (hop_state nm2 d2)] =
      Some (None, [nm1 \<mapsto> linked_hop nm1 d1, nm2 \<mapsto> linked_hop nm2 d2])"
    using assms(1) h by (simp add: fun_upd_twist [of nm1 nm2])
  ultimately show ?thesis using sample_starts by fastforce
qed

theorem started_instance_witness:
  "\<exists>i'. Instance_Start sample_start (sample_instance [named_hop ''hop'' [], named_hop ''lobby'' ''hop'']) = Some (None, i') \<and>
     (\<exists>st d. is_outbounds i' ''lobby'' = Some (Plain st) \<and> os_dialer st = Some d \<and> dialer_name d = Some ''hop'') \<and>
     dom (is_serviceMap i') = {''game''}"
proof -
  obtain i' where i': "Instance_Start sample_start (sample_instance [named_hop ''hop'' [], named_hop ''lobby'' ''hop'']) = Some (None, i')"
    "is_outbounds i' = [''hop'' \<mapsto> linked_hop ''hop'' [], ''lobby'' \<mapsto> linked_hop ''lobby'' ''hop'']"
    using two_hops_start [of "''hop''" "''lobby''" "[]" "''hop''"] by auto
  have c: "rr_Outbounds (is_config (sample_instance obs)) = obs" "rr_Services (is_config (sample_instance obs)) = [keyed_service]" for obs
    by (simp_all add: sample_instance_def sample_root_def)
  have l: "is_outbounds i' ''lobby'' = Some (linked_hop ''lobby'' ''hop'')" using i'(2) by simp
  note s = started_instance [OF i'(1), unfolded c]
  from s have "dom (is_serviceMap i') = {''game''}" by (elim exE conjE) simp
  moreover from s l have "\<exists>d. os_dialer (outbound_state_of (linked_hop ''lobby'' ''hop'')) = Some d \<and> dialer_name d = Some ''hop''"
    by (elim exE conjE) fastforce
  ultimately show ?thesis using i'(1) l by (auto simp: linked_hop_def)
qed

lemma no_ground_names:
  assumes "grounded ob meta d" "dialer_name d = Some nm" "nm \<in> S"
    "\<And>nm. nm \<in> S \<Longrightarrow> \<exists>st. dialed_outbound ob nm = Some (Plain st) \<and> current_mode st \<noteq> ModeUDP \<and>
       (\<forall>d. os_dialer st = Some d \<longrightarrow> (\<exists>nm'. dialer_name d = Some nm' \<and> nm' \<in> S))"
  shows False
  using assms(1-3)
proof (induction arbitrary: nm)
  case (nested k st meta d)
  then show ?case using assms(4) [of k] by fastforce
qed (use assms(4) in fastforce)+

text \<open>An outbound of a started instance whose dialer is another plain TCP outbound.\<close>

lemma started_nested:
  assumes "started i" "\<forall>c \<in> set (rr_Outbounds (is_config i)). ob_Name c \<in> S \<longrightarrow>
      ob_Minecraft c = None \<and> ResolvedTransport c = ''tcp'' \<and> ob_Dialer c \<in> S"
    and S: "S \<inter> {[], ''REJECT'', ''RESET''} = {}" "nm \<in> S" "nm \<in> dom (is_outbounds i)"
  shows "\<exists>st d nm'. is_outbounds i nm = Some (Plain st) \<and> current_mode st \<noteq> ModeUDP \<and> os_dialer st = Some d \<and>
     dialer_name d = Some nm' \<and> nm' \<in> S \<and> nm' \<in> dom (is_outbounds i)"
proof -
  from assms(1) obtain names where n: "rt_outboundMap (is_router i) = Some names" "dom (is_outbounds i) = set names"
    "\<And>nm o'. is_outbounds i nm = Some o' \<Longrightarrow> linked (router_provider (is_router i)) (outbound_state_of o') \<and>
        (\<exists>c \<in> set (rr_Outbounds (is_config i)). ob_Name c = nm \<and> of_config c o')"
    unfolding started_def by metis
  from S(3) obtain o' where o': "is_outbounds i nm = Some o'" by blast
  from n(3) [OF o'] obtain c where c: "c \<in> set (rr_Outbounds (is_config i))" "ob_Name c = nm" "of_config c o'"
    and l: "linked (router_provider (is_router i)) (outbound_state_of o')" by blast
  from assms(2) c S(2) have k: "ob_Minecraft c = None" "ResolvedTransport c = ''tcp''" "ob_Dialer c \<in> S" by auto
  from c(3) k(1) obtain st where st: "o' = Plain st" "ob_Dialer (os_config st) = ob_Dialer c" "ResolvedTransport (os_config st) = ''tcp''"
    using k(2) by (cases o') (auto simp: of_config_def)
  from k(3) S(1) have "ob_Dialer c \<noteq> []" "ob_Dialer c \<notin> {''REJECT'', ''RESET''}" by auto
  with l st obtain d where d: "os_dialer st = Some d" "dialer_name d = Some (ob_Dialer c)"
    "pv_FindOutboundByName (router_provider (is_router i)) (ob_Dialer c) = None"
    by (auto simp: linked_def)
  have "current_mode st \<noteq> ModeUDP"
    using st(3) by (auto simp: current_mode_def Let_def ModeUDP_def ModeAuto_def split: option.split)
  moreover have "ob_Dialer c \<in> dom (is_outbounds i)"
    using provider_finds [OF d(3) n(1)] n(2) \<open>ob_Dialer c \<notin> {''REJECT'', ''RESET''}\<close> by auto
  ultimately show ?thesis using o' st(1) d(1,2) k(3) by blast
qed

text \<open>(C30)
  Dialers in a cycle are accepted by a start and then never return: when the configuration has a set of
  plain TCP outbounds whose dialers stay in the set, and the start has succeeded, then every dial through
  one of them, with or without metadata, runs forever.\<close>

theorem cyclic_dialers_never_return:
  assumes "Instance_Start env i = Some (None, i')"
    "\<forall>c \<in> set (rr_Outbounds (is_config i)). ob_Name c \<in> S \<longrightarrow>
       ob_Minecraft c = None \<and> ResolvedTransport c = ''tcp'' \<and> ob_Dialer c \<in> S"
    "S \<inter> {[], ''REJECT'', ''RESET''} = {}" "nm \<in> S" "nm \<in> ob_Name ` set (rr_Outbounds (is_config i))"
  shows "\<exists>st. is_outbounds i' nm = Some (Plain st) \<and>
     plain_DialContextWithMetadata denv (is_outbounds i') st network m = None \<and>
     plain_DialContext denv (is_outbounds i') st network address m = None"
proof -
  from Instance_Start_started [OF assms(1)] have st: "started i'" "is_config i' = is_config i" by auto
  have dom: "nm \<in> dom (is_outbounds i')" using st assms(5) unfolding started_def by auto
  note nested = started_nested [OF st(1), of S, unfolded st(2), OF assms(2,3)]
  have never: "dial denv (is_outbounds i') withMeta d network address m = None"
    if "dialer_name d = Some nm'" "nm' \<in> S \<inter> dom (is_outbounds i')" for withMeta d nm' network address
  proof (rule ccontr)
    assume "dial denv (is_outbounds i') withMeta d network address m \<noteq> None"
    then have "grounded (is_outbounds i') withMeta d" using dial_returns_grounded by blast
    then show False
    proof (rule no_ground_names [OF _ that])
      fix k assume k: "k \<in> S \<inter> dom (is_outbounds i')"
      then have "k \<notin> {''REJECT'', ''RESET''}" using assms(3) by auto
      then show "\<exists>st. dialed_outbound (is_outbounds i') k = Some (Plain st) \<and> current_mode st \<noteq> ModeUDP \<and>
          (\<forall>d. os_dialer st = Some d \<longrightarrow> (\<exists>nm'. dialer_name d = Some nm' \<and> nm' \<in> S \<inter> dom (is_outbounds i')))"
        using nested [of k] k by (auto simp: dialed_outbound_def)
    qed
  qed
  from nested [OF assms(4) dom] obtain st d nm' where n: "is_outbounds i' nm = Some (Plain st)" "current_mode st \<noteq> ModeUDP"
    "os_dialer st = Some d" "dialer_name d = Some nm'" "nm' \<in> S \<inter> dom (is_outbounds i')" by blast
  obtain a where "dial_target st m = Inr (DialerTarget a)" using dial_target_cases(2) [OF n(2)] by blast
  then show ?thesis
    using n(1,3) never [OF n(4,5)] by (simp add: plain_DialContextWithMetadata_def plain_DialContext_def)
qed

theorem cyclic_dialers_never_return_witness:
  "\<exists>i'. Instance_Start sample_start (sample_instance [named_hop ''hop'' ''lobby'', named_hop ''lobby'' ''hop'']) = Some (None, i') \<and>
     (\<exists>st. is_outbounds i' ''hop'' = Some (Plain st) \<and>
        (\<forall>m. plain_DialContextWithMetadata sample_dials (is_outbounds i') st ''tcp'' m = None))"
proof -
  obtain i' where i': "Instance_Start sample_start (sample_instance [named_hop ''hop'' ''lobby'', named_hop ''lobby'' ''hop'']) = Some (None, i')"
    "is_outbounds i' = [''hop'' \<mapsto> linked_hop ''hop'' ''lobby'', ''lobby'' \<mapsto> linked_hop ''lobby'' ''hop'']"
    using two_hops_start [of "''hop''" "''lobby''" "''lobby''" "''hop''"] by auto
  obtain st where st: "linked_hop ''hop'' ''lobby'' = Plain st" by (simp add: linked_hop_def)
  have c: "rr_Outbounds (is_config (sample_instance obs)) = obs" for obs by (simp add: sample_instance_def sample_root_def)
  have "\<exists>st. is_outbounds i' ''hop'' = Some (Plain st) \<and>
      plain_DialContextWithMetadata sample_dials (is_outbounds i') st ''tcp'' m = None \<and>
      plain_DialContext sample_dials (is_outbounds i') st ''tcp'' [] m = None" for m
    by (rule cyclic_dialers_never_return [OF i'(1), where S = "{''hop'', ''lobby''}", unfolded c]) simp_all
  moreover have "is_outbounds i' ''hop'' = Some (Plain st)" using i'(2) st by simp
  ultimately have "\<forall>m. plain_DialContextWithMetadata sample_dials (is_outbounds i') st ''tcp'' m = None" by simp
  with i'(1) \<open>is_outbounds i' ''hop'' = Some (Plain st)\<close> show ?thesis by blast
qed

text \<open>What making an outbound and setting its secret leave.\<close>

definition fresh_outbound :: "outbound \<Rightarrow> bool" where
  "fresh_outbound o' \<longleftrightarrow> os_dialer (outbound_state_of o') = None \<and> os_selector (outbound_state_of o') = None"

lemma made_fresh: "protocol_NewOutbound (Some c) = Inr o' \<Longrightarrow> fresh_outbound (set_secret secret o')"
  by (auto simp: protocol_NewOutbound_def mc_NewOutbound_def fresh_outbound_def set_secret_def SetAuthSecret_def
      new_outbound_state_def split: if_splits sum.splits)

lemma update_outbounds_new:
  "update_outbounds env pv secret old cs names obs = Some (Some names', obs') \<Longrightarrow>
   (\<forall>nm \<in> set names - U. \<exists>o'. obs nm = Some o' \<and> fresh_outbound o') \<Longrightarrow>
   U = (case old of None \<Rightarrow> {} | Some l \<Rightarrow> set l) \<Longrightarrow>
   set names' = set names \<union> ob_Name ` set cs \<and> (\<forall>nm \<in> set names' - U. \<exists>o'. obs' nm = Some o' \<and> fresh_outbound o')"
proof (induction cs arbitrary: names obs)
  case (Cons c cs)
  let ?names = "if ob_Name c \<in> set names then names else names @ [ob_Name c]"
  have "\<exists>obs1. update_outbounds env pv secret old cs ?names obs1 = Some (Some names', obs') \<and>
      (\<forall>nm \<in> set ?names - U. \<exists>o'. obs1 nm = Some o' \<and> fresh_outbound o')"
  proof (cases "ob_Name c \<in> U")
    case True
    then obtain l where l: "old = Some l" "ob_Name c \<in> set l" using Cons.prems(3) by (auto split: option.splits)
    then obtain o1 o2 where "obs (ob_Name c) = Some o1" "outbound_Reload env pv c (set_secret secret o1) = Some (None, o2)"
      "update_outbounds env pv secret old cs ?names (obs(ob_Name c \<mapsto> o2)) = Some (Some names', obs')"
      using Cons.prems(1) by (auto simp: Let_def bind_eq_Some_conv split: option.splits)
    then show ?thesis using Cons.prems(2) True by (intro exI [of _ "obs(ob_Name c \<mapsto> o2)"]) auto
  next
    case False
    then have "\<not> (case old of None \<Rightarrow> False | Some l \<Rightarrow> ob_Name c \<in> set l)" using Cons.prems(3) by (auto split: option.splits)
    then obtain o1 where "protocol_NewOutbound (Some c) = Inr o1"
      "update_outbounds env pv secret old cs ?names (obs(ob_Name c \<mapsto> set_secret secret o1)) = Some (Some names', obs')"
      using Cons.prems(1) by (auto simp: Let_def split: sum.splits)
    then show ?thesis
      using Cons.prems(2) made_fresh by (intro exI [of _ "obs(ob_Name c \<mapsto> set_secret secret o1)"]) auto
  qed
  then obtain obs1 where "update_outbounds env pv secret old cs ?names obs1 = Some (Some names', obs')"
    "\<forall>nm \<in> set ?names - U. \<exists>o'. obs1 nm = Some o' \<and> fresh_outbound o'" by blast
  from Cons.IH [OF this Cons.prems(3)] show ?case by auto
qed simp

lemma fresh_never_dials:
  assumes "fresh_outbound o'" "ResolvedTransport (os_config (outbound_state_of o')) \<noteq> ModeUDP"
  shows "plain_DialContextWithMetadata env ob (outbound_state_of o') network m = None"
    "connectServer env ob (outbound_state_of o') m = None"
proof -
  have mode: "current_mode (outbound_state_of o') \<noteq> ModeUDP" using assms by (simp add: fresh_outbound_def current_mode_def)
  obtain a where "dial_target (outbound_state_of o') m = Inr (DialerTarget a)" using dial_target_cases(2) [OF mode] by blast
  then show "plain_DialContextWithMetadata env ob (outbound_state_of o') network m = None"
    "connectServer env ob (outbound_state_of o') m = None"
    using assms(1) mode by (simp_all add: fresh_outbound_def plain_DialContextWithMetadata_def connectServer_def Let_def)
qed

text \<open>(C31)
  A reload does not initialize the outbounds it adds: when a reload has gone through, an outbound that
  the instance did not have is in the router and has no dialer, so that dialling it (unless its
  transport is UDP) is a nil pointer and ends the process.\<close>

theorem reload_added_outbound_uninitialized:
  assumes "Instance_reload env raw i = Some (Returns i')" "is_outboundMap i = Some names" "is_outboundMap i' = Some names'"
    "nm \<in> set names' - set names"
  shows "nm \<in> ob_Name ` set (rr_Outbounds raw) \<and> rt_outboundMap (is_router i') = Some names' \<and>
    (\<exists>o'. is_outbounds i' nm = Some o' \<and> os_dialer (outbound_state_of o') = None \<and>
       (\<forall>denv network m. ResolvedTransport (os_config (outbound_state_of o')) \<noteq> ModeUDP \<longrightarrow>
          plain_DialContextWithMetadata denv (is_outbounds i') (outbound_state_of o') network m = None \<and>
          connectServer denv (is_outbounds i') (outbound_state_of o') m = None))"
proof -
  have ne: "names' \<noteq> names" using assms(4) by auto
  from assms(1) obtain new obs where u: "update_outbounds env (reload_provider (is_router i) (rr_Lists raw)) (rr_AuthSecret raw)
      (is_outboundMap i) (rr_Outbounds raw) [] (is_outbounds i) = Some (new, obs)"
    by (auto simp: Instance_reload_def Instance_UpdateConfig_def bind_eq_Some_conv)
  let ?i = "i\<lparr>is_config := raw, is_outbounds := obs\<rparr>"
  obtain l where new: "new = Some l" using assms u ne by (auto simp: Instance_reload_def Instance_UpdateConfig_def Let_def split: option.splits)
  from assms(1) u new obtain err rt where r: "Router_UpdateConfig (se_rules env) (se_ParseDuration env) (router_options_of ?i l) (is_router i) = Some (err, rt)"
    by (auto simp: Instance_reload_def Instance_UpdateConfig_def Let_def bind_eq_Some_conv)
  have err: "err = None" using assms u new r ne
    by (auto simp: Instance_reload_def Instance_UpdateConfig_def Let_def split: option.splits)
  obtain nsv svs where s: "update_services env (router_provider rt) (rr_AuthSecret raw) (rr_Services raw) (is_serviceMap i) Map.empty =
      Some (Returns (nsv, svs))"
    using assms(1) u new r err by (auto simp: Instance_reload_def Instance_UpdateConfig_def Let_def on_return_Returns)
  obtain m where m: "nsv = Some m"
    using assms u new r err s ne by (auto simp: Instance_reload_def Instance_UpdateConfig_def Let_def split: option.splits)
  have i': "i' = ?i\<lparr>is_router := rt, is_outboundMap := Some l, is_serviceMap := m\<rparr>"
    using assms(1) u new r err s m by (simp add: Instance_reload_def Instance_UpdateConfig_def Let_def)
  then have l: "l = names'" using assms(3) by simp
  have rt: "rt_outboundMap rt = Some names'"
    using Router_Initialize_started [OF r [unfolded Router_UpdateConfig_def err]] l by (simp add: router_options_of_def)
  have "set names' = set [] \<union> ob_Name ` set (rr_Outbounds raw) \<and> (\<forall>nm \<in> set names' - set names. \<exists>o'. obs nm = Some o' \<and> fresh_outbound o')"
    by (rule update_outbounds_new [OF u [unfolded new l]]) (simp_all add: assms(2))
  then obtain o' where o': "obs nm = Some o'" "fresh_outbound o'" "nm \<in> ob_Name ` set (rr_Outbounds raw)"
    using assms(4) by auto
  have "is_outbounds i' nm = Some o'" "rt_outboundMap (is_router i') = Some names'"
    using i' rt o'(1) by simp_all
  moreover have "os_dialer (outbound_state_of o') = None" using o'(2) by (simp add: fresh_outbound_def)
  ultimately show ?thesis using o'(3) fresh_never_dials [OF o'(2)] by blast
qed

text \<open>A reload that adds a second hop.\<close>

definition running_instance :: "(net_in, ip_entry list, unit) zb_instance" where
  "running_instance = (sample_instance [named_hop ''hop'' []])
     \<lparr>is_outboundMap := Some [''hop''], is_outbounds := [''hop'' \<mapsto> linked_hop ''hop'' []], is_router := sample_router [''hop''],
      is_serviceMap := [''game'' \<mapsto> hop_service\<lparr>sv_tcpListener := True, sv_started := True\<rparr>]\<rparr>"

lemma running_started: "Instance_Start sample_start (sample_instance [named_hop ''hop'' []]) = Some (None, running_instance)"
proof -
  have p: "post_outbounds sample_start (router_provider (sample_router [''hop''])) [''hop''] [''hop'' \<mapsto> Plain (hop_state ''hop'' [])] =
      Some (None, [''hop'' \<mapsto> linked_hop ''hop'' []])"
    by (simp add: hop_initialized linked_hop_def)
  have "make_outbounds ''key'' [named_hop ''hop'' []] [] Map.empty = Inr ([''hop''], [''hop'' \<mapsto> Plain (hop_state ''hop'' [])])"
    by simp
  then show ?thesis unfolding running_instance_def by (rule sample_starts [OF _ _ p]) simp
qed

lemma hop_reloaded: "\<exists>o'. outbound_Reload env pv (named_hop nm []) (set_secret secret (linked_hop nm [])) = Some (None, o')"
  by (simp add: outbound_Reload_def plain_Reload_def linked_hop_def set_secret_def plain_PostInitialize_def post_transport_def
      choose_dialer_def wrap_socks_def socks_types_def pp_consts ModeUDP_def ModeAuto_def Let_def)

definition added_root :: raw_root where
  "added_root = (sample_root [named_hop ''hop'' [], named_hop ''new'' ''hop''])\<lparr>rr_Services := []\<rparr>"

lemma added_root_fields [simp]:
  "rr_Outbounds added_root = [named_hop ''hop'' [], named_hop ''new'' ''hop'']" "rr_AuthSecret added_root = ''key''"
  "rr_Services added_root = []" "rr_Lists added_root = None" "rr_Router added_root = \<lparr>ro_DefaultOutbound = ''hop'', ro_Rules = []\<rparr>"
  by (simp_all add: added_root_def sample_root_def)

lemma running_instance_fields [simp]:
  "is_outboundMap running_instance = Some [''hop'']" "is_outbounds running_instance = [''hop'' \<mapsto> linked_hop ''hop'' []]"
  "is_router running_instance = sample_router [''hop'']" "is_ruleRegistry running_instance = []" "is_snifferRegistry running_instance = []"
  by (simp_all add: running_instance_def sample_instance_def)

lemma added_root_reloads:
  "\<exists>i'. Instance_reload sample_start added_root running_instance = Some (Returns i') \<and> is_outboundMap i' = Some [''hop'', ''new'']"
proof -
  let ?names = "[''hop'', ''new'']"
  obtain o1 where o1: "outbound_Reload sample_start (reload_provider (sample_router [''hop'']) None) (named_hop ''hop'' [])
      (set_secret ''key'' (linked_hop ''hop'' [])) = Some (None, o1)" using hop_reloaded by blast
  have u: "update_outbounds sample_start (reload_provider (sample_router [''hop'']) None) ''key'' (Some [''hop''])
      [named_hop ''hop'' [], named_hop ''new'' ''hop''] [] [''hop'' \<mapsto> linked_hop ''hop'' []] =
      Some (Some ?names, [''hop'' \<mapsto> o1, ''new'' \<mapsto> Plain (hop_state ''new'' ''hop'')])"
    by (simp add: o1 Let_def)
  have r: "Router_UpdateConfig (se_rules sample_start) (se_ParseDuration sample_start)
      (router_options_of (running_instance\<lparr>is_config := added_root, is_outbounds := obs\<rparr>) ?names) (sample_router [''hop'']) =
      Some (None, sample_router ?names)" for obs
    by (simp add: Router_UpdateConfig_def Router_Initialize_def router_options_of_def sample_router_def zero_router_def
        findOutboundByName_def)
  show ?thesis
    by (simp add: Instance_reload_def Instance_UpdateConfig_def u r Let_def del: update_outbounds.simps)
qed

theorem reload_added_outbound_uninitialized_witness:
  "Instance_Start sample_start (sample_instance [named_hop ''hop'' []]) = Some (None, running_instance) \<and>
   (\<exists>i' o'. Instance_reload sample_start added_root running_instance = Some (Returns i') \<and>
      is_outbounds i' ''new'' = Some o' \<and> os_dialer (outbound_state_of o') = None)"
proof -
  obtain i' where i': "Instance_reload sample_start added_root running_instance = Some (Returns i')" "is_outboundMap i' = Some [''hop'', ''new'']"
    using added_root_reloads by blast
  from reload_added_outbound_uninitialized [OF i'(1) running_instance_fields(1) i'(2), of "''new''"] i'(1) show ?thesis
    using running_started by auto
qed

end
