(* ===== verification/Program.thy ===== *)
theory Program
  imports InstanceFacts
begin

text \<open>
  The program around an instance: the log section of the configuration (config/log.go), durations in
  it (common/jsonx/duration.go), \<open>NewInstance\<close> and \<open>Reload\<close> (zbproxy.go), the signals of \<open>main\<close>
  (cmd/zbproxy/main.go), and the run of a whole program, in which the reload loop calls \<open>UpdateConfig\<close>.

  The logger's library is the record \<open>log_lib\<close>: its levels are numbers, \<open>ll_Panic\<close> is the last of them.
\<close>

section \<open>Log levels and durations\<close>

record log_lib =
  ll_Parse :: "string \<Rightarrow> nat"
  ll_String :: "nat \<Rightarrow> string"
  ll_Debug :: nat
  ll_Panic :: nat

definition log_field :: "string \<Rightarrow> json \<Rightarrow> string \<Rightarrow> go_error + string" where
  "log_field k v r = (if key_is k ''Level'' then get_str v r else Inr r)"

text \<open>The level is set even when it is refused.\<close>

definition Log_UnmarshalJSON :: "log_lib \<Rightarrow> json \<Rightarrow> nat \<Rightarrow> go_error option \<times> nat" where
  "Log_UnmarshalJSON lib j level =
     (case decode_struct log_field j [] of
        Inl e \<Rightarrow> (Some e, level)
      | Inr raw \<Rightarrow>
          if raw = [] then (None, ll_Debug lib)
          else let level = ll_Parse lib raw in
            (if level > ll_Panic lib then Some (ErrText (''unknown log level: '' @ raw)) else None, level))"

definition Log_MarshalJSON :: "log_lib \<Rightarrow> nat \<Rightarrow> json" where
  "Log_MarshalJSON lib level = JObj [(''Level'', JStr (ll_String lib level))]"

definition Duration_MarshalText :: "(int \<Rightarrow> string) \<Rightarrow> int \<Rightarrow> string" where
  "Duration_MarshalText DurationString d = DurationString d"

text \<open>\<open>time.ParseDuration\<close> returns 0 with its error, and the duration is set to it.\<close>

definition Duration_UnmarshalText :: "(string \<Rightarrow> int option) \<Rightarrow> string \<Rightarrow> go_error option \<times> int" where
  "Duration_UnmarshalText ParseDuration t =
     (case ParseDuration t of None \<Rightarrow> (Some (ErrText ''time: invalid duration''), 0) | Some d \<Rightarrow> (None, d))"

lemma Log_roundtrip:
  assumes "ll_Parse lib (ll_String lib level) = level" "ll_String lib level \<noteq> []" "level \<le> ll_Panic lib"
  shows "Log_UnmarshalJSON lib (Log_MarshalJSON lib level) old = (None, level)"
  using assms
  by (simp add: Log_UnmarshalJSON_def Log_MarshalJSON_def decode_struct_def log_field_def key_is_def get_str_def Let_def)

section \<open>Making an instance\<close>

record ('s, 'c) options =
  op_Root :: "root option"
  op_ConfigFilePath :: string
  op_Rules :: "'c registry"
  op_Sniffers :: "(string \<times> 's sniffer) list"
  op_DisableReload :: bool

text \<open>
  An instance with its configuration object; \<open>pg_handler\<close> is whether the object calls the instance's
  \<open>UpdateConfig\<close>. The instance's own view of the contents, \<open>is_config\<close>, is the object's.
\<close>

record ('s, 'ip, 'c) program =
  pg_instance :: "('s, 'ip, 'c) zb_instance"
  pg_root :: root
  pg_handler :: bool
  pg_level :: nat

definition make_program :: "('s, 'c) options \<Rightarrow> root \<Rightarrow> bool \<Rightarrow> ('s, 'ip, 'c) program" where
  "make_program opts root handler =
     \<lparr>pg_instance =
        \<lparr>is_config = rt_content root, is_router = zero_router, is_serviceMap = Map.empty, is_outboundMap = None,
         is_outbounds = Map.empty, is_ruleRegistry = op_Rules opts, is_snifferRegistry = op_Sniffers opts\<rparr>,
      pg_root = root, pg_handler = handler, pg_level = rr_Log (rt_content root)\<rparr>"

definition NewInstance ::
  "raw_root \<Rightarrow> file_state \<Rightarrow> load_results \<Rightarrow> ('s, 'c) options \<Rightarrow> (go_error + ('s, 'ip, 'c) program) option" where
  "NewInstance dflt file lr opts =
     (case op_Root opts of
        Some root \<Rightarrow> Some (Inr (make_program opts root False))
      | None \<Rightarrow>
          if op_ConfigFilePath opts \<noteq> [] then do {
            r \<leftarrow> LoadConfigFromFile dflt file (\<not> op_DisableReload opts) lr;
            (case r of
               Inl e \<Rightarrow> Some (Inl e)
             | Inr root \<Rightarrow> Some (Inr (make_program opts root (\<not> op_DisableReload opts))))
          }
          else Some (Inl (ErrText ''no config provided for ZBProxy'')))"

definition Instance_Reload :: "('s, 'ip, 'c) program \<Rightarrow> bool" where
  "Instance_Reload pg = Root_Reload (pg_root pg)"

section \<open>Running\<close>

text \<open>
  \<open>main\<close> on a sequence of signals: an error of \<open>NewInstance\<close> or \<open>Start\<close> is a panic; a hang-up asks for
  a reload, an interrupt ends the program. The result is the program and the reloads that were taken.
\<close>

datatype signal = SIGHUP | Interrupt

fun main_loop :: "signal list \<Rightarrow> ('s, 'ip, 'c) program \<Rightarrow> bool list \<times> bool" where
  "main_loop [] pg = ([], False)"
| "main_loop (s # ss) pg =
     (case s of
        SIGHUP \<Rightarrow> (case main_loop ss pg of (taken, ended) \<Rightarrow> (Instance_Reload pg # taken, ended))
      | Interrupt \<Rightarrow> ([], True))"

definition main_start ::
  "('ip, 'c) start_env \<Rightarrow> raw_root \<Rightarrow> file_state \<Rightarrow> load_results \<Rightarrow> ('s, 'ip, 'c) program option" where
  "main_start env dflt file lr = do {
     r \<leftarrow> NewInstance dflt file lr
       \<lparr>op_Root = None, op_ConfigFilePath = ''ZBProxy.json'', op_Rules = [], op_Sniffers = [], op_DisableReload = False\<rparr>;
     (case r of
        Inl e \<Rightarrow> None
      | Inr pg \<Rightarrow> do {
          (err, i) \<leftarrow> Instance_Start env (pg_instance pg);
          (case err of Some e \<Rightarrow> None | None \<Rightarrow> Some (pg\<lparr>pg_instance := i\<rparr>))
        })
   }"

text \<open>
  The reload loop of a running program: \<open>reload_turn\<close>, whose call of the handler is \<open>UpdateConfig\<close>.
  When that does not return, neither does the loop.
\<close>

fun program_run ::
  "('ip, 'c) start_env \<Rightarrow> (reload_event \<times> (go_error + raw_root)) list \<Rightarrow> ('s, 'ip, 'c) program \<Rightarrow>
   ('s, 'ip, 'c) program outcome option" where
  "program_run env [] pg = Some (Returns pg)"
| "program_run env ((ev, file) # evs) pg = do {
     (goon, root, called) \<leftarrow> reload_turn ev file (pg_root pg);
     let pg = pg\<lparr>pg_root := root, pg_instance := (pg_instance pg)\<lparr>is_config := rt_content root\<rparr>\<rparr>;
     on_return
       (if called \<and> pg_handler pg
        then map_option (map_outcome (\<lambda>i. pg\<lparr>pg_instance := i\<rparr>)) (Instance_UpdateConfig env (pg_instance pg))
        else Some (Returns pg))
       (\<lambda>pg. if goon then program_run env evs pg else Some (Returns pg))
   }"

section \<open>Its specification\<close>

text \<open>The contents that are accepted: those that are read, decode, and have a valid secret, until the loop ends.\<close>

fun accepted :: "(reload_event \<times> (go_error + raw_root)) list \<Rightarrow> raw_root list" where
  "accepted [] = []"
| "accepted ((ev, file) # evs) =
     (if ev = ReloadRequest \<or> ev = FileEvent
      then (case file of
              Inr raw \<Rightarrow> if length (rr_AuthSecret raw) \<le> auth_MaxLen then raw # accepted evs else accepted evs
            | Inl e \<Rightarrow> accepted evs)
      else [])"

fun reload_all :: "('ip, 'c) start_env \<Rightarrow> raw_root list \<Rightarrow> ('s, 'ip, 'c) zb_instance \<Rightarrow> ('s, 'ip, 'c) zb_instance outcome option" where
  "reload_all env [] i = Some (Returns i)"
| "reload_all env (raw # raws) i = on_return (Instance_reload env raw i) (reload_all env raws)"

lemma validateAuthSecret_None: "validateAuthSecret secret = None \<longleftrightarrow> length secret \<le> auth_MaxLen"
  by (auto simp: validateAuthSecret_def)

lemma UpdateConfig_config: "Instance_UpdateConfig env i = Some (Returns i') \<Longrightarrow> is_config i' = is_config i"
  by (auto simp: Instance_UpdateConfig_def bind_eq_Some_conv on_return_Returns Let_def split: option.splits)

text \<open>A program whose loop can run: the handler is set, its view is the object's, and closing does not panic.\<close>

definition wired :: "('s, 'ip, 'c) program \<Rightarrow> bool" where
  "wired pg \<longleftrightarrow> pg_handler pg \<and> is_config (pg_instance pg) = rt_content (pg_root pg) \<and> rt_reloadChan (pg_root pg) \<noteq> None"

lemma reload_turn_cases:
  assumes "rt_reloadChan r \<noteq> None"
  shows "ev = ReloadRequest \<or> ev = FileEvent \<Longrightarrow> length (rr_AuthSecret raw) \<le> auth_MaxLen \<Longrightarrow>
      reload_turn ev (Inr raw) r = Some (True, r\<lparr>rt_content := raw\<rparr>, True)"
    "ev = ReloadRequest \<or> ev = FileEvent \<Longrightarrow> \<forall>raw. fc = Inr raw \<longrightarrow> auth_MaxLen < length (rr_AuthSecret raw) \<Longrightarrow>
      reload_turn ev fc r = Some (True, r, False)"
    "ev \<noteq> ReloadRequest \<Longrightarrow> ev \<noteq> FileEvent \<Longrightarrow>
      \<exists>r'. reload_turn ev fc r = Some (False, r', False) \<and> rt_content r' = rt_content r"
proof -
  show "ev = ReloadRequest \<or> ev = FileEvent \<Longrightarrow> length (rr_AuthSecret raw) \<le> auth_MaxLen \<Longrightarrow>
      reload_turn ev (Inr raw) r = Some (True, r\<lparr>rt_content := raw\<rparr>, True)"
    by (auto simp: reload_turn_def loadContent_def validateAuthSecret_None [THEN iffD2])
  show "ev = ReloadRequest \<or> ev = FileEvent \<Longrightarrow> \<forall>raw. fc = Inr raw \<longrightarrow> auth_MaxLen < length (rr_AuthSecret raw) \<Longrightarrow>
      reload_turn ev fc r = Some (True, r, False)"
    using validateAuthSecret_None by (cases fc) (auto simp: reload_turn_def loadContent_def split: option.split)
  show "ev \<noteq> ReloadRequest \<Longrightarrow> ev \<noteq> FileEvent \<Longrightarrow> \<exists>r'. reload_turn ev fc r = Some (False, r', False) \<and> rt_content r' = rt_content r"
    using assms by (cases ev) (auto simp: reload_turn_def Root_Close_def)
qed

lemma program_run_accepted:
  "wired pg \<Longrightarrow>
   map_option (map_outcome (\<lambda>pg. (pg_instance pg, rt_content (pg_root pg)))) (program_run env evs pg) =
   map_option (map_outcome (\<lambda>i. (i, is_config i))) (reload_all env (accepted evs) (pg_instance pg))"
proof (induction evs arbitrary: pg)
  case Nil
  then show ?case by (simp add: wired_def)
next
  case (Cons e evs)
  obtain ev fc where e: "e = (ev, fc)" by (cases e)
  have w: "pg_handler pg" "(pg_instance pg)\<lparr>is_config := rt_content (pg_root pg)\<rparr> = pg_instance pg" "rt_reloadChan (pg_root pg) \<noteq> None"
    "is_config (pg_instance pg) = rt_content (pg_root pg)"
    using Cons.prems by (simp_all add: wired_def)
  note turn = reload_turn_cases [OF w(3)]
  consider (new) raw where "ev = ReloadRequest \<or> ev = FileEvent" "fc = Inr raw" "length (rr_AuthSecret raw) \<le> auth_MaxLen"
    | (kept) "ev = ReloadRequest \<or> ev = FileEvent" "\<forall>raw. fc = Inr raw \<longrightarrow> auth_MaxLen < length (rr_AuthSecret raw)"
    | (ends) "ev \<noteq> ReloadRequest" "ev \<noteq> FileEvent"
    by (metis Inr_inject linorder_not_le)
  then show ?case
  proof cases
    case new
    have acc: "accepted (e # evs) = raw # accepted evs" using new e by auto
    show ?thesis
    proof (cases "Instance_UpdateConfig env ((pg_instance pg)\<lparr>is_config := raw\<rparr>)")
      case None
      then show ?thesis using new w(1) unfolding acc e by (simp add: turn(1) Instance_reload_def)
    next
      case (Some ret)
      show ?thesis
      proof (cases ret)
        case Blocks
        then show ?thesis using Some new w(1) unfolding acc e by (simp add: turn(1) Instance_reload_def)
      next
        case (Returns i)
        note Some = Some [unfolded Returns]
        let ?pg = "pg\<lparr>pg_root := (pg_root pg)\<lparr>rt_content := raw\<rparr>, pg_instance := i\<rparr>"
        have "wired ?pg" using w UpdateConfig_config [OF Some] by (simp add: wired_def)
        from Cons.IH [OF this] show ?thesis
          using new w(1) Some unfolding acc e by (simp add: turn(1) Instance_reload_def)
      qed
    qed
  next
    case kept
    have acc: "accepted ((ev, fc) # evs) = accepted evs" using kept by (auto split: sum.split)
    show ?thesis using Cons.IH [OF Cons.prems] unfolding e acc by (simp add: turn(2) [OF kept] w(2))
  next
    case ends
    obtain r' where "reload_turn ev fc (pg_root pg) = Some (False, r', False)" "rt_content r' = rt_content (pg_root pg)"
      using turn(3) [OF ends] by blast
    then show ?thesis using ends w unfolding e by simp
  qed
qed

lemma reload_all_config: "reload_all env raws i = Some (Returns i') \<Longrightarrow> is_config i' = last (is_config i # raws)"
proof (induction raws arbitrary: i)
  case (Cons raw raws)
  then obtain i1 where i1: "Instance_reload env raw i = Some (Returns i1)" "reload_all env raws i1 = Some (Returns i')"
    by (auto simp: on_return_Returns)
  have "is_config i1 = raw" using UpdateConfig_config i1(1) by (force simp: Instance_reload_def)
  then show ?case using Cons.IH [OF i1(2)] by simp
qed simp

lemma accepted_secrets: "raw \<in> set (accepted evs) \<Longrightarrow> length (rr_AuthSecret raw) \<le> auth_MaxLen"
  by (induction evs rule: accepted.induct) (auto split: if_splits sum.splits)

lemma LoadConfigFromFile_watched:
  assumes "LoadConfigFromFile dflt fc True lr = Some (Inr root)"
  shows "rt_reloadChan root \<noteq> None \<and>
    (length (rr_AuthSecret dflt) \<le> auth_MaxLen \<longrightarrow> length (rr_AuthSecret (rt_content root)) \<le> auth_MaxLen)"
proof -
  from assms obtain raw where raw: "load_raw dflt fc lr = Inr raw" by (auto simp: LoadConfigFromFile_def split: sum.splits)
  have "rt_content root = raw \<and> rt_reloadChan root \<noteq> None"
    using assms raw by (auto simp: LoadConfigFromFile_def Let_def bind_eq_Some_conv split: option.splits)
  moreover have "length (rr_AuthSecret raw) \<le> auth_MaxLen" if "length (rr_AuthSecret dflt) \<le> auth_MaxLen"
    using raw that
    by (auto simp: load_raw_def loadContent_def validateAuthSecret_None [symmetric] split: file_state.splits option.splits sum.splits)
  ultimately show ?thesis by blast
qed

section \<open>Properties\<close>

text \<open>(C14)
  A running program is always on the last valid configuration: started from a file with reloading on,
  over any sequence of reload requests, file changes, unreadable or undecodable files, secrets that are
  too long, watcher errors and shutdown, the instance is what \<open>UpdateConfig\<close> makes of it on the accepted
  contents, one after the other, and on nothing else; it holds the last of them (or what it was started
  with), and the secret in force is never longer than the limit.\<close>

theorem program_follows_last_valid:
  assumes "NewInstance dflt fc lr opts = Some (Inr pg0)" "op_Root opts = None" "\<not> op_DisableReload opts"
    "length (rr_AuthSecret dflt) \<le> auth_MaxLen" "Instance_Start env (pg_instance pg0) = Some (None, i)"
  shows "map_option (map_outcome pg_instance) (program_run env evs (pg0\<lparr>pg_instance := i\<rparr>)) = reload_all env (accepted evs) i \<and>
    (\<forall>pg. program_run env evs (pg0\<lparr>pg_instance := i\<rparr>) = Some (Returns pg) \<longrightarrow>
       is_config (pg_instance pg) = last (is_config (pg_instance pg0) # accepted evs) \<and>
       rt_content (pg_root pg) = is_config (pg_instance pg) \<and>
       length (rr_AuthSecret (is_config (pg_instance pg))) \<le> auth_MaxLen)"
proof -
  let ?pg = "pg0\<lparr>pg_instance := i\<rparr>"
  from assms(1-3) obtain root where root: "LoadConfigFromFile dflt fc True lr = Some (Inr root)"
    "pg0 = make_program opts root True"
    by (simp add: NewInstance_def bind_eq_Some_conv split: if_splits, elim exE conjE, rename_tac y, case_tac y) auto
  note load = LoadConfigFromFile_watched [OF root(1)]
  have conf: "is_config i = is_config (pg_instance pg0)" using Instance_Start_started [OF assms(5)] by blast
  have "wired ?pg" using load conf root(2) by (simp add: wired_def make_program_def)
  note run = program_run_accepted [OF this, of env evs]
  have "map_option (map_outcome pg_instance) (program_run env evs ?pg) = reload_all env (accepted evs) i"
    using arg_cong [OF run, of "map_option (map_outcome fst)"] by (simp add: option.map_comp outcome.map_comp comp_def option.map_ident outcome.map_ident)
  moreover have "is_config (pg_instance pg) = last (is_config (pg_instance pg0) # accepted evs) \<and>
       rt_content (pg_root pg) = is_config (pg_instance pg) \<and>
       length (rr_AuthSecret (is_config (pg_instance pg))) \<le> auth_MaxLen" if pg: "program_run env evs ?pg = Some (Returns pg)" for pg
  proof -
    have all: "reload_all env (accepted evs) i = Some (Returns (pg_instance pg))" "rt_content (pg_root pg) = is_config (pg_instance pg)"
      using run pg by (cases "reload_all env (accepted evs) i"; cases "the (reload_all env (accepted evs) i)"; simp)+
    have l: "is_config (pg_instance pg) = last (is_config (pg_instance pg0) # accepted evs)"
      using reload_all_config [OF all(1)] conf by simp
    have "length (rr_AuthSecret (is_config (pg_instance pg0))) \<le> auth_MaxLen"
      using load assms(4) root(2) by (simp add: make_program_def)
    then have "length (rr_AuthSecret raw) \<le> auth_MaxLen" if "raw \<in> set (is_config (pg_instance pg0) # accepted evs)" for raw
      using that accepted_secrets by auto
    then show ?thesis using l all(2) last_in_set by (metis list.distinct(1))
  qed
  ultimately show ?thesis by blast
qed

text \<open>A file that does not decode, one with a long secret, a good one, and the end of the watcher.\<close>

definition sample_events :: "(reload_event \<times> (go_error + raw_root)) list" where
  "sample_events =
     [(FileEvent, Inl ErrOsInvalid), (ReloadRequest, Inr (added_root\<lparr>rr_AuthSecret := replicate 129 CHR ''k''\<rparr>)),
      (FileEvent, Inr added_root), (EventsClosed, Inl ErrOsClosed), (FileEvent, Inr (sample_root []))]"

lemma sample_events_accepted: "accepted sample_events = [added_root]"
  by (simp add: sample_events_def auth_MaxLen_def)

definition no_errors :: load_results where
  "no_errors = \<lparr>lr_create = None, lr_encode = None, lr_watcher = None, lr_add = None\<rparr>"

definition sample_options :: "(net_in, unit) options" where
  "sample_options = \<lparr>op_Root = None, op_ConfigFilePath = ''ZBProxy.json'', op_Rules = [], op_Sniffers = [], op_DisableReload = False\<rparr>"

theorem program_follows_last_valid_witness:
  "\<exists>pg0 pg. NewInstance (sample_root []) (FileContent (Inr (sample_root [named_hop ''hop'' []]))) no_errors sample_options = Some (Inr pg0) \<and>
     program_run sample_start sample_events (pg0\<lparr>pg_instance := running_instance\<rparr>) = Some (Returns pg) \<and>
     is_config (pg_instance pg) = added_root"
proof -
  let ?root = "\<lparr>rt_content = sample_root [named_hop ''hop'' []], rt_watcher = True, rt_reloadChan = Some True\<rparr>"
  let ?pg0 = "make_program sample_options ?root True :: (net_in, ip_entry list, unit) program"
  have n: "NewInstance (sample_root []) (FileContent (Inr (sample_root [named_hop ''hop'' []]))) no_errors sample_options = Some (Inr ?pg0)"
    by (simp add: NewInstance_def sample_options_def LoadConfigFromFile_def load_raw_def loadContent_def no_errors_def
        validateAuthSecret_def sample_root_def auth_MaxLen_def Let_def)
  have inst: "pg_instance ?pg0 = sample_instance [named_hop ''hop'' []]"
    by (simp add: make_program_def sample_options_def sample_instance_def)
  have st: "Instance_Start sample_start (pg_instance ?pg0) = Some (None, running_instance)"
    unfolding inst by (rule running_started)
  have o: "op_Root sample_options = None" "\<not> op_DisableReload sample_options" "length (rr_AuthSecret (sample_root [])) \<le> auth_MaxLen"
    by (simp_all add: sample_options_def sample_root_def auth_MaxLen_def)
  note p = program_follows_last_valid [OF n o st, of sample_events, unfolded sample_events_accepted]
  obtain i' where "Instance_reload sample_start added_root running_instance = Some (Returns i')" using added_root_reloads by blast
  with p obtain pg where pg: "program_run sample_start sample_events (?pg0\<lparr>pg_instance := running_instance\<rparr>) = Some (Returns pg)"
    by (auto simp: map_option_case split: option.splits dest!: outcome_map_Returns)
  with p have "is_config (pg_instance pg) = added_root" by auto
  with n pg show ?thesis by blast
qed

end
