(* ===== verification/TunnelService.thy ===== *)
theory TunnelService
  imports Listener Program
begin

text \<open>
  A service on the UDP tunnel: \<open>listenUDPLoop\<close> (service/service.go) takes the connections that the
  listener of theory Listener opens, and hands each to a goroutine of \<open>handleInbound\<close>. The run of both
  is a step relation: datagrams, the two tickers, the accept loop, what the handlers do with their
  connections, and the closing of the listener, in any order. The last part is what that closing does to
  a reload of the configuration (theory Instance).
\<close>

section \<open>The steps\<close>

text \<open>
  The listener, the connections handed to \<open>handleInbound\<close> in their order, whether the accept loop still
  runs, and whether a \<open>Close\<close> holds the listener's mutex for ever.
\<close>

record serving =
  sg_listener :: listener
  sg_handed :: "(nat \<times> tunnel_conn) list"
  sg_running :: bool
  sg_stuck :: bool

definition serve_start :: "net_addr \<Rightarrow> serving" where
  "serve_start local = \<lparr>sg_listener = ListenPacket local, sg_handed = [], sg_running = True, sg_stuck = False\<rparr>"

text \<open>One turn of \<open>listenUDPLoop\<close>, with what \<open>Accept\<close> gave.\<close>

definition listenUDPLoop_body :: "accept_result \<Rightarrow> serving \<Rightarrow> serving" where
  "listenUDPLoop_body r g =
     (case r of
        Accepted p c \<Rightarrow> g\<lparr>sg_handed := sg_handed g @ [(p, c)]\<rparr>
      | AcceptWaits \<Rightarrow> g
      | _ \<Rightarrow> g\<lparr>sg_running := False\<rparr>)"

definition on_listener :: "(listener \<Rightarrow> listener) \<Rightarrow> serving \<Rightarrow> serving" where
  "on_listener f g = g\<lparr>sg_listener := f (sg_listener g)\<rparr>"

text \<open>
  With the mutex held for ever nothing is dispatched, no ticker fires, and closing a connection closes its
  session but does not get past the callback.
\<close>

inductive serving_step :: "serving \<Rightarrow> serving \<Rightarrow> bool" where
  datagram: "\<not> sg_stuck g \<Longrightarrow> serving_step g (on_listener (\<lambda>l. fst (readLoop_body now tx d addr l)) g)"
| ticked: "\<not> sg_stuck g \<Longrightarrow> serving_step g (on_listener (\<lambda>l. fst (timer_tick now tx l)) g)"
| idled: "\<not> sg_stuck g \<Longrightarrow> serving_step g (on_listener (idle_tick now) g)"
| accept: "sg_running g \<Longrightarrow> (r, l) \<in> Accept_results (sg_listener g) \<Longrightarrow>
    serving_step g (listenUDPLoop_body r (g\<lparr>sg_listener := l\<rparr>))"
| handler_read: "(p, c) \<in> set (sg_handed g) \<Longrightarrow>
    serving_step g (on_listener (\<lambda>l. l_update p (snd (Conn_Read now k c' (l_heap l ! p))) l) g)"
| handler_write: "(p, c) \<in> set (sg_handed g) \<Longrightarrow>
    serving_step g (on_listener (\<lambda>l. l_update p (fst (snd (Conn_Write now clock txs c' (l_heap l ! p) b))) l) g)"
| handler_close: "(p, c) \<in> set (sg_handed g) \<Longrightarrow> \<not> sg_stuck g \<Longrightarrow> serving_step g (on_listener (\<lambda>l. fst (app_close tx p l)) g)"
| handler_close_stuck: "(p, c) \<in> set (sg_handed g) \<Longrightarrow> sg_stuck g \<Longrightarrow>
    serving_step g (on_listener (\<lambda>l. l_update p (fst (session_close tx (l_heap l ! p))) l) g)"
| shutdown: "\<not> sg_stuck g \<Longrightarrow> Listener_Close (sg_listener g) = Returns l \<Longrightarrow> serving_step g (g\<lparr>sg_listener := l\<rparr>)"
| deadlock: "\<not> sg_stuck g \<Longrightarrow> Listener_Close (sg_listener g) = Blocks \<Longrightarrow> l_sessions (sg_listener g) = Some tbl \<Longrightarrow>
    serving_step g (on_listener (\<lambda>l. l\<lparr>l_closed := True, l_heap := close_blocked tbl (l_heap l)\<rparr>) (g\<lparr>sg_stuck := True\<rparr>))"

inductive served :: "net_addr \<Rightarrow> serving \<Rightarrow> bool" for local where
  start: "served local (serve_start local)"
| step: "served local g \<Longrightarrow> serving_step g g' \<Longrightarrow> served local g'"

section \<open>What a step keeps\<close>

text \<open>
  A listener after an operation that opens no session: the queue is the same, sessions stay closed, and
  the table only goes away with the listener.
\<close>

definition kept :: "listener \<Rightarrow> listener \<Rightarrow> bool" where
  "kept l l' \<longleftrightarrow> l_accept l' = l_accept l \<and> length (l_heap l') = length (l_heap l) \<and>
     (\<forall>p < length (l_heap l). s_closed (l_heap l ! p) \<longrightarrow> s_closed (l_heap l' ! p)) \<and>
     (l_closed l \<longrightarrow> l_closed l') \<and> (l_sessions l' = None \<longrightarrow> l_sessions l = None \<or> l_closed l')"

lemma kept_refl [simp, intro]: "kept l l"
  by (simp add: kept_def)

lemma kept_trans: "kept l m \<Longrightarrow> kept m n \<Longrightarrow> kept l n"
  by (auto simp: kept_def)

lemma kept_update: "(s_closed (l_heap l ! p) \<longrightarrow> s_closed s) \<Longrightarrow> kept l (l_update p s l)"
proof -
  assume c: "s_closed (l_heap l ! p) \<longrightarrow> s_closed s"
  have "s_closed (l_heap l ! q) \<longrightarrow> s_closed ((l_heap l)[p := s] ! q)" if "q < length (l_heap l)" for q
    using c that by (cases "q = p") auto
  then show ?thesis by (simp add: kept_def l_update_def)
qed

lemma kept_removeSession [intro]: "kept l l' \<Longrightarrow> kept l (removeSession k l')"
  by (auto simp: kept_def removeSession_def)

lemma kept_entry: "same_entry (l_heap l ! p) s \<Longrightarrow> kept l (l_update p s l)"
  by (rule kept_update) (simp add: same_entry_def)

lemma forced_closed [simp]: "s_closed (forceCloseLocked s)" "s_closed (snd (invokeClosed s)) = s_closed s"
  by (simp_all add: forceCloseLocked_def session_flag_defs invokeClosed_def)

lemma session_close_closed [simp]: "s_closed (fst (session_close tx s))"
  by (simp add: session_close_def close_mark_locked_def case_prod_beta Let_def)

lemma tick_closed [simp]: "s_closed (fst (retransmitTick now tx s)) = s_closed s"
  by (simp add: retransmitTick_def retransmit_locked_def Let_def case_prod_beta)

lemma onPacket_closed:
  "s_closed s \<Longrightarrow> s_onClosed s \<Longrightarrow> \<not> s_closeCb s \<Longrightarrow> s_closed (fst (onPacket now tx f a s))"
  using onPacket_entry [of now tx f a s] by (cases "onPacket now tx f a s") (auto simp: same_entry_def split: if_splits)

text \<open>The tickers, and the end of a connection.\<close>

lemma kept_tick_sessions: "kept l (fst (tick_sessions now tx ps l))"
proof (induction ps arbitrary: l)
  case (Cons p ps)
  have "kept l (l_update p (fst (retransmitTick now tx (l_heap l ! p))) l)" by (rule kept_update) simp
  then show ?case using Cons.IH kept_trans by (fastforce simp: case_prod_beta Let_def)
qed simp

lemma kept_timer_tick: "kept l (fst (timer_tick now tx l))"
  unfolding timer_tick_def by (rule kept_tick_sessions)

lemma kept_idle_tick:
  assumes "listener_inv l"
  shows "kept l (idle_tick now l)"
proof (cases "l_sessions l")
  case None
  then show ?thesis by (simp add: idle_tick_def)
next
  case (Some tbl)
  obtain h tbl' where r: "idle_sessions now tbl (l_heap l) = (h, tbl')" by (cases "idle_sessions now tbl (l_heap l)")
  have "table_ok (l_heap l) tbl" using assms Some by (simp add: listener_inv_def)
  from idle_sessions_spec [OF r table_distinct_snd [OF this]]
  show ?thesis using r Some by (auto simp: kept_def idle_tick_def)
qed

lemma kept_app_close: "kept l (fst (app_close tx p l))"
proof -
  obtain s out runs where c: "session_close tx (l_heap l ! p) = (s, out, runs)" by (cases "session_close tx (l_heap l ! p)") auto
  have "s_closed s" using session_close_closed [of tx "l_heap l ! p"] c by simp
  then show ?thesis using c kept_update [of l p s] by (auto simp: app_close_def Let_def)
qed

text \<open>A closing of the listener, whether it ends or not.\<close>

lemma kept_heap_trans:
  "length h' = length h \<Longrightarrow> \<forall>q < length h. s_closed (h ! q) \<longrightarrow> s_closed (h' ! q) \<Longrightarrow>
   length h'' = length h' \<Longrightarrow> \<forall>q < length h'. s_closed (h' ! q) \<longrightarrow> s_closed (h'' ! q) \<Longrightarrow>
   length h'' = length h \<and> (\<forall>q < length h. s_closed (h ! q) \<longrightarrow> s_closed (h'' ! q))"
  by simp

lemma closed_update: "s_closed s \<Longrightarrow> q < length h \<Longrightarrow> s_closed (h ! q) \<Longrightarrow> s_closed (h[p := s] ! q)"
  by (cases "q = p") auto

lemma close_sessions_kept:
  "close_sessions tbl h = Returns h' \<Longrightarrow> length h' = length h \<and> (\<forall>q < length h. s_closed (h ! q) \<longrightarrow> s_closed (h' ! q))"
proof (induction tbl h rule: close_sessions.induct)
  case (2 k p tbl h)
  let ?s = "snd (invokeClosed (forceCloseLocked (h ! p)))"
  have c: "close_sessions tbl (h[p := ?s]) = Returns h'" "\<not> fst (invokeClosed (forceCloseLocked (h ! p)))"
    using "2.prems" by (simp_all add: case_prod_beta Let_def split: if_splits)
  have "length h' = length (h[p := ?s]) \<and> (\<forall>q < length (h[p := ?s]). s_closed (h[p := ?s] ! q) \<longrightarrow> s_closed (h' ! q))"
    by (rule "2.IH" [OF _ _ _ c(1)]) (use c(2) in \<open>simp_all add: prod_eq_iff\<close>)
  then show ?case using closed_update [of ?s] by simp
qed simp

lemma close_blocked_kept:
  "length (close_blocked tbl h) = length h \<and> (\<forall>q < length h. s_closed (h ! q) \<longrightarrow> s_closed (close_blocked tbl h ! q))"
proof (induction tbl h rule: close_blocked.induct)
  case (2 k p tbl h)
  let ?s = "snd (invokeClosed (forceCloseLocked (h ! p)))"
  show ?case
  proof (cases "fst (invokeClosed (forceCloseLocked (h ! p)))")
    case True
    then show ?thesis using closed_update [of ?s] by (simp add: case_prod_beta)
  next
    case False
    have "length (close_blocked tbl (h[p := ?s])) = length (h[p := ?s]) \<and>
        (\<forall>q < length (h[p := ?s]). s_closed (h[p := ?s] ! q) \<longrightarrow> s_closed (close_blocked tbl (h[p := ?s]) ! q))"
      by (rule "2.IH" [OF _ _ False]) (simp_all add: prod_eq_iff)
    then show ?thesis using False closed_update [of ?s] by (simp add: case_prod_beta)
  qed
qed simp

lemma kept_Listener_Close: "Listener_Close l = Returns l' \<Longrightarrow> kept l l' \<and> l_closed l'"
  by (auto simp: Listener_Close_def kept_def dest: close_sessions_kept split: if_splits option.splits outcome.splits)

text \<open>A datagram opens at most one session, which is queued or already closed.\<close>

definition opened :: "listener \<Rightarrow> listener \<Rightarrow> bool" where
  "opened l l' \<longleftrightarrow> (\<exists>s. l_heap l' = l_heap l @ [s] \<and>
     ((\<exists>c. l_accept l' = l_accept l @ [(length (l_heap l), c)]) \<or> l_accept l' = l_accept l \<and> s_closed s)) \<and>
     l_closed l' = l_closed l \<and> l_sessions l' \<noteq> None"

lemma dispatch_syn_opens:
  "l_sessions l = Some tbl \<Longrightarrow> kept l (fst (dispatch_syn now tx f a tbl l)) \<or> opened l (fst (dispatch_syn now tx f a tbl l))"
  using kept_update [of l _ "(l_heap l ! _)\<lparr>s_peer := Some a\<rparr>"]
  by (auto simp: dispatch_syn_def opened_def Let_def split: option.splits)

lemma dispatch_opens:
  assumes "listener_inv l"
  shows "kept l (fst (dispatch now tx f a l)) \<or> opened l (fst (dispatch now tx f a l))"
proof (cases "l_sessions l")
  case None
  then show ?thesis by (simp add: dispatch_def)
next
  case (Some tbl)
  show ?thesis
  proof (cases "map_of tbl (f_session f)")
    case None
    then show ?thesis using dispatch_syn_opens [OF Some] by (simp add: dispatch_def Some)
  next
    case (Some p)
    have "entry_ok (l_heap l) (f_session f) p" using table_entry [OF assms \<open>l_sessions l = Some tbl\<close>] map_of_SomeD [OF Some] by blast
    then have "s_closed (l_heap l ! p) \<longrightarrow> s_closed (fst (onPacket now tx f (Some a) (l_heap l ! p)))"
      using onPacket_closed by (simp add: entry_ok_def)
    then have "kept l (l_update p (fst (onPacket now tx f (Some a) (l_heap l ! p))) l)" by (rule kept_update)
    then show ?thesis
      using dispatch_syn_opens [OF \<open>l_sessions l = Some tbl\<close>] Some \<open>l_sessions l = Some tbl\<close>
      by (auto simp: dispatch_def Let_def case_prod_beta)
  qed
qed

lemma readLoop_opens: "listener_inv l \<Longrightarrow> kept l (fst (readLoop_body now tx d a l)) \<or> opened l (fst (readLoop_body now tx d a l))"
  using dispatch_opens by (auto simp: readLoop_body_def split: option.splits sum.splits)

section \<open>Nothing is lost between the network and the service\<close>

text \<open>
  The sessions that have been handed over and those that wait to be, in their order; the invariant says
  that they are in the order in which they were opened, without repetition, and that every other session
  is closed.
\<close>

definition taken :: "serving \<Rightarrow> nat list" where
  "taken g = map fst (sg_handed g @ l_accept (sg_listener g))"

definition order_ok :: "nat list \<Rightarrow> session list \<Rightarrow> bool" where
  "order_ok ps h \<longleftrightarrow> sorted_wrt (<) ps \<and> (\<forall>p \<in> set ps. p < length h) \<and> (\<forall>p < length h. p \<in> set ps \<or> s_closed (h ! p))"

definition serving_inv :: "serving \<Rightarrow> bool" where
  "serving_inv g \<longleftrightarrow> order_ok (taken g) (l_heap (sg_listener g)) \<and>
     (sg_running g \<or> l_closed (sg_listener g)) \<and> (sg_stuck g \<longrightarrow> l_closed (sg_listener g)) \<and>
     (l_sessions (sg_listener g) = None \<longrightarrow> l_closed (sg_listener g)) \<and>
     (\<not> sg_stuck g \<longrightarrow> listener_inv (sg_listener g))"

lemma order_ok_kept: "order_ok ps (l_heap l) \<Longrightarrow> kept l l' \<Longrightarrow> order_ok ps (l_heap l')"
  by (auto simp: order_ok_def kept_def)

lemma order_ok_new: "order_ok ps h \<Longrightarrow> order_ok (ps @ [length h]) (h @ [s])"
  by (auto simp: order_ok_def sorted_wrt_append nth_append less_Suc_eq)

lemma order_ok_closed: "order_ok ps h \<Longrightarrow> s_closed s \<Longrightarrow> order_ok ps (h @ [s])"
  by (auto simp: order_ok_def nth_append less_Suc_eq)

lemma serving_inv_kept:
  assumes "serving_inv g" "kept (sg_listener g) l" "\<not> sg_stuck g \<Longrightarrow> listener_inv l"
  shows "serving_inv (g\<lparr>sg_listener := l\<rparr>)"
proof -
  have "order_ok (taken g) (l_heap l)" using assms(1,2) order_ok_kept by (auto simp: serving_inv_def)
  moreover have "taken (g\<lparr>sg_listener := l\<rparr>) = taken g" using assms(2) by (simp add: taken_def kept_def)
  ultimately show ?thesis using assms by (auto simp: serving_inv_def kept_def)
qed

lemma serving_inv_opened:
  assumes "serving_inv g" "opened (sg_listener g) l" "listener_inv l"
  shows "serving_inv (g\<lparr>sg_listener := l\<rparr>)"
proof -
  have "order_ok (taken (g\<lparr>sg_listener := l\<rparr>)) (l_heap l)"
    using assms(1,2) order_ok_new [of "taken g"] order_ok_closed [of "taken g"]
    by (fastforce simp: serving_inv_def opened_def taken_def)
  then show ?thesis using assms by (auto simp: serving_inv_def opened_def)
qed

lemma serving_inv_accept:
  assumes "serving_inv g" "sg_running g" "(r, l) \<in> Accept_results (sg_listener g)"
  shows "serving_inv (listenUDPLoop_body r (g\<lparr>sg_listener := l\<rparr>))"
proof -
  have inv: "\<not> sg_stuck g \<Longrightarrow> listener_inv l"
    using assms(1,3) listener_inv_Accept by (auto simp: serving_inv_def Accept_results_def)
  have l: "l = sg_listener g \<and> (r = AcceptWaits \<or> r = AcceptClosed \<and> l_closed l) \<or>
    (\<exists>p c q. l_accept (sg_listener g) = (p, c) # q \<and> r = Accepted p c \<and> l = (sg_listener g)\<lparr>l_accept := q\<rparr>)"
    using assms(3) by (auto simp: Accept_results_def AcceptContext_results_def Let_def split: list.splits if_splits)
  then have "taken (listenUDPLoop_body r (g\<lparr>sg_listener := l\<rparr>)) = taken g" by (auto simp: listenUDPLoop_body_def taken_def)
  then show ?thesis using assms(1) inv l by (auto simp: serving_inv_def listenUDPLoop_body_def)
qed

lemma handed_session: "serving_inv g \<Longrightarrow> (p, c) \<in> set (sg_handed g) \<Longrightarrow> p < length (l_heap (sg_listener g))"
proof -
  assume "serving_inv g" "(p, c) \<in> set (sg_handed g)"
  moreover from this(2) have "p \<in> set (taken g)" unfolding taken_def by (metis Un_iff fst_conv image_eqI set_append set_map)
  ultimately show ?thesis by (simp add: serving_inv_def order_ok_def)
qed

lemma serving_inv_handled:
  assumes "serving_inv g" "(p, c) \<in> set (sg_handed g)" "same_entry (l_heap (sg_listener g) ! p) s"
    "session_inv (l_heap (sg_listener g) ! p) \<Longrightarrow> session_inv s"
  shows "serving_inv (g\<lparr>sg_listener := l_update p s (sg_listener g)\<rparr>)"
proof (rule serving_inv_kept [OF assms(1) kept_entry [OF assms(3)]])
  assume "\<not> sg_stuck g"
  then have l: "listener_inv (sg_listener g)" using assms(1) by (simp add: serving_inv_def)
  then show "listener_inv (l_update p s (sg_listener g))"
    by (rule listener_inv_update [OF _ assms(3) assms(4) [OF heap_inv [OF l handed_session [OF assms(1,2)]]]])
qed

lemma serving_inv_step: "serving_step g g' \<Longrightarrow> serving_inv g \<Longrightarrow> serving_inv g'"
proof (induction rule: serving_step.induct)
  case (datagram g now tx d addr)
  let ?l = "fst (readLoop_body now tx d addr (sg_listener g))"
  have l: "listener_inv (sg_listener g)" using datagram by (simp add: serving_inv_def)
  have inv: "listener_inv ?l" using l by (auto simp: readLoop_body_def listener_inv_dispatch split: option.splits sum.splits)
  from readLoop_opens [OF l] show ?case
    unfolding on_listener_def using serving_inv_kept [OF datagram(2)] serving_inv_opened [OF datagram(2)] inv by blast
next
  case (ticked g now tx)
  then show ?case unfolding on_listener_def
    by (intro serving_inv_kept kept_timer_tick) (simp_all add: serving_inv_def listener_inv_timer_tick)
next
  case (idled g now)
  then show ?case unfolding on_listener_def
    by (intro serving_inv_kept kept_idle_tick) (simp_all add: serving_inv_def listener_inv_idle_tick)
next
  case (accept g r l)
  then show ?case by (intro serving_inv_accept)
next
  case (handler_read p c g now k c')
  then show ?case unfolding on_listener_def by (intro serving_inv_handled) (simp_all add: session_inv_handled)
next
  case (handler_write p c g now clock txs c' b)
  then show ?case unfolding on_listener_def by (intro serving_inv_handled) (simp_all add: session_inv_handled)
next
  case (handler_close p c g tx)
  then show ?case unfolding on_listener_def
    using handed_session by (intro serving_inv_kept kept_app_close) (auto simp: serving_inv_def intro!: listener_inv_app_close)
next
  case (handler_close_stuck p c g tx)
  then show ?case unfolding on_listener_def by (intro serving_inv_kept kept_update) auto
next
  case (shutdown g l)
  then show ?case using kept_Listener_Close by (intro serving_inv_kept) (auto simp: serving_inv_def listener_inv_Close)
next
  case (deadlock g tbl)
  let ?l = "(sg_listener g)\<lparr>l_closed := True, l_heap := close_blocked tbl (l_heap (sg_listener g))\<rparr>"
  have "kept (sg_listener g) ?l" using close_blocked_kept by (simp add: kept_def)
  then have "order_ok (taken g) (l_heap ?l)" using deadlock(4) order_ok_kept [of "taken g" "sg_listener g" ?l] by (simp add: serving_inv_def)
  then show ?case by (simp add: serving_inv_def taken_def on_listener_def)
qed

lemma served_inv: "served local g \<Longrightarrow> serving_inv g"
proof (induction rule: served.induct)
  case start
  have "order_ok [] []" by (simp add: order_ok_def)
  then show ?case by (simp add: serving_inv_def serve_start_def taken_def ListenPacket_def listener_inv_ListenPacket [unfolded ListenPacket_def])
next
  case (step g g')
  then show ?case using serving_inv_step by blast
qed

text \<open>The accept loop can always go on to empty the queue.\<close>

lemma queue_handed:
  "sg_running g \<Longrightarrow> \<exists>g'. serving_step\<^sup>*\<^sup>* g g' \<and> sg_handed g' = sg_handed g @ l_accept (sg_listener g) \<and>
     l_accept (sg_listener g') = [] \<and> l_heap (sg_listener g') = l_heap (sg_listener g)"
proof (induction "l_accept (sg_listener g)" arbitrary: g)
  case Nil
  then show ?case by (intro exI [of _ g]) simp
next
  case (Cons pc q)
  obtain p c where pc: "pc = (p, c)" by (cases pc)
  let ?l = "(sg_listener g)\<lparr>l_accept := q\<rparr>"
  let ?g = "listenUDPLoop_body (Accepted p c) (g\<lparr>sg_listener := ?l\<rparr>)"
  have "(Accepted p c, ?l) \<in> Accept_results (sg_listener g)"
    using Cons.hyps(2) [symmetric] pc by (simp add: Accept_results_def AcceptContext_results_def Let_def)
  then have "serving_step g ?g" using Cons.prems by (rule serving_step.accept [rotated])
  moreover have "\<exists>g'. serving_step\<^sup>*\<^sup>* ?g g' \<and> sg_handed g' = sg_handed ?g @ l_accept (sg_listener ?g) \<and>
      l_accept (sg_listener g') = [] \<and> l_heap (sg_listener g') = l_heap (sg_listener ?g)"
    by (rule Cons.hyps(1)) (use Cons.prems in \<open>simp_all add: listenUDPLoop_body_def\<close>)
  ultimately show ?case
    using Cons.hyps(2) [symmetric] pc by (auto simp: listenUDPLoop_body_def intro: converse_rtranclp_into_rtranclp)
qed

text \<open>(C11)
  Every session that the tunnel's listener opens is handed to the service once, in the order of the
  sessions' first datagrams: in every reachable state of listener, accept loop and handlers the sessions
  handed over and waiting are in strictly increasing order of creation, a session that is not among them
  is closed, and while the listener is open the loop runs and can go on to hand over all that wait.\<close>

theorem every_session_served:
  assumes "served local g"
  shows "sorted_wrt (<) (map fst (sg_handed g @ l_accept (sg_listener g))) \<and>
    (\<forall>p < length (l_heap (sg_listener g)). \<not> s_closed (l_heap (sg_listener g) ! p) \<longrightarrow>
       p \<in> fst ` set (sg_handed g @ l_accept (sg_listener g))) \<and>
    (\<not> l_closed (sg_listener g) \<longrightarrow> sg_running g \<and> length (l_accept (sg_listener g)) \<le> acceptCap \<and>
       (\<exists>g'. serving_step\<^sup>*\<^sup>* g g' \<and> sg_handed g' = sg_handed g @ l_accept (sg_listener g) \<and>
          l_accept (sg_listener g') = [] \<and> l_heap (sg_listener g') = l_heap (sg_listener g)))"
proof -
  note inv = served_inv [OF assms, unfolded serving_inv_def order_ok_def taken_def]
  have "sg_running g \<and> length (l_accept (sg_listener g)) \<le> acceptCap" if "\<not> l_closed (sg_listener g)"
    using inv that by (auto simp: listener_inv_def)
  then show ?thesis using inv queue_handed [of g] by (metis set_map)
qed

text \<open>A listener that has read the SYN of one client.\<close>

definition one_client :: serving where
  "one_client = on_listener (\<lambda>l. fst (readLoop_body 0 None
     (frame_bytes \<lparr>f_type = TypeSYN, f_session = 7, f_seq = 0, f_ack = 0, f_payload = []\<rparr>) ''client'' l)) (serve_start ''server'')"

lemma one_client_state:
  "served ''server'' one_client" "l_closed (sg_listener one_client) = False" "sg_handed one_client = []"
  "l_accept (sg_listener one_client) = [(0, newConn ''server'' ''client'')]" "length (l_heap (sg_listener one_client)) = 1"
  "\<not> s_closed (l_heap (sg_listener one_client) ! 0)"
proof -
  show "served ''server'' one_client"
    unfolding one_client_def by (intro served.step [OF served.start] serving_step.datagram) (simp add: serve_start_def)
  have "Decode (frame_bytes \<lparr>f_type = TypeSYN, f_session = 7, f_seq = 0, f_ack = 0, f_payload = []\<rparr>) =
      Some (Inr \<lparr>f_type = TypeSYN, f_session = 7, f_seq = 0, f_ack = 0, f_payload = []\<rparr>)" by code_simp
  then have l: "sg_listener one_client = fst (dispatch 0 None \<lparr>f_type = TypeSYN, f_session = 7, f_seq = 0, f_ack = 0, f_payload = []\<rparr>
      ''client'' (ListenPacket ''server''))"
    by (simp add: one_client_def on_listener_def serve_start_def readLoop_body_def)
  show "l_closed (sg_listener one_client) = False" "l_accept (sg_listener one_client) = [(0, newConn ''server'' ''client'')]"
    "length (l_heap (sg_listener one_client)) = 1" "\<not> s_closed (l_heap (sg_listener one_client) ! 0)"
    unfolding l by (simp_all add: dispatch_def dispatch_syn_def ListenPacket_def tunnel_types MaxSessions_def acceptCap_def
        newSession_def Let_def)
  show "sg_handed one_client = []" by (simp add: one_client_def on_listener_def serve_start_def)
qed

theorem every_session_served_witness:
  "\<exists>g'. serving_step\<^sup>*\<^sup>* one_client g' \<and> sg_handed g' = [(0, newConn ''server'' ''client'')] \<and> l_accept (sg_listener g') = []"
proof -
  note e = every_session_served [OF one_client_state(1)]
  from e one_client_state(2) obtain g' where "serving_step\<^sup>*\<^sup>* one_client g'"
    "sg_handed g' = sg_handed one_client @ l_accept (sg_listener one_client)" "l_accept (sg_listener g') = []" by blast
  then show ?thesis using one_client_state(3,4) by auto
qed

section \<open>A reload while a client is connected\<close>

text \<open>What \<open>Close\<close> of the listener is for the service, with the error of the socket.\<close>

definition close_result :: "go_error option \<Rightarrow> listener \<Rightarrow> go_error option outcome" where
  "close_result e l = (case Listener_Close l of Blocks \<Rightarrow> Blocks | Returns _ \<Rightarrow> Returns e)"

lemma client_blocks_Close:
  assumes "served local g" "\<not> l_closed (sg_listener g)" "p < length (l_heap (sg_listener g))"
    "\<not> s_closed (l_heap (sg_listener g) ! p)"
  shows "close_result e (sg_listener g) = Blocks"
proof -
  note inv = served_inv [OF assms(1), unfolded serving_inv_def]
  obtain tbl where tbl: "l_sessions (sg_listener g) = Some tbl" using inv assms(2) by (cases "l_sessions (sg_listener g)") auto
  have l: "listener_inv (sg_listener g)" using inv assms(2) by blast
  then have "(s_id (l_heap (sg_listener g) ! p), p) \<in> set tbl" using assms(3,4) tbl by (auto simp: listener_inv_def table_ok_def)
  then have "Listener_Close (sg_listener g) = Blocks" using Listener_Close_blocks_iff [OF l assms(2) tbl] by auto
  then show ?thesis by (simp add: close_result_def)
qed

text \<open>Services with other names, which are reloaded or started first, leave the service as it is.\<close>

lemma update_services_after:
  "sv_Name c \<notin> sv_Name ` set before \<Longrightarrow> old (sv_Name c) = Some s \<Longrightarrow>
   update_services env pv secret before old new = Some (Returns (Some new', old')) \<Longrightarrow>
   update_services env pv secret (before @ c # after) old new = update_services env pv secret (c # after) old' new' \<and>
   old' (sv_Name c) = Some s"
proof (induction before arbitrary: old new)
  case (Cons d ds)
  have n: "sv_Name c \<noteq> sv_Name d" "sv_Name c \<notin> sv_Name ` set ds" using Cons.prems(1) by auto
  show ?case
  proof (cases "old (sv_Name d)")
    case None
    with Cons.prems(3) obtain t where t: "start_service env pv secret d = Some (None, t)"
      "update_services env pv secret ds old (new(sv_Name d \<mapsto> t)) = Some (Returns (Some new', old'))"
      by (auto simp: bind_eq_Some_conv split: option.splits)
    have "update_services env pv secret ((d # ds) @ c # after) old new =
        update_services env pv secret (ds @ c # after) old (new(sv_Name d \<mapsto> t))" using None t(1) by simp
    with Cons.IH [where old = old, OF n(2) Cons.prems(2) t(2)] show ?thesis by metis
  next
    case (Some t)
    with Cons.prems(3) obtain t' where t': "sv_Reload (se_tcpClose env (sv_Name d)) (se_udpClose env (sv_Name d)) (se_MOTD env) (se_rnd env)
        (se_ParseDuration env) pv (se_tcpErr env (sv_Name d)) (se_udpErr env (sv_Name d)) d (sv_SetAuthSecret secret t) = Some (Returns (None, t'))"
      "update_services env pv secret ds (old(sv_Name d \<mapsto> t')) (new(sv_Name d \<mapsto> t')) = Some (Returns (Some new', old'))"
      by (auto simp: on_return_Returns Let_def split: option.splits)
    have o: "(old(sv_Name d \<mapsto> t')) (sv_Name c) = Some s" using Cons.prems(2) n(1) by simp
    have "update_services env pv secret ((d # ds) @ c # after) old new =
        update_services env pv secret (ds @ c # after) (old(sv_Name d \<mapsto> t')) (new(sv_Name d \<mapsto> t'))"
      using Some t'(1) by (simp add: Let_def)
    with Cons.IH [where old = "old(sv_Name d \<mapsto> t')", OF n(2) o t'(2)] show ?thesis by metis
  qed
qed simp

lemma sv_Reload_blocks:
  "sv_started s \<Longrightarrow> sv_udpListener s \<Longrightarrow> sv_Reload tcpClose Blocks motd rnd pd pv te ue c (sv_SetAuthSecret secret s) = Some Blocks"
  by (simp add: sv_Reload_def sv_Close_def sv_SetAuthSecret_def)

text \<open>(C29)
  While a client is connected over the tunnel, a reload of the configuration hangs: when the outbounds
  and the rules of the new configuration are taken over and the services before it are reloaded without
  an error, reloading the service that listens for the tunnel closes its listener, which never returns.
  That is not a panic: \<open>UpdateConfig\<close> does not return, nor does the reload loop that calls it, so no later
  event of that loop is handled.\<close>

theorem reload_hangs_with_client:
  assumes client: "served local g" "\<not> l_closed (sg_listener g)" "p < length (l_heap (sg_listener g))"
      "\<not> s_closed (l_heap (sg_listener g) ! p)"
    and s: "is_serviceMap i (sv_Name c) = Some s" "sv_started s" "sv_udpListener s"
      "se_udpClose env (sv_Name c) = close_result e (sg_listener g)"
    and cs: "rr_Services raw = before @ c # after" "sv_Name c \<notin> sv_Name ` set before"
    and u: "update_outbounds env (reload_provider (is_router i) (rr_Lists raw)) (rr_AuthSecret raw) (is_outboundMap i)
        (rr_Outbounds raw) [] (is_outbounds i) = Some (Some names, obs)"
    and r: "Router_UpdateConfig (se_rules env) (se_ParseDuration env)
        (router_options_of (i\<lparr>is_config := raw, is_outbounds := obs\<rparr>) names) (is_router i) = Some (None, rt)"
    and b: "update_services env (router_provider rt) (rr_AuthSecret raw) before (is_serviceMap i) Map.empty = Some (Returns (Some new, old))"
  shows "Instance_reload env raw i = Some Blocks \<and>
    (\<forall>pg ev evs. wired pg \<longrightarrow> pg_instance pg = i \<longrightarrow> ev = ReloadRequest \<or> ev = FileEvent \<longrightarrow>
       length (rr_AuthSecret raw) \<le> auth_MaxLen \<longrightarrow> program_run env ((ev, Inr raw) # evs) pg = Some Blocks)"
proof -
  have "update_services env (router_provider rt) (rr_AuthSecret raw) (rr_Services raw) (is_serviceMap i) Map.empty = Some Blocks"
    using update_services_after [OF cs(2) s(1) b, of after] s(2-4) client_blocks_Close [OF client]
    by (simp add: cs(1) sv_Reload_blocks)
  then have hang: "Instance_reload env raw i = Some Blocks"
    using u r by (simp add: Instance_reload_def Instance_UpdateConfig_def Let_def)
  then show ?thesis
    by (auto simp: wired_def Instance_reload_def reload_turn_cases(1))
qed

text \<open>A service with a tunnel and one client, and a reload with the configuration it has.\<close>

definition tunnelled_instance :: "(net_in, ip_entry list, unit) zb_instance" where
  "tunnelled_instance = running_instance\<lparr>is_serviceMap := [''game'' \<mapsto> hop_service\<lparr>sv_udpListener := True, sv_started := True\<rparr>]\<rparr>"

definition tunnelled_start :: "(ip_entry list, unit) start_env" where
  "tunnelled_start = sample_start\<lparr>se_udpClose := (\<lambda>_. close_result None (sg_listener one_client))\<rparr>"

definition tunnelled_program :: "(net_in, ip_entry list, unit) program" where
  "tunnelled_program =
     \<lparr>pg_instance = tunnelled_instance,
      pg_root = \<lparr>rt_content = is_config tunnelled_instance, rt_watcher = True, rt_reloadChan = Some True\<rparr>,
      pg_handler = True, pg_level = 0\<rparr>"

theorem reload_hangs_with_client_witness:
  "Instance_reload tunnelled_start (sample_root [named_hop ''hop'' []]) tunnelled_instance = Some Blocks \<and>
   program_run tunnelled_start [(FileEvent, Inr (sample_root [named_hop ''hop'' []])), (EventsClosed, Inl ErrOsClosed)]
     tunnelled_program = Some Blocks"
proof -
  let ?raw = "sample_root [named_hop ''hop'' []]"
  have raw: "rr_Outbounds ?raw = [named_hop ''hop'' []]" "rr_Services ?raw = [keyed_service]" "rr_AuthSecret ?raw = ''key''"
    "rr_Lists ?raw = None" "rr_Router ?raw = \<lparr>ro_DefaultOutbound = ''hop'', ro_Rules = []\<rparr>"
    by (simp_all add: sample_root_def)
  obtain o1 where o1: "outbound_Reload tunnelled_start (reload_provider (sample_router [''hop'']) None) (named_hop ''hop'' [])
      (set_secret ''key'' (linked_hop ''hop'' [])) = Some (None, o1)" using hop_reloaded by blast
  let ?obs = "[''hop'' \<mapsto> o1]"
  have u: "update_outbounds tunnelled_start (reload_provider (is_router tunnelled_instance) (rr_Lists ?raw)) (rr_AuthSecret ?raw)
      (is_outboundMap tunnelled_instance) (rr_Outbounds ?raw) [] (is_outbounds tunnelled_instance) = Some (Some [''hop''], ?obs)"
    using o1 by (simp add: raw tunnelled_instance_def Let_def)
  have r: "Router_UpdateConfig (se_rules tunnelled_start) (se_ParseDuration tunnelled_start)
      (router_options_of (tunnelled_instance\<lparr>is_config := ?raw, is_outbounds := ?obs\<rparr>) [''hop'']) (is_router tunnelled_instance) =
      Some (None, sample_router [''hop''])"
    by (simp add: Router_UpdateConfig_def Router_Initialize_def router_options_of_def sample_router_def zero_router_def
        findOutboundByName_def tunnelled_instance_def raw)
  have n: "sv_Name keyed_service = ''game''" by (simp add: keyed_service_def)
  have s: "is_serviceMap tunnelled_instance (sv_Name keyed_service) = Some (hop_service\<lparr>sv_udpListener := True, sv_started := True\<rparr>)"
    "se_udpClose tunnelled_start (sv_Name keyed_service) = close_result None (sg_listener one_client)"
    by (simp_all add: tunnelled_instance_def tunnelled_start_def n)
  have b: "update_services tunnelled_start pv secret [] (is_serviceMap tunnelled_instance) Map.empty =
      Some (Returns (Some Map.empty, is_serviceMap tunnelled_instance))" for pv secret by simp
  have cs: "rr_Services ?raw = [] @ keyed_service # []" by (simp add: raw)
  note h = reload_hangs_with_client [OF one_client_state(1) _ _ one_client_state(6) s(1) _ _ s(2) cs _ u r b]
  have w: "wired tunnelled_program" "pg_instance tunnelled_program = tunnelled_instance"
    by (simp_all add: wired_def tunnelled_program_def)
  have a: "length (rr_AuthSecret ?raw) \<le> auth_MaxLen" by (simp add: raw(3) auth_MaxLen_def)
  show ?thesis using h one_client_state(2,5) w a by simp
qed

end
