(* ===== verification/ReleaseFacts.thy ===== *)
theory ReleaseFacts
  imports Service
begin

text \<open>
  What the handling of a connection holds it gives back: the locks of the router and of the Minecraft
  outbound, the place in the counter of players, and the connections of the client and the server.
\<close>

section \<open>A connection in the Minecraft outbound\<close>

definition online_change :: "inj_event \<Rightarrow> int" where
  "online_change e = (case e of EvOnline k \<Rightarrow> k | _ \<Rightarrow> 0)"

text \<open>
  Either the metadata was refused before the lock was taken; or the lock is released once, and before the
  relay starts, the counter is what it was, and a connection to the server was relayed (which closes it)
  or closed. The exception is the answer of a server that did not take a status request.
\<close>

definition released :: "('s, 'w, 'a, 'b) injected \<Rightarrow> bool" where
  "released i \<longleftrightarrow>
     (in_events i = [] \<and> in_server i = None \<and>
      in_err i \<in> {Some (ErrText ''require Minecraft metadata''), Some (ErrText ''invalid Minecraft protocol'')}) \<or>
     (count_list (in_events i) EvUnlock = 1 \<and>
      (EvRelay \<in> set (in_events i) \<longrightarrow> EvUnlock \<in> set (takeWhile (\<lambda>e. e \<noteq> EvRelay) (in_events i))) \<and>
      sum_list (map online_change (in_events i)) = 0 \<and>
      (in_server i = None \<or> EvRelay \<in> set (in_events i) \<or> EvCloseServer \<in> set (in_events i) \<or>
       (\<exists>e. in_err i = Some (Cause ''request remote MOTD: '' e))))"

text \<open>
  A predicate on what a function of the option monad returns, if it returns, and its rules for the monad's
  constructs: with them a statement about a handler is split into its branches.
\<close>

definition always :: "('r \<Rightarrow> bool) \<Rightarrow> 'r option \<Rightarrow> bool" where
  "always P r \<longleftrightarrow> (\<forall>x. r = Some x \<longrightarrow> P x)"

lemma alwaysD: "always P r \<Longrightarrow> r = Some x \<Longrightarrow> P x"
  by (simp add: always_def)

lemma always_bind: "(\<And>x. always P (f x)) \<Longrightarrow> always P (Option.bind r f)"
  by (auto simp: always_def bind_eq_Some_conv)

lemma always_bind_from: "always Q r \<Longrightarrow> (\<And>x. Q x \<Longrightarrow> always P (f x)) \<Longrightarrow> always P (Option.bind r f)"
  by (auto simp: always_def bind_eq_Some_conv)

lemma always_let: "(\<And>x. always P (f x)) \<Longrightarrow> always P (Let y f)"
  by simp

lemma always_prod: "(\<And>a b. always P (f a b)) \<Longrightarrow> always P (case r of (a, b) \<Rightarrow> f a b)"
  by (cases r) simp

lemma always_prod_app: "(\<And>a b. always P (f a b y)) \<Longrightarrow> always P ((case r of (a, b) \<Rightarrow> f a b) y)"
  by (cases r) simp

lemma always_sum: "(\<And>e. always P (f e)) \<Longrightarrow> (\<And>x. always P (g x)) \<Longrightarrow> always P (case r of Inl e \<Rightarrow> f e | Inr x \<Rightarrow> g x)"
  by (cases r) simp_all

lemma always_option: "always P f \<Longrightarrow> (\<And>x. always P (g x)) \<Longrightarrow> always P (case r of None \<Rightarrow> f | Some x \<Rightarrow> g x)"
  by (cases r) simp_all

lemma always_if: "(b \<Longrightarrow> always P f) \<Longrightarrow> (\<not> b \<Longrightarrow> always P g) \<Longrightarrow> always P (if b then f else g)"
  by simp

lemma always_Some [simp]: "always P (Some x) \<longleftrightarrow> P x"
  by (simp add: always_def)

lemma always_linger: "always P r \<Longrightarrow> always P (with_linger env r)"
  by (simp add: with_linger_def always_def)

lemmas always_intros = always_bind always_let always_prod always_prod_app always_sum always_option always_if always_linger

lemma always_returns [simp]:
  "always P (returns err events c w server m) \<longleftrightarrow>
   P \<lparr>in_err = err, in_events = events, in_client = c, in_out = w, in_server = server, in_meta = m\<rparr>"
  by (simp add: returns_def)

text \<open>Every branch of the handlers.\<close>

named_theorems release_intros

lemma relay_released [release_intros]:
  "always released (relay env [EvUnlock] [] conn c w m)"
  "always released (relay env [EvUnlock, EvOnline 1] [EvOnline (-1)] conn c w m)"
  unfolding relay_def by (intro always_intros; simp add: released_def online_change_def)+

lemma proxy_status_released [release_intros]: "always released (proxy_status env st ms c w m)"
  unfolding proxy_status_def
  by (intro always_intros release_intros; auto simp: released_def online_change_def)

lemma answer_status_released [release_intros]: "always released (answer_status env st ms mc c w m)"
  unfolding answer_status_def
  by (intro always_intros; simp add: released_def online_change_def)

lemma kick_released [release_intros]: "always released (kick env what msg c w m)"
  unfolding kick_def by (intro always_intros; simp add: released_def online_change_def)

lemma forward_login_gives_back [release_intros]: "always released (forward_login env st ms c w m)"
  unfolding forward_login_def
  by (intro always_intros release_intros; simp add: released_def online_change_def)

lemma handle_released [release_intros]:
  "always released (handle_status env st ms mc c w m)" "always released (handle_login env st ms mc c w m)"
  unfolding handle_status_def handle_login_def
  by (intro always_intros release_intros; simp add: released_def online_change_def)+

lemma InjectConnection_released: "always released (InjectConnection env st c w m)"
  unfolding InjectConnection_def
  by (intro always_intros release_intros; simp add: released_def online_change_def)

section \<open>A connection in the router and the service\<close>

text \<open>
  The router's lock is taken and released once, before a connection is injected or relayed, and the
  connection of the client is closed.
\<close>

definition handled_released :: "('s, 'w, 'a, 'b) handled \<Rightarrow> bool" where
  "handled_released h \<longleftrightarrow>
     count_list (hd_events h) RtRLock = 1 \<and> count_list (hd_events h) RtRUnlock = 1 \<and>
     (\<forall>e \<in> set (takeWhile (\<lambda>e. e \<noteq> RtRUnlock) (hd_events h)). e \<noteq> RtRelay \<and> (\<forall>ref. e \<noteq> RtInject ref)) \<and>
     (RtCloseConn \<in> set (hd_events h) \<or> RtCloseCached \<in> set (hd_events h)) \<and>
     (\<forall>i nm. hd_injected h = Some i \<longrightarrow> RtInject (RefNamed nm) \<in> set (hd_events h) \<longrightarrow> released i)"

lemma route_dispatch_released: "always handled_released (route_dispatch env ref c w m)"
proof (cases "inject_ref env ref c w m")
  case (Some r)
  have "released i" if "r = Some i" "ref = RefNamed nm" for i nm
    using Some that alwaysD [OF InjectConnection_released] by (auto simp: inject_ref_def split: option.splits outbound.splits)
  then show ?thesis using Some by (auto simp: route_dispatch_def always_def handled_released_def bind_eq_Some_conv)
next
  case None
  then show ?thesis unfolding route_dispatch_def
    by simp (intro conjI impI always_intros; simp add: handled_released_def)
qed

lemma Router_released: "always handled_released (Router_HandleConnection renv env rt c w m)"
  unfolding Router_HandleConnection_def
  by (intro always_intros route_dispatch_released; simp add: handled_released_def)

text \<open>The service: what it does not close itself the router has.\<close>

definition inbound_released :: "('s, 'w, 'a, 'b) inbound \<Rightarrow> bool" where
  "inbound_released ib \<longleftrightarrow> (SvClose \<in> set (ib_events ib) \<or> (\<exists>h. ib_handled ib = Some h)) \<and>
     (\<forall>h. ib_handled ib = Some h \<longrightarrow> handled_released h) \<and> (\<forall>i. ib_injected ib = Some i \<longrightarrow> released i)"

lemma inbound_end_released: "SvClose \<in> set evs \<Longrightarrow> always inbound_released (inbound_end evs c w)"
  by (simp add: inbound_end_def inbound_released_def)

lemma handle_legacy_released: "always inbound_released (handle_legacy env st c w m)"
  unfolding handle_legacy_def
  by (intro always_bind_from [OF InjectConnection_released] always_intros inbound_end_released) (auto simp: inbound_released_def)

lemma handleInbound_released: "always inbound_released (handleInbound renv env rnd idColor now rt s remote conn w)"
  unfolding handleInbound_def
  by (intro always_bind_from [OF Router_released] always_intros inbound_end_released handle_legacy_released)
     (auto simp: inbound_released_def refuse_def)

text \<open>(C13)
  Whatever becomes of an accepted connection, what was taken for it is given back when its handling
  returns: the connection of the client is closed by the service or by the router; the router's lock is
  released once, and before the connection is relayed or given to an outbound; and a Minecraft outbound
  (the legacy one as well) releases its lock once, before its relay, brings its counter of players back,
  and has closed or relayed the connection it opened to a server, except one that did not take a status
  request.\<close>

theorem accepted_connection_released:
  assumes "handleInbound renv env rnd idColor now rt s remote conn w = Some ib"
  shows "(SvClose \<in> set (ib_events ib) \<or> (\<exists>h. ib_handled ib = Some h)) \<and>
    (\<forall>h. ib_handled ib = Some h \<longrightarrow> handled_released h) \<and> (\<forall>i. ib_injected ib = Some i \<longrightarrow> released i)"
  using alwaysD [OF handleInbound_released assms] by (simp add: inbound_released_def)

text \<open>A service that admits everyone, and a router that rejects everyone.\<close>

definition open_service :: service where
  "open_service = NewService
     \<lparr>sv_Name = ''open'', sv_TargetAddress = [], sv_TargetPort = 0, sv_Listen = 25565, sv_ListenUDP = 0,
      sv_EnableTCP = True, sv_EnableUDP = False, sv_EnableProxyProtocol = False, sv_RequireAuthSecret = False,
      sv_IPAccess = \<lparr>ac_Mode = [], ac_ListTags = [], ac_LowerCase = False\<rparr>, sv_Minecraft = None, sv_TLSSniffing = None,
      sv_SocketOptions = None, sv_Outbound = no_proxy\<rparr>"

definition rejecting_router :: "('s, 'ip, 'c) router" where
  "rejecting_router =
     \<lparr>rt_started = True, rt_outboundMap = Some [], rt_listMap = None, rt_ruleRegistry = [], rt_snifferRegistry = [],
      rt_rules = [], rt_defaultOutbound = RefReject\<rparr>"

theorem accepted_connection_released_witness:
  "\<forall>renv env now conn w. \<exists>ib h.
     handleInbound renv env 7 0 now rejecting_router open_service (RemoteTCP [10, 0, 0, 1] 40000) conn w = Some ib \<and>
     ib_handled ib = Some h \<and> handled_released h"
proof (intro allI, goal_cases)
  case (1 renv env now conn w)
  have "0 < length color_List" by code_simp
  then obtain ib where ib: "handleInbound renv env 7 0 now rejecting_router open_service (RemoteTCP [10, 0, 0, 1] 40000) conn w = Some ib"
    "ib_events ib = [SvRouted]"
    by (auto simp: handleInbound_def admit_def open_service_def NewService_def remote_source_def AddrFromSlice_def GenerateID_def
        guard_panic_def Router_HandleConnection_def rejecting_router_def route_dispatch_def inject_ref_def
        reject_InjectConnection_def returns_def)
  from accepted_connection_released [OF ib(1)] ib show ?case by auto
qed

end
