(* ===== verification/HopTunnel.thy ===== *)
theory HopTunnel
  imports HopFacts Tunnel
begin

text \<open>
  Two proxies joined by the UDP tunnel: the connection that \<open>listenUDPLoop\<close> (service/service.go) hands
  to \<open>handleInbound\<close> is a \<open>Conn\<close> over a session (common/udptunnel/session.go), and the stream
  behind it is what the other end has written and the datagrams have brought. The contract of a reader
  is discharged for that connection, so what the lemmas of \<open>io_reader\<close> say of the key, the PROXY
  protocol and the sniffers holds for it too.
\<close>

section \<open>A connection of the tunnel as a reader\<close>

text \<open>
  \<open>Conn.Read\<close> at the time \<open>now\<close>. A read that waits for the next datagram does not return here;
  what the datagrams bring is in the session before the handler reads.
\<close>

definition tunnel_Read :: "int \<Rightarrow> tunnel_conn \<Rightarrow> session reader" where
  "tunnel_Read now cn k s =
     (case Conn_Read now k cn s of
        (ReadReturn bs err, s') \<Rightarrow> Some ((bs, err), s')
      | (ReadWaits, _) \<Rightarrow> None)"

definition in_time :: "int \<Rightarrow> tunnel_conn \<Rightarrow> bool" where
  "in_time now cn \<longleftrightarrow> (\<forall>dl. c_readDl cn = Some dl \<longrightarrow> now \<le> dl)"

lemma tunnel_Read_buffered:
  assumes "in_time now cn" "s_readBuf s \<noteq> []"
  shows "tunnel_Read now cn k s = Some ((take k (s_readBuf s), None), s\<lparr>s_readBuf := drop k (s_readBuf s)\<rparr>)"
  using assms by (auto simp: tunnel_Read_def Conn_Read_def session_read_def in_time_def split: option.split)

text \<open>The bytes in the read buffer come first; at most one read per buffer is short.\<close>

interpretation tunnelled: io_reader "tunnel_Read now cn" s_readBuf "\<lambda>s. if s_readBuf s = [] then 0 else 1" "\<lambda>_. in_time now cn"
  for now cn
proof
  fix s :: session and k :: nat
  assume "in_time now cn" "0 < k" "s_readBuf s \<noteq> []"
  then show "\<exists>bs s'. tunnel_Read now cn k s = Some ((bs, None), s') \<and> s_readBuf s = bs @ s_readBuf s' \<and> in_time now cn \<and>
      length bs \<le> k \<and> (if s_readBuf s' = [] then 0 else 1) \<le> (if s_readBuf s = [] then 0 else 1 :: nat) \<and>
      ((if s_readBuf s' = [] then 0 else 1) < (if s_readBuf s = [] then 0 else 1 :: nat) \<or> length bs = k)"
    using tunnel_Read_buffered [of now cn s k] by auto
qed

section \<open>Properties\<close>

text \<open>(C10)
  Two hops over the UDP tunnel: whatever the network has lost, duplicated or reordered, as long as
  neither end is closed, retransmissions and deliveries alone lead to a state of the session in
  which the service of the next hop admits the connection by its key, removes exactly what the outbound has sent
  in front, and hands the router (or its legacy outbound) the rest of the written stream, byte for byte,
  with the address of the original client.\<close>

theorem next_hop_over_tunnel:
  assumes env: "de_Write denv = stream_writer" "buf_wf (de_buf denv)" "buf_bytes (de_buf denv) = []" "128 \<le> buf_free (de_buf denv)"
    and key: "key \<noteq> []" "length key \<le> auth_MaxLen" "st = SetAuthSecret key st0" "s = sv_SetAuthSecret key s0"
    and conf: "ob_SendAuthSecret (os_config st) = sv_RequireAuthSecret (sv_config s)" "v = ob_ProxyProtocolVersion (os_config st)"
      "sv_EnableProxyProtocol (sv_config s) \<longleftrightarrow> v \<noteq> VersionUnspecified"
    and proxy: "v \<noteq> VersionUnspecified \<longrightarrow>
      ParseAddrPort (de_local denv (c, w @ (if ob_SendAuthSecret (os_config st) then str_bytes key else []))) = Inr local \<and>
      (v = Version1 \<and> AddrPort_IsValid local \<or>
       v = Version2 \<and> (AddrPort_IsValid local \<longrightarrow> Addr_Is4 (ap_addr local) = Addr_Is4 (ap_addr (md_SourceAddress m))))"
    and client: "Addr_IsValid (ap_addr (md_SourceAddress m))"
    and inb: "me_Read env = tunnel_Read now cn" "in_time now cn" "length (me_fresh env) = CacheSize" "sv_ipAccessLists s = None"
      "remote_source remote = Some src" "GenerateID rnd idColor (inbound_metadata (sv_config s) src) = Some md"
    and md': "md' = (if v = VersionUnspecified then md else md\<lparr>md_SourceAddress := canonical (md_SourceAddress m)\<rparr>)"
  shows "\<exists>bs. send_preamble denv st TransportProtocolStream m (Inr (c, w)) = Some (Inr (c, w @ bs)) \<and>
    (\<forall>sid dialer listener start t rest.
      reachable sid dialer listener start t \<longrightarrow> (\<forall>j. \<not> s_closed (ep_sess (tn_ep t j))) \<longrightarrow>
      ep_read (tn_ep t (\<not> i)) = [] \<longrightarrow> concat (ep_wrote (tn_ep t i)) = bs @ rest \<longrightarrow>
      (\<exists>evs c'. (\<forall>x \<in> set evs. delivery_event (snd x)) \<and> cc_ahead s_readBuf (me_fresh env) c' = rest \<and>
        handleInbound renv env rnd idColor now rt s remote (ep_sess (tn_ep (tunnel_run evs t) (\<not> i))) out =
          passed_on renv env rt s c' out md'))"
proof -
  from tunnelled.next_hop [where renv = renv and rt = rt and out = out and rnd = rnd and idColor = idColor,
      OF env key conf proxy client inb(1,3-6) md'] obtain bs where
    sent: "send_preamble denv st TransportProtocolStream m (Inr (c, w)) = Some (Inr (c, w @ bs))"
    and hop: "\<And>conn rest. s_readBuf conn = bs @ rest \<Longrightarrow> \<exists>c'. cc_ahead s_readBuf (me_fresh env) c' = rest \<and>
        handleInbound renv env rnd idColor now rt s remote conn out =
          passed_on renv env rt s c' out md'" using inb(2) by blast
  show ?thesis
  proof (intro exI [of _ bs] conjI sent allI impI)
    fix sid dialer listener start t rest
    assume t: "reachable sid dialer listener start t" "\<forall>j. \<not> s_closed (ep_sess (tn_ep t j))"
      "ep_read (tn_ep t (\<not> i)) = []" "concat (ep_wrote (tn_ep t i)) = bs @ rest"
    from delivered_to_buffer [OF reachable_live [OF t(1,2)], of i] t(3,4) obtain evs where
      evs: "\<forall>x \<in> set evs. delivery_event (snd x)" "s_readBuf (ep_sess (tn_ep (tunnel_run evs t) (\<not> i))) = bs @ rest"
      by (auto simp: Let_def)
    from hop [OF evs(2)] evs(1) show "\<exists>evs c'. (\<forall>x \<in> set evs. delivery_event (snd x)) \<and> cc_ahead s_readBuf (me_fresh env) c' = rest \<and>
        handleInbound renv env rnd idColor now rt s remote (ep_sess (tn_ep (tunnel_run evs t) (\<not> i))) out =
          passed_on renv env rt s c' out md'" by blast
  qed
qed

text \<open>A run: the key, the header and three bytes in one chunk, whose datagram is lost.\<close>

definition hop_bytes :: bytes where
  "hop_bytes = str_bytes ''key'' @ v2_bytes CommandProxy (TransportProtocolStream OR TransportProtocolIPv4)
     (v2_addresses (AddrPortFrom (Addr4 0x01020304) 5555) (AddrPortFrom (Addr4 0x0A000001) 40000))"

lemma hop_bytes_sent:
  "send_preamble sample_dials (SetAuthSecret ''key'' (new_outbound_state hop_config)) TransportProtocolStream
     hop_metadata (Inr ([], [])) = Some (Inr ([], hop_bytes))"
proof -
  let ?h = "\<lparr>h_Version = Version2, h_Command = CommandProxy, h_TransportProtocol = TransportProtocolStream OR TransportProtocolIPv4,
     h_SourceAddress = AddrPortFrom (Addr4 0x01020304) 5555\<rparr>"
  have "writeHeader2 stream_writer (de_buf sample_dials) ?h (AddrPortFrom (Addr4 0x0A000001) 40000) (str_bytes ''key'') = Some (None, hop_bytes)"
    by (subst writeHeader2_sends)
       (simp_all add: hop_bytes_def v2_destination_def sample_dials_def Buffer_With_def buffer_defs AddrPort_IsValid_def Addr_IsValid_def AddrPortFrom_def pp_consts)
  then have "WriteHeader stream_writer (de_buf sample_dials) ?h (AddrPortFrom (Addr4 0x0A000001) 40000) (str_bytes ''key'') = Some (None, hop_bytes)"
    by (simp add: WriteHeader_def pp_consts)
  then show ?thesis
    by (simp add: send_preamble_def send_secret_def send_proxy_header_def auth_Write_def stream_writer_def SetAuthSecret_def
        auth_Normalize_def auth_MaxLen_def new_outbound_state_def hop_config_def chain_config_def key_bytes hop_local
        hop_metadata_def AddressFamilyByAddr_def AddrPortFrom_def sample_dials_def VersionUnspecified_def Version2_def)
qed

lemma hop_bytes_length: "length hop_bytes = 31"
  by (simp add: hop_bytes_def v2_bytes_def v2_addresses_def headerIdentityV2_def AddrPortFrom_def key_bytes)

definition hop_lost :: tunnel where
  "hop_lost = tunnel_run [(True, Write 0 (hop_bytes @ [1, 2, 3])), (True, Send None (TypeDATA, 0, 0, hop_bytes @ [1, 2, 3])),
     (False, Drop (frame_bytes \<lparr>f_type = TypeDATA, f_session = 1, f_seq = 0, f_ack = 0, f_payload = hop_bytes @ [1, 2, 3]\<rparr>))]
     demo_start"

lemma hop_lost_reachable: "reachable 1 ''c'' ''s'' 0 hop_lost"
  unfolding hop_lost_def demo_start_def by (intro reachable_run reachable.start)

lemma hop_lost_state:
  "tn_net hop_lost False = []" "ep_wrote (tn_ep hop_lost True) = [hop_bytes @ [1, 2, 3]]"
  "\<not> s_closed (ep_sess (tn_ep hop_lost j))" "ep_read (tn_ep hop_lost False) = []"
  by (cases j; simp add: hop_lost_def demo_start_def tunnel_start_def tunnel_step_def upd_ep_def endpoint_write_def
      write_chunk_locked_def newSession_def endpoint_send_def writePacket_def Encode_frame_bytes MaxPayload_def
      MaxInFlight_def Let_def hop_bytes_length)+

definition tunnel_env :: "(session, bytes, net_in, bytes) mc_env" where
  "tunnel_env =
     \<lparr>me_dial = sample_dial, me_outbounds = (\<lambda>nm. None), me_Read = tunnel_Read 0 (newConn ''s'' ''c''), me_Write = stream_writer,
      me_fresh = replicate CacheSize 0, me_tcp = False, me_render = (\<lambda>j. [123, 125]), me_now = 0,
      me_buf = Buffer_With (replicate 600 0) 600, me_copybuf = Buffer_With (replicate 64 0) 64\<rparr>"

theorem next_hop_over_tunnel_witness:
  "\<forall>renv rt. \<exists>evs c' md. cc_ahead s_readBuf (replicate CacheSize 0) c' = [1, 2, 3] \<and>
      md_SourceAddress md = AddrPortFrom (Addr4 0x01020304) 5555 \<and>
      handleInbound renv tunnel_env 7 0 0 rt hop_service (RemoteUDP [10, 0, 0, 1] 40000)
          (ep_sess (tn_ep (tunnel_run evs hop_lost) False)) [] =
        passed_on renv tunnel_env rt hop_service c' [] md"
proof (intro allI)
  fix renv :: "('ip, 'c) rule_env" and rt :: "(session, 'ip, 'c) router"
  obtain md where md: "GenerateID 7 0 (inbound_metadata keyed_service (AddrPortFrom (Addr4 0x0A000001) 40000)) = Some md"
    using GenerateID_returns by blast
  let ?md = "md\<lparr>md_SourceAddress := canonical (md_SourceAddress hop_metadata)\<rparr>"
  have "\<exists>bs. send_preamble sample_dials (SetAuthSecret ''key'' (new_outbound_state hop_config)) TransportProtocolStream
        hop_metadata (Inr ([], [])) = Some (Inr ([], [] @ bs)) \<and>
    (\<forall>sid dialer listener start t rest.
      reachable sid dialer listener start t \<longrightarrow> (\<forall>j. \<not> s_closed (ep_sess (tn_ep t j))) \<longrightarrow>
      ep_read (tn_ep t (\<not> True)) = [] \<longrightarrow> concat (ep_wrote (tn_ep t True)) = bs @ rest \<longrightarrow>
      (\<exists>evs c'. (\<forall>x \<in> set evs. delivery_event (snd x)) \<and> cc_ahead s_readBuf (me_fresh tunnel_env) c' = rest \<and>
        handleInbound renv tunnel_env 7 0 0 rt hop_service (RemoteUDP [10, 0, 0, 1] 40000)
            (ep_sess (tn_ep (tunnel_run evs t) (\<not> True))) [] =
          passed_on renv tunnel_env rt hop_service c' [] ?md))"
  proof (rule next_hop_over_tunnel [where key = "''key''" and v = Version2 and ?s0.0 = "NewService keyed_service"
        and ?st0.0 = "new_outbound_state hop_config" and local = "AddrPortFrom (Addr4 0x0A000001) 40000"
        and src = "AddrPortFrom (Addr4 0x0A000001) 40000" and cn = "newConn ''s'' ''c''"])
    show "GenerateID 7 0 (inbound_metadata (sv_config hop_service) (AddrPortFrom (Addr4 0x0A000001) 40000)) = Some md"
      using md by simp
    show "remote_source (RemoteUDP [10, 0, 0, 1] 40000) = Some (AddrPortFrom (Addr4 0x0A000001) 40000)"
      using hop_remote by (simp add: remote_source_def)
    show "hop_service = sv_SetAuthSecret ''key'' (NewService keyed_service)" by (rule hop_service_def)
  qed (simp_all add: hop_defs tunnel_env_def in_time_def newConn_def hop_service_def [symmetric] hop_local)
  then obtain bs where sent: "send_preamble sample_dials (SetAuthSecret ''key'' (new_outbound_state hop_config)) TransportProtocolStream
        hop_metadata (Inr ([], [])) = Some (Inr ([], [] @ bs))"
    and run: "\<And>sid dialer listener start t rest. reachable sid dialer listener start t \<Longrightarrow> \<forall>j. \<not> s_closed (ep_sess (tn_ep t j)) \<Longrightarrow>
      ep_read (tn_ep t False) = [] \<Longrightarrow> concat (ep_wrote (tn_ep t True)) = bs @ rest \<Longrightarrow>
      \<exists>evs c'. (\<forall>x \<in> set evs. delivery_event (snd x)) \<and> cc_ahead s_readBuf (me_fresh tunnel_env) c' = rest \<and>
        handleInbound renv tunnel_env 7 0 0 rt hop_service (RemoteUDP [10, 0, 0, 1] 40000)
            (ep_sess (tn_ep (tunnel_run evs t) False)) [] =
          passed_on renv tunnel_env rt hop_service c' [] ?md"
    unfolding not_True_eq_False by blast
  have "concat (ep_wrote (tn_ep hop_lost True)) = bs @ [1, 2, 3]" using sent by (simp add: hop_lost_state(2) hop_bytes_sent)
  from run [OF hop_lost_reachable _ hop_lost_state(4) this] hop_lost_state(3) obtain evs c' where
    "cc_ahead s_readBuf (me_fresh tunnel_env) c' = [1, 2, 3]"
    "handleInbound renv tunnel_env 7 0 0 rt hop_service (RemoteUDP [10, 0, 0, 1] 40000)
            (ep_sess (tn_ep (tunnel_run evs hop_lost) False)) [] =
          passed_on renv tunnel_env rt hop_service c' [] ?md" by blast
  then show "\<exists>evs c' md. cc_ahead s_readBuf (replicate CacheSize 0) c' = [1, 2, 3] \<and>
      md_SourceAddress md = AddrPortFrom (Addr4 0x01020304) 5555 \<and>
      handleInbound renv tunnel_env 7 0 0 rt hop_service (RemoteUDP [10, 0, 0, 1] 40000)
          (ep_sess (tn_ep (tunnel_run evs hop_lost) False)) [] =
        passed_on renv tunnel_env rt hop_service c' [] md" using hop_canonical by (intro exI [of _ evs] exI [of _ c'] exI [of _ ?md]) (simp add: tunnel_env_def)
qed

end
