(* ===== verification/Spec2Isabelle.thy ===== *)
theory Spec2Isabelle
  imports TunnelDial Upstream Sockets Online StatusProxyFacts Program TunnelService ReleaseFacts HopTunnel
begin

text \<open>
  A verification development of ZBProxy (github.com/layou233/zbproxy, this repository), a reverse proxy
  for Minecraft servers. All paths are relative to the source directory.

  \<^bold>\<open>The program.\<close> An instance (zbproxy.go) is made from a configuration file (config) and has outbounds
  (protocol, protocol/minecraft), a router (route) and services (service). A service accepts TCP
  connections, and connections of a reliable UDP tunnel (common/udptunnel); it checks the pre-shared key
  (common/authsecret) and the address of the client (common/access), reads a PROXY protocol header
  (common/proxyprotocol) and hands the connection to the router. The rules of the router look at the
  metadata (adapter), may sniff the first packets (protocol/sniff.go, protocol/minecraft/sniff.go) over a
  connection that can be peeked and rewound (common/bufio), rewrite the destination, and choose an
  outbound. A plain outbound dials and relays; a Minecraft outbound answers a status request or checks
  the player, dials the server, writes the rewritten handshake and relays. Dialling goes over the system's
  dialer, over another outbound, over SOCKS (common/network/socks) or over the tunnel, by a path that is
  chosen from measured round-trip times (common/transportselect). When the file changes, the instance is
  updated in place.

  \<^bold>\<open>Conventions.\<close> Go's \<open>int\<close> is \<open>int\<close> where it is a position or a length and a word where its width is
  seen; sized integers are words, so that they wrap. A \<open>string\<close> is a list of characters that stand for
  bytes. An error is a \<open>go_error\<close>, a fallible function returns a sum. \<open>None\<close> of the option monad is a
  call that does not return a value: a panic (an index out of range, a nil pointer, the end of the process
  by \<open>logger.Fatal\<close>) or, for the \<open>partial_function\<close>s, one that runs forever. Methods take and return the
  record of their receiver. A connection is a pair of a state that is read and a state that is written;
  concretely (theory GoIO, \<open>net_Read\<close>) a script of segments and failures, so that every theorem over it
  holds for every way the network cuts a stream. Effects that are only observed (closing, lingering,
  unlocking, the counter of players) are events in their order. Locks are not states of their own except
  where holding one matters: a call that waits for a lock it can never get is \<open>Blocks\<close>, which is told from
  a panic through an update of the services up to the reload loop. What a goroutine does between two
  critical sections is one step of an interleaving (theories Tunnel, TunnelDial, Online, TunnelService).

  \<^bold>\<open>Foundations.\<close>
  Prelude has bytes, errors and slices, and the locale \<open>simulation\<close>.
  GoIO has \<open>io.Reader\<close> and its helpers (common/rw/read.go), with the interfaces \<open>io_reader\<close> and
  \<open>byte_source\<close>, which are interpreted on scripted connections, on well-behaved connections (McFacts)
  and on buffers (Buffers). Allocator and Buffers model common/buf; a buffer refines a bounded queue of
  bytes. VarInts, Packets and Messages model common/mcprotocol: variable-length integers, fields, frames
  and chat messages, with their round trips.

  \<^bold>\<open>The UDP tunnel.\<close>
  Frames: common/udptunnel/limits.go and frame.go, datagrams and their round trip.
  Sessions: session.go and conn.go, every critical section of a session and its invariant.
  Tunnel: two sessions over a network that loses, duplicates and reorders datagrams. What one end reads
  is, chunk by chunk, a prefix of what the other wrote; from every reachable state with both ends open
  the transfer can be completed; an orderly close loses what has not
  arrived, and the reader sees a plain end of file.
  Listener: listener.go and the steps of a dial, the invariant of the session table under every
  operation, the deadlock of \<open>Close\<close> and what it leaves, and the refused dial that is reported as a success.
  TunnelDial: dial.go as a whole (the waiting loop and the reading goroutine interleaved, the client's
  connection, the probe).

  \<^bold>\<open>Who may connect, and over which path.\<close>
  Access: common/set, common/access and common/authsecret, with the correctness of the key exchange.
  Selector: common/transportselect, which follows the probes.
  NetAddr and Metadata: addresses as net/netip has them, adapter/metadata.go and the console colours.
  ProxyProtocol: both versions of the header, writing and reading, their round trip over any segmentation
  and the address that is restored.

  \<^bold>\<open>Connections.\<close>
  CachedConns: common/bufio/cached.go and copy.go. Sniffing is transparent, the relay forwards a stream
  completely when no cached bytes are unread; when some are, it writes them over and over, and only a
  failure of the destination ends it.
  Upstream: common/upstream.go, unwrapping nested connections.

  \<^bold>\<open>Rules.\<close>
  Config: the records of the configuration, their hand-written decoders and defaults, loading, and the
  reload loop. Bitmaps, Domains, Louds and Matcher: common/domain, the succinct trie with rank and select,
  proved to be the set of its keys, and the matcher over it. Sniff and SniffFacts: the sniffers, and what
  they find. Rules: route/rule*.go, how rules are made and how they match. RuleFacts: the meaning of a
  rule (\<open>rule_holds\<close>), that matching decides it, and that construction gives rules of their type.

  \<^bold>\<open>Outbounds.\<close>
  Socks: the client of SOCKS 4, 4a and 5. Outbounds: protocol/outbound.go and the dialling half of
  protocol/minecraft/outbound.go: initialization, the choice of the path, the preamble, nested dialers.
  DialFacts: a dial returns exactly when the chain of dialers ends. Sockets: the options of sockets on
  every platform, common/network/system.go, and the listener's configuration. McOutbound: motd.go, kick.go
  and \<open>InjectConnection\<close>. McFacts: an admitted player is connected, a refused one is kicked and reaches
  nothing. Online: the counter of players under every interleaving of logins.

  \<^bold>\<open>The whole.\<close>
  Router: route/router.go and the built-in outbounds. Service: service/service.go. HopFacts: a connection
  that is not admitted reaches nothing, and what an outbound sends in front of a connection is understood
  by the service of the next hop. RouteFacts: what the router does with a connection from its rules to the
  end of the relay, and where that goes wrong. PlayerFacts: a player from the accepted connection over
  the rules to the server. StatusFacts and StatusProxyFacts: a status request from the accepted
  connection to the answer, given here or by the server. ReleaseFacts: the locks, the counter and the
  connections that a handled connection has taken are given back. Instance: the start and the update of zbproxy.go.
  InstanceFacts: what a started instance guarantees, cyclic dialers, and the outbounds a reload adds.
  Program: config/log.go, \<open>NewInstance\<close>, the signals of cmd/zbproxy/main.go, and the run of a program over
  the events of its reload loop, which is always on the last valid configuration. TunnelService: a service
  on the listener of the tunnel, with its accept loop and its handlers, as a step relation; every session
  is handed over once and in order, and a reload while a client is connected does not come to its end.
  HopTunnel: a connection of the tunnel is a reader like any other (an interpretation of \<open>io_reader\<close>), so
  two proxies that are joined by the tunnel agree, whatever the network loses.

  \<^bold>\<open>Termination and bounds.\<close> There is no fuel. Loops over data are recursive functions with measures; loops
  that wait for input (\<open>ReadAtLeast_loop\<close>, \<open>PeekUntil_loop\<close>, the copy loops, \<open>ReadFrom\<close>) and dials over
  nested outbounds are partial functions, and that they return is part of the theorems about them
  (\<open>dial_returns_iff\<close>, \<open>CopyBuffer_forwards\<close>, \<open>minecraft_sniffed\<close>). Sequence numbers of the tunnel are 32
  bits: the runs of Tunnel in which transfers are proved write fewer than 2^32 chunks on each side, and a
  lemma there shows that the acknowledgement wraps to nothing at that number.

  \<^bold>\<open>Parameters.\<close> What is not under the source directory is an argument: the operating system's sockets and
  its answers, the resolver, random numbers and the clock, the text of JSON (encoding/json; the model
  starts from syntax trees), \<open>time.ParseDuration\<close>, the address sets of go4.org/netipx, custom rules and
  sniffers, the logger's level names, the icon, and the order in which Go ranges over a map.

  \<^bold>\<open>Not modelled.\<close> Log output and the console (common/console apart from the colours), because nothing
  depends on it; version/git.go and the build constants; version/check.go, which is commented out; read
  deadlines other than as failures of a read; the splice fast path of \<open>CopyBuffer\<close>, which is \<open>io.Copy\<close> of
  the standard library; the memory model of Go, that is, data races on unlocked fields such as the
  contents of \<open>config.Root\<close> during a reload.
\<close>

end
